(* ===== verification/Prelude.thy ===== *)
theory Prelude
  imports Main "HOL-Library.List_Lexorder" "HOL-Library.Char_ord" "HOL-Library.Sublist"
    "HOL-Library.Code_Target_Nat"
begin

text \<open>
  Shared vocabulary of the development: the parts of Rust's standard library the modelled
  code uses, and the lemmas about them that the components share.

  A Rust \<^verbatim>\<open>str\<close> is modelled by the list of its UTF-8 bytes (type \<^typ>\<open>string\<close>), so
  \<^verbatim>\<open>len()\<close> is \<^const>\<open>length\<close>, and the order of \<^theory_text>\<open>List_Lexorder\<close> over
  \<^theory_text>\<open>Char_ord\<close> is \<^verbatim>\<open>Ord for str\<close>.  A \<^verbatim>\<open>Result<T, E>\<close> is the
  sum \<open>'e + 'a\<close> with \<open>Inl\<close> for \<^verbatim>\<open>Err\<close>.  A \<^verbatim>\<open>BTreeMap\<close> or
  \<^verbatim>\<open>BTreeSet\<close> is the list of its entries in iteration order (strictly ascending keys).
\<close>

named_theorems res_simps "unfolding the Result combinators"
named_theorems str_simps "evaluating the string operations"

section \<open>Results\<close>

type_synonym ('e, 'a) result = "'e + 'a"

definition is_ok :: "'e + 'a \<Rightarrow> bool" where
  "is_ok r = (case r of Inl _ \<Rightarrow> False | Inr _ \<Rightarrow> True)"

text \<open>The operator \<^verbatim>\<open>?\<close>: stop at the first error.\<close>

definition and_then :: "'e + 'a \<Rightarrow> ('a \<Rightarrow> 'e + 'b) \<Rightarrow> 'e + 'b" where
  "and_then r f = (case r of Inl e \<Rightarrow> Inl e | Inr x \<Rightarrow> f x)"

text \<open>A \<^verbatim>\<open>for\<close> loop whose body uses \<^verbatim>\<open>?\<close> and keeps no state.\<close>

fun for_each :: "('a \<Rightarrow> 'e + unit) \<Rightarrow> 'a list \<Rightarrow> 'e + unit" where
  "for_each f [] = Inr ()"
| "for_each f (x # xs) = and_then (f x) (\<lambda>_. for_each f xs)"

text \<open>The same with loop state.\<close>

fun try_fold :: "('s \<Rightarrow> 'a \<Rightarrow> 'e + 's) \<Rightarrow> 's \<Rightarrow> 'a list \<Rightarrow> 'e + 's" where
  "try_fold f s [] = Inr s"
| "try_fold f s (x # xs) = and_then (f s x) (\<lambda>s'. try_fold f s' xs)"

lemma is_ok_simps [simp]: "is_ok (Inr x)" "\<not> is_ok (Inl e)"
  by (simp_all add: is_ok_def)

lemma is_ok_iff: "is_ok r \<longleftrightarrow> (\<exists>x. r = Inr x)"
  by (cases r) auto

lemma is_ok_unit: "is_ok r \<longleftrightarrow> r = Inr ()"
  by (cases r) auto

lemma and_then_simps [simp]: "and_then (Inl e) f = Inl e" "and_then (Inr x) f = f x"
  by (simp_all add: and_then_def)

lemma and_then_eq_Inr [res_simps]:
  "and_then r f = Inr y \<longleftrightarrow> (\<exists>x. r = Inr x \<and> f x = Inr y)"
  by (cases r) auto

lemma and_then_eq_Inl [res_simps]:
  "and_then r f = Inl e \<longleftrightarrow> r = Inl e \<or> (\<exists>x. r = Inr x \<and> f x = Inl e)"
  by (cases r) auto

lemma case_err_ok:
  "(case r of Inl e \<Rightarrow> Inl (f e) | Inr x \<Rightarrow> g x) = Inr y \<longleftrightarrow> (\<exists>x. r = Inr x \<and> g x = Inr y)"
  by (cases r) auto

lemma for_each_ok [res_simps]:
  "for_each f xs = Inr u \<longleftrightarrow> (\<forall>x \<in> set xs. f x = Inr ())"
  by (induction xs) (auto simp: res_simps)

lemma try_fold_append:
  "try_fold f s (xs @ ys) = and_then (try_fold f s xs) (\<lambda>s'. try_fold f s' ys)"
  by (induction xs arbitrary: s) (auto simp: and_then_def split: sum.splits)

text \<open>An invariant of the loop state holds at the end of a loop that did not fail.\<close>

lemma try_fold_invariant:
  assumes "try_fold f s xs = Inr s'" and "I s"
    and "\<And>s x s'. x \<in> set xs \<Longrightarrow> I s \<Longrightarrow> f s x = Inr s' \<Longrightarrow> I s'"
  shows "I s'"
  using assms
proof (induction xs arbitrary: s)
  case Nil
  then show ?case by simp
next
  case (Cons x xs)
  from Cons.prems(1) obtain s1 where s1: "f s x = Inr s1" and rest: "try_fold f s1 xs = Inr s'"
    by (auto simp: res_simps)
  from Cons.prems(2,3) s1 have "I s1" by auto
  with rest Cons.prems(3) show ?case by (intro Cons.IH) auto
qed

section \<open>Bytes and strings\<close>

definition byte_in :: "char \<Rightarrow> char \<Rightarrow> char \<Rightarrow> bool" where
  "byte_in lo hi c \<longleftrightarrow> (of_char lo :: nat) \<le> of_char c \<and> (of_char c :: nat) \<le> of_char hi"

definition is_ascii_digit :: "char \<Rightarrow> bool" where
  "is_ascii_digit c = byte_in (CHR ''0'') (CHR ''9'') c"

definition is_ascii_lowercase :: "char \<Rightarrow> bool" where
  "is_ascii_lowercase c = byte_in (CHR ''a'') (CHR ''z'') c"

definition is_ascii_uppercase :: "char \<Rightarrow> bool" where
  "is_ascii_uppercase c = byte_in (CHR ''A'') (CHR ''Z'') c"

definition is_ascii_alphabetic :: "char \<Rightarrow> bool" where
  "is_ascii_alphabetic c \<longleftrightarrow> is_ascii_lowercase c \<or> is_ascii_uppercase c"

definition is_ascii_alphanumeric :: "char \<Rightarrow> bool" where
  "is_ascii_alphanumeric c \<longleftrightarrow> is_ascii_alphabetic c \<or> is_ascii_digit c"

definition is_ascii_hexdigit :: "char \<Rightarrow> bool" where
  "is_ascii_hexdigit c \<longleftrightarrow> is_ascii_digit c
     \<or> byte_in (CHR ''a'') (CHR ''f'') c \<or> byte_in (CHR ''A'') (CHR ''F'') c"

lemmas ascii_defs = is_ascii_digit_def is_ascii_lowercase_def is_ascii_uppercase_def
  is_ascii_alphabetic_def is_ascii_alphanumeric_def is_ascii_hexdigit_def byte_in_def

text \<open>A string between single quotes, as the messages print identifiers.\<close>

definition quoted :: "string \<Rightarrow> string" where
  "quoted s = CHR 0x27 # s @ [CHR 0x27]"

text \<open>\<^verbatim>\<open>strip_prefix\<close> and \<^verbatim>\<open>starts_with\<close>.\<close>

fun strip_prefix :: "string \<Rightarrow> string \<Rightarrow> string option" where
  "strip_prefix [] s = Some s"
| "strip_prefix (p # ps) [] = None"
| "strip_prefix (p # ps) (c # cs) = (if p = c then strip_prefix ps cs else None)"

definition strip_suffix :: "string \<Rightarrow> string \<Rightarrow> string option" where
  "strip_suffix p s = map_option rev (strip_prefix (rev p) (rev s))"

definition starts_with :: "string \<Rightarrow> string \<Rightarrow> bool" where
  "starts_with p s \<longleftrightarrow> strip_prefix p s \<noteq> None"

definition ends_with :: "string \<Rightarrow> string \<Rightarrow> bool" where
  "ends_with p s \<longleftrightarrow> strip_suffix p s \<noteq> None"

lemma strip_prefix_append [simp]: "strip_prefix p (p @ s) = Some s"
  by (induction p) auto

lemma strip_prefix_Some [str_simps]: "strip_prefix p s = Some r \<longleftrightarrow> s = p @ r"
  by (induction p s rule: strip_prefix.induct) auto

lemma strip_prefix_None: "strip_prefix p s = None \<longleftrightarrow> \<not> prefix p s"
  by (metis not_Some_eq prefix_def strip_prefix_Some)

lemma starts_with_prefix: "starts_with p s \<longleftrightarrow> prefix p s"
  by (simp add: starts_with_def strip_prefix_None)

lemma strip_suffix_Some [str_simps]: "strip_suffix p s = Some r \<longleftrightarrow> s = r @ p"
  unfolding strip_suffix_def map_option_eq_Some strip_prefix_Some
  by (metis rev_append rev_rev_ident)

lemma ends_with_suffix: "ends_with p s \<longleftrightarrow> suffix p s"
  unfolding ends_with_def suffix_def using strip_suffix_Some [of p s] by auto

text \<open>\<^verbatim>\<open>split(pattern)\<close> with a pattern of single bytes: always at least one part.\<close>

fun split_on :: "(char \<Rightarrow> bool) \<Rightarrow> string \<Rightarrow> string list" where
  "split_on P [] = [[]]"
| "split_on P (c # cs) =
     (if P c then [] # split_on P cs
      else (case split_on P cs of [] \<Rightarrow> [[c]] | y # ys \<Rightarrow> (c # y) # ys))"

abbreviation split_char :: "char \<Rightarrow> string \<Rightarrow> string list" where
  "split_char c \<equiv> split_on (\<lambda>x. x = c)"

text \<open>\<^verbatim>\<open>join(sep)\<close>.\<close>

fun join :: "string \<Rightarrow> string list \<Rightarrow> string" where
  "join sep [] = []"
| "join sep [x] = x"
| "join sep (x # y # ys) = x @ sep @ join sep (y # ys)"

lemma split_on_ne [simp]: "split_on P s \<noteq> []"
  by (cases s) (auto split: list.split)

lemma split_on_cases:
  obtains y ys where "split_on P s = y # ys"
  by (cases "split_on P s") auto

lemma split_on_parts: "x \<in> set (split_on P s) \<Longrightarrow> c \<in> set x \<Longrightarrow> \<not> P c"
proof (induction s arbitrary: x)
  case (Cons a s)
  obtain y ys where "split_on P s = y # ys" by (rule split_on_cases)
  with Cons show ?case by (fastforce split: if_splits)
qed simp

lemma split_on_subset: "x \<in> set (split_on P s) \<Longrightarrow> set x \<subseteq> set s"
proof (induction s arbitrary: x)
  case (Cons a s)
  obtain y ys where "split_on P s = y # ys" by (rule split_on_cases)
  with Cons show ?case by (fastforce split: if_splits)
qed simp

lemma join_Cons: "xs \<noteq> [] \<Longrightarrow> join sep (x # xs) = x @ sep @ join sep xs"
  by (cases xs) auto

lemma join_split_char [simp]: "join [c] (split_char c s) = s"
proof (induction s)
  case (Cons a s)
  obtain y ys where "split_char c s = y # ys" by (rule split_on_cases)
  with Cons show ?case by (cases ys) (auto simp: join_Cons)
qed simp

lemma split_on_plain [simp]: "\<forall>c \<in> set s. \<not> P c \<Longrightarrow> split_on P s = [s]"
  by (induction s) auto

lemma split_on_append:
  "\<forall>c \<in> set s. \<not> P c \<Longrightarrow> P d \<Longrightarrow> split_on P (s @ d # t) = s # split_on P t"
  by (induction s) auto

lemma split_char_join:
  "xs \<noteq> [] \<Longrightarrow> \<forall>x \<in> set xs. c \<notin> set x \<Longrightarrow> split_char c (join [c] xs) = xs"
proof (induction xs)
  case (Cons x xs)
  show ?case
  proof (cases "xs = []")
    case True
    with Cons.prems show ?thesis by (auto intro!: split_on_plain)
  next
    case False
    have "split_char c (x @ c # join [c] xs) = x # split_char c (join [c] xs)"
      using Cons.prems by (intro split_on_append) auto
    with False Cons show ?thesis by (simp add: join_Cons)
  qed
qed simp

text \<open>\<^verbatim>\<open>split_once(c)\<close> and \<^verbatim>\<open>rsplit_once(c)\<close>.\<close>

fun split_once :: "char \<Rightarrow> string \<Rightarrow> (string \<times> string) option" where
  "split_once d [] = None"
| "split_once d (c # cs) =
     (if c = d then Some ([], cs)
      else map_option (\<lambda>(a, b). (c # a, b)) (split_once d cs))"

definition rsplit_once :: "char \<Rightarrow> string \<Rightarrow> (string \<times> string) option" where
  "rsplit_once d s = map_option (\<lambda>(a, b). (rev b, rev a)) (split_once d (rev s))"

lemma split_once_append: "d \<notin> set a \<Longrightarrow> split_once d (a @ d # b) = Some (a, b)"
  by (induction a) auto

lemma split_once_SomeD: "split_once d s = Some (a, b) \<Longrightarrow> s = a @ d # b \<and> d \<notin> set a"
  by (induction s arbitrary: a) (auto split: if_splits)

lemma split_once_Some:
  "split_once d s = Some (a, b) \<longleftrightarrow> s = a @ d # b \<and> d \<notin> set a"
  using split_once_append split_once_SomeD by metis

lemma split_once_None: "split_once d s = None \<longleftrightarrow> d \<notin> set s"
  by (induction s) auto

lemma rsplit_once_Some:
  "rsplit_once d s = Some (a, b) \<longleftrightarrow> s = a @ d # b \<and> d \<notin> set b"
proof -
  have "rsplit_once d s = Some (a, b) \<longleftrightarrow> split_once d (rev s) = Some (rev b, rev a)"
    unfolding rsplit_once_def by force
  also have "\<dots> \<longleftrightarrow> rev s = rev b @ d # rev a \<and> d \<notin> set b"
    by (simp add: split_once_Some)
  also have "rev s = rev b @ d # rev a \<longleftrightarrow> s = a @ d # b"
    by (metis append.assoc append_Cons append_Nil rev.simps(2) rev_append rev_rev_ident)
  finally show ?thesis .
qed

lemma rsplit_once_None: "rsplit_once d s = None \<longleftrightarrow> d \<notin> set s"
  by (simp add: rsplit_once_def split_once_None)

text \<open>
  \<^verbatim>\<open>trim()\<close> removes leading and trailing Unicode white space: the code points of
  \<^verbatim>\<open>char::is_whitespace\<close>, written out as their UTF-8 encodings.
\<close>

definition white_space :: "string list" where
  "white_space =
     [[CHR 0x09], [CHR 0x0A], [CHR 0x0B], [CHR 0x0C], [CHR 0x0D], [CHR 0x20],
      [CHR 0xC2, CHR 0x85], [CHR 0xC2, CHR 0xA0], [CHR 0xE1, CHR 0x9A, CHR 0x80]]
     @ map (\<lambda>b. [CHR 0xE2, CHR 0x80, b])
         [CHR 0x80, CHR 0x81, CHR 0x82, CHR 0x83, CHR 0x84, CHR 0x85, CHR 0x86, CHR 0x87,
          CHR 0x88, CHR 0x89, CHR 0x8A, CHR 0xA8, CHR 0xA9, CHR 0xAF]
     @ [[CHR 0xE2, CHR 0x81, CHR 0x9F], [CHR 0xE3, CHR 0x80, CHR 0x80]]"

function strip_all :: "string list \<Rightarrow> string \<Rightarrow> string" where
  "strip_all seqs s =
     (case find (\<lambda>q. q \<noteq> [] \<and> starts_with q s) seqs of
        None \<Rightarrow> s
      | Some q \<Rightarrow> strip_all seqs (drop (length q) s))"
  by pat_completeness auto
termination
proof (relation "measure (\<lambda>(seqs, s). length s)", goal_cases)
  case (2 seqs s q)
  then have "q \<noteq> [] \<and> starts_with q s" by (auto simp: find_Some_iff)
  then show ?case by (auto simp: starts_with_prefix prefix_def)
qed simp

declare strip_all.simps [simp del]

definition trim_start :: "string \<Rightarrow> string" where
  "trim_start s = strip_all white_space s"

definition trim_end :: "string \<Rightarrow> string" where
  "trim_end s = rev (strip_all (map rev white_space) (rev s))"

definition trim :: "string \<Rightarrow> string" where
  "trim s = trim_end (trim_start s)"

lemma strip_all_id:
  "\<forall>q \<in> set seqs. q = [] \<or> \<not> starts_with q s \<Longrightarrow> strip_all seqs s = s"
proof -
  assume none: "\<forall>q \<in> set seqs. q = [] \<or> \<not> starts_with q s"
  then have "find (\<lambda>q. q \<noteq> [] \<and> starts_with q s) seqs = None"
    by (auto simp: find_None_iff)
  then show ?thesis by (subst strip_all.simps) simp
qed

lemma strip_all_suffix: "suffix (strip_all seqs s) s"
proof (induction seqs s rule: strip_all.induct)
  case (1 seqs s)
  show ?case
  proof (cases "find (\<lambda>q. q \<noteq> [] \<and> starts_with q s) seqs")
    case None
    then show ?thesis by (subst strip_all.simps) simp
  next
    case (Some q)
    with "1.IH" have "suffix (strip_all seqs (drop (length q) s)) s"
      using suffix_drop suffix_order.trans by blast
    with Some show ?thesis by (subst strip_all.simps) simp
  qed
qed

lemma strip_all_keeps_last:
  "\<forall>q \<in> set seqs. q \<noteq> [] \<longrightarrow> last q \<noteq> c \<Longrightarrow> strip_all seqs (t @ [c]) \<noteq> []"
proof (induction "length t" arbitrary: t rule: less_induct)
  case less
  show ?case
  proof (cases "find (\<lambda>q. q \<noteq> [] \<and> starts_with q (t @ [c])) seqs")
    case None
    then show ?thesis by (subst strip_all.simps) simp
  next
    case (Some q)
    then have q: "q \<in> set seqs" "q \<noteq> []" "prefix q (t @ [c])"
      unfolding find_Some_iff starts_with_prefix [symmetric] by (metis nth_mem)+
    then have "prefix q t"
      using less.prems by (auto simp: prefix_snoc)
    then obtain t' where t': "t = q @ t'"
      by (auto simp: prefix_def)
    then have "strip_all seqs (t' @ [c]) \<noteq> []"
      using less.hyps [of t'] less.prems q(2) by simp
    then show ?thesis
      using Some t' by (subst strip_all.simps) simp
  qed
qed

definition edge_byte :: "char \<Rightarrow> bool" where
  "edge_byte c \<longleftrightarrow> is_ascii_alphanumeric c \<or> c \<in> set ''.-_:/<>=+*''"

lemma white_space_bytes:
  assumes "q \<in> set white_space"
  shows "q \<noteq> [] \<and> \<not> edge_byte (hd q) \<and> \<not> edge_byte (last q)"
proof -
  have "list_all (\<lambda>q. q \<noteq> [] \<and> \<not> edge_byte (hd q) \<and> \<not> edge_byte (last q)) white_space"
    by code_simp
  with assms show ?thesis by (simp add: list_all_iff)
qed

lemma trim_id:
  assumes "s = [] \<or> edge_byte (hd s) \<and> edge_byte (last s)"
  shows "trim s = s"
proof -
  have start: "strip_all white_space s = s"
  proof (rule strip_all_id, intro ballI)
    fix q assume "q \<in> set white_space"
    with white_space_bytes have "q \<noteq> []" "\<not> edge_byte (hd q)" by blast+
    with assms show "q = [] \<or> \<not> starts_with q s"
      by (auto simp: starts_with_prefix prefix_def hd_append)
  qed
  have "strip_all (map rev white_space) (rev s) = rev s"
  proof (rule strip_all_id, intro ballI)
    fix q assume "q \<in> set (map rev white_space)"
    then obtain q' where q': "q = rev q'" "q' \<in> set white_space" by auto
    with white_space_bytes have "q' \<noteq> []" "\<not> edge_byte (last q')" by blast+
    with q' assms show "q = [] \<or> \<not> starts_with q (rev s)"
      by (auto simp: starts_with_prefix suffix_to_prefix [symmetric] suffix_def)
  qed
  with start show ?thesis by (simp add: trim_def trim_start_def trim_end_def)
qed

text \<open>Evaluation of \<^const>\<open>trim\<close> skips the table where the ends show that nothing is removed.\<close>

lemma trim_code [code]:
  "trim s = (if s = [] \<or> edge_byte (hd s) \<and> edge_byte (last s) then s
             else trim_end (trim_start s))"
  using trim_id by (simp add: trim_def)

lemma trim_nonempty:
  assumes "edge_byte c"
  shows "trim (c # s) \<noteq> []"
proof -
  have first: "strip_all white_space (c # s) = c # s"
  proof (rule strip_all_id, intro ballI)
    fix q assume "q \<in> set white_space"
    with white_space_bytes have "q \<noteq> []" "\<not> edge_byte (hd q)" by blast+
    with assms show "q = [] \<or> \<not> starts_with q (c # s)"
      by (cases q) (auto simp: starts_with_prefix)
  qed
  have "strip_all (map rev white_space) (rev s @ [c]) \<noteq> []"
  proof (rule strip_all_keeps_last, intro ballI impI)
    fix q assume "q \<in> set (map rev white_space)" "q \<noteq> []"
    then obtain q' where "q = rev q'" "q' \<in> set white_space" by auto
    then show "last q \<noteq> c"
      using assms white_space_bytes [of q'] by (auto simp: last_rev)
  qed
  then show ?thesis
    by (simp add: trim_def trim_start_def trim_end_def first)
qed

text \<open>\<^verbatim>\<open>replace(c, "")\<close> and \<^verbatim>\<open>replace(c, d)\<close>.\<close>

definition remove_char :: "char \<Rightarrow> string \<Rightarrow> string" where
  "remove_char c s = filter (\<lambda>x. x \<noteq> c) s"

definition replace_char :: "char \<Rightarrow> char \<Rightarrow> string \<Rightarrow> string" where
  "replace_char c d s = map (\<lambda>x. if x = c then d else x) s"

text \<open>\<^verbatim>\<open>contains(pattern)\<close> with a string pattern, and \<^verbatim>\<open>to_ascii_lowercase\<close>.\<close>

fun contains_str :: "string \<Rightarrow> string \<Rightarrow> bool" where
  "contains_str p [] \<longleftrightarrow> p = []"
| "contains_str p (c # cs) \<longleftrightarrow> starts_with p (c # cs) \<or> contains_str p cs"

definition ascii_lower :: "char \<Rightarrow> char" where
  "ascii_lower c = (if is_ascii_uppercase c then char_of (of_char c + 32 :: nat) else c)"

abbreviation to_ascii_lowercase :: "string \<Rightarrow> string" where
  "to_ascii_lowercase \<equiv> map ascii_lower"

text \<open>\<^verbatim>\<open>Iterator::max_by_key\<close>: the last of the items with the greatest key.\<close>

definition max_by_key :: "('a \<Rightarrow> 'k::linorder) \<Rightarrow> 'a list \<Rightarrow> 'a option" where
  "max_by_key key xs =
     foldl (\<lambda>best x. case best of None \<Rightarrow> Some x | Some b \<Rightarrow> if key b \<le> key x then Some x else Some b)
       None xs"

lemma max_by_key_snoc:
  "max_by_key key (xs @ [x]) =
     (case max_by_key key xs of None \<Rightarrow> Some x | Some b \<Rightarrow> if key b \<le> key x then Some x else Some b)"
  by (simp add: max_by_key_def)

lemma max_by_key_None [simp]: "max_by_key key xs = None \<longleftrightarrow> xs = []"
  by (induction xs rule: rev_induct)
     (auto simp: max_by_key_snoc max_by_key_def [of _ "[]"] split: option.splits)

lemma max_by_key_SomeD:
  "max_by_key key xs = Some m \<Longrightarrow> m \<in> set xs \<and> (\<forall>x \<in> set xs. key x \<le> key m)"
proof (induction xs arbitrary: m rule: rev_induct)
  case Nil
  then show ?case by (simp add: max_by_key_def)
next
  case (snoc x xs)
  then show ?case
    by (cases "max_by_key key xs") (force simp: max_by_key_snoc split: if_splits)+
qed

section \<open>Numbers\<close>

text \<open>\<^verbatim>\<open>to_string()\<close> of an unsigned integer.\<close>

fun to_decimal :: "nat \<Rightarrow> string" where
  "to_decimal n =
     (if n < 10 then [char_of (48 + n)] else to_decimal (n div 10) @ [char_of (48 + n mod 10)])"

declare to_decimal.simps [simp del]

text \<open>
  \<^verbatim>\<open>str::parse::<uN>()\<close>: an optional plus sign, then at least one digit, and the value
  below the type's bound; everything else (a minus sign, overflow, an empty string) is an
  error.
\<close>

definition digit_value :: "char \<Rightarrow> nat" where
  "digit_value c = of_char c - of_char (CHR ''0'')"

fun digits_value :: "nat \<Rightarrow> string \<Rightarrow> nat" where
  "digits_value acc [] = acc"
| "digits_value acc (c # cs) = digits_value (acc * 10 + digit_value c) cs"

definition parse_uint :: "nat \<Rightarrow> string \<Rightarrow> nat option" where
  "parse_uint bound s =
     (let body = (case s of c # cs \<Rightarrow> if c = CHR ''+'' then cs else s | [] \<Rightarrow> s)
      in if body = [] \<or> \<not> list_all is_ascii_digit body \<or> bound \<le> digits_value 0 body
         then None else Some (digits_value 0 body))"

abbreviation parse_u64 :: "string \<Rightarrow> nat option" where
  "parse_u64 \<equiv> parse_uint (2 ^ 64)"

abbreviation parse_u32 :: "string \<Rightarrow> nat option" where
  "parse_u32 \<equiv> parse_uint (2 ^ 32)"

lemma parse_uint_bound: "parse_uint b s = Some n \<Longrightarrow> n < b"
  by (auto simp: parse_uint_def Let_def split: if_splits)

lemma digits_value_append: "digits_value a (s @ t) = digits_value (digits_value a s) t"
  by (induction s arbitrary: a) auto

lemma digit_char:
  assumes "d < 10"
  shows "digit_value (char_of (48 + d)) = d" and "is_ascii_digit (char_of (48 + d :: nat))"
  using assms by (simp_all add: digit_value_def ascii_defs)

lemma to_decimal_value: "digits_value 0 (to_decimal n) = n"
  by (induction n rule: to_decimal.induct)
     (subst to_decimal.simps, auto simp: digits_value_append digit_char)

lemma to_decimal_digits: "list_all is_ascii_digit (to_decimal n) \<and> to_decimal n \<noteq> []"
  by (induction n rule: to_decimal.induct) (subst (1 2) to_decimal.simps, simp add: digit_char)

lemma to_decimal_inject: "to_decimal m = to_decimal n \<longleftrightarrow> m = n"
  by (metis to_decimal_value)

text \<open>\<^verbatim>\<open>std::cmp::Ordering\<close> and \<^verbatim>\<open>Ord::cmp\<close> on numbers.\<close>

datatype ordering = Less | Equal | Greater

definition cmp_nat :: "nat \<Rightarrow> nat \<Rightarrow> ordering" where
  "cmp_nat x y = (if x < y then Less else if x = y then Equal else Greater)"

text \<open>\<^verbatim>\<open>Option::collect\<close> over a list of options: all present, or \<^const>\<open>None\<close>.\<close>

fun collect_opt :: "'a option list \<Rightarrow> 'a list option" where
  "collect_opt [] = Some []"
| "collect_opt (None # xs) = None"
| "collect_opt (Some x # xs) = map_option (\<lambda>ys. x # ys) (collect_opt xs)"

lemma collect_opt_Some: "collect_opt xs = Some ys \<longleftrightarrow> xs = map Some ys"
  by (induction xs arbitrary: ys rule: collect_opt.induct) (auto simp: Cons_eq_map_conv)

lemma collect_opt_None: "collect_opt xs = None \<longleftrightarrow> None \<in> set xs"
  by (induction xs rule: collect_opt.induct) auto

section \<open>Ordered sets and maps\<close>

text \<open>
  The interface of \<^verbatim>\<open>BTreeMap\<close> that the code relies on: what a lookup returns after an
  insertion, and that iteration is in ascending key order.  The lemmas about loops of
  insertions are proved once here.
\<close>

locale ordered_map =
  fixes empty :: 'm
    and ins :: "'k::linorder \<Rightarrow> 'v \<Rightarrow> 'm \<Rightarrow> 'm"
    and get :: "'m \<Rightarrow> 'k \<Rightarrow> 'v option"
    and keys :: "'m \<Rightarrow> 'k list"
    and inv :: "'m \<Rightarrow> bool"
  assumes inv_empty: "inv empty"
    and inv_ins: "inv m \<Longrightarrow> inv (ins k v m)"
    and get_empty: "get empty k = None"
    and get_ins: "inv m \<Longrightarrow> get (ins k v m) k' = (if k' = k then Some v else get m k')"
    and keys_ascending: "inv m \<Longrightarrow> sorted_wrt (<) (keys m)"
    and keys_get: "inv m \<Longrightarrow> k \<in> set (keys m) \<longleftrightarrow> get m k \<noteq> None"
begin

lemma inv_inserts: "inv m \<Longrightarrow> inv (foldl (\<lambda>acc (k, v). ins k v acc) m kvs)"
  by (induction kvs arbitrary: m) (auto intro: inv_ins)

lemma get_inserts:
  "inv m \<Longrightarrow> get (foldl (\<lambda>acc (k, v). ins k v acc) m kvs) k =
     (case map_of (rev kvs) k of Some v \<Rightarrow> Some v | None \<Rightarrow> get m k)"
proof (induction kvs arbitrary: m)
  case Nil
  then show ?case by simp
next
  case (Cons kv kvs)
  obtain a b where kv: "kv = (a, b)" by (cases kv)
  from Cons.prems have "inv (ins a b m)" by (rule inv_ins)
  with Cons kv show ?case
    by (auto simp: map_add_def get_ins split: option.splits)
qed

lemma keys_inserts:
  "inv m \<Longrightarrow> set (keys (foldl (\<lambda>acc (k, v). ins k v acc) m kvs)) = set (keys m) \<union> fst ` set kvs"
proof -
  assume m: "inv m"
  let ?m' = "foldl (\<lambda>acc (k, v). ins k v acc) m kvs"
  show ?thesis
  proof (rule set_eqI)
    fix k
    have "k \<in> set (keys ?m') \<longleftrightarrow> get ?m' k \<noteq> None"
      using m by (simp add: keys_get inv_inserts)
    also have "\<dots> \<longleftrightarrow> get m k \<noteq> None \<or> map_of (rev kvs) k \<noteq> None"
      using m by (simp add: get_inserts split: option.split)
    also have "\<dots> \<longleftrightarrow> k \<in> set (keys m) \<union> fst ` set kvs"
      using m by (simp add: keys_get map_of_eq_None_iff)
    finally show "k \<in> set (keys ?m') \<longleftrightarrow> k \<in> set (keys m) \<union> fst ` set kvs" .
  qed
qed

lemma keys_distinct: "inv m \<Longrightarrow> distinct (keys m)"
  using keys_ascending strict_sorted_iff by blast

end

type_synonym ('k, 'v) btree_map = "('k \<times> 'v) list"
type_synonym 'k btree_set = "'k list"

fun bt_insert :: "'k::linorder \<Rightarrow> 'v \<Rightarrow> ('k, 'v) btree_map \<Rightarrow> ('k, 'v) btree_map" where
  "bt_insert k v [] = [(k, v)]"
| "bt_insert k v ((a, b) # m) =
     (if k = a then (k, v) # m
      else if k < a then (k, v) # (a, b) # m
      else (a, b) # bt_insert k v m)"

abbreviation bt_get :: "('k, 'v) btree_map \<Rightarrow> 'k \<Rightarrow> 'v option" where
  "bt_get \<equiv> map_of"

abbreviation bt_keys :: "('k, 'v) btree_map \<Rightarrow> 'k list" where
  "bt_keys m \<equiv> map fst m"

definition bt_ok :: "('k::linorder, 'v) btree_map \<Rightarrow> bool" where
  "bt_ok m \<longleftrightarrow> sorted_wrt (<) (bt_keys m)"

fun bs_insert :: "'k::linorder \<Rightarrow> 'k btree_set \<Rightarrow> 'k btree_set" where
  "bs_insert k [] = [k]"
| "bs_insert k (a # s) =
     (if k = a then a # s else if k < a then k # a # s else a # bs_insert k s)"

lemma map_of_bt_insert [simp]: "map_of (bt_insert k v m) = (map_of m)(k \<mapsto> v)"
  by (induction k v m rule: bt_insert.induct) (auto simp: fun_upd_twist)

lemma set_bt_keys_insert [simp]: "fst ` set (bt_insert k v m) = insert k (fst ` set m)"
  by (induction k v m rule: bt_insert.induct) auto

lemma bt_ok_insert: "bt_ok m \<Longrightarrow> bt_ok (bt_insert k v m)"
proof (induction k v m rule: bt_insert.induct)
  case (2 k v a b m)
  then have "bt_ok m" and lt: "\<forall>x \<in> fst ` set m. a < x" by (auto simp: bt_ok_def)
  with 2 show ?case
    using set_bt_keys_insert [of k v m] by (auto simp: bt_ok_def)
qed (simp add: bt_ok_def)

lemma set_bs_insert [simp]: "set (bs_insert k s) = insert k (set s)"
  by (induction k s rule: bs_insert.induct) auto

lemma sorted_bs_insert: "sorted_wrt (<) s \<Longrightarrow> sorted_wrt (<) (bs_insert k s)"
  by (induction k s rule: bs_insert.induct) auto

interpretation btree: ordered_map "[]" bt_insert bt_get bt_keys bt_ok
proof unfold_locales
  show "bt_ok []" by (simp add: bt_ok_def)
next
  fix m :: "('a \<times> 'b) list" and k v
  assume "bt_ok m"
  then show "bt_ok (bt_insert k v m)" by (rule bt_ok_insert)
next
  fix m :: "('a \<times> 'b) list"
  assume "bt_ok m"
  then show "sorted_wrt (<) (bt_keys m)" by (simp add: bt_ok_def)
qed (auto simp: map_of_eq_None_iff)

text \<open>
  A loop of checks that collects the keys it has seen and rejects a key seen before, as the
  validators of manifests write it.  It passes exactly the lists whose items pass and whose
  keys are distinct.
\<close>

locale unique_loop =
  fixes step :: "'k::linorder btree_set \<Rightarrow> 'x \<Rightarrow> 'e + 'k btree_set"
    and item_ok :: "'x \<Rightarrow> bool"
    and key :: "'x \<Rightarrow> 'k"
  assumes step_ok: "step seen x = Inr seen' \<longleftrightarrow>
    item_ok x \<and> key x \<notin> set seen \<and> seen' = bs_insert (key x) seen"
begin

lemma loop_result: "try_fold step seen xs = Inr seen' \<Longrightarrow> set seen' = set seen \<union> key ` set xs"
  by (induction xs arbitrary: seen) (auto simp: res_simps step_ok)

lemma loop_passes:
  "(\<exists>seen'. try_fold step seen xs = Inr seen') \<longleftrightarrow>
     (\<forall>x \<in> set xs. item_ok x) \<and> distinct (map key xs) \<and> set seen \<inter> key ` set xs = {}"
  by (induction xs arbitrary: seen) (auto simp: res_simps step_ok)

lemma loop_from_empty:
  "try_fold step [] xs = Inr seen' \<Longrightarrow>
     (\<forall>x \<in> set xs. item_ok x) \<and> distinct (map key xs) \<and> set seen' = key ` set xs"
  using loop_passes [of "[]" xs] loop_result [of "[]" xs seen'] by auto

end

end
