(* ===== verification/Errors.thy ===== *)
theory Errors
  imports Prelude "HOL-Library.Word"
begin

text \<open>
  The error type shared by the crates (\<^verbatim>\<open>crates/ost-core/src/error.rs\<close>): every error
  has a stable machine code and a category, and the category alone determines the exit code
  of the process.  A source error of another library (\<^verbatim>\<open>std::io::Error\<close>,
  \<^verbatim>\<open>anyhow::Error\<close>) is carried as its rendered text.
\<close>

section \<open>Documents\<close>

text \<open>A JSON document as \<^verbatim>\<open>serde_json::Value\<close> presents it; a float keeps its text.\<close>

datatype json =
    JNull
  | JBool bool
  | JInt int
  | JFloat string
  | JString string
  | JArray "json list"
  | JObject "(string \<times> json) list"

section \<open>Categories\<close>

datatype category =
    Usage
  | Configuration
  | Precondition
  | Validation
  | ExternalTool
  | IoCategory
  | Internal

definition all_categories :: "category list" where
  "all_categories =
     [Usage, Configuration, Precondition, Validation, ExternalTool, IoCategory, Internal]"

fun category_describe :: "category \<Rightarrow> string" where
  "category_describe Usage = ''Bad arguments or usage.''"
| "category_describe Configuration = ''Invalid manifest, lock, or configuration.''"
| "category_describe Precondition = ''A missing prerequisite: runtime, tool, or directory.''"
| "category_describe Validation = ''A validation mismatch (lock check, validate, plugin test).''"
| "category_describe ExternalTool = ''An external tool failed (CMake, Ninja, compiler, OpenUSD).''"
| "category_describe IoCategory = ''Filesystem or permission error.''"
| "category_describe Internal = ''An unexpected internal error.''"

fun category_exit_code :: "category \<Rightarrow> 8 word" where
  "category_exit_code Usage = 2"
| "category_exit_code Configuration = 3"
| "category_exit_code Precondition = 4"
| "category_exit_code Validation = 5"
| "category_exit_code ExternalTool = 6"
| "category_exit_code IoCategory = 7"
| "category_exit_code Internal = 70"

fun category_as_str :: "category \<Rightarrow> string" where
  "category_as_str Usage = ''usage''"
| "category_as_str Configuration = ''configuration''"
| "category_as_str Precondition = ''precondition''"
| "category_as_str Validation = ''validation''"
| "category_as_str ExternalTool = ''external_tool''"
| "category_as_str IoCategory = ''io''"
| "category_as_str Internal = ''internal''"

section \<open>Errors\<close>

datatype error =
    PlatformNotFound string
  | InvalidManifest string
  | Operation string
  | Coded (coded_code: string) (coded_category: category) (coded_message: string)
      (coded_hint: "string option") (coded_phase: "string option")
      (coded_data: "json option") (coded_warnings: "json list option")
  | ProjectExists string
  | ProjectNotFound string
  | Io string string
  | Parse string string

type_synonym 'a res = "error + 'a"

definition coded :: "string \<Rightarrow> category \<Rightarrow> string \<Rightarrow> error" where
  "coded code category message = Coded code category message None None None None"

definition usage :: "string \<Rightarrow> error" where
  "usage message = coded ''INVALID_ARGUMENT'' Usage message"

definition config_error :: "string \<Rightarrow> error" where
  "config_error message = coded ''INVALID_CONFIG'' Configuration message"

definition precondition :: "string \<Rightarrow> error" where
  "precondition message = coded ''PRECONDITION_FAILED'' Precondition message"

definition validation :: "string \<Rightarrow> error" where
  "validation message = coded ''VALIDATION_FAILED'' Validation message"

definition external_tool :: "string \<Rightarrow> error" where
  "external_tool message = coded ''EXTERNAL_TOOL_FAILED'' ExternalTool message"

fun with_hint :: "string \<Rightarrow> error \<Rightarrow> error" where
  "with_hint h (Coded c k m hint p d w) = Coded c k m (Some h) p d w"
| "with_hint h e = e"

fun with_phase :: "string \<Rightarrow> error \<Rightarrow> error" where
  "with_phase ph (Coded c k m h phase d w) = Coded c k m h (Some ph) d w"
| "with_phase ph e = e"

fun with_data :: "json \<Rightarrow> error \<Rightarrow> error" where
  "with_data v (Coded c k m h p data w) = Coded c k m h p (Some v) w"
| "with_data v e = e"

fun with_warnings :: "json list \<Rightarrow> error \<Rightarrow> error" where
  "with_warnings ws (Coded c k m h p d warnings) =
     Coded c k m h p d (if ws = [] then None else Some ws)"
| "with_warnings ws e = e"

fun error_phase :: "error \<Rightarrow> string option" where
  "error_phase (Coded c k m h p d w) = p"
| "error_phase e = None"

fun error_data :: "error \<Rightarrow> json option" where
  "error_data (Coded c k m h p d w) = d"
| "error_data e = None"

fun error_warnings :: "error \<Rightarrow> json list" where
  "error_warnings (Coded c k m h p d w) = (case w of None \<Rightarrow> [] | Some ws \<Rightarrow> ws)"
| "error_warnings e = []"

fun error_hint :: "error \<Rightarrow> string option" where
  "error_hint (Coded c k m h p d w) = h"
| "error_hint e = None"

text \<open>The rendering of an error as a message.\<close>

fun error_display :: "error \<Rightarrow> string" where
  "error_display (PlatformNotFound p) = ''platform '' @ quoted p @ '' not found (try `ost platform list`)''"
| "error_display (InvalidManifest why) = ''manifest is invalid: '' @ why"
| "error_display (Operation why) = why"
| "error_display (Coded c k m h p d w) = m"
| "error_display (ProjectExists p) = ''a project already exists here: '' @ p"
| "error_display (ProjectNotFound p) =
     ''no OpenStrata project found in '' @ quoted p @ '' or any parent (run `ost init`)''"
| "error_display (Io path source) = ''i/o error at '' @ path @ '': '' @ source"
| "error_display (Parse what source) = ''could not parse '' @ what @ '': '' @ source"

fun error_code :: "error \<Rightarrow> string" where
  "error_code (PlatformNotFound _) = ''PLATFORM_NOT_FOUND''"
| "error_code (InvalidManifest _) = ''MANIFEST_INVALID''"
| "error_code (ProjectExists _) = ''PROJECT_EXISTS''"
| "error_code (ProjectNotFound _) = ''PROJECT_NOT_FOUND''"
| "error_code (Io _ _) = ''IO_ERROR''"
| "error_code (Parse _ _) = ''PARSE_FAILED''"
| "error_code (Coded c k m h p d w) = c"
| "error_code (Operation _) = ''OPERATION_FAILED''"

fun error_category :: "error \<Rightarrow> category" where
  "error_category (PlatformNotFound _) = Usage"
| "error_category (InvalidManifest _) = Configuration"
| "error_category (Parse _ _) = Configuration"
| "error_category (ProjectExists _) = Usage"
| "error_category (ProjectNotFound _) = Precondition"
| "error_category (Io _ _) = IoCategory"
| "error_category (Coded c k m h p d w) = k"
| "error_category (Operation _) = Precondition"

definition error_exit_code :: "error \<Rightarrow> 8 word" where
  "error_exit_code e = category_exit_code (error_category e)"

lemmas coded_constructors =
  coded_def usage_def config_error_def precondition_def validation_def external_tool_def

lemma coded_code_eq [simp]: "error_code (coded c k m) = c"
  and coded_category_eq [simp]: "error_category (coded c k m) = k"
  by (simp_all add: coded_def)

text \<open>An error builder: it fills a slot of a coded error and touches nothing CI branches on.\<close>

locale error_builder =
  fixes build :: "error \<Rightarrow> error"
  assumes build_coded:
    "\<exists>h' p' d' w'. build (Coded c k m h p d w) = Coded c k m h' p' d' w'"
    and build_plain: "\<not> is_Coded e \<Longrightarrow> build e = e"
begin

lemma keeps_code_category:
  "error_code (build e) = error_code e \<and> error_category (build e) = error_category e"
proof (cases e)
  case (Coded c k m h p d w)
  then show ?thesis using build_coded [of c k m h p d w] by auto
qed (simp_all add: build_plain)

lemmas keeps_code = keeps_code_category [THEN conjunct1]
lemmas keeps_category = keeps_code_category [THEN conjunct2]

lemma keeps_exit_code: "error_exit_code (build e) = error_exit_code e"
  by (simp add: error_exit_code_def keeps_category)

end

interpretation hint_builder: error_builder "with_hint h" for h
  by unfold_locales (auto, case_tac e, auto)

interpretation phase_builder: error_builder "with_phase p" for p
  by unfold_locales (auto, case_tac e, auto)

interpretation data_builder: error_builder "with_data d" for d
  by unfold_locales (auto, case_tac e, auto)

interpretation warnings_builder: error_builder "with_warnings ws" for ws
  by unfold_locales (auto, case_tac e, auto)

lemma all_categories_complete: "k \<in> set all_categories"
  by (cases k) (simp_all add: all_categories_def)

lemma category_exit_code_inj: "category_exit_code k = category_exit_code k' \<Longrightarrow> k = k'"
  by (cases k; cases k') simp_all

lemma category_exit_code_failure: "category_exit_code k \<noteq> 0"
  by (cases k) simp_all

lemma category_as_str_inj: "category_as_str k = category_as_str k' \<Longrightarrow> k = k'"
  by (cases k; cases k') simp_all

end
