(* ===== verification/Hosts.thy ===== *)
theory Hosts
  imports Errors
begin

text \<open>
  Hosts and artifact variants (\<^verbatim>\<open>crates/ost-core/src/host.rs\<close> and
  \<^verbatim>\<open>variant.rs\<close>): the identity every lock file and diagnostic records, and the slugs
  it is printed as.
\<close>

section \<open>Host\<close>

datatype os = Linux | Macos | Windows

datatype arch = X86_64 | Arm64

record host =
  host_os :: os
  host_arch :: arch

fun os_as_str :: "os \<Rightarrow> string" where
  "os_as_str Linux = ''linux''"
| "os_as_str Macos = ''macos''"
| "os_as_str Windows = ''windows''"

fun arch_as_str :: "arch \<Rightarrow> string" where
  "arch_as_str X86_64 = ''x86_64''"
| "arch_as_str Arm64 = ''arm64''"

definition host_slug :: "host \<Rightarrow> string" where
  "host_slug h = os_as_str (host_os h) @ ''-'' @ arch_as_str (host_arch h)"

definition is_primary :: "host \<Rightarrow> bool" where
  "is_primary h \<longleftrightarrow> host_os h = Linux \<and> host_arch h = X86_64"

section \<open>Variants\<close>

datatype abi = Glibc string | Msvc string | MacosFloor string | Native

record variant =
  variant_os :: os
  variant_arch :: arch
  variant_abi :: abi
  variant_python :: string

fun abi_token :: "abi \<Rightarrow> string option" where
  "abi_token (Glibc version) = Some (''glibc'' @ remove_char (CHR ''.'') version)"
| "abi_token (Msvc toolset) = Some (''msvc'' @ toolset)"
| "abi_token (MacosFloor version) = Some (''macos'' @ remove_char (CHR ''.'') version)"
| "abi_token Native = None"

fun abi_describe :: "abi \<Rightarrow> string" where
  "abi_describe (Glibc version) = ''glibc '' @ version"
| "abi_describe (Msvc toolset) = ''msvc '' @ toolset"
| "abi_describe (MacosFloor version) = ''macos '' @ version"
| "abi_describe Native = ''native''"

fun abi_default_for :: "os \<Rightarrow> abi" where
  "abi_default_for Linux = Glibc ''2.28''"
| "abi_default_for Windows = Msvc ''143''"
| "abi_default_for Macos = Native"

definition variant_new :: "host \<Rightarrow> abi \<Rightarrow> string \<Rightarrow> variant" where
  "variant_new h a python =
     \<lparr>variant_os = host_os h, variant_arch = host_arch h, variant_abi = a, variant_python = python\<rparr>"

definition slug :: "variant \<Rightarrow> string" where
  "slug v =
     join ''-''
       ([os_as_str (variant_os v), arch_as_str (variant_arch v)]
        @ (case abi_token (variant_abi v) of Some tok \<Rightarrow> [tok] | None \<Rightarrow> [])
        @ [''py'' @ variant_python v])"

definition short_slug :: "variant \<Rightarrow> string" where
  "short_slug v =
     os_as_str (variant_os v) @ ''-'' @ arch_as_str (variant_arch v) @ ''-py'' @ variant_python v"

definition python_abi :: "variant \<Rightarrow> string" where
  "python_abi v =
     (let os_suffix = (case variant_os v of Linux \<Rightarrow> ''linux-gnu'' | Macos \<Rightarrow> ''darwin''
                       | Windows \<Rightarrow> ''windows-msvc'')
      in ''cpython-'' @ variant_python v @ ''-'' @ arch_as_str (variant_arch v) @ ''-'' @ os_suffix)"

section \<open>What a slug identifies\<close>

lemma os_as_str_inj: "os_as_str a = os_as_str b \<Longrightarrow> a = b"
  by (cases a; cases b) simp_all

lemma arch_as_str_inj: "arch_as_str a = arch_as_str b \<Longrightarrow> a = b"
  by (cases a; cases b) simp_all

lemma os_as_str_plain: "CHR ''-'' \<notin> set (os_as_str o')"
  by (cases o') simp_all

lemma arch_as_str_plain: "CHR ''-'' \<notin> set (arch_as_str a)"
  by (cases a) simp_all

text \<open>A variant whose version texts carry no dash, as every producer writes them.\<close>

definition dash_free :: "variant \<Rightarrow> bool" where
  "dash_free v \<longleftrightarrow> CHR ''-'' \<notin> set (variant_python v)
     \<and> (case abi_token (variant_abi v) of Some t \<Rightarrow> CHR ''-'' \<notin> set t | None \<Rightarrow> True)"

lemma split_slug:
  assumes "dash_free v"
  shows "split_char (CHR ''-'') (slug v) =
     [os_as_str (variant_os v), arch_as_str (variant_arch v)]
     @ (case abi_token (variant_abi v) of Some tok \<Rightarrow> [tok] | None \<Rightarrow> [])
     @ [''py'' @ variant_python v]"
  unfolding slug_def using assms
  by (intro split_char_join)
     (auto simp: dash_free_def os_as_str_plain arch_as_str_plain split: option.splits)

text \<open>
  The canonical slug identifies the operating system, the architecture, the ABI token
  and the Python version: two variants whose version texts carry no dash and that print the
  same slug agree on all four.
\<close>

lemma slug_identifies_variant:
  assumes "dash_free v" and "dash_free w" and "slug v = slug w"
  shows "variant_os v = variant_os w \<and> variant_arch v = variant_arch w
     \<and> abi_token (variant_abi v) = abi_token (variant_abi w)
     \<and> variant_python v = variant_python w"
proof -
  from assms have "split_char (CHR ''-'') (slug v) = split_char (CHR ''-'') (slug w)" by simp
  with split_slug [OF assms(1)] split_slug [OF assms(2)]
  show ?thesis
    by (auto split: option.splits dest: os_as_str_inj arch_as_str_inj)
qed

lemma slug_identifies_variant_witness:
  "let v = variant_new \<lparr>host_os = Linux, host_arch = X86_64\<rparr> (Glibc ''2.28'') ''313'';
       w = variant_new \<lparr>host_os = Linux, host_arch = X86_64\<rparr> (Glibc ''22.8'') ''313''
   in dash_free v \<and> dash_free w \<and> slug v = ''linux-x86_64-glibc228-py313'' \<and> slug v = slug w
      \<and> variant_python v = variant_python w"
proof -
  let ?v = "variant_new \<lparr>host_os = Linux, host_arch = X86_64\<rparr> (Glibc ''2.28'') ''313''"
  let ?w = "variant_new \<lparr>host_os = Linux, host_arch = X86_64\<rparr> (Glibc ''22.8'') ''313''"
  have h: "dash_free ?v" "dash_free ?w" "slug ?v = slug ?w"
    by (simp_all add: dash_free_def variant_new_def remove_char_def slug_def)
  have "slug ?v = ''linux-x86_64-glibc228-py313''"
    by (simp add: variant_new_def remove_char_def slug_def)
  with h slug_identifies_variant [OF h] show ?thesis by (simp add: Let_def)
qed

end
