(* ===== verification/Paths.thy ===== *)
theory Paths
  imports Prelude
begin

text \<open>
  Paths as the modelled code reads them: the lexical components of
  \<^verbatim>\<open>std::path\<close> (Unix rules, which \<^verbatim>\<open>camino::Utf8Path\<close> wraps), the walk of a
  relative path below a directory, and the contract every path checker of the program is
  meant to meet: an accepted path never leaves the directory it is joined to.
\<close>

section \<open>Components\<close>

datatype component = RootDir | CurDir | ParentDir | Normal string

definition slash :: "char \<Rightarrow> bool" where
  "slash c \<longleftrightarrow> c = CHR ''/''"

definition any_slash :: "char \<Rightarrow> bool" where
  "any_slash c \<longleftrightarrow> c = CHR ''/'' \<or> c = CHR 0x5C"

lemma slashes: "CHR 0x5C \<notin> set s \<Longrightarrow> split_on any_slash s = split_on slash s"
  by (induction s) (auto simp: any_slash_def slash_def)

definition raw_component :: "string \<Rightarrow> component" where
  "raw_component part = (if part = ''..'' then ParentDir else Normal part)"

definition components :: "string \<Rightarrow> component list" where
  "components p =
     (let parts = split_on slash p
      in (if starts_with ''/'' p then [RootDir] else if hd parts = ''.'' then [CurDir] else [])
         @ map raw_component (filter (\<lambda>x. x \<noteq> [] \<and> x \<noteq> ''.'') parts))"

definition is_absolute :: "string \<Rightarrow> bool" where
  "is_absolute p = starts_with ''/'' p"

text \<open>\<^verbatim>\<open>join\<close>\<close>

definition path_join :: "string \<Rightarrow> string \<Rightarrow> string" where
  "path_join root rel =
     (if is_absolute rel then rel
      else if root = [] \<or> ends_with ''/'' root then root @ rel
      else root @ ''/'' @ rel)"

section \<open>Walking below a directory\<close>

text \<open>
  \<open>walk d parts\<close> follows the parts of a path from the directory at depth \<open>d\<close> (the names
  below the starting point), popping a name for \<^verbatim>\<open>..\<close>; \<^const>\<open>None\<close> means the walk
  left the starting point.
\<close>

fun walk :: "string list \<Rightarrow> string list \<Rightarrow> string list option" where
  "walk d [] = Some d"
| "walk d (x # xs) =
     (if x = [] \<or> x = ''.'' then walk d xs
      else if x = ''..'' then (if d = [] then None else walk (butlast d) xs)
      else walk (d @ [x]) xs)"

lemma walk_append: "walk d (xs @ ys) = (case walk d xs of None \<Rightarrow> None | Some e \<Rightarrow> walk e ys)"
  by (induction d xs rule: walk.induct) auto

lemma walk_base: "walk d xs = Some e \<Longrightarrow> walk (b @ d) xs = Some (b @ e)"
  by (induction d xs rule: walk.induct)
     (auto simp: butlast_append split: if_splits)

lemma walk_no_parent:
  "''..'' \<notin> set xs \<Longrightarrow> walk d xs = Some (d @ filter (\<lambda>x. x \<noteq> [] \<and> x \<noteq> ''.'') xs)"
  by (induction d xs rule: walk.induct) auto

text \<open>The path \<open>p\<close>, with the separators \<open>sep\<close>, is relative and stays below its base.\<close>

definition contained :: "(char \<Rightarrow> bool) \<Rightarrow> string \<Rightarrow> bool" where
  "contained sep p \<longleftrightarrow> (p = [] \<or> \<not> sep (hd p)) \<and> walk [] (split_on sep p) \<noteq> None"

lemma contained_no_parent:
  "(p = [] \<or> \<not> sep (hd p)) \<Longrightarrow> ''..'' \<notin> set (split_on sep p) \<Longrightarrow> contained sep p"
  by (simp add: contained_def walk_no_parent)

lemma components_no_parent:
  "ParentDir \<notin> set (components p) \<longleftrightarrow> ''..'' \<notin> set (split_on slash p)"
  by (auto simp: components_def Let_def raw_component_def slash_def image_iff split: if_splits)

lemma components_no_root: "RootDir \<notin> set (components p) \<longleftrightarrow> p = [] \<or> \<not> slash (hd p)"
  by (cases p)
     (auto simp: components_def Let_def raw_component_def slash_def starts_with_prefix)

section \<open>The contract of a path checker\<close>

text \<open>
  Several crates carry a checker of their own for paths that come from a manifest or an
  archive.  What their callers rely on is the same each time: a path that passes, joined
  to any base directory, names something below that base.
\<close>

locale path_guard =
  fixes sep :: "char \<Rightarrow> bool"
    and accepts :: "string \<Rightarrow> bool"
  assumes accepted_contained: "accepts p \<Longrightarrow> contained sep p"
begin

lemma accepted_relative: "accepts p \<Longrightarrow> p \<noteq> [] \<Longrightarrow> \<not> sep (hd p)"
  using accepted_contained by (auto simp: contained_def)

lemma joined_below:
  assumes "accepts p"
  shows "\<exists>names. walk base (split_on sep p) = Some (base @ names)"
proof -
  from assms obtain e where "walk [] (split_on sep p) = Some e"
    using accepted_contained by (auto simp: contained_def)
  from walk_base [OF this, of base] show ?thesis by auto
qed

lemma all_joined_below:
  assumes "\<forall>p \<in> set ps. accepts p" and "p \<in> set ps"
  shows "\<exists>names. walk base (split_on sep p) = Some (base @ names)"
  using assms joined_below by blast

end

end
