(* ===== verification/Templates.thy ===== *)
theory Templates
  imports Errors Paths
begin

text \<open>
  Template descriptors (\<^verbatim>\<open>crates/ost-core/src/template.rs\<close>): the structures of
  \<^verbatim>\<open>template.yaml\<close>, the checks a descriptor passes before it is used to scaffold a
  project, and the provenance written beside the generated files.  The YAML reader and
  writer are not part of the model.
\<close>

section \<open>Data\<close>

definition TEMPLATE_SCHEMA :: string where
  "TEMPLATE_SCHEMA = ''openstrata.template/v1alpha1''"

definition SCAFFOLD_SCHEMA :: string where
  "SCAFFOLD_SCHEMA = ''openstrata.scaffold/v1alpha1''"

definition SCAFFOLD_PROVENANCE :: string where
  "SCAFFOLD_PROVENANCE = ''openstrata.scaffold.yaml''"

datatype template_maturity = Reference | Skeleton | Template

datatype template_artifact_kind = TemplatePlugin | TemplateProject | TemplateWorkspace

record template_identity =
  template_id :: string
  template_version :: string
  template_maturity :: template_maturity
  template_artifact_kind :: template_artifact_kind

datatype template_variable_type = PortableIdentifier | FileExtension | UriScheme

record template_variable =
  variable_name :: string
  variable_kind :: template_variable_type
  variable_required :: bool

record template_verification =
  verification_levels :: "8 word list"
  verification_assertions :: "string list"

record template_compatibility =
  compatibility_ost :: string
  compatibility_openusd :: "string option"

record template_descriptor =
  descriptor_schema :: string
  descriptor_template :: template_identity
  descriptor_plugin_kind :: "string option"
  descriptor_variables :: "template_variable list"
  descriptor_outputs :: "string list"
  descriptor_verification :: template_verification
  descriptor_compatibility :: template_compatibility

section \<open>Checks\<close>

definition is_semantic_version :: "string \<Rightarrow> bool" where
  "is_semantic_version version =
     (let (rest, build) = (case split_once (CHR ''+'') version of
                             Some (r, b) \<Rightarrow> (r, Some b) | None \<Rightarrow> (version, None));
          (core, pre) = (case split_once (CHR ''-'') rest of
                             Some (c, p) \<Rightarrow> (c, Some p) | None \<Rightarrow> (rest, None))
      in if build = Some [] \<or> pre = Some [] then False
         else let parts = split_char (CHR ''.'') core
              in length parts = 3 \<and> list_all (\<lambda>p. p \<noteq> [] \<and> list_all is_ascii_digit p) parts)"

definition template_portable_id :: "string \<Rightarrow> bool" where
  "template_portable_id value =
     (value \<noteq> [] \<and> is_ascii_alphabetic (hd value)
      \<and> list_all (\<lambda>c. is_ascii_alphanumeric c \<or> c = CHR ''-'' \<or> c = CHR ''_'') value)"

definition validate_portable_id :: "string \<Rightarrow> string \<Rightarrow> unit res" where
  "validate_portable_id label value =
     (if template_portable_id value then Inr ()
      else Inl (InvalidManifest (''invalid '' @ label @ '' '' @ quoted value @
             '': use letters, digits, '' @ quoted ''-'' @ '' or '' @ quoted ''_'' @
             '', starting with a letter'')))"

definition validate_output_path :: "string \<Rightarrow> unit res" where
  "validate_output_path path =
     (let unsafe_component =
            list_ex (\<lambda>c. case c of RootDir \<Rightarrow> True | ParentDir \<Rightarrow> True | _ \<Rightarrow> False) (components path)
      in if path = [] \<or> unsafe_component
         then Inl (InvalidManifest (''template.yaml output '' @ quoted path @
                     '' must be a safe relative path''))
         else Inr ())"

definition check_variable :: "string btree_set \<Rightarrow> template_variable \<Rightarrow> string btree_set res" where
  "check_variable seen v =
     and_then (validate_portable_id ''template variable'' (variable_name v)) (\<lambda>_.
       if variable_name v \<in> set seen
       then Inl (InvalidManifest (''template.yaml declares duplicate variable '' @
                   quoted (variable_name v)))
       else Inr (bs_insert (variable_name v) seen))"

definition check_output :: "string btree_set \<Rightarrow> string \<Rightarrow> string btree_set res" where
  "check_output seen output =
     and_then (validate_output_path output) (\<lambda>_.
       if output \<in> set seen
       then Inl (InvalidManifest (''template.yaml declares duplicate output '' @ quoted output))
       else Inr (bs_insert output seen))"

definition validate_descriptor :: "template_descriptor \<Rightarrow> unit res" where
  "validate_descriptor d =
     (if descriptor_schema d \<noteq> TEMPLATE_SCHEMA
      then Inl (InvalidManifest (''template.yaml schema '' @ quoted (descriptor_schema d) @
             '' is unsupported (expected '' @ quoted TEMPLATE_SCHEMA @ '')''))
      else and_then (validate_portable_id ''template id'' (template_id (descriptor_template d))) (\<lambda>_.
        if \<not> is_semantic_version (template_version (descriptor_template d))
        then Inl (InvalidManifest
               ''template.yaml template.version must be a semantic version (major.minor.patch)'')
        else if trim (compatibility_ost (descriptor_compatibility d)) = []
        then Inl (InvalidManifest ''template.yaml compatibility.ost must not be empty'')
        else and_then (try_fold check_variable [] (descriptor_variables d)) (\<lambda>_.
          if descriptor_outputs d = []
          then Inl (InvalidManifest ''template.yaml outputs.files must not be empty'')
          else and_then (try_fold check_output [] (descriptor_outputs d)) (\<lambda>outputs.
            if SCAFFOLD_PROVENANCE \<notin> set outputs
            then Inl (InvalidManifest (''template.yaml outputs.files must include '' @
                   quoted SCAFFOLD_PROVENANCE))
            else Inr ()))))"

section \<open>Provenance\<close>

record scaffold_provenance =
  provenance_schema :: string
  provenance_template_id :: string
  provenance_template_version :: string
  provenance_generator_name :: string
  provenance_generator_version :: string
  provenance_inputs :: "(string, string) btree_map"

definition scaffold_provenance_new ::
  "template_descriptor \<Rightarrow> string \<Rightarrow> (string, string) btree_map \<Rightarrow> scaffold_provenance" where
  "scaffold_provenance_new d generator_version inputs =
     \<lparr>provenance_schema = SCAFFOLD_SCHEMA,
      provenance_template_id = template_id (descriptor_template d),
      provenance_template_version = template_version (descriptor_template d),
      provenance_generator_name = ''ost'',
      provenance_generator_version = generator_version,
      provenance_inputs = inputs\<rparr>"

section \<open>An accepted descriptor\<close>

definition output_path_ok :: "string \<Rightarrow> bool" where
  "output_path_ok p \<longleftrightarrow> validate_output_path p = Inr ()"

interpretation template_output: path_guard slash output_path_ok
proof
  fix p
  assume "output_path_ok p"
  then have "RootDir \<notin> set (components p)" and "ParentDir \<notin> set (components p)"
    by (auto simp: output_path_ok_def validate_output_path_def Let_def list_ex_iff split: if_splits)
  then show "contained slash p"
    by (auto simp: components_no_root components_no_parent intro: contained_no_parent)
qed

lemma check_variable_ok:
  "check_variable seen v = Inr seen' \<longleftrightarrow>
     template_portable_id (variable_name v) \<and> variable_name v \<notin> set seen
     \<and> seen' = bs_insert (variable_name v) seen"
  by (auto simp: check_variable_def validate_portable_id_def)

lemma check_output_ok:
  "check_output seen p = Inr seen' \<longleftrightarrow>
     output_path_ok p \<and> p \<notin> set seen \<and> seen' = bs_insert p seen"
  by (cases "validate_output_path p") (auto simp: check_output_def output_path_ok_def)

interpretation variable_loop:
  unique_loop check_variable "\<lambda>v. template_portable_id (variable_name v)" variable_name
  by unfold_locales (rule check_variable_ok)

interpretation output_loop: unique_loop check_output output_path_ok "\<lambda>p. p"
  by unfold_locales (rule check_output_ok)

text \<open>What \<^verbatim>\<open>TemplateDescriptor::validate\<close> promises of a descriptor it accepts.\<close>

definition descriptor_valid :: "template_descriptor \<Rightarrow> bool" where
  "descriptor_valid d \<longleftrightarrow>
     descriptor_schema d = TEMPLATE_SCHEMA
     \<and> template_portable_id (template_id (descriptor_template d))
     \<and> is_semantic_version (template_version (descriptor_template d))
     \<and> trim (compatibility_ost (descriptor_compatibility d)) \<noteq> []
     \<and> (\<forall>v \<in> set (descriptor_variables d). template_portable_id (variable_name v))
     \<and> distinct (map variable_name (descriptor_variables d))
     \<and> (\<forall>p \<in> set (descriptor_outputs d). output_path_ok p)
     \<and> distinct (descriptor_outputs d)
     \<and> SCAFFOLD_PROVENANCE \<in> set (descriptor_outputs d)"

text \<open>
  A template descriptor is accepted exactly when its schema, id, version and
  compatibility are well formed, its variables are portable and distinct, and its outputs
  are safe, distinct and include the provenance file; and then every output, joined to any
  project directory, stays below it.
\<close>

lemma validate_descriptor_iff:
  "(validate_descriptor d = Inr () \<longleftrightarrow> descriptor_valid d)
   \<and> (validate_descriptor d = Inr () \<and> p \<in> set (descriptor_outputs d) \<longrightarrow>
        (\<exists>names. walk root (split_on slash p) = Some (root @ names)))"
proof
  show iff: "validate_descriptor d = Inr () \<longleftrightarrow> descriptor_valid d"
  proof
    assume v: "validate_descriptor d = Inr ()"
    then obtain vs os where "try_fold check_variable [] (descriptor_variables d) = Inr vs"
      and "try_fold check_output [] (descriptor_outputs d) = Inr os"
      and "SCAFFOLD_PROVENANCE \<in> set os"
      by (auto simp: validate_descriptor_def res_simps split: if_splits)
    with variable_loop.loop_from_empty output_loop.loop_from_empty v
    show "descriptor_valid d"
      by (fastforce simp: validate_descriptor_def descriptor_valid_def validate_portable_id_def
                    split: if_splits)
  next
    assume d: "descriptor_valid d"
    then obtain vs where vs: "try_fold check_variable [] (descriptor_variables d) = Inr vs"
      using variable_loop.loop_passes [of "[]" "descriptor_variables d"]
      by (auto simp: descriptor_valid_def)
    from d obtain os where os: "try_fold check_output [] (descriptor_outputs d) = Inr os"
      using output_loop.loop_passes [of "[]" "descriptor_outputs d"]
      by (auto simp: descriptor_valid_def)
    from output_loop.loop_from_empty [OF os] d have "SCAFFOLD_PROVENANCE \<in> set os"
      by (simp add: descriptor_valid_def)
    with vs os d show "validate_descriptor d = Inr ()"
      by (auto simp: validate_descriptor_def descriptor_valid_def validate_portable_id_def)
  qed
  show "validate_descriptor d = Inr () \<and> p \<in> set (descriptor_outputs d) \<longrightarrow>
        (\<exists>names. walk root (split_on slash p) = Some (root @ names))"
    using iff template_output.joined_below by (auto simp: descriptor_valid_def)
qed

definition sample_descriptor :: template_descriptor where
  "sample_descriptor =
     \<lparr>descriptor_schema = TEMPLATE_SCHEMA,
      descriptor_template = \<lparr>template_id = ''cpp-library'', template_version = ''0.5.3-rc1+b2'',
        template_maturity = Template, template_artifact_kind = TemplateProject\<rparr>,
      descriptor_plugin_kind = None,
      descriptor_variables = [\<lparr>variable_name = ''name'', variable_kind = PortableIdentifier,
        variable_required = True\<rparr>],
      descriptor_outputs = [''src/lib.cpp'', ''openstrata.scaffold.yaml''],
      descriptor_verification = \<lparr>verification_levels = [0, 1], verification_assertions = []\<rparr>,
      descriptor_compatibility = \<lparr>compatibility_ost = ''0.23'', compatibility_openusd = None\<rparr>\<rparr>"

lemma validate_descriptor_iff_witness:
  "validate_descriptor sample_descriptor = Inr ()
   \<and> ''src/lib.cpp'' \<in> set (descriptor_outputs sample_descriptor)
   \<and> (\<exists>names. walk [''home''] (split_on slash ''src/lib.cpp'') = Some ([''home''] @ names))"
proof -
  have "validate_descriptor sample_descriptor = Inr ()" by code_simp
  moreover have "''src/lib.cpp'' \<in> set (descriptor_outputs sample_descriptor)"
    by (simp add: sample_descriptor_def)
  ultimately show ?thesis
    using validate_descriptor_iff [of sample_descriptor "''src/lib.cpp''" "[''home'']"] by blast
qed

end
