(* ===== verification/Versions.thy ===== *)
theory Versions
  imports Errors
begin

text \<open>
  Version ranges (\<^verbatim>\<open>crates/ost-plugin/src/version.rs\<close>): dotted versions of 64-bit
  numbers, compared with zero padding, against a comma-separated list of comparators.
\<close>

section \<open>The code\<close>

definition version_parse :: "string \<Rightarrow> nat list option" where
  "version_parse version =
     (let v = trim version
      in if v = [] then None
         else collect_opt (map (\<lambda>p. parse_u64 (trim p)) (split_char (CHR ''.'') v)))"

text \<open>\<^verbatim>\<open>a.get(i).copied().unwrap_or(0)\<close>\<close>

definition padded :: "nat list \<Rightarrow> nat \<Rightarrow> nat" where
  "padded a i = (if i < length a then a ! i else 0)"

fun cmp_loop :: "nat list \<Rightarrow> nat list \<Rightarrow> nat list \<Rightarrow> ordering" where
  "cmp_loop a b [] = Equal"
| "cmp_loop a b (i # ks) =
     (case cmp_nat (padded a i) (padded b i) of
        Equal \<Rightarrow> cmp_loop a b ks
      | other \<Rightarrow> other)"

definition version_cmp :: "nat list \<Rightarrow> nat list \<Rightarrow> ordering" where
  "version_cmp a b = cmp_loop a b [0..<max (length a) (length b)]"

datatype range_error = BadVersion string | BadRange string

fun range_error_message :: "range_error \<Rightarrow> string" where
  "range_error_message (BadVersion v) = ''unparseable version '' @ quoted v"
| "range_error_message (BadRange r) = ''unparseable version range '' @ quoted r"

fun split_op_from :: "string list \<Rightarrow> string \<Rightarrow> string \<times> string" where
  "split_op_from [] part = (''='', part)"
| "split_op_from (op # ops) part =
     (case strip_prefix op part of
        Some rest \<Rightarrow> (op, trim rest)
      | None \<Rightarrow> split_op_from ops part)"

definition split_op :: "string \<Rightarrow> string \<times> string" where
  "split_op part = split_op_from [''>='', ''<='', ''=='', ''>'', ''<'', ''=''] part"

definition op_holds :: "string \<Rightarrow> ordering \<Rightarrow> bool option" where
  "op_holds op ord =
     (if op = ''>='' then Some (ord \<noteq> Less)
      else if op = ''<='' then Some (ord \<noteq> Greater)
      else if op = ''>'' then Some (ord = Greater)
      else if op = ''<'' then Some (ord = Less)
      else if op = ''='' \<or> op = ''=='' then Some (ord = Equal)
      else None)"

fun satisfies_parts :: "nat list \<Rightarrow> string \<Rightarrow> string list \<Rightarrow> range_error + bool" where
  "satisfies_parts ver rng [] = Inr True"
| "satisfies_parts ver rng (part0 # parts) =
     (let part = trim part0
      in if part = [] then satisfies_parts ver rng parts
         else let (op, rhs) = split_op part
              in case version_parse rhs of
                   None \<Rightarrow> Inl (BadRange rng)
                 | Some bound \<Rightarrow>
                     (case op_holds op (version_cmp ver bound) of
                        None \<Rightarrow> Inl (BadRange rng)
                      | Some False \<Rightarrow> Inr False
                      | Some True \<Rightarrow> satisfies_parts ver rng parts))"

definition satisfies :: "string \<Rightarrow> string \<Rightarrow> range_error + bool" where
  "satisfies version rng =
     (case version_parse version of
        None \<Rightarrow> Inl (BadVersion version)
      | Some ver \<Rightarrow> satisfies_parts ver rng (split_char (CHR '','') rng))"

section \<open>The order on versions\<close>

lemma cmp_loop_Equal: "cmp_loop a b ks = Equal \<longleftrightarrow> (\<forall>i \<in> set ks. padded a i = padded b i)"
  by (induction ks) (auto simp: cmp_nat_def)

lemma cmp_loop_Less:
  "cmp_loop a b [m..<n] = Less \<longleftrightarrow>
     (\<exists>k. m \<le> k \<and> k < n \<and> (\<forall>j. m \<le> j \<and> j < k \<longrightarrow> padded a j = padded b j)
        \<and> padded a k < padded b k)"
proof (induction "n - m" arbitrary: m)
  case 0
  then show ?case by simp
next
  case (Suc d)
  then have upt: "[m..<n] = m # [Suc m..<n]" by (simp add: upt_conv_Cons)
  from Suc have IH: "cmp_loop a b [Suc m..<n] = Less \<longleftrightarrow>
     (\<exists>k. Suc m \<le> k \<and> k < n \<and> (\<forall>j. Suc m \<le> j \<and> j < k \<longrightarrow> padded a j = padded b j)
        \<and> padded a k < padded b k)" by simp
  consider "padded a m < padded b m" | "padded a m = padded b m" | "padded b m < padded a m"
    by linarith
  then show ?case
  proof cases
    case 1
    with upt Suc.hyps(2) show ?thesis by (auto simp: cmp_nat_def intro!: exI [of _ m])
  next
    case 2
    with upt IH show ?thesis
      by (simp add: cmp_nat_def) (metis Suc_leD Suc_leI le_neq_implies_less less_irrefl)
  next
    case 3
    with upt show ?thesis
      by (simp add: cmp_nat_def) (metis le_neq_implies_less less_asym order_refl)
  qed
qed

lemma cmp_loop_swap: "cmp_loop a b ks = Greater \<longleftrightarrow> cmp_loop b a ks = Less"
  by (induction ks) (auto simp: cmp_nat_def)

lemma padded_beyond: "length a \<le> i \<Longrightarrow> padded a i = 0"
  by (simp add: padded_def)

lemma version_cmp_Equal: "version_cmp a b = Equal \<longleftrightarrow> (\<forall>i. padded a i = padded b i)"
proof
  assume eq: "version_cmp a b = Equal"
  show "\<forall>i. padded a i = padded b i"
  proof
    fix i
    show "padded a i = padded b i"
    proof (cases "i < max (length a) (length b)")
      case True
      with eq show ?thesis by (simp add: version_cmp_def cmp_loop_Equal)
    next
      case False
      then show ?thesis by (simp add: padded_beyond)
    qed
  qed
qed (simp add: version_cmp_def cmp_loop_Equal)

lemma version_cmp_Less:
  "version_cmp a b = Less \<longleftrightarrow> (\<exists>k. (\<forall>j < k. padded a j = padded b j) \<and> padded a k < padded b k)"
proof -
  have "k < max (length a) (length b)" if "padded a k < padded b k" for k
    using that padded_beyond [of b k] by (cases "k < length b") auto
  then show ?thesis by (auto simp: version_cmp_def cmp_loop_Less)
qed

lemma version_cmp_Greater: "version_cmp a b = Greater \<longleftrightarrow> version_cmp b a = Less"
  by (simp add: version_cmp_def cmp_loop_swap max.commute)

abbreviation version_le :: "nat list \<Rightarrow> nat list \<Rightarrow> bool" where
  "version_le a b \<equiv> version_cmp a b \<noteq> Greater"

lemma version_cmp_trans_Less:
  assumes "version_cmp a b = Less" and "version_cmp b c = Less"
  shows "version_cmp a c = Less"
proof -
  from assms obtain k l where
    k: "\<forall>j < k. padded a j = padded b j" "padded a k < padded b k" and
    l: "\<forall>j < l. padded b j = padded c j" "padded b l < padded c l"
    by (auto simp: version_cmp_Less)
  have "(\<forall>j < min k l. padded a j = padded c j) \<and> padded a (min k l) < padded c (min k l)"
    using k l by (cases k l rule: linorder_cases) (auto simp: min_def)
  then show ?thesis unfolding version_cmp_Less by blast
qed

lemma version_cmp_cong_left:
  assumes "version_cmp a b = Equal"
  shows "version_cmp a c = version_cmp b c"
proof -
  from assms have "padded a = padded b" by (simp add: version_cmp_Equal fun_eq_iff)
  then have "version_cmp a c = Less \<longleftrightarrow> version_cmp b c = Less"
    and "version_cmp a c = Equal \<longleftrightarrow> version_cmp b c = Equal"
    by (simp_all add: version_cmp_Less version_cmp_Equal)
  then show ?thesis by (metis ordering.exhaust)
qed

lemma version_cmp_swap:
  "version_cmp b a = (case version_cmp a b of Less \<Rightarrow> Greater | Equal \<Rightarrow> Equal | Greater \<Rightarrow> Less)"
proof -
  have "version_cmp b a = Equal \<longleftrightarrow> version_cmp a b = Equal"
    by (auto simp: version_cmp_Equal)
  then show ?thesis
    using version_cmp_Greater [of a b] version_cmp_Greater [of b a]
    by (cases "version_cmp a b"; cases "version_cmp b a") simp_all
qed

lemma version_cmp_cong_right:
  "version_cmp a b = Equal \<Longrightarrow> version_cmp c a = version_cmp c b"
  using version_cmp_cong_left [of a b c] version_cmp_swap [of c a] version_cmp_swap [of c b]
  by (cases "version_cmp c a"; cases "version_cmp c b") simp_all

lemma version_le_trans:
  assumes "version_le a b" and "version_le b c"
  shows "version_le a c"
  using assms
  by (metis ordering.exhaust version_cmp_Greater version_cmp_cong_left version_cmp_cong_right
        version_cmp_trans_Less)

text \<open>
  The comparison of versions is a total order on the versions read as infinite
  sequences padded with zeros: it says Equal exactly when the padded sequences agree, it is
  antisymmetric and transitive, and so 24.11 and 24.11.0 are the same version.
\<close>

lemma version_cmp_total_order:
  "(version_cmp a b = Equal \<longleftrightarrow> (\<forall>i. padded a i = padded b i))
   \<and> (version_cmp a b = Greater \<longleftrightarrow> version_cmp b a = Less)
   \<and> (version_cmp a b \<noteq> Greater \<and> version_cmp b c \<noteq> Greater \<longrightarrow> version_cmp a c \<noteq> Greater)
   \<and> version_cmp a (a @ replicate n 0) = Equal"
proof -
  have "version_cmp a (a @ replicate n 0) = Equal"
    unfolding version_cmp_Equal by (auto simp: padded_def nth_append)
  then show ?thesis
    using version_cmp_Equal version_cmp_Greater version_le_trans by blast
qed

lemma version_cmp_total_order_witness:
  "version_cmp [24, 8] [24, 11] \<noteq> Greater \<and> version_cmp [24, 11] [25] \<noteq> Greater
   \<and> version_cmp [24, 8] [25] \<noteq> Greater \<and> version_cmp [24, 11] ([24, 11] @ replicate 1 0) = Equal"
proof -
  have "version_cmp [24, 8] [24, 11] \<noteq> Greater" "version_cmp [24, 11] [25] \<noteq> Greater"
    by code_simp+
  then show ?thesis
    using version_cmp_total_order [of "[24, 8]" "[24, 11]" "[25]"]
      version_cmp_total_order [of "[24, 11]" "[24, 11]" "[25]" 1] by blast
qed

section \<open>What a range accepts\<close>

text \<open>One comparator of a range, read on its own.\<close>

definition part_holds :: "nat list \<Rightarrow> string \<Rightarrow> bool option" where
  "part_holds ver part0 =
     (let part = trim part0
      in if part = [] then Some True
         else case version_parse (snd (split_op part)) of
                None \<Rightarrow> None
              | Some bound \<Rightarrow> op_holds (fst (split_op part)) (version_cmp ver bound))"

lemma satisfies_parts_Cons:
  "satisfies_parts ver rng (p # ps) =
     (case part_holds ver p of
        None \<Rightarrow> Inl (BadRange rng)
      | Some False \<Rightarrow> Inr False
      | Some True \<Rightarrow> satisfies_parts ver rng ps)"
  by (auto simp: part_holds_def Let_def split: prod.splits option.splits bool.splits)

lemma satisfies_parts_True:
  "satisfies_parts ver rng ps = Inr True \<longleftrightarrow> (\<forall>p \<in> set ps. part_holds ver p = Some True)"
  by (induction ps) (auto simp: satisfies_parts_Cons simp del: satisfies_parts.simps(2)
                          split: option.splits bool.splits)

text \<open>A comparator accepts an interval of versions.\<close>

lemma op_holds_convex:
  assumes "version_le a b" and "version_le b c"
    and "op_holds op (version_cmp a d) = Some True"
    and "op_holds op (version_cmp c d) = Some True"
  shows "op_holds op (version_cmp b d) = Some True"
proof -
  have le: "version_cmp c d \<noteq> Greater \<Longrightarrow> version_cmp b d \<noteq> Greater"
    using version_le_trans [OF assms(2)] .
  have ge: "version_cmp a d \<noteq> Less \<Longrightarrow> version_cmp b d \<noteq> Less"
    using version_le_trans [OF _ assms(1), of d] by (simp add: version_cmp_Greater)
  have lt: "version_cmp c d = Less \<Longrightarrow> version_cmp b d = Less"
    using assms(2) by (metis ordering.exhaust version_cmp_cong_left version_cmp_trans_Less)
  have gt: "version_cmp a d = Greater \<Longrightarrow> version_cmp b d = Greater"
    using assms(1) unfolding version_cmp_Greater
    by (metis ordering.exhaust version_cmp_Greater version_cmp_cong_right version_cmp_trans_Less)
  have eq: "version_cmp a d = Equal \<Longrightarrow> version_cmp c d = Equal \<Longrightarrow> version_cmp b d = Equal"
    using le ge by (metis ordering.distinct ordering.exhaust)
  show ?thesis
    using assms(3,4) le ge lt gt eq unfolding op_holds_def by (simp split: if_splits)
qed

lemma part_holds_convex:
  assumes "version_le a b" and "version_le b c"
    and "part_holds a p = Some True" and "part_holds c p = Some True"
  shows "part_holds b p = Some True"
  using assms op_holds_convex [OF assms(1,2)]
  by (auto simp: part_holds_def Let_def split: option.splits if_splits)

text \<open>
  A version satisfies a range exactly when every comparator of the range parses and
  holds; so a range describes an interval: a version between two versions that satisfy it
  satisfies it too.
\<close>

lemma satisfies_is_interval:
  assumes "version_parse u = Some a" and "version_parse v = Some b" and "version_parse w = Some c"
    and "version_cmp a b \<noteq> Greater" and "version_cmp b c \<noteq> Greater"
    and "satisfies u rng = Inr True" and "satisfies w rng = Inr True"
  shows "satisfies v rng = Inr True
    \<and> (\<forall>part \<in> set (split_char (CHR '','') rng). part_holds b part = Some True)"
proof -
  have "\<forall>p \<in> set (split_char (CHR '','') rng). part_holds b p = Some True"
  proof
    fix p assume p: "p \<in> set (split_char (CHR '','') rng)"
    from assms(1,6) p have "part_holds a p = Some True"
      by (simp add: satisfies_def satisfies_parts_True)
    moreover from assms(3,7) p have "part_holds c p = Some True"
      by (simp add: satisfies_def satisfies_parts_True)
    ultimately show "part_holds b p = Some True"
      using assms(4,5) part_holds_convex by blast
  qed
  with assms(2) show ?thesis by (simp add: satisfies_def satisfies_parts_True)
qed

lemma satisfies_is_interval_witness:
  "satisfies ''24.11'' ''>=24.11,<25.0'' = Inr True
   \<and> satisfies ''24.11.9'' ''>=24.11,<25.0'' = Inr True
   \<and> satisfies ''24.11.3'' ''>=24.11,<25.0'' = Inr True"
proof -
  have u: "version_parse ''24.11'' = Some [24, 11]" by code_simp
  have v: "version_parse ''24.11.3'' = Some [24, 11, 3]" by code_simp
  have w: "version_parse ''24.11.9'' = Some [24, 11, 9]" by code_simp
  have uv: "version_cmp [24, 11] [24, 11, 3] \<noteq> Greater" by code_simp
  have vw: "version_cmp [24, 11, 3] [24, 11, 9] \<noteq> Greater" by code_simp
  have su: "satisfies ''24.11'' ''>=24.11,<25.0'' = Inr True" by code_simp
  have sw: "satisfies ''24.11.9'' ''>=24.11,<25.0'' = Inr True" by code_simp
  from satisfies_is_interval [OF u v w uv vw su sw] su sw show ?thesis by blast
qed

text \<open>
  A range check is never a guess: it fails with a version error exactly when the
  version does not parse, and a comparator that does not parse is reported as an error as
  soon as the comparators before it hold.
\<close>

lemma satisfies_errors:
  "(satisfies v rng = Inl (BadVersion v) \<longleftrightarrow> version_parse v = None)
   \<and> (version_parse v = Some ver \<and> split_char (CHR '','') rng = ps @ p # qs
      \<and> (\<forall>x \<in> set ps. part_holds ver x = Some True) \<and> part_holds ver p = None
      \<longrightarrow> satisfies v rng = Inl (BadRange rng))"
proof
  have "satisfies_parts ver' rng xs \<noteq> Inl (BadVersion v)" for ver' xs
    by (induction xs) (auto simp: satisfies_parts_Cons simp del: satisfies_parts.simps(2)
                            split: option.splits bool.splits)
  then show "satisfies v rng = Inl (BadVersion v) \<longleftrightarrow> version_parse v = None"
    by (simp add: satisfies_def split: option.split)
next
  have "\<forall>x \<in> set ps. part_holds ver x = Some True \<Longrightarrow> part_holds ver p = None \<Longrightarrow>
      satisfies_parts ver rng (ps @ p # qs) = Inl (BadRange rng)"
    by (induction ps) (auto simp: satisfies_parts_Cons simp del: satisfies_parts.simps(2))
  then show "version_parse v = Some ver \<and> split_char (CHR '','') rng = ps @ p # qs
      \<and> (\<forall>x \<in> set ps. part_holds ver x = Some True) \<and> part_holds ver p = None
      \<longrightarrow> satisfies v rng = Inl (BadRange rng)"
    by (auto simp: satisfies_def)
qed

lemma satisfies_errors_witness:
  "satisfies ''twentyfour'' ''>=24.11'' = Inl (BadVersion ''twentyfour'')
   \<and> satisfies ''24.11'' ''>=24,>=abc'' = Inl (BadRange ''>=24,>=abc'')"
proof -
  have "version_parse ''twentyfour'' = None" by code_simp
  moreover have "version_parse ''24.11'' = Some [24, 11]
      \<and> split_char (CHR '','') ''>=24,>=abc'' = [''>=24''] @ ''>=abc'' # []
      \<and> (\<forall>x \<in> set [''>=24'']. part_holds [24, 11] x = Some True)
      \<and> part_holds [24, 11] ''>=abc'' = None"
    by code_simp
  ultimately show ?thesis
    using satisfies_errors [of "''twentyfour''" "''>=24.11''" "[]" "[]" "[]" "[]"]
      satisfies_errors [of "''24.11''" "''>=24,>=abc''" "[24, 11]" "[''>=24'']" "''>=abc''" "[]"]
    by blast
qed

end
