(* ===== verification/Catalogs.thy ===== *)
theory Catalogs
  imports Errors
begin

text \<open>
  The catalog loader shared by platforms, profiles and extensions
  (\<^verbatim>\<open>crates/ost-core/src/catalog.rs\<close>): built-in documents, overlaid by the
  \<^verbatim>\<open>*.yaml\<close> files of a user directory, keyed by id.  The parser of one document is an
  argument, as in the code; the directory is the list its iterator yields, an entry or the
  error of reading it.
\<close>

record dir_entry =
  entry_label :: string
  entry_extension :: "string option"
  entry_contents :: "string res"

datatype user_dir = NotADirectory | Unreadable error | Entries "(dir_entry res) list"

definition catalog_insert ::
  "('t \<Rightarrow> string) \<Rightarrow> (string, 't) btree_map \<Rightarrow> 't \<Rightarrow> string \<Rightarrow> (string, 't) btree_map res" where
  "catalog_insert ident items item label =
     (if ident item = []
      then Inl (InvalidManifest (quoted label @ '' is missing an '' @ quoted ''id''))
      else Inr (bt_insert (ident item) item items))"

definition is_yaml :: "dir_entry \<Rightarrow> bool" where
  "is_yaml e = (case entry_extension e of None \<Rightarrow> False | Some x \<Rightarrow> x = ''yaml'' \<or> x = ''yml'')"

definition load_builtin ::
  "('t \<Rightarrow> string) \<Rightarrow> (string \<Rightarrow> string \<Rightarrow> 't res) \<Rightarrow> (string, 't) btree_map
     \<Rightarrow> string \<times> string \<Rightarrow> (string, 't) btree_map res" where
  "load_builtin ident parse items b =
     and_then (parse (fst b) (snd b)) (\<lambda>item. catalog_insert ident items item (fst b))"

definition load_entry ::
  "('t \<Rightarrow> string) \<Rightarrow> (string \<Rightarrow> string \<Rightarrow> 't res) \<Rightarrow> (string, 't) btree_map
     \<Rightarrow> dir_entry res \<Rightarrow> (string, 't) btree_map res" where
  "load_entry ident parse items entry =
     and_then entry (\<lambda>e.
       if \<not> is_yaml e then Inr items
       else and_then (entry_contents e) (\<lambda>src.
              and_then (parse (entry_label e) src) (\<lambda>item.
                catalog_insert ident items item (entry_label e))))"

definition catalog_load ::
  "('t \<Rightarrow> string) \<Rightarrow> (string \<times> string) list \<Rightarrow> user_dir \<Rightarrow> (string \<Rightarrow> string \<Rightarrow> 't res)
     \<Rightarrow> (string, 't) btree_map res" where
  "catalog_load ident builtins dir parse =
     and_then (try_fold (load_builtin ident parse) [] builtins) (\<lambda>items.
       case dir of
         NotADirectory \<Rightarrow> Inr items
       | Unreadable e \<Rightarrow> Inl e
       | Entries es \<Rightarrow> try_fold (load_entry ident parse) items es)"

section \<open>What a load returns\<close>

text \<open>The items a load inserts, in insertion order: the built-ins, then the user's files.\<close>

definition parsed_builtins ::
  "(string \<Rightarrow> string \<Rightarrow> 't res) \<Rightarrow> (string \<times> string) list \<Rightarrow> 't list" where
  "parsed_builtins parse bs =
     List.map_filter (\<lambda>b. case parse (fst b) (snd b) of Inr t \<Rightarrow> Some t | Inl _ \<Rightarrow> None) bs"

definition entry_item :: "(string \<Rightarrow> string \<Rightarrow> 't res) \<Rightarrow> dir_entry res \<Rightarrow> 't option" where
  "entry_item parse entry =
     (case entry of
        Inl _ \<Rightarrow> None
      | Inr e \<Rightarrow> if \<not> is_yaml e then None
                else case entry_contents e of
                       Inl _ \<Rightarrow> None
                     | Inr src \<Rightarrow> (case parse (entry_label e) src of Inr t \<Rightarrow> Some t | Inl _ \<Rightarrow> None))"

fun dir_items :: "(string \<Rightarrow> string \<Rightarrow> 't res) \<Rightarrow> user_dir \<Rightarrow> 't list" where
  "dir_items parse (Entries es) = List.map_filter (entry_item parse) es"
| "dir_items parse _ = []"

abbreviation keyed :: "('t \<Rightarrow> string) \<Rightarrow> 't list \<Rightarrow> (string \<times> 't) list" where
  "keyed ident ts \<equiv> map (\<lambda>t. (ident t, t)) ts"

lemma map_filter_Cons:
  "List.map_filter f (x # xs) =
     (case f x of None \<Rightarrow> List.map_filter f xs | Some y \<Rightarrow> y # List.map_filter f xs)"
  by (simp split: option.split)

lemma find_append':
  "find P (xs @ ys) = (case find P xs of Some x \<Rightarrow> Some x | None \<Rightarrow> find P ys)"
  by (induction xs) auto

lemma load_builtins_folds:
  "try_fold (load_builtin ident parse) m bs = Inr m' \<Longrightarrow>
     m' = foldl (\<lambda>acc (k, v). bt_insert k v acc) m (keyed ident (parsed_builtins parse bs))"
proof (induction bs arbitrary: m)
  case Nil
  then show ?case by (simp add: parsed_builtins_def)
next
  case (Cons b bs)
  then show ?case
    by (auto simp: res_simps load_builtin_def catalog_insert_def parsed_builtins_def map_filter_Cons
             split: if_splits)
qed

lemma load_entries_folds:
  "try_fold (load_entry ident parse) m es = Inr m' \<Longrightarrow>
     m' = foldl (\<lambda>acc (k, v). bt_insert k v acc) m (keyed ident (List.map_filter (entry_item parse) es))"
proof (induction es arbitrary: m)
  case Nil
  then show ?case by simp
next
  case (Cons e es)
  then show ?case
    by (auto simp: res_simps load_entry_def catalog_insert_def entry_item_def map_filter_Cons
             split: if_splits)
qed

lemma catalog_load_folds:
  assumes "catalog_load ident bs dir parse = Inr m"
  shows "m = foldl (\<lambda>acc (k, v). bt_insert k v acc) []
           (keyed ident (parsed_builtins parse bs @ dir_items parse dir))"
  using assms
  by (cases dir)
     (auto simp: catalog_load_def res_simps dest!: load_builtins_folds load_entries_folds)

text \<open>
  A catalog that loads is ordered by id, holds exactly the ids of the documents read,
  and under each id the last document read with that id: a user file overrides the built-in
  of the same id, and a built-in no file overrides stays.
\<close>

lemma catalog_overlay:
  assumes "catalog_load ident bs dir parse = Inr m"
  shows "bt_ok m
    \<and> set (bt_keys m) = ident ` set (parsed_builtins parse bs @ dir_items parse dir)
    \<and> bt_get m k = (case find (\<lambda>t. ident t = k) (rev (dir_items parse dir)) of
                      Some t \<Rightarrow> Some t
                    | None \<Rightarrow> find (\<lambda>t. ident t = k) (rev (parsed_builtins parse bs)))"
proof -
  let ?items = "parsed_builtins parse bs @ dir_items parse dir"
  have m: "m = foldl (\<lambda>acc (k, v). bt_insert k v acc) [] (keyed ident ?items)"
    using assms by (rule catalog_load_folds)
  have lookup: "map_of (keyed ident ts) k = find (\<lambda>t. ident t = k) ts" for ts
    by (induction ts) auto
  have "bt_get m k = map_of (keyed ident (rev ?items)) k"
    unfolding m using btree.get_inserts [OF btree.inv_empty, of "keyed ident ?items" k]
    by (simp add: rev_map del: map_append rev_append split: option.splits)
  also have "\<dots> = find (\<lambda>t. ident t = k) (rev (dir_items parse dir) @ rev (parsed_builtins parse bs))"
    by (simp add: lookup del: map_append)
  also have "\<dots> = (case find (\<lambda>t. ident t = k) (rev (dir_items parse dir)) of
                      Some t \<Rightarrow> Some t
                    | None \<Rightarrow> find (\<lambda>t. ident t = k) (rev (parsed_builtins parse bs)))"
    by (rule find_append')
  finally have get: "bt_get m k = \<dots>" .
  have "set (bt_keys m) = ident ` set ?items"
    unfolding m btree.keys_inserts [OF btree.inv_empty] by (simp add: image_image image_Un)
  moreover have "bt_ok m"
    unfolding m by (rule btree.inv_inserts [OF btree.inv_empty])
  ultimately show ?thesis using get by blast
qed

lemma catalog_overlay_witness:
  "let bs = [(''cy2025.yaml'', ''cy2025''), (''cy2026.yaml'', ''cy2026'')];
       dir = Entries [Inr \<lparr>entry_label = ''mine.yml'', entry_extension = Some ''yml'',
                           entry_contents = Inr ''cy2026''\<rparr>,
                      Inr \<lparr>entry_label = ''notes.txt'', entry_extension = Some ''txt'',
                           entry_contents = Inr ''zz''\<rparr>];
       m = [(''cy2025'', (''cy2025'', ''cy2025.yaml'')), (''cy2026'', (''cy2026'', ''mine.yml''))]
   in catalog_load fst bs dir (\<lambda>label src. Inr (src, label)) = Inr m
      \<and> bt_ok m \<and> bt_get m ''cy2026'' = Some (''cy2026'', ''mine.yml'')"
proof -
  let ?bs = "[(''cy2025.yaml'', ''cy2025''), (''cy2026.yaml'', ''cy2026'')]"
  let ?dir = "Entries [Inr \<lparr>entry_label = ''mine.yml'', entry_extension = Some ''yml'',
                           entry_contents = Inr ''cy2026''\<rparr>,
                      Inr \<lparr>entry_label = ''notes.txt'', entry_extension = Some ''txt'',
                           entry_contents = Inr ''zz''\<rparr>]"
  let ?m = "[(''cy2025'', (''cy2025'', ''cy2025.yaml'')), (''cy2026'', (''cy2026'', ''mine.yml''))]"
  have load: "catalog_load fst ?bs ?dir (\<lambda>label src. Inr (src, label)) = Inr ?m"
    by (simp add: catalog_load_def load_builtin_def load_entry_def catalog_insert_def is_yaml_def)
  from catalog_overlay [OF load, of "''cy2026''"] load show ?thesis by (simp add: Let_def)
qed

end
