(* ===== verification/Extensions.thy ===== *)
theory Extensions
  imports Catalogs
begin

text \<open>
  Controlled extensions and capability resolution (\<^verbatim>\<open>crates/ost-extension\<close>): from the
  capabilities a profile requests, the extensions that must be present, the features enabled
  on each, what those features pull in, and the certified build point chosen.
\<close>

section \<open>The manifest\<close>

record feature =
  requires_packages :: "string list"
  requires_extensions :: "string list"

record certified =
  certified_version :: string
  certified_features :: "string list"
  certified_validation :: "string option"

text \<open>\<^verbatim>\<open>provides\<close> maps a capability to the feature it needs (\<^verbatim>\<open>None\<close>: always on).\<close>

record extension =
  ext_id :: string
  ext_kind :: string
  ext_tier :: "string option"
  ext_version :: string
  ext_allowed_range :: "string option"
  ext_provides :: "(string \<times> string option) list"
  ext_features :: "(string \<times> feature) list"
  ext_certified :: "certified list"
  ext_validation :: "string list"

definition ext_feature :: "extension \<Rightarrow> string \<Rightarrow> feature option" where
  "ext_feature ext name = map_of (ext_features ext) name"

type_synonym ext_catalog = "(string, extension) btree_map"

section \<open>Resolution\<close>

record provider_edge =
  edge_capability :: string
  edge_extension :: "string option"
  edge_feature :: "string option"

record resolved_extension =
  re_id :: string
  re_version :: string
  re_features :: "string btree_set"
  re_packages :: "string btree_set"
  re_allowed_range :: "string option"
  re_certified :: "certified option"
  re_uncertified :: bool

record resolution =
  res_edges :: "provider_edge list"
  res_extensions :: "resolved_extension list"
  res_runtime_provided :: "string list"

type_synonym accum = "(string, resolved_extension) btree_map"

fun find_provider :: "ext_catalog \<Rightarrow> string \<Rightarrow> (extension \<times> string option) option" where
  "find_provider [] cap = None"
| "find_provider ((_, ext) # rest) cap =
     (case map_of (ext_provides ext) cap of
        Some feat \<Rightarrow> Some (ext, feat)
      | None \<Rightarrow> find_provider rest cap)"

definition fresh :: "extension \<Rightarrow> resolved_extension" where
  "fresh ext = \<lparr>re_id = ext_id ext, re_version = ext_version ext, re_features = [],
     re_packages = [], re_allowed_range = ext_allowed_range ext, re_certified = None,
     re_uncertified = False\<rparr>"

definition ensure :: "accum \<Rightarrow> extension \<Rightarrow> accum" where
  "ensure acc ext =
     (case bt_get acc (ext_id ext) of
        None \<Rightarrow> bt_insert (ext_id ext) (fresh ext) acc
      | Some _ \<Rightarrow> acc)"

definition add_packages :: "string list \<Rightarrow> resolved_extension \<Rightarrow> resolved_extension" where
  "add_packages pkgs re = re\<lparr>re_packages := foldl (\<lambda>s p. bs_insert p s) (re_packages re) pkgs\<rparr>"

definition pull_in :: "ext_catalog \<Rightarrow> accum \<Rightarrow> string \<Rightarrow> accum" where
  "pull_in catalog acc dep_id =
     (case bt_get catalog dep_id of Some dep \<Rightarrow> ensure acc dep | None \<Rightarrow> acc)"

definition enable :: "accum \<Rightarrow> ext_catalog \<Rightarrow> extension \<Rightarrow> string option \<Rightarrow> accum" where
  "enable acc0 catalog ext feature_opt =
     (let acc = ensure acc0 ext
      in case feature_opt of
           None \<Rightarrow> acc
         | Some feat \<Rightarrow>
             (case bt_get acc (ext_id ext) of
                None \<Rightarrow> acc
              | Some re \<Rightarrow>
                  if feat \<in> set (re_features re) then acc
                  else let re1 = re\<lparr>re_features := bs_insert feat (re_features re)\<rparr>
                       in case ext_feature ext feat of
                            None \<Rightarrow> bt_insert (ext_id ext) re1 acc
                          | Some spec \<Rightarrow>
                              foldl (pull_in catalog)
                                (bt_insert (ext_id ext) (add_packages (requires_packages spec) re1) acc)
                                (requires_extensions spec)))"

definition choose_certified :: "extension \<Rightarrow> string btree_set \<Rightarrow> certified option \<times> bool" where
  "choose_certified ext enabled =
     (if ext_certified ext = [] then (None, False)
      else case find (\<lambda>c. list_all (\<lambda>f. f \<in> set (certified_features c)) enabled) (ext_certified ext) of
             Some point \<Rightarrow> (Some point, False)
           | None \<Rightarrow> (None, True))"

definition resolve_step ::
  "ext_catalog \<Rightarrow> accum \<times> provider_edge list \<times> string list \<Rightarrow> string
     \<Rightarrow> accum \<times> provider_edge list \<times> string list" where
  "resolve_step catalog st cap =
     (let (acc, edges, runtime_provided) = st
      in case find_provider catalog cap of
           Some (ext, feat) \<Rightarrow>
             (enable acc catalog ext feat,
              edges @ [\<lparr>edge_capability = cap, edge_extension = Some (ext_id ext), edge_feature = feat\<rparr>],
              runtime_provided)
         | None \<Rightarrow>
             (acc,
              edges @ [\<lparr>edge_capability = cap, edge_extension = None, edge_feature = None\<rparr>],
              runtime_provided @ [cap]))"

definition certify :: "ext_catalog \<Rightarrow> resolved_extension \<Rightarrow> resolved_extension" where
  "certify catalog resolved =
     (case bt_get catalog (re_id resolved) of
        Some ext \<Rightarrow>
          (let (cert, uncert) = choose_certified ext (re_features resolved)
           in resolved\<lparr>re_certified := cert, re_uncertified := uncert\<rparr>)
      | None \<Rightarrow> resolved)"

definition resolve :: "ext_catalog \<Rightarrow> string list \<Rightarrow> resolution" where
  "resolve catalog capabilities =
     (let (acc, edges, runtime_provided) = foldl (resolve_step catalog) ([], [], []) capabilities
      in \<lparr>res_edges = edges,
          res_extensions = map (\<lambda>(_, re). certify catalog re) acc,
          res_runtime_provided = runtime_provided\<rparr>)"

section \<open>Reasons\<close>

datatype requirement_reason =
    Direct string "string option"
  | Transitive string string "string option"

definition direct_reasons :: "resolution \<Rightarrow> string \<Rightarrow> requirement_reason list" where
  "direct_reasons r name =
     map (\<lambda>e. Direct (edge_capability e) (edge_feature e))
       (filter (\<lambda>e. edge_extension e = Some name) (res_edges r))"

definition feature_reason ::
  "resolution \<Rightarrow> string \<Rightarrow> extension \<Rightarrow> resolved_extension \<Rightarrow> string \<Rightarrow> requirement_reason list" where
  "feature_reason r name src ext feat =
     (case ext_feature src feat of
        None \<Rightarrow> []
      | Some spec \<Rightarrow>
          if name \<in> set (requires_extensions spec)
          then [Transitive (re_id ext) feat
                  (map_option edge_capability
                     (find (\<lambda>e. edge_extension e = Some (re_id ext) \<and> edge_feature e = Some feat)
                        (res_edges r)))]
          else [])"

definition extension_reasons ::
  "ext_catalog \<Rightarrow> resolution \<Rightarrow> string \<Rightarrow> resolved_extension \<Rightarrow> requirement_reason list" where
  "extension_reasons catalog r name ext =
     (if re_id ext = name then []
      else case bt_get catalog (re_id ext) of
             None \<Rightarrow> []
           | Some src \<Rightarrow> concat (map (feature_reason r name src ext) (re_features ext)))"

definition why :: "ext_catalog \<Rightarrow> resolution \<Rightarrow> string \<Rightarrow> requirement_reason list" where
  "why catalog r name =
     direct_reasons r name @ concat (map (extension_reasons catalog r name) (res_extensions r))"

section \<open>What a resolution contains\<close>

text \<open>A catalog as the loader returns it: ordered, and each entry under its own id.\<close>

definition catalog_wf :: "ext_catalog \<Rightarrow> bool" where
  "catalog_wf catalog \<longleftrightarrow> bt_ok catalog \<and> (\<forall>(k, ext) \<in> set catalog. ext_id ext = k)"

text \<open>The accumulator seen as the features and packages of each extension present.\<close>

abbreviation present :: "accum \<Rightarrow> string set" where
  "present acc \<equiv> dom (bt_get acc)"

definition feats :: "accum \<Rightarrow> string \<Rightarrow> string set" where
  "feats acc k = (case bt_get acc k of None \<Rightarrow> {} | Some re \<Rightarrow> set (re_features re))"

definition pkgs :: "accum \<Rightarrow> string \<Rightarrow> string set" where
  "pkgs acc k = (case bt_get acc k of None \<Rightarrow> {} | Some re \<Rightarrow> set (re_packages re))"

definition acc_ok :: "accum \<Rightarrow> bool" where
  "acc_ok acc \<longleftrightarrow> bt_ok acc \<and> (\<forall>k re. bt_get acc k = Some re \<longrightarrow> re_id re = k)"

lemma catalog_wf_get: "catalog_wf catalog \<Longrightarrow> bt_get catalog k = Some ext \<Longrightarrow> ext_id ext = k"
  by (auto simp: catalog_wf_def dest: map_of_SomeD)

lemma find_provider_in:
  "find_provider catalog cap = Some (ext, feat) \<Longrightarrow>
     (\<exists>k. (k, ext) \<in> set catalog) \<and> map_of (ext_provides ext) cap = Some feat"
  by (induction catalog cap rule: find_provider.induct) (auto split: option.splits)

lemma find_provider_get:
  assumes "catalog_wf catalog" and "find_provider catalog cap = Some (ext, feat)"
  shows "bt_get catalog (ext_id ext) = Some ext"
proof -
  from assms find_provider_in obtain k where k: "(k, ext) \<in> set catalog" by blast
  moreover from assms(1) have "distinct (map fst catalog)"
    unfolding catalog_wf_def bt_ok_def by (simp add: strict_sorted_iff)
  ultimately show ?thesis using assms(1) by (auto simp: catalog_wf_def)
qed

lemma ensure_view [simp]:
  "present (ensure acc ext) = insert (ext_id ext) (present acc)"
  "feats (ensure acc ext) = feats acc" "pkgs (ensure acc ext) = pkgs acc"
  by (auto simp: ensure_def feats_def pkgs_def fresh_def fun_eq_iff split: option.splits)

lemma ensure_ok: "acc_ok acc \<Longrightarrow> acc_ok (ensure acc ext)"
  by (auto simp: acc_ok_def ensure_def fresh_def bt_ok_insert split: option.splits)

lemma pull_in_view:
  assumes "catalog_wf catalog"
  shows "present (foldl (pull_in catalog) acc ds) = present acc \<union> (set ds \<inter> dom (bt_get catalog))"
    and "feats (foldl (pull_in catalog) acc ds) = feats acc"
    and "pkgs (foldl (pull_in catalog) acc ds) = pkgs acc"
    and "acc_ok acc \<Longrightarrow> acc_ok (foldl (pull_in catalog) acc ds)"
  using assms
  by (induction ds arbitrary: acc)
     (auto simp: pull_in_def catalog_wf_get ensure_ok split: option.splits)

lemma set_add_packages: "set (foldl (\<lambda>s p. bs_insert p s) s ps) = set s \<union> set ps"
  by (induction ps arbitrary: s) auto

text \<open>The extensions and packages the features of one extension pull in.\<close>

definition needs :: "extension \<Rightarrow> string option \<Rightarrow> string set" where
  "needs ext feat =
     (case feat of None \<Rightarrow> {}
      | Some f \<Rightarrow> (case ext_feature ext f of None \<Rightarrow> {} | Some spec \<Rightarrow> set (requires_extensions spec)))"

definition needs_packages :: "extension \<Rightarrow> string option \<Rightarrow> string set" where
  "needs_packages ext feat =
     (case feat of None \<Rightarrow> {}
      | Some f \<Rightarrow> (case ext_feature ext f of None \<Rightarrow> {} | Some spec \<Rightarrow> set (requires_packages spec)))"

lemma insert_view [simp]:
  "feats (bt_insert k re acc) = (feats acc)(k := set (re_features re))"
  "pkgs (bt_insert k re acc) = (pkgs acc)(k := set (re_packages re))"
  by (auto simp: feats_def pkgs_def fun_eq_iff)

lemma insert_ok: "acc_ok acc \<Longrightarrow> re_id re = k \<Longrightarrow> acc_ok (bt_insert k re acc)"
  by (auto simp: acc_ok_def bt_ok_insert)

lemma enable_view:
  fixes acc :: accum and ext :: extension and feat :: "string option"
  assumes "catalog_wf catalog"
  defines "acc' \<equiv> enable acc catalog ext feat"
    and "new \<equiv> (\<exists>f. feat = Some f \<and> f \<notin> feats acc (ext_id ext))"
  shows "present acc' = insert (ext_id ext) (present acc) \<union>
           (if new then needs ext feat \<inter> dom (bt_get catalog) else {})" (is ?present)
    and "feats acc' = (feats acc)(ext_id ext := feats acc (ext_id ext) \<union> set_option feat)" (is ?feats)
    and "pkgs acc' = (pkgs acc)(ext_id ext := pkgs acc (ext_id ext) \<union>
           (if new then needs_packages ext feat else {}))" (is ?pkgs)
    and "acc_ok acc \<Longrightarrow> acc_ok acc'"
proof -
  have "?present \<and> ?feats \<and> ?pkgs \<and> (acc_ok acc \<longrightarrow> acc_ok acc')"
  proof (cases feat)
    case None
    then show ?thesis
      by (simp add: acc'_def new_def enable_def ensure_ok)
  next
    case (Some f)
    obtain re where re: "bt_get (ensure acc ext) (ext_id ext) = Some re"
      using ensure_view(1) [of acc ext] by blast
    have "feats (ensure acc ext) (ext_id ext) = set (re_features re)"
      and "pkgs (ensure acc ext) (ext_id ext) = set (re_packages re)"
      unfolding feats_def pkgs_def using re by simp_all
    then have feats_re: "set (re_features re) = feats acc (ext_id ext)"
      and pkgs_re: "set (re_packages re) = pkgs acc (ext_id ext)"
      by simp_all
    show ?thesis
    proof (cases "f \<in> set (re_features re)")
      case True
      with Some re feats_re have "acc' = ensure acc ext" by (simp add: acc'_def enable_def)
      moreover from True Some feats_re have "\<not> new" by (simp add: new_def)
      moreover from True Some feats_re
      have "feats acc (ext_id ext) \<union> set_option feat = feats acc (ext_id ext)" by auto
      ultimately show ?thesis by (simp add: ensure_ok)
    next
      case False
      with Some feats_re have new by (simp add: new_def)
      have id: "acc_ok acc \<Longrightarrow> re_id re = ext_id ext"
        using ensure_ok [of acc ext] re by (simp add: acc_ok_def)
      show ?thesis
      proof (cases "ext_feature ext f")
        case None
        with Some re False \<open>new\<close> feats_re pkgs_re id show ?thesis
          by (auto simp: acc'_def enable_def Let_def needs_def needs_packages_def
                   intro!: insert_ok ensure_ok)
      next
        case (Some spec)
        with \<open>feat = Some f\<close> re False \<open>new\<close> feats_re pkgs_re id show ?thesis
          by (auto simp: acc'_def enable_def Let_def needs_def needs_packages_def
                pull_in_view(1-3) [OF assms(1)] add_packages_def set_add_packages
                   intro!: insert_ok ensure_ok pull_in_view(4) [OF assms(1)])
      qed
    qed
  qed
  then show ?present ?feats ?pkgs "acc_ok acc \<Longrightarrow> acc_ok acc'" by blast+
qed

text \<open>Why an extension is present: a requested capability names it, or another one needs it.\<close>

definition explained :: "ext_catalog \<Rightarrow> accum \<Rightarrow> provider_edge list \<Rightarrow> string \<Rightarrow> bool" where
  "explained catalog acc edges k \<longleftrightarrow>
     (\<exists>e \<in> set edges. edge_extension e = Some k)
     \<or> (\<exists>k' ext f. k' \<noteq> k \<and> f \<in> feats acc k' \<and> bt_get catalog k' = Some ext \<and> k \<in> needs ext (Some f))"

text \<open>Every enabled feature has what it needs.\<close>

definition feature_closed :: "ext_catalog \<Rightarrow> accum \<Rightarrow> bool" where
  "feature_closed catalog acc \<longleftrightarrow>
     (\<forall>k ext f. bt_get catalog k = Some ext \<and> f \<in> feats acc k \<longrightarrow>
        needs ext (Some f) \<inter> dom (bt_get catalog) \<subseteq> present acc
        \<and> needs_packages ext (Some f) \<subseteq> pkgs acc k)"

definition edges_served :: "accum \<Rightarrow> provider_edge list \<Rightarrow> bool" where
  "edges_served acc edges \<longleftrightarrow>
     (\<forall>e \<in> set edges. \<forall>k. edge_extension e = Some k \<longrightarrow>
        k \<in> present acc \<and> set_option (edge_feature e) \<subseteq> feats acc k)"

definition resolve_inv :: "ext_catalog \<Rightarrow> accum \<Rightarrow> provider_edge list \<Rightarrow> bool" where
  "resolve_inv catalog acc edges \<longleftrightarrow>
     acc_ok acc \<and> present acc \<subseteq> dom (bt_get catalog) \<and> edges_served acc edges
     \<and> feature_closed catalog acc \<and> (\<forall>k \<in> present acc. explained catalog acc edges k)"

lemma explained_needs:
  "k' \<noteq> k \<Longrightarrow> f \<in> feats acc k' \<Longrightarrow> bt_get catalog k' = Some ext \<Longrightarrow> k \<in> needs ext (Some f) \<Longrightarrow>
     explained catalog acc edges k"
  unfolding explained_def by blast

lemma feature_closedD:
  assumes "feature_closed catalog acc" and "bt_get catalog k = Some ext" and "f \<in> feats acc k"
  shows "needs ext (Some f) \<inter> dom (bt_get catalog) \<subseteq> present acc"
    and "needs_packages ext (Some f) \<subseteq> pkgs acc k"
  using assms unfolding feature_closed_def by blast+

lemma explained_mono:
  assumes "explained catalog acc edges k" and "\<And>k. feats acc k \<subseteq> feats acc' k"
    and "set edges \<subseteq> set edges'"
  shows "explained catalog acc' edges' k"
  using assms unfolding explained_def by blast

lemma enable_inv:
  assumes wf: "catalog_wf catalog" and inv: "resolve_inv catalog acc edges"
    and ext: "bt_get catalog (ext_id ext) = Some ext"
    and e: "edge_extension e = Some (ext_id ext)" "edge_feature e = feat"
  shows "resolve_inv catalog (enable acc catalog ext feat) (edges @ [e])"
proof -
  let ?acc = "enable acc catalog ext feat"
  note view = enable_view [OF wf, of acc ext feat]
  from view(2) have grow: "feats acc k \<subseteq> feats ?acc k" for k by auto
  have served: "edges_served ?acc (edges @ [e])"
    using inv e unfolding edges_served_def resolve_inv_def view(1,2) by auto
  have closed: "feature_closed catalog ?acc"
    unfolding feature_closed_def
  proof (intro allI impI)
    fix k x f
    assume kf: "bt_get catalog k = Some x \<and> f \<in> feats ?acc k"
    show "needs x (Some f) \<inter> dom (bt_get catalog) \<subseteq> present ?acc
      \<and> needs_packages x (Some f) \<subseteq> pkgs ?acc k"
    proof (cases "f \<in> feats acc k")
      case True
      with inv kf have "needs x (Some f) \<inter> dom (bt_get catalog) \<subseteq> present acc"
        and "needs_packages x (Some f) \<subseteq> pkgs acc k"
        unfolding resolve_inv_def feature_closed_def by blast+
      then show ?thesis unfolding view(1,3) by auto
    next
      case False
      with kf view(2) have "k = ext_id ext" and "feat = Some f" by (auto split: if_splits)
      with False kf ext show ?thesis unfolding view(1,3) by auto
    qed
  qed
  have "explained catalog ?acc (edges @ [e]) k" if "k \<in> present ?acc" for k
  proof (cases "k \<in> present acc \<or> k = ext_id ext")
    case True
    then show ?thesis
    proof
      assume "k \<in> present acc"
      with inv have "explained catalog acc edges k" by (simp add: resolve_inv_def)
      then show ?thesis by (rule explained_mono) (auto simp: grow)
    next
      assume "k = ext_id ext"
      with e show ?thesis by (simp add: explained_def)
    qed
  next
    case False
    with that obtain f where "feat = Some f" and "k \<in> needs ext (Some f)"
      unfolding view(1) by (auto split: if_splits)
    moreover from this view(2) have "f \<in> feats ?acc (ext_id ext)" by simp
    moreover from False have "ext_id ext \<noteq> k" by blast
    ultimately show ?thesis using ext by (intro explained_needs)
  qed
  moreover have "present ?acc \<subseteq> dom (bt_get catalog)"
  proof -
    have "(if b then A \<inter> D else {}) \<subseteq> D" for b and A D :: "string set" by simp
    moreover have "insert (ext_id ext) (present acc) \<subseteq> dom (bt_get catalog)"
      using inv ext by (auto simp: resolve_inv_def)
    ultimately show ?thesis unfolding view(1) by (rule Un_least [rotated])
  qed
  moreover have "acc_ok ?acc" using inv view(4) by (simp add: resolve_inv_def)
  ultimately show ?thesis using served closed by (simp add: resolve_inv_def)
qed

lemma resolve_step_inv:
  assumes "catalog_wf catalog" and "resolve_inv catalog acc edges"
    and "resolve_step catalog (acc, edges, rp) cap = (acc', edges', rp')"
  shows "resolve_inv catalog acc' edges'"
proof (cases "find_provider catalog cap")
  case None
  let ?e = "\<lparr>edge_capability = cap, edge_extension = None, edge_feature = None\<rparr>"
  from None assms(3) have new: "acc' = acc" "edges' = edges @ [?e]"
    by (simp_all add: resolve_step_def)
  have "edges_served acc (edges @ [?e])" if "edges_served acc edges"
    using that by (simp add: edges_served_def ball_Un)
  moreover have "explained catalog acc (edges @ [?e]) k" if "explained catalog acc edges k" for k
    using that by (rule explained_mono) auto
  ultimately show ?thesis using assms(2) new by (simp add: resolve_inv_def)
next
  case (Some p)
  then obtain ext feat where p: "find_provider catalog cap = Some (ext, feat)" by (cases p) auto
  from find_provider_get [OF assms(1) p] p assms show ?thesis
    by (auto simp: resolve_step_def intro!: enable_inv)
qed

lemma resolve_fold_inv:
  assumes "catalog_wf catalog" and "resolve_inv catalog acc edges"
    and "foldl (resolve_step catalog) (acc, edges, rp) caps = (acc', edges', rp')"
  shows "resolve_inv catalog acc' edges'"
  using assms
proof (induction caps arbitrary: acc edges rp)
  case (Cons cap caps)
  obtain acc1 edges1 rp1 where st: "resolve_step catalog (acc, edges, rp) cap = (acc1, edges1, rp1)"
    by (cases "resolve_step catalog (acc, edges, rp) cap") auto
  from resolve_step_inv [OF Cons.prems(1,2) st] Cons st show ?case by simp
qed simp

lemma resolve_inv_empty: "resolve_inv catalog [] []"
  by (simp add: resolve_inv_def acc_ok_def bt_ok_def edges_served_def feature_closed_def feats_def)

lemma certify_keeps [simp]:
  "re_id (certify catalog re) = re_id re" "re_features (certify catalog re) = re_features re"
  "re_packages (certify catalog re) = re_packages re"
  by (auto simp: certify_def split: option.splits prod.splits)

text \<open>The accumulator a resolution is read from.\<close>

lemma resolve_acc:
  assumes "catalog_wf catalog"
  obtains acc edges rp where
    "resolve catalog caps = \<lparr>res_edges = edges, res_extensions = map (\<lambda>(_, re). certify catalog re) acc,
       res_runtime_provided = rp\<rparr>"
    and "resolve_inv catalog acc edges"
proof -
  obtain acc edges rp where "foldl (resolve_step catalog) ([], [], []) caps = (acc, edges, rp)"
    by (cases "foldl (resolve_step catalog) ([], [], []) caps") auto
  with resolve_fold_inv [OF assms resolve_inv_empty] show ?thesis
    by (intro that [of edges acc rp]) (auto simp: resolve_def)
qed

lemma acc_values:
  assumes "acc_ok acc"
  shows "re \<in> set (map (\<lambda>(_, re). certify catalog re) acc) \<longleftrightarrow>
    (\<exists>re0. bt_get acc (re_id re) = Some re0 \<and> re = certify catalog re0)"
proof -
  have distinct: "distinct (map fst acc)"
    using assms by (simp add: acc_ok_def bt_ok_def strict_sorted_iff)
  show ?thesis
  proof
    assume "re \<in> set (map (\<lambda>(_, re). certify catalog re) acc)"
    then obtain k re0 where k: "(k, re0) \<in> set acc" "re = certify catalog re0" by auto
    with distinct have "bt_get acc k = Some re0" by simp
    with assms k show "\<exists>re0. bt_get acc (re_id re) = Some re0 \<and> re = certify catalog re0"
      by (auto simp: acc_ok_def)
  next
    assume "\<exists>re0. bt_get acc (re_id re) = Some re0 \<and> re = certify catalog re0"
    then show "re \<in> set (map (\<lambda>(_, re). certify catalog re) acc)"
      by (auto dest!: map_of_SomeD intro!: rev_image_eqI)
  qed
qed

text \<open>
  C12. What a resolution contains is what was asked for and what that needs: every edge to
  an extension finds it present with its feature enabled, and every enabled feature finds
  the packages it requires recorded and the extensions it requires present.
\<close>

theorem resolution_closed:
  assumes "catalog_wf catalog" and "r = resolve catalog caps"
  shows "(\<forall>e \<in> set (res_edges r). \<forall>k. edge_extension e = Some k \<longrightarrow>
      (\<exists>x \<in> set (res_extensions r). re_id x = k \<and> set_option (edge_feature e) \<subseteq> set (re_features x)))
    \<and> (\<forall>x \<in> set (res_extensions r). \<forall>f \<in> set (re_features x). \<forall>ext spec.
         bt_get catalog (re_id x) = Some ext \<and> ext_feature ext f = Some spec \<longrightarrow>
         set (requires_packages spec) \<subseteq> set (re_packages x)
         \<and> (\<forall>d \<in> set (requires_extensions spec). bt_get catalog d \<noteq> None \<longrightarrow>
              (\<exists>y \<in> set (res_extensions r). re_id y = d)))"
proof -
  obtain acc edges rp where r: "r = \<lparr>res_edges = edges,
      res_extensions = map (\<lambda>(_, re). certify catalog re) acc, res_runtime_provided = rp\<rparr>"
    and inv: "resolve_inv catalog acc edges"
    using assms resolve_acc by metis
  from inv have ok: "acc_ok acc" and closed: "feature_closed catalog acc"
    by (simp_all add: resolve_inv_def)
  have found: "\<exists>x \<in> set (res_extensions r). re_id x = k \<and> set (re_features x) = feats acc k"
    if "k \<in> present acc" for k
  proof -
    from that obtain re where re: "bt_get acc k = Some re" by auto
    with ok have "certify catalog re \<in> set (res_extensions r)"
      unfolding r by (simp add: acc_values [OF ok, simplified] acc_ok_def)
    with re ok show ?thesis by (intro bexI [of _ "certify catalog re"]) (simp_all add: acc_ok_def feats_def)
  qed
  have fields: "re_id x \<in> present acc \<and> set (re_features x) = feats acc (re_id x)
      \<and> set (re_packages x) = pkgs acc (re_id x)" if "x \<in> set (res_extensions r)" for x
    using that acc_values [OF ok, of x catalog] unfolding r feats_def pkgs_def by auto
  have "\<forall>e \<in> set (res_edges r). \<forall>k. edge_extension e = Some k \<longrightarrow>
      (\<exists>x \<in> set (res_extensions r). re_id x = k \<and> set_option (edge_feature e) \<subseteq> set (re_features x))"
    using inv found unfolding resolve_inv_def edges_served_def r by (metis resolution.select_convs(1))
  moreover have "set (requires_packages spec) \<subseteq> set (re_packages x)
      \<and> (\<forall>d \<in> set (requires_extensions spec). bt_get catalog d \<noteq> None \<longrightarrow>
           (\<exists>y \<in> set (res_extensions r). re_id y = d))"
    if "x \<in> set (res_extensions r)" "f \<in> set (re_features x)"
      "bt_get catalog (re_id x) = Some ext" "ext_feature ext f = Some spec"
    for x f ext spec
  proof -
    from that(1,2) fields have "f \<in> feats acc (re_id x)" by blast
    with closed that(3) have "needs ext (Some f) \<inter> dom (bt_get catalog) \<subseteq> present acc"
      and "needs_packages ext (Some f) \<subseteq> pkgs acc (re_id x)"
      by (rule feature_closedD)+
    with that(4) have "set (requires_extensions spec) \<inter> dom (bt_get catalog) \<subseteq> present acc"
      and "set (requires_packages spec) \<subseteq> pkgs acc (re_id x)"
      by (simp_all add: needs_def needs_packages_def)
    with that(1) fields found show ?thesis by blast
  qed
  ultimately show ?thesis by blast
qed

lemma feature_reason_ne: "feature_reason r name src ext f \<noteq> [] \<longleftrightarrow> name \<in> needs src (Some f)"
  by (simp add: feature_reason_def needs_def split: option.split)

lemma extension_reasons_ne:
  "extension_reasons catalog r name x \<noteq> [] \<longleftrightarrow> re_id x \<noteq> name \<and>
     (\<exists>ext. bt_get catalog (re_id x) = Some ext \<and> (\<exists>f \<in> set (re_features x). name \<in> needs ext (Some f)))"
  using feature_reason_ne by (auto simp: extension_reasons_def split: option.splits)

lemma why_ne:
  "why catalog r name \<noteq> [] \<longleftrightarrow>
     (\<exists>e \<in> set (res_edges r). edge_extension e = Some name)
     \<or> (\<exists>x \<in> set (res_extensions r). re_id x \<noteq> name \<and>
          (\<exists>ext. bt_get catalog (re_id x) = Some ext \<and>
             (\<exists>f \<in> set (re_features x). name \<in> needs ext (Some f))))"
  by (auto simp: why_def direct_reasons_def extension_reasons_ne filter_empty_conv)

text \<open>
  A resolution has no extension it cannot explain, and no explanation for an extension
  it does not have: for an extension of the catalog, the reasons listed are empty exactly
  when the extension is not part of the resolution.
\<close>

lemma why_explains_resolution:
  assumes "catalog_wf catalog" and "bt_get catalog name \<noteq> None"
  shows "why catalog (resolve catalog caps) name \<noteq> [] \<longleftrightarrow>
    name \<in> re_id ` set (res_extensions (resolve catalog caps))"
proof -
  obtain acc edges rp where r: "resolve catalog caps = \<lparr>res_edges = edges,
      res_extensions = map (\<lambda>(_, re). certify catalog re) acc, res_runtime_provided = rp\<rparr>"
    and inv: "resolve_inv catalog acc edges"
    using assms resolve_acc by metis
  from inv have ok: "acc_ok acc" by (simp add: resolve_inv_def)
  have ids: "k \<in> re_id ` set (res_extensions (resolve catalog caps)) \<longleftrightarrow> k \<in> present acc" for k
    using acc_values [OF ok] ok unfolding r image_iff acc_ok_def
    by (metis (no_types, lifting) certify_keeps(1) domD domI resolution.select_convs(2))
  have vals: "x \<in> set (res_extensions (resolve catalog caps)) \<Longrightarrow>
      re_id x \<in> present acc \<and> set (re_features x) = feats acc (re_id x)" for x
    using acc_values [OF ok, of x catalog] unfolding r feats_def by auto
  have edges: "res_edges (resolve catalog caps) = edges" by (simp add: r)
  show ?thesis
  proof
    assume "why catalog (resolve catalog caps) name \<noteq> []"
    then consider e where "e \<in> set edges" "edge_extension e = Some name"
      | x ext f where "x \<in> set (res_extensions (resolve catalog caps))"
          "bt_get catalog (re_id x) = Some ext" "f \<in> set (re_features x)" "name \<in> needs ext (Some f)"
      unfolding why_ne edges by blast
    then have "name \<in> present acc"
    proof cases
      case 1
      with inv show ?thesis unfolding resolve_inv_def edges_served_def by blast
    next
      case 2
      with vals have "f \<in> feats acc (re_id x)" by blast
      with 2 inv assms(2) show ?thesis unfolding resolve_inv_def feature_closed_def by blast
    qed
    then show "name \<in> re_id ` set (res_extensions (resolve catalog caps))" by (simp add: ids)
  next
    assume "name \<in> re_id ` set (res_extensions (resolve catalog caps))"
    then have "name \<in> present acc" by (simp add: ids)
    with inv have "explained catalog acc edges name" by (simp add: resolve_inv_def)
    then consider e where "e \<in> set edges" "edge_extension e = Some name"
      | k' ext f where "k' \<noteq> name" "f \<in> feats acc k'" "bt_get catalog k' = Some ext"
          "name \<in> needs ext (Some f)"
      unfolding explained_def by blast
    then show "why catalog (resolve catalog caps) name \<noteq> []"
    proof cases
      case 1
      then show ?thesis unfolding why_ne edges by blast
    next
      case 2
      then have "k' \<in> present acc" by (auto simp: feats_def split: option.splits)
      then obtain x where "x \<in> set (res_extensions (resolve catalog caps))" "re_id x = k'"
        using ids by force
      with 2 vals show ?thesis unfolding why_ne by blast
    qed
  qed
qed

section \<open>Edges and certification\<close>

text \<open>The edge of one requested capability: its first provider by id, if there is one.\<close>

definition edge_for :: "ext_catalog \<Rightarrow> string \<Rightarrow> provider_edge" where
  "edge_for catalog cap =
     (case find_provider catalog cap of
        Some (ext, feat) \<Rightarrow>
          \<lparr>edge_capability = cap, edge_extension = Some (ext_id ext), edge_feature = feat\<rparr>
      | None \<Rightarrow> \<lparr>edge_capability = cap, edge_extension = None, edge_feature = None\<rparr>)"

lemma resolve_fold_edges:
  "foldl (resolve_step catalog) (acc, edges, rp) caps = (acc', edges', rp') \<Longrightarrow>
     edges' = edges @ map (edge_for catalog) caps
     \<and> rp' = rp @ filter (\<lambda>c. find_provider catalog c = None) caps"
proof (induction caps arbitrary: acc edges rp)
  case (Cons cap caps)
  obtain acc1 where st: "resolve_step catalog (acc, edges, rp) cap =
      (acc1, edges @ [edge_for catalog cap], rp @ (if find_provider catalog cap = None then [cap] else []))"
    by (cases "find_provider catalog cap") (auto simp: resolve_step_def edge_for_def)
  from Cons.prems st have "foldl (resolve_step catalog) (acc1, edges @ [edge_for catalog cap],
      rp @ (if find_provider catalog cap = None then [cap] else [])) caps = (acc', edges', rp')"
    by simp
  from Cons.IH [OF this] show ?case by (cases "find_provider catalog cap") simp_all
qed simp

text \<open>
  A resolution answers every requested capability, in order and with exactly one edge,
  by the first extension in id order that provides it; the capabilities without a provider
  are the ones left to the base runtime.
\<close>

lemma resolution_answers_requests:
  "res_edges (resolve catalog caps) = map (edge_for catalog) caps
   \<and> res_runtime_provided (resolve catalog caps) = filter (\<lambda>c. find_provider catalog c = None) caps
   \<and> (find_provider catalog cap = None \<longleftrightarrow> (\<forall>ext \<in> snd ` set catalog. map_of (ext_provides ext) cap = None))"
proof -
  obtain acc edges rp where "foldl (resolve_step catalog) ([], [], []) caps = (acc, edges, rp)"
    by (cases "foldl (resolve_step catalog) ([], [], []) caps") auto
  with resolve_fold_edges [OF this] have "res_edges (resolve catalog caps) = map (edge_for catalog) caps
   \<and> res_runtime_provided (resolve catalog caps) = filter (\<lambda>c. find_provider catalog c = None) caps"
    by (simp add: resolve_def)
  moreover have "find_provider catalog cap = None \<longleftrightarrow>
      (\<forall>ext \<in> snd ` set catalog. map_of (ext_provides ext) cap = None)"
    by (induction catalog cap rule: find_provider.induct) (auto split: option.splits)
  ultimately show ?thesis by simp
qed

lemma choose_certified_cases:
  assumes "choose_certified ext enabled = (cert, uncert)"
  shows "(cert = Some p \<longrightarrow> p \<in> set (ext_certified ext) \<and> set enabled \<subseteq> set (certified_features p))
    \<and> (uncert \<longleftrightarrow> ext_certified ext \<noteq> [] \<and>
         (\<forall>q \<in> set (ext_certified ext). \<not> set enabled \<subseteq> set (certified_features q)))
    \<and> (cert = None \<longleftrightarrow> uncert \<or> ext_certified ext = [])"
proof (cases "find (\<lambda>c. list_all (\<lambda>f. f \<in> set (certified_features c)) enabled) (ext_certified ext)")
  case None
  then have "\<forall>q \<in> set (ext_certified ext). \<not> set enabled \<subseteq> set (certified_features q)"
    by (auto simp: find_None_iff list_all_iff)
  with None assms show ?thesis by (auto simp: choose_certified_def split: if_splits)
next
  case (Some q)
  then have "q \<in> set (ext_certified ext)" and "set enabled \<subseteq> set (certified_features q)"
    by (auto simp: find_Some_iff list_all_iff)
  moreover from this Some assms have "cert = Some q" and "\<not> uncert"
    by (simp_all add: choose_certified_def split: if_splits)
  ultimately show ?thesis by auto
qed

text \<open>
  Certification is never overstated: the certified point recorded for an extension is
  one the extension declares and covers every enabled feature, and the resolution is marked
  uncertified exactly when points are declared and none covers the enabled features.
\<close>

lemma resolution_certified:
  assumes "x \<in> set (res_extensions (resolve catalog caps))"
    and "bt_get catalog (re_id x) = Some ext"
  shows "(re_certified x = Some p \<longrightarrow>
        p \<in> set (ext_certified ext) \<and> set (re_features x) \<subseteq> set (certified_features p))
    \<and> (re_uncertified x \<longleftrightarrow> ext_certified ext \<noteq> [] \<and>
         (\<forall>q \<in> set (ext_certified ext). \<not> set (re_features x) \<subseteq> set (certified_features q)))"
proof -
  from assms(1) obtain re where x: "x = certify catalog re"
    by (auto simp: resolve_def split: prod.splits)
  with assms(2) have "bt_get catalog (re_id re) = Some ext" by simp
  with x have "choose_certified ext (re_features re) = (re_certified x, re_uncertified x)"
    by (simp add: certify_def split: prod.splits)
  with x have "choose_certified ext (re_features x) = (re_certified x, re_uncertified x)" by simp
  from choose_certified_cases [OF this] show ?thesis by blast
qed

section \<open>A concrete catalog\<close>

definition sample_catalog :: ext_catalog where
  "sample_catalog =
     [(''materialx'', \<lparr>ext_id = ''materialx'', ext_kind = ''library.materialx'', ext_tier = None,
         ext_version = ''1.39'', ext_allowed_range = None, ext_provides = [], ext_features = [],
         ext_certified = [], ext_validation = []\<rparr>),
      (''openusd'', \<lparr>ext_id = ''openusd'', ext_kind = ''solution.openusd'', ext_tier = None,
         ext_version = ''25.05'', ext_allowed_range = Some ''>=25.05,<26.08'',
         ext_provides = [(''usd'', None), (''usd-materialx'', Some ''materialx'')],
         ext_features = [(''materialx'', \<lparr>requires_packages = [''MaterialX''],
                                          requires_extensions = [''materialx'']\<rparr>)],
         ext_certified = [\<lparr>certified_version = ''25.05'', certified_features = [''materialx''],
                           certified_validation = None\<rparr>],
         ext_validation = []\<rparr>)]"

lemma sample_catalog_wf: "catalog_wf sample_catalog"
  by code_simp

definition sample_usd :: resolved_extension where
  "sample_usd = \<lparr>re_id = ''openusd'', re_version = ''25.05'', re_features = [''materialx''],
     re_packages = [''MaterialX''], re_allowed_range = Some ''>=25.05,<26.08'',
     re_certified = Some \<lparr>certified_version = ''25.05'', certified_features = [''materialx''],
                           certified_validation = None\<rparr>,
     re_uncertified = False\<rparr>"

theorem resolution_closed_witness:
  "catalog_wf sample_catalog
   \<and> (\<exists>y \<in> set (res_extensions (resolve sample_catalog [''usd-materialx''])). re_id y = ''materialx'')"
proof -
  let ?r = "resolve sample_catalog [''usd-materialx'']"
  have x: "sample_usd \<in> set (res_extensions ?r)" by code_simp
  have e: "\<exists>ext spec. bt_get sample_catalog (re_id sample_usd) = Some ext
      \<and> ext_feature ext ''materialx'' = Some spec \<and> ''materialx'' \<in> set (requires_extensions spec)"
    by (simp add: sample_catalog_def sample_usd_def ext_feature_def)
  have "''materialx'' \<in> set (re_features sample_usd)" by (simp add: sample_usd_def)
  moreover have "bt_get sample_catalog ''materialx'' \<noteq> None" by (simp add: sample_catalog_def)
  ultimately have "\<exists>y \<in> set (res_extensions ?r). re_id y = ''materialx''"
    using resolution_closed [OF sample_catalog_wf refl, of "[''usd-materialx'']"] x e by meson
  with sample_catalog_wf show ?thesis by blast
qed

lemma why_explains_resolution_witness:
  "catalog_wf sample_catalog
   \<and> why sample_catalog (resolve sample_catalog [''usd-materialx'']) ''materialx'' \<noteq> []"
proof -
  have "bt_get sample_catalog ''materialx'' \<noteq> None" by (simp add: sample_catalog_def)
  moreover have "''materialx'' \<in> re_id ` set (res_extensions (resolve sample_catalog [''usd-materialx'']))"
    by code_simp
  ultimately show ?thesis
    using why_explains_resolution [OF sample_catalog_wf] sample_catalog_wf by blast
qed

lemma resolution_answers_requests_witness:
  "find_provider sample_catalog ''ocio'' = None
   \<and> res_runtime_provided (resolve sample_catalog [''usd'', ''ocio'']) = [''ocio'']"
proof -
  have none: "find_provider sample_catalog ''ocio'' = None" by code_simp
  moreover have "find_provider sample_catalog ''usd'' \<noteq> None" by code_simp
  ultimately show ?thesis
    using resolution_answers_requests [of sample_catalog "[''usd'', ''ocio'']" "''ocio''"] by simp
qed

lemma resolution_certified_witness:
  "sample_usd \<in> set (res_extensions (resolve sample_catalog [''usd-materialx'']))
   \<and> \<not> re_uncertified sample_usd"
proof -
  have x: "sample_usd \<in> set (res_extensions (resolve sample_catalog [''usd-materialx'']))"
    by code_simp
  obtain ext where ext: "bt_get sample_catalog (re_id sample_usd) = Some ext"
    and "ext_certified ext = [\<lparr>certified_version = ''25.05'', certified_features = [''materialx''],
           certified_validation = None\<rparr>]"
    by (simp add: sample_catalog_def sample_usd_def)
  with resolution_certified [OF x ext] x show ?thesis
    by (simp add: sample_usd_def)
qed

end
