(* ===== verification/References.thy ===== *)
theory References
  imports Errors
begin

text \<open>
  Remote artifact references (\<^verbatim>\<open>crates/ost-artifact/src/reference.rs\<close>): the grammar of
  \<^verbatim>\<open>oci://\<close> and \<^verbatim>\<open>file://\<close> locators, what counts as pinned, and the
  canonical locator printed as evidence.
\<close>

section \<open>Tags and digests\<close>

definition is_valid_oci_tag :: "string \<Rightarrow> bool" where
  "is_valid_oci_tag value =
     (case value of
        [] \<Rightarrow> False
      | first # rest \<Rightarrow>
          length value \<le> 128
          \<and> (is_ascii_alphanumeric first \<or> first = CHR ''_'')
          \<and> list_all (\<lambda>b. is_ascii_alphanumeric b \<or> b \<in> set ''._-'') rest)"

definition is_sha256_ref :: "string \<Rightarrow> bool" where
  "is_sha256_ref s =
     (case strip_prefix ''sha256:'' s of
        Some hex \<Rightarrow> length hex = 64 \<and> list_all is_ascii_hexdigit hex
      | None \<Rightarrow> False)"

section \<open>References\<close>

record oci_reference =
  oci_registry :: string
  oci_repository :: string
  oci_tag :: "string option"
  oci_digest :: "string option"

record file_reference =
  file_path :: string

datatype remote_reference = Oci oci_reference | File file_reference

definition oci_bad :: "string \<Rightarrow> string \<Rightarrow> error" where
  "oci_bad input why =
     usage (quoted input @ '' is not a valid oci:// reference: '' @ why @
       '' (expected oci://<registry>/<repository>[:tag][@sha256:<digest>])'')"

text \<open>Digest first: everything after the at sign is a full sha256 reference.\<close>

definition oci_take_digest :: "string \<Rightarrow> string \<Rightarrow> (string \<times> string option) res" where
  "oci_take_digest input rest =
     (case split_once (CHR ''@'') rest of
        Some (head, dg) \<Rightarrow>
          if \<not> is_sha256_ref dg
          then Inl (oci_bad input (quoted (''@'' @ dg) @ '' is not a sha256:<64 hex chars> digest''))
          else Inr (head, Some dg)
      | None \<Rightarrow> Inr (rest, None))"

definition oci_take_registry :: "string \<Rightarrow> string \<Rightarrow> (string \<times> string) res" where
  "oci_take_registry input rest =
     (case split_once (CHR ''/'') rest of
        None \<Rightarrow> Inl (oci_bad input ''missing a /<repository> after the registry host'')
      | Some (registry, repo_and_tag) \<Rightarrow>
          if registry = [] then Inl (oci_bad input ''empty registry host'')
          else if \<not> list_all (\<lambda>b. is_ascii_alphanumeric b \<or> b \<in> set ''.-:'') registry
          then Inl (oci_bad input (''registry host '' @ quoted registry @
                      '' may only contain letters, digits, and .-:''))
          else Inr (registry, repo_and_tag))"

text \<open>The tag separator is a colon after the last slash.\<close>

definition oci_take_tag :: "string \<Rightarrow> string \<times> string option" where
  "oci_take_tag repo_and_tag =
     (case rsplit_once (CHR '':'') repo_and_tag of
        Some (repo, t) \<Rightarrow>
          if CHR ''/'' \<notin> set repo \<or> CHR ''/'' \<notin> set t then (repo, Some t)
          else (repo_and_tag, None)
      | None \<Rightarrow> (repo_and_tag, None))"

definition oci_check_repository :: "string \<Rightarrow> string \<Rightarrow> string option \<Rightarrow> unit res" where
  "oci_check_repository input repository tag =
     (if repository = [] then Inl (oci_bad input ''empty repository path'')
      else if \<not> list_all (\<lambda>b. is_ascii_lowercase b \<or> is_ascii_digit b \<or> b \<in> set ''._-/'') repository
      then Inl (oci_bad input (''repository '' @ quoted repository @
                  '' may only contain lowercase letters, digits, and ._-/''))
      else case tag of
             Some t \<Rightarrow> if \<not> is_valid_oci_tag t
                       then Inl (oci_bad input (quoted t @ '' is not a valid tag''))
                       else Inr ()
           | None \<Rightarrow> Inr ())"

definition oci_parse_rest :: "string \<Rightarrow> string \<Rightarrow> oci_reference res" where
  "oci_parse_rest input rest0 =
     and_then (oci_take_digest input rest0) (\<lambda>(rest, digest).
       and_then (oci_take_registry input rest) (\<lambda>(registry, repo_and_tag).
         let (repository, tag) = oci_take_tag repo_and_tag
         in and_then (oci_check_repository input repository tag) (\<lambda>_.
              Inr \<lparr>oci_registry = registry, oci_repository = repository,
                   oci_tag = tag, oci_digest = digest\<rparr>)))"

definition oci_locator :: "oci_reference \<Rightarrow> string" where
  "oci_locator r =
     ''oci://'' @ oci_registry r @ ''/'' @ oci_repository r
     @ (case oci_tag r of Some t \<Rightarrow> '':'' @ t | None \<Rightarrow> [])
     @ (case oci_digest r of Some d \<Rightarrow> ''@'' @ d | None \<Rightarrow> [])"

definition manifest_reference :: "oci_reference \<Rightarrow> string res" where
  "manifest_reference r =
     (case oci_digest r of
        Some d \<Rightarrow> Inr d
      | None \<Rightarrow>
          (case oci_tag r of
             Some t \<Rightarrow> Inr t
           | None \<Rightarrow> Inl (usage (quoted (oci_locator r) @ '' names neither a tag nor a digest''))))"

definition file_parse_rest :: "string \<Rightarrow> string \<Rightarrow> file_reference res" where
  "file_parse_rest input rest =
     (let path = (case strip_prefix ''/'' rest of
                    Some stripped \<Rightarrow>
                      if 2 < length stripped \<and> is_ascii_alphabetic (stripped ! 0)
                         \<and> stripped ! 1 = CHR '':''
                      then stripped else rest
                  | None \<Rightarrow> rest)
      in if path = []
         then Inl (usage (quoted input @ '' has an empty file path (expected file://<package-output-dir>)''))
         else Inr \<lparr>file_path = path\<rparr>)"

definition file_locator :: "file_reference \<Rightarrow> string" where
  "file_locator f = ''file://'' @ file_path f"

definition reference_parse :: "string \<Rightarrow> remote_reference res" where
  "reference_parse input =
     (case strip_prefix ''oci://'' input of
        Some rest \<Rightarrow> and_then (oci_parse_rest input rest) (\<lambda>r. Inr (Oci r))
      | None \<Rightarrow>
          (case strip_prefix ''file://'' input of
             Some rest \<Rightarrow> and_then (file_parse_rest input rest) (\<lambda>f. Inr (File f))
           | None \<Rightarrow>
               Inl (usage (quoted input @ '' is not a remote artifact reference '' @
                 ''(expected oci://<registry>/<repository>[:tag][@sha256:<digest>] or file://<package-output-dir>)''))))"

fun is_pinned :: "remote_reference \<Rightarrow> bool" where
  "is_pinned (Oci r) = (oci_digest r \<noteq> None)"
| "is_pinned (File _) = True"

fun locator :: "remote_reference \<Rightarrow> string" where
  "locator (Oci r) = oci_locator r"
| "locator (File f) = file_locator f"

section \<open>Well-formed references\<close>

definition oci_ok :: "oci_reference \<Rightarrow> bool" where
  "oci_ok r \<longleftrightarrow>
     oci_registry r \<noteq> [] \<and> list_all (\<lambda>b. is_ascii_alphanumeric b \<or> b \<in> set ''.-:'') (oci_registry r)
     \<and> oci_repository r \<noteq> []
     \<and> list_all (\<lambda>b. is_ascii_lowercase b \<or> is_ascii_digit b \<or> b \<in> set ''._-/'') (oci_repository r)
     \<and> (\<forall>t. oci_tag r = Some t \<longrightarrow> is_valid_oci_tag t)
     \<and> (\<forall>d. oci_digest r = Some d \<longrightarrow> is_sha256_ref d)"

definition file_ok :: "file_reference \<Rightarrow> bool" where
  "file_ok f \<longleftrightarrow> file_path f \<noteq> []
     \<and> (case strip_prefix ''/'' (file_path f) of
          None \<Rightarrow> True
        | Some s \<Rightarrow> \<not> (2 < length s \<and> is_ascii_alphabetic (s ! 0) \<and> s ! 1 = CHR '':''))"

fun reference_ok :: "remote_reference \<Rightarrow> bool" where
  "reference_ok (Oci r) = oci_ok r"
| "reference_ok (File f) = file_ok f"

lemma oci_take_digest_ok:
  "oci_take_digest input rest = Inr (head, digest) \<Longrightarrow> digest = Some d \<Longrightarrow> is_sha256_ref d"
  by (auto simp: oci_take_digest_def split: option.splits if_splits)

lemma oci_take_registry_ok:
  "oci_take_registry input rest = Inr (registry, rt) \<Longrightarrow>
     registry \<noteq> [] \<and> list_all (\<lambda>b. is_ascii_alphanumeric b \<or> b \<in> set ''.-:'') registry"
  by (auto simp: oci_take_registry_def split: option.splits if_splits)

lemma oci_check_repository_ok:
  "oci_check_repository input repository tag = Inr () \<longleftrightarrow>
     repository \<noteq> [] \<and> list_all (\<lambda>b. is_ascii_lowercase b \<or> is_ascii_digit b \<or> b \<in> set ''._-/'') repository
     \<and> (\<forall>t. tag = Some t \<longrightarrow> is_valid_oci_tag t)"
  by (auto simp: oci_check_repository_def split: option.splits)

lemma oci_parse_rest_ok:
  assumes "oci_parse_rest input rest = Inr r"
  shows "oci_ok r"
proof -
  from assms obtain head digest registry rt where
    "oci_take_digest input rest = Inr (head, digest)"
    and "oci_take_registry input head = Inr (registry, rt)"
    and "oci_check_repository input (fst (oci_take_tag rt)) (snd (oci_take_tag rt)) = Inr ()"
    and "r = \<lparr>oci_registry = registry, oci_repository = fst (oci_take_tag rt),
               oci_tag = snd (oci_take_tag rt), oci_digest = digest\<rparr>"
    by (auto simp: oci_parse_rest_def res_simps case_prod_unfold Let_def)
  then show ?thesis
    by (auto simp: oci_ok_def oci_check_repository_ok
             dest: oci_take_digest_ok oci_take_registry_ok)
qed

lemma tag_plain: "is_valid_oci_tag t \<Longrightarrow> CHR '':'' \<notin> set t \<and> CHR ''/'' \<notin> set t \<and> CHR ''@'' \<notin> set t"
  by (cases t) (auto simp: is_valid_oci_tag_def list_all_iff ascii_defs)

lemma registry_plain:
  "list_all (\<lambda>b. is_ascii_alphanumeric b \<or> b \<in> set ''.-:'') s \<Longrightarrow> CHR ''/'' \<notin> set s \<and> CHR ''@'' \<notin> set s"
  by (auto simp: list_all_iff ascii_defs)

lemma repository_plain:
  "list_all (\<lambda>b. is_ascii_lowercase b \<or> is_ascii_digit b \<or> b \<in> set ''._-/'') s \<Longrightarrow>
     CHR '':'' \<notin> set s \<and> CHR ''@'' \<notin> set s"
  by (auto simp: list_all_iff ascii_defs)

section \<open>Printing and parsing\<close>

lemma take_digest_locator:
  assumes "CHR ''@'' \<notin> set head" and "\<forall>d. digest = Some d \<longrightarrow> is_sha256_ref d"
  shows "oci_take_digest input (head @ (case digest of Some d \<Rightarrow> ''@'' @ d | None \<Rightarrow> [])) = Inr (head, digest)"
proof (cases digest)
  case None
  with assms have "split_once (CHR ''@'') head = None" by (simp add: split_once_None)
  with None show ?thesis by (simp add: oci_take_digest_def)
next
  case (Some d)
  with assms show ?thesis by (simp add: oci_take_digest_def split_once_append)
qed

lemma take_tag_locator:
  assumes "CHR '':'' \<notin> set repository" and "\<forall>t. tag = Some t \<longrightarrow> is_valid_oci_tag t"
  shows "oci_take_tag (repository @ (case tag of Some t \<Rightarrow> '':'' @ t | None \<Rightarrow> [])) = (repository, tag)"
proof (cases tag)
  case None
  with assms have "rsplit_once (CHR '':'') repository = None" by (simp add: rsplit_once_None)
  with None show ?thesis by (simp add: oci_take_tag_def)
next
  case (Some t)
  with assms tag_plain have "CHR '':'' \<notin> set t \<and> CHR ''/'' \<notin> set t" by blast
  then have "rsplit_once (CHR '':'') (repository @ CHR '':'' # t) = Some (repository, t)"
    and "CHR ''/'' \<notin> set t"
    by (simp_all add: rsplit_once_Some)
  with Some show ?thesis by (simp add: oci_take_tag_def)
qed

lemma oci_roundtrip:
  assumes "oci_ok r"
  shows "reference_parse (oci_locator r) = Inr (Oci r)"
proof -
  let ?input = "oci_locator r"
  let ?tag = "case oci_tag r of Some t \<Rightarrow> '':'' @ t | None \<Rightarrow> []"
  let ?head = "oci_registry r @ ''/'' @ oci_repository r @ ?tag"
  let ?rest = "?head @ (case oci_digest r of Some d \<Rightarrow> ''@'' @ d | None \<Rightarrow> [])"
  have reg: "CHR ''/'' \<notin> set (oci_registry r) \<and> CHR ''@'' \<notin> set (oci_registry r)"
    using assms registry_plain unfolding oci_ok_def by blast
  have repo: "CHR '':'' \<notin> set (oci_repository r) \<and> CHR ''@'' \<notin> set (oci_repository r)"
    using assms repository_plain unfolding oci_ok_def by blast
  have tag: "\<forall>t. oci_tag r = Some t \<longrightarrow> is_valid_oci_tag t"
    and digest: "\<forall>d. oci_digest r = Some d \<longrightarrow> is_sha256_ref d"
    using assms unfolding oci_ok_def by blast+
  have "CHR ''@'' \<notin> set ?head"
    using reg repo tag tag_plain by (auto split: option.splits)
  then have d: "oci_take_digest ?input ?rest = Inr (?head, oci_digest r)"
    using digest by (rule take_digest_locator)
  have "split_once (CHR ''/'') ?head = Some (oci_registry r, oci_repository r @ ?tag)"
    using reg split_once_append by simp
  then have g: "oci_take_registry ?input ?head = Inr (oci_registry r, oci_repository r @ ?tag)"
    using assms by (simp add: oci_take_registry_def oci_ok_def)
  have t: "oci_take_tag (oci_repository r @ ?tag) = (oci_repository r, oci_tag r)"
    using repo tag by (intro take_tag_locator) blast+
  have c: "oci_check_repository ?input (oci_repository r) (oci_tag r) = Inr ()"
    using assms by (simp add: oci_check_repository_ok oci_ok_def)
  have "oci_parse_rest ?input ?rest = Inr r"
    unfolding oci_parse_rest_def d and_then_simps prod.case g t Let_def c by simp
  moreover have "strip_prefix ''oci://'' ?input = Some ?rest"
    unfolding oci_locator_def strip_prefix_Some by simp
  ultimately show ?thesis by (simp add: reference_parse_def)
qed

lemma file_roundtrip:
  assumes "file_ok f"
  shows "reference_parse (file_locator f) = Inr (File f)"
proof -
  have "strip_prefix ''oci://'' (file_locator f) = None" by (simp add: file_locator_def)
  moreover have "strip_prefix ''file://'' (file_locator f) = Some (file_path f)"
    unfolding file_locator_def strip_prefix_Some by simp
  moreover have "file_parse_rest (file_locator f) (file_path f) = Inr f"
    using assms by (auto simp: file_parse_rest_def file_ok_def Let_def split: option.splits)
  ultimately show ?thesis by (simp add: reference_parse_def)
qed

lemma file_parse_rest_ok: "file_parse_rest input rest = Inr f \<Longrightarrow> file_ok f"
  by (cases rest)
     (auto simp: file_parse_rest_def file_ok_def Let_def ascii_defs strip_prefix_Some
           split: option.splits if_splits)

lemma reference_parse_ok: "reference_parse input = Inr r \<Longrightarrow> reference_ok r"
  by (auto simp: reference_parse_def res_simps split: option.splits
           dest: oci_parse_rest_ok file_parse_rest_ok)

text \<open>
  Printing a reference and reading it back is the identity, for every reference the
  parser returns: the locator recorded as evidence names the same registry, repository, tag
  and digest, or the same directory, and keeps whether the reference is pinned.
\<close>

lemma reference_roundtrip:
  assumes "reference_parse input = Inr r"
  shows "reference_parse (locator r) = Inr r"
  using reference_parse_ok [OF assms] by (cases r) (simp_all add: oci_roundtrip file_roundtrip)

lemma reference_roundtrip_witness:
  "reference_parse ''oci://ghcr.io:443/owner/openstrata-runtime:usd-24.08'' =
     Inr (Oci \<lparr>oci_registry = ''ghcr.io:443'', oci_repository = ''owner/openstrata-runtime'',
               oci_tag = Some ''usd-24.08'', oci_digest = None\<rparr>)
   \<and> reference_parse (locator (Oci \<lparr>oci_registry = ''ghcr.io:443'',
        oci_repository = ''owner/openstrata-runtime'', oci_tag = Some ''usd-24.08'', oci_digest = None\<rparr>)) =
     Inr (Oci \<lparr>oci_registry = ''ghcr.io:443'', oci_repository = ''owner/openstrata-runtime'',
               oci_tag = Some ''usd-24.08'', oci_digest = None\<rparr>)"
proof -
  have p: "reference_parse ''oci://ghcr.io:443/owner/openstrata-runtime:usd-24.08'' =
     Inr (Oci \<lparr>oci_registry = ''ghcr.io:443'', oci_repository = ''owner/openstrata-runtime'',
               oci_tag = Some ''usd-24.08'', oci_digest = None\<rparr>)"
    by code_simp
  from p reference_roundtrip [OF p] show ?thesis by blast
qed

text \<open>
  A pinned registry reference carries a well-formed sha256 digest, and that digest is
  what the registry is asked for; an unpinned one is asked for by its tag, and asking is
  refused exactly when there is neither.
\<close>

lemma pinned_reference_asks_digest:
  assumes "reference_parse input = Inr (Oci r)"
  shows "(is_pinned (Oci r) \<longrightarrow> (\<exists>d. manifest_reference r = Inr d \<and> oci_digest r = Some d \<and> is_sha256_ref d))
    \<and> (\<not> is_pinned (Oci r) \<longrightarrow> (\<forall>t. manifest_reference r = Inr t \<longleftrightarrow> oci_tag r = Some t))
    \<and> (is_ok (manifest_reference r) \<longleftrightarrow> oci_tag r \<noteq> None \<or> oci_digest r \<noteq> None)"
  using reference_parse_ok [OF assms]
  by (auto simp: manifest_reference_def oci_ok_def split: option.splits)

lemma pinned_reference_asks_digest_witness:
  "let r = \<lparr>oci_registry = ''ghcr.io'', oci_repository = ''owner/rt'', oci_tag = Some ''v1'', oci_digest = None\<rparr>
   in reference_parse ''oci://ghcr.io/owner/rt:v1'' = Inr (Oci r) \<and> manifest_reference r = Inr ''v1''"
proof -
  let ?r = "\<lparr>oci_registry = ''ghcr.io'', oci_repository = ''owner/rt'', oci_tag = Some ''v1'', oci_digest = None\<rparr>"
  have p: "reference_parse ''oci://ghcr.io/owner/rt:v1'' = Inr (Oci ?r)" by code_simp
  from pinned_reference_asks_digest [OF p] have "manifest_reference ?r = Inr ''v1''" by simp
  with p show ?thesis by (simp only: Let_def)
qed

end
