(* ===== verification/Components.thy ===== *)
theory Components
  imports Errors Paths
begin

text \<open>
  The component contract of an artifact (\<^verbatim>\<open>crates/ost-artifact/src/component.rs\<close>):
  the portable metadata a composition is resolved from, and its validation.
\<close>

section \<open>Data\<close>

definition COMPONENT_SCHEMA :: string where
  "COMPONENT_SCHEMA = ''openstrata.component/v1alpha1''"

datatype component_kind = Runtime | Plugin | Library | Tool | Renderer | Data | HostAddon

fun component_kind_as_str :: "component_kind \<Rightarrow> string" where
  "component_kind_as_str Runtime = ''runtime''"
| "component_kind_as_str Plugin = ''plugin''"
| "component_kind_as_str Library = ''library''"
| "component_kind_as_str Tool = ''tool''"
| "component_kind_as_str Renderer = ''renderer''"
| "component_kind_as_str Data = ''data''"
| "component_kind_as_str HostAddon = ''host-addon''"

record capability_provision =
  provision_capability :: string
  provision_version :: string
  provision_singleton :: bool

record capability_requirement =
  requirement_capability :: string
  requirement_version :: "string option"
  requirement_provider :: "string option"

datatype environment_operation = Prepend | Append | SetTo

fun environment_operation_as_str :: "environment_operation \<Rightarrow> string" where
  "environment_operation_as_str Prepend = ''prepend''"
| "environment_operation_as_str Append = ''append''"
| "environment_operation_as_str SetTo = ''set''"

record environment_contribution =
  contribution_variable :: string
  contribution_operation :: environment_operation
  contribution_values :: "string list"

record install_mapping =
  mapping_source :: string
  mapping_destination :: string

record component_compatibility =
  compatibility_targets :: "string list"
  compatibility_abi :: "string option"
  compatibility_usd :: "string option"

record component_contract =
  contract_schema :: string
  contract_id :: string
  contract_kind :: component_kind
  contract_version :: string
  contract_provides :: "capability_provision list"
  contract_requires :: "capability_requirement list"
  contract_environment :: "environment_contribution list"
  contract_install :: "install_mapping list"
  contract_compatibility :: component_compatibility
  contract_descriptor :: "string option"
  contract_descriptor_sha256 :: "string option"
  contract_cmake :: "json option"
  contract_dependencies :: "json option"

definition is_default_compatibility :: "component_compatibility \<Rightarrow> bool" where
  "is_default_compatibility v \<longleftrightarrow>
     v = \<lparr>compatibility_targets = [], compatibility_abi = None, compatibility_usd = None\<rparr>"

section \<open>Validation\<close>

definition portable_chars :: "string \<Rightarrow> bool" where
  "portable_chars value \<longleftrightarrow> value \<noteq> [] \<and> list_all (\<lambda>b. is_ascii_alphanumeric b \<or> b \<in> set ''.-_'') value"

definition portable_id :: "string \<Rightarrow> string \<Rightarrow> unit res" where
  "portable_id field value =
     (if value = [] \<or> \<not> list_all (\<lambda>b. is_ascii_alphanumeric b \<or> b \<in> set ''.-_'') value
      then Inl (InvalidManifest (field @ '' '' @ quoted value @ '' is not a portable identifier''))
      else Inr ())"

definition capability_chars :: "string \<Rightarrow> bool" where
  "capability_chars value \<longleftrightarrow> value \<noteq> [] \<and> list_all (\<lambda>b. is_ascii_alphanumeric b \<or> b \<in> set ''.-_:'') value"

definition capability :: "string \<Rightarrow> string \<Rightarrow> unit res" where
  "capability field value =
     (if value = [] \<or> \<not> list_all (\<lambda>b. is_ascii_alphanumeric b \<or> b \<in> set ''.-_:'') value
      then Inl (InvalidManifest (field @ '' '' @ quoted value @ '' is not a portable capability''))
      else Inr ())"

definition only_current_directory :: "string \<Rightarrow> bool" where
  "only_current_directory value = list_all (\<lambda>part. part = [] \<or> part = ''.'') (split_on any_slash value)"

definition safe_relative :: "string \<Rightarrow> string \<Rightarrow> bool \<Rightarrow> unit res" where
  "safe_relative field value allow_dot =
     (let drive = (1 < length value \<and> value ! 1 = CHR '':'');
          invalid = (value = []
             \<or> (\<not> allow_dot \<and> only_current_directory value)
             \<or> any_slash (hd value)
             \<or> drive
             \<or> list_ex (\<lambda>part. part = ''..'') (split_on any_slash value))
      in if invalid
         then Inl (InvalidManifest (field @ '' '' @ quoted value @ '' must be an artifact-relative path''))
         else Inr ())"

definition check_provision :: "string btree_set \<Rightarrow> capability_provision \<Rightarrow> string btree_set res" where
  "check_provision seen p =
     and_then (capability ''component.provides.capability'' (provision_capability p)) (\<lambda>_.
       if provision_capability p \<in> set seen
       then Inl (InvalidManifest (''component provides capability '' @
                   quoted (provision_capability p) @ '' more than once''))
       else if trim (provision_version p) = []
       then Inl (InvalidManifest (''component provision '' @
                   quoted (provision_capability p) @ '' has an empty version''))
       else Inr (bs_insert (provision_capability p) seen))"

definition check_requirement :: "capability_requirement \<Rightarrow> unit res" where
  "check_requirement r =
     and_then (capability ''component.requires.capability'' (requirement_capability r)) (\<lambda>_.
       if (case requirement_version r of Some v \<Rightarrow> trim v = [] | None \<Rightarrow> False)
       then Inl (InvalidManifest (''component requirement '' @
                   quoted (requirement_capability r) @ '' has an empty version constraint''))
       else case requirement_provider r of
              Some provider \<Rightarrow> portable_id ''component.requires.provider'' provider
            | None \<Rightarrow> Inr ())"

definition check_contribution :: "environment_contribution \<Rightarrow> unit res" where
  "check_contribution c =
     (if contribution_variable c = []
         \<or> \<not> list_all (\<lambda>b. is_ascii_uppercase b \<or> is_ascii_digit b \<or> b = CHR ''_'') (contribution_variable c)
      then Inl (InvalidManifest (''component environment variable '' @
                  quoted (contribution_variable c) @ '' is not a portable uppercase name''))
      else if contribution_values c = []
      then Inl (InvalidManifest (''component environment contribution '' @
                  quoted (contribution_variable c) @ '' has no values''))
      else for_each (\<lambda>v. safe_relative ''component.environment.values'' v True) (contribution_values c))"

definition check_mapping :: "install_mapping \<Rightarrow> unit res" where
  "check_mapping m =
     and_then (safe_relative ''component.install.source'' (mapping_source m) False) (\<lambda>_.
       safe_relative ''component.install.destination'' (mapping_destination m) False)"

definition contract_validate :: "component_contract \<Rightarrow> unit res" where
  "contract_validate c =
     (if contract_schema c \<noteq> COMPONENT_SCHEMA
      then Inl (InvalidManifest (''unsupported component schema '' @ quoted (contract_schema c) @
                  '' (expected '' @ quoted COMPONENT_SCHEMA @ '')''))
      else and_then (portable_id ''component.id'' (contract_id c)) (\<lambda>_.
        if trim (contract_version c) = []
        then Inl (InvalidManifest ''component.version must not be empty'')
        else and_then (try_fold check_provision [] (contract_provides c)) (\<lambda>_.
          and_then (for_each check_requirement (contract_requires c)) (\<lambda>_.
            and_then (for_each check_contribution (contract_environment c)) (\<lambda>_.
              for_each check_mapping (contract_install c))))))"

section \<open>Artifact-relative paths\<close>

definition artifact_relative :: "string \<Rightarrow> bool" where
  "artifact_relative p \<longleftrightarrow> safe_relative [] p True = Inr ()"

lemma safe_relative_ok:
  "safe_relative field p allow_dot = Inr () \<longleftrightarrow>
     artifact_relative p \<and> (allow_dot \<or> \<not> only_current_directory p)"
  by (auto simp: artifact_relative_def safe_relative_def Let_def)

interpretation artifact_path: path_guard any_slash artifact_relative
proof
  fix p
  assume "artifact_relative p"
  then have "p \<noteq> []" "\<not> any_slash (hd p)" "''..'' \<notin> set (split_on any_slash p)"
    by (auto simp: artifact_relative_def safe_relative_def Let_def list_ex_iff split: if_splits)
  then show "contained any_slash p" by (intro contained_no_parent) auto
qed

text \<open>A path that is not just the current directory names something strictly below its base.\<close>

lemma install_path_below:
  assumes "artifact_relative p" and "\<not> only_current_directory p"
  shows "\<exists>names. names \<noteq> [] \<and> walk base (split_on any_slash p) = Some (base @ names)"
proof -
  from assms(1) have "''..'' \<notin> set (split_on any_slash p)"
    by (auto simp: artifact_relative_def safe_relative_def Let_def list_ex_iff split: if_splits)
  then have "walk base (split_on any_slash p) =
      Some (base @ filter (\<lambda>x. x \<noteq> [] \<and> x \<noteq> ''.'') (split_on any_slash p))"
    by (rule walk_no_parent)
  moreover from assms(2) have "filter (\<lambda>x. x \<noteq> [] \<and> x \<noteq> ''.'') (split_on any_slash p) \<noteq> []"
    by (auto simp: only_current_directory_def list_all_iff filter_empty_conv)
  ultimately show ?thesis by blast
qed

section \<open>A valid contract\<close>

definition provision_valid :: "capability_provision \<Rightarrow> bool" where
  "provision_valid p \<longleftrightarrow> capability_chars (provision_capability p) \<and> trim (provision_version p) \<noteq> []"

definition requirement_valid :: "capability_requirement \<Rightarrow> bool" where
  "requirement_valid r \<longleftrightarrow> capability_chars (requirement_capability r)
     \<and> (\<forall>v. requirement_version r = Some v \<longrightarrow> trim v \<noteq> [])
     \<and> (\<forall>p. requirement_provider r = Some p \<longrightarrow> portable_chars p)"

definition contribution_valid :: "environment_contribution \<Rightarrow> bool" where
  "contribution_valid c \<longleftrightarrow> contribution_variable c \<noteq> []
     \<and> list_all (\<lambda>b. is_ascii_uppercase b \<or> is_ascii_digit b \<or> b = CHR ''_'') (contribution_variable c)
     \<and> contribution_values c \<noteq> [] \<and> (\<forall>v \<in> set (contribution_values c). artifact_relative v)"

definition mapping_valid :: "install_mapping \<Rightarrow> bool" where
  "mapping_valid m \<longleftrightarrow> artifact_relative (mapping_source m) \<and> \<not> only_current_directory (mapping_source m)
     \<and> artifact_relative (mapping_destination m) \<and> \<not> only_current_directory (mapping_destination m)"

definition contract_valid :: "component_contract \<Rightarrow> bool" where
  "contract_valid c \<longleftrightarrow> contract_schema c = COMPONENT_SCHEMA \<and> portable_chars (contract_id c)
     \<and> trim (contract_version c) \<noteq> []
     \<and> (\<forall>p \<in> set (contract_provides c). provision_valid p)
     \<and> distinct (map provision_capability (contract_provides c))
     \<and> (\<forall>r \<in> set (contract_requires c). requirement_valid r)
     \<and> (\<forall>e \<in> set (contract_environment c). contribution_valid e)
     \<and> (\<forall>m \<in> set (contract_install c). mapping_valid m)"

lemma portable_id_ok: "portable_id field v = Inr () \<longleftrightarrow> portable_chars v"
  by (auto simp: portable_id_def portable_chars_def)

lemma capability_ok: "capability field v = Inr () \<longleftrightarrow> capability_chars v"
  by (auto simp: capability_def capability_chars_def)

lemma check_provision_ok:
  "check_provision seen p = Inr seen' \<longleftrightarrow>
     provision_valid p \<and> provision_capability p \<notin> set seen
     \<and> seen' = bs_insert (provision_capability p) seen"
  by (auto simp: check_provision_def provision_valid_def res_simps capability_ok)

interpretation provision_loop: unique_loop check_provision provision_valid provision_capability
  by unfold_locales (rule check_provision_ok)

lemma check_requirement_ok: "check_requirement r = Inr () \<longleftrightarrow> requirement_valid r"
  by (auto simp: check_requirement_def requirement_valid_def res_simps capability_ok portable_id_ok
           split: option.splits)

lemma check_contribution_ok: "check_contribution c = Inr () \<longleftrightarrow> contribution_valid c"
  by (auto simp: check_contribution_def contribution_valid_def res_simps safe_relative_ok)

lemma check_mapping_ok: "check_mapping m = Inr () \<longleftrightarrow> mapping_valid m"
  by (auto simp: check_mapping_def mapping_valid_def res_simps safe_relative_ok)

lemma contract_validate_ok: "contract_validate c = Inr () \<longleftrightarrow> contract_valid c"
  using provision_loop.loop_passes [of "[]" "contract_provides c"]
  by (auto simp: contract_validate_def contract_valid_def res_simps portable_id_ok
        check_requirement_ok check_contribution_ok check_mapping_ok)

text \<open>
  A component contract passes validation exactly when it is well formed, and then every
  install source and destination, joined to any directory with either separator, names
  something strictly below that directory.
\<close>

lemma contract_validate_sound:
  "(contract_validate c = Inr () \<longleftrightarrow> contract_valid c)
   \<and> (contract_validate c = Inr () \<and> m \<in> set (contract_install c)
        \<and> p \<in> {mapping_source m, mapping_destination m} \<longrightarrow>
      (\<exists>names. names \<noteq> [] \<and> walk base (split_on any_slash p) = Some (base @ names)))"
  using install_path_below [of p base]
  by (auto simp: contract_validate_ok contract_valid_def mapping_valid_def)

definition sample_contract :: component_contract where
  "sample_contract =
     \<lparr>contract_schema = COMPONENT_SCHEMA, contract_id = ''usd-raster'', contract_kind = Plugin,
      contract_version = ''0.4.1'',
      contract_provides = [\<lparr>provision_capability = ''format:geotiff'', provision_version = ''1.0'',
                           provision_singleton = True\<rparr>],
      contract_requires = [\<lparr>requirement_capability = ''usd'', requirement_version = Some ''>=25.05'',
                           requirement_provider = None\<rparr>],
      contract_environment = [\<lparr>contribution_variable = ''PXR_PLUGINPATH_NAME'',
                              contribution_operation = Prepend, contribution_values = [''plugin/usd'']\<rparr>],
      contract_install = [\<lparr>mapping_source = ''lib'', mapping_destination = ''lib/usd-raster''\<rparr>],
      contract_compatibility = \<lparr>compatibility_targets = [], compatibility_abi = None, compatibility_usd = None\<rparr>,
      contract_descriptor = None, contract_descriptor_sha256 = None, contract_cmake = None,
      contract_dependencies = None\<rparr>"

lemma contract_validate_sound_witness:
  "contract_validate sample_contract = Inr ()
   \<and> (\<exists>names. names \<noteq> [] \<and> walk [''rt''] (split_on any_slash ''lib/usd-raster'') = Some ([''rt''] @ names))"
proof -
  have v: "contract_validate sample_contract = Inr ()" by code_simp
  moreover have "\<lparr>mapping_source = ''lib'', mapping_destination = ''lib/usd-raster''\<rparr>
      \<in> set (contract_install sample_contract)"
    by (simp add: sample_contract_def)
  ultimately show ?thesis
    using contract_validate_sound [of sample_contract
        "\<lparr>mapping_source = ''lib'', mapping_destination = ''lib/usd-raster''\<rparr>" "''lib/usd-raster''" "[''rt'']"]
    by simp
qed

end
