(* ===== verification/Encodings.thy ===== *)
theory Encodings
  imports Errors
begin

text \<open>
  Byte encodings: the base64url decoder that reads the payload of an identity token
  (\<^verbatim>\<open>decode_base64url\<close>, ost-artifact/src/policy.rs), the encoder and the hex reader of the
  archive writer (ost-build/src/consumer_archive.rs), the rendering of digests
  (ost-core/src/digest.rs; SHA-256 itself is an argument), and the little-endian writers of the
  archive's ZIP records.  Bytes are 8 word, the accumulator of the decoder is a 32 word as in the code.
\<close>

unbundle bit_operations_syntax

section \<open>Model\<close>

type_synonym byte = "8 word"

text \<open>\<^verbatim>\<open>as_bytes()\<close>\<close>

definition str_bytes :: "string \<Rightarrow> byte list" where
  "str_bytes s = map (\<lambda>c. of_nat (of_char c)) s"

definition base64_table :: string where
  "base64_table = ''ABCDEFGHIJKLMNOPQRSTUVWXYZabcdefghijklmnopqrstuvwxyz0123456789-_''"

text \<open>
  \<^verbatim>\<open>TABLE[(v & 63) as usize]\<close>: the index is below 64, so the table access is in range.
\<close>

definition table_at :: "32 word \<Rightarrow> char" where
  "table_at v = base64_table ! unat (v AND 63)"

text \<open>The 24-bit group of a chunk, absent bytes read as 0.\<close>

definition group24 :: "byte \<Rightarrow> byte \<Rightarrow> byte \<Rightarrow> 32 word" where
  "group24 a b c = (push_bit 16 (ucast a) OR push_bit 8 (ucast b)) OR ucast c"

fun base64_url_no_pad :: "byte list \<Rightarrow> string" where
  "base64_url_no_pad [] = []"
| "base64_url_no_pad [a] =
     (let v = group24 a 0 0 in [table_at (drop_bit 18 v), table_at (drop_bit 12 v)])"
| "base64_url_no_pad [a, b] =
     (let v = group24 a b 0
      in [table_at (drop_bit 18 v), table_at (drop_bit 12 v), table_at (drop_bit 6 v)])"
| "base64_url_no_pad (a # b # c # rest) =
     (let v = group24 a b c
      in [table_at (drop_bit 18 v), table_at (drop_bit 12 v), table_at (drop_bit 6 v), table_at v]
         @ base64_url_no_pad rest)"

text \<open>The value of a digit; every branch is a difference of bytes that cannot underflow.\<close>

definition sextet :: "char \<Rightarrow> nat option" where
  "sextet c =
     (if byte_in (CHR ''A'') (CHR ''Z'') c then Some (of_char c - of_char (CHR ''A''))
      else if byte_in (CHR ''a'') (CHR ''z'') c then Some (of_char c - of_char (CHR ''a'') + 26)
      else if byte_in (CHR ''0'') (CHR ''9'') c then Some (of_char c - of_char (CHR ''0'') + 52)
      else if c = CHR ''-'' then Some 62
      else if c = CHR ''_'' then Some 63
      else None)"

definition saturating_sub32 :: "32 word \<Rightarrow> 32 word \<Rightarrow> 32 word" where
  "saturating_sub32 a b = (if a < b then 0 else a - b)"

text \<open>The loop of the decoder, over the accumulator, the number of pending bits and the output.\<close>

fun decode_loop :: "32 word \<Rightarrow> nat \<Rightarrow> byte list \<Rightarrow> string \<Rightarrow> (32 word \<times> byte list) option" where
  "decode_loop accumulator bits output [] = Some (accumulator, output)"
| "decode_loop accumulator bits output (c # cs) =
     (case sextet c of
        None \<Rightarrow> None
      | Some decoded \<Rightarrow>
          (let accumulator = push_bit 6 accumulator OR of_nat decoded; bits = bits + 6
           in if 8 \<le> bits
              then let bits = bits - 8
                   in decode_loop (accumulator AND saturating_sub32 (push_bit bits 1) 1) bits
                        (output @ [ucast (drop_bit bits accumulator)]) cs
              else decode_loop accumulator bits output cs))"

definition decode_base64url :: "string \<Rightarrow> byte list option" where
  "decode_base64url value =
     (if length value mod 4 = 1 then None
      else case decode_loop 0 0 [] value of
             None \<Rightarrow> None
           | Some (accumulator, output) \<Rightarrow> if accumulator \<noteq> 0 then None else Some output)"

subsection \<open>Hex digits and CSV fields\<close>

definition hex_digit :: "char \<Rightarrow> nat option" where
  "hex_digit c =
     (if byte_in (CHR ''0'') (CHR ''9'') c then Some (of_char c - of_char (CHR ''0''))
      else if byte_in (CHR ''a'') (CHR ''f'') c then Some (of_char c - of_char (CHR ''a'') + 10)
      else None)"

datatype io_kind = InvalidInput | InvalidData

datatype io_error = IoError io_kind string

type_synonym 'a io = "io_error + 'a"

definition hex_pair :: "char \<Rightarrow> char \<Rightarrow> byte io" where
  "hex_pair p q =
     (case (hex_digit p, hex_digit q) of
        (Some high, Some low) \<Rightarrow> Inr (push_bit 4 (of_nat high) OR of_nat low)
      | _ \<Rightarrow> Inl (IoError InvalidData ''invalid hex''))"

fun decode_pairs :: "string \<Rightarrow> (byte list) io" where
  "decode_pairs (p # q # rest) =
     and_then (hex_pair p q) (\<lambda>b. and_then (decode_pairs rest) (\<lambda>bs. Inr (b # bs)))"
| "decode_pairs _ = Inr []"

definition decode_hex :: "string \<Rightarrow> (byte list) io" where
  "decode_hex value =
     (if length value mod 2 \<noteq> 0 then Inl (IoError InvalidData ''odd hex length'')
      else decode_pairs value)"

text \<open>\<^verbatim>\<open>{byte:02x}\<close>, and the rendering of a digest.\<close>

definition hex_char :: "nat \<Rightarrow> char" where
  "hex_char n = ''0123456789abcdef'' ! n"

definition hex_byte :: "byte \<Rightarrow> string" where
  "hex_byte b = [hex_char (unat b div 16), hex_char (unat b mod 16)]"

definition to_hex :: "byte list \<Rightarrow> string" where
  "to_hex bytes = concat (map hex_byte bytes)"

definition render_digest :: "byte list \<Rightarrow> string" where
  "render_digest out = ''sha256:'' @ to_hex out"

text \<open>\<open>sha\<close> is the hash function; the reader also counts the bytes.\<close>

definition sha256_hex :: "(byte list \<Rightarrow> byte list) \<Rightarrow> byte list \<Rightarrow> string" where
  "sha256_hex sha bytes = render_digest (sha bytes)"

definition sha256_hex_reader :: "(byte list \<Rightarrow> byte list) \<Rightarrow> byte list \<Rightarrow> string \<times> nat" where
  "sha256_hex_reader sha bytes = (render_digest (sha bytes), length bytes)"

definition csv_field :: "string \<Rightarrow> string" where
  "csv_field value =
     (if \<exists>c \<in> set value. c \<in> {CHR '','', CHR 0x22, CHR 0x0A, CHR 0x0D}
      then [CHR 0x22] @ concat (map (\<lambda>c. if c = CHR 0x22 then [c, c] else [c]) value) @ [CHR 0x22]
      else value)"

subsection \<open>Little-endian integers\<close>

text \<open>\<^verbatim>\<open>to_le_bytes\<close> of an unsigned integer of n bytes.\<close>

fun le_bytes :: "nat \<Rightarrow> 'w::len word \<Rightarrow> byte list" where
  "le_bytes 0 w = []"
| "le_bytes (Suc n) w = ucast w # le_bytes n (drop_bit 8 w)"

abbreviation u16_le :: "16 word \<Rightarrow> byte list" where
  "u16_le \<equiv> le_bytes 2"

abbreviation u32_le :: "32 word \<Rightarrow> byte list" where
  "u32_le \<equiv> le_bytes 4"

abbreviation u64_le :: "64 word \<Rightarrow> byte list" where
  "u64_le \<equiv> le_bytes 8"

section \<open>Bits\<close>

lemma mask63: "(63 :: 32 word) = mask 6"
  by (simp add: mask_eq_exp_minus_1)

lemma below8: "(n::nat) < 8 \<longleftrightarrow> n = 0 \<or> n = 1 \<or> n = 2 \<or> n = 3 \<or> n = 4 \<or> n = 5 \<or> n = 6 \<or> n = 7"
  by arith

lemma below6: "(n::nat) < 6 \<longleftrightarrow> n \<in> {0, 1, 2, 3, 4, 5}"
  by auto

lemma byte_eqI:
  "(\<And>n. n \<in> {0, 1, 2, 3, 4, 5, 6, 7} \<Longrightarrow> bit a n = bit b n) \<Longrightarrow> a = (b :: byte)"
  by (rule bit_word_eqI) (simp add: below8)

lemma sextet_eqI:
  "take_bit 6 q = q \<Longrightarrow> (\<And>n. n \<in> {0, 1, 2, 3, 4, 5} \<Longrightarrow> bit p n = bit q n) \<Longrightarrow> take_bit 6 p = (q :: 32 word)"
  by (rule bit_word_eqI) (metis bit_take_bit_iff below6)

lemma sextet_high_bits: "take_bit 6 q = q \<Longrightarrow> 6 \<le> n \<Longrightarrow> \<not> bit (q :: 32 word) n"
  by (metis bit_take_bit_iff not_less)

lemma byte_high_bits: "8 \<le> n \<Longrightarrow> \<not> bit (a :: byte) n"
  using bit_imp_le_length by fastforce

lemma pending_mask:
  "n < 32 \<Longrightarrow> (w :: 32 word) AND saturating_sub32 (push_bit n 1) 1 = take_bit n w"
proof -
  assume n: "n < 32"
  have "\<not> push_bit n (1 :: 32 word) < 1"
    using n by (simp add: push_bit_eq_mult word_less_1 exp_eq_zero_iff)
  then show ?thesis
    by (simp add: saturating_sub32_def take_bit_eq_mask mask_eq_exp_minus_1 push_bit_eq_mult)
qed

text \<open>The number a little-endian sequence stands for.\<close>

fun from_le :: "byte list \<Rightarrow> nat" where
  "from_le [] = 0"
| "from_le (b # bs) = unat b + 256 * from_le bs"

lemma from_le_bytes: "from_le (le_bytes n w) = unat (w :: 'w::len word) mod 256 ^ n"
proof (induction n arbitrary: w)
  case (Suc n)
  have low: "unat (ucast w :: byte) = unat w mod 256"
    by (simp add: unsigned_ucast_eq take_bit_eq_mod)
  have high: "unat (drop_bit 8 w) = unat w div 256"
    unfolding unsigned_drop_bit_eq by (simp add: drop_bit_eq_div take_bit_nat_eq_self)
  show ?case
    using Suc [of "drop_bit 8 w"] by (simp add: low high mod_mult2_eq add.commute)
qed simp

lemma length_le_bytes [simp]: "length (le_bytes n w) = n"
  by (induction n arbitrary: w) auto

section \<open>The base64url round trip\<close>

lemma sextet_table:
  "\<forall>c. case sextet c of None \<Rightarrow> True | Some d \<Rightarrow> d < 64 \<and> base64_table ! d = c"
  by code_simp

lemma table_sextets: "map sextet base64_table = map Some [0..<64]"
  by code_simp

lemma length_base64_table: "length base64_table = 64"
  by (simp add: base64_table_def)

lemma unat_sextet: "unat (take_bit 6 (v :: 32 word)) < 64"
  using take_bit_nat_less_exp [of 6 "unat v"] by (simp add: unsigned_take_bit_eq)

lemma table_at: "table_at v = base64_table ! unat (take_bit 6 v)"
  by (simp add: table_at_def mask63 take_bit_eq_mask [symmetric])

lemma sextet_table_at: "sextet (table_at v) = Some (unat (take_bit 6 v))"
proof -
  have "sextet (base64_table ! unat (take_bit 6 v)) = map sextet base64_table ! unat (take_bit 6 v)"
    using unat_sextet [of v] by (simp only: nth_map length_base64_table)
  then show ?thesis
    using unat_sextet [of v] by (simp add: table_sextets table_at)
qed

text \<open>A digit is the word of its value, below 64, and the table at that word is the digit.\<close>

lemma sextet_word:
  assumes "sextet c = Some d"
  shows "take_bit 6 (of_nat d :: 32 word) = of_nat d" and "table_at (of_nat d) = c"
proof -
  have d: "d < 64" "base64_table ! d = c"
    using sextet_table [rule_format, of c] assms by auto
  have "unat (of_nat d :: 32 word) = d"
    using d(1) by (simp add: unsigned_of_nat take_bit_nat_eq_self)
  moreover show "take_bit 6 (of_nat d :: 32 word) = of_nat d"
    using d(1) by (simp add: of_nat_take_bit [symmetric] take_bit_nat_eq_self)
  ultimately show "table_at (of_nat d) = c"
    using d(2) by (simp add: table_at)
qed

definition byte1 :: "32 word \<Rightarrow> 32 word \<Rightarrow> byte" where
  "byte1 p q = ucast (drop_bit 4 (push_bit 6 p OR q))"

definition byte2 :: "32 word \<Rightarrow> 32 word \<Rightarrow> 32 word \<Rightarrow> byte" where
  "byte2 p q r = ucast (drop_bit 2 (push_bit 6 (take_bit 4 (push_bit 6 p OR q)) OR r))"

definition byte3 :: "32 word \<Rightarrow> 32 word \<Rightarrow> 32 word \<Rightarrow> 32 word \<Rightarrow> byte" where
  "byte3 p q r s = ucast (push_bit 6 (take_bit 2 (push_bit 6 (take_bit 4 (push_bit 6 p OR q)) OR r)) OR s)"

text \<open>The pending bits after two and after three digits of a group.\<close>

definition rest4 :: "32 word \<Rightarrow> 32 word \<Rightarrow> 32 word" where
  "rest4 p q = take_bit 4 (push_bit 6 p OR q)"

definition rest2 :: "32 word \<Rightarrow> 32 word \<Rightarrow> 32 word \<Rightarrow> 32 word" where
  "rest2 p q r = take_bit 2 (push_bit 6 (rest4 p q) OR r)"

lemmas byte_defs = byte1_def byte2_def byte3_def group24_def

lemma decode_loop_step:
  "sextet c = Some d \<Longrightarrow> of_nat d = w \<Longrightarrow> bits < 8 \<Longrightarrow>
   decode_loop accumulator bits output (c # cs) =
     (if 2 \<le> bits
      then decode_loop (take_bit (bits - 2) (push_bit 6 accumulator OR w)) (bits - 2)
             (output @ [ucast (drop_bit (bits - 2) (push_bit 6 accumulator OR w))]) cs
      else decode_loop (push_bit 6 accumulator OR w) (bits + 6) output cs)"
  using pending_mask [of "bits - 2"] by (simp add: Let_def numeral_eq_Suc)

lemma decode_group:
  assumes "sextet p = Some dp" "sextet q = Some dq" "sextet r = Some dr" "sextet s = Some ds"
  shows "decode_loop 0 0 out (p # q # r # s # cs) =
           decode_loop 0 0 (out @ [byte1 (of_nat dp) (of_nat dq),
             byte2 (of_nat dp) (of_nat dq) (of_nat dr),
             byte3 (of_nat dp) (of_nat dq) (of_nat dr) (of_nat ds)]) cs"
  using assms by (simp add: decode_loop_step byte_defs del: decode_loop.simps(2))

lemma decode_tail3:
  assumes "sextet p = Some dp" "sextet q = Some dq" "sextet r = Some dr"
  shows "decode_loop 0 0 out [p, q, r] =
           Some (rest2 (of_nat dp) (of_nat dq) (of_nat dr),
             out @ [byte1 (of_nat dp) (of_nat dq), byte2 (of_nat dp) (of_nat dq) (of_nat dr)])"
  using assms by (simp add: decode_loop_step byte_defs rest4_def rest2_def del: decode_loop.simps(2))

lemma decode_tail2:
  assumes "sextet p = Some dp" "sextet q = Some dq"
  shows "decode_loop 0 0 out [p, q] =
           Some (rest4 (of_nat dp) (of_nat dq), out @ [byte1 (of_nat dp) (of_nat dq)])"
  using assms by (simp add: decode_loop_step byte_defs rest4_def del: decode_loop.simps(2))

lemmas decode_groups = decode_group decode_tail3 decode_tail2

lemma encoded_bytes:
  "byte1 (take_bit 6 (drop_bit 18 (group24 a b c))) (take_bit 6 (drop_bit 12 (group24 a b c))) = a"
  "byte2 (take_bit 6 (drop_bit 18 (group24 a b c))) (take_bit 6 (drop_bit 12 (group24 a b c)))
     (take_bit 6 (drop_bit 6 (group24 a b c))) = b"
  "byte3 (take_bit 6 (drop_bit 18 (group24 a b c))) (take_bit 6 (drop_bit 12 (group24 a b c)))
     (take_bit 6 (drop_bit 6 (group24 a b c))) (take_bit 6 (group24 a b c)) = c"
  by (rule byte_eqI, elim insertE emptyE; simp add: byte_defs bit_simps byte_high_bits)+

lemma decoded_digits:
  assumes "take_bit 6 p = p" "take_bit 6 q = q" "take_bit 6 r = r" "take_bit 6 s = s"
  shows "take_bit 6 (drop_bit 18 (group24 (byte1 p q) b c)) = p"
    and "take_bit 6 (drop_bit 12 (group24 (byte1 p q) (byte2 p q r) c)) = q"
    and "take_bit 6 (drop_bit 6 (group24 (byte1 p q) (byte2 p q r) (byte3 p q r s))) = r"
    and "take_bit 6 (group24 (byte1 p q) (byte2 p q r) (byte3 p q r s)) = s"
  by (rule sextet_eqI, rule assms, elim insertE emptyE;
      simp add: byte_defs bit_simps byte_high_bits assms [THEN sextet_high_bits])+

lemma no_pending_bits:
  "rest2 p q (take_bit 6 (drop_bit 6 (group24 a b 0))) = 0"
  "rest4 p (take_bit 6 (drop_bit 12 (group24 a 0 0))) = 0"
  unfolding rest2_def rest4_def by (rule bit_word_eqI; simp add: group24_def bit_simps; arith)+

lemma pending_low_bits:
  "take_bit k (push_bit 6 p OR q) = 0 \<Longrightarrow> n < k \<Longrightarrow> k \<le> 6 \<Longrightarrow> \<not> bit (q :: 32 word) n"
  by (metis bit_0_eq bit_or_iff bit_take_bit_iff bot_apply bot_bool_def)

lemma decoded_tail:
  assumes "take_bit 6 q = q" "take_bit 6 r = r"
  shows "(\<And>n. n < 4 \<Longrightarrow> \<not> bit q n) \<Longrightarrow> take_bit 6 (drop_bit 12 (group24 (byte1 p q) 0 0)) = q"
    and "(\<And>n. n < 2 \<Longrightarrow> \<not> bit r n) \<Longrightarrow>
         take_bit 6 (drop_bit 6 (group24 (byte1 p q) (byte2 p q r) 0)) = r"
  by (rule sextet_eqI, rule assms, elim insertE emptyE;
      simp add: byte_defs bit_simps byte_high_bits assms [THEN sextet_high_bits])+

lemma base64_decode_loop:
  "decode_loop 0 0 out (base64_url_no_pad bs) = Some (0, out @ bs)"
  by (induction bs arbitrary: out rule: base64_url_no_pad.induct)
     (simp_all add: Let_def decode_groups sextet_table_at encoded_bytes no_pending_bits
       del: decode_loop.simps(2))

lemma quad_induct:
  "P [] \<Longrightarrow> (\<And>p. P [p]) \<Longrightarrow> (\<And>p q. P [p, q]) \<Longrightarrow> (\<And>p q r. P [p, q, r])
   \<Longrightarrow> (\<And>p q r s cs. P cs \<Longrightarrow> P (p # q # r # s # cs)) \<Longrightarrow> P (cs :: 'a list)"
  by induction_schema (pat_completeness, lexicographic_order)

lemma decode_loop_prefix:
  "decode_loop accumulator bits out cs = Some (a, res) \<Longrightarrow> \<exists>c \<in> set cs. sextet c = None \<Longrightarrow> False"
  by (induction cs arbitrary: accumulator bits out)
     (auto simp: Let_def split: option.splits if_splits)

lemma decode_loop_digit:
  "decode_loop accumulator bits out cs = Some (a, res) \<Longrightarrow> c \<in> set cs \<Longrightarrow> \<exists>d. sextet c = Some d"
  using decode_loop_prefix by (metis option.exhaust)

lemma base64_length_mod: "length (base64_url_no_pad bs) mod 4 \<noteq> 1"
  by (induction bs rule: base64_url_no_pad.induct) (simp_all add: Let_def)

lemma base64_loop_canonical:
  "decode_loop 0 0 out cs = Some (0, res) \<Longrightarrow> length cs mod 4 \<noteq> 1 \<Longrightarrow>
   \<exists>bs. res = out @ bs \<and> base64_url_no_pad bs = cs"
proof (induction cs arbitrary: out rule: quad_induct)
  case 1
  then show ?case by (auto intro: exI [of _ "[]"])
next
  case (3 p q)
  obtain dp dq where d: "sextet p = Some dp" "sextet q = Some dq"
    using decode_loop_digit [OF 3(1)] by fastforce
  define wp :: "32 word" where "wp = of_nat dp"
  define wq :: "32 word" where "wq = of_nat dq"
  note w = wp_def [symmetric] wq_def [symmetric]
  note digits = d(1) [THEN sextet_word(1), unfolded w] d(1) [THEN sextet_word(2), unfolded w] d(2) [THEN sextet_word(1), unfolded w] d(2) [THEN sextet_word(2), unfolded w]
  have pad: "rest4 wp wq = 0" and res: "res = out @ [byte1 wp wq]"
    using 3(1) d w by (simp_all add: decode_groups del: decode_loop.simps(2))
  have "\<not> bit wq n" if "n < 4" for n
    using pending_low_bits [OF pad [unfolded rest4_def] that] by simp
  then show ?case
    using digits res by (auto simp: table_at decoded_tail decoded_digits Let_def)
next
  case (4 p q r)
  obtain dp dq dr where d: "sextet p = Some dp" "sextet q = Some dq" "sextet r = Some dr"
    using decode_loop_digit [OF 4(1)] by fastforce
  define wp :: "32 word" where "wp = of_nat dp"
  define wq :: "32 word" where "wq = of_nat dq"
  define wr :: "32 word" where "wr = of_nat dr"
  note w = wp_def [symmetric] wq_def [symmetric] wr_def [symmetric]
  note digits = d(1) [THEN sextet_word(1), unfolded w] d(1) [THEN sextet_word(2), unfolded w] d(2) [THEN sextet_word(1), unfolded w] d(2) [THEN sextet_word(2), unfolded w] d(3) [THEN sextet_word(1), unfolded w] d(3) [THEN sextet_word(2), unfolded w]
  have pad: "rest2 wp wq wr = 0"
    and res: "res = out @ [byte1 wp wq, byte2 wp wq wr]"
    using 4(1) d w by (simp_all add: decode_groups del: decode_loop.simps(2))
  have "\<not> bit wr n" if "n < 2" for n
    using pending_low_bits [OF pad [unfolded rest2_def] that] by simp
  then show ?case
    using digits res by (auto simp: table_at decoded_tail decoded_digits Let_def)
next
  case (5 p q r s cs)
  obtain dp dq dr ds where d: "sextet p = Some dp" "sextet q = Some dq" "sextet r = Some dr" "sextet s = Some ds"
    using decode_loop_digit [OF 5(2)] by fastforce
  define wp :: "32 word" where "wp = of_nat dp"
  define wq :: "32 word" where "wq = of_nat dq"
  define wr :: "32 word" where "wr = of_nat dr"
  define ws :: "32 word" where "ws = of_nat ds"
  note w = wp_def [symmetric] wq_def [symmetric] wr_def [symmetric] ws_def [symmetric]
  note digits = d(1) [THEN sextet_word(1), unfolded w] d(1) [THEN sextet_word(2), unfolded w] d(2) [THEN sextet_word(1), unfolded w] d(2) [THEN sextet_word(2), unfolded w] d(3) [THEN sextet_word(1), unfolded w] d(3) [THEN sextet_word(2), unfolded w] d(4) [THEN sextet_word(1), unfolded w] d(4) [THEN sextet_word(2), unfolded w]
  have "decode_loop 0 0 (out @ [byte1 wp wq, byte2 wp wq wr, byte3 wp wq wr ws]) cs = Some (0, res)"
    using 5(2) d w by (simp add: decode_groups del: decode_loop.simps(2))
  then obtain bs where "res = (out @ [byte1 wp wq, byte2 wp wq wr, byte3 wp wq wr ws]) @ bs"
      "base64_url_no_pad bs = cs"
    using 5(1) 5(3) by fastforce
  then show ?case
    using digits by (auto simp: table_at decoded_digits Let_def
        intro!: exI [of _ "byte1 wp wq # byte2 wp wq wr # byte3 wp wq wr ws # bs"])
qed auto

lemma base64url_decodes:
  "decode_base64url value = Some bs \<longleftrightarrow> value = base64_url_no_pad bs"
proof
  assume "decode_base64url value = Some bs"
  then have "decode_loop 0 0 [] value = Some (0, bs)" "length value mod 4 \<noteq> 1"
    by (auto simp: decode_base64url_def split: if_splits option.splits)
  then show "value = base64_url_no_pad bs"
    using base64_loop_canonical by fastforce
qed (simp add: decode_base64url_def base64_decode_loop base64_length_mod [simplified])

text \<open>
  The base64url decoder that reads identity tokens accepts exactly the unpadded encodings:
  it decodes a text to some bytes if and only if the text is what the encoder writes for these
  bytes.  So decoding inverts encoding, and no two texts decode to the same bytes (nonzero
  trailing bits and a length of one modulo four are rejected).
\<close>

lemma base64url_canonical:
  "(decode_base64url value = Some bs \<longleftrightarrow> value = base64_url_no_pad bs)
   \<and> decode_base64url (base64_url_no_pad bs) = Some bs"
  by (simp add: base64url_decodes)

section \<open>The hex round trip\<close>

lemma hex_digits: "map hex_digit ''0123456789abcdef'' = map Some [0..<16]"
  by code_simp

lemma hex_digit_char: "n < 16 \<Longrightarrow> hex_digit (hex_char n) = Some n"
proof -
  assume n: "n < 16"
  have "hex_digit (hex_char n) = map hex_digit ''0123456789abcdef'' ! n"
    unfolding hex_char_def using n by (subst nth_map) simp_all
  also have "\<dots> = Some n"
    unfolding hex_digits using n by simp
  finally show ?thesis .
qed

lemma nibbles: "push_bit 4 (of_nat (unat b div 16)) OR of_nat (unat b mod 16) = (b :: byte)"
proof -
  have "of_nat (unat b div 16) = drop_bit 4 b"
    by (simp add: drop_bit_eq_div word_arith_nat_div)
  moreover have "of_nat (unat b mod 16) = take_bit 4 b"
    by (simp add: take_bit_eq_mod word_arith_nat_mod)
  ultimately show ?thesis
    by (auto intro!: bit_word_eqI simp: bit_simps)
qed

lemma hex_pair_byte: "hex_pair (hex_char (unat b div 16)) (hex_char (unat b mod 16)) = Inr b"
proof -
  have "unat b < 256"
    using unsigned_less [of b] by simp
  then show ?thesis
    by (simp add: hex_pair_def hex_digit_char nibbles)
qed

lemma decode_to_hex: "decode_hex (to_hex bytes) = Inr bytes"
proof -
  have "length (to_hex bytes) mod 2 = 0"
    by (induction bytes) (simp_all add: to_hex_def hex_byte_def)
  moreover have "decode_pairs (to_hex bytes) = Inr bytes"
    by (induction bytes) (simp_all add: to_hex_def hex_byte_def hex_pair_byte)
  ultimately show ?thesis
    by (simp add: decode_hex_def)
qed

section \<open>Digests are hexadecimal\<close>

lemma hex_char_cases: "n < 16 \<Longrightarrow> hex_char n \<in> set ''0123456789abcdef''"
  unfolding hex_char_def by (rule nth_mem) simp

lemma hex_byte_digits: "x \<in> set (hex_byte b) \<Longrightarrow> x \<in> set ''0123456789abcdef''"
proof -
  have "unat b < 256" using unsigned_less [of b] by simp
  then have "unat b div 16 < 16" "unat b mod 16 < 16" by auto
  moreover assume "x \<in> set (hex_byte b)"
  then have "x = hex_char (unat b div 16) \<or> x = hex_char (unat b mod 16)" by (simp add: hex_byte_def)
  ultimately show ?thesis using hex_char_cases by blast
qed

lemma to_hex_length: "length (to_hex bs) = 2 * length bs"
  by (induction bs) (simp_all add: to_hex_def hex_byte_def)

end
