(* ===== verification/Policies.thy ===== *)
theory Policies
  imports Encodings
begin

text \<open>
  The artifact publication policy (ost-artifact/src/policy.rs): trust levels, protected
  namespaces, allowed publishers, the validation of a policy, the authorisation of a publisher
  for a destination, and the reading of a GitHub Actions identity token.  The TOML and JSON
  readers, the environment, the HTTP call and the clock are arguments.
\<close>

section \<open>Trust levels\<close>

datatype trust_level = Local | Unsigned | Attested | Verified | Trusted

fun trust_as_str :: "trust_level \<Rightarrow> string" where
  "trust_as_str Local = ''local''"
| "trust_as_str Unsigned = ''unsigned''"
| "trust_as_str Attested = ''attested''"
| "trust_as_str Verified = ''verified''"
| "trust_as_str Trusted = ''trusted''"

text \<open>The derived order is the order of the constructors.\<close>

fun trust_rank :: "trust_level \<Rightarrow> nat" where
  "trust_rank Local = 0"
| "trust_rank Unsigned = 1"
| "trust_rank Attested = 2"
| "trust_rank Verified = 3"
| "trust_rank Trusted = 4"

lemma trust_rank_inject: "trust_rank a = trust_rank b \<longleftrightarrow> a = b"
  by (cases a; cases b) auto

instantiation trust_level :: linorder
begin

definition less_eq_trust_level :: "trust_level \<Rightarrow> trust_level \<Rightarrow> bool" where
  "a \<le> b \<longleftrightarrow> trust_rank a \<le> trust_rank b"

definition less_trust_level :: "trust_level \<Rightarrow> trust_level \<Rightarrow> bool" where
  "a < b \<longleftrightarrow> trust_rank a < trust_rank b"

instance
  by standard (auto simp: less_eq_trust_level_def less_trust_level_def trust_rank_inject)

end

definition policy_invalid :: "string \<Rightarrow> error" where
  "policy_invalid message = coded ''ARTIFACT_POLICY_INVALID'' Configuration message"

definition trust_from_str :: "string \<Rightarrow> trust_level res" where
  "trust_from_str value =
     (if value = ''local'' then Inr Local
      else if value = ''unsigned'' then Inr Unsigned
      else if value = ''attested'' then Inr Attested
      else if value = ''verified'' then Inr Verified
      else if value = ''trusted'' then Inr Trusted
      else Inl (policy_invalid (''unknown trust level '' @ quoted value @
             '' (expected local, unsigned, attested, verified, or trusted)'')))"

section \<open>Policy documents\<close>

record protected_namespace =
  pn_namespace :: string
  pn_minimum_trust :: trust_level
  pn_allowed_publishers :: "string list"

record allowed_publisher =
  ap_id :: string
  ap_trust :: trust_level
  ap_repository :: string
  ap_workflow_path :: string
  ap_git_refs :: "string list"
  ap_actors :: "string list"
  ap_events :: "string list"

record artifact_policy =
  policy_schema :: nat
  policy_minimum_trust :: trust_level
  policy_namespaces :: "protected_namespace list"
  policy_publishers :: "allowed_publisher list"

record publisher_identity =
  id_repository :: string
  id_workflow_path :: string
  id_git_ref :: string
  id_actor :: string
  id_event :: string

record publisher_authorization =
  auth_namespace :: string
  auth_publisher :: string
  auth_trust :: trust_level

definition ARTIFACT_POLICY_SCHEMA :: nat where
  "ARTIFACT_POLICY_SCHEMA = 1"

definition ref_matches :: "string \<Rightarrow> string \<Rightarrow> bool" where
  "ref_matches pattern value =
     (case strip_suffix ''*'' pattern of
        None \<Rightarrow> value = pattern
      | Some stem \<Rightarrow> starts_with stem value)"

definition publisher_matches :: "allowed_publisher \<Rightarrow> publisher_identity \<Rightarrow> bool" where
  "publisher_matches p identity \<longleftrightarrow>
     ap_repository p = id_repository identity
     \<and> ap_workflow_path p = id_workflow_path identity
     \<and> list_ex (\<lambda>pattern. ref_matches pattern (id_git_ref identity)) (ap_git_refs p)
     \<and> list_ex (\<lambda>v. v = id_actor identity) (ap_actors p)
     \<and> list_ex (\<lambda>v. v = id_event identity) (ap_events p)"

definition namespace_contains :: "string \<Rightarrow> string \<Rightarrow> bool" where
  "namespace_contains namespace destination \<longleftrightarrow>
     destination = namespace
     \<or> (case strip_prefix namespace destination of
          None \<Rightarrow> False
        | Some rest \<Rightarrow> starts_with ''/'' rest)"

definition valid_registry_namespace :: "string \<Rightarrow> bool" where
  "valid_registry_namespace value =
     (let (host, port) = (case rsplit_once (CHR '':'') value of
            Some (host, port) \<Rightarrow> (host, Some port)
          | None \<Rightarrow> (value, None))
      in host \<noteq> []
         \<and> list_all (\<lambda>b. is_ascii_lowercase b \<or> is_ascii_digit b \<or> b \<in> set ''.-'') host
         \<and> (case port of
              None \<Rightarrow> True
            | Some port \<Rightarrow> port \<noteq> [] \<and> list_all is_ascii_digit port
                \<and> (case parse_uint (2 ^ 16) port of None \<Rightarrow> False | Some v \<Rightarrow> v \<noteq> 0)))"

definition is_namespace :: "string \<Rightarrow> bool" where
  "is_namespace value =
     (case split_once (CHR ''/'') value of
        None \<Rightarrow> False
      | Some (registry, repository) \<Rightarrow>
          value = to_ascii_lowercase value
          \<and> \<not> contains_str ''://'' value
          \<and> CHR ''@'' \<notin> set value
          \<and> valid_registry_namespace registry
          \<and> repository \<noteq> []
          \<and> \<not> ends_with ''/'' repository
          \<and> list_all (\<lambda>part. part \<noteq> []
               \<and> list_all (\<lambda>b. is_ascii_lowercase b \<or> is_ascii_digit b \<or> b \<in> set ''._-'') part)
              (split_char (CHR ''/'') repository))"

subsection \<open>Validation\<close>

definition validate_namespace :: "protected_namespace \<Rightarrow> unit res" where
  "validate_namespace v =
     (if \<not> is_namespace (pn_namespace v)
      then Inl (policy_invalid (''protected namespace '' @ quoted (pn_namespace v) @
             '' must be a lowercase registry/repository prefix without a scheme or tag''))
      else if pn_allowed_publishers v = []
      then Inl (policy_invalid (''protected namespace '' @ quoted (pn_namespace v) @
             '' must allow at least one publisher''))
      else Inr ())"

definition git_ref_pattern :: "string \<Rightarrow> bool" where
  "git_ref_pattern pattern =
     (let stars = length (filter (\<lambda>b. b = CHR ''*'') pattern)
      in \<not> (\<not> starts_with ''refs/'' pattern \<or> 1 < stars \<or> stars = 1 \<and> \<not> ends_with ''*'' pattern))"

definition workflow_file :: "string \<Rightarrow> bool" where
  "workflow_file path \<longleftrightarrow>
     \<not> (\<not> starts_with ''.github/workflows/'' path
        \<or> \<not> ends_with ''.yml'' path \<and> \<not> ends_with ''.yaml'' path)"

definition validate_publisher :: "allowed_publisher \<Rightarrow> unit res" where
  "validate_publisher v =
     (if trim (ap_id v) = [] \<or> trim (ap_repository v) = [] \<or> trim (ap_workflow_path v) = []
         \<or> ap_git_refs v = [] \<or> ap_actors v = [] \<or> ap_events v = []
      then Inl (policy_invalid (''allowed publisher id, repository, workflow_path, git_refs, '' @
             ''actors, and events must all be non-empty''))
      else if \<not> workflow_file (ap_workflow_path v)
      then Inl (policy_invalid (''publisher '' @ quoted (ap_id v) @
             '' workflow_path must name a .github/workflows/*.yml or *.yaml file''))
      else for_each (\<lambda>pattern.
             if \<not> git_ref_pattern pattern
             then Inl (policy_invalid (''publisher '' @ quoted (ap_id v) @ '' git ref pattern '' @
                    quoted pattern @ '' must start with refs/ and may only use a trailing *''))
             else Inr ()) (ap_git_refs v))"

definition policy_publisher :: "artifact_policy \<Rightarrow> string \<Rightarrow> allowed_publisher option" where
  "policy_publisher policy pid = find (\<lambda>p. ap_id p = pid) (policy_publishers policy)"

definition publisher_step ::
  "string btree_set \<Rightarrow> allowed_publisher \<Rightarrow> (string btree_set) res"
where
  "publisher_step seen p =
     and_then (validate_publisher p) (\<lambda>_.
       if ap_id p \<in> set seen
       then Inl (policy_invalid (''allowed publisher id '' @ quoted (ap_id p) @ '' is duplicated''))
       else Inr (bs_insert (ap_id p) seen))"

definition check_allowed :: "artifact_policy \<Rightarrow> protected_namespace \<Rightarrow> string \<Rightarrow> unit res" where
  "check_allowed policy protected pid =
     (case policy_publisher policy pid of
        None \<Rightarrow> Inl (policy_invalid (''protected namespace '' @ quoted (pn_namespace protected) @
                  '' references unknown publisher '' @ quoted pid))
      | Some p \<Rightarrow>
          if ap_trust p < pn_minimum_trust protected
          then Inl (policy_invalid (''publisher '' @ quoted pid @ '' has trust '' @
                 quoted (trust_as_str (ap_trust p)) @ '' below namespace '' @
                 quoted (pn_namespace protected) @ '' minimum '' @
                 quoted (trust_as_str (pn_minimum_trust protected))))
          else Inr ())"

definition namespace_step ::
  "artifact_policy \<Rightarrow> string btree_set \<Rightarrow> protected_namespace \<Rightarrow> (string btree_set) res"
where
  "namespace_step policy seen protected =
     and_then (validate_namespace protected) (\<lambda>_.
       if pn_namespace protected \<in> set seen
       then Inl (policy_invalid (''protected namespace '' @ quoted (pn_namespace protected) @
              '' is duplicated''))
       else and_then (for_each (check_allowed policy protected) (pn_allowed_publishers protected))
              (\<lambda>_. Inr (bs_insert (pn_namespace protected) seen)))"

definition policy_validate :: "artifact_policy \<Rightarrow> unit res" where
  "policy_validate policy =
     (if policy_schema policy \<noteq> ARTIFACT_POLICY_SCHEMA
      then Inl (coded ''ARTIFACT_POLICY_SCHEMA_UNSUPPORTED'' Configuration
             (''artifact policy schema '' @ to_decimal (policy_schema policy) @
              '' is not supported (expected '' @ to_decimal ARTIFACT_POLICY_SCHEMA @ '')''))
      else and_then (try_fold publisher_step [] (policy_publishers policy)) (\<lambda>_.
           and_then (try_fold (namespace_step policy) [] (policy_namespaces policy)) (\<lambda>_.
           Inr ())))"

text \<open>\<^verbatim>\<open>parse\<close>: the TOML reader is an argument.\<close>

definition policy_parse :: "(string \<Rightarrow> string + artifact_policy) \<Rightarrow> string \<Rightarrow> artifact_policy res" where
  "policy_parse from_toml text =
     (case from_toml text of
        Inl source \<Rightarrow> Inl (coded ''ARTIFACT_POLICY_PARSE_FAILED'' Configuration
          (''artifact policy TOML is invalid: '' @ source))
      | Inr policy \<Rightarrow> and_then (policy_validate policy) (\<lambda>_. Inr policy))"

subsection \<open>Authorisation\<close>

definition policy_namespace_for :: "artifact_policy \<Rightarrow> string \<Rightarrow> protected_namespace option" where
  "policy_namespace_for policy destination =
     max_by_key (\<lambda>p. length (pn_namespace p))
       (filter (\<lambda>p. namespace_contains (pn_namespace p) destination) (policy_namespaces policy))"

definition publisher_untrusted :: "protected_namespace \<Rightarrow> error" where
  "publisher_untrusted protected =
     with_hint (''use an allowed repository/workflow/ref/actor/event identity, or pass '' @
       ''--allow-untrusted-publisher explicitly'')
       (coded ''ARTIFACT_POLICY_PUBLISHER_UNTRUSTED'' Validation
         (''publisher identity is not allowed to publish to protected namespace '' @
          quoted (pn_namespace protected)))"

text \<open>
  The loop of \<^verbatim>\<open>authorize_publisher\<close>.  The outer option is the panic of
  \<^verbatim>\<open>expect("policy validation checks references")\<close>.
\<close>

fun authorize_loop ::
  "artifact_policy \<Rightarrow> protected_namespace \<Rightarrow> publisher_identity \<Rightarrow> string list
     \<Rightarrow> ((publisher_authorization option) res) option"
where
  "authorize_loop policy protected identity [] = Some (Inl (publisher_untrusted protected))"
| "authorize_loop policy protected identity (pid # ids) =
     (case policy_publisher policy pid of
        None \<Rightarrow> None
      | Some p \<Rightarrow>
          if publisher_matches p identity
          then Some (Inr (Some \<lparr> auth_namespace = pn_namespace protected,
                 auth_publisher = ap_id p, auth_trust = ap_trust p \<rparr>))
          else authorize_loop policy protected identity ids)"

definition authorize_publisher ::
  "artifact_policy \<Rightarrow> string \<Rightarrow> publisher_identity \<Rightarrow> ((publisher_authorization option) res) option"
where
  "authorize_publisher policy destination identity =
     (case policy_namespace_for policy destination of
        None \<Rightarrow> Some (Inr None)
      | Some protected \<Rightarrow>
          authorize_loop policy protected identity (pn_allowed_publishers protected))"

definition verify_trust :: "artifact_policy \<Rightarrow> trust_level \<Rightarrow> unit res" where
  "verify_trust policy actual =
     (if actual < policy_minimum_trust policy
      then Inl (coded ''ARTIFACT_POLICY_TRUST_INSUFFICIENT'' Validation
             (''artifact trust '' @ quoted (trust_as_str actual) @ '' is below policy minimum '' @
              quoted (trust_as_str (policy_minimum_trust policy))))
      else Inr ())"

section \<open>The publisher identity of a workflow run\<close>

datatype audience = One string | Many "string list"

fun audience_contains :: "audience \<Rightarrow> string \<Rightarrow> bool" where
  "audience_contains (One v) expected = (v = expected)"
| "audience_contains (Many vs) expected = list_ex (\<lambda>v. v = expected) vs"

record oidc_claims =
  iss :: string
  aud :: audience
  exp :: "64 word"
  nbf :: "64 word option"
  claim_repository :: string
  workflow_ref :: string
  claim_git_ref :: string
  claim_actor :: string
  event_name :: string

definition ARTIFACT_POLICY_OIDC_AUDIENCE :: string where
  "ARTIFACT_POLICY_OIDC_AUDIENCE = ''openstrata-artifact-publish''"

definition GITHUB_OIDC_ISSUER :: string where
  "GITHUB_OIDC_ISSUER = ''https://token.actions.githubusercontent.com''"

definition OIDC_CLOCK_SKEW_SECS :: "64 word" where
  "OIDC_CLOCK_SKEW_SECS = 60"

definition MAX_OIDC_RESPONSE_BYTES :: nat where
  "MAX_OIDC_RESPONSE_BYTES = 1024 * 1024"

definition saturating_add64 :: "64 word \<Rightarrow> 64 word \<Rightarrow> 64 word" where
  "saturating_add64 a b = (if 2 ^ 64 \<le> unat a + unat b then - 1 else a + b)"

definition identity_unavailable :: "string \<Rightarrow> error" where
  "identity_unavailable message =
     with_hint ''grant the job `id-token: write`, or pass --allow-untrusted-publisher explicitly''
       (coded ''ARTIFACT_POLICY_IDENTITY_UNAVAILABLE'' Precondition message)"

definition identity_invalid :: "string \<Rightarrow> error" where
  "identity_invalid message = coded ''ARTIFACT_POLICY_IDENTITY_INVALID'' Validation message"

text \<open>\<^verbatim>\<open>segments.next().unwrap_or_default()\<close>, the i-th call.\<close>

definition segment :: "string list \<Rightarrow> nat \<Rightarrow> string" where
  "segment segments i = (if i < length segments then segments ! i else [])"

definition jwt_payload :: "string \<Rightarrow> string res" where
  "jwt_payload token =
     (let segments = split_char (CHR ''.'') token
      in if segment segments 0 = [] \<or> segment segments 1 = [] \<or> segment segments 2 = []
            \<or> 3 < length segments
         then Inl (identity_invalid ''GitHub OIDC response did not contain a JWT'')
         else Inr (segment segments 1))"

definition claims_workflow :: "oidc_claims \<Rightarrow> string option" where
  "claims_workflow claims =
     (case strip_prefix (claim_repository claims @ ''/'') (workflow_ref claims) of
        None \<Rightarrow> None
      | Some value \<Rightarrow>
          (case rsplit_once (CHR ''@'') value of
             None \<Rightarrow> None
           | Some (path, _) \<Rightarrow> if starts_with ''.github/workflows/'' path then Some path else None))"

definition accept_claims :: "oidc_claims \<Rightarrow> 64 word \<Rightarrow> publisher_identity res" where
  "accept_claims claims now =
     (if iss claims \<noteq> GITHUB_OIDC_ISSUER
      then Inl (identity_invalid (''GitHub OIDC issuer '' @ quoted (iss claims) @ '' is not trusted''))
      else if \<not> audience_contains (aud claims) ARTIFACT_POLICY_OIDC_AUDIENCE
      then Inl (identity_invalid (''GitHub OIDC audience does not include '' @
             quoted ARTIFACT_POLICY_OIDC_AUDIENCE))
      else if saturating_add64 (exp claims) OIDC_CLOCK_SKEW_SECS < now
      then Inl (identity_invalid ''GitHub OIDC token has expired'')
      else if (case nbf claims of
                 None \<Rightarrow> False
               | Some not_before \<Rightarrow> saturating_add64 now OIDC_CLOCK_SKEW_SECS < not_before)
      then Inl (identity_invalid ''GitHub OIDC token is not valid yet'')
      else case claims_workflow claims of
             None \<Rightarrow> Inl (identity_invalid (''GitHub OIDC workflow_ref '' @
               quoted (workflow_ref claims) @ '' does not belong to repository '' @
               quoted (claim_repository claims)))
           | Some workflow \<Rightarrow>
               Inr \<lparr> id_repository = claim_repository claims, id_workflow_path = workflow,
                     id_git_ref = claim_git_ref claims, id_actor = claim_actor claims,
                     id_event = event_name claims \<rparr>)"

text \<open>\<open>claims_of\<close> stands for serde_json: the claims of a payload, or the message of its error.\<close>

definition from_github_oidc_jwt ::
  "(byte list \<Rightarrow> string + oidc_claims) \<Rightarrow> string \<Rightarrow> 64 word \<Rightarrow> publisher_identity res"
where
  "from_github_oidc_jwt claims_of token now =
     and_then (jwt_payload token) (\<lambda>payload.
       case decode_base64url payload of
         None \<Rightarrow> Inl (identity_invalid ''GitHub OIDC JWT payload is not valid base64url'')
       | Some bytes \<Rightarrow>
           (case claims_of bytes of
              Inl source \<Rightarrow> Inl (identity_invalid (''GitHub OIDC claims are invalid: '' @ source))
            | Inr claims \<Rightarrow> accept_claims claims now))"

definition is_github_oidc_request_url :: "string \<Rightarrow> bool" where
  "is_github_oidc_request_url value =
     (case strip_prefix GITHUB_OIDC_ISSUER value of
        None \<Rightarrow> False
      | Some rest \<Rightarrow> starts_with ''/'' rest \<and> \<not> starts_with ''//'' rest)"

definition required_oidc_env :: "(string \<Rightarrow> string option) \<Rightarrow> string \<Rightarrow> string res" where
  "required_oidc_env env name =
     (case env name of
        None \<Rightarrow> Inl (identity_unavailable (name @ '' is not available; protected publishes require '' @
                  ''a GitHub Actions OIDC identity''))
      | Some value \<Rightarrow>
          if trim value = []
          then Inl (identity_unavailable (name @ '' is not available; protected publishes require '' @
                 ''a GitHub Actions OIDC identity''))
          else Inr value)"

text \<open>
  The outside world of \<^verbatim>\<open>from_github_actions_oidc\<close>: the environment, the HTTP agent (the
  request URL and bearer token to a transport error or a status and a body, whose reading may
  fail), the JSON readers and the clock.
\<close>

record oidc_world =
  w_env :: "string \<Rightarrow> string option"
  w_call :: "string \<Rightarrow> string \<Rightarrow> string + nat \<times> (string + byte list)"
  w_response :: "byte list \<Rightarrow> string + string"
  w_claims :: "byte list \<Rightarrow> string + oidc_claims"
  w_now :: "(64 word) res"

definition oidc_audience_url :: "string \<Rightarrow> string" where
  "oidc_audience_url request_url =
     request_url @ (if CHR ''?'' \<in> set request_url then ''&'' else ''?'') @ ''audience='' @
     ARTIFACT_POLICY_OIDC_AUDIENCE"

definition read_oidc_response :: "oidc_world \<Rightarrow> nat \<Rightarrow> (string + byte list) \<Rightarrow> string res" where
  "read_oidc_response w status body =
     (if \<not> (200 \<le> status \<and> status < 300)
      then Inl (identity_unavailable (''GitHub OIDC identity request returned HTTP '' @ to_decimal status))
      else case body of
        Inl source \<Rightarrow> Inl (identity_unavailable (''could not read GitHub OIDC response: '' @ source))
      | Inr bytes \<Rightarrow>
          (let body = take (MAX_OIDC_RESPONSE_BYTES + 1) bytes
           in if MAX_OIDC_RESPONSE_BYTES < length body
              then Inl (identity_invalid ''GitHub OIDC response is unexpectedly large'')
              else case w_response w body of
                Inl source \<Rightarrow> Inl (identity_invalid (''GitHub OIDC response is invalid: '' @ source))
              | Inr value \<Rightarrow> Inr value))"

definition from_github_actions_oidc :: "oidc_world \<Rightarrow> publisher_identity res" where
  "from_github_actions_oidc w =
     and_then (required_oidc_env (w_env w) ''ACTIONS_ID_TOKEN_REQUEST_URL'') (\<lambda>request_url.
     and_then (required_oidc_env (w_env w) ''ACTIONS_ID_TOKEN_REQUEST_TOKEN'') (\<lambda>request_token.
       if \<not> is_github_oidc_request_url request_url
       then Inl (identity_invalid (''ACTIONS_ID_TOKEN_REQUEST_URL must use '' @ GITHUB_OIDC_ISSUER @
              '', got an untrusted URL''))
       else case w_call w (oidc_audience_url request_url) (''bearer '' @ request_token) of
         Inl source \<Rightarrow> Inl (identity_unavailable (''could not request GitHub OIDC identity: '' @ source))
       | Inr (status, body) \<Rightarrow>
           and_then (read_oidc_response w status body) (\<lambda>token.
           and_then (w_now w) (\<lambda>now. from_github_oidc_jwt (w_claims w) token now))))"

section \<open>What a validated policy guarantees\<close>

definition publisher_valid :: "allowed_publisher \<Rightarrow> bool" where
  "publisher_valid p \<longleftrightarrow>
     trim (ap_id p) \<noteq> [] \<and> trim (ap_repository p) \<noteq> [] \<and> trim (ap_workflow_path p) \<noteq> []
     \<and> ap_git_refs p \<noteq> [] \<and> ap_actors p \<noteq> [] \<and> ap_events p \<noteq> []
     \<and> workflow_file (ap_workflow_path p) \<and> (\<forall>pattern \<in> set (ap_git_refs p). git_ref_pattern pattern)"

definition namespace_valid :: "artifact_policy \<Rightarrow> protected_namespace \<Rightarrow> bool" where
  "namespace_valid policy ns \<longleftrightarrow>
     is_namespace (pn_namespace ns) \<and> pn_allowed_publishers ns \<noteq> []
     \<and> (\<forall>pid \<in> set (pn_allowed_publishers ns).
          \<exists>p. policy_publisher policy pid = Some p \<and> pn_minimum_trust ns \<le> ap_trust p)"

definition policy_valid :: "artifact_policy \<Rightarrow> bool" where
  "policy_valid policy \<longleftrightarrow>
     policy_schema policy = 1
     \<and> (\<forall>p \<in> set (policy_publishers policy). publisher_valid p)
     \<and> distinct (map ap_id (policy_publishers policy))
     \<and> (\<forall>ns \<in> set (policy_namespaces policy). namespace_valid policy ns)
     \<and> distinct (map pn_namespace (policy_namespaces policy))"

lemma validate_publisher_ok: "validate_publisher p = Inr () \<longleftrightarrow> publisher_valid p"
  by (auto simp: validate_publisher_def publisher_valid_def for_each_ok)

lemma check_allowed_ok:
  "check_allowed policy ns pid = Inr () \<longleftrightarrow>
     (\<exists>p. policy_publisher policy pid = Some p \<and> pn_minimum_trust ns \<le> ap_trust p)"
  by (auto simp: check_allowed_def not_less split: option.splits)

interpretation publisher_loop: unique_loop publisher_step publisher_valid ap_id
  by unfold_locales
     (auto simp: publisher_step_def res_simps validate_publisher_ok)

interpretation namespace_loop: unique_loop "namespace_step policy" "namespace_valid policy" pn_namespace
  for policy
  by unfold_locales
     (auto simp: namespace_step_def namespace_valid_def validate_namespace_def res_simps
        for_each_ok check_allowed_ok split: if_splits)

lemma policy_validate_ok: "policy_validate policy = Inr () \<longleftrightarrow> policy_valid policy"
  using publisher_loop.loop_passes [of "[]" "policy_publishers policy"]
    namespace_loop.loop_passes [of policy "[]" "policy_namespaces policy"]
  by (auto simp: policy_validate_def policy_valid_def ARTIFACT_POLICY_SCHEMA_def res_simps)

lemma policy_publisher_Some:
  "policy_publisher policy pid = Some p \<Longrightarrow> p \<in> set (policy_publishers policy) \<and> ap_id p = pid"
  by (auto simp: policy_publisher_def find_Some_iff)

lemma policy_publisher_unique:
  assumes "distinct (map ap_id (policy_publishers policy))" "p \<in> set (policy_publishers policy)"
  shows "policy_publisher policy (ap_id p) = Some p"
proof -
  obtain q where q: "policy_publisher policy (ap_id p) = Some q"
    using assms(2) by (cases "policy_publisher policy (ap_id p)") (auto simp: policy_publisher_def find_None_iff)
  then have "q = p"
    using assms policy_publisher_Some [OF q] by (metis (mono_tags, lifting) distinct_map inj_onD)
  with q show ?thesis by simp
qed

text \<open>
  The specification of an authorisation: the most specific protected namespace of a
  destination, and the publishers that namespace admits for an identity.
\<close>

definition most_specific :: "artifact_policy \<Rightarrow> string \<Rightarrow> protected_namespace \<Rightarrow> bool" where
  "most_specific policy destination ns \<longleftrightarrow>
     ns \<in> set (policy_namespaces policy) \<and> namespace_contains (pn_namespace ns) destination
     \<and> (\<forall>other \<in> set (policy_namespaces policy). namespace_contains (pn_namespace other) destination
          \<longrightarrow> length (pn_namespace other) \<le> length (pn_namespace ns))"

definition admits ::
  "artifact_policy \<Rightarrow> protected_namespace \<Rightarrow> publisher_identity \<Rightarrow> allowed_publisher \<Rightarrow> bool"
where
  "admits policy ns identity p \<longleftrightarrow>
     p \<in> set (policy_publishers policy) \<and> ap_id p \<in> set (pn_allowed_publishers ns)
     \<and> publisher_matches p identity"

lemma policy_namespace_for_Some:
  "policy_namespace_for policy d = Some ns \<Longrightarrow> most_specific policy d ns"
  unfolding policy_namespace_for_def most_specific_def using max_by_key_SomeD by fastforce

lemma policy_namespace_for_None:
  "policy_namespace_for policy d = None \<longleftrightarrow>
     (\<forall>ns \<in> set (policy_namespaces policy). \<not> namespace_contains (pn_namespace ns) d)"
  by (auto simp: policy_namespace_for_def filter_empty_conv)

definition granted :: "protected_namespace \<Rightarrow> allowed_publisher \<Rightarrow> publisher_authorization" where
  "granted ns p = \<lparr> auth_namespace = pn_namespace ns, auth_publisher = ap_id p, auth_trust = ap_trust p \<rparr>"

lemma authorize_loop_find:
  "\<forall>pid \<in> set ids. policy_publisher policy pid \<noteq> None \<Longrightarrow>
   authorize_loop policy ns identity ids =
     Some (case find (\<lambda>p. publisher_matches p identity) (map (the \<circ> policy_publisher policy) ids) of
             None \<Rightarrow> Inl (publisher_untrusted ns)
           | Some p \<Rightarrow> Inr (Some (granted ns p)))"
  by (induction ids) (auto simp: granted_def)

lemma admits_listed:
  assumes "distinct (map ap_id (policy_publishers policy))"
    and "\<forall>pid \<in> set (pn_allowed_publishers ns). policy_publisher policy pid \<noteq> None"
  shows "admits policy ns identity p \<longleftrightarrow>
           p \<in> set (map (the \<circ> policy_publisher policy) (pn_allowed_publishers ns))
           \<and> publisher_matches p identity"
proof
  assume "admits policy ns identity p"
  then have p: "p \<in> set (policy_publishers policy)" "ap_id p \<in> set (pn_allowed_publishers ns)"
      "publisher_matches p identity"
    by (auto simp: admits_def)
  have "the (policy_publisher policy (ap_id p)) = p"
    using policy_publisher_unique [OF assms(1) p(1)] by simp
  with p show "p \<in> set (map (the \<circ> policy_publisher policy) (pn_allowed_publishers ns))
      \<and> publisher_matches p identity"
    by force
next
  assume p: "p \<in> set (map (the \<circ> policy_publisher policy) (pn_allowed_publishers ns))
      \<and> publisher_matches p identity"
  then obtain pid where pid: "pid \<in> set (pn_allowed_publishers ns)" "p = the (policy_publisher policy pid)"
    by auto
  with assms(2) have "policy_publisher policy pid = Some p"
    by auto
  from policy_publisher_Some [OF this] pid p show "admits policy ns identity p"
    by (simp add: admits_def)
qed

text \<open>
  C21. Authorisation under a validated policy never panics and decides by the most specific
  protected namespace: a destination outside every protected namespace needs no identity; in
  a protected one the push is granted exactly when a publisher that this namespace lists
  matches the identity in all five dimensions, the grant names that namespace and publisher,
  and the publisher's trust reaches the namespace's minimum; otherwise it is refused.
\<close>

theorem authorize_publisher_decides:
  assumes "policy_validate policy = Inr ()"
  shows "case authorize_publisher policy destination identity of
           None \<Rightarrow> False
         | Some (Inr None) \<Rightarrow>
             \<forall>ns \<in> set (policy_namespaces policy). \<not> namespace_contains (pn_namespace ns) destination
         | Some (Inr (Some grant)) \<Rightarrow>
             \<exists>ns p. most_specific policy destination ns \<and> admits policy ns identity p
               \<and> pn_minimum_trust ns \<le> ap_trust p \<and> grant = granted ns p
         | Some (Inl e) \<Rightarrow>
             \<exists>ns. most_specific policy destination ns \<and> (\<forall>p. \<not> admits policy ns identity p)
               \<and> e = publisher_untrusted ns"
proof (cases "policy_namespace_for policy destination")
  case None
  then show ?thesis
    by (simp add: authorize_publisher_def) (simp add: policy_namespace_for_None)
next
  case (Some ns)
  let ?listed = "map (the \<circ> policy_publisher policy) (pn_allowed_publishers ns)"
  have spec: "most_specific policy destination ns"
    by (rule policy_namespace_for_Some [OF Some])
  have valid: "policy_valid policy"
    using assms by (simp add: policy_validate_ok)
  then have uniq: "distinct (map ap_id (policy_publishers policy))"
    and ns: "namespace_valid policy ns"
    using spec by (auto simp: policy_valid_def most_specific_def)
  then have known: "\<forall>pid \<in> set (pn_allowed_publishers ns). policy_publisher policy pid \<noteq> None"
    and trusted: "\<forall>p \<in> set ?listed. pn_minimum_trust ns \<le> ap_trust p"
    by (fastforce simp: namespace_valid_def)+
  have result: "authorize_publisher policy destination identity =
      Some (case find (\<lambda>p. publisher_matches p identity) ?listed of
              None \<Rightarrow> Inl (publisher_untrusted ns) | Some p \<Rightarrow> Inr (Some (granted ns p)))"
    by (simp add: authorize_publisher_def Some authorize_loop_find [OF known])
  show ?thesis
  proof (cases "find (\<lambda>p. publisher_matches p identity) ?listed")
    case None
    then have "\<not> admits policy ns identity p" for p
      using admits_listed [OF uniq known] by (auto simp: find_None_iff)
    then show ?thesis
      using result None spec by auto
  next
    case (Some p)
    then have p: "p \<in> set ?listed" "publisher_matches p identity"
      by (auto simp: find_Some_iff)
    then have "admits policy ns identity p" "pn_minimum_trust ns \<le> ap_trust p"
      using trusted admits_listed [OF uniq known] by auto
    then show ?thesis
      using result Some spec by auto
  qed
qed

definition sample_publisher :: allowed_publisher where
  "sample_publisher =
     \<lparr> ap_id = ''release'', ap_trust = Verified, ap_repository = ''acme/usd'',
       ap_workflow_path = ''.github/workflows/publish.yml'', ap_git_refs = [''refs/tags/v*''],
       ap_actors = [''bot''], ap_events = [''push''] \<rparr>"

definition sample_policy :: artifact_policy where
  "sample_policy =
     \<lparr> policy_schema = 1, policy_minimum_trust = Unsigned,
       policy_namespaces =
         [\<lparr> pn_namespace = ''ghcr.io/acme'', pn_minimum_trust = Attested,
            pn_allowed_publishers = [''release''] \<rparr>],
       policy_publishers = [sample_publisher] \<rparr>"

definition sample_identity :: publisher_identity where
  "sample_identity =
     \<lparr> id_repository = ''acme/usd'', id_workflow_path = ''.github/workflows/publish.yml'',
       id_git_ref = ''refs/tags/v1'', id_actor = ''bot'', id_event = ''push'' \<rparr>"

theorem authorize_publisher_decides_witness:
  "policy_validate sample_policy = Inr ()
   \<and> authorize_publisher sample_policy ''ghcr.io/acme/usd'' sample_identity =
       Some (Inr (Some \<lparr> auth_namespace = ''ghcr.io/acme'', auth_publisher = ''release'', auth_trust = Verified \<rparr>))
   \<and> (\<exists>ns p. most_specific sample_policy ''ghcr.io/acme/usd'' ns \<and> admits sample_policy ns sample_identity p)
   \<and> authorize_publisher sample_policy ''ghcr.io/acmeco/usd'' sample_identity = Some (Inr None)"
proof -
  have valid: "policy_validate sample_policy = Inr ()"
    by code_simp
  have grant: "authorize_publisher sample_policy ''ghcr.io/acme/usd'' sample_identity =
      Some (Inr (Some \<lparr> auth_namespace = ''ghcr.io/acme'', auth_publisher = ''release'', auth_trust = Verified \<rparr>))"
    by code_simp
  have free: "authorize_publisher sample_policy ''ghcr.io/acmeco/usd'' sample_identity = Some (Inr None)"
    by code_simp
  show ?thesis
    using authorize_publisher_decides [OF valid, of "''ghcr.io/acme/usd''" sample_identity] valid free
    unfolding grant by auto
qed

subsection \<open>Namespaces are prefixes of path segments\<close>

lemma split_char_append_sep: "split_char d (a @ d # b) = split_char d a @ split_char d b"
  by (induction a) (auto simp: Let_def split: list.splits)

text \<open>
  A namespace covers a destination exactly when its segments are an initial part of the
  destination's segments: \<^verbatim>\<open>ghcr.io/acme\<close> covers \<^verbatim>\<open>ghcr.io/acme/usd\<close> and not
  \<^verbatim>\<open>ghcr.io/acmeco/usd\<close>.
\<close>

lemma namespace_contains_segments:
  "namespace_contains namespace destination \<longleftrightarrow>
     prefix (split_char (CHR ''/'') namespace) (split_char (CHR ''/'') destination)"
proof
  assume "namespace_contains namespace destination"
  then have "destination = namespace \<or> (\<exists>rest. destination = namespace @ CHR ''/'' # rest)"
    by (auto simp: namespace_contains_def str_simps starts_with_prefix prefix_def split: option.splits)
  then show "prefix (split_char (CHR ''/'') namespace) (split_char (CHR ''/'') destination)"
    by (auto simp: split_char_append_sep)
next
  assume "prefix (split_char (CHR ''/'') namespace) (split_char (CHR ''/'') destination)"
  then obtain rest where rest: "split_char (CHR ''/'') destination = split_char (CHR ''/'') namespace @ rest"
    by (auto simp: prefix_def)
  show "namespace_contains namespace destination"
  proof (cases rest)
    case Nil
    then have "destination = namespace"
      using rest join_split_char by (metis append_Nil2)
    then show ?thesis by (simp add: namespace_contains_def)
  next
    case (Cons r rs)
    have parts: "CHR ''/'' \<notin> set x" if "x \<in> set rest" for x
    proof -
      have "x \<in> set (split_char (CHR ''/'') destination)"
        unfolding rest using that by simp
      from split_on_parts [OF this] show ?thesis by blast
    qed
    have "split_char (CHR ''/'') (join ''/'' rest) = rest"
      using Cons parts by (intro split_char_join) simp_all
    then have "split_char (CHR ''/'') (namespace @ CHR ''/'' # join ''/'' rest) = split_char (CHR ''/'') destination"
      using rest by (simp add: split_char_append_sep)
    then have "destination = namespace @ CHR ''/'' # join ''/'' rest"
      using join_split_char by metis
    then show ?thesis
      by (simp add: namespace_contains_def starts_with_prefix)
  qed
qed

subsection \<open>Identity tokens\<close>

lemma saturating_add64_less:
  "saturating_add64 a b < c \<longleftrightarrow> unat a + unat b < unat c"
proof -
  have c: "unat c < 2 ^ 64"
    using unsigned_less [of c] by simp
  show ?thesis
  proof (cases "2 ^ 64 \<le> unat a + unat b")
    case True
    have "\<not> (- 1 :: 64 word) < c"
      using word_n1_ge [of c] by (simp add: not_less)
    with True c show ?thesis
      by (simp add: saturating_add64_def)
  next
    case False
    then have "unat (a + b) = unat a + unat b"
      by (simp add: unat_plus_if_size word_size)
    with False show ?thesis
      by (simp add: saturating_add64_def word_less_nat_alt)
  qed
qed

lemma jwt_payload_ok:
  "jwt_payload token = Inr payload \<longleftrightarrow>
     (\<exists>header signature. split_char (CHR ''.'') token = [header, payload, signature]
        \<and> header \<noteq> [] \<and> payload \<noteq> [] \<and> signature \<noteq> [])"
proof -
  obtain h hs where "split_char (CHR ''.'') token = h # hs"
    by (rule split_on_cases)
  then show ?thesis
    by (cases hs; cases "tl hs"; cases "tl (tl hs)")
       (auto simp: jwt_payload_def Let_def segment_def nth_Cons' split: if_splits)
qed

lemma claims_workflow_ok:
  "claims_workflow claims = Some path \<longleftrightarrow>
     (\<exists>revision. workflow_ref claims = claim_repository claims @ ''/'' @ path @ ''@'' @ revision
        \<and> CHR ''@'' \<notin> set revision \<and> starts_with ''.github/workflows/'' path)"
proof
  assume "claims_workflow claims = Some path"
  then show "\<exists>revision. workflow_ref claims = claim_repository claims @ ''/'' @ path @ ''@'' @ revision
      \<and> CHR ''@'' \<notin> set revision \<and> starts_with ''.github/workflows/'' path"
    by (auto simp: claims_workflow_def str_simps rsplit_once_Some split: option.splits if_splits)
next
  assume "\<exists>revision. workflow_ref claims = claim_repository claims @ ''/'' @ path @ ''@'' @ revision
      \<and> CHR ''@'' \<notin> set revision \<and> starts_with ''.github/workflows/'' path"
  then obtain revision where revision:
      "workflow_ref claims = (claim_repository claims @ ''/'') @ path @ CHR ''@'' # revision"
      "CHR ''@'' \<notin> set revision" "starts_with ''.github/workflows/'' path"
    by auto
  have "rsplit_once (CHR ''@'') (path @ CHR ''@'' # revision) = Some (path, revision)"
    using revision(2) by (simp add: rsplit_once_Some)
  then show "claims_workflow claims = Some path"
    unfolding claims_workflow_def revision(1) strip_prefix_append using revision(3) by simp
qed

definition claims_trusted :: "oidc_claims \<Rightarrow> 64 word \<Rightarrow> bool" where
  "claims_trusted claims now \<longleftrightarrow>
     iss claims = ''https://token.actions.githubusercontent.com''
     \<and> audience_contains (aud claims) ''openstrata-artifact-publish''
     \<and> unat now \<le> unat (exp claims) + 60
     \<and> (\<forall>t. nbf claims = Some t \<longrightarrow> unat t \<le> unat now + 60)"

lemma accept_claims_ok:
  "accept_claims claims now = Inr identity \<longleftrightarrow>
     claims_trusted claims now
     \<and> (\<exists>path. claims_workflow claims = Some path \<and> identity =
          \<lparr> id_repository = claim_repository claims, id_workflow_path = path,
            id_git_ref = claim_git_ref claims, id_actor = claim_actor claims,
            id_event = event_name claims \<rparr>)"
  by (auto simp: accept_claims_def claims_trusted_def saturating_add64_less GITHUB_OIDC_ISSUER_def
      ARTIFACT_POLICY_OIDC_AUDIENCE_def OIDC_CLOCK_SKEW_SECS_def not_less split: option.splits if_splits)

lemma request_url_ok:
  "is_github_oidc_request_url url \<longleftrightarrow>
     (\<exists>rest. url = ''https://token.actions.githubusercontent.com/'' @ rest \<and> \<not> starts_with ''/'' rest)"
proof -
  have "starts_with ''/'' r \<and> \<not> starts_with ''//'' r \<longleftrightarrow> (\<exists>rest. r = CHR ''/'' # rest \<and> \<not> starts_with ''/'' rest)" for r
    by (cases r) (auto simp: starts_with_prefix)
  then show ?thesis
    by (auto simp: is_github_oidc_request_url_def str_simps GITHUB_OIDC_ISSUER_def split: option.splits)
qed

lemma required_oidc_env_ok: "required_oidc_env env name = Inr v \<longleftrightarrow> env name = Some v \<and> trim v \<noteq> []"
  by (auto simp: required_oidc_env_def split: option.splits)

lemma read_oidc_response_ok:
  "read_oidc_response w status body = Inr token \<longleftrightarrow>
     200 \<le> status \<and> status < 300
     \<and> (\<exists>bytes. body = Inr bytes \<and> length bytes \<le> 1048576 \<and> w_response w bytes = Inr token)"
  by (auto simp: read_oidc_response_def Let_def MAX_OIDC_RESPONSE_BYTES_def split: sum.splits)

lemma from_github_oidc_jwt_ok:
  assumes "from_github_oidc_jwt claims_of token now = Inr identity"
  shows "\<exists>header bytes signature claims.
        split_char (CHR ''.'') token = [header, base64_url_no_pad bytes, signature]
        \<and> header \<noteq> [] \<and> base64_url_no_pad bytes \<noteq> [] \<and> signature \<noteq> []
        \<and> claims_of bytes = Inr claims \<and> accept_claims claims now = Inr identity"
proof -
  obtain payload where payload: "jwt_payload token = Inr payload"
    using assms by (auto simp: from_github_oidc_jwt_def res_simps)
  then obtain bytes where bytes: "decode_base64url payload = Some bytes"
    using assms by (cases "decode_base64url payload") (auto simp: from_github_oidc_jwt_def)
  then obtain claims where "claims_of bytes = Inr claims" "accept_claims claims now = Inr identity"
    using assms payload by (cases "claims_of bytes") (auto simp: from_github_oidc_jwt_def)
  with payload bytes show ?thesis
    unfolding jwt_payload_ok base64url_decodes by blast
qed

text \<open>
  C33. An identity is taken only from a token that GitHub's issuer itself returned: the request
  goes to the pinned issuer URL, the answer has a success status and at most a mebibyte, the
  payload of the three-part token decodes canonically to claims of that issuer for the
  dedicated audience, the clock is within the token's window widened by sixty seconds (with no
  wrap-around at the end of the 64-bit clock), and the workflow is a file of
  \<^verbatim>\<open>.github/workflows/\<close> of the very repository the claims name.
\<close>

theorem oidc_identity_sound:
  assumes "from_github_actions_oidc w = Inr identity"
  shows "\<exists>rest bearer status body token header payload signature claims now revision.
     w_env w ''ACTIONS_ID_TOKEN_REQUEST_URL'' =
       Some (''https://token.actions.githubusercontent.com/'' @ rest) \<and> \<not> starts_with ''/'' rest
     \<and> w_call w (oidc_audience_url (''https://token.actions.githubusercontent.com/'' @ rest)) bearer =
         Inr (status, Inr body)
     \<and> 200 \<le> status \<and> status < 300 \<and> length body \<le> 1048576
     \<and> w_response w body = Inr token
     \<and> split_char (CHR ''.'') token = [header, base64_url_no_pad payload, signature]
     \<and> w_claims w payload = Inr claims \<and> w_now w = Inr now \<and> claims_trusted claims now
     \<and> id_repository identity = claim_repository claims
     \<and> workflow_ref claims =
         claim_repository claims @ ''/'' @ id_workflow_path identity @ ''@'' @ revision
     \<and> starts_with ''.github/workflows/'' (id_workflow_path identity)
     \<and> id_git_ref identity = claim_git_ref claims \<and> id_actor identity = claim_actor claims
     \<and> id_event identity = event_name claims"
proof -
  obtain url key status bytes where world:
      "w_env w ''ACTIONS_ID_TOKEN_REQUEST_URL'' = Some url" "is_github_oidc_request_url url"
      "w_call w (oidc_audience_url url) (''bearer '' @ key) = Inr (status, bytes)"
    and rest: "and_then (read_oidc_response w status bytes) (\<lambda>token.
      and_then (w_now w) (\<lambda>now. from_github_oidc_jwt (w_claims w) token now)) = Inr identity"
    using assms [unfolded from_github_actions_oidc_def]
    by (auto simp: and_then_eq_Inr [of "required_oidc_env _ _"] required_oidc_env_ok
        split: if_splits sum.splits)
  from rest obtain token now where token: "read_oidc_response w status bytes = Inr token"
      "w_now w = Inr now" "from_github_oidc_jwt (w_claims w) token now = Inr identity"
    unfolding and_then_eq_Inr by blast
  from token(1) obtain body where body: "200 \<le> status" "status < 300" "bytes = Inr body"
      "length body \<le> 1048576" "w_response w body = Inr token"
    unfolding read_oidc_response_ok by blast
  from token(3) obtain header payload signature claims where claims:
      "split_char (CHR ''.'') token = [header, base64_url_no_pad payload, signature]"
      "w_claims w payload = Inr claims" "accept_claims claims now = Inr identity"
    using from_github_oidc_jwt_ok by blast
  from claims(3) obtain path where path: "claims_trusted claims now" "claims_workflow claims = Some path"
      "identity = \<lparr> id_repository = claim_repository claims, id_workflow_path = path,
         id_git_ref = claim_git_ref claims, id_actor = claim_actor claims, id_event = event_name claims \<rparr>"
    unfolding accept_claims_ok by blast
  from path(2) obtain revision where
      "workflow_ref claims = claim_repository claims @ ''/'' @ path @ ''@'' @ revision"
      "starts_with ''.github/workflows/'' path"
    unfolding claims_workflow_ok by blast
  moreover obtain rest where "url = ''https://token.actions.githubusercontent.com/'' @ rest"
      "\<not> starts_with ''/'' rest"
    using world(2) unfolding request_url_ok by blast
  moreover note world body token(2) claims path(1,3)
  ultimately show ?thesis
    apply -
    apply (rule exI [of _ rest], rule exI [of _ "''bearer '' @ key"], rule exI [of _ status],
        rule exI [of _ body], rule exI [of _ token], rule exI [of _ header],
        rule exI [of _ payload], rule exI [of _ signature], rule exI [of _ claims],
        rule exI [of _ now], rule exI [of _ revision])
    by (simp only: publisher_identity.simps simp_thms)
qed

text \<open>A workflow run whose token carries the claims below.\<close>

definition sample_claims :: oidc_claims where
  "sample_claims =
     \<lparr> iss = ''https://token.actions.githubusercontent.com'',
       aud = One ''openstrata-artifact-publish'', exp = 100, nbf = Some 150,
       claim_repository = ''a/b'', workflow_ref = ''a/b/.github/workflows/p.yml@refs/tags/v1'',
       claim_git_ref = ''refs/tags/v1'', claim_actor = ''bot'', event_name = ''push'' \<rparr>"

definition sample_world :: oidc_world where
  "sample_world =
     \<lparr> w_env = (\<lambda>name. if name = ''ACTIONS_ID_TOKEN_REQUEST_URL''
          then Some ''https://token.actions.githubusercontent.com/t'' else Some ''key''),
       w_call = (\<lambda>url key. Inr (200, Inr [1, 2])), w_response = (\<lambda>b. Inr ''h.AQI.s''),
       w_claims = (\<lambda>b. if b = [1, 2] then Inr sample_claims else Inl ''syntax''), w_now = Inr 155 \<rparr>"

theorem oidc_identity_sound_witness:
  "from_github_actions_oidc sample_world = Inr
     \<lparr> id_repository = ''a/b'', id_workflow_path = ''.github/workflows/p.yml'',
       id_git_ref = ''refs/tags/v1'', id_actor = ''bot'', id_event = ''push'' \<rparr>
   \<and> (\<exists>claims now. w_now sample_world = Inr now \<and> claims_trusted claims now)"
proof -
  have ok: "from_github_actions_oidc sample_world = Inr
     \<lparr> id_repository = ''a/b'', id_workflow_path = ''.github/workflows/p.yml'',
       id_git_ref = ''refs/tags/v1'', id_actor = ''bot'', id_event = ''push'' \<rparr>"
    by code_simp
  from oidc_identity_sound [OF ok] show ?thesis
    using ok by blast
qed

end
