(* ===== verification/ConsumerArchive.thy ===== *)
theory ConsumerArchive
  imports Encodings Paths "HOL-Library.Multiset"
begin

text \<open>
  The deterministic wheel writer (ost-build/src/consumer_archive.rs): archive paths, the order
  of the entries, the \<^verbatim>\<open>RECORD\<close> file of a wheel and the stored ZIP with its ZIP64 records.  The
  file system is an argument (what opening and reading a source gives), and so are CRC-32 and
  SHA-256; the bytes written to the destination are the result.
\<close>

section \<open>Entries\<close>

record archive_entry =
  entry_source :: string
  entry_path :: string

definition validate_archive_path :: "string \<Rightarrow> unit io" where
  "validate_archive_path path =
     (if path = [] \<or> starts_with ''/'' path \<or> CHR 0x00 \<in> set path
         \<or> list_ex (\<lambda>part. part = [] \<or> part = ''.'' \<or> part = ''..'') (split_char (CHR ''/'') path)
      then Inl (IoError InvalidInput (''unsafe consumer archive path: '' @ path))
      else Inr ())"

definition archive_entry_new ::
  "(string \<Rightarrow> bool) \<Rightarrow> string \<Rightarrow> string \<Rightarrow> archive_entry io"
where
  "archive_entry_new is_file source path =
     (let path = replace_char (CHR 0x5C) (CHR ''/'') path
      in and_then (validate_archive_path path) (\<lambda>_.
           if \<not> is_file source
           then Inl (IoError InvalidInput (''consumer archive input is not a regular file: '' @ source))
           else Inr \<lparr> entry_source = source, entry_path = path \<rparr>))"

text \<open>\<^verbatim>\<open>sort_by\<close> is stable; \<^verbatim>\<open>windows(2)\<close> looks at neighbours.\<close>

fun adjacent_duplicate :: "archive_entry list \<Rightarrow> bool" where
  "adjacent_duplicate (x # y # rest) \<longleftrightarrow> entry_path x = entry_path y \<or> adjacent_duplicate (y # rest)"
| "adjacent_duplicate _ \<longleftrightarrow> False"

definition sorted_entries :: "archive_entry list \<Rightarrow> (archive_entry list) io" where
  "sorted_entries entries =
     (let sorted = sort_key entry_path entries
      in if adjacent_duplicate sorted
         then Inl (IoError InvalidInput ''consumer archive contains duplicate paths'')
         else Inr sorted)"

section \<open>The RECORD file\<close>

definition record_line :: "string \<Rightarrow> byte list \<Rightarrow> nat \<Rightarrow> string" where
  "record_line path bytes sz =
     csv_field path @ '',sha256='' @ base64_url_no_pad bytes @ '','' @ to_decimal sz @ [CHR 0x0A]"

definition record_step ::
  "(string \<Rightarrow> (byte list) io) \<Rightarrow> (byte list \<Rightarrow> byte list) \<Rightarrow> string \<Rightarrow> archive_entry \<Rightarrow> string io"
where
  "record_step open_file sha output entry =
     and_then (open_file (entry_source entry)) (\<lambda>content.
       let (sha256, sz) = sha256_hex_reader sha content
       in and_then (decode_hex (case strip_prefix ''sha256:'' sha256 of None \<Rightarrow> [] | Some h \<Rightarrow> h))
            (\<lambda>bytes. Inr (output @ record_line (entry_path entry) bytes sz)))"

definition wheel_record ::
  "(string \<Rightarrow> (byte list) io) \<Rightarrow> (byte list \<Rightarrow> byte list) \<Rightarrow> archive_entry list \<Rightarrow> string \<Rightarrow> string io"
where
  "wheel_record open_file sha entries record_path =
     and_then (validate_archive_path record_path) (\<lambda>_.
     and_then (sorted_entries entries) (\<lambda>sorted.
     and_then (try_fold (record_step open_file sha) [] sorted) (\<lambda>output.
       Inr (output @ csv_field record_path @ '',,'' @ [CHR 0x0A]))))"

section \<open>The ZIP writer\<close>

text \<open>Sizes and positions are \<^verbatim>\<open>u64\<close> in the code; they are numbers here and written as words.\<close>

record zip_entry =
  zip_path :: string
  zip_crc32 :: "32 word"
  zip_size :: nat
  zip_offset :: nat

definition u32_max :: nat where
  "u32_max = 2 ^ 32 - 1"

definition u16_max :: nat where
  "u16_max = 2 ^ 16 - 1"

definition needs_zip64_u32 :: "nat \<Rightarrow> bool" where
  "needs_zip64_u32 value \<longleftrightarrow> u32_max \<le> value"

definition needs_zip64_count :: "nat \<Rightarrow> bool" where
  "needs_zip64_count value \<longleftrightarrow> u16_max \<le> value"

definition zip64_extra :: "nat \<Rightarrow> nat option \<Rightarrow> byte list" where
  "zip64_extra sz offset =
     u16_le 1 @ u16_le (if offset \<noteq> None then 24 else 16) @ u64_le (of_nat sz) @ u64_le (of_nat sz)
     @ (case offset of None \<Rightarrow> [] | Some offset \<Rightarrow> u64_le (of_nat offset))"

definition zip64_central_extra :: "nat \<Rightarrow> bool \<Rightarrow> nat \<Rightarrow> bool \<Rightarrow> byte list" where
  "zip64_central_extra sz size64 offset offset64 =
     u16_le 1 @ u16_le (of_nat (of_bool size64 * 16 + of_bool offset64 * 8))
     @ (if size64 then u64_le (of_nat sz) @ u64_le (of_nat sz) else [])
     @ (if offset64 then u64_le (of_nat offset) else [])"

text \<open>The value of a 32-bit field, or the sentinel when the value goes to the ZIP64 extra.\<close>

definition field32 :: "bool \<Rightarrow> nat \<Rightarrow> byte list" where
  "field32 zip64 value = u32_le (if zip64 then - 1 else of_nat value)"

definition local_record :: "string \<Rightarrow> 32 word \<Rightarrow> byte list \<Rightarrow> byte list" where
  "local_record path crc32 content =
     (let sz = length content;
          zip64 = needs_zip64_u32 sz;
          extra = (if zip64 then zip64_extra sz None else [])
      in u32_le 0x04034b50 @ u16_le (if zip64 then 45 else 20) @ u16_le 0x0800 @ u16_le 0 @ u16_le 0
         @ u16_le 0x21 @ u32_le crc32 @ field32 zip64 sz @ field32 zip64 sz
         @ u16_le (of_nat (length (str_bytes path))) @ u16_le (of_nat (length extra))
         @ str_bytes path @ extra @ content)"

definition central_record :: "zip_entry \<Rightarrow> byte list" where
  "central_record entry =
     (let name = str_bytes (zip_path entry);
          size64 = needs_zip64_u32 (zip_size entry);
          offset64 = needs_zip64_u32 (zip_offset entry);
          extra = (if size64 \<or> offset64
                   then zip64_central_extra (zip_size entry) size64 (zip_offset entry) offset64 else [])
      in u32_le 0x02014b50 @ u16_le 0x031e @ u16_le (if size64 \<or> offset64 then 45 else 20)
         @ u16_le 0x0800 @ u16_le 0 @ u16_le 0 @ u16_le 0x21 @ u32_le (zip_crc32 entry)
         @ field32 size64 (zip_size entry) @ field32 size64 (zip_size entry)
         @ u16_le (of_nat (length name)) @ u16_le (of_nat (length extra))
         @ u16_le 0 @ u16_le 0 @ u16_le 0 @ u32_le (push_bit 16 0x81A4)
         @ field32 offset64 (zip_offset entry) @ name @ extra)"

text \<open>The loop over the entries, with the bytes written and the central directory so far.\<close>

definition local_step ::
  "(string \<Rightarrow> (byte list) io) \<Rightarrow> (byte list \<Rightarrow> 32 word) \<Rightarrow> byte list \<times> zip_entry list \<Rightarrow> archive_entry
     \<Rightarrow> (byte list \<times> zip_entry list) io"
where
  "local_step open_file crc = (\<lambda>(written, central) entry.
     if u16_max < length (str_bytes (entry_path entry))
     then Inl (IoError InvalidInput ''ZIP entry name is too long'')
     else and_then (open_file (entry_source entry)) (\<lambda>content.
       Inr (written @ local_record (entry_path entry) (crc content) content,
            central @ [\<lparr> zip_path = entry_path entry, zip_crc32 = crc content,
              zip_size = length content, zip_offset = length written \<rparr>])))"

definition uses_zip64 :: "zip_entry list \<Rightarrow> nat \<Rightarrow> nat \<Rightarrow> bool" where
  "uses_zip64 central central_offset central_size \<longleftrightarrow>
     needs_zip64_count (length central) \<or> needs_zip64_u32 central_offset \<or> needs_zip64_u32 central_size
     \<or> list_ex (\<lambda>e. needs_zip64_u32 (zip_size e) \<or> needs_zip64_u32 (zip_offset e)) central"

definition zip64_end_record :: "nat \<Rightarrow> nat \<Rightarrow> nat \<Rightarrow> nat \<Rightarrow> byte list" where
  "zip64_end_record entries_count central_size central_offset zip64_offset =
     u32_le 0x06064b50 @ u64_le 44 @ u16_le 0x031e @ u16_le 45 @ u32_le 0 @ u32_le 0
     @ u64_le (of_nat entries_count) @ u64_le (of_nat entries_count) @ u64_le (of_nat central_size)
     @ u64_le (of_nat central_offset)
     @ u32_le 0x07064b50 @ u32_le 0 @ u64_le (of_nat zip64_offset) @ u32_le 1"

text \<open>\<^verbatim>\<open>try_from(v).unwrap_or(MAX)\<close>.\<close>

definition end_record :: "nat \<Rightarrow> nat \<Rightarrow> nat \<Rightarrow> byte list" where
  "end_record entries_count central_size central_offset =
     (let entries_count = (if entries_count \<le> u16_max then of_nat entries_count else - 1)
      in u32_le 0x06054b50 @ u16_le 0 @ u16_le 0 @ u16_le entries_count @ u16_le entries_count
         @ u32_le (if central_size \<le> u32_max then of_nat central_size else - 1)
         @ u32_le (if central_offset \<le> u32_max then of_nat central_offset else - 1)
         @ u16_le 0)"

definition pack_wheel ::
  "(string \<Rightarrow> (byte list) io) \<Rightarrow> (byte list \<Rightarrow> 32 word) \<Rightarrow> archive_entry list \<Rightarrow> (byte list \<times> nat) io"
where
  "pack_wheel open_file crc entries =
     and_then (sorted_entries entries) (\<lambda>entries.
     and_then (try_fold (local_step open_file crc) ([], []) entries) (\<lambda>(written, central).
       let central_offset = length written;
           written = written @ concat (map central_record central);
           central_size = length written - central_offset;
           written = written
             @ (if uses_zip64 central central_offset central_size
                then zip64_end_record (length central) central_size central_offset (length written)
                else [])
       in Inr (written @ end_record (length central) central_size central_offset, length central)))"

section \<open>Archive paths\<close>

definition archive_path_ok :: "string \<Rightarrow> bool" where
  "archive_path_ok path \<longleftrightarrow> validate_archive_path path = Inr ()"

lemma archive_path_parts:
  "archive_path_ok path \<longleftrightarrow> path \<noteq> [] \<and> \<not> starts_with ''/'' path \<and> CHR 0x00 \<notin> set path
     \<and> (\<forall>part \<in> set (split_char (CHR ''/'') path). part \<noteq> [] \<and> part \<noteq> ''.'' \<and> part \<noteq> ''..'')"
  by (auto simp: archive_path_ok_def validate_archive_path_def list_ex_iff split: if_splits)

interpretation archive_path: path_guard slash archive_path_ok
proof
  fix p
  assume ok: "archive_path_ok p"
  have "slash = (\<lambda>x. x = CHR ''/'')"
    by (simp add: slash_def fun_eq_iff)
  with ok have "p \<noteq> []" "\<not> starts_with ''/'' p" "''..'' \<notin> set (split_on slash p)"
    by (auto simp: archive_path_parts)
  then show "contained slash p"
    by (intro contained_no_parent) (auto simp: slash_def starts_with_prefix neq_Nil_conv)
qed

section \<open>The order of the entries\<close>

lemma adjacent_duplicate_sorted:
  "sorted (map entry_path xs) \<Longrightarrow> adjacent_duplicate xs \<longleftrightarrow> \<not> distinct (map entry_path xs)"
proof (induction xs rule: adjacent_duplicate.induct)
  case (1 x y rest)
  have "entry_path x \<in> set (map entry_path (y # rest)) \<Longrightarrow> entry_path x = entry_path y"
    using "1.prems" by (auto intro: antisym)
  with 1 show ?case by auto
qed auto

lemma sorted_entries_ok:
  "sorted_entries entries = Inr es \<longleftrightarrow> distinct (map entry_path entries) \<and> es = sort_key entry_path entries"
proof -
  have "distinct (map entry_path (sort_key entry_path entries)) \<longleftrightarrow> distinct (map entry_path entries)"
    by (metis mset_map mset_sort mset_eq_imp_distinct_iff)
  then show ?thesis
    by (auto simp: sorted_entries_def Let_def adjacent_duplicate_sorted)
qed

lemma sorted_entries_error:
  "\<not> distinct (map entry_path entries) \<Longrightarrow>
   sorted_entries entries = Inl (IoError InvalidInput ''consumer archive contains duplicate paths'')"
  using sorted_entries_ok [of entries "sort_key entry_path entries"]
  by (auto simp: sorted_entries_def Let_def split: if_splits)

lemma sorted_entries_permutation:
  assumes "mset entries = mset entries'"
  shows "sorted_entries entries = sorted_entries entries'"
proof (cases "distinct (map entry_path entries)")
  case True
  have maps: "mset (map entry_path entries) = mset (map entry_path entries')"
    using assms by (simp add: mset_map)
  then have True': "distinct (map entry_path entries')"
    using True mset_eq_imp_distinct_iff by blast
  have "sort_key entry_path entries = sort_key entry_path entries'"
    using True assms by (intro sort_key_inj_key_eq) (auto simp: distinct_map)
  then show ?thesis
    using True True' sorted_entries_ok by metis
next
  case False
  then have "\<not> distinct (map entry_path entries')"
    using assms by (metis mset_map mset_eq_imp_distinct_iff)
  with False show ?thesis
    by (simp add: sorted_entries_error)
qed

section \<open>What the archive holds\<close>

text \<open>The records of the entries one after the other, and where each one starts.\<close>

definition local_bytes :: "(archive_entry \<Rightarrow> byte list) \<Rightarrow> (byte list \<Rightarrow> 32 word) \<Rightarrow> archive_entry \<Rightarrow> byte list" where
  "local_bytes content crc e = local_record (entry_path e) (crc (content e)) (content e)"

fun zip_entries ::
  "(archive_entry \<Rightarrow> byte list) \<Rightarrow> (byte list \<Rightarrow> 32 word) \<Rightarrow> nat \<Rightarrow> archive_entry list \<Rightarrow> zip_entry list"
where
  "zip_entries content crc pos [] = []"
| "zip_entries content crc pos (e # es) =
     \<lparr> zip_path = entry_path e, zip_crc32 = crc (content e), zip_size = length (content e),
       zip_offset = pos \<rparr>
     # zip_entries content crc (pos + length (local_bytes content crc e)) es"

lemma local_loop:
  assumes "\<forall>e \<in> set es. open_file (entry_source e) = Inr (content e)"
    and "\<forall>e \<in> set es. length (entry_path e) \<le> u16_max"
  shows "try_fold (local_step open_file crc) (written, central) es =
    Inr (written @ concat (map (local_bytes content crc) es),
         central @ zip_entries content crc (length written) es)"
  using assms
  by (induction es arbitrary: written central)
     (auto simp: local_step_def local_bytes_def str_bytes_def)

lemma local_loop_inputs:
  "try_fold (local_step open_file crc) state es = Inr result \<Longrightarrow>
   (\<forall>e \<in> set es. length (entry_path e) \<le> u16_max \<and> (\<exists>c. open_file (entry_source e) = Inr c))"
  by (induction es arbitrary: state)
     (auto simp: local_step_def str_bytes_def res_simps split: if_splits)

lemma zip_entry_located:
  assumes "z \<in> set (zip_entries content crc (length pre) es)"
  shows "\<exists>e \<in> set es. zip_path z = entry_path e \<and> zip_size z = length (content e)
     \<and> zip_crc32 z = crc (content e)
     \<and> prefix (local_bytes content crc e)
         (drop (zip_offset z) (pre @ concat (map (local_bytes content crc) es) @ rest))"
  using assms
proof (induction es arbitrary: pre)
  case (Cons e es)
  show ?case
  proof (cases "z \<in> set (zip_entries content crc (length (pre @ local_bytes content crc e)) es)")
    case True
    from Cons.IH [OF this] show ?thesis by auto
  next
    case False
    then have "z = \<lparr> zip_path = entry_path e, zip_crc32 = crc (content e),
        zip_size = length (content e), zip_offset = length pre \<rparr>"
      using Cons.prems by (auto simp: local_bytes_def)
    then show ?thesis by auto
  qed
qed simp

lemma zip_entries_paths: "map zip_path (zip_entries content crc pos es) = map entry_path es"
  by (induction es arbitrary: pos) auto

subsection \<open>A reader of ZIP files\<close>

text \<open>
  The specification the writer is checked against: how a reader of the format finds the
  central directory from the end of the file, reads its entries and the content of an entry.
  A 32-bit or 16-bit field that holds its greatest value sends the reader to the ZIP64 record.
\<close>

definition field :: "byte list \<Rightarrow> nat \<Rightarrow> nat \<Rightarrow> nat" where
  "field bytes pos len = from_le (take len (drop pos bytes))"

definition read_central :: "byte list \<Rightarrow> (zip_entry \<times> byte list) option" where
  "read_central bytes =
     (if field bytes 0 4 \<noteq> 0x02014b50 then None
      else let name_len = field bytes 28 2; extra_len = field bytes 30 2;
               values = drop (50 + name_len) bytes;
               size64 = (field bytes 24 4 = u32_max); offset64 = (field bytes 42 4 = u32_max)
           in Some (\<lparr> zip_path = map (\<lambda>b. char_of (unat b)) (take name_len (drop 46 bytes)),
                      zip_crc32 = of_nat (field bytes 16 4),
                      zip_size = (if size64 then field values 0 8 else field bytes 24 4),
                      zip_offset = (if offset64 then field values (if size64 then 16 else 0) 8
                                    else field bytes 42 4) \<rparr>,
                    drop (46 + name_len + extra_len) bytes))"

fun read_directory :: "nat \<Rightarrow> byte list \<Rightarrow> (zip_entry list) option" where
  "read_directory 0 bytes = Some []"
| "read_directory (Suc n) bytes =
     (case read_central bytes of
        None \<Rightarrow> None
      | Some (z, rest) \<Rightarrow> map_option (\<lambda>zs. z # zs) (read_directory n rest))"

definition read_local :: "byte list \<Rightarrow> zip_entry \<Rightarrow> byte list" where
  "read_local archive z =
     (let bytes = drop (zip_offset z) archive
      in take (zip_size z) (drop (30 + field bytes 26 2 + field bytes 28 2) bytes))"

definition read_zip :: "byte list \<Rightarrow> (zip_entry list) option" where
  "read_zip archive =
     (let last = drop (length archive - 22) archive;
          number = field last 10 2; dir_size = field last 12 4; dir = field last 16 4
      in if number = u16_max \<or> dir_size = u32_max \<or> dir = u32_max
         then let end64 = drop (field (drop (length archive - 42) archive) 8 8) archive
              in read_directory (field end64 32 8) (drop (field end64 48 8) archive)
         else read_directory number (drop dir archive))"

lemma field_le_bytes:
  "field (pre @ le_bytes n w @ rest) (length pre) n = unat (w :: 'w::len word) mod 256 ^ n"
  by (simp add: field_def from_le_bytes)

lemma field_skip: "pos = length pre + k \<Longrightarrow> field (pre @ bytes) pos n = field bytes k n"
  by (simp add: field_def)

lemma field_here:
  "field (le_bytes n w @ rest) 0 n = unat (w :: 'w::len word) mod 256 ^ n"
  using field_le_bytes [of "[]"] by simp

lemma unat_byte: "unat (of_nat (of_char c) :: byte) = of_char c"
  using nat_of_char_less_256 [of c] by (simp add: unsigned_of_nat take_bit_nat_eq_self)

lemma name_of_bytes: "map (\<lambda>b. char_of (unat b)) (str_bytes path) = path"
  by (simp add: str_bytes_def comp_def unat_byte)

lemma length_field32 [simp]: "length (field32 b v) = 4"
  by (simp add: field32_def)

lemma length_str_bytes [simp]: "length (str_bytes path) = length path"
  by (simp add: str_bytes_def)

lemma from_le_u16: "n \<le> u16_max \<Longrightarrow> from_le (u16_le (of_nat n)) = n"
  by (simp add: from_le_bytes unsigned_of_nat take_bit_nat_eq_self u16_max_def)

lemma from_le_u64: "n < 2 ^ 64 \<Longrightarrow> from_le (u64_le (of_nat n)) = n"
  by (simp add: from_le_bytes unsigned_of_nat take_bit_nat_eq_self)

lemma from_le_field32:
  "from_le (field32 (needs_zip64_u32 v) v) = (if needs_zip64_u32 v then u32_max else v)"
proof (cases "needs_zip64_u32 v")
  case True
  have "unat (- 1 :: 32 word) = 2 ^ 32 - 1"
    by (simp add: unsigned_minus_1_eq_mask mask_eq_exp_minus_1)
  with True show ?thesis
    by (simp add: field32_def from_le_bytes u32_max_def)
next
  case False
  then show ?thesis
    by (simp add: field32_def from_le_bytes unsigned_of_nat take_bit_nat_eq_self needs_zip64_u32_def u32_max_def)
qed

lemma read_central_record:
  assumes "length (zip_path z) \<le> u16_max" "zip_size z < 2 ^ 64" "zip_offset z < 2 ^ 64"
  shows "read_central (central_record z @ rest) = Some (z, rest)"
proof -
  let ?s = "needs_zip64_u32 (zip_size z)" and ?o = "needs_zip64_u32 (zip_offset z)"
  let ?extra = "if ?s \<or> ?o then zip64_central_extra (zip_size z) ?s (zip_offset z) ?o else []"
  let ?bytes = "central_record z @ rest"
  have extra: "length ?extra \<le> u16_max"
    by (simp add: zip64_central_extra_def u16_max_def)
  have head: "field ?bytes 0 4 = 0x02014b50"
    by (simp add: central_record_def Let_def field_def from_le_bytes)
  have "unat (zip_crc32 z) < 2 ^ 32"
    using unsigned_less [of "zip_crc32 z"] by simp
  then have crc: "field ?bytes 16 4 = unat (zip_crc32 z)"
    by (simp add: central_record_def Let_def field_def from_le_bytes)
  have size: "field ?bytes 24 4 = (if ?s then u32_max else zip_size z)"
    by (simp add: central_record_def Let_def field_def from_le_field32)
  have name: "field ?bytes 28 2 = length (zip_path z)"
    using assms(1) by (simp add: central_record_def Let_def field_def from_le_u16)
  have len: "field ?bytes 30 2 = length ?extra"
    using from_le_u16 [OF extra] by (simp add: central_record_def Let_def field_def)
  have offset: "field ?bytes 42 4 = (if ?o then u32_max else zip_offset z)"
    by (simp add: central_record_def Let_def field_def from_le_field32)
  have path: "take (length (zip_path z)) (drop 46 ?bytes) = str_bytes (zip_path z)"
    by (simp add: central_record_def Let_def)
  have vals: "drop (50 + length (zip_path z)) ?bytes = drop 4 (?extra @ rest)"
    by (simp add: central_record_def Let_def)
  have rest: "drop (46 + length (zip_path z) + length ?extra) ?bytes = rest"
    by (simp add: central_record_def Let_def)
  have size64: "?s \<Longrightarrow> field (drop 4 (?extra @ rest)) 0 8 = zip_size z"
    using from_le_u64 [OF assms(2)] by (simp add: field_def zip64_central_extra_def)
  have offset64: "?o \<Longrightarrow> field (drop 4 (?extra @ rest)) (if ?s then 16 else 0) 8 = zip_offset z"
    using from_le_u64 [OF assms(3)] by (simp add: field_def zip64_central_extra_def)
  have sentinel: "(if needs_zip64_u32 v then u32_max else v) = u32_max \<longleftrightarrow> needs_zip64_u32 v" for v
    by (simp add: needs_zip64_u32_def)
  show ?thesis
    unfolding read_central_def head crc size name len offset path vals rest Let_def sentinel name_of_bytes
    using size64 offset64 by simp
qed

lemma read_directory_records:
  assumes "\<forall>z \<in> set zs. length (zip_path z) \<le> u16_max \<and> zip_size z < 2 ^ 64 \<and> zip_offset z < 2 ^ 64"
  shows "read_directory (length zs) (concat (map central_record zs) @ rest) = Some zs"
  using assms by (induction zs) (simp_all add: read_central_record)

lemma read_local_record:
  assumes "prefix (local_record (zip_path z) crc content) (drop (zip_offset z) archive)"
    and "zip_size z = length content" "length (zip_path z) \<le> u16_max"
  shows "read_local archive z = content"
proof -
  obtain rest where rest: "drop (zip_offset z) archive = local_record (zip_path z) crc content @ rest"
    using assms(1) by (auto simp: prefix_def)
  let ?z = "needs_zip64_u32 (length content)"
  let ?extra = "if ?z then zip64_extra (length content) None else []"
  have extra: "length ?extra \<le> u16_max"
    by (simp add: zip64_extra_def u16_max_def)
  have name: "field (local_record (zip_path z) crc content @ rest) 26 2 = length (zip_path z)"
    using assms(3) by (simp add: local_record_def Let_def field_def from_le_u16)
  have len: "field (local_record (zip_path z) crc content @ rest) 28 2 = length ?extra"
    using from_le_u16 [OF extra] by (simp add: local_record_def Let_def field_def)
  have "take (length content) (drop (30 + length (zip_path z) + length ?extra)
      (local_record (zip_path z) crc content @ rest)) = content"
    by (simp add: local_record_def Let_def)
  then show ?thesis
    unfolding read_local_def Let_def rest name len assms(2) .
qed

subsection \<open>Packing and reading back\<close>

lemma length_end_record: "length (end_record n sz off) = 22"
  by (simp add: end_record_def Let_def)

lemma length_zip64_end_record: "length (zip64_end_record n sz off pos) = 76"
  by (simp add: zip64_end_record_def)

lemma clamp32: "from_le (u32_le (if v \<le> u32_max then of_nat v else - 1)) = min v u32_max"
  by (simp add: from_le_bytes unsigned_of_nat take_bit_nat_eq_self u32_max_def min_def
      unsigned_minus_1_eq_mask mask_eq_exp_minus_1)

lemma clamp16: "from_le (u16_le (if v \<le> u16_max then of_nat v else - 1)) = min v u16_max"
  by (simp add: from_le_bytes unsigned_of_nat take_bit_nat_eq_self u16_max_def min_def
      unsigned_minus_1_eq_mask mask_eq_exp_minus_1)

lemma end_record_fields:
  "field (end_record n sz off) 10 2 = min n u16_max"
  "field (end_record n sz off) 12 4 = min sz u32_max"
  "field (end_record n sz off) 16 4 = min off u32_max"
  using clamp16 [of n] clamp32 [of sz] clamp32 [of off]
  by (simp_all add: end_record_def Let_def field_def)

lemma read_zip_layout:
  fixes locals :: "byte list" and zs :: "zip_entry list"
  defines "directory \<equiv> concat (map central_record zs)"
  defines "tail64 \<equiv> (if uses_zip64 zs (length locals) (length directory)
    then zip64_end_record (length zs) (length directory) (length locals) (length (locals @ directory)) else [])"
  defines "archive \<equiv> locals @ directory @ tail64 @ end_record (length zs) (length directory) (length locals)"
  assumes ok: "\<forall>z \<in> set zs. length (zip_path z) \<le> u16_max \<and> zip_size z < 2 ^ 64 \<and> zip_offset z < 2 ^ 64"
    and size: "length archive < 2 ^ 64" "length zs < 2 ^ 64"
  shows "read_zip archive = Some zs"
proof -
  let ?n = "length zs" and ?sz = "length directory" and ?off = "length locals"
  have last: "drop (length archive - 22) archive = end_record ?n ?sz ?off"
    by (simp add: archive_def length_end_record)
  have dir: "read_directory ?n (drop ?off archive) = Some zs"
    using read_directory_records [OF ok] by (simp add: archive_def directory_def)
  show ?thesis
  proof (cases "needs_zip64_count ?n \<or> needs_zip64_u32 ?sz \<or> needs_zip64_u32 ?off")
    case True
    then have tail: "tail64 = zip64_end_record ?n ?sz ?off (length (locals @ directory))"
      by (auto simp: tail64_def uses_zip64_def)
    have locator: "field (drop (length archive - 42) archive) 8 8 = length (locals @ directory)"
      using from_le_u64 [of "length (locals @ directory)"] size(1)
      by (simp add: archive_def length_end_record tail zip64_end_record_def field_def)
    have end64: "drop (length (locals @ directory)) archive = tail64 @ end_record ?n ?sz ?off"
      by (simp add: archive_def)
    have "field (tail64 @ end_record ?n ?sz ?off) 32 8 = ?n"
      using from_le_u64 [OF size(2)] by (simp add: tail zip64_end_record_def field_def)
    moreover have "field (tail64 @ end_record ?n ?sz ?off) 48 8 = ?off"
      using from_le_u64 [of ?off] size(1)
      by (simp add: archive_def tail zip64_end_record_def field_def)
    ultimately show ?thesis
      using True dir unfolding read_zip_def Let_def last end_record_fields locator end64
      by (auto simp: needs_zip64_count_def needs_zip64_u32_def min_def)
  next
    case False
    then have "min ?n u16_max = ?n" "min ?sz u32_max = ?sz" "min ?off u32_max = ?off"
        "?n \<noteq> u16_max" "?sz \<noteq> u32_max" "?off \<noteq> u32_max"
      by (simp_all add: needs_zip64_count_def needs_zip64_u32_def)
    then show ?thesis
      using dir unfolding read_zip_def Let_def last end_record_fields by simp
  qed
qed

lemma zip_entries_offset:
  "z \<in> set (zip_entries content crc pos es) \<Longrightarrow>
   zip_offset z < pos + length (concat (map (local_bytes content crc) es))"
proof (induction es arbitrary: pos)
  case (Cons e es)
  have "0 < length (local_bytes content crc e)"
    by (simp add: local_bytes_def local_record_def Let_def)
  moreover have "z \<in> set (zip_entries content crc (pos + length (local_bytes content crc e)) es)
      \<or> zip_offset z = pos"
    using Cons.prems by (auto simp: local_bytes_def)
  ultimately show ?case
    using Cons.IH [of "pos + length (local_bytes content crc e)"] by auto
qed simp

lemma zip_entries_size:
  "z \<in> set (zip_entries content crc pos es) \<Longrightarrow>
   zip_size z \<le> length (concat (map (local_bytes content crc) es))"
proof (induction es arbitrary: pos)
  case (Cons e es)
  have "length (content e) \<le> length (local_bytes content crc e)"
    by (simp add: local_bytes_def local_record_def Let_def)
  moreover have "z \<in> set (zip_entries content crc (pos + length (local_bytes content crc e)) es)
      \<or> zip_size z = length (content e)"
    using Cons.prems by (auto simp: local_bytes_def)
  ultimately show ?case
    using Cons.IH [of "pos + length (local_bytes content crc e)"] by auto
qed simp

lemma length_zip_entries: "length (zip_entries content crc pos es) = length es"
  by (induction es arbitrary: pos) auto

lemma zip_entries_count:
  "length es \<le> length (concat (map (local_bytes content crc) es))"
proof (induction es)
  case (Cons e es)
  have "1 \<le> length (local_bytes content crc e)"
    by (simp add: local_bytes_def local_record_def Let_def)
  with Cons show ?case by (simp del: One_nat_def length_greater_0_conv)
qed simp

lemma zip_entries_contents:
  assumes "\<forall>e \<in> set es. length (entry_path e) \<le> u16_max"
  shows "map (\<lambda>z. (zip_path z, read_local (pre @ concat (map (local_bytes content crc) es) @ rest) z))
           (zip_entries content crc (length pre) es) = map (\<lambda>e. (entry_path e, content e)) es"
  using assms
proof (induction es arbitrary: pre)
  case (Cons e es)
  let ?z = "\<lparr> zip_path = entry_path e, zip_crc32 = crc (content e), zip_size = length (content e),
    zip_offset = length pre \<rparr>"
  have "read_local (pre @ concat (map (local_bytes content crc) (e # es)) @ rest) ?z = content e"
    using Cons.prems by (intro read_local_record [of _ "crc (content e)"]) (auto simp: local_bytes_def)
  with Cons.IH [of "pre @ local_bytes content crc e"] Cons.prems show ?case
    by simp
qed simp

text \<open>The sources are readable and no path is longer than a ZIP name can be.\<close>

definition packable :: "(string \<Rightarrow> (byte list) io) \<Rightarrow> archive_entry list \<Rightarrow> bool" where
  "packable open_file entries \<longleftrightarrow>
     distinct (map entry_path entries)
     \<and> (\<forall>e \<in> set entries. length (entry_path e) \<le> u16_max \<and> is_ok (open_file (entry_source e)))"

definition content_of :: "(string \<Rightarrow> (byte list) io) \<Rightarrow> archive_entry \<Rightarrow> byte list" where
  "content_of open_file e = (case open_file (entry_source e) of Inl _ \<Rightarrow> [] | Inr c \<Rightarrow> c)"

lemma pack_wheel_layout:
  fixes crc :: "byte list \<Rightarrow> 32 word"
  assumes "packable open_file entries"
  defines "es \<equiv> sort_key entry_path entries"
  defines "locals \<equiv> concat (map (local_bytes (content_of open_file) crc) es)"
  defines "zs \<equiv> zip_entries (content_of open_file) crc 0 es"
  defines "directory \<equiv> concat (map central_record zs)"
  shows "pack_wheel open_file crc entries =
    Inr (locals @ directory
         @ (if uses_zip64 zs (length locals) (length directory)
            then zip64_end_record (length zs) (length directory) (length locals) (length (locals @ directory))
            else [])
         @ end_record (length zs) (length directory) (length locals), length entries)"
proof -
  have opens: "\<forall>e \<in> set es. open_file (entry_source e) = Inr (content_of open_file e)"
    and lens: "\<forall>e \<in> set es. length (entry_path e) \<le> u16_max"
    using assms(1) by (auto simp: packable_def es_def content_of_def is_ok_iff)
  have "sorted_entries entries = Inr es"
    using assms by (simp add: sorted_entries_ok packable_def)
  moreover have "try_fold (local_step open_file crc) ([], []) es = Inr (locals, zs)"
    unfolding locals_def zs_def using opens lens
      local_loop [of es open_file "content_of open_file" crc "[]" "[]"] by simp
  ultimately show ?thesis
    by (simp add: pack_wheel_def Let_def directory_def zs_def length_zip_entries es_def)
qed

lemma pack_wheel_packable:
  "is_ok (pack_wheel open_file crc entries) \<Longrightarrow> packable open_file entries"
  using local_loop_inputs [of open_file crc "([], [])" "sort_key entry_path entries"]
  by (fastforce simp: pack_wheel_def packable_def is_ok_iff res_simps sorted_entries_ok split: prod.splits)

text \<open>
  C34. A packed wheel reads back as what went in: whenever the writer succeeds and the file is
  below 2^64 bytes, a ZIP reader that starts at the end record (following the ZIP64 records
  where a field holds its sentinel) finds exactly the input paths in ascending order, and each
  entry's offset and size lead to the bytes of its source file.
\<close>

theorem pack_wheel_reads_back:
  assumes "pack_wheel open_file crc entries = Inr (archive, n)" and "length archive < 2 ^ 64"
  shows "n = length entries
     \<and> (\<exists>zs. read_zip archive = Some zs
          \<and> map (\<lambda>z. (zip_path z, Inr (read_local archive z))) zs =
              map (\<lambda>e. (entry_path e, open_file (entry_source e))) (sort_key entry_path entries))"
proof -
  let ?es = "sort_key entry_path entries" and ?c = "content_of open_file"
  let ?locals = "concat (map (local_bytes ?c crc) ?es)" and ?zs = "zip_entries ?c crc 0 ?es"
  have ok: "packable open_file entries"
    using pack_wheel_packable assms(1) by (metis is_ok_simps(1))
  obtain rest where archive: "archive = ?locals @ rest" and n: "n = length entries"
    using pack_wheel_layout [OF ok, of crc] assms(1) by auto
  have "\<forall>z \<in> set ?zs. length (zip_path z) \<le> u16_max \<and> zip_size z < 2 ^ 64 \<and> zip_offset z < 2 ^ 64"
  proof
    fix z
    assume z: "z \<in> set ?zs"
    then have "zip_path z \<in> set (map zip_path ?zs)"
      by simp
    then have "length (zip_path z) \<le> u16_max"
      using ok by (auto simp: zip_entries_paths packable_def)
    then show "length (zip_path z) \<le> u16_max \<and> zip_size z < 2 ^ 64 \<and> zip_offset z < 2 ^ 64"
      using zip_entries_offset [OF z] zip_entries_size [OF z] assms(2) unfolding archive by simp
  qed
  moreover have "length ?zs < 2 ^ 64"
    using zip_entries_count [of ?es ?c crc] assms(2) unfolding archive by (simp add: length_zip_entries)
  ultimately have "read_zip archive = Some ?zs"
    using read_zip_layout [of ?zs ?locals] assms(2) pack_wheel_layout [OF ok, of crc] assms(1) by simp
  moreover have "\<forall>e \<in> set ?es. open_file (entry_source e) = Inr (?c e)"
    using ok by (auto simp: packable_def content_of_def is_ok_iff)
  then have "map (\<lambda>z. (zip_path z, Inr (read_local archive z))) ?zs =
      map (\<lambda>e. (entry_path e, open_file (entry_source e))) ?es"
    using arg_cong [OF zip_entries_contents [of ?es "[]" ?c crc rest], of "map (\<lambda>(p, c). (p, Inr c :: (byte list) io))"] ok
    unfolding archive by (simp add: packable_def comp_def cong: map_cong)
  ultimately show ?thesis
    using n by blast
qed

definition sample_entries :: "archive_entry list" where
  "sample_entries =
     [\<lparr> entry_source = ''/b'', entry_path = ''pkg/b.py'' \<rparr>, \<lparr> entry_source = ''/a'', entry_path = ''pkg/a.py'' \<rparr>]"

definition sample_file :: "string \<Rightarrow> (byte list) io" where
  "sample_file source = Inr (if source = ''/a'' then [1, 2, 3] else [])"

theorem pack_wheel_reads_back_witness:
  "\<exists>archive zs. pack_wheel sample_file (\<lambda>_. 7) sample_entries = Inr (archive, 2) \<and> read_zip archive = Some zs
     \<and> map (\<lambda>z. (zip_path z, read_local archive z)) zs = [(''pkg/a.py'', [1, 2, 3]), (''pkg/b.py'', [])]"
proof -
  have ok: "packable sample_file sample_entries"
    by code_simp
  have order: "sort_key entry_path sample_entries = rev sample_entries"
    by code_simp
  obtain archive where pack: "pack_wheel sample_file (\<lambda>_. 7) sample_entries = Inr (archive, 2)"
      and small: "length archive < 2 ^ 64"
    using pack_wheel_layout [OF ok, of "\<lambda>_. 7"] unfolding order
    by (simp add: sample_entries_def content_of_def sample_file_def local_bytes_def local_record_def
        central_record_def needs_zip64_u32_def needs_zip64_count_def u32_max_def u16_max_def uses_zip64_def
        length_end_record)
  have sorted: "map (\<lambda>e. (entry_path e, sample_file (entry_source e))) (sort_key entry_path sample_entries) =
      map (\<lambda>(p, c). (p, Inr c :: (byte list) io)) [(''pkg/a.py'', [1, 2, 3]), (''pkg/b.py'', [])]"
    unfolding order by (simp add: sample_entries_def sample_file_def)
  obtain zs where zs: "read_zip archive = Some zs"
      "map (\<lambda>z. (zip_path z, Inr (read_local archive z) :: (byte list) io)) zs =
       map (\<lambda>(p, c). (p, Inr c :: (byte list) io)) [(''pkg/a.py'', [1, 2, 3]), (''pkg/b.py'', [])]"
    using pack_wheel_reads_back [OF pack small] unfolding sorted by blast
  have "map (\<lambda>z. (zip_path z, read_local archive z)) zs = [(''pkg/a.py'', [1, 2, 3]), (''pkg/b.py'', [])]"
    using zs(2) by auto
  with pack zs(1) show ?thesis by (intro exI conjI)
qed

text \<open>
  The archives are deterministic: the wheel and its RECORD depend on the set of entries and
  the content of their files alone, not on the order in which the entries were collected.
\<close>

lemma archive_order_independent:
  assumes "mset entries = mset entries'"
  shows "pack_wheel open_file crc entries = pack_wheel open_file crc entries'
         \<and> wheel_record open_file sha entries path = wheel_record open_file sha entries' path"
  by (simp add: pack_wheel_def wheel_record_def sorted_entries_permutation [OF assms])

lemma archive_order_independent_witness:
  "mset sample_entries = mset (rev sample_entries)
   \<and> pack_wheel sample_file (\<lambda>_. 7) sample_entries = pack_wheel sample_file (\<lambda>_. 7) (rev sample_entries)"
  using archive_order_independent [of sample_entries "rev sample_entries"] by simp

subsection \<open>RECORD\<close>

lemma record_step_ok:
  "record_step open_file sha output e =
     and_then (open_file (entry_source e)) (\<lambda>content.
       Inr (output @ record_line (entry_path e) (sha content) (length content)))"
  by (simp add: record_step_def sha256_hex_reader_def render_digest_def decode_to_hex
      del: append_Cons)

lemma record_loop:
  "\<forall>e \<in> set es. open_file (entry_source e) = Inr (content e) \<Longrightarrow>
   try_fold (record_step open_file sha) out es =
     Inr (out @ concat (map (\<lambda>e. record_line (entry_path e) (sha (content e)) (length (content e))) es))"
  by (induction es arbitrary: out) (simp_all add: record_step_ok)

text \<open>
  When every source is readable, the paths are distinct and the record path is safe, the
  RECORD is written, with one line per entry in ascending path order that carries the
  unpadded base64url of the file's digest and its size, and a last line for RECORD itself;
  decoding the digest field gives the digest back.
\<close>

lemma wheel_record_lines:
  assumes "validate_archive_path record_path = Inr ()" and "distinct (map entry_path entries)"
    and "\<forall>e \<in> set entries. open_file (entry_source e) = Inr (content e)"
  shows "wheel_record open_file sha entries record_path =
     Inr (concat (map (\<lambda>e. csv_field (entry_path e) @ '',sha256='' @ base64_url_no_pad (sha (content e))
            @ '','' @ to_decimal (length (content e)) @ [CHR 0x0A]) (sort_key entry_path entries))
          @ csv_field record_path @ '',,'' @ [CHR 0x0A])
   \<and> decode_base64url (base64_url_no_pad (sha (content e))) = Some (sha (content e))"
proof -
  have "sorted_entries entries = Inr (sort_key entry_path entries)"
    using assms(2) by (simp add: sorted_entries_ok)
  moreover have "try_fold (record_step open_file sha) [] (sort_key entry_path entries) =
      Inr (concat (map (\<lambda>e. record_line (entry_path e) (sha (content e)) (length (content e)))
        (sort_key entry_path entries)))"
    using record_loop [of "sort_key entry_path entries" open_file content sha "[]"] assms(3) by simp
  ultimately show ?thesis
    using assms(1) by (simp add: wheel_record_def record_line_def base64url_decodes)
qed

lemma wheel_record_lines_witness:
  "wheel_record sample_file (\<lambda>_. [255, 1]) sample_entries ''RECORD'' =
     Inr (''pkg/a.py,sha256=_wE,3'' @ [CHR 0x0A] @ ''pkg/b.py,sha256=_wE,0'' @ [CHR 0x0A] @
          ''RECORD,,'' @ [CHR 0x0A])"
proof -
  let ?content = "\<lambda>e. if entry_source e = ''/a'' then [1, 2, 3] else ([] :: byte list)"
  have hyps: "validate_archive_path ''RECORD'' = Inr ()" "distinct (map entry_path sample_entries)"
    by code_simp+
  have files: "\<forall>e \<in> set sample_entries. sample_file (entry_source e) = Inr (?content e)"
    by (simp add: sample_file_def)
  have lines: "concat (map (\<lambda>e. csv_field (entry_path e) @ '',sha256='' @ base64_url_no_pad [255, 1]
       @ '','' @ to_decimal (length (?content e)) @ [CHR 0x0A]) (sort_key entry_path sample_entries))
       @ csv_field ''RECORD'' @ '',,'' @ [CHR 0x0A] =
     ''pkg/a.py,sha256=_wE,3'' @ [CHR 0x0A] @ ''pkg/b.py,sha256=_wE,0'' @ [CHR 0x0A] @
          ''RECORD,,'' @ [CHR 0x0A]"
    by code_simp
  show ?thesis
    using wheel_record_lines [OF hyps files, of "\<lambda>_. [255, 1]"] lines by metis
qed

end
