(* ===== verification/Leases.thy ===== *)
theory Leases
  imports Errors
begin

text \<open>
  The exclusive lease over a managed build target (ost-build/src/lease.rs).  The parts of the
  operating system and of serde_json the code calls are the fields of \<open>lease_os\<close>; what the code
  relies on of them is \<open>os_contract\<close>.  Processes that acquire, hold, release and abandon the
  lease of one target interleave as the steps of \<open>lease_step\<close>.
\<close>

section \<open>Modes and records\<close>

text \<open>A duration in nanoseconds.\<close>

definition duration_max :: nat where
  "duration_max = (2 ^ 64 - 1) * 10 ^ 9 + 999999999"

definition from_secs :: "nat \<Rightarrow> nat" where
  "from_secs secs = secs * 10 ^ 9"

definition as_secs :: "nat \<Rightarrow> nat" where
  "as_secs d = d div 10 ^ 9"

definition POLL_INTERVAL :: nat where
  "POLL_INTERVAL = 250 * 10 ^ 6"

datatype lease_mode = Fail | Wait nat | ReadOnly

definition lease_mode_parse :: "string \<Rightarrow> nat \<Rightarrow> lease_mode res" where
  "lease_mode_parse value timeout_secs =
     (if value = ''fail'' then Inr Fail
      else if value = ''wait''
      then Inr (Wait (if timeout_secs = 0 then duration_max else from_secs timeout_secs))
      else if value = ''read-only'' \<or> value = ''readonly'' then Inr ReadOnly
      else Inl (usage (''unknown busy policy '' @ quoted value @ '' (expected fail, wait, or read-only)'')))"

record lease_owner =
  owner_schema :: string
  owner_invocation :: string
  owner_command :: string
  owner_target :: string
  owner_pid :: nat
  owner_host :: string
  owner_acquired_unix :: nat

definition TARGET_LEASE_SCHEMA :: string where
  "TARGET_LEASE_SCHEMA = ''openstrata.target-lease/v1''"

definition TARGET_BUSY_CODE :: string where
  "TARGET_BUSY_CODE = ''TARGET_BUSY''"

definition describe_owner :: "lease_owner \<Rightarrow> string" where
  "describe_owner owner =
     owner_command owner @ '' (invocation '' @ owner_invocation owner @ '', pid '' @
     to_decimal (owner_pid owner) @ '' on '' @ owner_host owner @ '')''"

datatype stale_reason = OwnerExited | PidReused | ForeignHost

fun stale_as_str :: "stale_reason \<Rightarrow> string" where
  "stale_as_str OwnerExited = ''owner-exited''"
| "stale_as_str PidReused = ''pid-reused''"
| "stale_as_str ForeignHost = ''foreign-host''"

fun stale_describe :: "stale_reason \<Rightarrow> string" where
  "stale_describe OwnerExited = ''the previous owner is no longer running''"
| "stale_describe PidReused =
     ''a live process now carries the previous owner'' @ [CHR 0x27] @ ''s pid; the pid was recycled''"
| "stale_describe ForeignHost =
     ''the previous owner ran on another host, where this host cannot verify process identity''"

record stale_takeover =
  takeover_previous :: lease_owner
  takeover_reason :: stale_reason

definition describe_takeover :: "stale_takeover \<Rightarrow> string" where
  "describe_takeover t =
     ''took over the target lease from '' @ describe_owner (takeover_previous t) @ '' '' @
     [CHR 0xE2, CHR 0x80, CHR 0x94] @ '' '' @ stale_describe (takeover_reason t)"

record target_lease =
  lease_owner_of :: "lease_owner option"
  lease_takeover :: "stale_takeover option"
  lease_read_only :: bool

definition lease_invocation :: "target_lease \<Rightarrow> string option" where
  "lease_invocation lease = map_option owner_invocation (lease_owner_of lease)"

section \<open>The operations\<close>

text \<open>
  \<open>os_flock holder\<close>: whether a non-blocking exclusive lock is granted when \<open>holder\<close> has it;
  \<open>os_checked_add\<close>: \<^verbatim>\<open>Instant::checked_add\<close>; the other fields are the host name, process
  liveness and serde_json on owner records.
\<close>

record lease_os =
  os_flock :: "nat option \<Rightarrow> bool"
  os_checked_add :: "nat \<Rightarrow> nat \<Rightarrow> nat option"
  os_host :: string
  os_live :: "nat \<Rightarrow> bool"
  os_to_json :: "lease_owner \<Rightarrow> string"
  os_from_json :: "string \<Rightarrow> lease_owner option"

definition classify_stale :: "lease_os \<Rightarrow> lease_owner \<Rightarrow> stale_reason" where
  "classify_stale os previous =
     (if owner_host previous \<noteq> os_host os then ForeignHost
      else if os_live os (owner_pid previous) then PidReused
      else OwnerExited)"

definition read_owner_from :: "lease_os \<Rightarrow> string \<Rightarrow> lease_owner option" where
  "read_owner_from os body = (if trim body = [] then None else os_from_json os body)"

text \<open>\<^verbatim>\<open>read_owner\<close>: opening the record for reading may fail.\<close>

definition read_owner :: "lease_os \<Rightarrow> string option \<Rightarrow> lease_owner option" where
  "read_owner os opened = (case opened of None \<Rightarrow> None | Some body \<Rightarrow> read_owner_from os body)"

definition owner_record :: "lease_os \<Rightarrow> lease_owner \<Rightarrow> string" where
  "owner_record os owner = os_to_json os owner @ [CHR 0x0A]"

definition lease_owner_new :: "lease_os \<Rightarrow> string \<Rightarrow> string \<Rightarrow> string \<Rightarrow> nat \<Rightarrow> nat \<Rightarrow> lease_owner" where
  "lease_owner_new os invocation command target pid now =
     \<lparr> owner_schema = TARGET_LEASE_SCHEMA, owner_invocation = invocation, owner_command = command,
       owner_target = target, owner_pid = pid, owner_host = os_host os, owner_acquired_unix = now \<rparr>"

definition busy_error :: "lease_os \<Rightarrow> string option \<Rightarrow> string \<Rightarrow> lease_mode \<Rightarrow> error" where
  "busy_error os opened target mode =
     (let held_by = (case read_owner os opened of
            None \<Rightarrow> [] | Some owner \<Rightarrow> '' held by '' @ describe_owner owner);
          waited = (case mode of
            Wait timeout \<Rightarrow> if timeout \<noteq> duration_max
              then '' after waiting '' @ to_decimal (as_secs timeout) @ ''s'' else []
          | _ \<Rightarrow> [])
      in with_hint (''wait for it to finish, or choose a policy explicitly: `--on-busy wait` (with '' @
           ''`--busy-timeout <secs>`) to queue behind it, or `--on-busy read-only` to proceed without '' @
           ''writing the target'')
         (coded TARGET_BUSY_CODE Precondition
           (''target '' @ quoted target @ '' is being written by another invocation'' @ held_by @ waited)))"

text \<open>The deadline of an acquisition: none, never (the addition overflowed), or an instant.\<close>

definition lease_deadline :: "lease_os \<Rightarrow> lease_mode \<Rightarrow> nat \<Rightarrow> (nat option) option" where
  "lease_deadline os mode now =
     (case mode of Wait timeout \<Rightarrow> Some (os_checked_add os now timeout) | _ \<Rightarrow> None)"

definition still_waiting :: "(nat option) option \<Rightarrow> nat \<Rightarrow> bool" where
  "still_waiting deadline now =
     (case deadline of
        None \<Rightarrow> False
      | Some None \<Rightarrow> True
      | Some (Some instant) \<Rightarrow> now < instant)"

definition read_only_lease :: "lease_os \<Rightarrow> string option \<Rightarrow> target_lease" where
  "read_only_lease os opened =
     \<lparr> lease_owner_of = read_owner os opened, lease_takeover = None, lease_read_only = True \<rparr>"

definition fresh_lease :: "lease_os \<Rightarrow> string \<Rightarrow> lease_owner \<Rightarrow> target_lease" where
  "fresh_lease os body owner =
     \<lparr> lease_owner_of = Some owner,
       lease_takeover = map_option (\<lambda>previous.
         \<lparr> takeover_previous = previous, takeover_reason = classify_stale os previous \<rparr>)
         (read_owner_from os body),
       lease_read_only = False \<rparr>"

text \<open>
  The polling loop of \<^verbatim>\<open>acquire\<close>, as one process sees it: the n-th attempt gives a lock, busy or
  an error, and \<open>clock n\<close> is the instant read after a busy n-th attempt.  The fuel bounds the
  attempts; running out of it is \<^const>\<open>None\<close>.
\<close>

fun acquire_loop ::
  "nat \<Rightarrow> (nat option) option \<Rightarrow> (nat \<Rightarrow> bool res) \<Rightarrow> (nat \<Rightarrow> nat) \<Rightarrow> error \<Rightarrow> nat \<Rightarrow> (nat res) option"
where
  "acquire_loop 0 deadline attempt clock busy n = None"
| "acquire_loop (Suc fuel) deadline attempt clock busy n =
     (case attempt n of
        Inl e \<Rightarrow> Some (Inl e)
      | Inr True \<Rightarrow> Some (Inr n)
      | Inr False \<Rightarrow>
          if \<not> still_waiting deadline (clock n) then Some (Inl busy)
          else acquire_loop fuel deadline attempt clock busy (Suc n))"

section \<open>Processes sharing one target\<close>

datatype phase =
    Idle
  | Acquiring lease_mode "(nat option) option"
  | Locked
  | Leased target_lease
  | Releasing
  | Refused error

record lease_state =
  lock_holder :: "nat option"
  lock_body :: string
  lease_clock :: nat
  phases :: "nat \<Rightarrow> phase"

definition lease_init :: "string \<Rightarrow> lease_state" where
  "lease_init body = \<lparr> lock_holder = None, lock_body = body, lease_clock = 0, phases = (\<lambda>_. Idle) \<rparr>"

definition go :: "nat \<Rightarrow> phase \<Rightarrow> lease_state \<Rightarrow> lease_state" where
  "go h p st = st \<lparr> phases := (phases st)(h := p) \<rparr>"

text \<open>
  One rule per observable step.  The steps that leave a record behind (a process that dies or
  drops its lease without \<^verbatim>\<open>release\<close>, a failed write, a truncation whose error is ignored) are
  only there when \<open>clean\<close> is false.
\<close>

inductive lease_step :: "lease_os \<Rightarrow> bool \<Rightarrow> lease_state \<Rightarrow> lease_state \<Rightarrow> bool"
  for os :: lease_os and clean :: bool
where
  read_only: "phases st h = Idle \<Longrightarrow> opened = None \<or> opened = Some (lock_body st) \<Longrightarrow>
    lease_step os clean st (go h (Leased (read_only_lease os opened)) st)"
| start: "phases st h = Idle \<Longrightarrow> mode \<noteq> ReadOnly \<Longrightarrow>
    lease_step os clean st (go h (Acquiring mode (lease_deadline os mode (lease_clock st))) st)"
| lock: "phases st h = Acquiring mode deadline \<Longrightarrow> os_flock os (lock_holder st) \<Longrightarrow>
    lease_step os clean st (go h Locked (st \<lparr> lock_holder := Some h \<rparr>))"
| poll: "phases st h = Acquiring mode deadline \<Longrightarrow> \<not> os_flock os (lock_holder st) \<Longrightarrow>
    still_waiting deadline (lease_clock st) \<Longrightarrow> lease_clock st + POLL_INTERVAL \<le> later \<Longrightarrow>
    lease_step os clean st (st \<lparr> lease_clock := later \<rparr>)"
| busy: "phases st h = Acquiring mode deadline \<Longrightarrow> \<not> os_flock os (lock_holder st) \<Longrightarrow>
    \<not> still_waiting deadline (lease_clock st) \<Longrightarrow> opened = None \<or> opened = Some (lock_body st) \<Longrightarrow>
    lease_step os clean st (go h (Refused (busy_error os opened target mode)) st)"
| lock_error: "phases st h = Acquiring mode deadline \<Longrightarrow>
    lease_step os clean st (go h (Refused (Io path message)) st)"
| own: "phases st h = Locked \<Longrightarrow> owner = lease_owner_new os invocation command target pid now \<Longrightarrow>
    lease_step os clean st
      (go h (Leased (fresh_lease os (lock_body st) owner)) (st \<lparr> lock_body := owner_record os owner \<rparr>))"
| own_error: "phases st h = Locked \<Longrightarrow> \<not> clean \<Longrightarrow>
    lease_step os clean st (go h (Refused (Io path message)) (st \<lparr> lock_holder := None, lock_body := partial \<rparr>))"
| clear: "phases st h = Leased lease \<Longrightarrow> \<not> lease_read_only lease \<Longrightarrow>
    lease_step os clean st (go h Releasing (st \<lparr> lock_body := [] \<rparr>))"
| clear_failed: "phases st h = Leased lease \<Longrightarrow> \<not> lease_read_only lease \<Longrightarrow> \<not> clean \<Longrightarrow>
    lease_step os clean st (go h Releasing st)"
| unlock: "phases st h = Releasing \<Longrightarrow>
    lease_step os clean st (go h Idle (st \<lparr> lock_holder := None \<rparr>))"
| release_read_only: "phases st h = Leased lease \<Longrightarrow> lease_read_only lease \<Longrightarrow>
    lease_step os clean st (go h Idle st)"
| abandon: "phases st h \<in> {Locked, Releasing} \<or> (\<exists>lease. phases st h = Leased lease \<and> \<not> lease_read_only lease) \<Longrightarrow>
    \<not> clean \<Longrightarrow> lease_step os clean st (go h Idle (st \<lparr> lock_holder := None \<rparr>))"
| retry: "phases st h = Refused e \<Longrightarrow> lease_step os clean st (go h Idle st)"

inductive lease_reachable :: "lease_os \<Rightarrow> bool \<Rightarrow> string \<Rightarrow> lease_state \<Rightarrow> bool"
  for os :: lease_os and clean :: bool and body :: string
where
  initial: "lease_reachable os clean body (lease_init body)"
| next_step: "lease_reachable os clean body st \<Longrightarrow> lease_step os clean st st' \<Longrightarrow>
    lease_reachable os clean body st'"

inductive_cases lease_step_elim: "lease_step os clean st st'"

section \<open>The holder and its record\<close>

text \<open>
  What the code relies on: \<^verbatim>\<open>flock\<close> refuses a lock another handle holds, and serde_json reads
  back what it wrote, which is not blank.
\<close>

definition os_contract :: "lease_os \<Rightarrow> bool" where
  "os_contract os \<longleftrightarrow>
     (\<forall>h. \<not> os_flock os (Some h))
     \<and> (\<forall>owner. os_from_json os (owner_record os owner) = Some owner \<and> trim (owner_record os owner) \<noteq> [])"

text \<open>The phases in which a process may write the target or the record.\<close>

fun writing :: "phase \<Rightarrow> bool" where
  "writing Locked = True"
| "writing (Leased lease) = (\<not> lease_read_only lease)"
| "writing Releasing = True"
| "writing _ = False"

definition lease_inv :: "lease_os \<Rightarrow> lease_state \<Rightarrow> bool" where
  "lease_inv os st \<longleftrightarrow>
     (\<forall>h. writing (phases st h) \<longleftrightarrow> lock_holder st = Some h)
     \<and> (\<forall>h lease. phases st h = Leased lease \<and> \<not> lease_read_only lease \<longrightarrow>
          (\<exists>owner. lease_owner_of lease = Some owner \<and> lock_body st = owner_record os owner))"

lemma phases_go [simp]: "phases (go h p st) = (phases st)(h := p)"
  "lock_holder (go h p st) = lock_holder st" "lock_body (go h p st) = lock_body st"
  "lease_clock (go h p st) = lease_clock st"
  by (simp_all add: go_def)

lemma lease_kinds [simp]:
  "lease_read_only (read_only_lease os opened)" "\<not> lease_read_only (fresh_lease os body owner)"
  "lease_owner_of (fresh_lease os body owner) = Some owner"
  by (simp_all add: read_only_lease_def fresh_lease_def)

definition recorded :: "lease_os \<Rightarrow> string \<Rightarrow> phase \<Rightarrow> bool" where
  "recorded os body p \<longleftrightarrow> (\<forall>lease. p = Leased lease \<and> \<not> lease_read_only lease \<longrightarrow>
     (\<exists>owner. lease_owner_of lease = Some owner \<and> body = owner_record os owner))"

lemma lease_inv_iff:
  "lease_inv os st \<longleftrightarrow> (\<forall>h. (writing (phases st h) \<longleftrightarrow> lock_holder st = Some h)
     \<and> recorded os (lock_body st) (phases st h))"
  by (auto simp: lease_inv_def recorded_def)

lemma recorded_quiet: "\<not> writing p \<Longrightarrow> recorded os body p"
  by (auto simp: recorded_def)

text \<open>A process outside the writing phases moves to another such phase.\<close>

lemma lease_inv_quiet:
  assumes "lease_inv os st" "\<not> writing (phases st h)" "\<not> writing p"
  shows "lease_inv os (go h p st)"
  using assms unfolding lease_inv_iff by (auto intro: recorded_quiet)

text \<open>The writing process moves on, with the record it leaves; nobody else is writing.\<close>

lemma lease_inv_writer:
  assumes "lease_inv os st" "writing (phases st h)"
    and "phases st' = (phases st)(h := p)" "lock_holder st' = (if writing p then Some h else None)"
    and "recorded os (lock_body st') p"
  shows "lease_inv os st'"
proof -
  have "lock_holder st = Some h"
    using assms(1,2) by (auto simp: lease_inv_iff)
  then have "\<not> writing (phases st k)" if "k \<noteq> h" for k
    using assms(1) that by (auto simp: lease_inv_iff)
  with assms(3-5) show ?thesis
    by (auto simp: lease_inv_iff intro: recorded_quiet)
qed

lemma lease_inv_lock:
  assumes "lease_inv os st" "lock_holder st = None"
  shows "lease_inv os (go h Locked (st \<lparr> lock_holder := Some h \<rparr>))"
  using assms by (auto simp: lease_inv_iff recorded_def)

lemma lease_inv_clock: "lease_inv os st \<Longrightarrow> lease_inv os (st \<lparr> lease_clock := later \<rparr>)"
  by (simp add: lease_inv_iff)

lemma lease_inv_holder: "lease_inv os st \<Longrightarrow> writing (phases st h) \<Longrightarrow> lock_holder st = Some h"
  by (simp add: lease_inv_iff)

lemma lease_step_inv:
  assumes "lease_step os clean st st'" "os_contract os" "lease_inv os st"
  shows "lease_inv os st'"
proof -
  note writer = lease_inv_writer [OF assms(3)] and holder = lease_inv_holder [OF assms(3)]
  from assms(1) show ?thesis
  proof (cases rule: lease_step.cases)
    case (lock h mode deadline)
    then show ?thesis
      using assms(2,3) lease_inv_lock by (cases "lock_holder st") (auto simp: os_contract_def)
  next
    case (own h owner invocation command target pid now)
    then show ?thesis
      using writer [of h st' "Leased (fresh_lease os (lock_body st) owner)"] holder [of h]
      by (simp add: recorded_def)
  next
    case (own_error h path message partial)
    then show ?thesis
      using writer [of h st' "Refused (Io path message)"] by (simp add: recorded_def)
  next
    case (clear h lease)
    then show ?thesis
      using writer [of h st' Releasing] holder [of h] by (simp add: recorded_def)
  next
    case (clear_failed h lease)
    then show ?thesis
      using writer [of h st' Releasing] holder [of h] by (simp add: recorded_def)
  next
    case (unlock h)
    then show ?thesis
      using writer [of h st' Idle] by (simp add: recorded_def)
  next
    case (abandon h)
    then have "writing (phases st h)"
      by auto
    with abandon show ?thesis
      using writer [of h st' Idle] by (simp add: recorded_def)
  qed (auto intro: lease_inv_quiet lease_inv_clock simp: assms(3))
qed

lemma lease_reachable_inv:
  assumes "lease_reachable os clean body st" "os_contract os"
  shows "lease_inv os st"
  using assms(1)
proof (induction rule: lease_reachable.induct)
  case initial
  show ?case by (simp add: lease_inv_def lease_init_def)
next
  case (next_step st st')
  then show ?case using lease_step_inv assms(2) by blast
qed

text \<open>
  C6. Whatever processes share a target and however they interleave, die or fail, at most one
  of them is between taking the lock and letting it go, and while it holds its lease the record
  in the file is its own: a process that is told the target is busy reads the identity of the
  real holder, and no release erases the record of a later owner.
\<close>

theorem lease_exclusive:
  assumes "os_contract os" and "lease_reachable os clean body st"
    and "phases st h = Leased lease" "\<not> lease_read_only lease"
  shows "\<exists>owner. lease_owner_of lease = Some owner
     \<and> read_owner os (Some (lock_body st)) = Some owner
     \<and> (\<forall>k. writing (phases st k) \<longleftrightarrow> k = h)"
proof -
  have "lease_inv os st"
    using lease_reachable_inv assms(1,2) by blast
  then obtain owner where "lease_owner_of lease = Some owner" "lock_body st = owner_record os owner"
    using assms(3,4) unfolding lease_inv_def by blast
  moreover have "lock_holder st = Some h"
    using lease_inv_holder [OF \<open>lease_inv os st\<close>, of h] assms(3,4) by simp
  ultimately show ?thesis
    using \<open>lease_inv os st\<close> assms(1) by (auto simp: lease_inv_def os_contract_def read_owner_def read_owner_from_def)
qed

section \<open>Clean exits\<close>

definition clean_inv :: "lease_os \<Rightarrow> lease_state \<Rightarrow> bool" where
  "clean_inv os st \<longleftrightarrow> lease_inv os st
     \<and> (lock_holder st = None \<longrightarrow> lock_body st = [])
     \<and> (\<forall>h. phases st h \<in> {Locked, Releasing} \<longrightarrow> lock_body st = [])
     \<and> (\<forall>h lease. phases st h = Leased lease \<longrightarrow> lease_takeover lease = None)"

lemma read_owner_from_empty: "read_owner_from os [] = None"
proof -
  have "trim [] = []"
    by (rule trim_id) simp
  then show ?thesis by (simp add: read_owner_from_def)
qed

lemma clean_takeovers:
  "lease_takeover (read_only_lease os opened) = None" "lease_takeover (fresh_lease os [] owner) = None"
  by (simp_all add: read_only_lease_def fresh_lease_def read_owner_from_empty)

lemma clean_step_inv:
  assumes "lease_step os True st st'" "os_contract os" "clean_inv os st"
  shows "clean_inv os st'"
proof -
  have inv: "lease_inv os st'" and st: "lease_inv os st"
    using assms lease_step_inv by (auto simp: clean_inv_def)
  have free: "lock_holder st = None" if "os_flock os (lock_holder st)"
    using that assms(2) by (cases "lock_holder st") (auto simp: os_contract_def)
  have alone: "phases st k \<notin> {Locked, Releasing}" if "writing (phases st h)" "k \<noteq> h" for h k
  proof -
    have "\<not> writing (phases st k)"
      using st that lease_inv_holder [OF st, of h] by (auto simp: lease_inv_def)
    then show ?thesis by (cases "phases st k") auto
  qed
  from assms(1) show ?thesis
  proof (cases rule: lease_step.cases)
    case (own h owner invocation command target pid now)
    then have "lock_body st = []" "lock_holder st = Some h"
      using assms(3) lease_inv_holder [OF st, of h] by (auto simp: clean_inv_def)
    with own show ?thesis
      using inv assms(3) alone [of h] by (auto simp: clean_inv_def clean_takeovers)
  next
    case (lock h mode deadline)
    then show ?thesis
      using inv assms(3) free by (auto simp: clean_inv_def)
  next
    case (unlock h)
    then show ?thesis
      using inv assms(3) by (auto simp: clean_inv_def)
  qed (use inv assms(3) in \<open>auto simp: clean_inv_def clean_takeovers\<close>)
qed

lemma clean_reachable_inv:
  assumes "lease_reachable os True [] st" "os_contract os"
  shows "clean_inv os st"
  using assms(1)
proof (induction rule: lease_reachable.induct)
  case initial
  show ?case by (simp add: clean_inv_def lease_inv_def lease_init_def)
next
  case (next_step st st')
  then show ?case using clean_step_inv assms(2) by blast
qed

text \<open>
  Clean exits leave nothing to explain: when every owner releases its lease (and no write
  of the record fails), no acquisition reports a stale takeover, and whenever the target is
  free the record is empty.
\<close>

lemma clean_release_no_takeover:
  assumes "os_contract os" and "lease_reachable os True [] st"
  shows "(phases st h = Leased lease \<longrightarrow> lease_takeover lease = None)
     \<and> (lock_holder st = None \<longrightarrow> read_owner os (Some (lock_body st)) = None)"
  using clean_reachable_inv [OF assms(2,1)] by (auto simp: clean_inv_def read_owner_def read_owner_from_empty)

section \<open>Waiting ends\<close>

lemma acquire_loop_result:
  "acquire_loop fuel deadline attempt clock busy n = Some r \<Longrightarrow>
   (case r of Inr m \<Rightarrow> n \<le> m \<and> attempt m = Inr True \<and> (\<forall>i. n \<le> i \<and> i < m \<longrightarrow> attempt i = Inr False)
    | Inl e \<Rightarrow> (\<exists>m \<ge> n. attempt m = Inl e)
        \<or> e = busy \<and> (\<exists>m \<ge> n. attempt m = Inr False \<and> \<not> still_waiting deadline (clock m)))"
proof (induction fuel arbitrary: n)
  case (Suc fuel)
  show ?case
  proof (cases "attempt n = Inr False \<and> still_waiting deadline (clock n)")
    case True
    then have "acquire_loop fuel deadline attempt clock busy (Suc n) = Some r"
      using Suc.prems by simp
    note IH = Suc.IH [OF this]
    show ?thesis
    proof (cases r)
      case (Inl e)
      with IH show ?thesis by (auto intro: Suc_leD)
    next
      case (Inr m)
      have "attempt i = Inr False" if "n \<le> i" "i < m" for i
        using IH Inr True that by (cases "i = n") auto
      with IH Inr show ?thesis by auto
    qed
  next
    case False
    then show ?thesis
      using Suc.prems by (auto split: sum.splits bool.splits if_splits)
  qed
qed simp

lemma acquire_loop_returns:
  assumes "\<not> still_waiting deadline (clock (n + k))"
  shows "acquire_loop (Suc k) deadline attempt clock busy n \<noteq> None"
  using assms
proof (induction k arbitrary: n)
  case 0
  then show ?case by (auto split: sum.splits bool.splits)
next
  case (Suc k)
  then have "acquire_loop (Suc k) deadline attempt clock busy (Suc n) \<noteq> None"
    by simp
  then show ?case
    by (simp only: acquire_loop.simps(2) [of "Suc k"]) (auto split: sum.splits bool.splits)
qed

text \<open>
  C38. An acquisition with a bounded wait ends: if every pause lasts at least the poll interval,
  the loop returns after at most as many attempts as intervals fit before the deadline, plus
  one; it returns a lock that the last attempt was granted (all earlier ones were busy), an
  error of an attempt, or the busy error after an attempt that found the deadline passed.
\<close>

theorem bounded_wait_ends:
  assumes "deadline = None \<or> deadline = Some (Some instant)"
    and "\<And>n. now + n * POLL_INTERVAL \<le> clock n"
    and "instant \<le> now + k * POLL_INTERVAL"
  shows "\<exists>r. acquire_loop (Suc k) deadline attempt clock busy 0 = Some r
     \<and> (case r of
          Inr m \<Rightarrow> attempt m = Inr True \<and> (\<forall>i < m. attempt i = Inr False)
        | Inl e \<Rightarrow> (\<exists>m. attempt m = Inl e)
            \<or> e = busy \<and> (\<exists>m. attempt m = Inr False \<and> \<not> still_waiting deadline (clock m)))"
proof -
  have "\<not> still_waiting deadline (clock (0 + k))"
    using assms(1,3) assms(2) [of k] by (auto simp: still_waiting_def)
  then obtain r where r: "acquire_loop (Suc k) deadline attempt clock busy 0 = Some r"
    using acquire_loop_returns by blast
  from acquire_loop_result [OF r] r show ?thesis
    by (auto split: sum.splits)
qed

theorem bounded_wait_ends_witness:
  "\<exists>r. acquire_loop (Suc 4) (Some (Some (1000 * 10 ^ 6))) (\<lambda>_. Inr False) (\<lambda>n. n * POLL_INTERVAL)
     (usage ''busy'') 0 = Some r \<and> r = Inl (usage ''busy'')"
proof -
  obtain r where "acquire_loop (Suc 4) (Some (Some (1000 * 10 ^ 6))) (\<lambda>_. Inr False) (\<lambda>n. n * POLL_INTERVAL)
       (usage ''busy'') 0 = Some r"
    and "case r of Inr m \<Rightarrow> False | Inl e \<Rightarrow> e = usage ''busy''"
    using bounded_wait_ends [of "Some (Some (1000 * 10 ^ 6))" "1000 * 10 ^ 6" 0 "\<lambda>n. n * POLL_INTERVAL" 4
      "\<lambda>_. Inr False" "usage ''busy''"]
    by (fastforce simp: POLL_INTERVAL_def split: sum.splits)
  then show ?thesis
    by (cases r) simp_all
qed

section \<open>A run\<close>

text \<open>
  A concrete system in which the contract holds: exclusive locks, and a record format that
  escapes every byte and ends every field with a bar.
\<close>

definition enc_field :: "string \<Rightarrow> string" where
  "enc_field s = concat (map (\<lambda>c. [CHR ''c'', c]) s) @ ''|''"

fun dec_fields :: "string \<Rightarrow> string \<Rightarrow> string list" where
  "dec_fields acc (x # xs) =
     (if x = CHR ''|'' then acc # dec_fields [] xs
      else if x = CHR ''c'' then (case xs of [] \<Rightarrow> [] | c # cs \<Rightarrow> dec_fields (acc @ [c]) cs)
      else [])"
| "dec_fields acc [] = []"

lemma dec_enc_field: "dec_fields acc (enc_field s @ rest) = (acc @ s) # dec_fields [] rest"
  by (induction s arbitrary: acc) (simp_all add: enc_field_def)

definition sample_to_json :: "lease_owner \<Rightarrow> string" where
  "sample_to_json owner =
     ''<'' @ enc_field (owner_schema owner) @ enc_field (owner_invocation owner)
     @ enc_field (owner_command owner) @ enc_field (owner_target owner)
     @ enc_field (to_decimal (owner_pid owner)) @ enc_field (owner_host owner)
     @ enc_field (to_decimal (owner_acquired_unix owner))"

definition sample_from_json :: "string \<Rightarrow> lease_owner option" where
  "sample_from_json body =
     (case dec_fields [] (tl body) of
        [a, b, c, d, e, f, g] \<Rightarrow>
          Some \<lparr> owner_schema = a, owner_invocation = b, owner_command = c, owner_target = d,
                 owner_pid = digits_value 0 e, owner_host = f, owner_acquired_unix = digits_value 0 g \<rparr>
      | _ \<Rightarrow> None)"

definition sample_os :: lease_os where
  "sample_os =
     \<lparr> os_flock = (\<lambda>holder. holder = None), os_checked_add = (\<lambda>a b. Some (a + b)), os_host = ''ci'',
       os_live = (\<lambda>_. False), os_to_json = sample_to_json, os_from_json = sample_from_json \<rparr>"

lemma sample_os_contract: "os_contract sample_os"
proof -
  have "edge_byte (CHR ''<'')"
    by code_simp
  then have "trim (owner_record sample_os owner) \<noteq> []" for owner
    by (simp add: owner_record_def sample_os_def sample_to_json_def trim_nonempty)
  moreover have "sample_from_json (owner_record sample_os owner) = Some owner" for owner
    by (simp add: owner_record_def sample_os_def sample_to_json_def sample_from_json_def dec_enc_field
        to_decimal_value)
  ultimately show ?thesis
    by (simp add: os_contract_def) (simp add: sample_os_def)
qed

definition sample_owner :: lease_owner where
  "sample_owner = lease_owner_new sample_os ''0001'' ''ost build'' ''t'' 7 100"

definition sample_lease :: target_lease where
  "sample_lease = \<lparr> lease_owner_of = Some sample_owner, lease_takeover = None, lease_read_only = False \<rparr>"

definition sample_held :: lease_state where
  "sample_held = \<lparr> lock_holder = Some 0, lock_body = owner_record sample_os sample_owner, lease_clock = 0,
     phases = (\<lambda>_. Idle)(0 := Leased sample_lease) \<rparr>"

lemma sample_held_reachable: "lease_reachable sample_os True [] sample_held"
proof -
  let ?st0 = "lease_init []"
  let ?st1 = "go 0 (Acquiring Fail (lease_deadline sample_os Fail (lease_clock ?st0))) ?st0"
  let ?st2 = "go 0 Locked (?st1 \<lparr> lock_holder := Some 0 \<rparr>)"
  let ?st3 = "go 0 (Leased (fresh_lease sample_os (lock_body ?st2) sample_owner))
    (?st2 \<lparr> lock_body := owner_record sample_os sample_owner \<rparr>)"
  have "lease_reachable sample_os True [] ?st1"
    by (rule next_step [OF initial], rule start) (simp_all add: lease_init_def)
  then have "lease_reachable sample_os True [] ?st2"
    by (rule next_step, intro lock [of _ 0 Fail]) (simp_all add: lease_init_def sample_os_def)
  then have "lease_reachable sample_os True [] ?st3"
    by (rule next_step, intro own) (simp_all add: sample_owner_def)
  moreover have "?st3 = sample_held"
    by (simp add: sample_held_def go_def lease_init_def fresh_lease_def sample_lease_def read_owner_from_empty)
  ultimately show ?thesis by simp
qed

theorem lease_exclusive_witness:
  "lease_reachable sample_os True [] sample_held \<and> phases sample_held 0 = Leased sample_lease
   \<and> read_owner sample_os (Some (lock_body sample_held)) = Some sample_owner
   \<and> (\<forall>k. writing (phases sample_held k) \<longleftrightarrow> k = 0)"
proof -
  have held: "phases sample_held 0 = Leased sample_lease" "\<not> lease_read_only sample_lease"
    by (simp_all add: sample_held_def sample_lease_def)
  show ?thesis
    using lease_exclusive [OF sample_os_contract sample_held_reachable held] sample_held_reachable held(1)
    by (auto simp: sample_lease_def)
qed

lemma clean_release_no_takeover_witness:
  "os_contract sample_os \<and> lease_reachable sample_os True [] sample_held
   \<and> phases sample_held 0 = Leased sample_lease \<and> lease_takeover sample_lease = None"
  using clean_release_no_takeover [OF sample_os_contract sample_held_reachable, of 0 sample_lease]
    sample_os_contract sample_held_reachable
  by (simp add: sample_held_def)

end
