(* ===== verification/Compatibility.thy ===== *)
theory Compatibility
  imports Hosts Versions Encodings References "HOL-Library.Product_Lexorder" "HOL-Library.Option_ord"
begin

text \<open>
  The OpenUSD compatibility identity of a platform (ost-platform/src/model.rs): the approved
  build cells, the identity resolved from a cell and filled in by a producer, the verification
  of its providers against their version constraints, and the selector that names it as an
  OCI tag.  The JSON serialiser and SHA-256 are arguments.
\<close>

section \<open>Platforms\<close>

datatype source_kind = VfxReferencePlatform | CustomSource

datatype platform_status = Draft | Final | Superseded

definition default_status :: platform_status where
  "default_status = Draft"

record platform_source =
  source_kind :: source_kind
  source_status :: platform_status

record openusd_provider =
  op_family :: string
  op_provider :: string
  op_version_from :: string

record openusd_toolchain =
  ot_family :: string
  ot_provider :: string
  ot_version_from :: string
  ot_cxx_standard_from :: string
  ot_runtime :: openusd_provider

record openusd_macos =
  om_sdk :: openusd_provider
  om_deployment_target_from :: string

datatype variant_id = Core | Gl | Vulkan | Metal | Headless | Standard

datatype openusd_builder = BuildUsd | CmakeBuilder

record openusd_variant =
  ov_id :: variant_id
  ov_builders :: "openusd_builder list"
  ov_build_usd_args :: "string list"
  ov_cmake_args :: "string list"
  ov_capabilities :: "string list"

record openusd_cell =
  cell_os :: os
  cell_arch :: arch
  cell_toolchain :: openusd_toolchain
  cell_python :: openusd_provider
  cell_tbb :: openusd_provider
  cell_macos :: "openusd_macos option"
  cell_variants :: "openusd_variant list"

record openusd_policy =
  usd_policy_schema :: nat
  usd_policy_cells :: "openusd_cell list"

text \<open>\<^verbatim>\<open>core\<close> is an insertion-ordered map.\<close>

record platform =
  platform_id :: string
  platform_source :: platform_source
  platform_core :: "(string \<times> string) list"
  platform_openusd :: "openusd_policy option"
  platform_notes :: "string option"

definition platform_component :: "platform \<Rightarrow> string \<Rightarrow> string option" where
  "platform_component p name = map_of (platform_core p) name"

section \<open>Variants and verification stages\<close>

fun variant_as_str :: "variant_id \<Rightarrow> string" where
  "variant_as_str Core = ''core''"
| "variant_as_str Gl = ''gl''"
| "variant_as_str Vulkan = ''vulkan''"
| "variant_as_str Metal = ''metal''"
| "variant_as_str Headless = ''headless''"
| "variant_as_str Standard = ''standard''"

definition is_imaging_capability :: "string \<Rightarrow> bool" where
  "is_imaging_capability c \<longleftrightarrow> c \<in> set [''imaging'', ''opengl'', ''vulkan'', ''metal'']"

fun variant_canonical :: "variant_id \<Rightarrow> string list \<Rightarrow> variant_id option" where
  "variant_canonical Standard capabilities = Some Gl"
| "variant_canonical Headless capabilities =
     (if list_all (\<lambda>c. \<not> is_imaging_capability c) capabilities then Some Core else None)"
| "variant_canonical v capabilities = Some v"

fun variant_is_canonical :: "variant_id \<Rightarrow> bool" where
  "variant_is_canonical Headless = False"
| "variant_is_canonical Standard = False"
| "variant_is_canonical v = True"

datatype verification_status = NotRun | StagePassed | StageFailed

fun verification_status_as_str :: "verification_status \<Rightarrow> string" where
  "verification_status_as_str NotRun = ''not-run''"
| "verification_status_as_str StagePassed = ''passed''"
| "verification_status_as_str StageFailed = ''failed''"

record openusd_verification =
  ver_schema :: nat
  ver_compile :: verification_status
  ver_link :: verification_status
  ver_loader :: verification_status
  ver_physical_device :: verification_status
  ver_render :: verification_status

definition default_verification :: openusd_verification where
  "default_verification =
     \<lparr> ver_schema = 1, ver_compile = NotRun, ver_link = NotRun, ver_loader = NotRun,
       ver_physical_device = NotRun, ver_render = NotRun \<rparr>"

definition managed_build_passed :: openusd_verification where
  "managed_build_passed =
     default_verification \<lparr> ver_compile := StagePassed, ver_link := StagePassed \<rparr>"

definition verification_supported :: "openusd_verification \<Rightarrow> bool" where
  "verification_supported v \<longleftrightarrow> ver_schema v = 1"

section \<open>Resolved identities\<close>

record resolved_usd_provider =
  rp_family :: string
  rp_provider :: string
  rp_version :: "string option"
  rp_constraint :: string

record resolved_toolchain =
  rt_family :: string
  rt_provider :: string
  rt_version :: "string option"
  rt_constraint :: string
  rt_cxx_standard :: string
  rt_runtime :: resolved_usd_provider

record resolved_macos =
  rm_sdk :: resolved_usd_provider
  rm_deployment_target :: string

record compatibility =
  compat_schema :: nat
  compat_platform :: string
  compat_profile :: "string option"
  compat_os :: os
  compat_arch :: arch
  compat_toolchain :: resolved_toolchain
  compat_python :: resolved_usd_provider
  compat_tbb :: resolved_usd_provider
  compat_variant :: variant_id
  compat_capabilities :: "string list"
  compat_producer_version :: "string option"
  compat_consumer_constraint :: "string option"
  compat_macos :: "resolved_macos option"

record source_identity =
  src_repository :: string
  src_revision :: string

record dependency_identity =
  dep_name :: string
  dep_version :: string
  dep_source :: source_identity
  dep_archive_digest :: "string option"

definition exact_identity_component :: "string \<Rightarrow> bool" where
  "exact_identity_component value \<longleftrightarrow> value \<noteq> [] \<and> value = trim value"

definition is_canonical_sha256 :: "string \<Rightarrow> bool" where
  "is_canonical_sha256 value =
     (case strip_prefix ''sha256:'' value of
        None \<Rightarrow> False
      | Some hex \<Rightarrow> length hex = 64
          \<and> list_all (\<lambda>b. is_ascii_digit b \<or> byte_in (CHR ''a'') (CHR ''f'') b) hex)"

definition source_verified :: "source_identity \<Rightarrow> bool" where
  "source_verified s \<longleftrightarrow>
     exact_identity_component (src_repository s) \<and> exact_identity_component (src_revision s)"

definition dependency_verified :: "dependency_identity \<Rightarrow> bool" where
  "dependency_verified d \<longleftrightarrow>
     exact_identity_component (dep_name d)
     \<and> exact_identity_component (dep_version d)
     \<and> source_verified (dep_source d)
     \<and> (case dep_archive_digest d of None \<Rightarrow> True | Some v \<Rightarrow> is_canonical_sha256 v)"

text \<open>The derived order of dependencies: their fields in declaration order.\<close>

definition dependency_key ::
  "dependency_identity \<Rightarrow> string \<times> string \<times> string \<times> string \<times> string option"
where
  "dependency_key d =
     (dep_name d, dep_version d, src_repository (dep_source d), src_revision (dep_source d),
      dep_archive_digest d)"

section \<open>Version constraints\<close>

definition numeric_part :: "string \<Rightarrow> nat option" where
  "numeric_part p = (if p \<noteq> [] \<and> list_all is_ascii_digit p then parse_u64 p else None)"

definition numeric_version :: "string \<Rightarrow> (nat list) option" where
  "numeric_version value =
     (let v = trim value
      in if v = [] then None else collect_opt (map numeric_part (split_char (CHR ''.'') v)))"

definition is_wildcard :: "string \<Rightarrow> bool" where
  "is_wildcard p \<longleftrightarrow> p = ''x'' \<or> p = ''X'' \<or> p = ''*''"

definition comparison_floor_version :: "string \<Rightarrow> (nat list) option" where
  "comparison_floor_version value =
     numeric_version (join ''.''
       (takeWhile (\<lambda>p. \<not> is_wildcard p) (split_char (CHR ''.'') (trim value))))"

definition compare_numeric_versions :: "nat list \<Rightarrow> nat list \<Rightarrow> ordering" where
  "compare_numeric_versions left right = cmp_loop left right [0..<max (length left) (length right)]"

definition constraint_operators :: "string list" where
  "constraint_operators = [''>='', ''<='', ''>'', ''<'', ''='']"

fun operator_accepts :: "string \<Rightarrow> ordering \<Rightarrow> bool" where
  "operator_accepts op ord =
     (if op = ''>='' then ord = Greater \<or> ord = Equal
      else if op = ''<='' then ord = Less \<or> ord = Equal
      else if op = ''>'' then ord = Greater
      else if op = ''<'' then ord = Less
      else ord = Equal)"

text \<open>The loop over the operators: the first that starts the constraint decides.\<close>

fun operator_loop :: "nat list \<Rightarrow> string \<Rightarrow> string list \<Rightarrow> bool option" where
  "operator_loop observed constraint [] = None"
| "operator_loop observed constraint (op # ops) =
     (case strip_prefix op constraint of
        None \<Rightarrow> operator_loop observed constraint ops
      | Some required \<Rightarrow>
          Some (case comparison_floor_version required of
             None \<Rightarrow> False
           | Some floor \<Rightarrow> operator_accepts op (compare_numeric_versions observed floor)))"

text \<open>
  The loop over the parts of a dotted constraint; the second list holds the observed numbers
  from the current index on.
\<close>

fun dotted_loop :: "string list \<Rightarrow> nat list \<Rightarrow> bool" where
  "dotted_loop [] observed = True"
| "dotted_loop (part # parts) observed =
     (if is_wildcard part then list_all is_wildcard (part # parts)
      else case parse_u64 part of
        None \<Rightarrow> False
      | Some required \<Rightarrow>
          (case observed of
             [] \<Rightarrow> False
           | v # vs \<Rightarrow> v = required \<and> dotted_loop parts vs))"

definition version_satisfies_constraint :: "string \<Rightarrow> string \<Rightarrow> bool" where
  "version_satisfies_constraint observed constraint =
     (case numeric_version observed of
        None \<Rightarrow> False
      | Some numbers \<Rightarrow>
          (let c = trim constraint
           in if c = [] then False
              else case operator_loop numbers c constraint_operators of
                Some accepted \<Rightarrow> accepted
              | None \<Rightarrow> dotted_loop (split_char (CHR ''.'') c) numbers))"

definition runtime_floor_constraint :: "string \<Rightarrow> string" where
  "runtime_floor_constraint value =
     (let v = trim value
      in if list_ex (\<lambda>op. starts_with op v) constraint_operators then v else ''>='' @ v)"

section \<open>Verification\<close>

definition blank :: "string \<Rightarrow> bool" where
  "blank s \<longleftrightarrow> trim s = []"

definition blank_option :: "string option \<Rightarrow> bool" where
  "blank_option s = (case s of None \<Rightarrow> True | Some v \<Rightarrow> blank v)"

definition observed_satisfies :: "string option \<Rightarrow> string \<Rightarrow> bool" where
  "observed_satisfies version constraint =
     (case version of None \<Rightarrow> False | Some v \<Rightarrow> version_satisfies_constraint v constraint)"

definition provider_is_verified :: "resolved_usd_provider \<Rightarrow> bool" where
  "provider_is_verified p \<longleftrightarrow>
     \<not> blank (rp_family p) \<and> \<not> blank (rp_provider p) \<and> \<not> blank (rp_constraint p)
     \<and> observed_satisfies (rp_version p) (rp_constraint p)"

definition provider_failure :: "string \<Rightarrow> resolved_usd_provider \<Rightarrow> string option" where
  "provider_failure label p =
     (let name = trim (rp_provider p);
          named = (if name = [] then label else label @ '' provider '' @ quoted name)
      in if blank (rp_family p) then Some (named @ '' declares no family (unverified)'')
         else if name = [] then Some (label @ '' declares no provider (unverified)'')
         else if blank (rp_constraint p)
         then Some (named @ '' declares no version constraint (unverified)'')
         else case rp_version p of
           None \<Rightarrow> Some (named @ '' records no observed version to check against its constraint '' @
             quoted (rp_constraint p) @ '' (unverified)'')
         | Some version \<Rightarrow>
             if \<not> version_satisfies_constraint version (rp_constraint p)
             then Some (named @ '' records version '' @ quoted version @
               '', which does not satisfy its declared constraint '' @ quoted (rp_constraint p) @
               '' (contradictory)'')
             else None)"

definition providers_are_verified :: "compatibility \<Rightarrow> bool" where
  "providers_are_verified c \<longleftrightarrow>
     (let t = compat_toolchain c
      in \<not> blank (compat_platform c)
         \<and> \<not> blank (rt_family t) \<and> \<not> blank (rt_provider t)
         \<and> \<not> blank (rt_constraint t) \<and> \<not> blank (rt_cxx_standard t)
         \<and> observed_satisfies (rt_version t) (rt_constraint t)
         \<and> provider_is_verified (rt_runtime t)
         \<and> provider_is_verified (compat_python c)
         \<and> provider_is_verified (compat_tbb c))"

text \<open>\<^verbatim>\<open>Option::or_else\<close>.\<close>

definition or_else :: "'a option \<Rightarrow> 'a option \<Rightarrow> 'a option" where
  "or_else a b = (case a of None \<Rightarrow> b | Some x \<Rightarrow> Some x)"

definition toolchain_provider :: "resolved_toolchain \<Rightarrow> resolved_usd_provider" where
  "toolchain_provider t =
     \<lparr> rp_family = rt_family t, rp_provider = rt_provider t, rp_version = rt_version t,
       rp_constraint = rt_constraint t \<rparr>"

definition providers_failure :: "compatibility \<Rightarrow> string option" where
  "providers_failure c =
     (let t = compat_toolchain c
      in if blank (compat_platform c)
         then Some ''the compatibility identity declares no platform (unverified)''
         else if blank (rt_cxx_standard t)
         then Some ''the toolchain declares no C++ standard (unverified)''
         else or_else (or_else (or_else
           (provider_failure ''toolchain'' (toolchain_provider t))
           (provider_failure ''toolchain runtime'' (rt_runtime t)))
           (provider_failure ''python'' (compat_python c)))
           (provider_failure ''tbb'' (compat_tbb c)))"

definition macos_failure :: "compatibility \<Rightarrow> string option" where
  "macos_failure c =
     (case compat_macos c of
        Some m \<Rightarrow>
          if compat_os c = Macos
          then or_else (provider_failure ''macos sdk'' (rm_sdk m))
            (if blank (rm_deployment_target m)
             then Some ''the macOS cell declares no deployment target (unverified)'' else None)
          else Some (''a '' @ quoted (os_as_str (compat_os c)) @
            '' cell carries a 'macos' identity block (contradictory)'')
      | None \<Rightarrow>
          if compat_os c = Macos
          then Some ''a macOS cell carries no 'macos' identity block (unverified)''
          else None)"

definition verification_failure :: "compatibility \<Rightarrow> string option" where
  "verification_failure c =
     (if compat_profile c \<noteq> Some ''usd''
      then Some (''the compatibility identity declares profile '' @
        quoted (case compat_profile c of None \<Rightarrow> ''<missing>'' | Some p \<Rightarrow> p) @
        '' rather than 'usd' (unverified)'')
      else if blank_option (compat_producer_version c)
      then Some ''the compatibility identity records no producer OpenUSD version (unverified)''
      else if blank_option (compat_consumer_constraint c)
      then Some ''the compatibility identity declares no consumer OpenUSD constraint (unverified)''
      else if variant_canonical (compat_variant c) (compat_capabilities c) = None
      then Some (''variant '' @ quoted (variant_as_str (compat_variant c)) @
        '' is not canonical for the declared capabilities (contradictory)'')
      else case providers_failure c of
        Some failure \<Rightarrow> Some failure
      | None \<Rightarrow> macos_failure c)"

definition compat_verified :: "compatibility \<Rightarrow> bool" where
  "compat_verified c \<longleftrightarrow>
     \<not> blank (compat_platform c)
     \<and> compat_profile c = Some ''usd''
     \<and> \<not> blank_option (compat_producer_version c)
     \<and> \<not> blank_option (compat_consumer_constraint c)
     \<and> variant_canonical (compat_variant c) (compat_capabilities c) \<noteq> None
     \<and> providers_are_verified c
     \<and> (case compat_macos c of
          Some m \<Rightarrow> compat_os c = Macos \<and> provider_is_verified (rm_sdk m)
            \<and> \<not> blank (rm_deployment_target m)
        | None \<Rightarrow> compat_os c \<noteq> Macos)"

section \<open>Selectors\<close>

text \<open>The document the selector hashes; the fields of the two schemas differ.\<close>

record selector_identity =
  sel_schema :: nat
  sel_platform :: string
  sel_os :: os
  sel_arch :: arch
  sel_artifact_target :: string
  sel_profile :: string
  sel_producer_version :: string
  sel_consumer_constraint :: string
  sel_source :: "source_identity option"
  sel_dependencies :: "dependency_identity list"
  sel_toolchain :: resolved_toolchain
  sel_python :: resolved_usd_provider
  sel_tbb :: resolved_usd_provider
  sel_variant :: variant_id
  sel_macos :: "resolved_macos option"
  sel_capabilities :: "string list"

record legacy_identity =
  leg_schema :: nat
  leg_platform :: string
  leg_os :: os
  leg_arch :: arch
  leg_artifact_target :: string
  leg_openusd_version :: string
  leg_source :: "source_identity option"
  leg_dependencies :: "dependency_identity list"
  leg_toolchain :: resolved_toolchain
  leg_python :: resolved_usd_provider
  leg_tbb :: resolved_usd_provider
  leg_variant :: variant_id
  leg_capabilities :: "string list"

text \<open>
  The serialisation of the two documents (plain structures of strings and numbers, which
  \<^verbatim>\<open>serde_json::to_vec\<close> does not reject) and the hash function.
\<close>

record selector_codec =
  identity_bytes :: "selector_identity \<Rightarrow> byte list"
  legacy_bytes :: "legacy_identity \<Rightarrow> byte list"
  codec_sha :: "byte list \<Rightarrow> byte list"

text \<open>\<^verbatim>\<open>sort_unstable\<close> and \<^verbatim>\<open>dedup\<close>; equal keys are equal values.\<close>

definition sorted_capabilities :: "string list \<Rightarrow> string list" where
  "sorted_capabilities cs = remdups_adj (sort cs)"

definition sorted_dependencies :: "dependency_identity list \<Rightarrow> dependency_identity list" where
  "sorted_dependencies ds = remdups_adj (sort_key dependency_key ds)"

text \<open>
  The digest without its \<^verbatim>\<open>sha256:\<close>, which \<^const>\<open>render_digest\<close> always writes; without it
  the \<^verbatim>\<open>expect\<close> would panic, and there is no selector.
\<close>

definition selector_hash :: "selector_codec \<Rightarrow> byte list \<Rightarrow> string option" where
  "selector_hash cd bytes = strip_prefix ''sha256:'' (sha256_hex (codec_sha cd) bytes)"

definition readable_prefix :: "compatibility \<Rightarrow> variant_id \<Rightarrow> string" where
  "readable_prefix c v =
     ''openusd-'' @ compat_platform c @ ''-'' @ os_as_str (compat_os c) @ ''-'' @
     arch_as_str (compat_arch c) @ ''-'' @ variant_as_str v"

definition tag_char :: "char \<Rightarrow> char" where
  "tag_char ch =
     (if is_ascii_alphanumeric ch \<or> ch \<in> set ''._-'' then ascii_lower ch else CHR ''-'')"

text \<open>A multi-byte character gives a run of separators, which collapses like a single one.\<close>

fun collapse :: "bool \<Rightarrow> string \<Rightarrow> string" where
  "collapse previous_separator [] = []"
| "collapse previous_separator (ch # cs) =
     (if tag_char ch = CHR ''-'' \<and> previous_separator then collapse previous_separator cs
      else tag_char ch # collapse (tag_char ch = CHR ''-'') cs)"

definition is_separator :: "char \<Rightarrow> bool" where
  "is_separator c \<longleftrightarrow> c \<in> set ''._-''"

definition trim_end_separators :: "string \<Rightarrow> string" where
  "trim_end_separators s = rev (dropWhile is_separator (rev s))"

definition tag_prefix :: "string \<Rightarrow> string" where
  "tag_prefix readable =
     (let p = trim_end_separators (dropWhile is_separator (collapse False readable));
          p = (if p = [] then ''openusd'' else p)
      in trim_end_separators (take 63 p))"

definition unverified_inputs ::
  "string \<Rightarrow> string \<Rightarrow> source_identity option \<Rightarrow> dependency_identity list \<Rightarrow> bool"
where
  "unverified_inputs target version source dependencies \<longleftrightarrow>
     blank target \<or> blank version
     \<or> (case source of None \<Rightarrow> False | Some s \<Rightarrow> \<not> source_verified s)
     \<or> list_ex (\<lambda>d. \<not> dependency_verified d) dependencies"

definition legacy_selector ::
  "selector_codec \<Rightarrow> compatibility \<Rightarrow> string \<Rightarrow> string \<Rightarrow> source_identity option
     \<Rightarrow> dependency_identity list \<Rightarrow> string option"
where
  "legacy_selector cd c target version source dependencies =
     (if \<not> providers_are_verified c \<or> unverified_inputs target version source dependencies
      then None
      else map_option (\<lambda>hash. readable_prefix c (compat_variant c) @ ''-'' @ hash)
        (selector_hash cd (legacy_bytes cd
          \<lparr> leg_schema = compat_schema c, leg_platform = compat_platform c, leg_os = compat_os c,
            leg_arch = compat_arch c, leg_artifact_target = target, leg_openusd_version = version,
            leg_source = source, leg_dependencies = sorted_dependencies dependencies,
            leg_toolchain = compat_toolchain c, leg_python = compat_python c,
            leg_tbb = compat_tbb c, leg_variant = compat_variant c,
            leg_capabilities = sorted_capabilities (compat_capabilities c) \<rparr>)))"

definition selector_document ::
  "compatibility \<Rightarrow> string \<Rightarrow> source_identity option \<Rightarrow> dependency_identity list
     \<Rightarrow> variant_id \<Rightarrow> string \<Rightarrow> string \<Rightarrow> string \<Rightarrow> selector_identity"
where
  "selector_document c target source dependencies variant producer profile consumer =
     \<lparr> sel_schema = compat_schema c, sel_platform = compat_platform c, sel_os = compat_os c,
       sel_arch = compat_arch c, sel_artifact_target = target, sel_profile = profile,
       sel_producer_version = producer, sel_consumer_constraint = consumer, sel_source = source,
       sel_dependencies = sorted_dependencies dependencies, sel_toolchain = compat_toolchain c,
       sel_python = compat_python c, sel_tbb = compat_tbb c, sel_variant = variant,
       sel_macos = compat_macos c, sel_capabilities = sorted_capabilities (compat_capabilities c) \<rparr>"

definition selector ::
  "selector_codec \<Rightarrow> compatibility \<Rightarrow> string \<Rightarrow> string \<Rightarrow> source_identity option
     \<Rightarrow> dependency_identity list \<Rightarrow> string option"
where
  "selector cd c target version source dependencies =
     (if compat_schema c = 1 then legacy_selector cd c target version source dependencies
      else if \<not> compat_verified c \<or> unverified_inputs target version source dependencies
      then None
      else case variant_canonical (compat_variant c) (compat_capabilities c) of
        None \<Rightarrow> None
      | Some variant \<Rightarrow>
          (case compat_producer_version c of
             None \<Rightarrow> None
           | Some producer \<Rightarrow>
               if producer \<noteq> version then None
               else case compat_profile c of
                 None \<Rightarrow> None
               | Some profile \<Rightarrow>
                   (case compat_consumer_constraint c of
                      None \<Rightarrow> None
                    | Some consumer \<Rightarrow>
                        map_option (\<lambda>hash. tag_prefix (readable_prefix c variant) @ ''-'' @ hash)
                          (selector_hash cd (identity_bytes cd
                            (selector_document c target source dependencies variant producer
                              profile consumer))))))"

section \<open>The reported failure\<close>

lemma or_else_None [simp]: "or_else a b = None \<longleftrightarrow> a = None \<and> b = None"
  by (simp add: or_else_def split: option.split)

lemma provider_failure_None: "provider_failure label p = None \<longleftrightarrow> provider_is_verified p"
  by (simp add: provider_failure_def provider_is_verified_def observed_satisfies_def blank_def Let_def
           split: option.split)

lemma toolchain_verified:
  "provider_is_verified (toolchain_provider t) \<longleftrightarrow>
     \<not> blank (rt_family t) \<and> \<not> blank (rt_provider t) \<and> \<not> blank (rt_constraint t)
     \<and> observed_satisfies (rt_version t) (rt_constraint t)"
  by (simp add: provider_is_verified_def toolchain_provider_def)

lemma providers_failure_None: "providers_failure c = None \<longleftrightarrow> providers_are_verified c"
  by (auto simp: providers_failure_def providers_are_verified_def Let_def provider_failure_None
      toolchain_verified)

lemma macos_failure_None:
  "macos_failure c = None \<longleftrightarrow>
     (case compat_macos c of
        Some m \<Rightarrow> compat_os c = Macos \<and> provider_is_verified (rm_sdk m)
          \<and> \<not> blank (rm_deployment_target m)
      | None \<Rightarrow> compat_os c \<noteq> Macos)"
  by (simp add: macos_failure_def provider_failure_None split: option.split)

lemma verification_failure_None: "verification_failure c = None \<longleftrightarrow> compat_verified c"
proof -
  have "providers_are_verified c \<Longrightarrow> \<not> blank (compat_platform c)"
    by (simp add: providers_are_verified_def Let_def)
  then show ?thesis
    using providers_failure_None [of c]
    by (cases "providers_failure c")
       (auto simp: verification_failure_def compat_verified_def macos_failure_None)
qed

text \<open>
  The explanation of a refusal and the predicate it explains agree on every identity: a
  failure is reported exactly when the identity is not verified, and likewise for the
  provider facts alone.
\<close>

lemma verification_failure_exact:
  "(verification_failure c = None \<longleftrightarrow> compat_verified c)
   \<and> (providers_failure c = None \<longleftrightarrow> providers_are_verified c)"
  by (simp add: verification_failure_None providers_failure_None)

section \<open>Constraints\<close>

text \<open>The numbers a constraint part list asks for, up to its first wildcard.\<close>

definition wanted :: "string list \<Rightarrow> string list" where
  "wanted parts = takeWhile (\<lambda>p. \<not> is_wildcard p) parts"

lemma dotted_loop_prefix:
  "dotted_loop parts observed \<longleftrightarrow>
     list_all is_wildcard (dropWhile (\<lambda>p. \<not> is_wildcard p) parts)
     \<and> (\<exists>ns. map parse_u64 (wanted parts) = map Some ns \<and> prefix ns observed)"
proof (induction parts observed rule: dotted_loop.induct)
  case (1 observed)
  then show ?case by (simp add: wanted_def)
next
  case (2 part parts observed)
  show ?case
  proof (cases "is_wildcard part")
    case True
    then show ?thesis by (simp add: wanted_def)
  next
    case False
    show ?thesis
    proof (cases "parse_u64 part")
      case None
      with False show ?thesis by (auto simp: wanted_def Cons_eq_map_conv)
    next
      case (Some n)
      show ?thesis
      proof (cases observed)
        case Nil
        with False Some show ?thesis by (auto simp: wanted_def Cons_eq_map_conv)
      next
        case (Cons v vs)
        from False Some Cons "2.IH" show ?thesis
          by (auto simp: wanted_def Cons_eq_map_conv)
      qed
    qed
  qed
qed

section \<open>Tags\<close>

definition tag_byte :: "char \<Rightarrow> bool" where
  "tag_byte c \<longleftrightarrow> is_ascii_alphanumeric c \<or> c \<in> set ''._-''"

lemma ascii_lower_alphanumeric: "is_ascii_alphanumeric c \<Longrightarrow> is_ascii_alphanumeric (ascii_lower c)"
  by (auto simp: ascii_lower_def ascii_defs)

lemma tag_char_byte: "tag_byte (tag_char c)"
  using ascii_lower_alphanumeric [of c]
  by (auto simp: tag_char_def tag_byte_def ascii_lower_def is_ascii_uppercase_def byte_in_def)

lemma collapse_bytes: "list_all tag_byte (collapse prev s)"
  by (induction prev s rule: collapse.induct) (simp_all add: tag_char_byte)

lemma drop_end: "\<not> P c \<Longrightarrow> dropWhile P (xs @ [c]) = dropWhile P xs @ [c]"
  by (induction xs) auto

lemma trim_end_Cons: "\<not> is_separator c \<Longrightarrow> trim_end_separators (c # s) = c # trim_end_separators s"
  by (simp add: trim_end_separators_def drop_end)

lemma trim_end_set: "set (trim_end_separators s) \<subseteq> set s"
  by (auto simp: trim_end_separators_def dest: set_dropWhileD)

lemma trim_end_length: "length (trim_end_separators s) \<le> length s"
  by (metis length_dropWhile_le length_rev trim_end_separators_def)

lemma tag_prefix_form:
  "\<exists>rest. tag_prefix (readable_prefix c v) = CHR ''o'' # rest \<and> length rest \<le> 62
     \<and> list_all tag_byte rest"
proof -
  have o: "tag_char (CHR ''o'') = CHR ''o''" "\<not> is_separator (CHR ''o'')"
    by (simp_all add: tag_char_def is_separator_def ascii_lower_def ascii_defs)
  define tl where "tl = collapse False (drop 1 (readable_prefix c v))"
  have "collapse False (readable_prefix c v) = CHR ''o'' # tl"
    using o by (simp add: readable_prefix_def tl_def)
  then have "tag_prefix (readable_prefix c v) =
      trim_end_separators (take 63 (CHR ''o'' # trim_end_separators tl))"
    using o by (simp add: tag_prefix_def Let_def trim_end_Cons)
  also have "take 63 (CHR ''o'' # trim_end_separators tl) = CHR ''o'' # take 62 (trim_end_separators tl)"
    by simp
  finally have eq: "tag_prefix (readable_prefix c v) =
      CHR ''o'' # trim_end_separators (take 62 (trim_end_separators tl))"
    using o by (simp add: trim_end_Cons)
  have "length (trim_end_separators (take 62 (trim_end_separators tl))) \<le> 62"
    using trim_end_length [of "take 62 (trim_end_separators tl)"] by simp
  moreover have "set (trim_end_separators (take 62 (trim_end_separators tl))) \<subseteq> set tl"
    using trim_end_set [of "take 62 (trim_end_separators tl)"] trim_end_set [of tl]
      set_take_subset [of 62 "trim_end_separators tl"] by blast
  moreover have "\<forall>x \<in> set tl. tag_byte x"
    using collapse_bytes [of False "drop 1 (readable_prefix c v)"] by (simp add: tl_def list_all_iff)
  ultimately show ?thesis using eq by (auto simp: list_all_iff)
qed

lemma to_hex_digits: "list_all is_ascii_alphanumeric (to_hex bs)"
proof -
  have "\<forall>x \<in> set ''0123456789abcdef''. is_ascii_alphanumeric x"
    by (simp add: ascii_defs)
  then show ?thesis
    using hex_byte_digits by (fastforce simp: list_all_iff to_hex_def)
qed

lemma selector_hash_hex: "selector_hash cd bytes = Some (to_hex (codec_sha cd bytes))"
  unfolding selector_hash_def sha256_hex_def render_digest_def by (rule strip_prefix_append)


section \<open>Normal forms\<close>

lemma sorted_remdups_strict: "sorted (xs :: 'a::linorder list) \<Longrightarrow> sorted_wrt (<) (remdups_adj xs)"
proof (induction xs rule: remdups_adj.induct)
  case (3 x y xs)
  show ?case
  proof (cases "x = y")
    case True
    with 3 show ?thesis by simp
  next
    case False
    with "3.prems" have "x < y" "\<forall>z \<in> set (y # xs). y \<le> z" by auto
    then have "\<forall>z \<in> set (remdups_adj (y # xs)). x < z" by auto
    with False 3 show ?thesis by (simp del: remdups_adj.simps add: remdups_adj.simps(3))
  qed
qed auto

text \<open>Sorting by an injective key and removing repeated neighbours depends on the set alone.\<close>

lemma sort_dedup_set:
  fixes f :: "'a \<Rightarrow> 'k::linorder"
  assumes "inj f" and "set xs = set ys"
  shows "remdups_adj (sort_key f xs) = remdups_adj (sort_key f ys)"
proof -
  have strict: "sorted_wrt (<) (map f (remdups_adj (sort_key f zs)))" for zs
    using sorted_remdups_strict [of "map f (sort_key f zs)"] assms(1)
    by (simp add: remdups_adj_map_injective)
  have "map f (remdups_adj (sort_key f xs)) = map f (remdups_adj (sort_key f ys))"
    by (rule strict_sorted_equal [OF strict strict]) (simp add: assms(2))
  with assms(1) show ?thesis by (simp add: inj_map_eq_map)
qed

lemma dependency_key_inj: "inj dependency_key"
  by (rule injI) (simp add: dependency_key_def)

lemma variant_canonical_set:
  "set cs = set cs' \<Longrightarrow> variant_canonical v cs = variant_canonical v cs'"
  by (cases v) (simp_all add: list_all_iff)

lemma unverified_inputs_set:
  "set ds = set ds' \<Longrightarrow> unverified_inputs t v s ds = unverified_inputs t v s ds'"
  by (simp add: unverified_inputs_def list_ex_iff)

text \<open>
  Selectors are normal forms: neither the order nor repetitions of the capabilities and of
  the dependencies change the selector of an identity.
\<close>

lemma selector_normalizes:
  assumes "set capabilities = set (compat_capabilities c)" and "set ds = set dependencies"
  shows "selector cd (c\<lparr>compat_capabilities := capabilities\<rparr>) target version source ds
     = selector cd c target version source dependencies"
proof -
  let ?c = "c\<lparr>compat_capabilities := capabilities\<rparr>"
  have caps: "sorted_capabilities capabilities = sorted_capabilities (compat_capabilities c)"
    unfolding sorted_capabilities_def by (rule sort_dedup_set) (simp_all add: assms)
  have deps: "sorted_dependencies ds = sorted_dependencies dependencies"
    unfolding sorted_dependencies_def by (rule sort_dedup_set) (simp_all add: assms dependency_key_inj)
  have inputs: "unverified_inputs target version source ds = unverified_inputs target version source dependencies"
    by (rule unverified_inputs_set) (rule assms(2))
  have variant: "variant_canonical (compat_variant c) capabilities =
      variant_canonical (compat_variant c) (compat_capabilities c)"
    by (rule variant_canonical_set) (rule assms(1))
  have providers: "providers_are_verified ?c = providers_are_verified c"
    by (simp add: providers_are_verified_def)
  have verified: "compat_verified ?c = compat_verified c"
    by (simp add: compat_verified_def providers variant split: option.split)
  have readable: "readable_prefix ?c v = readable_prefix c v" for v
    by (simp add: readable_prefix_def)
  have document: "selector_document ?c target source ds = selector_document c target source dependencies"
    by (simp add: selector_document_def caps deps fun_eq_iff)
  have legacy: "legacy_selector cd ?c target version source ds = legacy_selector cd c target version source dependencies"
    by (simp add: legacy_selector_def inputs providers readable caps deps)
  show ?thesis
    by (simp add: selector_def inputs verified variant readable document legacy
             cong: option.case_cong if_cong)
qed

section \<open>Samples\<close>

definition sample_provider :: "string \<Rightarrow> string \<Rightarrow> string \<Rightarrow> resolved_usd_provider" where
  "sample_provider family version constraint =
     \<lparr> rp_family = family, rp_provider = ''platform'', rp_version = Some version,
       rp_constraint = constraint \<rparr>"

definition sample_compatibility :: compatibility where
  "sample_compatibility =
     \<lparr> compat_schema = 2, compat_platform = ''cy2026'', compat_profile = Some ''usd'',
       compat_os = Linux, compat_arch = X86_64,
       compat_toolchain = \<lparr> rt_family = ''gcc'', rt_provider = ''platform'', rt_version = Some ''14.2.0'',
         rt_constraint = ''14.2'', rt_cxx_standard = ''20'',
         rt_runtime = sample_provider ''glibc'' ''2.34'' ''>=2.28'' \<rparr>,
       compat_python = sample_provider ''cpython'' ''3.13.2'' ''3.13.x'',
       compat_tbb = sample_provider ''onetbb'' ''2022.1'' ''2022.x'',
       compat_variant = Gl, compat_capabilities = [''imaging'', ''usd-core'', ''opengl''],
       compat_producer_version = Some ''26.05'', compat_consumer_constraint = Some ''>=26.05,<26.09'',
       compat_macos = None \<rparr>"

definition sample_codec :: selector_codec where
  "sample_codec = \<lparr> identity_bytes = (\<lambda>_. []), legacy_bytes = (\<lambda>_. []),
     codec_sha = (\<lambda>_. replicate 32 0) \<rparr>"

lemma sample_selector:
  "selector sample_codec sample_compatibility ''linux-x86_64-py313'' ''26.05'' None [] =
     Some (''openusd-cy2026-linux-x86_64-gl-'' @ to_hex (replicate 32 0))"
  by code_simp


lemma selector_normalizes_witness:
  "selector sample_codec
     (sample_compatibility\<lparr>compat_capabilities := [''opengl'', ''usd-core'', ''imaging'', ''opengl'']\<rparr>)
     ''linux-x86_64-py313'' ''26.05'' None []
   = Some (''openusd-cy2026-linux-x86_64-gl-'' @ to_hex (replicate 32 0))"
proof -
  have "set [''opengl'', ''usd-core'', ''imaging'', ''opengl''] = set (compat_capabilities sample_compatibility)"
    by (auto simp: sample_compatibility_def)
  from selector_normalizes [OF this refl] show ?thesis by (simp add: sample_selector)
qed

text \<open>
  A schema-1 identity keeps its platform name as it is, so its selector need not be a tag.
\<close>

lemma legacy_selector_not_a_tag:
  "selector sample_codec (sample_compatibility\<lparr>compat_schema := 1, compat_platform := ''CY 2026''\<rparr>)
     ''linux-x86_64-py313'' ''26.05'' None [] =
     Some (''openusd-CY 2026-linux-x86_64-gl-'' @ to_hex (replicate 32 0))
   \<and> \<not> is_valid_oci_tag (''openusd-CY 2026-linux-x86_64-gl-'' @ to_hex (replicate 32 0))"
  by code_simp


end
