(* ===== verification/ArtifactRecords.thy ===== *)
theory ArtifactRecords
  imports Compatibility Components Policies
begin

text \<open>
  The identity record of an artifact in the registry (ost-artifact/src/record.rs): its fields,
  the references and selectors read off it, and the migration of records that predate the
  field \<^verbatim>\<open>imported_by\<close>.
\<close>

definition RECORD_SCHEMA :: nat where
  "RECORD_SCHEMA = 1"

datatype artifact_kind =
    RuntimeArtifact
  | ComposedRuntimeArtifact
  | PluginArtifact
  | ProductArtifact
  | PackageArtifact

fun artifact_kind_as_str :: "artifact_kind \<Rightarrow> string" where
  "artifact_kind_as_str RuntimeArtifact = ''runtime''"
| "artifact_kind_as_str ComposedRuntimeArtifact = ''composed-runtime''"
| "artifact_kind_as_str PluginArtifact = ''plugin''"
| "artifact_kind_as_str ProductArtifact = ''product''"
| "artifact_kind_as_str PackageArtifact = ''package''"

definition artifact_kind_from_tag :: "string \<Rightarrow> artifact_kind option" where
  "artifact_kind_from_tag tag =
     (if tag = ''runtime'' then Some RuntimeArtifact
      else if tag = ''composed-runtime'' then Some ComposedRuntimeArtifact
      else if tag = ''plugin'' then Some PluginArtifact
      else if tag = ''product'' then Some ProductArtifact
      else if tag = ''package'' then Some PackageArtifact
      else None)"

datatype artifact_source = Imported | Published

fun artifact_source_as_str :: "artifact_source \<Rightarrow> string" where
  "artifact_source_as_str Imported = ''imported''"
| "artifact_source_as_str Published = ''published''"

record artifact_record =
  record_schema :: nat
  record_kind :: artifact_kind
  record_name :: string
  record_version :: string
  record_target :: string
  record_profile :: "string option"
  record_digest :: string
  record_archive :: string
  record_archive_size :: nat
  record_total_size :: nat
  record_file_count :: nat
  record_created_unix :: nat
  record_producer :: "string option"
  record_imported_by :: string
  record_source :: artifact_source
  record_trust :: trust_level
  record_validation :: string
  record_licenses :: "string list"
  record_sbom :: "string option"
  record_sbom_digest :: "string option"
  record_sbom_size :: "nat option"
  record_provenance :: "string option"
  record_provenance_digest :: "string option"
  record_provenance_size :: "nat option"
  record_runtime_id :: "string option"
  record_runtime_digest :: "string option"
  record_openusd :: "compatibility option"
  record_openusd_verification :: "openusd_verification option"
  record_source_identity :: "source_identity option"
  record_dependencies :: "dependency_identity list"
  record_component :: "component_contract option"

definition digest_hex :: "artifact_record \<Rightarrow> string" where
  "digest_hex r =
     (case strip_prefix ''sha256:'' (record_digest r) of None \<Rightarrow> record_digest r | Some hex \<Rightarrow> hex)"

text \<open>A record's digest is ASCII, so the slice ends at a character.\<close>

definition short_digest :: "artifact_record \<Rightarrow> string" where
  "short_digest r = ''sha256:'' @ take 12 (digest_hex r)"

definition record_selector :: "selector_codec \<Rightarrow> artifact_record \<Rightarrow> string option" where
  "record_selector cd r =
     Option.bind (record_openusd r) (\<lambda>c.
       selector cd c (record_target r) (record_version r) (record_source_identity r)
         (record_dependencies r))"

definition legacy_record_selector :: "selector_codec \<Rightarrow> artifact_record \<Rightarrow> string option" where
  "legacy_record_selector cd r =
     Option.bind (record_openusd r) (\<lambda>c.
       selector cd c (record_target r) (record_version r) None [])"

definition migrate_legacy_producer :: "artifact_record \<Rightarrow> artifact_record" where
  "migrate_legacy_producer r =
     (if record_imported_by r = []
      then r\<lparr>record_imported_by := (case record_producer r of None \<Rightarrow> [] | Some p \<Rightarrow> p),
             record_producer := None\<rparr>
      else r)"

lemma artifact_kind_tags: "artifact_kind_from_tag (artifact_kind_as_str k) = Some k"
  by (cases k) (simp_all add: artifact_kind_from_tag_def)

lemma migrate_idempotent: "migrate_legacy_producer (migrate_legacy_producer r) = migrate_legacy_producer r"
  by (simp add: migrate_legacy_producer_def)

text \<open>A record with the fields the samples leave open.\<close>

definition plain_record ::
  "artifact_kind \<Rightarrow> string \<Rightarrow> string \<Rightarrow> string \<Rightarrow> string \<Rightarrow> component_contract option \<Rightarrow> artifact_record"
where
  "plain_record kind name version target digest contract =
     \<lparr> record_schema = RECORD_SCHEMA, record_kind = kind, record_name = name, record_version = version,
       record_target = target, record_profile = None, record_digest = digest,
       record_archive = ''archive.tar.zst'', record_archive_size = 0, record_total_size = 0,
       record_file_count = 0, record_created_unix = 0, record_producer = None,
       record_imported_by = ''ost'', record_source = Imported, record_trust = Local,
       record_validation = ''unknown'', record_licenses = [], record_sbom = None,
       record_sbom_digest = None, record_sbom_size = None, record_provenance = None,
       record_provenance_digest = None, record_provenance_size = None, record_runtime_id = None,
       record_runtime_digest = None, record_openusd = None, record_openusd_verification = None,
       record_source_identity = None, record_dependencies = [], record_component = contract \<rparr>"

end
