(* ===== verification/Topology.thy ===== *)
theory Topology
  imports Errors
begin

text \<open>
  The order in which a composition lists its components (\<^verbatim>\<open>topological_order\<close>,
  ost-formation/src/composition.rs): Kahn's algorithm on ordered sets, always taking the
  smallest ready id.  An \<^verbatim>\<open>expect\<close> that fails and a degree below zero would be panics; they
  are \<^const>\<open>None\<close> here, and so is a loop that exceeds one round per component.
\<close>

section \<open>Model\<close>

type_synonym degrees = "(string, nat) btree_map"
type_synonym outgoing = "(string, string btree_set) btree_map"

definition graph_edge :: "degrees \<times> outgoing \<Rightarrow> string \<times> string \<Rightarrow> degrees \<times> outgoing" where
  "graph_edge = (\<lambda>(indegree, outgoing) (provider, consumer).
     if provider = consumer then (indegree, outgoing)
     else let targets = (case bt_get outgoing provider of None \<Rightarrow> [] | Some s \<Rightarrow> s)
          in if consumer \<in> set targets then (indegree, bt_insert provider targets outgoing)
             else (bt_insert consumer ((case bt_get indegree consumer of None \<Rightarrow> 0 | Some d \<Rightarrow> d) + 1) indegree,
                   bt_insert provider (bs_insert consumer targets) outgoing))"

definition graph_of :: "string list \<Rightarrow> (string \<times> string) list \<Rightarrow> degrees \<times> outgoing" where
  "graph_of keys edges = foldl graph_edge (map (\<lambda>k. (k, 0)) keys, []) edges"

fun relax ::
  "string list \<Rightarrow> degrees \<times> string btree_set \<Rightarrow> (degrees \<times> string btree_set) option"
where
  "relax [] st = Some st"
| "relax (consumer # consumers) (indegree, ready) =
     (case bt_get indegree consumer of
        None \<Rightarrow> None
      | Some 0 \<Rightarrow> None
      | Some (Suc degree) \<Rightarrow>
          relax consumers
            (bt_insert consumer degree indegree,
             if degree = 0 then bs_insert consumer ready else ready))"

fun topo_loop ::
  "nat \<Rightarrow> outgoing \<Rightarrow> degrees \<Rightarrow> string btree_set \<Rightarrow> string list \<Rightarrow> (string list) option"
where
  "topo_loop fuel outgoing indegree [] order = Some order"
| "topo_loop 0 outgoing indegree (k # ready) order = None"
| "topo_loop (Suc fuel) outgoing indegree (k # ready) order =
     (case relax (case bt_get outgoing k of None \<Rightarrow> [] | Some s \<Rightarrow> s) (indegree, ready) of
        None \<Rightarrow> None
      | Some (indegree', ready') \<Rightarrow> topo_loop fuel outgoing indegree' ready' (order @ [k]))"

definition dependency_cycle :: error where
  "dependency_cycle =
     coded ''COMPOSITION_DEPENDENCY_CYCLE'' Validation
       ''selected component requirements contain a dependency cycle''"

definition topological_order ::
  "string list \<Rightarrow> (string \<times> string) list \<Rightarrow> ((string list) res) option"
where
  "topological_order keys edges =
     (let (indegree, outgoing) = graph_of keys edges;
          ready = map fst (filter (\<lambda>(_, degree). degree = 0) indegree)
      in case topo_loop (length keys) outgoing indegree ready [] of
           None \<Rightarrow> None
         | Some order \<Rightarrow>
             Some (if length order \<noteq> length keys then Inl dependency_cycle else Inr order))"

section \<open>The graph the loop works on\<close>

text \<open>The edges between different components.\<close>

definition proper :: "(string \<times> string) list \<Rightarrow> (string \<times> string) set" where
  "proper edges = {(p, c) \<in> set edges. p \<noteq> c}"

definition preds :: "(string \<times> string) set \<Rightarrow> string \<Rightarrow> string set" where
  "preds E c = {p. (p, c) \<in> E}"

definition succs :: "outgoing \<Rightarrow> string \<Rightarrow> string list" where
  "succs outgoing p = (case bt_get outgoing p of None \<Rightarrow> [] | Some s \<Rightarrow> s)"

definition graph_inv ::
  "string list \<Rightarrow> (string \<times> string) set \<Rightarrow> degrees \<times> outgoing \<Rightarrow> bool"
where
  "graph_inv keys E = (\<lambda>(indegree, outgoing).
     bt_ok indegree \<and> set (bt_keys indegree) = set keys
     \<and> (\<forall>c \<in> set keys. bt_get indegree c = Some (card (preds E c)))
     \<and> (\<forall>p. set (succs outgoing p) = {c. (p, c) \<in> E} \<and> sorted_wrt (<) (succs outgoing p)))"

lemma finite_preds: "finite E \<Longrightarrow> finite (preds E c)"
  unfolding preds_def by (rule finite_subset [of _ "fst ` E"]) force+

lemma preds_insert: "preds (insert (p, c) E) d = (if d = c then insert p (preds E d) else preds E d)"
  by (auto simp: preds_def)

lemma graph_edge_inv:
  assumes "graph_inv keys E g" "finite E" "p \<in> set keys" "c \<in> set keys"
  shows "graph_inv keys (if p = c then E else insert (p, c) E) (graph_edge g (p, c))"
proof -
  obtain indegree outgoing where g: "g = (indegree, outgoing)" by (cases g)
  have ok: "bt_ok indegree" "set (bt_keys indegree) = set keys"
      "\<forall>d \<in> set keys. bt_get indegree d = Some (card (preds E d))"
      "\<And>q. set (succs outgoing q) = {d. (q, d) \<in> E}" "\<And>q. sorted_wrt (<) (succs outgoing q)"
    using assms(1) by (auto simp: graph_inv_def g)
  show ?thesis
  proof (cases "p = c \<or> (p, c) \<in> E")
    case True
    then have "c \<in> set (succs outgoing p)" if "p \<noteq> c"
      using that ok(4) [of p] by auto
    moreover have "succs (bt_insert p (succs outgoing p) outgoing) q = succs outgoing q" for q
      by (simp add: succs_def)
    ultimately show ?thesis
      using True assms(1) ok
      by (auto simp: graph_edge_def g graph_inv_def Let_def insert_absorb simp flip: succs_def)
  next
    case False
    have new: "c \<notin> set (succs outgoing p)" and fresh: "p \<notin> preds E c"
      using False ok(4) [of p] by (auto simp: preds_def)
    have deg: "bt_get indegree c = Some (card (preds E c))"
      using ok(3) assms(4) by blast
    have edge: "graph_edge g (p, c) =
        (bt_insert c (card (preds E c) + 1) indegree, bt_insert p (bs_insert c (succs outgoing p)) outgoing)"
      using False new deg by (simp add: graph_edge_def g Let_def flip: succs_def)
    have "card (insert p (preds E c)) = card (preds E c) + 1"
      using fresh finite_preds [OF assms(2)] by simp
    moreover have "succs (bt_insert p (bs_insert c (succs outgoing p)) outgoing) q =
        (if q = p then bs_insert c (succs outgoing p) else succs outgoing q)" for q
      by (simp add: succs_def)
    ultimately show ?thesis
      using False ok assms(4) by (auto simp: edge graph_inv_def preds_insert bt_ok_insert sorted_bs_insert insert_absorb)
  qed
qed

lemma graph_of_inv:
  assumes "sorted_wrt (<) keys" "\<forall>(p, c) \<in> set edges. p \<in> set keys \<and> c \<in> set keys"
  shows "graph_inv keys (proper edges) (graph_of keys edges)"
  using assms(2)
proof (induction edges rule: rev_induct)
  case Nil
  have "bt_get (map (\<lambda>k. (k, 0 :: nat)) keys) c = Some 0" if "c \<in> set keys" for c
    using that by (simp add: map_of_map_restrict)
  then show ?case
    using assms(1) by (auto simp: graph_of_def graph_inv_def proper_def preds_def succs_def bt_ok_def comp_def image_image)
next
  case (snoc e edges)
  obtain p c where e: "e = (p, c)" by (cases e)
  have "proper (edges @ [e]) = (if p = c then proper edges else insert (p, c) (proper edges))"
    by (auto simp: proper_def e)
  moreover have "finite (proper edges)"
    by (rule finite_subset [of _ "set edges"]) (auto simp: proper_def)
  ultimately show ?case
    using snoc graph_edge_inv [of keys "proper edges" "graph_of keys edges" p c]
    by (auto simp: graph_of_def e)
qed

section \<open>The loop\<close>

text \<open>
  After the components of \<open>order\<close> have been placed: a degree counts the predecessors that are
  not placed yet, the placed and the ready components are those of degree zero, and every
  placed component stands after its predecessors.
\<close>

definition sorted_so_far :: "(string \<times> string) set \<Rightarrow> string list \<Rightarrow> bool" where
  "sorted_so_far E order \<longleftrightarrow> (\<forall>xs y zs. order = xs @ y # zs \<longrightarrow> preds E y \<subseteq> set xs)"

definition degrees_inv ::
  "string list \<Rightarrow> (string \<times> string) set \<Rightarrow> string set \<Rightarrow> degrees \<Rightarrow> string btree_set \<Rightarrow> bool"
where
  "degrees_inv keys removed placed indegree ready \<longleftrightarrow>
     (\<forall>c \<in> set keys. bt_get indegree c = Some (card (preds removed c)))
     \<and> (\<forall>c. c \<in> placed \<union> set ready \<longleftrightarrow> c \<in> set keys \<and> preds removed c = {})
     \<and> placed \<inter> set ready = {} \<and> sorted_wrt (<) ready"

lemma relax_inv:
  assumes "degrees_inv keys E placed indegree ready" "finite E"
    and "distinct cs" "\<forall>c \<in> set cs. c \<in> set keys \<and> (k, c) \<in> E"
  shows "\<exists>indegree' ready'. relax cs (indegree, ready) = Some (indegree', ready')
     \<and> degrees_inv keys (E - {k} \<times> set cs) placed indegree' ready'"
  using assms
proof (induction cs arbitrary: E indegree ready)
  case Nil
  then show ?case by simp
next
  case (Cons c cs)
  let ?E = "E - {(k, c)}"
  have c: "c \<in> set keys" "(k, c) \<in> E" "bt_get indegree c = Some (card (preds E c))"
    using Cons.prems by (auto simp: degrees_inv_def)
  have fin: "finite (preds E c)"
    by (rule finite_preds [OF Cons.prems(2)])
  have k: "k \<in> preds E c"
    using c(2) by (simp add: preds_def)
  then have degree: "card (preds E c) = Suc (card (preds E c - {k}))"
    using card_Suc_Diff1 [OF fin k] by simp
  have preds: "preds ?E d = (if d = c then preds E c - {k} else preds E d)" for d
    by (auto simp: preds_def)
  let ?ready = "if card (preds E c - {k}) = 0 then bs_insert c ready else ready"
  have "c \<notin> placed \<union> set ready"
    using Cons.prems(1) k unfolding degrees_inv_def by blast
  then have "degrees_inv keys ?E placed (bt_insert c (card (preds E c - {k})) indegree) ?ready"
    using Cons.prems(1) c(1) fin unfolding degrees_inv_def preds
    by (auto simp: sorted_bs_insert)
  then have "\<exists>indegree' ready'. relax cs (bt_insert c (card (preds E c - {k})) indegree, ?ready) = Some (indegree', ready')
      \<and> degrees_inv keys (?E - {k} \<times> set cs) placed indegree' ready'"
    using Cons.prems by (intro Cons.IH) auto
  moreover have "?E - {k} \<times> set cs = E - {k} \<times> set (c # cs)"
    by auto
  ultimately show ?case
    by (simp add: c(3) degree)
qed

definition unplaced :: "(string \<times> string) set \<Rightarrow> string list \<Rightarrow> (string \<times> string) set" where
  "unplaced E order = E - set order \<times> UNIV"

lemma preds_unplaced: "preds (unplaced E order) c = preds E c - set order"
  by (auto simp: preds_def unplaced_def)

lemma sorted_so_far_snoc:
  "sorted_so_far E order \<Longrightarrow> preds E k \<subseteq> set order \<Longrightarrow> sorted_so_far E (order @ [k])"
  unfolding sorted_so_far_def
  by (metis append_eq_append_conv2 append_is_Nil_conv butlast.simps(2) butlast_append butlast_snoc
      last_appendR last_snoc list.distinct(1) neq_Nil_conv)

lemma topo_loop_spec:
  assumes "degrees_inv keys (unplaced E order) (set order) indegree ready"
    and "finite E" "E \<subseteq> set keys \<times> set keys" "\<And>p. set (succs outgoing p) = {c. (p, c) \<in> E}"
    and "\<And>p. sorted_wrt (<) (succs outgoing p)"
    and "distinct order" "set order \<subseteq> set keys" "sorted_so_far E order" "card (set keys) \<le> fuel + length order"
  shows "\<exists>order'. topo_loop fuel outgoing indegree ready order = Some order' \<and> distinct order'
     \<and> set order' \<subseteq> set keys \<and> sorted_so_far E order'
     \<and> (\<forall>c \<in> set keys - set order'. \<not> preds E c \<subseteq> set order')"
  using assms(1,6-9)
proof (induction fuel arbitrary: indegree ready order)
  case 0
  have "card (set order) = card (set keys)"
    using 0 by (metis add_0 card_mono distinct_card finite_set le_antisym)
  then have "set order = set keys"
    using 0 by (simp add: card_subset_eq)
  then have "ready = []"
    using "0.prems"(1) unfolding degrees_inv_def by (metis Un_iff disjoint_iff last_in_set)
  then show ?case
    using 0 \<open>set order = set keys\<close> by auto
next
  case (Suc fuel)
  show ?case
  proof (cases ready)
    case Nil
    then show ?thesis
      using Suc.prems by (auto simp: degrees_inv_def preds_unplaced)
  next
    case (Cons k rest)
    let ?R = "unplaced E order"
    have k: "k \<in> set keys" "preds E k \<subseteq> set order" "k \<notin> set order" "k \<notin> set rest"
      using Suc.prems(1) Cons by (auto simp: degrees_inv_def preds_unplaced)
    have "degrees_inv keys ?R (insert k (set order)) indegree rest"
      using Suc.prems(1) Cons by (auto simp: degrees_inv_def)
    moreover have "finite ?R"
      using assms(2) by (simp add: unplaced_def)
    moreover have "distinct (succs outgoing k)"
      using assms(5) strict_sorted_iff by blast
    moreover have "\<forall>c \<in> set (succs outgoing k). c \<in> set keys \<and> (k, c) \<in> ?R"
      using assms(3,4) k(3) by (auto simp: unplaced_def)
    ultimately obtain indegree' ready' where
        relaxed: "relax (succs outgoing k) (indegree, rest) = Some (indegree', ready')"
        and inv: "degrees_inv keys (?R - {k} \<times> set (succs outgoing k)) (insert k (set order)) indegree' ready'"
      using relax_inv by blast
    have "?R - {k} \<times> set (succs outgoing k) = unplaced E (order @ [k])"
      using assms(4) by (auto simp: unplaced_def)
    then have "\<exists>order'. topo_loop fuel outgoing indegree' ready' (order @ [k]) = Some order' \<and> distinct order'
       \<and> set order' \<subseteq> set keys \<and> sorted_so_far E order'
       \<and> (\<forall>c \<in> set keys - set order'. \<not> preds E c \<subseteq> set order')"
      using Suc.prems inv k by (intro Suc.IH) (auto intro: sorted_so_far_snoc)
    then show ?thesis
      using relaxed by (simp add: Cons flip: succs_def)
  qed
qed

text \<open>A finite relation in which every element of a non-empty set has a predecessor there has a cycle.\<close>

lemma stuck_cycle:
  assumes "finite E" "R \<noteq> {}" "\<forall>c \<in> R. \<exists>p \<in> R. (p, c) \<in> E"
  shows "\<not> acyclic E"
proof
  assume "acyclic E"
  then have "wf E"
    using assms(1) by (simp add: finite_acyclic_wf)
  then obtain m where "m \<in> R" "\<forall>p. (p, m) \<in> E \<longrightarrow> p \<notin> R"
    using assms(2) by (metis ex_in_conv wfE_min)
  with assms(3) show False by blast
qed

lemma sorted_so_far_before:
  assumes "sorted_so_far E order" "(p, c) \<in> E" "c \<in> set order"
  shows "\<exists>xs ys zs. order = xs @ p # ys @ c # zs"
proof -
  obtain us vs where "order = us @ c # vs"
    using assms(3) by (meson split_list)
  moreover from this have "p \<in> set us"
    using assms(1,2) by (auto simp: sorted_so_far_def preds_def)
  then obtain xs ys where "us = xs @ p # ys"
    by (meson split_list)
  ultimately show ?thesis by auto
qed

lemma takeWhile_position: "distinct (xs @ p # ys) \<Longrightarrow> takeWhile (\<lambda>y. y \<noteq> p) (xs @ p # ys) = xs"
  by (subst takeWhile_append2) auto

lemma order_acyclic:
  assumes "distinct order" "\<forall>(p, c) \<in> E. \<exists>xs ys zs. order = xs @ p # ys @ c # zs"
  shows "acyclic E"
proof -
  let ?f = "\<lambda>x. length (takeWhile (\<lambda>y. y \<noteq> x) order)"
  have "?f p < ?f c" if "(p, c) \<in> E" for p c
  proof -
    obtain xs ys zs where order: "order = xs @ p # ys @ c # zs"
      using assms(2) \<open>(p, c) \<in> E\<close> by fast
    then have "takeWhile (\<lambda>y. y \<noteq> p) order = xs" "takeWhile (\<lambda>y. y \<noteq> c) order = xs @ p # ys"
      using assms(1) takeWhile_position [of xs p "ys @ c # zs"] takeWhile_position [of "xs @ p # ys" c zs]
      by simp_all
    then show ?thesis by simp
  qed
  then have "E \<subseteq> measure ?f"
    by auto
  then show ?thesis
    by (meson wf_acyclic wf_measure wf_subset)
qed

lemma initial_degrees:
  assumes "graph_inv keys E (indegree, outgoing)" "finite E"
  shows "degrees_inv keys E {} indegree (map fst (filter (\<lambda>(_, degree). degree = 0) indegree))"
proof -
  have ok: "bt_ok indegree" "set (bt_keys indegree) = set keys"
      "\<forall>c \<in> set keys. bt_get indegree c = Some (card (preds E c))"
    using assms(1) by (auto simp: graph_inv_def)
  have dist: "distinct (bt_keys indegree)"
    using ok(1) by (rule btree.keys_distinct)
  have "(c, 0) \<in> set indegree \<longleftrightarrow> c \<in> set keys \<and> preds E c = {}" for c
  proof -
    have "(c, 0) \<in> set indegree \<longleftrightarrow> bt_get indegree c = Some 0"
      using dist by (metis map_of_eq_Some_iff)
    then show ?thesis
      using ok(2,3) finite_preds [OF assms(2), of c] by (metis card_eq_0_iff fst_conv image_eqI map_of_SomeD option.inject set_map)
  qed
  then have "set (map fst (filter (\<lambda>(_, degree). degree = 0) indegree)) = {c \<in> set keys. preds E c = {}}"
    by force
  moreover have "sorted_wrt (<) (map fst (filter (\<lambda>(_, degree). degree = 0) indegree))"
    using ok(1) unfolding bt_ok_def sorted_wrt_map by (rule sorted_wrt_filter)
  ultimately show ?thesis
    using ok(3) by (simp add: degrees_inv_def)
qed

definition ordered :: "string list \<Rightarrow> (string \<times> string) list \<Rightarrow> string list \<Rightarrow> bool" where
  "ordered keys edges order \<longleftrightarrow> distinct order \<and> set order = set keys
     \<and> (\<forall>(p, c) \<in> proper edges. \<exists>xs ys zs. order = xs @ p # ys @ c # zs)"

lemma topological_order_result:
  assumes "sorted_wrt (<) keys" and "\<forall>(p, c) \<in> set edges. p \<in> set keys \<and> c \<in> set keys"
  shows "(\<exists>order. topological_order keys edges = Some (Inr order) \<and> ordered keys edges order)
         \<or> topological_order keys edges = Some (Inl dependency_cycle) \<and> \<not> acyclic (proper edges)"
proof -
  let ?E = "proper edges"
  obtain indegree outgoing where g: "graph_of keys edges = (indegree, outgoing)"
    by (cases "graph_of keys edges")
  let ?ready = "map fst (filter (\<lambda>(_, degree). degree = 0) indegree)"
  have inv: "graph_inv keys ?E (indegree, outgoing)"
    using graph_of_inv [OF assms] g by simp
  have fin: "finite ?E"
    by (rule finite_subset [of _ "set edges"]) (auto simp: proper_def)
  have sub: "?E \<subseteq> set keys \<times> set keys"
    using assms(2) by (auto simp: proper_def)
  have keys: "distinct keys"
    using assms(1) strict_sorted_iff by blast
  have init: "degrees_inv keys (unplaced ?E []) (set []) indegree ?ready"
    using initial_degrees [OF inv fin] by (simp add: unplaced_def)
  obtain order where order: "topo_loop (length keys) outgoing indegree ?ready [] = Some order"
      "distinct order" "set order \<subseteq> set keys" "sorted_so_far ?E order"
      "\<forall>c \<in> set keys - set order. \<not> preds ?E c \<subseteq> set order"
    using topo_loop_spec [OF init fin sub, of outgoing "length keys"] inv keys
    by (auto simp: graph_inv_def sorted_so_far_def distinct_card)
  have result: "topological_order keys edges =
      Some (if length order \<noteq> length keys then Inl dependency_cycle else Inr order)"
    using order(1) by (simp add: topological_order_def g)
  show ?thesis
  proof (cases "set order = set keys")
    case True
    then have "length order = length keys"
      using keys order(2) by (metis distinct_card)
    moreover have "\<forall>(p, c) \<in> ?E. \<exists>xs ys zs. order = xs @ p # ys @ c # zs"
      using sorted_so_far_before [OF order(4)] sub True by blast
    ultimately show ?thesis
      using result True order(2) by (simp add: ordered_def)
  next
    case False
    then have "length order \<noteq> length keys"
      using keys order(2,3) by (metis card_subset_eq distinct_card finite_set)
    moreover have "\<not> acyclic ?E"
      using False order(3,5) sub
      by (intro stuck_cycle [OF fin, of "set keys - set order"]) (auto simp: preds_def)
    ultimately show ?thesis
      using result by simp
  qed
qed

text \<open>
  C27. For any selection and edges within it the ordering does not panic and terminates: it
  returns every selected component exactly once with each provider before its consumers, or
  the dependency-cycle error, and the error is returned exactly when the requirements between
  different components form a cycle.
\<close>

theorem topological_order_correct:
  assumes "sorted_wrt (<) keys" and "\<forall>(p, c) \<in> set edges. p \<in> set keys \<and> c \<in> set keys"
  shows "if acyclic (proper edges)
         then \<exists>order. topological_order keys edges = Some (Inr order) \<and> distinct order \<and> set order = set keys
            \<and> (\<forall>(p, c) \<in> proper edges. \<exists>xs ys zs. order = xs @ p # ys @ c # zs)
         else topological_order keys edges = Some (Inl dependency_cycle)"
  using topological_order_result [OF assms] order_acyclic [of _ "proper edges"]
  unfolding ordered_def by auto

theorem topological_order_correct_witness:
  "topological_order [''a'', ''b'', ''c''] [(''a'', ''b''), (''c'', ''b'')] = Some (Inr [''a'', ''c'', ''b''])
   \<and> acyclic (proper [(''a'', ''b''), (''c'', ''b'')])
   \<and> topological_order [''a'', ''b''] [(''a'', ''b''), (''b'', ''a'')] = Some (Inl dependency_cycle)"
proof -
  have run: "topological_order [''a'', ''b'', ''c''] [(''a'', ''b''), (''c'', ''b'')] = Some (Inr [''a'', ''c'', ''b''])"
    by code_simp
  have "sorted_wrt (<) [''a'', ''b'', ''c'']" "sorted_wrt (<) [''a'', ''b'']"
    by code_simp+
  note correct = topological_order_correct [OF this(1), of "[(''a'', ''b''), (''c'', ''b'')]"]
    topological_order_correct [OF this(2), of "[(''a'', ''b''), (''b'', ''a'')]"]
  have "(''a'', ''a'') \<in> (proper [(''a'', ''b''), (''b'', ''a'')])\<^sup>+"
    by (rule trancl_into_trancl [of _ "''b''"]) (auto simp: proper_def)
  then have "\<not> acyclic (proper [(''a'', ''b''), (''b'', ''a'')])"
    by (auto simp: acyclic_def)
  with correct run show ?thesis
    by (auto simp: proper_def split: if_splits)
qed

end
