(* ===== verification/Compositions.thy ===== *)
theory Compositions
  imports ArtifactRecords Topology
begin

text \<open>
  Runtime compositions (ost-formation/src/composition.rs): the manifest and its validation, the
  candidates the supplied artifact records offer, the worklist that selects a provider for
  every declared and transitive requirement, and the checks and outputs over the selection.
  The JSON serialisation of the manifest and of the result, and SHA-256, are arguments.
\<close>

section \<open>Manifests\<close>

definition COMPOSITION_SCHEMA :: string where
  "COMPOSITION_SCHEMA = ''openstrata.runtime-composition/v1alpha1''"

definition RESOLVED_COMPOSITION_SCHEMA :: string where
  "RESOLVED_COMPOSITION_SCHEMA = ''openstrata.runtime-composition-resolved/v1alpha1''"

record composition_artifact_ref =
  ref_artifact :: string
  ref_source :: "string option"

record composition_manifest =
  manifest_schema :: string
  manifest_name :: string
  manifest_target :: string
  manifest_requirements :: "capability_requirement list"
  manifest_artifacts :: "composition_artifact_ref list"
  manifest_providers :: "(string, string) btree_map"

definition composition_id :: "string \<Rightarrow> string \<Rightarrow> unit res" where
  "composition_id field value =
     (if value = [] \<or> \<not> list_all (\<lambda>b. is_ascii_alphanumeric b \<or> b \<in> set ''.-_'') value
      then Inl (config_error (field @ '' '' @ quoted value @ '' is not a portable identifier''))
      else Inr ())"

definition portable_capability :: "string \<Rightarrow> string \<Rightarrow> unit res" where
  "portable_capability field value =
     (if value = [] \<or> \<not> list_all (\<lambda>b. is_ascii_alphanumeric b \<or> b \<in> set ''.-_:'') value
      then Inl (config_error (field @ '' '' @ quoted value @ '' is not a portable capability''))
      else Inr ())"

definition full_digest :: "string \<Rightarrow> bool" where
  "full_digest value =
     (case strip_prefix ''sha256:'' value of
        None \<Rightarrow> False
      | Some hex \<Rightarrow> length hex = 64
          \<and> list_all (\<lambda>b. is_ascii_digit b \<or> byte_in (CHR ''a'') (CHR ''f'') b) hex)"

definition validate_full_digest :: "string \<Rightarrow> string \<Rightarrow> unit res" where
  "validate_full_digest field value =
     (if \<not> full_digest value
      then Inl (config_error (field @ '' must be a full sha256:<64-hex> artifact identity''))
      else Inr ())"

definition invalid_constraint :: "string \<Rightarrow> error" where
  "invalid_constraint message = coded ''COMPOSITION_INVALID_VERSION_CONSTRAINT'' Configuration message"

definition version_satisfies :: "string \<Rightarrow> string \<Rightarrow> bool res" where
  "version_satisfies version rng =
     (case satisfies version rng of
        Inl e \<Rightarrow> Inl (invalid_constraint (range_error_message e))
      | Inr b \<Rightarrow> Inr b)"

definition validate_requirement :: "capability_requirement \<Rightarrow> unit res" where
  "validate_requirement r =
     and_then (portable_capability ''requirement capability'' (requirement_capability r)) (\<lambda>_.
     and_then (case requirement_provider r of
                 None \<Rightarrow> Inr ()
               | Some provider \<Rightarrow> composition_id ''requirement provider'' provider) (\<lambda>_.
       case requirement_version r of
         None \<Rightarrow> Inr ()
       | Some rng \<Rightarrow>
           if trim rng = []
           then Inl (invalid_constraint (''requirement '' @ quoted (requirement_capability r) @
                  '' has an empty version constraint''))
           else and_then (version_satisfies ''0'' rng) (\<lambda>_. Inr ())))"

definition check_source :: "string option \<Rightarrow> unit res" where
  "check_source source =
     (case source of
        None \<Rightarrow> Inr ()
      | Some source \<Rightarrow> and_then (reference_parse source) (\<lambda>reference.
          if \<not> is_pinned reference
          then Inl (coded ''COMPOSITION_SOURCE_MUTABLE'' Configuration
                 ''composition sources must be digest-pinned'')
          else Inr ()))"

definition check_artifact ::
  "string btree_set \<Rightarrow> composition_artifact_ref \<Rightarrow> (string btree_set) res"
where
  "check_artifact seen a =
     and_then (validate_full_digest ''composition artifact'' (ref_artifact a)) (\<lambda>_.
     and_then (check_source (ref_source a)) (\<lambda>_.
       if ref_artifact a \<in> set seen
       then Inl (coded ''COMPOSITION_DUPLICATE_ARTIFACT'' Configuration
              (''artifact '' @ quoted (ref_artifact a) @ '' is listed more than once''))
       else Inr (bs_insert (ref_artifact a) seen)))"

definition check_pin :: "string \<times> string \<Rightarrow> unit res" where
  "check_pin = (\<lambda>(capability, provider).
     and_then (portable_capability ''providers capability'' capability) (\<lambda>_.
       composition_id ''providers component id'' provider))"

definition manifest_validate :: "composition_manifest \<Rightarrow> unit res" where
  "manifest_validate m =
     (if manifest_schema m \<noteq> COMPOSITION_SCHEMA
      then Inl (config_error (''unsupported runtime composition schema '' @ quoted (manifest_schema m) @
             '' (expected '' @ quoted COMPOSITION_SCHEMA @ '')''))
      else and_then (composition_id ''composition.name'' (manifest_name m)) (\<lambda>_.
        if trim (manifest_target m) = []
        then Inl (config_error ''composition.target must not be empty'')
        else if manifest_requirements m = []
        then Inl (config_error ''runtime composition must declare at least one requirement'')
        else if manifest_artifacts m = []
        then Inl (config_error ''runtime composition must declare at least one artifact candidate'')
        else and_then (try_fold check_artifact [] (manifest_artifacts m)) (\<lambda>_.
             and_then (for_each validate_requirement (manifest_requirements m)) (\<lambda>_.
             for_each check_pin (manifest_providers m)))))"

definition requirement_key :: "capability_requirement \<Rightarrow> string \<times> string \<times> string" where
  "requirement_key r =
     (requirement_capability r,
      case requirement_version r of None \<Rightarrow> [] | Some v \<Rightarrow> v,
      case requirement_provider r of None \<Rightarrow> [] | Some p \<Rightarrow> p)"

text \<open>\<^verbatim>\<open>Vec::dedup\<close> removes repeated neighbours.\<close>

definition canonical :: "composition_manifest \<Rightarrow> composition_manifest" where
  "canonical m =
     m \<lparr> manifest_artifacts :=
           sort_key ref_artifact (map (\<lambda>a. a \<lparr> ref_source := None \<rparr>) (manifest_artifacts m)),
         manifest_requirements :=
           remdups_adj (sort_key requirement_key (manifest_requirements m)) \<rparr>"

text \<open>\<open>to_vec\<close> stands for the JSON serialiser.\<close>

definition manifest_digest ::
  "(composition_manifest \<Rightarrow> string + byte list) \<Rightarrow> (byte list \<Rightarrow> byte list) \<Rightarrow> composition_manifest \<Rightarrow> string res"
where
  "manifest_digest to_vec sha m =
     (case to_vec (canonical m) of
        Inl e \<Rightarrow> Inl (Operation (''cannot serialize runtime composition manifest: '' @ e))
      | Inr bytes \<Rightarrow> Inr (sha256_hex sha bytes))"

section \<open>Candidates\<close>

record candidate =
  cand_record :: artifact_record
  cand_contract :: component_contract

abbreviation cand_id :: "candidate \<Rightarrow> string" where
  "cand_id c \<equiv> contract_id (cand_contract c)"

definition candidate_key :: "candidate \<Rightarrow> string \<times> string \<times> string" where
  "candidate_key c =
     (cand_id c, contract_version (cand_contract c), record_digest (cand_record c))"

definition set_mismatch :: "string \<Rightarrow> error" where
  "set_mismatch message = coded ''COMPOSITION_ARTIFACT_SET_MISMATCH'' Validation message"

definition admit_record ::
  "string list \<Rightarrow> string btree_set \<times> candidate list \<Rightarrow> artifact_record
     \<Rightarrow> (string btree_set \<times> candidate list) res"
where
  "admit_record declared = (\<lambda>(ids, candidates) r.
     if record_digest r \<notin> set declared
     then Inl (set_mismatch (''resolved artifact '' @ record_digest r @
            '' is not pinned by the composition manifest''))
     else and_then (validate_full_digest ''resolved component digest'' (record_digest r)) (\<lambda>_.
       case record_component r of
         None \<Rightarrow> Inl (with_hint ''republish the artifact with OpenStrata v0.22.4 or newer''
           (coded ''COMPOSITION_COMPONENT_CONTRACT_REQUIRED'' Validation
             (''artifact '' @ short_digest r @ '' ('' @ record_name r @
              '') has no versioned component contract'')))
       | Some contract \<Rightarrow>
           and_then (contract_validate contract) (\<lambda>_.
             if contract_id contract \<noteq> record_name r \<or> contract_version contract \<noteq> record_version r
             then Inl (coded ''COMPOSITION_COMPONENT_IDENTITY_MISMATCH'' Validation
               (''artifact '' @ short_digest r @ '' records '' @ record_name r @ '' '' @ record_version r @
                '', but its component contract declares '' @ contract_id contract @ '' '' @
                contract_version contract))
             else if contract_id contract \<in> set ids
             then Inl (coded ''COMPOSITION_COMPONENT_ID_COLLISION'' Validation
               (''component id '' @ quoted (contract_id contract) @ '' is provided by multiple artifacts''))
             else Inr (bs_insert (contract_id contract) ids,
                       candidates @ [\<lparr> cand_record = r, cand_contract = contract \<rparr>]))))"

definition load_candidates :: "composition_manifest \<Rightarrow> artifact_record list \<Rightarrow> (candidate list) res" where
  "load_candidates m records =
     (if length records \<noteq> length (manifest_artifacts m)
      then Inl (set_mismatch (''composition declares '' @ to_decimal (length (manifest_artifacts m)) @
             '' artifact candidate(s), but '' @ to_decimal (length records) @ '' record(s) were supplied''))
      else and_then (try_fold (admit_record (map ref_artifact (manifest_artifacts m))) ([], []) records)
             (\<lambda>(_, candidates). Inr (sort_key candidate_key candidates)))"

end
