(* ===== verification/CompositionResolver.thy ===== *)
theory CompositionResolver
  imports Compositions
begin

text \<open>
  The resolution of a runtime composition (\<^verbatim>\<open>resolve_runtime_composition\<close> and its helpers,
  ost-formation/src/composition.rs): the worklist of requirements, the checks over the
  selected components, and the resolved document.
\<close>

section \<open>Choosing a provider\<close>

type_synonym offer = "candidate \<times> capability_provision"

text \<open>\<^verbatim>\<open>by_capability.get(capability)\<close>, in the order of the candidates.\<close>

definition offers :: "candidate list \<Rightarrow> string \<Rightarrow> offer list" where
  "offers candidates cap =
     concat (map (\<lambda>c. map (\<lambda>p. (c, p))
       (filter (\<lambda>p. provision_capability p = cap) (contract_provides (cand_contract c)))) candidates)"

definition target_matches :: "candidate \<Rightarrow> string \<Rightarrow> bool" where
  "target_matches c target =
     (let targets = compatibility_targets (contract_compatibility (cand_contract c))
      in if targets = [] then record_target (cand_record c) = target
         else list_ex (\<lambda>accepted. accepted = target) targets)"

definition require_version :: "capability_requirement \<Rightarrow> string \<Rightarrow> string \<Rightarrow> unit res" where
  "require_version r version provider =
     (case requirement_version r of
        None \<Rightarrow> Inr ()
      | Some rng \<Rightarrow> and_then (version_satisfies version rng) (\<lambda>ok.
          if ok then Inr ()
          else Inl (coded ''COMPOSITION_VERSION_CONFLICT'' Validation
                 (''provider '' @ quoted provider @ '' exposes '' @ requirement_capability r @ '' '' @
                  version @ '', which does not satisfy '' @ quoted rng))))"

definition rendered_constraint :: "capability_requirement \<Rightarrow> string" where
  "rendered_constraint r =
     (case requirement_version r of None \<Rightarrow> [] | Some version \<Rightarrow> '' version '' @ quoted version)"

definition requirement_accepts :: "capability_requirement \<Rightarrow> string \<Rightarrow> bool res" where
  "requirement_accepts r version =
     (case requirement_version r of None \<Rightarrow> Inr True | Some rng \<Rightarrow> version_satisfies version rng)"

definition keep_compatible ::
  "string option \<Rightarrow> capability_requirement \<Rightarrow> offer list \<Rightarrow> offer \<Rightarrow> (offer list) res"
where
  "keep_compatible pin r compatible = (\<lambda>(c, p).
     if pin \<noteq> None \<and> pin \<noteq> Some (cand_id c) then Inr compatible
     else and_then (requirement_accepts r (provision_version p)) (\<lambda>ok.
       Inr (if ok then compatible @ [(c, p)] else compatible)))"

definition no_compatible :: "string option \<Rightarrow> capability_requirement \<Rightarrow> error" where
  "no_compatible pin r =
     coded ''COMPOSITION_VERSION_CONFLICT'' Validation
       (case pin of
          Some pin \<Rightarrow> ''provider pin '' @ quoted pin @ '' cannot satisfy capability '' @
            quoted (requirement_capability r) @ rendered_constraint r
        | None \<Rightarrow> ''providers for capability '' @ quoted (requirement_capability r) @ '' do not satisfy'' @
            rendered_constraint r)"

definition singleton_ambiguity :: "capability_requirement \<Rightarrow> offer list \<Rightarrow> error" where
  "singleton_ambiguity r compatible =
     with_hint (''pin one provider in [providers], for example '' @ quoted (requirement_capability r) @
       '' = '' @ quoted (cand_id (fst (hd compatible))))
     (coded ''COMPOSITION_SINGLETON_COLLISION'' Validation
       (''singleton capability '' @ quoted (requirement_capability r) @
        '' has multiple compatible providers: '' @
        join '', '' (map (\<lambda>(c, _). cand_id c) compatible)))"

definition target_offers ::
  "composition_manifest \<Rightarrow> candidate list \<Rightarrow> capability_requirement \<Rightarrow> string option \<Rightarrow> (offer list) res"
where
  "target_offers m candidates r pin =
     (let providers = offers candidates (requirement_capability r);
          target_compatible = filter (\<lambda>(c, _). target_matches c (manifest_target m)) providers
      in if providers = []
         then Inl (coded ''COMPOSITION_MISSING_PROVIDER'' Validation
                (''no artifact provides capability '' @ quoted (requirement_capability r)))
         else if target_compatible = []
         then Inl (coded ''COMPOSITION_TARGET_CONFLICT'' Validation
                (''providers for capability '' @ quoted (requirement_capability r) @
                 '' do not support target '' @ quoted (manifest_target m)))
         else case pin of
           None \<Rightarrow> Inr target_compatible
         | Some p \<Rightarrow>
             if \<not> list_ex (\<lambda>(c, _). cand_id c = p) target_compatible
             then Inl (coded ''COMPOSITION_PROVIDER_PIN_MISMATCH'' Validation
                    (''provider pin '' @ quoted p @
                     '' does not name a target-compatible provider for '' @ quoted (requirement_capability r)))
             else Inr target_compatible)"

definition choose_provider ::
  "composition_manifest \<Rightarrow> candidate list \<Rightarrow> capability_requirement \<Rightarrow> string option \<Rightarrow> offer res"
where
  "choose_provider m candidates r pin =
     and_then (target_offers m candidates r pin) (\<lambda>target_compatible.
     and_then (try_fold (keep_compatible pin r) [] target_compatible) (\<lambda>compatible.
       if compatible = [] then Inl (no_compatible pin r)
       else if 1 < length compatible \<and> pin = None
               \<and> list_ex (\<lambda>(_, p). provision_singleton p) compatible
       then Inl (singleton_ambiguity r compatible)
       else Inr (hd (sort_key (\<lambda>(c, _). candidate_key c) compatible))))"

section \<open>The worklist\<close>

type_synonym work = "string option \<times> capability_requirement"

record selection =
  sel_components :: "(string, candidate) btree_map"
  sel_providers :: "(string, candidate \<times> string) btree_map"
  sel_edges :: "(string \<times> string) btree_set"

definition pin_conflict :: "category \<Rightarrow> string \<Rightarrow> error" where
  "pin_conflict category message = coded ''COMPOSITION_PROVIDER_PIN_CONFLICT'' category message"

definition requirement_pin :: "composition_manifest \<Rightarrow> capability_requirement \<Rightarrow> (string option) res" where
  "requirement_pin m r =
     (case (requirement_provider r, bt_get (manifest_providers m) (requirement_capability r)) of
        (Some loc, Some glob) \<Rightarrow>
          if loc \<noteq> glob
          then Inl (pin_conflict Configuration
                 (''requirement '' @ quoted (requirement_capability r) @ '' pins '' @ quoted loc @
                  '', but providers pins '' @ quoted glob))
          else Inr (Some loc)
      | (Some loc, None) \<Rightarrow> Inr (Some loc)
      | (None, glob) \<Rightarrow> Inr glob)"

definition add_edge :: "string \<Rightarrow> string option \<Rightarrow> (string \<times> string) btree_set \<Rightarrow> (string \<times> string) btree_set" where
  "add_edge provider consumer edges =
     (case consumer of None \<Rightarrow> edges | Some c \<Rightarrow> bs_insert (provider, c) edges)"

definition reuse_provider ::
  "capability_requirement \<Rightarrow> string option \<Rightarrow> candidate \<times> string \<Rightarrow> unit res"
where
  "reuse_provider r pin = (\<lambda>(provider, version).
     if pin \<noteq> None \<and> pin \<noteq> Some (cand_id provider)
     then Inl (pin_conflict Validation
            (''capability '' @ quoted (requirement_capability r) @ '' already resolves to '' @
             quoted (cand_id provider) @ '', not pinned '' @
             quoted (case pin of None \<Rightarrow> cand_id provider | Some p \<Rightarrow> p)))
     else require_version r version (cand_id provider))"

definition select_provider :: "string option \<Rightarrow> capability_requirement \<Rightarrow> offer \<Rightarrow> selection \<Rightarrow> selection" where
  "select_provider consumer r = (\<lambda>(provider, provision) st.
     \<lparr> sel_components = bt_insert (cand_id provider) provider (sel_components st),
       sel_providers = bt_insert (requirement_capability r) (provider, provision_version provision)
         (sel_providers st),
       sel_edges = add_edge (cand_id provider) consumer (sel_edges st) \<rparr>)"

definition dependencies :: "candidate \<Rightarrow> work list" where
  "dependencies provider =
     map (\<lambda>d. (Some (cand_id provider), d))
       (sort_key requirement_key (contract_requires (cand_contract provider)))"

definition resolve_requirement ::
  "composition_manifest \<Rightarrow> candidate list \<Rightarrow> selection \<Rightarrow> work \<Rightarrow> (selection \<times> work list) res"
where
  "resolve_requirement m candidates st = (\<lambda>(consumer, r).
     and_then (validate_requirement r) (\<lambda>_.
     and_then (requirement_pin m r) (\<lambda>pin.
       case bt_get (sel_providers st) (requirement_capability r) of
         Some chosen \<Rightarrow>
           and_then (reuse_provider r pin chosen) (\<lambda>_.
             Inr (st \<lparr> sel_edges := add_edge (cand_id (fst chosen)) consumer (sel_edges st) \<rparr>, []))
       | None \<Rightarrow>
           and_then (choose_provider m candidates r pin) (\<lambda>offer.
             Inr (select_provider consumer r offer st,
                  if bt_get (sel_components st) (cand_id (fst offer)) = None
                  then dependencies (fst offer) else [])))))"

lemma offers_candidate: "(c, p) \<in> set (offers cs cap) \<longleftrightarrow>
    c \<in> set cs \<and> p \<in> set (contract_provides (cand_contract c)) \<and> provision_capability p = cap"
  by (auto simp: offers_def)

lemma target_offers_subset:
  "target_offers m cs r pin = Inr os \<Longrightarrow>
   os = filter (\<lambda>(c, _). target_matches c (manifest_target m)) (offers cs (requirement_capability r))"
  by (auto simp: target_offers_def Let_def split: if_splits option.splits)

lemma keep_compatible_loop:
  "try_fold (keep_compatible pin r) acc os = Inr res \<Longrightarrow>
   res = acc @ filter (\<lambda>(c, p). (pin = None \<or> pin = Some (cand_id c))
     \<and> requirement_accepts r (provision_version p) = Inr True) os"
proof (induction os arbitrary: acc)
  case (Cons off os)
  obtain acc' where step: "keep_compatible pin r acc off = Inr acc'"
      and rest: "try_fold (keep_compatible pin r) acc' os = Inr res"
    using Cons.prems by (auto simp: res_simps)
  show ?case
    unfolding Cons.IH [OF rest] using step
    by (cases off) (auto simp: keep_compatible_def res_simps split: if_splits)
qed simp

lemma hd_sort_key: "xs \<noteq> [] \<Longrightarrow> hd (sort_key f xs) \<in> set xs"
  by (metis hd_in_set length_0_conv length_sort set_sort)

lemma choose_provider_ok:
  assumes "choose_provider m cs r pin = Inr (c, p)"
  shows "(c, p) \<in> set (offers cs (requirement_capability r)) \<and> target_matches c (manifest_target m)
     \<and> (pin = None \<or> pin = Some (cand_id c)) \<and> requirement_accepts r (provision_version p) = Inr True"
proof -
  obtain os compatible where os: "target_offers m cs r pin = Inr os"
      and loop: "try_fold (keep_compatible pin r) [] os = Inr compatible"
      and ne: "compatible \<noteq> []" and choice: "(c, p) = hd (sort_key (\<lambda>(c, _). candidate_key c) compatible)"
    using assms by (auto simp: choose_provider_def res_simps split: if_splits)
  have "(c, p) \<in> set compatible"
    unfolding choice using ne by (rule hd_sort_key)
  then show ?thesis
    using keep_compatible_loop [OF loop] target_offers_subset [OF os] by auto
qed

text \<open>The components that can still be selected.\<close>

definition unselected :: "candidate list \<Rightarrow> selection \<Rightarrow> nat" where
  "unselected candidates st = card (cand_id ` set candidates - fst ` set (sel_components st))"

lemma resolve_requirement_progress:
  assumes "resolve_requirement m cs st w = Inr (st', new)"
  shows "unselected cs st' < unselected cs st \<or> unselected cs st' = unselected cs st \<and> new = []"
proof -
  obtain consumer r where w: "w = (consumer, r)" by (cases w)
  from assms consider (reuse) "sel_components st' = sel_components st" "new = []"
    | (select) pin c p where "choose_provider m cs r pin = Inr (c, p)"
        "sel_components st' = bt_insert (cand_id c) c (sel_components st)"
        "new = (if bt_get (sel_components st) (cand_id c) = None then dependencies c else [])"
    unfolding resolve_requirement_def w
    by (auto simp: res_simps select_provider_def split: option.splits)
  then show ?thesis
  proof cases
    case reuse
    then show ?thesis by (simp add: unselected_def)
  next
    case (select pin c p)
    have c: "c \<in> set cs"
      using choose_provider_ok [OF select(1)] by (simp add: offers_candidate)
    show ?thesis
    proof (cases "cand_id c \<in> fst ` set (sel_components st)")
      case True
      then show ?thesis
        using select by (auto simp: unselected_def insert_absorb map_of_eq_None_iff)
    next
      case False
      then have "cand_id ` set cs - fst ` set (sel_components st') \<subset> cand_id ` set cs - fst ` set (sel_components st)"
        using c select(2) by auto
      then show ?thesis
        unfolding unselected_def by (intro disjI1 psubset_card_mono) auto
    qed
  qed
qed

function resolve_loop ::
  "composition_manifest \<Rightarrow> candidate list \<Rightarrow> work list \<Rightarrow> selection \<Rightarrow> selection res"
where
  "resolve_loop m candidates [] st = Inr st"
| "resolve_loop m candidates (w # queue) st =
     (case resolve_requirement m candidates st w of
        Inl e \<Rightarrow> Inl e
      | Inr (st', new) \<Rightarrow> resolve_loop m candidates (queue @ new) st')"
  by pat_completeness auto
termination
proof (relation "measures [\<lambda>(m, cs, q, st). unselected cs st, \<lambda>(m, cs, q, st). length q]", goal_cases)
  case (2 m cs w q st r st' new)
  then show ?case
    using resolve_requirement_progress [of m cs st w st' new] by auto
qed simp

definition initial_queue :: "composition_manifest \<Rightarrow> work list" where
  "initial_queue m =
     sort_key (\<lambda>(_, r). requirement_key r) (map (\<lambda>r. (None, r)) (manifest_requirements m))"

definition empty_selection :: selection where
  "empty_selection = \<lparr> sel_components = [], sel_providers = [], sel_edges = [] \<rparr>"

section \<open>Checks over the selection\<close>

definition check_unused_pin :: "selection \<Rightarrow> string \<times> string \<Rightarrow> unit res" where
  "check_unused_pin st = (\<lambda>(cap, provider).
     if bt_get (sel_providers st) cap = None
     then Inl (coded ''COMPOSITION_UNUSED_PROVIDER_PIN'' Configuration
            (''provider pin '' @ quoted cap @ '' = '' @ quoted provider @
             '' does not select a declared or transitive requirement''))
     else Inr ())"

type_synonym components_map = "(string, candidate) btree_map"

definition note_provision ::
  "string \<Rightarrow> (string, bool \<times> string list) btree_map \<Rightarrow> capability_provision
     \<Rightarrow> (string, bool \<times> string list) btree_map"
where
  "note_provision component providers p =
     (let (has_singleton, sources) =
            (case bt_get providers (provision_capability p) of None \<Rightarrow> (False, []) | Some v \<Rightarrow> v)
      in bt_insert (provision_capability p)
           (has_singleton \<or> provision_singleton p, sources @ [component]) providers)"

definition singleton_sources :: "components_map \<Rightarrow> (string, bool \<times> string list) btree_map" where
  "singleton_sources selected =
     foldl (\<lambda>acc c. foldl (note_provision (cand_id c)) acc (contract_provides (cand_contract c)))
       [] (map snd selected)"

definition check_singletons :: "components_map \<Rightarrow> unit res" where
  "check_singletons selected =
     for_each (\<lambda>(cap, has_singleton, sources).
       if has_singleton \<and> 1 < length sources
       then Inl (coded ''COMPOSITION_SINGLETON_COLLISION'' Validation
              (''selected components '' @ join '', '' sources @ '' all provide singleton capability '' @
               quoted cap))
       else Inr ()) (singleton_sources selected)"

definition push_entry :: "string \<Rightarrow> 'a \<Rightarrow> (string, 'a list) btree_map \<Rightarrow> (string, 'a list) btree_map" where
  "push_entry k v m = bt_insert k ((case bt_get m k of None \<Rightarrow> [] | Some vs \<Rightarrow> vs) @ [v]) m"

definition abi_groups :: "components_map \<Rightarrow> (string, string list) btree_map" where
  "abi_groups selected =
     foldl (\<lambda>acc c. case compatibility_abi (contract_compatibility (cand_contract c)) of
              None \<Rightarrow> acc
            | Some a \<Rightarrow> push_entry a (cand_id c) acc) [] (map snd selected)"

definition check_abi :: "components_map \<Rightarrow> unit res" where
  "check_abi selected =
     (let by_abi = abi_groups selected
      in if length by_abi \<le> 1 then Inr ()
         else Inl (coded ''COMPOSITION_ABI_CONFLICT'' Validation
                (''selected components require incompatible ABIs: '' @
                 join ''; '' (map (\<lambda>(abi, ids). abi @ '' ('' @ join '', '' ids @ '')'') by_abi))))"

definition check_openusd_component :: "string \<Rightarrow> candidate \<Rightarrow> unit res" where
  "check_openusd_component version c =
     (case compatibility_usd (contract_compatibility (cand_contract c)) of
        None \<Rightarrow> Inr ()
      | Some rng \<Rightarrow> and_then (version_satisfies version rng) (\<lambda>ok.
          if \<not> ok
          then Inl (coded ''COMPOSITION_OPENUSD_CONFLICT'' Validation
                 (''component '' @ quoted (cand_id c) @ '' requires OpenUSD '' @ quoted rng @
                  '', but selected provider is '' @ version))
          else Inr ()))"

definition check_openusd :: "(string, candidate \<times> string) btree_map \<Rightarrow> components_map \<Rightarrow> unit res" where
  "check_openusd providers selected =
     (case bt_get providers ''usd'' of
        None \<Rightarrow> Inr ()
      | Some (_, version) \<Rightarrow> for_each (check_openusd_component version) (map snd selected))"

section \<open>Environment and installation\<close>

record resolved_environment =
  renv_variable :: string
  renv_operation :: string
  renv_source :: string
  renv_values :: "string list"

type_synonym contributions = "(string \<times> environment_contribution) list"

definition by_variable :: "components_map \<Rightarrow> (string, contributions) btree_map" where
  "by_variable selected =
     foldl (\<lambda>acc c. foldl (\<lambda>acc e. push_entry (contribution_variable e) (cand_id c, e) acc)
              acc (contract_environment (cand_contract c))) [] (map snd selected)"

definition resolve_variable ::
  "resolved_environment list \<Rightarrow> string \<times> contributions \<Rightarrow> (resolved_environment list) res"
where
  "resolve_variable resolved = (\<lambda>(variable, contributions).
     let contributions = sort_key fst contributions;
         sets = filter (\<lambda>(_, e). contribution_operation e = SetTo) contributions;
         distincts = remdups (map (\<lambda>(_, e). contribution_values e) sets)
     in if sets \<noteq> [] \<and> (length sets \<noteq> length contributions \<or> length distincts \<noteq> 1)
        then Inl (coded ''COMPOSITION_ENVIRONMENT_CONFLICT'' Validation
               (''environment variable '' @ quoted variable @
                '' has incompatible set/list contributions from '' @ join '', '' (map fst contributions)))
        else Inr (resolved @ map (\<lambda>(source, e).
               \<lparr> renv_variable = variable,
                 renv_operation = environment_operation_as_str (contribution_operation e),
                 renv_source = source, renv_values = contribution_values e \<rparr>) contributions))"

definition resolve_environment :: "components_map \<Rightarrow> (resolved_environment list) res" where
  "resolve_environment selected = try_fold resolve_variable [] (by_variable selected)"

record resolved_install =
  rinst_destination :: string
  rinst_component :: string
  rinst_artifact :: string
  rinst_source :: string

definition normalize_relative_path :: "string \<Rightarrow> string" where
  "normalize_relative_path path =
     join ''/'' (filter (\<lambda>part. part \<noteq> [] \<and> part \<noteq> ''.'') (split_on any_slash path))"

definition install_step ::
  "(string, string \<times> string) btree_map \<times> resolved_install list \<Rightarrow> candidate \<times> install_mapping
     \<Rightarrow> ((string, string \<times> string) btree_map \<times> resolved_install list) res"
where
  "install_step = (\<lambda>(owners, resolved) (c, mapping).
     let normalized = normalize_relative_path (mapping_destination mapping);
         key = to_ascii_lowercase normalized
     in case bt_get owners key of
          Some (owner, destination) \<Rightarrow>
            Inl (coded ''COMPOSITION_INSTALL_PATH_COLLISION'' Validation
              (''components '' @ quoted owner @ '' and '' @ quoted (cand_id c) @ '' both install '' @
               quoted destination @ ''/ '' @ quoted (mapping_destination mapping)))
        | None \<Rightarrow>
            Inr (bt_insert key (cand_id c, mapping_destination mapping) owners,
                 resolved @ [\<lparr> rinst_destination = normalized, rinst_component = cand_id c,
                   rinst_artifact = record_digest (cand_record c),
                   rinst_source = normalize_relative_path (mapping_source mapping) \<rparr>]))"

definition install_mappings :: "components_map \<Rightarrow> (candidate \<times> install_mapping) list" where
  "install_mappings selected =
     concat (map (\<lambda>c. map (\<lambda>i. (c, i)) (contract_install (cand_contract c))) (map snd selected))"

definition resolve_install :: "components_map \<Rightarrow> (resolved_install list) res" where
  "resolve_install selected =
     and_then (try_fold install_step ([], []) (install_mappings selected)) (\<lambda>(_, resolved).
       Inr (sort_key (\<lambda>i. (rinst_destination i, rinst_component i, rinst_source i)) resolved))"

section \<open>The resolved composition\<close>

record resolved_component =
  rcomp_id :: string
  rcomp_kind :: string
  rcomp_version :: string
  rcomp_digest :: string
  rcomp_target :: string

record resolved_provider =
  rprov_capability :: string
  rprov_component :: string
  rprov_version :: string
  rprov_digest :: string

record composition_conflict =
  conflict_code :: string
  conflict_subject :: string
  conflict_sources :: "string list"
  conflict_reason :: string

record resolved_composition =
  resolved_schema :: string
  resolved_name :: string
  resolved_target :: string
  resolved_manifest_digest :: string
  resolved_composition_digest :: string
  resolved_components :: "resolved_component list"
  resolved_providers :: "resolved_provider list"
  resolved_environment_of :: "resolved_environment list"
  resolved_install_of :: "resolved_install list"
  resolved_conflicts :: "composition_conflict list"

definition component_of :: "components_map \<Rightarrow> string \<Rightarrow> resolved_component option" where
  "component_of selected k =
     map_option (\<lambda>c. \<lparr> rcomp_id = k, rcomp_kind = component_kind_as_str (contract_kind (cand_contract c)),
       rcomp_version = contract_version (cand_contract c), rcomp_digest = record_digest (cand_record c),
       rcomp_target = record_target (cand_record c) \<rparr>) (bt_get selected k)"

definition provider_of :: "string \<times> candidate \<times> string \<Rightarrow> resolved_provider" where
  "provider_of = (\<lambda>(cap, c, version).
     \<lparr> rprov_capability = cap, rprov_component = cand_id c, rprov_version = version,
       rprov_digest = record_digest (cand_record c) \<rparr>)"

text \<open>The serialisers of serde_json and the hash.\<close>

record composition_encoder =
  enc_manifest :: "composition_manifest \<Rightarrow> string + byte list"
  enc_resolved :: "resolved_composition \<Rightarrow> string + byte list"
  enc_sha :: "byte list \<Rightarrow> byte list"

definition select_components :: "composition_manifest \<Rightarrow> artifact_record list \<Rightarrow> selection res" where
  "select_components m records =
     and_then (manifest_validate m) (\<lambda>_.
     and_then (load_candidates m records) (\<lambda>candidates.
     and_then (resolve_loop m candidates (initial_queue m) empty_selection) (\<lambda>st.
     and_then (for_each (check_unused_pin st) (manifest_providers m)) (\<lambda>_.
     and_then (check_singletons (sel_components st)) (\<lambda>_.
     and_then (check_abi (sel_components st)) (\<lambda>_.
     and_then (check_openusd (sel_providers st) (sel_components st)) (\<lambda>_. Inr st)))))))"

definition seal_resolution :: "composition_encoder \<Rightarrow> resolved_composition \<Rightarrow> resolved_composition res" where
  "seal_resolution enc resolved =
     (case enc_resolved enc resolved of
        Inl e \<Rightarrow> Inl (Operation (''cannot serialize resolved composition: '' @ e))
      | Inr bytes \<Rightarrow> Inr (resolved \<lparr> resolved_composition_digest := sha256_hex (enc_sha enc) bytes \<rparr>))"

definition finish_resolution ::
  "composition_encoder \<Rightarrow> composition_manifest \<Rightarrow> selection \<Rightarrow> resolved_component list \<Rightarrow> resolved_composition res"
where
  "finish_resolution enc m st ordered_components =
     and_then (resolve_environment (sel_components st)) (\<lambda>environment.
     and_then (resolve_install (sel_components st)) (\<lambda>install.
     and_then (manifest_digest (enc_manifest enc) (enc_sha enc) m) (\<lambda>digest.
       let resolved =
         \<lparr> resolved_schema = RESOLVED_COMPOSITION_SCHEMA, resolved_name = manifest_name m,
           resolved_target = manifest_target m, resolved_manifest_digest = digest,
           resolved_composition_digest = [], resolved_components = ordered_components,
           resolved_providers = map provider_of (sel_providers st),
           resolved_environment_of = environment, resolved_install_of = install,
           resolved_conflicts = [] \<rparr>
       in seal_resolution enc resolved)))"

text \<open>\<^const>\<open>None\<close> is a panic: of the ordering, or of the index \<^verbatim>\<open>selected[id]\<close>.\<close>

definition resolve_runtime_composition ::
  "composition_encoder \<Rightarrow> composition_manifest \<Rightarrow> artifact_record list \<Rightarrow> (resolved_composition res) option"
where
  "resolve_runtime_composition enc m records =
     (case select_components m records of
        Inl e \<Rightarrow> Some (Inl e)
      | Inr st \<Rightarrow>
          (case topological_order (bt_keys (sel_components st)) (sel_edges st) of
             None \<Rightarrow> None
           | Some (Inl e) \<Rightarrow> Some (Inl e)
           | Some (Inr order) \<Rightarrow>
               map_option (finish_resolution enc m st) (collect_opt (map (component_of (sel_components st)) order))))"

end
