(* ===== verification/CompositionSoundness.thy ===== *)
theory CompositionSoundness
  imports CompositionResolver "HOL-Library.Multiset"
begin

text \<open>
  What a resolved composition guarantees: every declared and every transitive requirement is
  served by a selected, target-compatible provider of an accepted version, pins are honoured,
  the components are listed after the components they require, singleton capabilities and
  ABIs are unambiguous, installed paths do not collide, and the result does not depend on the
  order of the inputs.
\<close>

section \<open>What a selection guarantees\<close>

text \<open>
  A work item is served: its capability has a chosen provider whose version the requirement
  accepts, that is the pinned one if a pin exists, and with an edge to the consumer.
\<close>

definition served :: "composition_manifest \<Rightarrow> selection \<Rightarrow> work \<Rightarrow> bool" where
  "served m st = (\<lambda>(consumer, r). \<exists>c v.
     bt_get (sel_providers st) (requirement_capability r) = Some (c, v)
     \<and> requirement_accepts r v = Inr True
     \<and> (\<exists>pin. requirement_pin m r = Inr pin \<and> (pin = None \<or> pin = Some (cand_id c)))
     \<and> (\<forall>k. consumer = Some k \<longrightarrow> (cand_id c, k) \<in> set (sel_edges st)))"

definition provider_ok :: "composition_manifest \<Rightarrow> candidate list \<Rightarrow> components_map \<Rightarrow> string \<Rightarrow> candidate \<times> string \<Rightarrow> bool" where
  "provider_ok m cs selected cap = (\<lambda>(c, v).
     c \<in> set cs \<and> bt_get selected (cand_id c) = Some c \<and> target_matches c (manifest_target m)
     \<and> (\<exists>p \<in> set (contract_provides (cand_contract c)). provision_capability p = cap \<and> provision_version p = v)
     \<and> (\<forall>g. bt_get (manifest_providers m) cap = Some g \<longrightarrow> cand_id c = g))"

definition tables_ok :: "composition_manifest \<Rightarrow> candidate list \<Rightarrow> selection \<Rightarrow> bool" where
  "tables_ok m cs st \<longleftrightarrow>
     bt_ok (sel_components st) \<and> bt_ok (sel_providers st)
     \<and> (\<forall>k c. bt_get (sel_components st) k = Some c \<longrightarrow> c \<in> set cs \<and> cand_id c = k)
     \<and> (\<forall>cap cv. bt_get (sel_providers st) cap = Some cv \<longrightarrow> provider_ok m cs (sel_components st) cap cv)
     \<and> set (sel_edges st) \<subseteq> set (bt_keys (sel_components st)) \<times> set (bt_keys (sel_components st))"

definition work_ok :: "selection \<Rightarrow> work list \<Rightarrow> bool" where
  "work_ok st queue \<longleftrightarrow> (\<forall>(consumer, r) \<in> set queue. \<forall>k. consumer = Some k \<longrightarrow> k \<in> set (bt_keys (sel_components st)))"

definition pending :: "composition_manifest \<Rightarrow> selection \<Rightarrow> work list \<Rightarrow> bool" where
  "pending m st queue \<longleftrightarrow>
     (\<forall>k c. bt_get (sel_components st) k = Some c \<longrightarrow>
        (\<forall>d \<in> set (contract_requires (cand_contract c)). served m st (Some k, d) \<or> (Some k, d) \<in> set queue))"

lemma served_mono:
  assumes "served m st w"
    and "\<And>cap cv. bt_get (sel_providers st) cap = Some cv \<Longrightarrow> bt_get (sel_providers st') cap = Some cv"
    and "set (sel_edges st) \<subseteq> set (sel_edges st')"
  shows "served m st' w"
  using assms unfolding served_def by (fastforce split: prod.splits)

lemma require_version_ok:
  "require_version r v provider = Inr () \<longleftrightarrow> requirement_accepts r v = Inr True"
  by (auto simp: require_version_def requirement_accepts_def res_simps split: option.splits if_splits)

lemma set_add_edge: "set (add_edge p consumer es) = (case consumer of None \<Rightarrow> {} | Some k \<Rightarrow> {(p, k)}) \<union> set es"
  by (auto simp: add_edge_def split: option.splits)

text \<open>The two ways a work item is resolved.\<close>

lemma resolve_requirement_cases:
  assumes "resolve_requirement m cs st (consumer, r) = Inr (st', new)"
  obtains (reuse) pin c v where "requirement_pin m r = Inr pin"
      "bt_get (sel_providers st) (requirement_capability r) = Some (c, v)"
      "pin = None \<or> pin = Some (cand_id c)" "requirement_accepts r v = Inr True"
      "st' = st \<lparr> sel_edges := add_edge (cand_id c) consumer (sel_edges st) \<rparr>" "new = []"
  | (select) pin c p where "requirement_pin m r = Inr pin"
      "bt_get (sel_providers st) (requirement_capability r) = None"
      "choose_provider m cs r pin = Inr (c, p)"
      "st' = select_provider consumer r (c, p) st"
      "new = (if bt_get (sel_components st) (cand_id c) = None then dependencies c else [])"
proof -
  obtain pin where pin: "requirement_pin m r = Inr pin"
    using assms by (auto simp: resolve_requirement_def res_simps)
  show ?thesis
  proof (cases "bt_get (sel_providers st) (requirement_capability r)")
    case None
    then obtain c p where "choose_provider m cs r pin = Inr (c, p)"
        "st' = select_provider consumer r (c, p) st"
        "new = (if bt_get (sel_components st) (cand_id c) = None then dependencies c else [])"
      using assms pin by (auto simp: resolve_requirement_def res_simps)
    with pin None select show ?thesis by blast
  next
    case (Some cv)
    obtain c v where cv: "cv = (c, v)" by (cases cv)
    have "pin = None \<or> pin = Some (cand_id c)" "requirement_accepts r v = Inr True"
        "st' = st \<lparr> sel_edges := add_edge (cand_id c) consumer (sel_edges st) \<rparr>" "new = []"
      using assms pin Some
      by (auto simp: resolve_requirement_def res_simps cv reuse_provider_def require_version_ok split: if_splits)
    with pin Some cv reuse show ?thesis by blast
  qed
qed

section \<open>The worklist keeps the guarantees\<close>

lemma unique_candidate:
  "distinct (map cand_id cs) \<Longrightarrow> c \<in> set cs \<Longrightarrow> c' \<in> set cs \<Longrightarrow> cand_id c = cand_id c' \<Longrightarrow> c = c'"
  by (auto simp: distinct_map dest: inj_onD)

lemma tables_okD:
  assumes "tables_ok m cs st"
  shows "bt_ok (sel_components st)" "bt_ok (sel_providers st)"
    and "bt_get (sel_components st) k = Some c \<Longrightarrow> c \<in> set cs \<and> cand_id c = k"
    and "bt_get (sel_providers st) cap = Some cv \<Longrightarrow> provider_ok m cs (sel_components st) cap cv"
    and "(p, k) \<in> set (sel_edges st) \<Longrightarrow>
      p \<in> set (bt_keys (sel_components st)) \<and> k \<in> set (bt_keys (sel_components st))"
  using assms unfolding tables_ok_def by blast+

lemma key_get: "bt_ok m \<Longrightarrow> k \<in> set (bt_keys m) \<longleftrightarrow> (\<exists>v. bt_get m k = Some v)"
  using btree.keys_get by (metis not_Some_eq)

text \<open>Tables grow: what was chosen stays chosen.\<close>

definition grows :: "selection \<Rightarrow> selection \<Rightarrow> bool" where
  "grows st st' \<longleftrightarrow>
     (\<forall>k c. bt_get (sel_components st) k = Some c \<longrightarrow> bt_get (sel_components st') k = Some c)
     \<and> (\<forall>cap cv. bt_get (sel_providers st) cap = Some cv \<longrightarrow> bt_get (sel_providers st') cap = Some cv)
     \<and> set (sel_edges st) \<subseteq> set (sel_edges st')"

lemma grows_served: "grows st st' \<Longrightarrow> served m st w \<Longrightarrow> served m st' w"
  unfolding grows_def by (rule served_mono) blast+

lemma grows_keys:
  "grows st st' \<Longrightarrow> bt_ok (sel_components st) \<Longrightarrow> bt_ok (sel_components st') \<Longrightarrow>
   set (bt_keys (sel_components st)) \<subseteq> set (bt_keys (sel_components st'))"
  unfolding grows_def by (metis key_get subsetI)

lemma step_grows:
  assumes "resolve_requirement m cs st (consumer, r) = Inr (st', new)"
    and "distinct (map cand_id cs)" "tables_ok m cs st"
  shows "grows st st'"
  using assms(1)
proof (cases rule: resolve_requirement_cases)
  case (reuse pin c v)
  then show ?thesis by (auto simp: grows_def set_add_edge)
next
  case (select pin c p)
  have "c \<in> set cs"
    using choose_provider_ok [OF select(3)] by (simp add: offers_candidate)
  then have "c' = c" if "bt_get (sel_components st) (cand_id c) = Some c'" for c'
    using tables_okD(3) [OF assms(3) that] unique_candidate [OF assms(2)] by auto
  then show ?thesis
    using select by (auto simp: grows_def select_provider_def set_add_edge)
qed

lemma provider_ok_mono:
  "provider_ok m cs (sel_components st) cap cv \<Longrightarrow> grows st st' \<Longrightarrow> provider_ok m cs (sel_components st') cap cv"
  by (auto simp: provider_ok_def grows_def split: prod.splits)

lemma requirement_pin_manifest:
  "requirement_pin m r = Inr pin \<Longrightarrow> bt_get (manifest_providers m) (requirement_capability r) = Some g \<Longrightarrow>
   pin = Some g"
  by (auto simp: requirement_pin_def split: option.splits if_splits)

lemma step_tables:
  assumes "resolve_requirement m cs st (consumer, r) = Inr (st', new)"
    and "distinct (map cand_id cs)" "tables_ok m cs st" "work_ok st [(consumer, r)]"
  shows "tables_ok m cs st'"
  using assms(1)
proof (cases rule: resolve_requirement_cases)
  case (reuse pin c v)
  have "provider_ok m cs (sel_components st) (requirement_capability r) (c, v)"
    by (rule tables_okD(4) [OF assms(3) reuse(2)])
  then have "cand_id c \<in> set (bt_keys (sel_components st))"
    using key_get [OF tables_okD(1) [OF assms(3)]] by (auto simp: provider_ok_def)
  then show ?thesis
    using assms(3,4) reuse(5) by (auto simp: tables_ok_def set_add_edge work_ok_def split: option.splits)
next
  case (select pin c p)
  have c: "c \<in> set cs" "p \<in> set (contract_provides (cand_contract c))"
      "provision_capability p = requirement_capability r" "target_matches c (manifest_target m)"
    using choose_provider_ok [OF select(3)] by (simp_all add: offers_candidate)
  have pinned: "cand_id c = g" if "bt_get (manifest_providers m) (requirement_capability r) = Some g" for g
    using requirement_pin_manifest [OF select(1) that] choose_provider_ok [OF select(3)] by simp
  note grown = step_grows [OF assms(1-3)]
  have st': "sel_components st' = bt_insert (cand_id c) c (sel_components st)"
      "sel_providers st' = bt_insert (requirement_capability r) (c, provision_version p) (sel_providers st)"
      "sel_edges st' = add_edge (cand_id c) consumer (sel_edges st)"
    by (simp_all add: select(4) select_provider_def)
  have "provider_ok m cs (sel_components st') cap cv" if "bt_get (sel_providers st') cap = Some cv" for cap cv
  proof (cases "cap = requirement_capability r")
    case True
    then show ?thesis
      using that c pinned by (auto simp: st' provider_ok_def)
  next
    case False
    then show ?thesis
      using that tables_okD(4) [OF assms(3)] provider_ok_mono [OF _ grown] by (auto simp: st'(2))
  qed
  moreover have "c' \<in> set cs \<and> cand_id c' = k" if "bt_get (sel_components st') k = Some c'" for k c'
    using that c(1) tables_okD(3) [OF assms(3)] by (auto simp: st'(1) split: if_splits)
  moreover have "set (sel_edges st') \<subseteq> set (bt_keys (sel_components st')) \<times> set (bt_keys (sel_components st'))"
  proof clarify
    fix a b
    assume "(a, b) \<in> set (sel_edges st')"
    then consider "(a, b) \<in> set (sel_edges st)" | "a = cand_id c" "consumer = Some b"
      by (auto simp: st'(3) set_add_edge split: option.splits)
    then show "a \<in> set (bt_keys (sel_components st')) \<and> b \<in> set (bt_keys (sel_components st'))"
    proof cases
      case 1
      then show ?thesis
        using tables_okD(5) [OF assms(3)] by (simp add: st'(1))
    next
      case 2
      then show ?thesis
        using assms(4) by (simp add: st'(1) work_ok_def)
    qed
  qed
  moreover have "bt_ok (sel_components st')" "bt_ok (sel_providers st')"
    unfolding st'(1,2) using tables_okD(1,2) [OF assms(3)] by (auto intro: bt_ok_insert)
  ultimately show ?thesis
    unfolding tables_ok_def by blast
qed

lemma step_served:
  assumes "resolve_requirement m cs st (consumer, r) = Inr (st', new)"
  shows "served m st' (consumer, r)"
  using assms
proof (cases rule: resolve_requirement_cases)
  case (reuse pin c v)
  then show ?thesis
    by (auto simp: served_def set_add_edge)
next
  case (select pin c p)
  have "requirement_accepts r (provision_version p) = Inr True" "pin = None \<or> pin = Some (cand_id c)"
    using choose_provider_ok [OF select(3)] by auto
  with select show ?thesis
    by (auto simp: served_def select_provider_def set_add_edge)
qed

lemma step_pending:
  assumes "resolve_requirement m cs st (consumer, r) = Inr (st', new)"
    and "distinct (map cand_id cs)" "tables_ok m cs st" "pending m st ((consumer, r) # queue)"
  shows "pending m st' (queue @ new)"
proof -
  note grown = step_grows [OF assms(1-3)] and now_served = step_served [OF assms(1)]
  have old: "served m st' (Some k, d) \<or> (Some k, d) \<in> set (queue @ new)"
    if "bt_get (sel_components st) k = Some c" "d \<in> set (contract_requires (cand_contract c))" for k c d
    using assms(4) that grows_served [OF grown] now_served unfolding pending_def by fastforce
  from assms(1) show ?thesis
  proof (cases rule: resolve_requirement_cases)
    case (reuse pin c v)
    then have "sel_components st' = sel_components st" by simp
    then show ?thesis
      using old unfolding pending_def by auto
  next
    case (select pin c p)
    have comps: "sel_components st' = bt_insert (cand_id c) c (sel_components st)"
      by (simp add: select(4) select_provider_def)
    have "(Some k, d) \<in> set new"
      if "bt_get (sel_components st) k = None" "bt_get (sel_components st') k = Some c'"
        "d \<in> set (contract_requires (cand_contract c'))" for k c' d
      using that select(5) by (auto simp: comps dependencies_def split: if_splits)
    then show ?thesis
      using old grown unfolding pending_def grows_def
      by (metis Un_iff not_None_eq option.inject set_append)
  qed
qed

lemma work_ok_iff:
  "work_ok st queue \<longleftrightarrow> (\<forall>k r. (Some k, r) \<in> set queue \<longrightarrow> k \<in> set (bt_keys (sel_components st)))"
  by (auto simp: work_ok_def)

lemma step_work:
  assumes "resolve_requirement m cs st (consumer, r) = Inr (st', new)"
    and "distinct (map cand_id cs)" "tables_ok m cs st" "work_ok st ((consumer, r) # queue)"
  shows "work_ok st' (queue @ new)"
proof -
  have "tables_ok m cs st'"
    using assms by (intro step_tables [OF assms(1-3)]) (auto simp: work_ok_def)
  then have keys: "set (bt_keys (sel_components st)) \<subseteq> set (bt_keys (sel_components st'))"
    using grows_keys [OF step_grows [OF assms(1-3)]] tables_okD(1) assms(3) by blast
  from assms(1) have "work_ok st' new"
  proof (cases rule: resolve_requirement_cases)
    case (select pin c p)
    then show ?thesis
      by (auto simp: work_ok_def dependencies_def select_provider_def)
  qed (simp add: work_ok_def)
  then have new: "k \<in> set (bt_keys (sel_components st'))" if "(Some k, d) \<in> set new" for k d
    using that unfolding work_ok_iff by blast
  have old: "k \<in> set (bt_keys (sel_components st'))" if "(Some k, d) \<in> set queue" for k d
    using that keys assms(4) unfolding work_ok_iff by (meson list.set_intros(2) subsetD)
  show ?thesis
    unfolding work_ok_iff set_append using old new by blast
qed

lemma resolve_loop_guarantees:
  assumes "resolve_loop m cs queue st = Inr final"
    and "distinct (map cand_id cs)" "tables_ok m cs st" "work_ok st queue" "pending m st queue"
  shows "tables_ok m cs final \<and> pending m final [] \<and> grows st final
     \<and> (\<forall>w \<in> set queue. served m final w)"
  using assms
proof (induction m cs queue st rule: resolve_loop.induct)
  case (1 m cs st)
  then show ?case by (simp add: grows_def)
next
  case (2 m cs w queue st)
  obtain consumer r where w: "w = (consumer, r)" by (cases w)
  obtain st' new where step: "resolve_requirement m cs st (consumer, r) = Inr (st', new)"
      and rest: "resolve_loop m cs (queue @ new) st' = Inr final"
    using "2.prems"(1) by (auto simp: w split: sum.splits)
  have one: "work_ok st [(consumer, r)]"
    using "2.prems"(4) by (auto simp: work_ok_def w)
  note prems = "2.prems" [unfolded w]
  have tables: "tables_ok m cs st'"
    by (rule step_tables [OF step prems(2,3) one])
  have IH: "tables_ok m cs final \<and> pending m final [] \<and> grows st' final \<and> (\<forall>w \<in> set (queue @ new). served m final w)"
    using "2.IH" [of "(st', new)"] step rest tables prems(2)
      step_work [OF step prems(2-4)] step_pending [OF step prems(2,3,5)] by (simp add: w)
  moreover have "served m final (consumer, r)"
    using grows_served step_served [OF step] IH by blast
  moreover have "grows st final"
    using step_grows [OF step prems(2,3)] IH unfolding grows_def by auto
  ultimately show ?case
    by (simp add: w)
qed

section \<open>Candidates\<close>

definition as_candidate :: "artifact_record \<Rightarrow> candidate" where
  "as_candidate r = \<lparr> cand_record = r, cand_contract = the (record_component r) \<rparr>"

definition admissible :: "string list \<Rightarrow> artifact_record \<Rightarrow> bool" where
  "admissible declared r \<longleftrightarrow>
     record_digest r \<in> set declared \<and> full_digest (record_digest r)
     \<and> (\<exists>contract. record_component r = Some contract \<and> contract_validate contract = Inr ()
          \<and> contract_id contract = record_name r \<and> contract_version contract = record_version r)"

lemma admit_record_ok:
  "admit_record declared (ids, cs) r = Inr (ids', cs') \<longleftrightarrow>
     admissible declared r \<and> cand_id (as_candidate r) \<notin> set ids
     \<and> ids' = bs_insert (cand_id (as_candidate r)) ids \<and> cs' = cs @ [as_candidate r]"
  by (auto simp: admit_record_def admissible_def as_candidate_def validate_full_digest_def res_simps
      split: option.splits if_splits)

lemma admit_loop_ok:
  "(\<exists>ids'. try_fold (admit_record declared) (ids, cs) rs = Inr (ids', cs')) \<longleftrightarrow>
     (\<forall>r \<in> set rs. admissible declared r) \<and> distinct (map (cand_id \<circ> as_candidate) rs)
     \<and> set ids \<inter> (cand_id \<circ> as_candidate) ` set rs = {} \<and> cs' = cs @ map as_candidate rs"
proof (induction rs arbitrary: ids cs)
  case Nil
  then show ?case by auto
next
  case (Cons r rs)
  have "(\<exists>ids'. try_fold (admit_record declared) (ids, cs) (r # rs) = Inr (ids', cs')) \<longleftrightarrow>
      admissible declared r \<and> cand_id (as_candidate r) \<notin> set ids
      \<and> (\<exists>ids'. try_fold (admit_record declared)
            (bs_insert (cand_id (as_candidate r)) ids, cs @ [as_candidate r]) rs = Inr (ids', cs'))"
    by (auto simp: res_simps admit_record_ok)
  also have "\<dots> \<longleftrightarrow> (\<forall>r \<in> set (r # rs). admissible declared r) \<and> distinct (map (cand_id \<circ> as_candidate) (r # rs))
     \<and> set ids \<inter> (cand_id \<circ> as_candidate) ` set (r # rs) = {} \<and> cs' = cs @ map as_candidate (r # rs)"
    unfolding Cons.IH by auto
  finally show ?case .
qed

lemma load_candidates_ok:
  "load_candidates m records = Inr cs \<longleftrightarrow>
     length records = length (manifest_artifacts m)
     \<and> (\<forall>r \<in> set records. admissible (map ref_artifact (manifest_artifacts m)) r)
     \<and> distinct (map (cand_id \<circ> as_candidate) records)
     \<and> cs = sort_key candidate_key (map as_candidate records)"
proof -
  have "load_candidates m records = Inr cs \<longleftrightarrow> length records = length (manifest_artifacts m)
      \<and> (\<exists>cs'. (\<exists>ids'. try_fold (admit_record (map ref_artifact (manifest_artifacts m))) ([], []) records = Inr (ids', cs'))
           \<and> cs = sort_key candidate_key cs')"
    by (auto simp: load_candidates_def res_simps)
  then show ?thesis
    unfolding admit_loop_ok by auto
qed

lemma candidates_distinct:
  "load_candidates m records = Inr cs \<Longrightarrow> distinct (map cand_id cs)"
  unfolding load_candidates_ok
  by (metis list.map_comp mset_eq_imp_distinct_iff mset_map mset_sort)

section \<open>Resolved compositions\<close>

lemma select_components_ok:
  assumes "select_components m records = Inr st"
  obtains cs where "manifest_validate m = Inr ()" "load_candidates m records = Inr cs"
    "resolve_loop m cs (initial_queue m) empty_selection = Inr st"
    "for_each (check_unused_pin st) (manifest_providers m) = Inr ()"
    "check_singletons (sel_components st) = Inr ()" "check_abi (sel_components st) = Inr ()"
    "check_openusd (sel_providers st) (sel_components st) = Inr ()"
  using assms by (auto simp: select_components_def res_simps)

lemma selection_guarantees:
  assumes "load_candidates m records = Inr cs" "resolve_loop m cs (initial_queue m) empty_selection = Inr st"
  shows "tables_ok m cs st" "pending m st []"
    and "r \<in> set (manifest_requirements m) \<Longrightarrow> served m st (None, r)"
proof -
  have "tables_ok m cs empty_selection" "work_ok empty_selection (initial_queue m)"
      "pending m empty_selection (initial_queue m)"
    by (auto simp: tables_ok_def work_ok_def pending_def empty_selection_def initial_queue_def bt_ok_def)
  from resolve_loop_guarantees [OF assms(2) candidates_distinct [OF assms(1)] this]
  show "tables_ok m cs st" "pending m st []"
      "r \<in> set (manifest_requirements m) \<Longrightarrow> served m st (None, r)"
    by (auto simp: initial_queue_def)
qed

lemma selection_ordered:
  assumes "tables_ok m cs st"
  shows "(\<exists>order. topological_order (bt_keys (sel_components st)) (sel_edges st) = Some (Inr order)
            \<and> ordered (bt_keys (sel_components st)) (sel_edges st) order)
         \<or> topological_order (bt_keys (sel_components st)) (sel_edges st) = Some (Inl dependency_cycle)
            \<and> \<not> acyclic (proper (sel_edges st))"
proof (rule topological_order_result)
  show "sorted_wrt (<) (bt_keys (sel_components st))"
    using tables_okD(1) [OF assms] by (rule btree.keys_ascending)
  show "\<forall>(p, c) \<in> set (sel_edges st). p \<in> set (bt_keys (sel_components st)) \<and> c \<in> set (bt_keys (sel_components st))"
    using tables_okD(5) [OF assms] by blast
qed

lemma collect_components:
  "set order \<subseteq> set (bt_keys selected) \<Longrightarrow>
   collect_opt (map (component_of selected) order) = Some (map (\<lambda>k. the (component_of selected k)) order)"
  by (auto simp: collect_opt_Some component_of_def image_iff dest!: weak_map_of_SomeI)

lemma seal_components:
  "seal_resolution enc resolved = Inr sealed \<Longrightarrow> resolved_components sealed = resolved_components resolved"
  by (auto simp: seal_resolution_def split: sum.splits)

lemma finish_components:
  "finish_resolution enc m st comps = Inr resolved \<Longrightarrow> resolved_components resolved = comps"
  by (auto simp: finish_resolution_def res_simps Let_def dest!: seal_components)

text \<open>
  C1. Resolving a composition never panics.  When it succeeds there is a selection of
  candidates (one per component id) such that every declared requirement, and every
  requirement of every selected component, is served: its capability has a chosen provider
  that is itself selected, supports the target, provides the capability in the accepted
  version and is the pinned one where a pin exists; the result lists exactly the selected
  components, each once and after every other component it requires.
\<close>

theorem composition_resolution_sound:
  "(case resolve_runtime_composition enc m records of
      None \<Rightarrow> False
    | Some (Inl e) \<Rightarrow> True
    | Some (Inr resolved) \<Rightarrow>
        (\<exists>st cs. load_candidates m records = Inr cs \<and> tables_ok m cs st
           \<and> (\<forall>r \<in> set (manifest_requirements m). served m st (None, r))
           \<and> (\<forall>k c. bt_get (sel_components st) k = Some c \<longrightarrow>
                (\<forall>r \<in> set (contract_requires (cand_contract c)). served m st (Some k, r)))
           \<and> distinct (map rcomp_id (resolved_components resolved))
           \<and> set (map rcomp_id (resolved_components resolved)) = set (bt_keys (sel_components st))
           \<and> (\<forall>(p, c) \<in> set (sel_edges st). p \<noteq> c \<longrightarrow>
                (\<exists>xs ys zs. map rcomp_id (resolved_components resolved) = xs @ p # ys @ c # zs))))"
proof (cases "select_components m records")
  case (Inl e)
  then show ?thesis by (simp add: resolve_runtime_composition_def)
next
  case (Inr st)
  obtain cs where load: "load_candidates m records = Inr cs"
      and loop: "resolve_loop m cs (initial_queue m) empty_selection = Inr st"
    using select_components_ok [OF Inr] by blast
  note guarantees = selection_guarantees [OF load loop]
  let ?selected = "sel_components st"
  from selection_ordered [OF guarantees(1)] show ?thesis
  proof (elim disjE exE conjE)
    fix order
    assume topo: "topological_order (bt_keys ?selected) (sel_edges st) = Some (Inr order)"
      and order: "ordered (bt_keys ?selected) (sel_edges st) order"
    let ?comps = "map (\<lambda>k. the (component_of ?selected k)) order"
    have sub: "set order = set (bt_keys ?selected)"
      using order by (simp add: ordered_def)
    have result: "resolve_runtime_composition enc m records = Some (finish_resolution enc m st ?comps)"
      using collect_components [of order ?selected] sub
      by (simp add: resolve_runtime_composition_def Inr topo)
    have ids: "map rcomp_id ?comps = order"
    proof -
      have "rcomp_id (the (component_of ?selected k)) = k" if "k \<in> set order" for k
        using that sub key_get [OF tables_okD(1) [OF guarantees(1)]] by (auto simp: component_of_def)
      then show ?thesis by (simp add: map_idI)
    qed
    show ?thesis
    proof (cases "finish_resolution enc m st ?comps")
      case (Inl e)
      then show ?thesis by (simp add: result)
    next
      case (Inr resolved)
      then have "resolved_components resolved = ?comps"
        by (rule finish_components)
      then have "map rcomp_id (resolved_components resolved) = order"
        using ids by simp
      moreover have "\<forall>(p, c) \<in> set (sel_edges st). p \<noteq> c \<longrightarrow> (\<exists>xs ys zs. order = xs @ p # ys @ c # zs)"
        using order by (auto simp: ordered_def proper_def)
      ultimately show ?thesis
        using load guarantees sub order unfolding result Inr
        by (auto simp: pending_def ordered_def intro!: exI [of _ st])
    qed
  next
    assume "topological_order (bt_keys ?selected) (sel_edges st) = Some (Inl dependency_cycle)"
    then show ?thesis by (simp add: resolve_runtime_composition_def Inr)
  qed
qed

subsection \<open>Unambiguous selections\<close>

lemma note_fold:
  "bt_get (foldl (\<lambda>acc (k, p). note_provision k acc p) acc kps) cap =
     (let hits = filter (\<lambda>(_, p). provision_capability p = cap) kps;
          (b, sources) = (case bt_get acc cap of None \<Rightarrow> (False, []) | Some v \<Rightarrow> v)
      in if hits = [] then bt_get acc cap
         else Some (b \<or> list_ex (\<lambda>(_, p). provision_singleton p) hits, sources @ map fst hits))"
  by (induction kps arbitrary: acc)
     (auto simp: note_provision_def Let_def split: option.splits prod.splits)

lemma note_fold_ok: "bt_ok acc \<Longrightarrow> bt_ok (foldl (\<lambda>acc (k, p). note_provision k acc p) acc kps)"
  by (induction kps arbitrary: acc)
     (auto simp: note_provision_def Let_def bt_ok_insert split: prod.splits)

definition provisions_of :: "components_map \<Rightarrow> (string \<times> capability_provision) list" where
  "provisions_of selected =
     concat (map (\<lambda>c. map (\<lambda>p. (cand_id c, p)) (contract_provides (cand_contract c))) (map snd selected))"

lemma singleton_sources_fold:
  "singleton_sources selected =
     foldl (\<lambda>acc (k, p). note_provision k acc p) [] (provisions_of selected)"
proof -
  have "foldl (\<lambda>acc c. foldl (note_provision (cand_id c)) acc (contract_provides (cand_contract c))) acc cs =
      foldl (\<lambda>acc (k, p). note_provision k acc p) acc
        (concat (map (\<lambda>c. map (\<lambda>p. (cand_id c, p)) (contract_provides (cand_contract c))) cs))" for acc cs
    by (induction cs arbitrary: acc) (simp_all add: foldl_map)
  then show ?thesis
    by (simp add: singleton_sources_def provisions_of_def)
qed

lemma check_singletons_ok:
  assumes "check_singletons selected = Inr ()" "(k, p) \<in> set (provisions_of selected)" "provision_singleton p"
  shows "filter (\<lambda>(_, q). provision_capability q = provision_capability p) (provisions_of selected) = [(k, p)]"
proof -
  let ?cap = "provision_capability p"
  let ?hits = "filter (\<lambda>(_, q). provision_capability q = ?cap) (provisions_of selected)"
  have hit: "(k, p) \<in> set ?hits"
    using assms(2) by simp
  then have "bt_get (singleton_sources selected) ?cap =
      Some (list_ex (\<lambda>(_, q). provision_singleton q) ?hits, map fst ?hits)"
    unfolding singleton_sources_fold note_fold Let_def by (auto simp: filter_empty_conv)
  moreover have "list_ex (\<lambda>(_, q). provision_singleton q) ?hits"
    using hit assms(3) by (auto simp: list_ex_iff)
  ultimately have "(?cap, True, map fst ?hits) \<in> set (singleton_sources selected)"
    by (metis map_of_SomeD)
  then have "length ?hits \<le> 1"
    using assms(1) by (fastforce simp: check_singletons_def for_each_ok split: if_splits)
  with hit show ?thesis
    by (cases ?hits) auto
qed

lemma abi_fold_keys:
  "set (bt_keys (foldl (\<lambda>acc c. case compatibility_abi (contract_compatibility (cand_contract c)) of
       None \<Rightarrow> acc | Some a \<Rightarrow> push_entry a (cand_id c) acc) acc cs)) =
   set (bt_keys acc) \<union> {a. \<exists>c \<in> set cs. compatibility_abi (contract_compatibility (cand_contract c)) = Some a}"
  by (induction cs arbitrary: acc) (auto simp: push_entry_def split: option.splits)

lemma check_abi_ok:
  assumes "check_abi selected = Inr ()" "c \<in> set (map snd selected)" "c' \<in> set (map snd selected)"
    and "compatibility_abi (contract_compatibility (cand_contract c)) = Some a"
    and "compatibility_abi (contract_compatibility (cand_contract c')) = Some a'"
  shows "a = a'"
proof -
  have "length (abi_groups selected) \<le> 1"
    using assms(1) by (auto simp: check_abi_def Let_def split: if_splits)
  moreover have "{a, a'} \<subseteq> set (bt_keys (abi_groups selected))"
    unfolding abi_groups_def abi_fold_keys using assms(2-5) by auto
  ultimately show ?thesis
    by (cases "abi_groups selected") auto
qed

text \<open>
  C24. A selection is unambiguous: a capability that a selected component provides as a
  singleton has no other provision among the selected components; all components that name
  an ABI name the same one; the chosen OpenUSD version satisfies every selected component's
  OpenUSD range; and every provider pin of the manifest decides the provider of its
  capability.
\<close>

theorem selection_unambiguous:
  assumes "select_components m records = Inr st"
  defines "chosen \<equiv> set (map snd (sel_components st))"
  shows "(\<forall>c \<in> chosen. \<forall>p \<in> set (contract_provides (cand_contract c)). provision_singleton p \<longrightarrow>
            (\<forall>c' \<in> chosen. \<forall>p' \<in> set (contract_provides (cand_contract c')).
               provision_capability p' = provision_capability p \<longrightarrow> cand_id c' = cand_id c \<and> p' = p))
     \<and> (\<forall>c \<in> chosen. \<forall>c' \<in> chosen. \<forall>a a'.
            compatibility_abi (contract_compatibility (cand_contract c)) = Some a
            \<and> compatibility_abi (contract_compatibility (cand_contract c')) = Some a' \<longrightarrow> a = a')
     \<and> (\<forall>c v. bt_get (sel_providers st) ''usd'' = Some (c, v) \<longrightarrow> (\<forall>c' \<in> chosen. \<forall>rng.
            compatibility_usd (contract_compatibility (cand_contract c')) = Some rng \<longrightarrow>
            version_satisfies v rng = Inr True))
     \<and> (\<forall>cap g. bt_get (manifest_providers m) cap = Some g \<longrightarrow>
            (\<exists>c v. bt_get (sel_providers st) cap = Some (c, v) \<and> cand_id c = g))"
proof -
  obtain cs where sel: "load_candidates m records = Inr cs"
      "resolve_loop m cs (initial_queue m) empty_selection = Inr st"
      "for_each (check_unused_pin st) (manifest_providers m) = Inr ()"
      "check_singletons (sel_components st) = Inr ()" "check_abi (sel_components st) = Inr ()"
      "check_openusd (sel_providers st) (sel_components st) = Inr ()"
    using select_components_ok [OF assms(1)] by metis
  note tables = selection_guarantees(1) [OF sel(1,2)]
  have provided: "(cand_id c, p) \<in> set (provisions_of (sel_components st))"
    if "c \<in> chosen" "p \<in> set (contract_provides (cand_contract c))" for c p
    using that by (auto simp: provisions_of_def chosen_def)
  have single: "cand_id c' = cand_id c \<and> p' = p"
    if "c \<in> chosen" "p \<in> set (contract_provides (cand_contract c))" "provision_singleton p"
      "c' \<in> chosen" "p' \<in> set (contract_provides (cand_contract c'))"
      "provision_capability p' = provision_capability p" for c p c' p'
  proof -
    have "(cand_id c', p') \<in> set (filter (\<lambda>(_, q). provision_capability q = provision_capability p)
        (provisions_of (sel_components st)))"
      using provided that by simp
    then show ?thesis
      unfolding check_singletons_ok [OF sel(4) provided [OF that(1,2)] that(3)] by simp
  qed
  have usd: "version_satisfies v rng = Inr True"
    if "bt_get (sel_providers st) ''usd'' = Some (c, v)" "c' \<in> chosen"
      "compatibility_usd (contract_compatibility (cand_contract c')) = Some rng" for c v c' rng
    using sel(6) that
    by (auto simp: check_openusd_def for_each_ok check_openusd_component_def res_simps chosen_def split: if_splits)
  have pins: "\<exists>c v. bt_get (sel_providers st) cap = Some (c, v) \<and> cand_id c = g"
    if "bt_get (manifest_providers m) cap = Some g" for cap g
  proof -
    have "(cap, g) \<in> set (manifest_providers m)"
      using that by (rule map_of_SomeD)
    then obtain c v where cv: "bt_get (sel_providers st) cap = Some (c, v)"
      using sel(3) by (fastforce simp: for_each_ok check_unused_pin_def split: if_splits)
    with tables_okD(4) [OF tables cv] that show ?thesis
      by (auto simp: provider_ok_def)
  qed
  show ?thesis
    using single usd pins check_abi_ok [OF sel(5)] unfolding chosen_def by blast
qed

end
