(* ===== verification/CompositionResults.thy ===== *)
theory CompositionResults
  imports CompositionSoundness
begin

text \<open>
  What the resolved document promises: installed paths do not collide and stay below the
  installation root, and the document does not depend on the order of the inputs.  A sample
  composition of a runtime and a plugin exercises the properties.
\<close>

section \<open>Installed paths\<close>

lemma normalize_parts:
  "split_char (CHR ''/'') (normalize_relative_path p) =
     (let parts = filter (\<lambda>part. part \<noteq> [] \<and> part \<noteq> ''.'') (split_on any_slash p)
      in if parts = [] then [[]] else parts)"
proof -
  let ?parts = "filter (\<lambda>part. part \<noteq> [] \<and> part \<noteq> ''.'') (split_on any_slash p)"
  have "CHR ''/'' \<notin> set x" if "x \<in> set ?parts" for x
    using that split_on_parts [of x any_slash p] by (fastforce simp: any_slash_def)
  then show ?thesis
    by (auto simp: normalize_relative_path_def Let_def split_char_join)
qed

definition installed :: "candidate \<times> install_mapping \<Rightarrow> resolved_install" where
  "installed = (\<lambda>(c, i).
     \<lparr> rinst_destination = normalize_relative_path (mapping_destination i), rinst_component = cand_id c,
       rinst_artifact = record_digest (cand_record c),
       rinst_source = normalize_relative_path (mapping_source i) \<rparr>)"

abbreviation destination_key :: "resolved_install \<Rightarrow> string" where
  "destination_key i \<equiv> to_ascii_lowercase (rinst_destination i)"

lemma install_step_ok:
  "install_step (owners, resolved) ci = Inr (owners', resolved') \<longleftrightarrow>
     bt_get owners (destination_key (installed ci)) = None
     \<and> owners' = bt_insert (destination_key (installed ci)) (cand_id (fst ci), mapping_destination (snd ci)) owners
     \<and> resolved' = resolved @ [installed ci]"
  by (auto simp: install_step_def installed_def Let_def split: option.splits prod.splits)

lemma install_loop:
  assumes "try_fold install_step (owners, resolved) cis = Inr (owners', resolved')"
    and "fst ` set owners = destination_key ` set resolved" "distinct (map destination_key resolved)"
  shows "distinct (map destination_key resolved') \<and> resolved' = resolved @ map installed cis"
  using assms
proof (induction cis arbitrary: owners resolved)
  case (Cons ci cis)
  obtain owners1 resolved1 where
      step: "install_step (owners, resolved) ci = Inr (owners1, resolved1)"
    and rest: "try_fold install_step (owners1, resolved1) cis = Inr (owners', resolved')"
    using Cons.prems(1) by (auto simp: res_simps)
  have "fst ` set owners1 = destination_key ` set resolved1" "distinct (map destination_key resolved1)"
    using step Cons.prems(2,3) by (auto simp: install_step_ok map_of_eq_None_iff)
  from Cons.IH [OF rest this] show ?case
    using step unfolding install_step_ok by (metis append.assoc append_Cons append_Nil list.simps(9))
qed simp

lemma resolve_install_ok:
  assumes "resolve_install selected = Inr insts"
  shows "distinct (map destination_key insts)"
    and "mset insts = mset (map installed (install_mappings selected))"
proof -
  obtain owners resolved where
      loop: "try_fold install_step ([], []) (install_mappings selected) = Inr (owners, resolved)"
    and insts: "mset insts = mset resolved"
    using assms by (auto simp: resolve_install_def res_simps)
  note done_loop = install_loop [OF loop]
  show "mset insts = mset (map installed (install_mappings selected))"
    using done_loop by (simp add: insts)
  have "mset (map destination_key insts) = mset (map destination_key resolved)"
    by (simp add: insts)
  then show "distinct (map destination_key insts)"
    using done_loop by (metis distinct.simps(1) empty_set image_empty list.simps(8) mset_eq_imp_distinct_iff)
qed

text \<open>A validated destination keeps its place under normalisation, strictly below the base.\<close>

lemma normalized_below:
  assumes "artifact_relative p" "\<not> only_current_directory p"
  shows "\<exists>names. names \<noteq> []
     \<and> walk base (split_char (CHR ''/'') (normalize_relative_path p)) = Some (base @ names)
     \<and> walk base (split_on any_slash p) = Some (base @ names)"
proof -
  let ?parts = "filter (\<lambda>part. part \<noteq> [] \<and> part \<noteq> ''.'') (split_on any_slash p)"
  from assms(1) have dots: "''..'' \<notin> set (split_on any_slash p)"
    by (auto simp: artifact_relative_def safe_relative_def Let_def list_ex_iff split: if_splits)
  have ne: "?parts \<noteq> []"
    using assms(2) by (auto simp: only_current_directory_def list_all_iff filter_empty_conv)
  have "walk base ?parts = Some (base @ ?parts)"
    using walk_no_parent [of ?parts base] dots by simp
  moreover have "walk base (split_on any_slash p) = Some (base @ ?parts)"
    using dots by (rule walk_no_parent)
  ultimately show ?thesis
    using ne by (auto simp: normalize_parts Let_def)
qed

lemma sealed_fields:
  assumes "seal_resolution enc resolved = Inr sealed"
  shows "resolved_environment_of sealed = resolved_environment_of resolved
     \<and> resolved_install_of sealed = resolved_install_of resolved
     \<and> resolved_providers sealed = resolved_providers resolved
     \<and> resolved_components sealed = resolved_components resolved"
  using assms by (auto simp: seal_resolution_def split: sum.splits)

lemma finish_resolution_ok:
  assumes "finish_resolution enc m st comps = Inr resolved"
  shows "resolve_environment (sel_components st) = Inr (resolved_environment_of resolved)"
    and "resolve_install (sel_components st) = Inr (resolved_install_of resolved)"
    and "resolved_providers resolved = map provider_of (sel_providers st)"
    and "resolved_components resolved = comps"
proof -
  obtain env insts digest where parts:
      "resolve_environment (sel_components st) = Inr env" "resolve_install (sel_components st) = Inr insts"
      "seal_resolution enc \<lparr> resolved_schema = RESOLVED_COMPOSITION_SCHEMA, resolved_name = manifest_name m,
           resolved_target = manifest_target m, resolved_manifest_digest = digest,
           resolved_composition_digest = [], resolved_components = comps,
           resolved_providers = map provider_of (sel_providers st),
           resolved_environment_of = env, resolved_install_of = insts,
           resolved_conflicts = [] \<rparr> = Inr resolved"
    using assms by (auto simp: finish_resolution_def res_simps Let_def)
  from parts(1,2) sealed_fields [OF parts(3)] show
      "resolve_environment (sel_components st) = Inr (resolved_environment_of resolved)"
      "resolve_install (sel_components st) = Inr (resolved_install_of resolved)"
      "resolved_providers resolved = map provider_of (sel_providers st)"
      "resolved_components resolved = comps"
    by simp_all
qed

lemma resolution_selection:
  assumes "resolve_runtime_composition enc m records = Some (Inr resolved)"
  obtains st comps where "select_components m records = Inr st"
    "finish_resolution enc m st comps = Inr resolved"
  using assms by (auto simp: resolve_runtime_composition_def split: sum.splits option.splits)

lemma selected_valid:
  assumes "select_components m records = Inr st" "c \<in> snd ` set (sel_components st)"
  shows "contract_valid (cand_contract c) \<and> cand_record c \<in> set records
     \<and> record_component (cand_record c) = Some (cand_contract c)"
proof -
  obtain cs where load: "load_candidates m records = Inr cs"
      and loop: "resolve_loop m cs (initial_queue m) empty_selection = Inr st"
    using select_components_ok [OF assms(1)] by blast
  note tables = selection_guarantees(1) [OF load loop]
  obtain k where "(k, c) \<in> set (sel_components st)" using assms(2) by auto
  then have "bt_get (sel_components st) k = Some c"
    using tables_okD(1) [OF tables] by (simp add: bt_ok_def strict_sorted_iff)
  then have "c \<in> set cs" using tables_okD(3) [OF tables] by blast
  then show ?thesis
    using load by (auto simp: load_candidates_ok admissible_def as_candidate_def contract_validate_ok)
qed

text \<open>
  C25. The installation of a resolved composition: every install mapping of every selected
  component appears in it, with its destination normalised; no two destinations are equal,
  even on a file system that ignores case; and every destination names something strictly
  below the installation root, the place the contract's own path names.
\<close>

theorem install_paths_disjoint:
  assumes "resolve_runtime_composition enc m records = Some (Inr resolved)"
  shows "\<exists>st. select_components m records = Inr st
     \<and> mset (resolved_install_of resolved) = mset (map installed (install_mappings (sel_components st)))
     \<and> distinct (map destination_key (resolved_install_of resolved))
     \<and> (\<forall>(c, i) \<in> set (install_mappings (sel_components st)). \<exists>names. names \<noteq> []
          \<and> walk base (split_char (CHR ''/'') (rinst_destination (installed (c, i)))) = Some (base @ names)
          \<and> walk base (split_on any_slash (mapping_destination i)) = Some (base @ names))"
proof -
  obtain st comps where st: "select_components m records = Inr st"
      and "finish_resolution enc m st comps = Inr resolved"
    using resolution_selection [OF assms] by blast
  then have install: "resolve_install (sel_components st) = Inr (resolved_install_of resolved)"
    by (intro finish_resolution_ok)
  have "\<exists>names. names \<noteq> []
          \<and> walk base (split_char (CHR ''/'') (rinst_destination (installed (c, i)))) = Some (base @ names)
          \<and> walk base (split_on any_slash (mapping_destination i)) = Some (base @ names)"
    if "(c, i) \<in> set (install_mappings (sel_components st))" for c i
  proof -
    have "c \<in> snd ` set (sel_components st)" "i \<in> set (contract_install (cand_contract c))"
      using that by (auto simp: install_mappings_def)
    then have "mapping_valid i"
      using selected_valid [OF st] by (auto simp: contract_valid_def)
    then show ?thesis
      using normalized_below [of "mapping_destination i" base]
      by (simp add: mapping_valid_def installed_def)
  qed
  with st resolve_install_ok [OF install] show ?thesis
    by (intro exI [of _ st]) blast
qed

section \<open>Independence of the order of the inputs\<close>

lemma sort_key_mset_eq:
  assumes "mset xs = mset ys" "inj_on f (set xs)"
  shows "sort_key f xs = sort_key f ys"
  using assms by (intro sort_key_inj_key_eq) simp_all

lemma requirement_key_inj:
  "inj_on requirement_key {r. validate_requirement r = Inr ()}"
proof (rule inj_onI)
  fix r s
  assume "r \<in> {r. validate_requirement r = Inr ()}" "s \<in> {r. validate_requirement r = Inr ()}"
  then have "requirement_version r \<noteq> Some []" "requirement_provider r \<noteq> Some []"
      "requirement_version s \<noteq> Some []" "requirement_provider s \<noteq> Some []"
    by (auto simp: validate_requirement_def res_simps composition_id_def trim_id split: option.splits if_splits)
  moreover assume "requirement_key r = requirement_key s"
  ultimately show "r = s"
    by (cases r; cases s) (auto simp: requirement_key_def split: option.splits)
qed

definition artifact_valid :: "composition_artifact_ref \<Rightarrow> bool" where
  "artifact_valid a \<longleftrightarrow> full_digest (ref_artifact a) \<and> check_source (ref_source a) = Inr ()"

interpretation artifact_loop: unique_loop check_artifact artifact_valid ref_artifact
  by unfold_locales (auto simp: check_artifact_def artifact_valid_def validate_full_digest_def res_simps)

definition reordered :: "composition_manifest \<Rightarrow> composition_manifest \<Rightarrow> bool" where
  "reordered m m' \<longleftrightarrow>
     manifest_schema m' = manifest_schema m \<and> manifest_name m' = manifest_name m
     \<and> manifest_target m' = manifest_target m \<and> manifest_providers m' = manifest_providers m
     \<and> mset (manifest_requirements m') = mset (manifest_requirements m)
     \<and> mset (manifest_artifacts m') = mset (manifest_artifacts m)"

lemma manifest_validate_ok:
  "manifest_validate m = Inr () \<longleftrightarrow>
     manifest_schema m = COMPOSITION_SCHEMA \<and> composition_id ''composition.name'' (manifest_name m) = Inr ()
     \<and> trim (manifest_target m) \<noteq> [] \<and> manifest_requirements m \<noteq> [] \<and> manifest_artifacts m \<noteq> []
     \<and> (\<forall>a \<in> set (manifest_artifacts m). artifact_valid a) \<and> distinct (map ref_artifact (manifest_artifacts m))
     \<and> (\<forall>r \<in> set (manifest_requirements m). validate_requirement r = Inr ())
     \<and> (\<forall>p \<in> set (manifest_providers m). check_pin p = Inr ())"
  using artifact_loop.loop_passes [of "[]" "manifest_artifacts m"]
  by (auto simp: manifest_validate_def res_simps)

lemma reordered_sets:
  assumes "reordered m m'"
  shows "set (manifest_requirements m') = set (manifest_requirements m)"
    and "set (manifest_artifacts m') = set (manifest_artifacts m)"
    and "length (manifest_artifacts m') = length (manifest_artifacts m)"
    and "distinct (map f (manifest_artifacts m')) = distinct (map f (manifest_artifacts m))"
  using assms unfolding reordered_def
  by (metis mset_eq_setD, metis mset_eq_setD, metis size_mset, metis mset_eq_imp_distinct_iff mset_map)

lemma reordered_validate:
  assumes "reordered m m'" "manifest_validate m = Inr ()"
  shows "manifest_validate m' = Inr ()"
proof -
  have "manifest_requirements m' \<noteq> []" "manifest_artifacts m' \<noteq> []"
    using assms by (auto simp: manifest_validate_ok reordered_def)
  then show ?thesis
    using assms(2) reordered_sets(1,2) [OF assms(1)] reordered_sets(4) [OF assms(1), of ref_artifact] assms(1)
    unfolding manifest_validate_ok reordered_def by simp
qed

lemma reordered_queue:
  assumes "reordered m m'" "manifest_validate m = Inr ()"
  shows "initial_queue m' = initial_queue m"
  unfolding initial_queue_def
proof (rule sort_key_mset_eq)
  show "mset (map (\<lambda>r. (None, r)) (manifest_requirements m')) = mset (map (\<lambda>r. (None, r)) (manifest_requirements m))"
    using assms(1) by (simp add: reordered_def)
  have "inj_on requirement_key (set (manifest_requirements m))"
    using assms(2) by (intro inj_on_subset [OF requirement_key_inj]) (auto simp: manifest_validate_ok)
  then show "inj_on (\<lambda>(_, r). requirement_key r) (set (map (\<lambda>r. (None, r)) (manifest_requirements m')))"
    unfolding set_map reordered_sets(1) [OF assms(1)] by (auto simp: inj_on_def)
qed

lemma reordered_canonical:
  assumes "reordered m m'" "manifest_validate m = Inr ()"
  shows "canonical m' = canonical m"
proof -
  have "inj_on requirement_key (set (manifest_requirements m'))"
    unfolding reordered_sets(1) [OF assms(1)]
    using assms(2) by (intro inj_on_subset [OF requirement_key_inj]) (auto simp: manifest_validate_ok)
  then have "sort_key requirement_key (manifest_requirements m') = sort_key requirement_key (manifest_requirements m)"
    using assms(1) by (intro sort_key_mset_eq) (simp_all add: reordered_def)
  moreover have "sort_key ref_artifact (map (\<lambda>a. a \<lparr> ref_source := None \<rparr>) (manifest_artifacts m')) =
      sort_key ref_artifact (map (\<lambda>a. a \<lparr> ref_source := None \<rparr>) (manifest_artifacts m))"
    using assms(1) by (intro sort_key_mset_eq) (auto simp: reordered_def inj_on_def)
  ultimately show ?thesis
    using assms(1) by (cases m; cases m') (simp add: canonical_def reordered_def)
qed

lemma reordered_candidates:
  assumes "reordered m m'" "mset records' = mset records" "load_candidates m records = Inr cs"
  shows "load_candidates m' records' = Inr cs"
proof -
  have recs: "set records' = set records" "length records' = length records"
      "distinct (map f records') = distinct (map f records)" for f :: "artifact_record \<Rightarrow> string"
    using assms(2) by (metis mset_eq_setD, metis size_mset, metis mset_eq_imp_distinct_iff mset_map)
  have ok: "distinct (map (cand_id \<circ> as_candidate) records)" and cs: "cs = sort_key candidate_key (map as_candidate records)"
    using assms(3) by (auto simp: load_candidates_ok)
  have "inj_on candidate_key (set (map as_candidate records'))"
    using ok by (auto simp: recs(1) inj_on_def distinct_map candidate_key_def)
  then have "sort_key candidate_key (map as_candidate records') = cs"
    unfolding cs using assms(2) by (intro sort_key_mset_eq) simp_all
  then show ?thesis
    using assms(3) recs reordered_sets(2,3) [OF assms(1)]
    by (auto simp: load_candidates_ok admissible_def)
qed

lemma resolve_requirement_cong:
  assumes "manifest_target m' = manifest_target m" "manifest_providers m' = manifest_providers m"
  shows "resolve_requirement m' cs st w = resolve_requirement m cs st w"
proof -
  have "choose_provider m' cs = choose_provider m cs" "requirement_pin m' = requirement_pin m"
    unfolding fun_eq_iff by (simp_all only: choose_provider_def target_offers_def requirement_pin_def assms) simp_all
  then show ?thesis
    by (simp only: resolve_requirement_def)
qed

lemma resolve_loop_cong:
  assumes "manifest_target m' = manifest_target m" "manifest_providers m' = manifest_providers m"
  shows "resolve_loop m' cs queue st = resolve_loop m cs queue st"
  using assms
proof (induction m cs queue st rule: resolve_loop.induct)
  case (2 m cs w queue st)
  then show ?case
    by (auto simp: resolve_requirement_cong [of m' m] split: sum.splits prod.splits)
qed simp

lemma reordered_select:
  assumes "reordered m m'" "mset records' = mset records" "select_components m records = Inr st"
  shows "select_components m' records' = Inr st"
proof -
  have valid: "manifest_validate m = Inr ()"
    using assms(3) by (auto simp: select_components_def res_simps)
  have same: "manifest_target m' = manifest_target m" "manifest_providers m' = manifest_providers m"
    using assms(1) by (simp_all add: reordered_def)
  obtain cs where cs: "load_candidates m records = Inr cs"
    using assms(3) by (auto simp: select_components_def res_simps)
  show ?thesis
    using assms(3)
    by (simp add: select_components_def valid reordered_validate [OF assms(1) valid] cs
        reordered_candidates [OF assms(1,2) cs] resolve_loop_cong [OF same] reordered_queue [OF assms(1) valid] same)
qed

text \<open>
  C28. The result of a resolution does not depend on the order in which the manifest lists its
  requirements and artifacts or in which the records are supplied.
\<close>

theorem composition_order_independent:
  assumes "reordered m m'" "mset records' = mset records"
    and "resolve_runtime_composition enc m records = Some (Inr resolved)"
  shows "resolve_runtime_composition enc m' records' = Some (Inr resolved)"
proof -
  obtain st where st: "select_components m records = Inr st"
    using resolution_selection [OF assms(3)] by blast
  then have valid: "manifest_validate m = Inr ()"
    by (auto simp: select_components_def res_simps)
  have "finish_resolution enc m' st = finish_resolution enc m st"
    using assms(1) reordered_canonical [OF assms(1) valid]
    by (intro ext) (simp add: finish_resolution_def manifest_digest_def reordered_def)
  then show ?thesis
    using assms(3) unfolding resolve_runtime_composition_def st reordered_select [OF assms(1,2) st] sum.case
    by (simp only:)
qed

section \<open>A sample composition\<close>

definition runtime_contract :: component_contract where
  "runtime_contract =
     \<lparr>contract_schema = COMPONENT_SCHEMA, contract_id = ''openusd'', contract_kind = Runtime,
      contract_version = ''25.05'',
      contract_provides = [\<lparr>provision_capability = ''usd'', provision_version = ''25.05'',
                           provision_singleton = True\<rparr>],
      contract_requires = [], contract_environment = [],
      contract_install = [\<lparr>mapping_source = ''lib'', mapping_destination = ''lib''\<rparr>],
      contract_compatibility = \<lparr>compatibility_targets = [''linux-x86_64''],
        compatibility_abi = Some ''cy2025'', compatibility_usd = None\<rparr>,
      contract_descriptor = None, contract_descriptor_sha256 = None, contract_cmake = None,
      contract_dependencies = None\<rparr>"

definition runtime_record :: artifact_record where
  "runtime_record =
     plain_record RuntimeArtifact ''openusd'' ''25.05'' ''linux-x86_64''
       (''sha256:'' @ replicate 64 (CHR ''a'')) (Some runtime_contract)"

definition plugin_record :: artifact_record where
  "plugin_record =
     plain_record PluginArtifact ''usd-raster'' ''0.4.1'' ''linux-x86_64''
       (''sha256:'' @ replicate 64 (CHR ''0'')) (Some sample_contract)"

definition sample_manifest :: composition_manifest where
  "sample_manifest =
     \<lparr> manifest_schema = COMPOSITION_SCHEMA, manifest_name = ''raster-stack'',
       manifest_target = ''linux-x86_64'',
       manifest_requirements = [\<lparr> requirement_capability = ''format:geotiff'', requirement_version = None,
         requirement_provider = None \<rparr>],
       manifest_artifacts = [\<lparr> ref_artifact = record_digest runtime_record, ref_source = None \<rparr>,
         \<lparr> ref_artifact = record_digest plugin_record, ref_source = None \<rparr>],
       manifest_providers = [(''usd'', ''openusd'')] \<rparr>"

definition sample_encoder :: composition_encoder where
  "sample_encoder = \<lparr> enc_manifest = (\<lambda>_. Inr []), enc_resolved = (\<lambda>_. Inr []), enc_sha = (\<lambda>_. []) \<rparr>"


definition sample_reversed :: composition_manifest where
  "sample_reversed = sample_manifest \<lparr> manifest_artifacts := rev (manifest_artifacts sample_manifest) \<rparr>"

lemma sample_resolves:
  "case resolve_runtime_composition sample_encoder sample_manifest [runtime_record, plugin_record] of
     Some (Inr resolved) \<Rightarrow> map rcomp_id (resolved_components resolved) = [''openusd'', ''usd-raster'']
       \<and> map rinst_destination (resolved_install_of resolved) = [''lib'', ''lib/usd-raster'']
   | _ \<Rightarrow> False"
  by code_simp

lemma sample_resolution:
  obtains resolved where
    "resolve_runtime_composition sample_encoder sample_manifest [runtime_record, plugin_record] = Some (Inr resolved)"
    "map rcomp_id (resolved_components resolved) = [''openusd'', ''usd-raster'']"
    "map rinst_destination (resolved_install_of resolved) = [''lib'', ''lib/usd-raster'']"
  using sample_resolves by (auto split: option.splits sum.splits)

theorem composition_resolution_sound_witness:
  "\<exists>resolved st cs.
     resolve_runtime_composition sample_encoder sample_manifest [runtime_record, plugin_record] = Some (Inr resolved)
     \<and> load_candidates sample_manifest [runtime_record, plugin_record] = Inr cs
     \<and> tables_ok sample_manifest cs st
     \<and> served sample_manifest st (None, hd (manifest_requirements sample_manifest))
     \<and> set (bt_keys (sel_components st)) = {''openusd'', ''usd-raster''}"
proof -
  obtain resolved where resolved:
    "resolve_runtime_composition sample_encoder sample_manifest [runtime_record, plugin_record] = Some (Inr resolved)"
    "map rcomp_id (resolved_components resolved) = [''openusd'', ''usd-raster'']"
    by (rule sample_resolution)
  have hd: "hd (manifest_requirements sample_manifest) \<in> set (manifest_requirements sample_manifest)"
    by (simp add: sample_manifest_def)
  obtain st cs where "load_candidates sample_manifest [runtime_record, plugin_record] = Inr cs"
      "tables_ok sample_manifest cs st"
      "\<forall>r \<in> set (manifest_requirements sample_manifest). served sample_manifest st (None, r)"
      "set (map rcomp_id (resolved_components resolved)) = set (bt_keys (sel_components st))"
    using composition_resolution_sound
      [where enc = sample_encoder and m = sample_manifest and records = "[runtime_record, plugin_record]"]
    unfolding resolved(1) by auto
  with resolved hd show ?thesis by force
qed

theorem selection_unambiguous_witness:
  "\<exists>st c v. select_components sample_manifest [runtime_record, plugin_record] = Inr st
     \<and> bt_get (sel_providers st) ''usd'' = Some (c, v) \<and> cand_id c = ''openusd''"
proof -
  obtain st where st: "select_components sample_manifest [runtime_record, plugin_record] = Inr st"
    by (rule sample_resolution, rule resolution_selection)
  moreover have "bt_get (manifest_providers sample_manifest) ''usd'' = Some ''openusd''"
    by (simp add: sample_manifest_def)
  ultimately show ?thesis
    using selection_unambiguous [OF st] by blast
qed

theorem install_paths_disjoint_witness:
  "\<exists>resolved (st :: selection). resolve_runtime_composition sample_encoder sample_manifest [runtime_record, plugin_record]
       = Some (Inr resolved)
     \<and> mset (resolved_install_of resolved) = mset (map installed (install_mappings (sel_components st)))
     \<and> map rinst_destination (resolved_install_of resolved) = [''lib'', ''lib/usd-raster'']
     \<and> distinct (map destination_key (resolved_install_of resolved))"
proof -
  obtain resolved where resolved:
    "resolve_runtime_composition sample_encoder sample_manifest [runtime_record, plugin_record] = Some (Inr resolved)"
    "map rinst_destination (resolved_install_of resolved) = [''lib'', ''lib/usd-raster'']"
    by (rule sample_resolution)
  obtain st :: selection where
    "mset (resolved_install_of resolved) = mset (map installed (install_mappings (sel_components st)))"
    "distinct (map destination_key (resolved_install_of resolved))"
    using install_paths_disjoint [OF resolved(1), of "[]"] by (elim exE conjE)
  with resolved show ?thesis by (intro exI conjI)
qed

theorem composition_order_independent_witness:
  "\<exists>resolved. resolve_runtime_composition sample_encoder sample_reversed [plugin_record, runtime_record]
     = Some (Inr resolved) \<and> map rcomp_id (resolved_components resolved) = [''openusd'', ''usd-raster'']"
proof -
  have manifests: "reordered sample_manifest sample_reversed"
    by (simp add: reordered_def sample_reversed_def)
  have records: "mset [plugin_record, runtime_record] = mset [runtime_record, plugin_record]"
    by simp
  obtain resolved where resolved:
    "resolve_runtime_composition sample_encoder sample_manifest [runtime_record, plugin_record] = Some (Inr resolved)"
    "map rcomp_id (resolved_components resolved) = [''openusd'', ''usd-raster'']"
    by (rule sample_resolution)
  from composition_order_independent [OF manifests records resolved(1)] resolved(2)
  show ?thesis by (intro exI conjI)
qed

end
