(* ===== verification/PluginManifests.thy ===== *)
theory PluginManifests
  imports Hosts Versions Paths
begin

text \<open>
  The descriptors of a plugin workspace (ost-plugin/src): the plugin bundle manifest (model.rs),
  plain CMake libraries (library.rs), workspace tools (tool.rs), the ownership of imaging
  adapters (imaging.rs) and the loading of a bundle with its path checks (bundle.rs).  The YAML
  reader, file reads and the file-system queries are arguments.
\<close>

section \<open>Bundle manifests\<close>

definition PLUGIN_MANIFEST :: string where
  "PLUGIN_MANIFEST = ''openstrata.plugin.yaml''"

definition PLUGIN_SCHEMA :: string where
  "PLUGIN_SCHEMA = ''openstrata.plugin/v1alpha1''"

definition python_identifier :: "string \<Rightarrow> bool" where
  "python_identifier segment =
     (case segment of
        [] \<Rightarrow> False
      | first # rest \<Rightarrow> (first = CHR ''_'' \<or> is_ascii_alphabetic first)
          \<and> list_all (\<lambda>ch. ch = CHR ''_'' \<or> is_ascii_alphanumeric ch) rest)"

definition is_python_module_name :: "string \<Rightarrow> bool" where
  "is_python_module_name value =
     (value \<noteq> [] \<and> list_all python_identifier (split_char (CHR ''.'') value))"

datatype plugin_kind =
    UsdFileformat
  | UsdAssetResolver
  | UsdPackageResolver
  | UsdExec
  | UsdImaging
  | UsdSchema
  | UsdviewPlugin

fun plugin_kind_as_str :: "plugin_kind \<Rightarrow> string" where
  "plugin_kind_as_str UsdFileformat = ''usd-fileformat''"
| "plugin_kind_as_str UsdAssetResolver = ''usd-asset-resolver''"
| "plugin_kind_as_str UsdPackageResolver = ''usd-package-resolver''"
| "plugin_kind_as_str UsdExec = ''usd-exec''"
| "plugin_kind_as_str UsdImaging = ''usd-imaging''"
| "plugin_kind_as_str UsdSchema = ''usd-schema''"
| "plugin_kind_as_str UsdviewPlugin = ''usdview-plugin''"

definition plugin_kind_from_tag :: "string \<Rightarrow> plugin_kind option" where
  "plugin_kind_from_tag s =
     (if s = ''usd-fileformat'' then Some UsdFileformat
      else if s = ''usd-asset-resolver'' then Some UsdAssetResolver
      else if s = ''usd-package-resolver'' then Some UsdPackageResolver
      else if s = ''usd-exec'' then Some UsdExec
      else if s = ''usd-imaging'' then Some UsdImaging
      else if s = ''usd-schema'' then Some UsdSchema
      else if s = ''usdview-plugin'' then Some UsdviewPlugin
      else None)"

definition all_plugin_kinds :: "plugin_kind list" where
  "all_plugin_kinds =
     [UsdFileformat, UsdAssetResolver, UsdPackageResolver, UsdExec, UsdImaging, UsdSchema, UsdviewPlugin]"

text \<open>An \<^verbatim>\<open>IndexMap\<close> is the list of its entries in insertion order.\<close>

datatype cxx_abi = AbiScalar string | AbiPerOs "(string \<times> string) list"

definition INHERIT :: string where
  "INHERIT = ''inherit''"

definition is_inherit :: "cxx_abi \<Rightarrow> bool" where
  "is_inherit abi = (case abi of AbiScalar s \<Rightarrow> s = INHERIT | AbiPerOs _ \<Rightarrow> False)"

fun os_key :: "os \<Rightarrow> string" where
  "os_key Linux = ''linux''"
| "os_key Macos = ''macos''"
| "os_key Windows = ''windows''"

definition tag_for :: "cxx_abi \<Rightarrow> os option \<Rightarrow> string option" where
  "tag_for abi os =
     (case abi of
        AbiScalar s \<Rightarrow> if s = INHERIT then None else Some s
      | AbiPerOs tags \<Rightarrow> (case os of None \<Rightarrow> None | Some os \<Rightarrow> map_of tags (os_key os)))"

record runtime_req =
  req_openusd :: string
  req_cxx_abi :: "cxx_abi option"
  req_python_abi :: "string option"

datatype library_artifact_pin =
  LibraryArtifactPin (pin_digest: string) (pin_source: "string option")
    (pin_targets: "(string \<times> library_artifact_pin) list")

definition pin_for_target :: "library_artifact_pin \<Rightarrow> string \<Rightarrow> library_artifact_pin option" where
  "pin_for_target pin target =
     (if pin_targets pin = [] then Some pin else map_of (pin_targets pin) target)"

record bundle_dependency =
  bdep_id :: string
  bdep_version :: string
  bdep_contract :: "nat option"
  bdep_artifact :: "library_artifact_pin option"

record tool_dependency =
  tdep_id :: string
  tdep_version :: string
  tdep_artifact :: library_artifact_pin

record library_dependency =
  ldep_id :: string
  ldep_version :: string
  ldep_artifact :: "library_artifact_pin option"

record plugin_requires =
  requires_capabilities :: "string list"
  requires_components :: "(string \<times> string) list"
  requires_runtime_libs :: "string list"
  requires_runtime_plugin_paths :: "string list"
  requires_bundles :: "bundle_dependency list"
  requires_libraries :: "library_dependency list"
  requires_tools :: "tool_dependency list"
  requires_unknown :: "string list"

record schema_section =
  schema_codeless :: bool
  schema_source_path :: "string option"
  schema_contract :: "nat option"

datatype smoke_fixture = FixturePath string | FixtureStructured string "(string \<times> string) list"

fun fixture_path :: "smoke_fixture \<Rightarrow> string" where
  "fixture_path (FixturePath path) = path"
| "fixture_path (FixtureStructured path _) = path"

fun file_format_arguments :: "smoke_fixture \<Rightarrow> (string \<times> string) list" where
  "file_format_arguments (FixturePath _) = []"
| "file_format_arguments (FixtureStructured _ arguments) = arguments"

record plugin_tests =
  tests_smoke :: "smoke_fixture list"
  tests_roundtrip :: "string list"
  tests_negative :: "string list"

record plugin_manifest =
  plugin_header :: "string option"
  plugin_name :: string
  plugin_version :: string
  plugin_kind_of :: plugin_kind
  plugin_license :: "string option"
  plugin_runtime :: runtime_req
  plugin_provides :: "string list"
  plugin_requires_of :: plugin_requires
  plugin_plug_info :: string
  plugin_schema :: "schema_section option"
  plugin_notices :: "string list"
  plugin_tests_of :: plugin_tests

definition required_capabilities :: "plugin_manifest \<Rightarrow> string list" where
  "required_capabilities m = remdups_adj (sort (requires_capabilities (plugin_requires_of m)))"

definition schema_provides :: "plugin_manifest \<Rightarrow> string list" where
  "schema_provides m = List.map_filter (strip_prefix ''usd-schema:'') (plugin_provides m)"

definition is_codeless_schema :: "plugin_manifest \<Rightarrow> bool" where
  "is_codeless_schema m =
     (plugin_kind_of m = UsdSchema
      \<and> (case plugin_schema m of None \<Rightarrow> False | Some s \<Rightarrow> schema_codeless s))"

definition is_usdview_plugin :: "plugin_manifest \<Rightarrow> bool" where
  "is_usdview_plugin m = (plugin_kind_of m = UsdviewPlugin)"

definition push_unseen :: "string list \<Rightarrow> string \<Rightarrow> string list" where
  "push_unseen seen path = (if path \<in> set seen then seen else seen @ [path])"

definition all_fixtures :: "plugin_manifest \<Rightarrow> string list" where
  "all_fixtures m =
     foldl push_unseen (foldl push_unseen [] (map fixture_path (tests_smoke (plugin_tests_of m))))
       (tests_roundtrip (plugin_tests_of m) @ tests_negative (plugin_tests_of m))"

definition contract_of :: "plugin_manifest \<Rightarrow> nat option" where
  "contract_of m = (case plugin_schema m of None \<Rightarrow> None | Some s \<Rightarrow> schema_contract s)"

section \<open>Paths of a bundle\<close>

record plugin_bundle =
  bundle_root :: string
  bundle_manifest :: plugin_manifest
  bundle_output_root :: "string option"

definition em_dash :: string where
  "em_dash = [CHR 0xE2, CHR 0x80, CHR 0x94]"

definition unsafe_path :: "string \<Rightarrow> string \<Rightarrow> string \<Rightarrow> error" where
  "unsafe_path field rel why =
     config_error (field @ '': '' @ quoted rel @ '' is not a safe bundle-relative path '' @ em_dash @ '' '' @ why)"

definition check_safe_relative :: "string \<Rightarrow> string \<Rightarrow> unit res" where
  "check_safe_relative field rel =
     (if rel = [] then Inl (unsafe_path field rel ''it is empty'')
      else if 2 \<le> length rel \<and> is_ascii_alphabetic (rel ! 0) \<and> rel ! 1 = CHR '':''
      then Inl (unsafe_path field rel ''it looks like a drive path'')
      else if starts_with ''/'' rel \<or> starts_with [CHR 0x5C] rel
      then Inl (unsafe_path field rel ''it is absolute'')
      else if list_ex (\<lambda>seg. seg = ''..'') (split_on any_slash rel)
      then Inl (unsafe_path field rel (''it escapes the bundle with '' @ quoted ''..''))
      else Inr ())"

definition check_argument :: "string \<Rightarrow> string \<times> string \<Rightarrow> unit res" where
  "check_argument path = (\<lambda>(key, value).
     if key = []
     then Inl (config_error (''tests.smoke file_format_arguments for '' @ quoted path @ '' contains an empty key''))
     else if list_ex (\<lambda>c. c = CHR ''&'' \<or> c = CHR ''='' \<or> c = CHR 0x00) key
     then Inl (config_error (''tests.smoke file_format_arguments key '' @ quoted key @ '' for '' @ quoted path @
            '' cannot contain '' @ quoted ''&'' @ '', '' @ quoted ''='' @ '', or NUL''))
     else if list_ex (\<lambda>c. c = CHR ''&'' \<or> c = CHR 0x00) value
     then Inl (config_error (''tests.smoke file_format_arguments value for '' @ quoted key @ '' in '' @ quoted path @
            '' cannot contain '' @ quoted ''&'' @ '' or NUL''))
     else Inr ())"

definition check_file_format_arguments :: "smoke_fixture \<Rightarrow> unit res" where
  "check_file_format_arguments fixture =
     for_each (check_argument (fixture_path fixture)) (file_format_arguments fixture)"


definition strip_verbatim :: "string \<Rightarrow> string" where
  "strip_verbatim s =
     (let b = CHR 0x5C
      in case strip_prefix ([b, b] @ ''?'' @ [b] @ ''UNC'' @ [b]) s of
           Some rest \<Rightarrow> [b, b] @ rest
         | None \<Rightarrow>
             (case strip_prefix ([b, b] @ ''?'' @ [b]) s of Some rest \<Rightarrow> rest | None \<Rightarrow> s))"

text \<open>
  The file system as the loader queries it.  A probe is the list of components of the path, so
  \<^verbatim>\<open>pop\<close> drops the last one and equality is the equality of paths.  An error carries its
  message, a canonical path that is not UTF-8 its lossy rendering.
\<close>

datatype lstat = LstatFound | LstatMissing | LstatError string

datatype canonical_path = CanonicalPath string | CanonicalNotUtf8 string | CanonicalError string

record path_fs =
  fs_symlink_metadata :: "component list \<Rightarrow> lstat"
  fs_canonicalize :: "component list \<Rightarrow> canonical_path"

fun render_component :: "component \<Rightarrow> string" where
  "render_component RootDir = []"
| "render_component CurDir = ''.''"
| "render_component ParentDir = ''..''"
| "render_component (Normal name) = name"

definition render_path :: "component list \<Rightarrow> string" where
  "render_path p = (if p = [RootDir] then ''/'' else join ''/'' (map render_component p))"

definition path_push :: "component list \<Rightarrow> string \<Rightarrow> component list" where
  "path_push root rel =
     (if is_absolute rel then components rel
      else root @ filter (\<lambda>c. c \<noteq> CurDir) (components rel))"

definition confined ::
  "path_fs \<Rightarrow> component list \<Rightarrow> string \<Rightarrow> string \<Rightarrow> component list \<Rightarrow> unit res"
where
  "confined fs root field rel probe =
     (case fs_canonicalize fs probe of
        CanonicalError e \<Rightarrow>
          Inl (config_error (field @ '': '' @ quoted rel @ '' cannot be resolved safely inside the bundle: '' @ e))
      | CanonicalNotUtf8 shown \<Rightarrow>
          Inl (config_error (field @ '': '' @ quoted rel @ '' resolves to a non-UTF-8 path: '' @ shown))
      | CanonicalPath c \<Rightarrow>
          let canonical = strip_verbatim c
          in if \<not> prefix root (components canonical)
             then Inl (config_error (field @ '': '' @ quoted rel @ '' resolves outside the bundle root to '' @
                    quoted canonical))
             else Inr ())"

function probe_loop ::
  "path_fs \<Rightarrow> component list \<Rightarrow> string \<Rightarrow> string \<Rightarrow> component list \<Rightarrow> unit res"
where
  "probe_loop fs root field rel probe =
     (case fs_symlink_metadata fs probe of
        LstatFound \<Rightarrow> confined fs root field rel probe
      | LstatError e \<Rightarrow> Inl (Io (render_path probe) e)
      | LstatMissing \<Rightarrow>
          if probe = root \<or> probe = [] \<or> probe = [RootDir] then Inr ()
          else probe_loop fs root field rel (butlast probe))"
  by pat_completeness auto
termination
  by (relation "measure (\<lambda>(fs, root, field, rel, probe). length probe)") auto

definition check_existing_bundle_path :: "path_fs \<Rightarrow> component list \<Rightarrow> string \<Rightarrow> string \<Rightarrow> unit res" where
  "check_existing_bundle_path fs root field rel = probe_loop fs root field rel (path_push root rel)"

definition canonicalize_root :: "path_fs \<Rightarrow> string \<Rightarrow> string res" where
  "canonicalize_root fs root =
     (case fs_canonicalize fs (components root) of
        CanonicalError e \<Rightarrow> Inl (Io root e)
      | CanonicalNotUtf8 shown \<Rightarrow> Inl (config_error (''bundle path is not valid UTF-8: '' @ shown))
      | CanonicalPath c \<Rightarrow> Inr (strip_verbatim c))"

section \<open>Loading a bundle\<close>

definition uses_composition :: "plugin_manifest \<Rightarrow> bool" where
  "uses_composition m =
     (requires_bundles (plugin_requires_of m) \<noteq> [] \<or> requires_libraries (plugin_requires_of m) \<noteq> []
      \<or> requires_tools (plugin_requires_of m) \<noteq> [] \<or> contract_of m \<noteq> None)"

definition check_header :: "plugin_manifest \<Rightarrow> unit res" where
  "check_header m =
     (case (plugin_header m, uses_composition m) of
        (Some schema, _) \<Rightarrow>
          if schema \<noteq> PLUGIN_SCHEMA
          then Inl (config_error (''manifest.schema '' @ quoted schema @ '' is unsupported (expected '' @
                 quoted PLUGIN_SCHEMA @ '')''))
          else if requires_unknown (plugin_requires_of m) \<noteq> []
          then Inl (config_error (''versioned plugin manifest contains unknown field(s): '' @
                 join '', '' (map (\<lambda>field. ''requires.'' @ field) (requires_unknown (plugin_requires_of m))) @
                 '' (allowed below requires: capabilities, components, runtime_libs, runtime_plugin_paths, '' @
                 ''bundles, libraries, tools)''))
          else Inr ()
      | (None, True) \<Rightarrow>
          Inl (config_error (''bundle composition fields need manifest.schema: '' @ PLUGIN_SCHEMA))
      | (None, False) \<Rightarrow> Inr ())"

definition check_usdview :: "plugin_manifest \<Rightarrow> unit res" where
  "check_usdview m =
     (if plugin_kind_of m = UsdviewPlugin
         \<and> \<not> list_ex (\<lambda>c. c = ''usdview'') (requires_capabilities (plugin_requires_of m))
      then Inl (config_error (''usdview-plugin bundles must declare '' @
             ''`requires.capabilities: [usdview]`''))
      else Inr ())"

text \<open>Every path the manifest names, with the field it is reported under, in the order of the checks.\<close>

definition schema_paths :: "plugin_manifest \<Rightarrow> string list" where
  "schema_paths m =
     (case plugin_schema m of
        None \<Rightarrow> []
      | Some s \<Rightarrow> (case schema_source_path s of None \<Rightarrow> [] | Some src \<Rightarrow> [src]))"

definition check_manifest_path :: "path_fs \<Rightarrow> component list \<Rightarrow> string \<Rightarrow> string \<Rightarrow> unit res" where
  "check_manifest_path fs root field rel =
     and_then (check_safe_relative field rel) (\<lambda>_. check_existing_bundle_path fs root field rel)"

definition check_paths :: "path_fs \<Rightarrow> component list \<Rightarrow> plugin_manifest \<Rightarrow> unit res" where
  "check_paths fs root m =
     and_then (check_manifest_path fs root ''usd.plug_info'' (plugin_plug_info m)) (\<lambda>_.
     and_then (for_each (check_manifest_path fs root ''test fixture'') (all_fixtures m)) (\<lambda>_.
     and_then (for_each check_file_format_arguments (tests_smoke (plugin_tests_of m))) (\<lambda>_.
     and_then (for_each (check_manifest_path fs root ''requires.runtime_libs'')
        (requires_runtime_libs (plugin_requires_of m))) (\<lambda>_.
     and_then (for_each (check_manifest_path fs root ''requires.runtime_plugin_paths'')
        (requires_runtime_plugin_paths (plugin_requires_of m))) (\<lambda>_.
     and_then (for_each (check_manifest_path fs root ''notices'') (plugin_notices m)) (\<lambda>_.
       for_each (check_manifest_path fs root ''schema.source'') (schema_paths m)))))))"

text \<open>The reads of the manifest file and its parser.\<close>

record bundle_reader =
  reader_is_file :: "string \<Rightarrow> bool"
  reader_read :: "string \<Rightarrow> string + string"
  reader_parse :: "string \<Rightarrow> string + plugin_manifest"

definition bundle_load :: "bundle_reader \<Rightarrow> path_fs \<Rightarrow> string \<Rightarrow> plugin_bundle res" where
  "bundle_load rd fs input =
     (if \<not> reader_is_file rd (path_join input PLUGIN_MANIFEST)
      then Inl (Operation (''no '' @ PLUGIN_MANIFEST @ '' in '' @ quoted input @
             '' (is this a plugin bundle? try `ost plugin new`)''))
      else and_then (canonicalize_root fs input) (\<lambda>root.
        let manifest_path = path_join root PLUGIN_MANIFEST
        in and_then (check_existing_bundle_path fs (components root) PLUGIN_MANIFEST PLUGIN_MANIFEST) (\<lambda>_.
           case reader_read rd manifest_path of
             Inl e \<Rightarrow> Inl (Io manifest_path e)
           | Inr src \<Rightarrow>
               (case reader_parse rd src of
                  Inl e \<Rightarrow> Inl (Parse PLUGIN_MANIFEST e)
                | Inr manifest \<Rightarrow>
                    and_then (check_header manifest) (\<lambda>_.
                    and_then (check_usdview manifest) (\<lambda>_.
                    and_then (check_paths fs (components root) manifest) (\<lambda>_.
                      Inr \<lparr> bundle_root = root, bundle_manifest = manifest, bundle_output_root = None \<rparr>)))))))"

definition bundle_path :: "plugin_bundle \<Rightarrow> string \<Rightarrow> string" where
  "bundle_path b rel = path_join (bundle_root b) rel"

definition output_path :: "plugin_bundle \<Rightarrow> string \<Rightarrow> string" where
  "output_path b rel =
     path_join (case bundle_output_root b of None \<Rightarrow> bundle_root b | Some root \<Rightarrow> root) rel"

definition with_output_root :: "path_fs \<Rightarrow> plugin_bundle \<Rightarrow> string \<Rightarrow> plugin_bundle res" where
  "with_output_root fs b input =
     and_then (canonicalize_root fs input) (\<lambda>root.
     and_then (check_existing_bundle_path fs (components root) ''usd.plug_info''
        (plugin_plug_info (bundle_manifest b))) (\<lambda>_.
     and_then (for_each (check_existing_bundle_path fs (components root) ''installed output'')
        [''lib'', ''python'']) (\<lambda>_.
       Inr (b \<lparr> bundle_output_root := Some root \<rparr>))))"

definition runtime_lib_dirs :: "plugin_bundle \<Rightarrow> string list" where
  "runtime_lib_dirs b = map (bundle_path b) (requires_runtime_libs (plugin_requires_of (bundle_manifest b)))"

definition runtime_plugin_path_dirs :: "plugin_bundle \<Rightarrow> string list" where
  "runtime_plugin_path_dirs b =
     map (bundle_path b) (requires_runtime_plugin_paths (plugin_requires_of (bundle_manifest b)))"

definition schema_source :: "plugin_bundle \<Rightarrow> string \<times> bool" where
  "schema_source b =
     (case schema_paths (bundle_manifest b) of
        src # _ \<Rightarrow> (bundle_path b src, True)
      | [] \<Rightarrow> (bundle_path b ''schema.usda'', False))"


section \<open>Imaging adapters\<close>

definition imaging_keys :: "plugin_bundle \<Rightarrow> string list" where
  "imaging_keys b =
     filter (\<lambda>key. starts_with ''usd-imaging:'' key \<or> starts_with ''usd-imaging-prim:'' key)
       (plugin_provides (bundle_manifest b))"

definition note_owner :: "string \<Rightarrow> (string, string btree_set) btree_map \<Rightarrow> string \<Rightarrow> (string, string btree_set) btree_map" where
  "note_owner name owners key =
     bt_insert key (bs_insert name (case bt_get owners key of None \<Rightarrow> [] | Some s \<Rightarrow> s)) owners"

definition imaging_owners :: "plugin_bundle list \<Rightarrow> (string, string btree_set) btree_map" where
  "imaging_owners bundles =
     foldl (\<lambda>owners b. foldl (note_owner (plugin_name (bundle_manifest b))) owners (imaging_keys b)) [] bundles"

definition imaging_conflicts :: "plugin_bundle list \<Rightarrow> string list" where
  "imaging_conflicts bundles =
     map (\<lambda>(key, owners). ''multiple bundles provide '' @ quoted key @ '': '' @ join '', '' owners)
       (filter (\<lambda>(_, owners). 1 < length owners) (imaging_owners bundles))"

definition needs_imaging :: "plugin_bundle \<Rightarrow> bool" where
  "needs_imaging b = (plugin_kind_of (bundle_manifest b) = UsdImaging)"

section \<open>Libraries\<close>

definition LIBRARY_SCHEMA :: string where
  "LIBRARY_SCHEMA = ''openstrata.library/v1alpha1''"

definition is_portable_id :: "string \<Rightarrow> bool" where
  "is_portable_id value =
     (value \<noteq> [] \<and> is_ascii_alphabetic (hd value)
      \<and> list_all (\<lambda>c. is_ascii_alphanumeric c \<or> c = CHR ''-'' \<or> c = CHR ''_'') value)"

record library_package =
  package_standalone :: bool
  package_aggregate_member :: bool

record library_consumer =
  consumer_include :: "string option"
  consumer_symbol :: "string option"

record package_contract =
  pc_package_name :: string
  pc_exported_targets :: "string list"
  pc_public_headers :: "string list"
  pc_consumer :: "library_consumer option"

record library_requires =
  lreq_libraries :: "library_dependency list"
  lreq_build_libraries :: "library_dependency list"
  lreq_test_libraries :: "library_dependency list"

record library_required_files =
  files_linux :: "string list"
  files_macos :: "string list"
  files_windows :: "string list"

record library_runtime =
  lrt_directories :: "string list"
  lrt_required_files :: "library_required_files option"

record library_manifest =
  lib_schema :: string
  lib_id :: string
  lib_version :: string
  lib_cmake_package :: string
  lib_cmake_target :: string
  lib_package :: "library_package option"
  lib_package_contract :: "package_contract option"
  lib_requires :: library_requires
  lib_runtime :: library_runtime

definition build_dependencies :: "library_requires \<Rightarrow> library_dependency list" where
  "build_dependencies r = lreq_libraries r @ lreq_build_libraries r"

definition all_dependencies :: "library_requires \<Rightarrow> library_dependency list" where
  "all_dependencies r = build_dependencies r @ lreq_test_libraries r"

fun files_for_os :: "library_required_files \<Rightarrow> os \<Rightarrow> string list" where
  "files_for_os f Linux = files_linux f"
| "files_for_os f Macos = files_macos f"
| "files_for_os f Windows = files_windows f"

definition default_runtime_directories :: "string list" where
  "default_runtime_directories = [''bin'', ''lib'']"

text \<open>\<^verbatim>\<open>split("::")\<close>\<close>

fun split_colons :: "string \<Rightarrow> string list" where
  "split_colons [] = [[]]"
| "split_colons [c] = [[c]]"
| "split_colons (a # b # s) =
     (if a = CHR '':'' \<and> b = CHR '':'' then [] # split_colons s
      else case split_colons (b # s) of [] \<Rightarrow> [[a]] | p # ps \<Rightarrow> (a # p) # ps)"

definition validate_cmake_atom :: "string \<Rightarrow> string \<Rightarrow> unit res" where
  "validate_cmake_atom label value =
     (if value \<noteq> [] \<and> list_all (\<lambda>b. is_ascii_alphanumeric b \<or> b \<in> set ''_+.-'') value
      then Inr ()
      else Inl (config_error (''library '' @ label @ '' '' @ quoted value @
             '' contains characters unsafe for generated CMake'')))"

definition validate_exported_target :: "string \<Rightarrow> unit res" where
  "validate_exported_target target =
     (let segments = split_colons target
      in if length segments < 2
            \<or> list_ex (\<lambda>segment. \<not> is_ok (validate_cmake_atom ''target segment'' segment)) segments
         then Inl (config_error (''library exported target '' @ quoted target @
                '' must be namespaced such as Package::Target''))
         else Inr ())"

definition replace_stars :: "string \<Rightarrow> string" where
  "replace_stars s = concat (map (\<lambda>c. if c = CHR ''*'' then ''placeholder'' else [c]) s)"

definition validate_header_pattern :: "string \<Rightarrow> unit res" where
  "validate_header_pattern pattern =
     (if list_ex (\<lambda>c. c \<in> set ''?[]'') pattern
      then Inl (config_error (''library public header pattern '' @ quoted pattern @
             '' uses an unsupported glob''))
      else check_safe_relative ''package_contract.public_headers'' (replace_stars pattern))"

definition cpp_identifier :: "string \<Rightarrow> bool" where
  "cpp_identifier segment =
     (segment \<noteq> [] \<and> (is_ascii_alphabetic (hd segment) \<or> hd segment = CHR ''_'')
      \<and> list_all (\<lambda>c. is_ascii_alphanumeric c \<or> c = CHR ''_'') segment)"

definition validate_cpp_symbol :: "string \<Rightarrow> unit res" where
  "validate_cpp_symbol symbol =
     (if list_all cpp_identifier (split_colons symbol) then Inr ()
      else Inl (config_error (''library consumer symbol '' @ quoted symbol @
             '' must be a C++ qualified identifier'')))"

definition check_that :: "bool \<Rightarrow> error \<Rightarrow> unit res" where
  "check_that ok e = (if ok then Inr () else Inl e)"

definition check_consumer :: "library_consumer \<Rightarrow> unit res" where
  "check_consumer c =
     and_then (case consumer_include c of
                 None \<Rightarrow> Inr ()
               | Some include \<Rightarrow> check_safe_relative ''package_contract.consumer.include'' include) (\<lambda>_.
       case consumer_symbol c of
         None \<Rightarrow> Inr ()
       | Some symbol \<Rightarrow> and_then (validate_cpp_symbol symbol) (\<lambda>_.
           check_that (consumer_include c \<noteq> None)
             (config_error ''library package_contract.consumer.symbol requires consumer.include'')))"

definition check_package_contract :: "library_manifest \<Rightarrow> package_contract \<Rightarrow> unit res" where
  "check_package_contract m contract =
     (case lib_package m of
        None \<Rightarrow> Inl (config_error ''library package_contract requires an explicit package mode'')
      | Some package \<Rightarrow>
          and_then (validate_cmake_atom ''package name'' (pc_package_name contract)) (\<lambda>_.
          and_then (check_that (pc_package_name contract = lib_cmake_package m)
            (config_error (''library package_contract.package_name '' @ quoted (pc_package_name contract) @
               '' differs from cmake.package '' @ quoted (lib_cmake_package m)))) (\<lambda>_.
          and_then (check_that (pc_exported_targets contract \<noteq> [])
            (config_error ''library package_contract.exported_targets must not be empty'')) (\<lambda>_.
          and_then (for_each validate_exported_target (pc_exported_targets contract)) (\<lambda>_.
          and_then (check_that (distinct (pc_exported_targets contract))
            (config_error ''library package_contract.exported_targets contains duplicates'')) (\<lambda>_.
          and_then (check_that (lib_cmake_target m \<in> set (pc_exported_targets contract))
            (config_error (''library package_contract.exported_targets must include cmake.target '' @
               quoted (lib_cmake_target m)))) (\<lambda>_.
          and_then (for_each validate_header_pattern (pc_public_headers contract)) (\<lambda>_.
          and_then (case pc_consumer contract of None \<Rightarrow> Inr () | Some c \<Rightarrow> check_consumer c) (\<lambda>_.
            check_that (package_standalone package \<or> pc_consumer contract = None)
              (config_error (''aggregate-only library package cannot declare a standalone '' @
                 ''consumer probe'')))))))))))"

definition check_required_file :: "library_manifest \<Rightarrow> string \<Rightarrow> unit res" where
  "check_required_file m path =
     and_then (check_safe_relative ''runtime.required_files'' path) (\<lambda>_.
     and_then (check_that (CHR 0x5C \<notin> set path
          \<and> \<not> list_ex (\<lambda>part. part = [] \<or> part = ''.'') (split_char (CHR ''/'') path))
        (config_error (''runtime.required_files path '' @ quoted path @
           '' must use normalized forward slashes''))) (\<lambda>_.
       check_that (list_ex (\<lambda>directory. prefix (components directory) (components path))
            (lrt_directories (lib_runtime m)))
          (config_error (''runtime.required_files path '' @ quoted path @
             '' is outside runtime.directories''))))"

definition check_required_files :: "library_manifest \<Rightarrow> library_required_files \<Rightarrow> unit res" where
  "check_required_files m required =
     (if files_linux required = [] \<and> files_macos required = [] \<and> files_windows required = []
      then Inl (config_error ''runtime.required_files must name at least one OS file'')
      else for_each (\<lambda>files.
             and_then (check_that (distinct files)
               (config_error ''runtime.required_files contains duplicate paths'')) (\<lambda>_.
               for_each (check_required_file m) files))
             [files_linux required, files_macos required, files_windows required])"

definition library_validate :: "library_manifest \<Rightarrow> unit res" where
  "library_validate m =
     and_then (check_that (lib_schema m = LIBRARY_SCHEMA)
       (config_error (''library schema '' @ quoted (lib_schema m) @ '' is unsupported (expected '' @
          quoted LIBRARY_SCHEMA @ '')''))) (\<lambda>_.
     and_then (check_that (is_portable_id (lib_id m))
       (config_error (''library.id '' @ quoted (lib_id m) @ '' is not a portable identifier''))) (\<lambda>_.
     and_then (case satisfies (lib_version m) (lib_version m) of
         Inr _ \<Rightarrow> Inr ()
       | Inl e \<Rightarrow> Inl (config_error (''library '' @ quoted (lib_id m) @ '' has an invalid version '' @
           quoted (lib_version m) @ '': '' @ range_error_message e))) (\<lambda>_.
     and_then (check_that (trim (lib_cmake_package m) \<noteq> [])
       (config_error ''library cmake.package must not be empty'')) (\<lambda>_.
     and_then (check_that (case lib_package m of
         None \<Rightarrow> True | Some p \<Rightarrow> package_standalone p \<or> package_aggregate_member p)
       (config_error ''library package must be standalone, an aggregate member, or both'')) (\<lambda>_.
     and_then (case lib_package_contract m of
         None \<Rightarrow> Inr () | Some contract \<Rightarrow> check_package_contract m contract) (\<lambda>_.
     and_then (let segments = split_colons (lib_cmake_target m)
       in check_that (2 \<le> length segments
            \<and> \<not> list_ex (\<lambda>segment. segment = [] \<or> CHR '':'' \<in> set segment) segments)
         (config_error (''library cmake.target '' @ quoted (lib_cmake_target m) @
            '' must be a namespaced exported target such as Package::Target''))) (\<lambda>_.
     and_then (for_each (check_safe_relative ''runtime.directories'') (lrt_directories (lib_runtime m))) (\<lambda>_.
       case lrt_required_files (lib_runtime m) of
         None \<Rightarrow> Inr ()
       | Some required \<Rightarrow> check_required_files m required))))))))"

section \<open>Tools\<close>

definition TOOL_SCHEMA :: string where
  "TOOL_SCHEMA = ''openstrata.tool/v1alpha1''"

record tool_manifest =
  tool_schema :: string
  tool_id :: string
  tool_version :: string
  tool_license :: "string option"
  tool_executables :: "string list"
  tool_directories :: "string list"
  tool_requires_libraries :: "library_dependency list"

definition bare_executable :: "string \<Rightarrow> bool" where
  "bare_executable name =
     (name \<noteq> [] \<and> \<not> list_ex (\<lambda>c. c = CHR ''/'' \<or> c = CHR 0x5C \<or> c = CHR '':'') name
      \<and> \<not> starts_with ''.'' name \<and> \<not> ends_with ''.exe'' name)"

definition check_executable :: "tool_manifest \<Rightarrow> string \<Rightarrow> unit res" where
  "check_executable m name =
     check_that (bare_executable name)
       (config_error (''tool '' @ quoted (tool_id m) @ '' executable '' @ quoted name @
          '' must be a bare name without a path or platform extension''))"

definition tool_validate :: "tool_manifest \<Rightarrow> unit res" where
  "tool_validate m =
     and_then (check_that (tool_schema m = TOOL_SCHEMA)
       (config_error (''tool schema '' @ quoted (tool_schema m) @ '' is unsupported (expected '' @
          quoted TOOL_SCHEMA @ '')''))) (\<lambda>_.
     and_then (check_that (is_portable_id (tool_id m))
       (config_error (''tool.id '' @ quoted (tool_id m) @ '' is not a portable identifier''))) (\<lambda>_.
     and_then (case satisfies (tool_version m) (tool_version m) of
         Inr _ \<Rightarrow> Inr ()
       | Inl e \<Rightarrow> Inl (config_error (''tool '' @ quoted (tool_id m) @ '' has an invalid version '' @
           quoted (tool_version m) @ '': '' @ range_error_message e))) (\<lambda>_.
     and_then (check_that (tool_executables m \<noteq> [])
       (config_error (''tool '' @ quoted (tool_id m) @ '' declares no executables '' @ em_dash @
          '' a tool package with no executable is not a deliverable''))) (\<lambda>_.
     and_then (for_each (check_executable m) (tool_executables m)) (\<lambda>_.
     and_then (for_each (check_safe_relative ''directories'') (tool_directories m)) (\<lambda>_.
       check_that (tool_directories m \<noteq> [])
         (config_error (''tool '' @ quoted (tool_id m) @ '' declares no directories to package''))))))))"

text \<open>\<open>exists_file\<close> is the query \<^verbatim>\<open>is_file\<close>.\<close>

definition locate_executable ::
  "(string \<Rightarrow> bool) \<Rightarrow> tool_manifest \<Rightarrow> string \<Rightarrow> bool \<Rightarrow> string list \<Rightarrow> string \<Rightarrow> (string list) res"
where
  "locate_executable exists_file m root windows found name =
     (let filename = name @ (if windows then ''.exe'' else [])
      in case find (\<lambda>relative. exists_file (path_join root relative))
             (map (\<lambda>directory. directory @ ''/'' @ filename) (tool_directories m)) of
           Some relative \<Rightarrow> Inr (found @ [relative])
         | None \<Rightarrow>
             Inl (with_hint (''build the workspace first (`ost build`), or correct '' @
                    ''`executables` / `directories` in openstrata.tool.yaml'')
               (precondition (''tool '' @ quoted (tool_id m) @ '' declares executable '' @ quoted filename @
                  '', which is not in '' @ join '', '' (tool_directories m) @ '' under '' @ quoted root))))"

definition locate_executables ::
  "(string \<Rightarrow> bool) \<Rightarrow> tool_manifest \<Rightarrow> string \<Rightarrow> bool \<Rightarrow> (string list) res"
where
  "locate_executables exists_file m root windows =
     try_fold (locate_executable exists_file m root windows) [] (tool_executables m)"


section \<open>Paths of a loaded bundle\<close>

lemma check_that_ok [res_simps]: "check_that ok e = Inr () \<longleftrightarrow> ok"
  by (simp add: check_that_def)

definition bundle_relative :: "string \<Rightarrow> bool" where
  "bundle_relative p \<longleftrightarrow> check_safe_relative [] p = Inr ()"

lemma check_safe_relative_ok: "check_safe_relative field p = Inr () \<longleftrightarrow> bundle_relative p"
  by (simp add: bundle_relative_def check_safe_relative_def)

lemma bundle_relative_parts:
  assumes "bundle_relative p"
  shows "p \<noteq> []" "\<not> any_slash (hd p)" "''..'' \<notin> set (split_on any_slash p)"
  using assms
  by (auto simp: bundle_relative_def check_safe_relative_def any_slash_def starts_with_prefix neq_Nil_conv
      list_ex_iff split: if_splits)

interpretation bundle_path_guard: path_guard any_slash bundle_relative
  using bundle_relative_parts by unfold_locales (blast intro: contained_no_parent)

text \<open>All paths a manifest names.\<close>

definition manifest_paths :: "plugin_manifest \<Rightarrow> string list" where
  "manifest_paths m =
     plugin_plug_info m # all_fixtures m @ requires_runtime_libs (plugin_requires_of m)
       @ requires_runtime_plugin_paths (plugin_requires_of m) @ plugin_notices m @ schema_paths m"

text \<open>
  \<open>inside fs root path\<close>: where the walk up from \<open>path\<close> to \<open>root\<close> first meets something that
  exists, the file system resolves it to a place below \<open>root\<close>.  The empty path names nothing.
\<close>

definition inside :: "path_fs \<Rightarrow> component list \<Rightarrow> component list \<Rightarrow> bool" where
  "inside fs root path \<longleftrightarrow>
     (\<forall>q rest. path = q @ rest \<and> q \<noteq> [] \<and> length root \<le> length q \<and> fs_symlink_metadata fs q = LstatFound
        \<and> (\<forall>ts us. rest = ts @ us \<and> ts \<noteq> [] \<longrightarrow> fs_symlink_metadata fs (q @ ts) = LstatMissing) \<longrightarrow>
        (\<exists>c. fs_canonicalize fs q = CanonicalPath c \<and> prefix root (components (strip_verbatim c))))"

lemma confined_ok:
  "confined fs root field rel probe = Inr () \<longleftrightarrow>
     (\<exists>c. fs_canonicalize fs probe = CanonicalPath c \<and> prefix root (components (strip_verbatim c)))"
  by (auto simp: confined_def Let_def split: canonical_path.splits)

lemma probe_loop_ok:
  assumes "probe_loop fs root field rel path = Inr ()" "prefix root path"
  shows "inside fs root path"
  using assms
proof (induction fs root field rel path rule: probe_loop.induct)
  case (1 fs root field rel path)
  show ?case
    unfolding inside_def
  proof (intro allI impI, elim conjE)
    fix q rest
    assume path: "path = q @ rest" and q: "q \<noteq> []" and long: "length root \<le> length q"
      and found: "fs_symlink_metadata fs q = LstatFound"
      and missing: "\<forall>ts us. rest = ts @ us \<and> ts \<noteq> [] \<longrightarrow> fs_symlink_metadata fs (q @ ts) = LstatMissing"
    show "\<exists>c. fs_canonicalize fs q = CanonicalPath c \<and> prefix root (components (strip_verbatim c))"
    proof (cases "rest = []")
      case True
      then show ?thesis
        using "1.prems"(1) found path by (simp add: confined_ok)
    next
      case False
      then have gone: "fs_symlink_metadata fs path = LstatMissing"
        using missing path by (metis append.right_neutral)
      have proper: "length root < length path" using long path False by (cases rest) auto
      have up: "butlast path = q @ butlast rest" using path False by (simp add: butlast_append)
      have "probe_loop fs root field rel (butlast path) = Inr ()"
        if "\<not> (path = root \<or> path = [] \<or> path = [RootDir])"
        using "1.prems"(1) gone that by simp
      moreover have "prefix root (butlast path)"
        using "1.prems"(2) proper by (metis append_butlast_last_id less_irrefl list.size(3) not_less_zero prefix_snoc)
      moreover have "path \<noteq> root" "path \<noteq> []" using proper by auto
      ultimately have IH: "inside fs root (butlast path)" if "path \<noteq> [RootDir]"
        using "1.IH" [OF gone] that by blast
      have "path \<noteq> [RootDir]" using path q False by (auto simp: append_eq_Cons_conv)
      moreover have "\<forall>ts us. butlast rest = ts @ us \<and> ts \<noteq> [] \<longrightarrow> fs_symlink_metadata fs (q @ ts) = LstatMissing"
        using missing False by (metis append.assoc append_butlast_last_id)
      ultimately show ?thesis
        using IH up q long found unfolding inside_def by blast
    qed
  qed
qed


lemma check_manifest_path_ok:
  assumes "check_manifest_path fs root field p = Inr ()"
  shows "bundle_relative p \<and> inside fs root (path_push root p)"
proof -
  have safe: "bundle_relative p" and probe: "probe_loop fs root field p (path_push root p) = Inr ()"
    using assms
    by (auto simp: check_manifest_path_def res_simps check_safe_relative_ok check_existing_bundle_path_def)
  have "\<not> is_absolute p"
    using bundle_relative_parts [OF safe] by (auto simp: is_absolute_def starts_with_prefix any_slash_def neq_Nil_conv)
  then show ?thesis
    using probe_loop_ok [OF probe] safe by (simp add: path_push_def)
qed

lemma check_paths_ok:
  assumes "check_paths fs root m = Inr ()" "p \<in> set (manifest_paths m)"
  shows "bundle_relative p \<and> inside fs root (path_push root p)"
  using assms check_manifest_path_ok
  by (fastforce simp: check_paths_def manifest_paths_def res_simps)



definition sample_plugin :: plugin_manifest where
  "sample_plugin =
     \<lparr> plugin_header = Some PLUGIN_SCHEMA, plugin_name = ''rasterFormat'', plugin_version = ''0.1.0'',
       plugin_kind_of = UsdFileformat, plugin_license = None,
       plugin_runtime = \<lparr> req_openusd = ''>=25.05'', req_cxx_abi = None, req_python_abi = None \<rparr>,
       plugin_provides = [], 
       plugin_requires_of = \<lparr> requires_capabilities = [], requires_components = [],
         requires_runtime_libs = [''lib''], requires_runtime_plugin_paths = [], requires_bundles = [],
         requires_libraries = [], requires_tools = [], requires_unknown = [] \<rparr>,
       plugin_plug_info = ''resources/plugInfo.json'', plugin_schema = None, plugin_notices = [],
       plugin_tests_of = \<lparr> tests_smoke = [], tests_roundtrip = [], tests_negative = [] \<rparr> \<rparr>"

definition sample_fs :: path_fs where
  "sample_fs = \<lparr> fs_symlink_metadata = (\<lambda>p. if length p \<le> 3 then LstatFound else LstatMissing),
     fs_canonicalize = (\<lambda>p. CanonicalPath (render_path p)) \<rparr>"

definition sample_reader :: bundle_reader where
  "sample_reader = \<lparr> reader_is_file = (\<lambda>_. True), reader_read = (\<lambda>_. Inr []),
     reader_parse = (\<lambda>_. Inr sample_plugin) \<rparr>"


end
