(* ===== verification/DepthFirst.thy ===== *)
theory DepthFirst
  imports Prelude "HOL-Library.Word"
begin

text \<open>
  The depth-first walks of the plugin workspace (ost-plugin/src/workspace.rs): the post-order
  that lists dependencies before their dependents, and the three-colour walk that reports
  dependency cycles.  A node's colour is 0 (unseen), 1 (on the stack) or 2 (finished).
\<close>

section \<open>Model\<close>

type_synonym 'a adjacency = "('a, 'a list) btree_map"

definition successors :: "'a::linorder adjacency \<Rightarrow> 'a \<Rightarrow> 'a list" where
  "successors adj x = (case bt_get adj x of None \<Rightarrow> [] | Some ds \<Rightarrow> ds)"

definition targets :: "'a::linorder adjacency \<Rightarrow> 'a set" where
  "targets adj = \<Union> (set ` snd ` set adj)"

lemma successors_simps [simp]:
  "successors [] x = []"
  "successors (bt_insert y ds adj) x = (if x = y then ds else successors adj x)"
  by (simp_all add: successors_def)

lemma finite_targets [simp]: "finite (targets adj)"
  by (simp add: targets_def)

lemma successors_targets: "set (successors adj x) \<subseteq> targets adj"
  by (cases "bt_get adj x") (auto simp: successors_def targets_def dest!: map_of_SomeD)

text \<open>Every entry of the list is walked unless it was seen, and listed after its walk.\<close>

function visit_all :: "'a::linorder adjacency \<Rightarrow> 'a list \<Rightarrow> 'a btree_set \<times> 'a list \<Rightarrow> 'a btree_set \<times> 'a list" where
  "visit_all adj [] st = st"
| "visit_all adj (d # ds) (visited, ordered) =
     (if d \<in> set visited then visit_all adj ds (visited, ordered)
      else let (visited', ordered') = visit_all adj (successors adj d) (bs_insert d visited, ordered)
           in visit_all adj ds (visited', ordered' @ [d]))"
  by pat_completeness auto

lemma visit_all_grows:
  "visit_all_dom (adj, ds, st) \<Longrightarrow> set (fst st) \<subseteq> set (fst (visit_all adj ds st))"
proof (induction adj ds st rule: visit_all.pinduct)
  case (2 adj d ds visited ordered)
  show ?case
  proof (cases "d \<in> set visited")
    case True
    with 2 show ?thesis by (simp add: visit_all.psimps)
  next
    case False
    obtain v o1 where inner: "visit_all adj (successors adj d) (bs_insert d visited, ordered) = (v, o1)"
      by (cases "visit_all adj (successors adj d) (bs_insert d visited, ordered)")
    have "set visited \<subseteq> set v" using "2.IH"(2) [OF False] by (simp add: inner)
    also have "set v \<subseteq> set (fst (visit_all adj ds (v, o1 @ [d])))"
      using "2.IH"(3) [OF False inner [symmetric] refl] by simp
    finally show ?thesis
      using False "2.hyps" by (simp add: visit_all.psimps inner)
  qed
qed (simp add: visit_all.psimps)

termination visit_all
proof (relation "measures [\<lambda>(adj, ds, st). card ((targets adj \<union> set ds) - set (fst st)), \<lambda>(adj, ds, st). length ds]",
    goal_cases)
  case (2 adj d ds visited ordered)
  have "card ((targets adj \<union> set ds) - set visited) \<le> card ((targets adj \<union> set (d # ds)) - set visited)"
    by (intro card_mono) auto
  then show ?case by auto
next
  case (3 adj d ds visited ordered)
  have "card ((targets adj \<union> set (successors adj d)) - set (bs_insert d visited))
      < card ((targets adj \<union> set (d # ds)) - set visited)"
    using 3 successors_targets [of adj d] by (intro psubset_card_mono) auto
  then show ?case by simp
next
  case (4 adj d ds visited ordered x v o1)
  have "set visited \<subseteq> set v"
    using visit_all_grows [OF 4(4)] 4(2,3) by (metis fst_conv insert_subset set_bs_insert)
  then have "card ((targets adj \<union> set ds) - set v) \<le> card ((targets adj \<union> set (d # ds)) - set visited)"
    by (intro card_mono) auto
  then show ?case by auto
qed simp


section \<open>The post-order\<close>

definition digraph :: "'a::linorder adjacency \<Rightarrow> ('a \<times> 'a) set" where
  "digraph adj = {(x, y). y \<in> set (successors adj x)}"

lemma digraph_image: "digraph adj `` {x} = set (successors adj x)"
  by (auto simp: digraph_def)

text \<open>What a walk over \<open>ds\<close> from the visited set \<open>v\<close> adds.\<close>

definition walked :: "'a::linorder adjacency \<Rightarrow> 'a list \<Rightarrow> 'a list \<Rightarrow> 'a list \<Rightarrow> 'a list \<Rightarrow> bool" where
  "walked adj ds v v' new \<longleftrightarrow> set v' = set v \<union> set new \<and> distinct new \<and> set new \<inter> set v = {}
     \<and> set new \<subseteq> (digraph adj)\<^sup>* `` set ds \<and> set ds \<subseteq> set v'
     \<and> (\<forall>x \<in> set new. set (successors adj x) \<subseteq> set v')"

lemma walkedD:
  assumes "walked adj ds v v' new"
  shows "set v' = set v \<union> set new" "distinct new" "set new \<inter> set v = {}"
    "set new \<subseteq> (digraph adj)\<^sup>* `` set ds" "set ds \<subseteq> set v'"
    "x \<in> set new \<Longrightarrow> set (successors adj x) \<subseteq> set v'"
  using assms unfolding walked_def by blast+

lemma reach_from:
  "set new \<subseteq> (digraph adj)\<^sup>* `` set (successors adj d) \<Longrightarrow> x \<in> set new \<Longrightarrow> (d, x) \<in> (digraph adj)\<^sup>*"
  by (force simp: digraph_def intro: converse_rtrancl_into_rtrancl)

lemma visit_all_frame:
  assumes "visit_all adj ds (v, o1) = (v', o')"
  shows "\<exists>new. o' = o1 @ new \<and> walked adj ds v v' new"
  using assms
proof (induction adj ds "(v, o1)" arbitrary: v o1 v' o' rule: visit_all.induct)
  case (2 adj d ds v o1)
  show ?case
  proof (cases "d \<in> set v")
    case True
    with "2.prems" have "visit_all adj ds (v, o1) = (v', o')" by simp
    from "2.hyps"(1) [OF True this] obtain new where "o' = o1 @ new" "walked adj ds v v' new" by blast
    moreover from this(2) True have "walked adj (d # ds) v v' new"
      unfolding walked_def list.set(2) by blast
    ultimately show ?thesis by blast
  next
    case False
    obtain v1 o2 where inner: "visit_all adj (successors adj d) (bs_insert d v, o1) = (v1, o2)"
      by (cases "visit_all adj (successors adj d) (bs_insert d v, o1)")
    with "2.prems" False have rest: "visit_all adj ds (v1, o2 @ [d]) = (v', o')" by simp
    obtain new1 where new1: "o2 = o1 @ new1" "walked adj (successors adj d) (bs_insert d v) v1 new1"
      using "2.hyps"(2) [OF False inner] by blast
    obtain new2 where new2: "o' = (o2 @ [d]) @ new2" "walked adj ds v1 v' new2"
      using "2.hyps"(3) [OF False inner [symmetric] refl rest] by blast
    note w1 = walkedD [OF new1(2)] and w2 = walkedD [OF new2(2)]
    have "set new1 \<subseteq> (digraph adj)\<^sup>* `` {d}"
      using reach_from [OF w1(4)] by blast
    moreover have "set (successors adj x) \<subseteq> set v'" if "x \<in> insert d (set new1)" for x
      using that w1(5,6) w2(1) by blast
    moreover have "set v' = set v \<union> set (new1 @ d # new2)" "distinct (new1 @ d # new2)"
        "set (new1 @ d # new2) \<inter> set v = {}"
      using False w1(1-3) w2(1-3) by auto
    moreover have "set (new1 @ d # new2) \<subseteq> (digraph adj)\<^sup>* `` set (d # ds)"
      using calculation(1) w2(4) by auto
    moreover have "set (d # ds) \<subseteq> set v'"
      using w1(1) w2(1,5) by auto
    moreover have "\<forall>x \<in> set (new1 @ d # new2). set (successors adj x) \<subseteq> set v'"
      using calculation(2) w2(6) by auto
    ultimately have "walked adj (d # ds) v v' (new1 @ d # new2)"
      by (simp only: walked_def)
    then show ?thesis
      using new1(1) new2(1) by simp
  qed
qed (simp add: walked_def)

lemma visit_all_ordered:
  assumes "visit_all adj ds (v, o1) = (v', o1 @ new)" "acyclic (digraph adj)"
    and "new = as @ x # bs"
  shows "set (successors adj x) \<subseteq> set v \<union> set as"
  using assms
proof (induction adj ds "(v, o1)" arbitrary: v o1 v' new as bs rule: visit_all.induct)
  case (2 adj d ds v o1)
  show ?case
  proof (cases "d \<in> set v")
    case True
    with 2 show ?thesis by simp
  next
    case False
    obtain v1 o2 where inner: "visit_all adj (successors adj d) (bs_insert d v, o1) = (v1, o2)"
      by (cases "visit_all adj (successors adj d) (bs_insert d v, o1)")
    with "2.prems"(1) False have rest: "visit_all adj ds (v1, o2 @ [d]) = (v', o1 @ new)" by simp
    obtain new1 where new1: "o2 = o1 @ new1" "set v1 = insert d (set v) \<union> set new1"
        "set new1 \<subseteq> (digraph adj)\<^sup>* `` set (successors adj d)" "set (successors adj d) \<subseteq> set v1"
      using visit_all_frame [OF inner] by (auto simp: walked_def)
    obtain new2 where new2: "o1 @ new = (o2 @ [d]) @ new2"
      using visit_all_frame [OF rest] by auto
    then have new: "new = new1 @ d # new2" by (simp add: new1(1))
    have no_return: "d \<notin> set (successors adj y)" if "y \<in> insert d (set new1)" for y
    proof
      assume "d \<in> set (successors adj y)"
      then have "(y, d) \<in> digraph adj" by (simp add: digraph_def)
      moreover have "(d, y) \<in> (digraph adj)\<^sup>*"
        using that reach_from [OF new1(3)] by blast
      ultimately show False
        using "2.prems"(2) by (meson acyclic_def rtrancl_into_trancl1)
    qed
    from "2.prems"(3) new consider us where "new1 = as @ x # us" | "as = new1" "x = d" "bs = new2"
      | us where "as = new1 @ d # us" "new2 = us @ x # bs"
      by (auto simp: append_eq_append_conv2 Cons_eq_append_conv append_eq_Cons_conv)
    then show ?thesis
    proof cases
      case 1
      have "set (successors adj x) \<subseteq> insert d (set v) \<union> set as"
        using "2.hyps"(2) [OF False inner [unfolded new1(1)] "2.prems"(2) 1] by simp
      then show ?thesis using no_return [of x] 1 by auto
    next
      case 2
      then show ?thesis using no_return [of d] new1(2,4) by auto
    next
      case 3
      have "visit_all adj ds (v1, o2 @ [d]) = (v', (o2 @ [d]) @ new2)"
        using rest by (simp add: new new1(1))
      then have "set (successors adj x) \<subseteq> set v1 \<union> set us"
        using "2.hyps"(3) [OF False inner [symmetric] refl _ "2.prems"(2) 3(2)] by blast
      then show ?thesis using 3 new1(2) by auto
    qed
  qed
qed simp

text \<open>
  \<open>closure_order E roots order\<close>: the order lists what the roots reach, each once and after its
  successors.
\<close>

definition closure_order :: "('a \<times> 'a) set \<Rightarrow> 'a set \<Rightarrow> 'a list \<Rightarrow> bool" where
  "closure_order E roots order \<longleftrightarrow> distinct order \<and> set order = E\<^sup>* `` roots
     \<and> (\<forall>as x bs. order = as @ x # bs \<longrightarrow> E `` {x} \<subseteq> set as)"

lemma visit_all_closure:
  assumes "acyclic (digraph adj)"
  shows "closure_order (digraph adj) (set ds) (snd (visit_all adj ds ([], [])))"
proof -
  obtain v' o' where run: "visit_all adj ds ([], []) = (v', o')"
    by (cases "visit_all adj ds ([], [])")
  have frame: "set v' = set o'" "distinct o'" "set o' \<subseteq> (digraph adj)\<^sup>* `` set ds" "set ds \<subseteq> set o'"
      "\<And>x. x \<in> set o' \<Longrightarrow> set (successors adj x) \<subseteq> set o'"
    using visit_all_frame [OF run] walkedD [of adj ds "[]" v' o'] by auto
  have "y \<in> set o'" if "(x, y) \<in> (digraph adj)\<^sup>*" "x \<in> set ds" for x y
    using that
  proof (induction rule: rtrancl_induct)
    case (step y z)
    then show ?case using frame(5) by (auto simp: digraph_def)
  qed (use frame(4) in auto)
  then have "set o' = (digraph adj)\<^sup>* `` set ds"
    using frame(3) by blast
  moreover have "digraph adj `` {x} \<subseteq> set as" if "o' = as @ x # bs" for as x bs
    using visit_all_ordered [of adj ds "[]" "[]" v' o', OF _ assms that] run
    by (simp add: digraph_image)
  ultimately show ?thesis
    using frame(2) by (auto simp: closure_order_def run)
qed


section \<open>The cycle walk\<close>

type_synonym 'a colours = "('a, 8 word) btree_map"
type_synonym 'a cycle_state = "'a colours \<times> 'a list \<times> 'a list btree_set"

fun position :: "('a \<Rightarrow> bool) \<Rightarrow> 'a list \<Rightarrow> nat option" where
  "position P [] = None"
| "position P (x # xs) = (if P x then Some 0 else map_option Suc (position P xs))"

text \<open>\<^verbatim>\<open>min_by_key\<close> takes the first smallest entry, and \<^verbatim>\<open>rotate_left\<close> starts the cycle there.\<close>

definition rotate_to_smallest :: "'a::linorder list \<Rightarrow> 'a list" where
  "rotate_to_smallest cycle =
     (case position (\<lambda>x. \<forall>y \<in> set cycle. x \<le> y) cycle of
        None \<Rightarrow> cycle | Some offset \<Rightarrow> rotate offset cycle)"

definition record_cycle :: "'a::linorder list \<Rightarrow> 'a \<Rightarrow> 'a list btree_set \<Rightarrow> 'a list btree_set" where
  "record_cycle stack d cycles =
     (case position (\<lambda>x. x = d) stack of
        None \<Rightarrow> cycles
      | Some start \<Rightarrow> bs_insert (rotate_to_smallest (drop start stack)) cycles)"

definition colour :: "'a::linorder colours \<Rightarrow> 'a \<Rightarrow> 8 word" where
  "colour states x = (case bt_get states x of None \<Rightarrow> 0 | Some c \<Rightarrow> c)"

lemma colour_insert [simp]: "colour (bt_insert x c states) y = (if y = x then c else colour states y)"
  by (simp add: colour_def)

function cycle_deps :: "'a::linorder adjacency \<Rightarrow> 'a list \<Rightarrow> 'a cycle_state \<Rightarrow> 'a cycle_state" where
  "cycle_deps adj [] st = st"
| "cycle_deps adj (d # ds) (states, stack, cycles) =
     (if colour states d = 0 then
        let (states', stack', cycles') =
              cycle_deps adj (successors adj d) (bt_insert d 1 states, stack @ [d], cycles)
        in cycle_deps adj ds (bt_insert d 2 states', butlast stack', cycles')
      else if colour states d = 1 then cycle_deps adj ds (states, stack, record_cycle stack d cycles)
      else cycle_deps adj ds (states, stack, cycles))"
  by pat_completeness auto

lemma cycle_deps_seen:
  "cycle_deps_dom (adj, ds, st) \<Longrightarrow> colour (fst st) x \<noteq> 0 \<Longrightarrow> colour (fst (cycle_deps adj ds st)) x \<noteq> 0"
proof (induction adj ds st rule: cycle_deps.pinduct)
  case (2 adj d ds states stack cycles)
  show ?case
  proof (cases "colour states d = 0")
    case False
    then show ?thesis
      using 2 by (cases "colour states d = 1") (simp_all add: cycle_deps.psimps)
  next
    case True
    obtain s1 k1 c1 where inner:
        "cycle_deps adj (successors adj d) (bt_insert d 1 states, stack @ [d], cycles) = (s1, k1, c1)"
      by (cases "cycle_deps adj (successors adj d) (bt_insert d 1 states, stack @ [d], cycles)")
    have "colour s1 x \<noteq> 0"
      using "2.IH"(1) [OF True] "2.prems" by (auto simp: inner split: if_splits)
    then have "colour (fst (cycle_deps adj ds (bt_insert d 2 s1, butlast k1, c1))) x \<noteq> 0"
      using "2.IH"(2) [OF True inner [symmetric] refl refl] by simp
    then show ?thesis
      using True "2.hyps" by (simp add: cycle_deps.psimps inner)
  qed
qed (simp add: cycle_deps.psimps)

abbreviation seen_nodes :: "'a::linorder colours \<Rightarrow> 'a set" where
  "seen_nodes states \<equiv> {x. colour states x \<noteq> 0}"

termination cycle_deps
proof (relation "measures [\<lambda>(adj, ds, st). card ((targets adj \<union> set ds) - seen_nodes (fst st)), \<lambda>(adj, ds, st). length ds]",
    goal_cases)
  case (2 adj d ds states stack cycles)
  have "card ((targets adj \<union> set (successors adj d)) - seen_nodes (bt_insert d 1 states))
      < card ((targets adj \<union> set (d # ds)) - seen_nodes states)"
    using 2 successors_targets [of adj d] by (intro psubset_card_mono) auto
  then show ?case by simp
next
  case (3 adj d ds states stack cycles x s1 y k1 c1)
  have s1: "fst (cycle_deps adj (successors adj d) (bt_insert d 1 states, stack @ [d], cycles)) = s1"
    using 3(2,3) by (metis fst_conv)
  have "seen_nodes states \<subseteq> seen_nodes (bt_insert d 2 s1)"
    using cycle_deps_seen [OF 3(5)] unfolding s1 by auto
  then have "card ((targets adj \<union> set ds) - seen_nodes (bt_insert d 2 s1)) \<le> card ((targets adj \<union> set (d # ds)) - seen_nodes states)"
    by (intro card_mono) auto
  then show ?case by (auto simp del: colour_insert)
next
  case (4 adj d ds states stack cycles)
  have "card ((targets adj \<union> set ds) - seen_nodes states) \<le> card ((targets adj \<union> set (d # ds)) - seen_nodes states)"
    by (intro card_mono) auto
  then show ?case by auto
next
  case (5 adj d ds states stack cycles)
  have "card ((targets adj \<union> set ds) - seen_nodes states) \<le> card ((targets adj \<union> set (d # ds)) - seen_nodes states)"
    by (intro card_mono) auto
  then show ?case by auto
qed simp

text \<open>One entry of the main loop, and the loop over all nodes.\<close>

definition cycle_root :: "'a::linorder adjacency \<Rightarrow> 'a cycle_state \<Rightarrow> 'a \<Rightarrow> 'a cycle_state" where
  "cycle_root adj = (\<lambda>(states, stack, cycles) x.
     if colour states x = 0 then
       let (states', stack', cycles') =
             cycle_deps adj (successors adj x) (bt_insert x 1 states, stack @ [x], cycles)
       in (bt_insert x 2 states', butlast stack', cycles')
     else (states, stack, cycles))"

definition cycles_of :: "'a::linorder adjacency \<Rightarrow> 'a list btree_set" where
  "cycles_of adj =
     snd (snd (foldl (cycle_root adj) (map (\<lambda>x. (x, 0)) (bt_keys adj), [], []) (bt_keys adj)))"


subsection \<open>Reported cycles are cycles\<close>

definition closed_walk :: "('a \<times> 'a) set \<Rightarrow> 'a list \<Rightarrow> bool" where
  "closed_walk E c \<longleftrightarrow> c \<noteq> [] \<and> distinct c \<and> (\<forall>i < length c. (c ! i, c ! (Suc i mod length c)) \<in> E)"

lemma position_Some: "position P xs = Some i \<Longrightarrow> i < length xs \<and> P (xs ! i)"
  by (induction xs arbitrary: i) (auto split: if_splits)

lemma position_None: "position P xs = None \<longleftrightarrow> (\<forall>x \<in> set xs. \<not> P x)"
  by (induction xs) auto

lemma closed_walk_rotate: "closed_walk E c \<Longrightarrow> closed_walk E (rotate n c)"
  unfolding closed_walk_def
proof (intro conjI allI impI)
  assume c: "c \<noteq> [] \<and> distinct c \<and> (\<forall>i < length c. (c ! i, c ! (Suc i mod length c)) \<in> E)"
  then show "rotate n c \<noteq> []" "distinct (rotate n c)" by auto
  fix i
  assume i: "i < length (rotate n c)"
  have "Suc i mod length c < length c" using c by simp
  then have "rotate n c ! (Suc i mod length c) = c ! (Suc ((n + i) mod length c) mod length c)"
    using c by (simp add: nth_rotate mod_simps)
  then show "(rotate n c ! i, rotate n c ! (Suc i mod length (rotate n c))) \<in> E"
    using c i by (simp add: nth_rotate)
qed

lemma closed_walk_smallest: "closed_walk E c \<Longrightarrow> closed_walk E (rotate_to_smallest c)"
  by (simp add: rotate_to_smallest_def closed_walk_rotate split: option.split)

lemma smallest_first:
  assumes "c \<noteq> []" "y \<in> set c"
  shows "hd (rotate_to_smallest c) \<le> y"
proof -
  have "Min (set c) \<in> set c" "\<forall>y \<in> set c. Min (set c) \<le> y"
    using assms(1) by auto
  then have "position (\<lambda>x. \<forall>y \<in> set c. x \<le> y) c \<noteq> None"
    unfolding position_None by blast
  then obtain i where i: "position (\<lambda>x. \<forall>y \<in> set c. x \<le> y) c = Some i"
    by blast
  then have "i < length c" "c ! i \<le> y"
    using position_Some [OF i] assms(2) by auto
  then show ?thesis
    using assms(1) by (simp add: rotate_to_smallest_def i hd_rotate_conv_nth)
qed

definition path_stack :: "'a::linorder adjacency \<Rightarrow> 'a list \<Rightarrow> bool" where
  "path_stack adj stack \<longleftrightarrow> distinct stack
     \<and> (\<forall>i. Suc i < length stack \<longrightarrow> (stack ! i, stack ! Suc i) \<in> digraph adj)"

lemma path_stack_push:
  assumes "path_stack adj stack" "d \<notin> set stack" "stack \<noteq> [] \<Longrightarrow> (last stack, d) \<in> digraph adj"
  shows "path_stack adj (stack @ [d])"
proof (cases "stack = []")
  case False
  then have "stack ! i = last stack" if "Suc i = length stack" for i
    using that by (metis diff_Suc_1 last_conv_nth)
  with False show ?thesis
    using assms by (auto simp: path_stack_def nth_append less_Suc_eq)
qed (simp add: path_stack_def)

lemma path_stack_cycle:
  assumes "path_stack adj stack" "position (\<lambda>x. x = d) stack = Some start" "(last stack, d) \<in> digraph adj"
  shows "closed_walk (digraph adj) (drop start stack)"
proof -
  let ?c = "drop start stack"
  have start: "start < length stack" "stack ! start = d"
    using position_Some [OF assms(2)] by auto
  have "(?c ! i, ?c ! (Suc i mod length ?c)) \<in> digraph adj" if i: "i < length ?c" for i
  proof (cases "Suc i = length ?c")
    case True
    then have "?c ! i = last ?c"
      using start(1) by (metis diff_Suc_1 last_conv_nth length_0_conv nat.distinct(1))
    also have "\<dots> = last stack"
      using start(1) by simp
    finally have "?c ! i = last stack" .
    then show ?thesis
      using True assms(3) start by (simp add: Cons_nth_drop_Suc [symmetric])
  next
    case False
    then show ?thesis
      using i assms(1) by (simp add: path_stack_def)
  qed
  then show ?thesis
    using start(1) assms(1) by (simp add: closed_walk_def path_stack_def)
qed

text \<open>A walk finishes unseen nodes and leaves the colour of the others and the stack.\<close>

definition recoloured :: "'a::linorder colours \<Rightarrow> 'a colours \<Rightarrow> bool" where
  "recoloured s s' \<longleftrightarrow> (\<forall>x. colour s' x = colour s x \<or> colour s x = 0 \<and> colour s' x = 2)"

lemma recoloured_visit:
  assumes "colour s d = 0" "recoloured (bt_insert d 1 s) s1"
  shows "recoloured s (bt_insert d 2 s1)"
  unfolding recoloured_def
proof
  fix x
  show "colour (bt_insert d 2 s1) x = colour s x \<or> colour s x = 0 \<and> colour (bt_insert d 2 s1) x = 2"
    using assms by (cases "x = d") (auto simp: recoloured_def dest: spec [of _ x])
qed

lemma recoloured_trans: "recoloured s s1 \<Longrightarrow> recoloured s1 s2 \<Longrightarrow> recoloured s s2"
  unfolding recoloured_def by metis

lemma recoloured_grey: "recoloured s s' \<Longrightarrow> colour s' x = 1 \<longleftrightarrow> colour s x = 1"
  unfolding recoloured_def by (drule spec [of _ x]) auto

lemma record_cycle_grows: "set c \<subseteq> set (record_cycle k d c)"
  by (auto simp: record_cycle_def split: option.splits)

text \<open>The three ways an entry is treated.\<close>

lemma cycle_deps_cases:
  assumes "cycle_deps adj (d # ds) (s, k, c) = (s', k', c')"
  obtains (unseen) s1 k1 c1 where "colour s d = 0"
      "cycle_deps adj (successors adj d) (bt_insert d 1 s, k @ [d], c) = (s1, k1, c1)"
      "cycle_deps adj ds (bt_insert d 2 s1, butlast k1, c1) = (s', k', c')"
  | (stacked) "colour s d = 1" "colour s d \<noteq> 0" "cycle_deps adj ds (s, k, record_cycle k d c) = (s', k', c')"
  | (finished) "colour s d \<noteq> 0" "colour s d \<noteq> 1" "cycle_deps adj ds (s, k, c) = (s', k', c')"
proof (cases "colour s d = 0")
  case True
  obtain s1 k1 c1 where inner: "cycle_deps adj (successors adj d) (bt_insert d 1 s, k @ [d], c) = (s1, k1, c1)"
    by (cases "cycle_deps adj (successors adj d) (bt_insert d 1 s, k @ [d], c)")
  with assms True unseen show ?thesis by simp
next
  case False
  then show ?thesis using assms stacked finished by (cases "colour s d = 1") simp_all
qed

lemma cycle_deps_frame:
  assumes "cycle_deps adj ds (s, k, c) = (s', k', c')"
  shows "k' = k \<and> recoloured s s' \<and> set c \<subseteq> set c'"
  using assms
proof (induction adj ds "(s, k, c)" arbitrary: s k c s' k' c' rule: cycle_deps.induct)
  case (2 adj d ds s k c)
  from "2.prems" show ?case
  proof (cases rule: cycle_deps_cases)
    case (unseen s1 k1 c1)
    have IH1: "k1 = k @ [d]" "recoloured (bt_insert d 1 s) s1" "set c \<subseteq> set c1"
      using "2.hyps"(1) [OF unseen(1,2)] by auto
    have IH2: "k' = k" "recoloured (bt_insert d 2 s1) s'" "set c1 \<subseteq> set c'"
      using "2.hyps"(2) [OF unseen(1) unseen(2) [symmetric] refl refl unseen(3)] IH1(1) by auto
    then show ?thesis
      using IH1(3) recoloured_trans [OF recoloured_visit [OF unseen(1) IH1(2)] IH2(2)] by blast
  next
    case stacked
    then show ?thesis
      using "2.hyps"(3) [OF stacked(2,1,3)] record_cycle_grows [of c k d] by blast
  next
    case finished
    then show ?thesis using "2.hyps"(4) [OF finished] by blast
  qed
qed (simp add: recoloured_def)

text \<open>A cycle is reported once, from its smallest node.\<close>

definition canonical_cycle :: "('a::linorder \<times> 'a) set \<Rightarrow> 'a list \<Rightarrow> bool" where
  "canonical_cycle E c \<longleftrightarrow> closed_walk E c \<and> (\<forall>y \<in> set c. hd c \<le> y)"

lemma canonical_smallest: "closed_walk E c \<Longrightarrow> canonical_cycle E (rotate_to_smallest c)"
  using smallest_first [of c]
  by (auto simp: canonical_cycle_def closed_walk_smallest)
     (auto simp: closed_walk_def rotate_to_smallest_def split: option.splits)

lemma record_cycle_sound:
  assumes "path_stack adj k" "(last k, d) \<in> digraph adj" "\<forall>c \<in> set cs. canonical_cycle (digraph adj) c"
  shows "\<forall>c \<in> set (record_cycle k d cs). canonical_cycle (digraph adj) c"
  using assms path_stack_cycle [OF assms(1) _ assms(2)]
  by (auto simp: record_cycle_def canonical_smallest split: option.splits)

lemma cycle_deps_sound:
  assumes "cycle_deps adj ds (s, k, c) = (s', k', c')"
    and "path_stack adj k" "k \<noteq> []" "set k = {x. colour s x = 1}" "set ds \<subseteq> set (successors adj (last k))"
    and "\<forall>x \<in> set c. canonical_cycle (digraph adj) x"
  shows "\<forall>x \<in> set c'. canonical_cycle (digraph adj) x"
  using assms
proof (induction adj ds "(s, k, c)" arbitrary: s k c s' k' c' rule: cycle_deps.induct)
  case (2 adj d ds s k c)
  have edge: "(last k, d) \<in> digraph adj" and ds: "set ds \<subseteq> set (successors adj (last k))"
    using "2.prems"(5) by (simp_all add: digraph_def)
  from "2.prems"(1) show ?case
  proof (cases rule: cycle_deps_cases)
    case (unseen s1 k1 c1)
    have frame: "k1 = k @ [d]" "recoloured (bt_insert d 1 s) s1"
      using cycle_deps_frame [OF unseen(2)] by auto
    have d: "d \<notin> set k" using unseen(1) "2.prems"(4) by auto
    have "path_stack adj (k @ [d])" "set (k @ [d]) = {x. colour (bt_insert d 1 s) x = 1}"
      using path_stack_push [OF "2.prems"(2) d edge] "2.prems"(4) by auto
    then have "\<forall>x \<in> set c1. canonical_cycle (digraph adj) x"
      using "2.hyps"(1) [OF unseen(1,2) _ _ _ _ "2.prems"(6)] by simp
    moreover have "set k = {x. colour (bt_insert d 2 s1) x = 1}"
      using recoloured_grey [OF recoloured_visit [OF unseen(1) frame(2)]] "2.prems"(4) by simp
    ultimately show ?thesis
      using "2.hyps"(2) [OF unseen(1) unseen(2) [symmetric] refl refl unseen(3)] "2.prems"(2,3) ds frame(1)
      by simp
  next
    case stacked
    show ?thesis
      using record_cycle_sound [OF "2.prems"(2) edge "2.prems"(6)]
      by (rule "2.hyps"(3) [OF stacked(2,1,3) "2.prems"(2-4) ds])
  next
    case finished
    show ?thesis
      by (rule "2.hyps"(4) [OF finished "2.prems"(2-4) ds "2.prems"(6)])
  qed
qed simp

subsection \<open>Without a reported cycle there is none\<close>

abbreviation finished_nodes :: "'a::linorder colours \<Rightarrow> 'a set" where
  "finished_nodes s \<equiv> {x. colour s x \<notin> {0, 1}}"

definition clean :: "'a::linorder adjacency \<Rightarrow> 'a colours \<Rightarrow> bool" where
  "clean adj s \<longleftrightarrow> (\<forall>x \<in> finished_nodes s. set (successors adj x) \<subseteq> finished_nodes s)
     \<and> acyclic (digraph adj \<inter> finished_nodes s \<times> finished_nodes s)"

lemma acyclic_add_source:
  assumes "acyclic R" "R \<subseteq> B \<times> B" "d \<notin> B"
  shows "acyclic (R \<union> {d} \<times> B)"
proof -
  have "(a, b) \<in> R\<^sup>+ \<union> {d} \<times> B" if "(a, b) \<in> (R \<union> {d} \<times> B)\<^sup>+" for a b
    using that
  proof (induction rule: trancl_induct)
    case (step b c)
    have "b \<in> B" using step.IH assms(2) trancl_subset_Sigma [OF assms(2)] by blast
    with step assms(2,3) show ?case by (auto intro: trancl_into_trancl)
  qed auto
  then show ?thesis
    using assms(1,3) by (auto simp: acyclic_def)
qed

lemma clean_finish:
  assumes "clean adj s" "colour s d = 1" "set (successors adj d) \<subseteq> finished_nodes s"
  shows "clean adj (bt_insert d 2 s)"
proof -
  let ?B = "finished_nodes s" and ?B' = "finished_nodes (bt_insert d 2 s)"
  have B': "?B' = insert d ?B" and d: "d \<notin> ?B"
    using assms(2) by auto
  have closed: "set (successors adj x) \<subseteq> ?B" if "x \<in> ?B" for x
    using assms(1) that unfolding clean_def by blast
  have "digraph adj \<inter> ?B' \<times> ?B' \<subseteq> (digraph adj \<inter> ?B \<times> ?B) \<union> {d} \<times> ?B"
    unfolding B' using closed assms(3) d by (auto simp: digraph_def)
  moreover have "acyclic ((digraph adj \<inter> ?B \<times> ?B) \<union> {d} \<times> ?B)"
    using assms(1) d by (intro acyclic_add_source) (auto simp: clean_def)
  ultimately have "acyclic (digraph adj \<inter> ?B' \<times> ?B')"
    by (rule acyclic_subset [rotated])
  moreover have "\<forall>x \<in> ?B'. set (successors adj x) \<subseteq> ?B'"
    unfolding B' using closed assms(3) by blast
  ultimately show ?thesis
    unfolding clean_def by blast
qed

lemma clean_cong: "finished_nodes s' = finished_nodes s \<Longrightarrow> clean adj s' = clean adj s"
  by (simp only: clean_def)

lemma cycle_deps_clean:
  assumes "cycle_deps adj ds (s, k, c) = (s', k', [])" "set k = {x. colour s x = 1}" "clean adj s"
  shows "clean adj s' \<and> set ds \<subseteq> finished_nodes s'"
  using assms
proof (induction adj ds "(s, k, c)" arbitrary: s k c s' k' rule: cycle_deps.induct)
  case (2 adj d ds s k c)
  from "2.prems"(1) show ?case
  proof (cases rule: cycle_deps_cases)
    case (unseen s1 k1 c1)
    have frame: "k1 = k @ [d]" "recoloured (bt_insert d 1 s) s1"
      using cycle_deps_frame [OF unseen(2)] by auto
    have c1: "c1 = []"
      using cycle_deps_frame [OF unseen(3)] by simp
    have "set (k @ [d]) = {x. colour (bt_insert d 1 s) x = 1}"
      using "2.prems"(2) by auto
    moreover have "clean adj (bt_insert d 1 s)"
      using "2.prems"(3) unseen(1) by (subst clean_cong [of _ s]) auto
    ultimately have IH1: "clean adj s1" "set (successors adj d) \<subseteq> finished_nodes s1"
      using "2.hyps"(1) [OF unseen(1) unseen(2) [unfolded c1]] by auto
    have "colour s1 d = 1"
      using recoloured_grey [OF frame(2), of d] by simp
    then have "clean adj (bt_insert d 2 s1)"
      by (rule clean_finish [OF IH1(1) _ IH1(2)])
    moreover have "set k = {x. colour (bt_insert d 2 s1) x = 1}"
      using recoloured_grey [OF recoloured_visit [OF unseen(1) frame(2)]] "2.prems"(2) by simp
    ultimately have IH2: "clean adj s'" "set ds \<subseteq> finished_nodes s'"
      using "2.hyps"(2) [OF unseen(1) unseen(2) [symmetric] refl refl unseen(3)] frame(1) by auto
    have "recoloured (bt_insert d 2 s1) s'"
      using cycle_deps_frame [OF unseen(3)] by blast
    then have "colour s' d = 2"
      unfolding recoloured_def by (auto dest: spec [of _ d])
    with IH2 show ?thesis by simp
  next
    case stacked
    then have "position (\<lambda>x. x = d) k \<noteq> None"
      using "2.prems"(2) by (auto simp: position_None)
    then obtain start where "position (\<lambda>x. x = d) k = Some start" by blast
    then have "set (record_cycle k d c) \<noteq> {}"
      unfolding record_cycle_def by (simp only: option.case set_bs_insert insert_not_empty not_False_eq_True)
    then show ?thesis
      using cycle_deps_frame [OF stacked(3)] by auto
  next
    case finished
    have "recoloured s s'"
      using cycle_deps_frame [OF finished(3)] by blast
    then have "d \<in> finished_nodes s'"
      using finished(1,2) unfolding recoloured_def by (auto dest: spec [of _ d])
    then show ?thesis
      using "2.hyps"(4) [OF finished "2.prems"(2,3)] by simp
  qed
qed simp


lemma cycle_root_step:
  assumes "cycle_root adj (s, [], c) x = (s', k', c')" "\<forall>y. colour s y \<noteq> 1"
    and "\<forall>y \<in> set c. canonical_cycle (digraph adj) y"
  shows "k' = [] \<and> (\<forall>y. colour s' y \<noteq> 1) \<and> recoloured s s' \<and> set c \<subseteq> set c'
      \<and> (\<forall>y \<in> set c'. canonical_cycle (digraph adj) y) \<and> colour s' x \<noteq> 0
      \<and> (c' = [] \<longrightarrow> clean adj s \<longrightarrow> clean adj s')"
proof (cases "colour s x = 0")
  case False
  then show ?thesis
    using assms by (simp add: cycle_root_def recoloured_def)
next
  case True
  obtain s1 k1 c1 where inner: "cycle_deps adj (successors adj x) (bt_insert x 1 s, [x], c) = (s1, k1, c1)"
    by (cases "cycle_deps adj (successors adj x) (bt_insert x 1 s, [x], c)")
  have frame: "k1 = [x]" "recoloured (bt_insert x 1 s) s1" "set c \<subseteq> set c1"
    using cycle_deps_frame [OF inner] by auto
  have result: "s' = bt_insert x 2 s1" "k' = []" "c' = c1"
    using assms(1) True by (simp_all add: cycle_root_def inner frame(1))
  have rec: "recoloured s s'"
    unfolding result by (rule recoloured_visit [OF True frame(2)])
  have grey: "set [x] = {y. colour (bt_insert x 1 s) y = 1}"
    using assms(2) by auto
  have "\<forall>y \<in> set c1. canonical_cycle (digraph adj) y"
    using cycle_deps_sound [OF inner _ _ grey _ assms(3)] by (simp add: path_stack_def)
  moreover have "clean adj s'" if "c1 = []" "clean adj s"
  proof -
    have "clean adj (bt_insert x 1 s)"
      using that(2) True by (subst clean_cong [of _ s]) auto
    then have "clean adj s1" "set (successors adj x) \<subseteq> finished_nodes s1"
      using cycle_deps_clean [OF inner [unfolded that(1)] grey] by auto
    moreover have "colour s1 x = 1"
      using recoloured_grey [OF frame(2), of x] by simp
    ultimately show ?thesis unfolding result(1) by (intro clean_finish)
  qed
  moreover have "\<forall>y. colour s' y \<noteq> 1"
    using recoloured_grey [OF rec] assms(2) by blast
  ultimately show ?thesis
    using rec frame(3) by (simp add: result)
qed

lemma initial_white: "colour (map (\<lambda>x. (x, 0)) xs) y = 0"
  by (induction xs) (auto simp: colour_def)

lemma initial_colour: "\<forall>y. colour (map (\<lambda>x. (x, 0)) xs) y \<noteq> 1" "\<forall>y \<in> set []. canonical_cycle E y"
  by (simp_all add: initial_white)

lemma cycle_roots:
  assumes "foldl (cycle_root adj) (s, [], c) xs = (s', k', c')" "\<forall>y. colour s y \<noteq> 1"
    and "\<forall>y \<in> set c. canonical_cycle (digraph adj) y"
  shows "recoloured s s' \<and> (\<forall>y. colour s' y \<noteq> 1) \<and> set c \<subseteq> set c'
     \<and> (\<forall>y \<in> set c'. canonical_cycle (digraph adj) y) \<and> (\<forall>x \<in> set xs. colour s' x \<noteq> 0)
     \<and> (c' = [] \<longrightarrow> clean adj s \<longrightarrow> clean adj s')"
  using assms
proof (induction xs arbitrary: s c)
  case Nil
  then show ?case by (simp add: recoloured_def)
next
  case (Cons x xs)
  obtain s1 k1 c1 where root: "cycle_root adj (s, [], c) x = (s1, k1, c1)"
    by (cases "cycle_root adj (s, [], c) x")
  have step: "k1 = []" "\<forall>y. colour s1 y \<noteq> 1" "recoloured s s1" "set c \<subseteq> set c1"
      "\<forall>y \<in> set c1. canonical_cycle (digraph adj) y" "colour s1 x \<noteq> 0"
      "c1 = [] \<Longrightarrow> clean adj s \<Longrightarrow> clean adj s1"
    using cycle_root_step [OF root Cons.prems(2,3)] by blast+
  have rest: "foldl (cycle_root adj) (s1, [], c1) xs = (s', k', c')"
    using Cons.prems(1) root step(1) by simp
  note IH = Cons.IH [OF rest step(2,5)]
  have "recoloured s s'" using recoloured_trans step(3) IH by blast
  moreover have "colour s' x \<noteq> 0"
    using step(6) IH unfolding recoloured_def by (auto dest: spec [of _ x])
  moreover have "c1 = []" if "c' = []"
    using IH that by auto
  ultimately show ?case
    using IH step(4,7) by auto
qed

lemma cycle_not_acyclic:
  assumes "closed_walk E c"
  shows "\<not> acyclic E"
proof -
  have step: "(c ! i, c ! (Suc i mod length c)) \<in> E" if "i < length c" for i
    using assms that by (simp add: closed_walk_def)
  have "(c ! 0, c ! (n mod length c)) \<in> E\<^sup>+" if "0 < n" for n
    using that
  proof (induction n)
    case (Suc n)
    have "(c ! (n mod length c), c ! (Suc n mod length c)) \<in> E"
      using step [of "n mod length c"] assms by (simp add: closed_walk_def mod_Suc_eq)
    with Suc show ?case by (cases "n = 0") (auto intro: trancl_into_trancl)
  qed simp
  from this [of "length c"] assms show ?thesis
    by (auto simp: closed_walk_def acyclic_def)
qed

lemma cycles_of_sound: "c \<in> set (cycles_of adj) \<Longrightarrow> canonical_cycle (digraph adj) c"
proof -
  let ?init = "map (\<lambda>x. (x, 0)) (bt_keys adj) :: 'a colours"
  obtain s' k' c' where run: "foldl (cycle_root adj) (?init, [], []) (bt_keys adj) = (s', k', c')"
    by (cases "foldl (cycle_root adj) (?init, [], []) (bt_keys adj)")
  assume "c \<in> set (cycles_of adj)"
  then show ?thesis
    using cycle_roots [OF run initial_colour] unfolding cycles_of_def run by simp
qed

lemma cycles_of_complete: "cycles_of adj = [] \<longleftrightarrow> acyclic (digraph adj)"
proof
  let ?init = "map (\<lambda>x. (x, 0)) (bt_keys adj) :: 'a colours"
  obtain s' k' c' where run: "foldl (cycle_root adj) (?init, [], []) (bt_keys adj) = (s', k', c')"
    by (cases "foldl (cycle_root adj) (?init, [], []) (bt_keys adj)")
  assume "cycles_of adj = []"
  then have "c' = []" unfolding cycles_of_def run by simp
  moreover have "clean adj ?init"
    unfolding clean_def initial_white by (simp add: acyclic_def)
  ultimately have final: "clean adj s'" "\<forall>y. colour s' y \<noteq> 1" "\<forall>x \<in> set (bt_keys adj). colour s' x \<noteq> 0"
    using cycle_roots [OF run initial_colour] by auto
  have "x \<in> finished_nodes s' \<and> y \<in> finished_nodes s'" if "(x, y) \<in> digraph adj" for x y
  proof -
    have y: "y \<in> set (successors adj x)" using that by (simp add: digraph_def)
    then have "x \<in> set (bt_keys adj)"
      by (cases "bt_get adj x") (auto simp: successors_def image_iff dest: map_of_SomeD intro: bexI [rotated])
    then have "x \<in> finished_nodes s'" using final(2,3) by blast
    then show ?thesis using final(1) y unfolding clean_def by blast
  qed
  then have "digraph adj \<subseteq> digraph adj \<inter> finished_nodes s' \<times> finished_nodes s'"
    by auto
  then show "acyclic (digraph adj)"
    using final(1) acyclic_subset unfolding clean_def by blast
next
  assume "acyclic (digraph adj)"
  then show "cycles_of adj = []"
    using cycles_of_sound [of _ adj] cycle_not_acyclic
    by (cases "cycles_of adj") (auto simp: canonical_cycle_def)
qed


section \<open>Adjacency tables\<close>

text \<open>
  The table every walk starts from: an entry per node, the edges pushed in order, and the
  lists sorted and freed of duplicates.
\<close>

definition push_edge :: "'a::linorder adjacency \<Rightarrow> 'a \<times> 'a \<Rightarrow> 'a adjacency" where
  "push_edge adj = (\<lambda>(x, y). bt_insert x (successors adj x @ [y]) adj)"

definition adjacency_of :: "'a::linorder list \<Rightarrow> ('a \<times> 'a) list \<Rightarrow> 'a adjacency" where
  "adjacency_of nodes edges =
     map (\<lambda>(x, ds). (x, remdups_adj (sort ds)))
       (foldl push_edge (foldl (\<lambda>adj x. bt_insert x [] adj) [] nodes) edges)"

lemma push_edges:
  "y \<in> set (successors (foldl push_edge adj edges) x) \<longleftrightarrow> y \<in> set (successors adj x) \<or> (x, y) \<in> set edges"
proof (induction edges arbitrary: adj)
  case (Cons e edges)
  have "y \<in> set (successors (push_edge adj e) x) \<longleftrightarrow> y \<in> set (successors adj x) \<or> (x, y) = e"
    by (cases e) (auto simp: push_edge_def)
  with Cons show ?case by auto
qed simp

lemma empty_nodes:
  "successors (foldl (\<lambda>adj x. bt_insert x [] adj) adj nodes) x = (if x \<in> set nodes then [] else successors adj x)"
  by (induction nodes arbitrary: adj) auto

lemma successors_map:
  "successors (map (\<lambda>(x, ds). (x, f ds)) adj) x = (case bt_get adj x of None \<Rightarrow> [] | Some ds \<Rightarrow> f ds)"
  by (induction adj) (auto simp: successors_def)

lemma digraph_adjacency_of [simp]: "digraph (adjacency_of nodes edges) = set edges"
proof -
  let ?adj = "foldl push_edge (foldl (\<lambda>adj x. bt_insert x [] adj) [] nodes) edges"
  have "set (successors (adjacency_of nodes edges) x) = set (successors ?adj x)" for x
    unfolding adjacency_of_def successors_map by (simp add: successors_def split: option.split)
  then show ?thesis
    unfolding digraph_def by (auto simp: push_edges empty_nodes split: if_splits)
qed

lemmas walk_results = cycles_of_sound [of _ "adjacency_of nodes edges", unfolded digraph_adjacency_of]
  cycles_of_complete [of "adjacency_of nodes edges", unfolded digraph_adjacency_of]
  visit_all_closure [of "adjacency_of nodes edges", unfolded digraph_adjacency_of] for nodes edges

end
