(* ===== verification/Workspaces.thy ===== *)
theory Workspaces
  imports PluginManifests DepthFirst "HOL-Library.Option_ord" "HOL-Library.Product_Lexorder"
    "HOL-Library.Multiset"
begin

text \<open>
  The validation of a plugin workspace (ost-plugin/src/workspace.rs): bundles, libraries and
  tools become nodes, their declared dependencies edges, and everything wrong with them an
  issue; a workspace without issues passes, and its build orders are read off the graph.
\<close>

section \<open>Data\<close>

record workspace_node =
  node_id :: string
  node_version :: string
  node_kind :: plugin_kind
  node_contract :: "nat option"

record workspace_edge =
  edge_from :: string
  edge_to :: string
  edge_version :: string
  edge_contract :: "nat option"
  edge_external :: bool
  edge_digest :: "string option"
  edge_targets :: "((string \<times> string) list) option"

record library_node =
  lnode_id :: string
  lnode_version :: string
  lnode_package :: string
  lnode_target :: string

record library_edge =
  ledge_from :: string
  ledge_from_kind :: string
  ledge_to :: string
  ledge_version :: string
  ledge_scope :: string
  ledge_external :: bool
  ledge_digest :: "string option"
  ledge_targets :: "((string \<times> string) list) option"

record workspace_issue =
  issue_code :: string
  issue_bundle :: string
  issue_dependency :: "string option"
  issue_message :: string

record workspace_validation =
  ws_passed :: bool
  ws_nodes :: "workspace_node list"
  ws_edges :: "workspace_edge list"
  ws_libraries :: "library_node list"
  ws_library_edges :: "library_edge list"
  ws_issues :: "workspace_issue list"

text \<open>The derived orders compare the fields in their order of declaration.\<close>

definition edge_key ::
  "workspace_edge \<Rightarrow> string \<times> string \<times> string \<times> nat option \<times> bool \<times> string option \<times> ((string \<times> string) list) option"
where
  "edge_key e = (edge_from e, edge_to e, edge_version e, edge_contract e, edge_external e, edge_digest e, edge_targets e)"

definition library_edge_key ::
  "library_edge \<Rightarrow> string \<times> string \<times> string \<times> string \<times> string \<times> bool \<times> string option \<times> ((string \<times> string) list) option"
where
  "library_edge_key e = (ledge_from e, ledge_from_kind e, ledge_to e, ledge_version e, ledge_scope e,
     ledge_external e, ledge_digest e, ledge_targets e)"

definition issue_key :: "workspace_issue \<Rightarrow> string \<times> string \<times> string option \<times> string" where
  "issue_key i = (issue_code i, issue_bundle i, issue_dependency i, issue_message i)"

section \<open>Build orders\<close>

definition bundle_graph :: "workspace_node list \<Rightarrow> workspace_edge list \<Rightarrow> string adjacency" where
  "bundle_graph nodes edges =
     adjacency_of (map node_id nodes)
       (map (\<lambda>e. (edge_from e, edge_to e)) (filter (\<lambda>e. \<not> edge_external e) edges))"

definition post_order :: "string adjacency \<Rightarrow> string list \<Rightarrow> string list" where
  "post_order adj roots = snd (visit_all adj roots ([], []))"

definition dependency_order :: "workspace_validation \<Rightarrow> string \<Rightarrow> (string list) option" where
  "dependency_order w bundle_id =
     (if \<not> ws_passed w \<or> \<not> list_ex (\<lambda>n. node_id n = bundle_id) (ws_nodes w) then None
      else let adj = bundle_graph (ws_nodes w) (ws_edges w)
           in Some (post_order adj (successors adj bundle_id)))"

definition workspace_order :: "workspace_validation \<Rightarrow> (string list) option" where
  "workspace_order w =
     (if \<not> ws_passed w then None
      else Some (post_order (bundle_graph (ws_nodes w) (ws_edges w)) (map node_id (ws_nodes w))))"

definition library_graph :: "(library_edge \<Rightarrow> bool) \<Rightarrow> library_node list \<Rightarrow> library_edge list \<Rightarrow> string adjacency" where
  "library_graph keep nodes edges =
     adjacency_of (map lnode_id nodes) (map (\<lambda>e. (ledge_from e, ledge_to e)) (filter keep edges))"

definition runtime_edge :: "library_edge \<Rightarrow> bool" where
  "runtime_edge e = (ledge_from_kind e = ''library'' \<and> \<not> ledge_external e \<and> ledge_scope e = ''runtime'')"

definition library_dependency_order :: "workspace_validation \<Rightarrow> string \<Rightarrow> (string list) option" where
  "library_dependency_order w bundle_id =
     (if \<not> ws_passed w \<or> \<not> list_ex (\<lambda>n. node_id n = bundle_id) (ws_nodes w) then None
      else case dependency_order w bundle_id of
             None \<Rightarrow> None
           | Some bundles \<Rightarrow>
               let selected = bundles @ [bundle_id];
                   adj = library_graph runtime_edge (ws_libraries w) (ws_library_edges w);
                   roots = map ledge_to (filter (\<lambda>e. ledge_from_kind e = ''bundle'' \<and> \<not> ledge_external e
                     \<and> ledge_from e \<in> set selected) (ws_library_edges w))
               in Some (post_order adj (remdups_adj (sort roots))))"

definition ordered_edge :: "string \<Rightarrow> bool \<Rightarrow> bool \<Rightarrow> library_edge \<Rightarrow> bool" where
  "ordered_edge library_id consumer tests e =
     (ledge_from_kind e = ''library'' \<and> \<not> ledge_external e
      \<and> (ledge_scope e = ''runtime'' \<or> (\<not> consumer \<and> ledge_scope e = ''build'')
         \<or> (tests \<and> ledge_from e = library_id \<and> ledge_scope e = ''test'')))"

definition library_order :: "workspace_validation \<Rightarrow> string \<Rightarrow> bool \<Rightarrow> bool \<Rightarrow> (string list) option" where
  "library_order w library_id consumer tests =
     (if \<not> ws_passed w \<or> \<not> list_ex (\<lambda>l. lnode_id l = library_id) (ws_libraries w) then None
      else let adj = library_graph (ordered_edge library_id consumer tests) (ws_libraries w) (ws_library_edges w)
           in Some (post_order adj (successors adj library_id)))"

definition library_build_order :: "workspace_validation \<Rightarrow> string \<Rightarrow> bool \<Rightarrow> (string list) option" where
  "library_build_order w library_id tests = library_order w library_id False tests"

definition library_prerequisite_order :: "workspace_validation \<Rightarrow> string \<Rightarrow> (string list) option" where
  "library_prerequisite_order w library_id = library_build_order w library_id False"

definition library_consumer_order :: "workspace_validation \<Rightarrow> string \<Rightarrow> (string list) option" where
  "library_consumer_order w library_id = library_order w library_id True False"

section \<open>Cycles\<close>

definition find_cycles :: "workspace_node list \<Rightarrow> workspace_edge list \<Rightarrow> string list btree_set" where
  "find_cycles nodes edges = cycles_of (bundle_graph nodes edges)"

definition library_cycle_edge :: "library_edge \<Rightarrow> bool" where
  "library_cycle_edge e = (ledge_from_kind e = ''library'' \<and> \<not> ledge_external e)"

definition find_library_cycles :: "library_node list \<Rightarrow> library_edge list \<Rightarrow> string list btree_set" where
  "find_library_cycles nodes edges = cycles_of (library_graph library_cycle_edge nodes edges)"

section \<open>Dependencies\<close>

definition issue :: "string \<Rightarrow> string \<Rightarrow> string option \<Rightarrow> string \<Rightarrow> workspace_issue" where
  "issue code name dependency message =
     \<lparr> issue_code = code, issue_bundle = name, issue_dependency = dependency, issue_message = message \<rparr>"

definition valid_target_pin :: "string option \<times> library_artifact_pin \<Rightarrow> bool" where
  "valid_target_pin = (\<lambda>(target, pin).
     (case target of None \<Rightarrow> True | Some t \<Rightarrow> trim t \<noteq> [])
     \<and> pin_targets pin = []
     \<and> (case strip_prefix ''sha256:'' (pin_digest pin) of
          None \<Rightarrow> False | Some hex \<Rightarrow> length hex = 64 \<and> list_all is_ascii_hexdigit hex)
     \<and> (case pin_source pin of None \<Rightarrow> True | Some source \<Rightarrow> trim source \<noteq> []))"

definition valid_artifact_pin :: "library_artifact_pin \<Rightarrow> bool" where
  "valid_artifact_pin artifact =
     (let pins = (if pin_targets artifact = [] then [(None, artifact)]
                  else map (\<lambda>(target, pin). (Some target, pin)) (pin_targets artifact))
      in pins \<noteq> []
         \<and> (pin_targets artifact = [] \<or> (pin_digest artifact = [] \<and> pin_source artifact = None))
         \<and> list_all valid_target_pin pins)"

definition artifact_digest_of :: "library_artifact_pin \<Rightarrow> string option" where
  "artifact_digest_of a = (if pin_targets a = [] then Some (pin_digest a) else None)"

definition artifact_targets_of :: "library_artifact_pin \<Rightarrow> ((string \<times> string) list) option" where
  "artifact_targets_of a =
     (if pin_targets a = [] then None else Some (map (\<lambda>(target, pin). (target, pin_digest pin)) (pin_targets a)))"

text \<open>\<^verbatim>\<open>version.trim().is_empty() || satisfies("0.0.0", version).is_err()\<close>\<close>

definition bad_requirement :: "string \<Rightarrow> bool" where
  "bad_requirement version = (trim version = [] \<or> \<not> is_ok (satisfies ''0.0.0'' version))"

text \<open>The report under construction, with the pins seen so far.\<close>

record workspace_state =
  st_issues :: "workspace_issue list"
  st_edges :: "workspace_edge list"
  st_library_edges :: "library_edge list"
  st_bundle_pins :: "(string, bundle_dependency) btree_map"
  st_tool_pins :: "(string, tool_dependency) btree_map"

definition push_issue :: "workspace_issue \<Rightarrow> workspace_state \<Rightarrow> workspace_state" where
  "push_issue i st = st \<lparr> st_issues := st_issues st @ [i] \<rparr>"

definition push_edge_to :: "workspace_edge \<Rightarrow> workspace_state \<Rightarrow> workspace_state" where
  "push_edge_to e st = st \<lparr> st_edges := st_edges st @ [e] \<rparr>"

definition push_library_edge :: "library_edge \<Rightarrow> workspace_state \<Rightarrow> workspace_state" where
  "push_library_edge e st = st \<lparr> st_library_edges := st_library_edges st @ [e] \<rparr>"

definition validate_library_dependency ::
  "string \<Rightarrow> string \<Rightarrow> library_dependency \<Rightarrow> string \<Rightarrow> (string, library_manifest) btree_map
     \<Rightarrow> workspace_state \<Rightarrow> workspace_state"
where
  "validate_library_dependency consumer_id consumer_kind d scope providers st =
     (let who = consumer_kind @ '' '' @ quoted consumer_id;
          report = (\<lambda>code message. push_issue (issue code consumer_id (Some (ldep_id d)) message));
          edge = (\<lambda>external digest targets.
            \<lparr> ledge_from = consumer_id, ledge_from_kind = consumer_kind, ledge_to = ldep_id d,
              ledge_version = ldep_version d, ledge_scope = scope, ledge_external = external,
              ledge_digest = digest, ledge_targets = targets \<rparr>)
      in if \<not> is_portable_id (ldep_id d)
         then report ''WORKSPACE_LIBRARY_DEPENDENCY_ID_INVALID''
                (''library dependency id '' @ quoted (ldep_id d) @ '' is not a portable identifier'') st
         else case ldep_artifact d of
           Some artifact \<Rightarrow>
             if \<not> valid_artifact_pin artifact
             then report ''WORKSPACE_LIBRARY_ARTIFACT_DIGEST_INVALID''
                    (who @ '' pins library '' @ quoted (ldep_id d) @ '' with an invalid sha256 artifact digest'') st
             else if bt_get providers (ldep_id d) \<noteq> None
             then report ''WORKSPACE_LIBRARY_PROVIDER_AMBIGUOUS''
                    (who @ '' declares both a workspace provider and an artifact for library '' @
                     quoted (ldep_id d)) st
             else if bad_requirement (ldep_version d)
             then report ''WORKSPACE_LIBRARY_DEPENDENCY_VERSION_INVALID''
                    (who @ '' declares an invalid version requirement for '' @ quoted (ldep_id d)) st
             else push_library_edge (edge True (artifact_digest_of artifact) (artifact_targets_of artifact)) st
         | None \<Rightarrow>
             (case bt_get providers (ldep_id d) of
                None \<Rightarrow>
                  report ''WORKSPACE_LIBRARY_DEPENDENCY_MISSING''
                    (who @ '' requires missing library '' @ quoted (ldep_id d)) st
              | Some provider \<Rightarrow>
                  let st' = push_library_edge (edge False None None) st
                  in if trim (ldep_version d) = []
                     then report ''WORKSPACE_LIBRARY_DEPENDENCY_VERSION_INVALID''
                            (who @ '' declares an empty version requirement for '' @ quoted (ldep_id d)) st'
                     else case satisfies (lib_version provider) (ldep_version d) of
                            Inr True \<Rightarrow> st'
                          | Inr False \<Rightarrow>
                              report ''WORKSPACE_LIBRARY_DEPENDENCY_VERSION_MISMATCH''
                                (who @ '' requires library '' @ quoted (ldep_id d) @ '' at '' @ ldep_version d @
                                 '', but the workspace has '' @ lib_version provider) st'
                          | Inl e \<Rightarrow>
                              report ''WORKSPACE_LIBRARY_DEPENDENCY_VERSION_INVALID''
                                (who @ '' declares an invalid version requirement for '' @ quoted (ldep_id d) @
                                 '': '' @ range_error_message e) st'))"

definition contract_issue ::
  "string \<Rightarrow> bundle_dependency \<Rightarrow> plugin_manifest \<Rightarrow> workspace_issue option"
where
  "contract_issue consumer_id d provider =
     (let report = (\<lambda>code message. Some (issue code consumer_id (Some (bdep_id d)) message))
      in if bdep_contract d = Some 0
         then report ''WORKSPACE_SCHEMA_CONTRACT_INVALID'' ''required schema contract must be greater than zero''
         else case (plugin_kind_of provider, bdep_contract d, contract_of provider) of
           (UsdSchema, None, Some contract) \<Rightarrow>
             report ''WORKSPACE_SCHEMA_CONTRACT_REQUIRED''
               (''bundle '' @ quoted consumer_id @ '' must select schema contract '' @ to_decimal contract @
                '' from '' @ quoted (bdep_id d))
         | (UsdSchema, Some _, None) \<Rightarrow>
             report ''WORKSPACE_SCHEMA_CONTRACT_MISSING''
               (''schema bundle '' @ quoted (bdep_id d) @ '' does not provide schema.contract'')
         | (UsdSchema, Some required, Some actual) \<Rightarrow>
             if required \<noteq> actual
             then report ''WORKSPACE_SCHEMA_CONTRACT_MISMATCH''
                    (''bundle '' @ quoted consumer_id @ '' requires schema contract '' @ to_decimal required @
                     '' from '' @ quoted (bdep_id d) @ '', but it provides '' @ to_decimal actual)
             else None
         | (kind, Some _, _) \<Rightarrow>
             if kind \<noteq> UsdSchema
             then report ''WORKSPACE_SCHEMA_CONTRACT_NOT_APPLICABLE''
                    (''bundle '' @ quoted (bdep_id d) @ '' is not a usd-schema bundle'')
             else None
         | _ \<Rightarrow> None)"

definition validate_contract ::
  "string \<Rightarrow> bundle_dependency \<Rightarrow> plugin_manifest \<Rightarrow> workspace_state \<Rightarrow> workspace_state"
where
  "validate_contract consumer_id d provider st =
     (case contract_issue consumer_id d provider of None \<Rightarrow> st | Some i \<Rightarrow> push_issue i st)"

definition forbidden_direction :: "plugin_kind \<Rightarrow> plugin_kind \<Rightarrow> bool" where
  "forbidden_direction consumer provider =
     (consumer = UsdSchema
      \<or> ((consumer = UsdAssetResolver \<or> consumer = UsdPackageResolver) \<and> provider = UsdFileformat))"

definition validate_direction ::
  "string \<Rightarrow> plugin_kind \<Rightarrow> plugin_manifest \<Rightarrow> workspace_state \<Rightarrow> workspace_state"
where
  "validate_direction consumer_id consumer_kind provider st =
     (if forbidden_direction consumer_kind (plugin_kind_of provider)
      then push_issue (issue ''WORKSPACE_DEPENDENCY_DIRECTION_FORBIDDEN'' consumer_id (Some (plugin_name provider))
             (''dependency direction '' @ plugin_kind_as_str consumer_kind @ '' -> '' @
              plugin_kind_as_str (plugin_kind_of provider) @ '' is forbidden'')) st
      else st)"


type_synonym unique_bundles = "(string, plugin_manifest) btree_map"

definition validate_pinned_bundle ::
  "string \<Rightarrow> unique_bundles \<Rightarrow> bundle_dependency \<Rightarrow> library_artifact_pin \<Rightarrow> workspace_state \<Rightarrow> workspace_state"
where
  "validate_pinned_bundle k unique d artifact st0 =
     (let report = (\<lambda>code message. push_issue (issue code k (Some (bdep_id d)) message));
          previous = bt_get (st_bundle_pins st0) (bdep_id d);
          st = st0 \<lparr> st_bundle_pins := bt_insert (bdep_id d) d (st_bundle_pins st0) \<rparr>
      in if previous \<noteq> None \<and> previous \<noteq> Some d
         then report ''WORKSPACE_BUNDLE_ARTIFACT_CONFLICT''
                (''bundle '' @ quoted (bdep_id d) @ '' has conflicting external artifact pins'') st
         else if \<not> valid_artifact_pin artifact
         then report ''WORKSPACE_BUNDLE_ARTIFACT_DIGEST_INVALID''
                (''bundle '' @ quoted k @ '' pins '' @ quoted (bdep_id d) @
                 '' with an invalid sha256 artifact digest'') st
         else if bt_get unique (bdep_id d) \<noteq> None
         then report ''WORKSPACE_BUNDLE_PROVIDER_AMBIGUOUS''
                (''bundle '' @ quoted k @ '' declares both a workspace provider and an artifact for '' @
                 quoted (bdep_id d)) st
         else if bad_requirement (bdep_version d)
         then report ''WORKSPACE_DEPENDENCY_VERSION_INVALID''
                (''bundle '' @ quoted k @ '' declares an invalid version requirement for '' @ quoted (bdep_id d)) st
         else if bdep_contract d = Some 0
         then report ''WORKSPACE_SCHEMA_CONTRACT_INVALID'' ''required schema contract must be greater than zero'' st
         else push_edge_to
                \<lparr> edge_from = k, edge_to = bdep_id d, edge_version = bdep_version d,
                  edge_contract = bdep_contract d, edge_external = True,
                  edge_digest = artifact_digest_of artifact, edge_targets = artifact_targets_of artifact \<rparr> st)"

definition validate_bundle_version ::
  "string \<Rightarrow> bundle_dependency \<Rightarrow> plugin_manifest \<Rightarrow> workspace_state \<Rightarrow> workspace_state"
where
  "validate_bundle_version k d provider st =
     (let report = (\<lambda>code message. push_issue (issue code k (Some (bdep_id d)) message) st)
      in if trim (bdep_version d) = []
         then report ''WORKSPACE_DEPENDENCY_VERSION_INVALID''
                (''bundle '' @ quoted k @ '' declares an empty version requirement for '' @ quoted (bdep_id d))
         else case satisfies (plugin_version provider) (bdep_version d) of
                Inr True \<Rightarrow> st
              | Inr False \<Rightarrow>
                  report ''WORKSPACE_DEPENDENCY_VERSION_MISMATCH''
                    (''bundle '' @ quoted k @ '' requires '' @ quoted (bdep_id d) @ '' at '' @ bdep_version d @
                     '', but the workspace has '' @ plugin_version provider)
              | Inl e \<Rightarrow>
                  report ''WORKSPACE_DEPENDENCY_VERSION_INVALID''
                    (''bundle '' @ quoted k @ '' declares an invalid version requirement for '' @
                     quoted (bdep_id d) @ '': '' @ range_error_message e))"

definition validate_workspace_bundle ::
  "string \<Rightarrow> plugin_kind \<Rightarrow> unique_bundles \<Rightarrow> bundle_dependency \<Rightarrow> workspace_state \<Rightarrow> workspace_state"
where
  "validate_workspace_bundle k kind unique d st =
     (case bt_get unique (bdep_id d) of
        None \<Rightarrow>
          push_issue (issue ''WORKSPACE_DEPENDENCY_MISSING'' k (Some (bdep_id d))
            (''bundle '' @ quoted k @ '' requires missing bundle '' @ quoted (bdep_id d))) st
      | Some provider \<Rightarrow>
          validate_direction k kind provider
            (validate_contract k d provider
              (validate_bundle_version k d provider
                (push_edge_to
                   \<lparr> edge_from = k, edge_to = bdep_id d, edge_version = bdep_version d,
                     edge_contract = bdep_contract d, edge_external = False,
                     edge_digest = None, edge_targets = None \<rparr> st))))"

text \<open>The loops over declared dependencies carry the ids seen in this declaration.\<close>

definition bundle_dependency_step ::
  "string \<Rightarrow> plugin_kind \<Rightarrow> unique_bundles \<Rightarrow> string btree_set \<times> workspace_state \<Rightarrow> bundle_dependency
     \<Rightarrow> string btree_set \<times> workspace_state"
where
  "bundle_dependency_step k kind unique = (\<lambda>(seen, st) d.
     if \<not> is_portable_id (bdep_id d)
     then (seen, push_issue (issue ''WORKSPACE_DEPENDENCY_ID_INVALID'' k (Some (bdep_id d))
            (''dependency id '' @ quoted (bdep_id d) @ '' is not a portable identifier'')) st)
     else if bdep_id d \<in> set seen
     then (seen, push_issue (issue ''WORKSPACE_DUPLICATE_DEPENDENCY'' k (Some (bdep_id d))
            (''bundle '' @ quoted k @ '' declares dependency '' @ quoted (bdep_id d) @ '' more than once'')) st)
     else (bs_insert (bdep_id d) seen,
           case bdep_artifact d of
             Some artifact \<Rightarrow> validate_pinned_bundle k unique d artifact st
           | None \<Rightarrow> validate_workspace_bundle k kind unique d st))"

definition library_dependency_step ::
  "string \<Rightarrow> string \<Rightarrow> string \<Rightarrow> (string, library_manifest) btree_map
     \<Rightarrow> string btree_set \<times> workspace_state \<Rightarrow> library_dependency \<times> string \<Rightarrow> string btree_set \<times> workspace_state"
where
  "library_dependency_step k consumer_kind what providers = (\<lambda>(seen, st) (d, scope).
     if ldep_id d \<in> set seen
     then (seen, push_issue (issue ''WORKSPACE_DUPLICATE_LIBRARY_DEPENDENCY'' k (Some (ldep_id d))
            (consumer_kind @ '' '' @ quoted k @ '' declares '' @ what @ '' '' @ quoted (ldep_id d) @
             '' more than once'')) st)
     else (bs_insert (ldep_id d) seen, validate_library_dependency k consumer_kind d scope providers st))"

definition tool_dependency_step ::
  "string \<Rightarrow> string list \<Rightarrow> string btree_set \<times> workspace_state \<Rightarrow> tool_dependency \<Rightarrow> string btree_set \<times> workspace_state"
where
  "tool_dependency_step k tool_ids = (\<lambda>(seen, st) d.
     let report = (\<lambda>code message. push_issue (issue code k (Some (tdep_id d)) message))
     in if tdep_id d \<in> set seen
        then (seen, report ''WORKSPACE_DUPLICATE_TOOL_DEPENDENCY''
               (''bundle '' @ quoted k @ '' declares tool dependency '' @ quoted (tdep_id d) @ '' more than once'') st)
        else (bs_insert (tdep_id d) seen,
          if \<not> is_portable_id (tdep_id d) \<or> bad_requirement (tdep_version d)
             \<or> \<not> valid_artifact_pin (tdep_artifact d)
          then report ''WORKSPACE_TOOL_ARTIFACT_INVALID''
                 (''bundle '' @ quoted k @ '' has an invalid published tool dependency '' @ quoted (tdep_id d)) st
          else let previous = bt_get (st_tool_pins st) (tdep_id d);
                   st' = st \<lparr> st_tool_pins := bt_insert (tdep_id d) d (st_tool_pins st) \<rparr>
               in if previous \<noteq> None \<and> previous \<noteq> Some d
                  then report ''WORKSPACE_TOOL_ARTIFACT_CONFLICT''
                         (''tool '' @ quoted (tdep_id d) @ '' has conflicting external artifact pins'') st'
                  else if tdep_id d \<in> set tool_ids
                  then report ''WORKSPACE_TOOL_PROVIDER_AMBIGUOUS''
                         (''bundle '' @ quoted k @ '' declares both a workspace tool and an artifact for '' @
                          quoted (tdep_id d)) st'
                  else st'))"

section \<open>Validation\<close>

text \<open>Members grouped by id, in the order of the ids; \<^verbatim>\<open>by_id.entry(id).or_default().push(member)\<close>.\<close>

definition group_by_id :: "('m \<Rightarrow> string) \<Rightarrow> 'm list \<Rightarrow> (string, 'm list) btree_map" where
  "group_by_id key members =
     foldl (\<lambda>groups m. bt_insert (key m)
       ((case bt_get groups (key m) of None \<Rightarrow> [] | Some ms \<Rightarrow> ms) @ [m]) groups) [] members"

definition unique_members :: "(string, 'm list) btree_map \<Rightarrow> (string, 'm) btree_map" where
  "unique_members groups = List.map_filter (\<lambda>(k, ms). if length ms = 1 then Some (k, hd ms) else None) groups"

definition bundle_node :: "string \<Rightarrow> plugin_manifest \<Rightarrow> workspace_node" where
  "bundle_node k m =
     \<lparr> node_id = k, node_version = plugin_version m, node_kind = plugin_kind_of m, node_contract = contract_of m \<rparr>"

definition node_issues :: "string \<Rightarrow> plugin_manifest \<Rightarrow> workspace_issue list" where
  "node_issues k m =
     (if is_portable_id k then []
      else [issue ''WORKSPACE_BUNDLE_ID_INVALID'' k None (''bundle id '' @ quoted k @ '' is not a portable identifier'')])
     @ (if plugin_kind_of m = UsdSchema \<and> contract_of m = Some 0
        then [issue ''WORKSPACE_SCHEMA_CONTRACT_INVALID'' k None ''schema.contract must be greater than zero'']
        else [])
     @ (if plugin_kind_of m \<noteq> UsdSchema \<and> contract_of m \<noteq> None
        then [issue ''WORKSPACE_SCHEMA_CONTRACT_NOT_APPLICABLE'' k None
                ''schema.contract is only valid on a usd-schema bundle'']
        else [])"

definition bundle_group_step ::
  "workspace_node list \<times> workspace_issue list \<Rightarrow> string \<times> plugin_manifest list \<Rightarrow> workspace_node list \<times> workspace_issue list"
where
  "bundle_group_step = (\<lambda>(nodes, issues) (k, matches).
     if 1 < length matches
     then (nodes, issues @ [issue ''WORKSPACE_DUPLICATE_BUNDLE_ID'' k None
            (''bundle id '' @ quoted k @ '' is declared '' @ to_decimal (length matches) @ '' times'')])
     else (nodes @ [bundle_node k (hd matches)], issues @ node_issues k (hd matches)))"

definition library_group_step ::
  "library_node list \<times> workspace_issue list \<Rightarrow> string \<times> library_manifest list \<Rightarrow> library_node list \<times> workspace_issue list"
where
  "library_group_step = (\<lambda>(nodes, issues) (k, matches).
     if 1 < length matches
     then (nodes, issues @ [issue ''WORKSPACE_DUPLICATE_LIBRARY_ID'' k None
            (''library id '' @ quoted k @ '' is declared '' @ to_decimal (length matches) @ '' times'')])
     else let m = hd matches
          in (nodes @ [\<lparr> lnode_id = k, lnode_version = lib_version m, lnode_package = lib_cmake_package m,
                lnode_target = lib_cmake_target m \<rparr>], issues))"

definition validate_bundle_member ::
  "unique_bundles \<Rightarrow> (string, library_manifest) btree_map \<Rightarrow> string list \<Rightarrow> workspace_state \<Rightarrow> string \<times> plugin_manifest
     \<Rightarrow> workspace_state"
where
  "validate_bundle_member unique libraries tool_ids st0 = (\<lambda>(k, m).
     let st1 = snd (foldl (bundle_dependency_step k (plugin_kind_of m) unique) ([], st0)
                  (requires_bundles (plugin_requires_of m)));
         st2 = snd (foldl (library_dependency_step k ''bundle'' ''library dependency'' libraries) ([], st1)
                  (map (\<lambda>d. (d, ''runtime'')) (requires_libraries (plugin_requires_of m))))
     in snd (foldl (tool_dependency_step k tool_ids) ([], st2) (requires_tools (plugin_requires_of m))))"

definition scoped_dependencies :: "library_requires \<Rightarrow> (library_dependency \<times> string) list" where
  "scoped_dependencies r =
     map (\<lambda>d. (d, ''runtime'')) (lreq_libraries r) @ map (\<lambda>d. (d, ''build'')) (lreq_build_libraries r)
       @ map (\<lambda>d. (d, ''test'')) (lreq_test_libraries r)"

definition validate_library_member ::
  "(string, library_manifest) btree_map \<Rightarrow> workspace_state \<Rightarrow> string \<times> library_manifest \<Rightarrow> workspace_state"
where
  "validate_library_member libraries st = (\<lambda>(k, m).
     snd (foldl (library_dependency_step k ''library'' ''dependency'' libraries) ([], st)
       (scoped_dependencies (lib_requires m))))"

definition validate_tool_group ::
  "(string, library_manifest) btree_map \<Rightarrow> workspace_state \<Rightarrow> string \<times> tool_manifest list \<Rightarrow> workspace_state"
where
  "validate_tool_group libraries st = (\<lambda>(k, matches).
     if 1 < length matches
     then push_issue (issue ''WORKSPACE_DUPLICATE_TOOL_ID'' k None
            (''tool id '' @ quoted k @ '' is declared '' @ to_decimal (length matches) @ '' times'')) st
     else snd (foldl (library_dependency_step k ''tool'' ''library dependency'' libraries) ([], st)
            (map (\<lambda>d. (d, ''runtime'')) (tool_requires_libraries (hd matches)))))"

definition cycle_issue :: "string \<Rightarrow> string \<Rightarrow> string list \<Rightarrow> workspace_issue" where
  "cycle_issue code what cycle =
     issue code (hd cycle) None (what @ '' dependency cycle: '' @ join '' -> '' (cycle @ [hd cycle]))"

definition initial_workspace :: "workspace_issue list \<Rightarrow> workspace_state" where
  "initial_workspace issues =
     \<lparr> st_issues = issues, st_edges = [], st_library_edges = [], st_bundle_pins = [], st_tool_pins = [] \<rparr>"

definition validate_workspace_with_members ::
  "plugin_bundle list \<Rightarrow> library_manifest list \<Rightarrow> tool_manifest list \<Rightarrow> workspace_validation"
where
  "validate_workspace_with_members bundles libraries tools =
     (let by_id = group_by_id plugin_name (map bundle_manifest bundles);
          imaging = map (issue ''WORKSPACE_IMAGING_CONFLICT'' ''workspace'' None) (imaging_conflicts bundles);
          (nodes, issues1) = foldl bundle_group_step ([], imaging) by_id;
          unique = unique_members by_id;
          libraries_by_id = group_by_id lib_id libraries;
          (library_nodes, issues2) = foldl library_group_step ([], issues1) libraries_by_id;
          unique_libraries = unique_members libraries_by_id;
          st1 = foldl (validate_bundle_member unique unique_libraries (map tool_id tools))
                  (initial_workspace issues2) unique;
          st2 = foldl (validate_library_member unique_libraries) st1 unique_libraries;
          st3 = foldl (validate_tool_group unique_libraries) st2 (group_by_id tool_id tools);
          edges = sort_key edge_key (st_edges st3);
          library_edges = sort_key library_edge_key (st_library_edges st3);
          issues = sort_key issue_key (st_issues st3
            @ map (cycle_issue ''WORKSPACE_DEPENDENCY_CYCLE'' ''bundle'') (find_cycles nodes edges)
            @ map (cycle_issue ''WORKSPACE_LIBRARY_DEPENDENCY_CYCLE'' ''library'')
                (find_library_cycles library_nodes library_edges))
      in \<lparr> ws_passed = (issues = []), ws_nodes = nodes, ws_edges = edges, ws_libraries = library_nodes,
           ws_library_edges = library_edges, ws_issues = issues \<rparr>)"

definition validate_workspace_with_libraries ::
  "plugin_bundle list \<Rightarrow> library_manifest list \<Rightarrow> workspace_validation"
where
  "validate_workspace_with_libraries bundles libraries = validate_workspace_with_members bundles libraries []"

definition validate_workspace :: "plugin_bundle list \<Rightarrow> workspace_validation" where
  "validate_workspace bundles = validate_workspace_with_libraries bundles []"

section \<open>A sample workspace\<close>

definition sample_bundle :: "string \<Rightarrow> plugin_kind \<Rightarrow> nat option \<Rightarrow> bundle_dependency list \<Rightarrow> library_dependency list \<Rightarrow> plugin_bundle" where
  "sample_bundle name kind contract bundles libraries =
     \<lparr> bundle_root = ''/w/'' @ name,
       bundle_manifest = sample_plugin
         \<lparr> plugin_name := name, plugin_kind_of := kind,
           plugin_schema := map_option (\<lambda>c. \<lparr> schema_codeless = False, schema_source_path = None, schema_contract = Some c \<rparr>) contract,
           plugin_requires_of := (plugin_requires_of sample_plugin) \<lparr> requires_bundles := bundles, requires_libraries := libraries \<rparr> \<rparr>,
       bundle_output_root = None \<rparr>"

definition sample_library :: "string \<Rightarrow> library_dependency list \<Rightarrow> library_manifest" where
  "sample_library name libraries =
     \<lparr> lib_schema = ''openstrata.library/v1alpha1'', lib_id = name, lib_version = ''0.2.0'', lib_cmake_package = name,
       lib_cmake_target = name @ ''::'' @ name, lib_package = None, lib_package_contract = None,
       lib_requires = \<lparr> lreq_libraries = libraries, lreq_build_libraries = [], lreq_test_libraries = [] \<rparr>,
       lib_runtime = \<lparr> lrt_directories = [], lrt_required_files = None \<rparr> \<rparr>"

definition sample_libdep :: "string \<Rightarrow> library_dependency" where
  "sample_libdep name = \<lparr> ldep_id = name, ldep_version = ''>=0.1'', ldep_artifact = None \<rparr>"

definition sample_bundles :: "plugin_bundle list" where
  "sample_bundles =
     [sample_bundle ''rasterFormat'' UsdFileformat None
        [\<lparr> bdep_id = ''rasterSchema'', bdep_version = ''>=0.1'', bdep_contract = Some 1, bdep_artifact = None \<rparr>]
        [sample_libdep ''raster''],
      sample_bundle ''rasterSchema'' UsdSchema (Some 1) [] []]"

definition sample_libraries :: "library_manifest list" where
  "sample_libraries = [sample_library ''raster'' [sample_libdep ''pixels''], sample_library ''pixels'' []]"

definition sample_loop :: "workspace_edge list" where
  "sample_loop = map (\<lambda>(a, b). \<lparr> edge_from = a, edge_to = b, edge_version = ''*'', edge_contract = None,
     edge_external = False, edge_digest = None, edge_targets = None \<rparr>) [(''b'', ''a''), (''a'', ''b'')]"

end
