(* ===== verification/WorkspaceSoundness.thy ===== *)
theory WorkspaceSoundness
  imports Workspaces
begin

text \<open>
  What a workspace report guarantees: a passed workspace has unique, acyclic members whose
  declared dependencies are all met, and its build orders list every
  dependency before its dependents.
\<close>

section \<open>Graphs of a report\<close>

definition bundle_edges :: "workspace_edge list \<Rightarrow> (string \<times> string) set" where
  "bundle_edges edges = {(edge_from e, edge_to e) |e. e \<in> set edges \<and> \<not> edge_external e}"

definition library_edges_of :: "(library_edge \<Rightarrow> bool) \<Rightarrow> library_edge list \<Rightarrow> (string \<times> string) set" where
  "library_edges_of keep edges = {(ledge_from e, ledge_to e) |e. e \<in> set edges \<and> keep e}"

lemma digraph_bundle_graph [simp]: "digraph (bundle_graph nodes edges) = bundle_edges edges"
  by (auto simp: bundle_graph_def bundle_edges_def)

lemma digraph_library_graph [simp]: "digraph (library_graph keep nodes edges) = library_edges_of keep edges"
  by (auto simp: library_graph_def library_edges_of_def)

lemma successors_graph: "set (successors adj x) = digraph adj `` {x}"
  by (simp add: digraph_image)

lemma post_order_closure:
  "acyclic (digraph adj) \<Longrightarrow> closure_order (digraph adj) (set roots) (post_order adj roots)"
  unfolding post_order_def by (rule visit_all_closure)

text \<open>
  C29. The cycle search is exact: it reports nothing exactly when the workspace's own bundles,
  respectively libraries, depend on each other without a cycle, and every report is a cycle
  of the graph, free of repetitions and started at its smallest id.
\<close>

theorem workspace_cycles_exact:
  "(find_cycles nodes edges = [] \<longleftrightarrow> acyclic (bundle_edges edges))
   \<and> (\<forall>c \<in> set (find_cycles nodes edges). canonical_cycle (bundle_edges edges) c)
   \<and> (find_library_cycles lnodes ledges = [] \<longleftrightarrow> acyclic (library_edges_of library_cycle_edge ledges))
   \<and> (\<forall>c \<in> set (find_library_cycles lnodes ledges). canonical_cycle (library_edges_of library_cycle_edge ledges) c)"
  using cycles_of_complete [of "bundle_graph nodes edges"] cycles_of_sound [of _ "bundle_graph nodes edges"]
    cycles_of_complete [of "library_graph library_cycle_edge lnodes ledges"]
    cycles_of_sound [of _ "library_graph library_cycle_edge lnodes ledges"]
  by (simp add: find_cycles_def find_library_cycles_def)

section \<open>The stages of the validation\<close>

lemma bt_ext:
  assumes "bt_ok m" "bt_ok m'" "map_of m = map_of m'"
  shows "m = m'"
proof -
  have sorted: "sorted (bt_keys m)" "distinct (bt_keys m)" "sorted (bt_keys m')" "distinct (bt_keys m')"
    using assms(1,2) by (auto simp: bt_ok_def strict_sorted_iff)
  have "set (bt_keys m) = set (bt_keys m')"
    using assms(3) by (metis dom_map_of_conv_image_fst set_map)
  then have keys: "bt_keys m = bt_keys m'"
    using sorted by (simp add: sorted_distinct_set_unique)
  have entries: "map (\<lambda>k. (k, the (map_of m k))) (bt_keys m) = m" if "distinct (bt_keys m)"
    for m :: "('a \<times> 'b) list"
    unfolding map_map by (rule map_idI) (use that in auto)
  show ?thesis
    using entries [OF sorted(2)] entries [OF sorted(4)] keys assms(3) by simp
qed

lemma group_step_ok: "bt_ok groups \<Longrightarrow> bt_ok (foldl (\<lambda>groups m. bt_insert (key m)
       ((case bt_get groups (key m) of None \<Rightarrow> [] | Some ms \<Rightarrow> ms) @ [m]) groups) groups members)"
  by (induction members arbitrary: groups) (auto intro: bt_ok_insert)

lemma group_step_get:
  "bt_get (foldl (\<lambda>groups m. bt_insert (key m)
       ((case bt_get groups (key m) of None \<Rightarrow> [] | Some ms \<Rightarrow> ms) @ [m]) groups) groups members) k =
   (let hits = filter (\<lambda>m. key m = k) members
    in if hits = [] then bt_get groups k
       else Some ((case bt_get groups k of None \<Rightarrow> [] | Some ms \<Rightarrow> ms) @ hits))"
  by (induction members arbitrary: groups) (auto simp: Let_def)

lemma group_ok: "bt_ok (group_by_id key members)"
  unfolding group_by_id_def by (rule group_step_ok) (simp add: bt_ok_def)

lemma group_get:
  "bt_get (group_by_id key members) k =
     (let hits = filter (\<lambda>m. key m = k) members in if hits = [] then None else Some hits)"
  unfolding group_by_id_def group_step_get by (simp add: Let_def)

lemma group_entry:
  "(k, ms) \<in> set (group_by_id key members) \<longleftrightarrow> ms \<noteq> [] \<and> ms = filter (\<lambda>m. key m = k) members"
proof -
  have "(k, ms) \<in> set (group_by_id key members) \<longleftrightarrow> bt_get (group_by_id key members) k = Some ms"
    using group_ok [of key members] by (simp add: bt_ok_def strict_sorted_iff)
  then show ?thesis by (auto simp: group_get Let_def)
qed

lemma group_keys: "set (bt_keys (group_by_id key members)) = key ` set members"
proof -
  have "k \<in> set (bt_keys (group_by_id key members)) \<longleftrightarrow> bt_get (group_by_id key members) k \<noteq> None" for k
    by (rule btree.keys_get [OF group_ok])
  moreover have "bt_get (group_by_id key members) k \<noteq> None \<longleftrightarrow> k \<in> key ` set members" for k
    by (auto simp: group_get Let_def filter_empty_conv)
  ultimately show ?thesis by blast
qed

lemma filter_singleton_distinct:
  "(\<forall>x \<in> set xs. length (filter (\<lambda>y. f y = f x) xs) \<le> 1) \<longleftrightarrow> distinct (map f xs)"
proof (induction xs)
  case (Cons x xs)
  have "(\<forall>y \<in> set (x # xs). length (filter (\<lambda>z. f z = f y) (x # xs)) \<le> 1) \<longleftrightarrow>
      f x \<notin> f ` set xs \<and> (\<forall>y \<in> set xs. length (filter (\<lambda>z. f z = f y) xs) \<le> 1)"
    by (auto simp: filter_empty_conv image_iff)
  with Cons show ?case by simp
qed simp


section \<open>Dependencies without issues\<close>

definition declared_edge :: "string \<Rightarrow> bundle_dependency \<Rightarrow> workspace_edge" where
  "declared_edge k d =
     \<lparr> edge_from = k, edge_to = bdep_id d, edge_version = bdep_version d, edge_contract = bdep_contract d,
       edge_external = (bdep_artifact d \<noteq> None),
       edge_digest = Option.bind (bdep_artifact d) artifact_digest_of,
       edge_targets = Option.bind (bdep_artifact d) artifact_targets_of \<rparr>"

definition bundle_dependency_ok ::
  "unique_bundles \<Rightarrow> string \<Rightarrow> plugin_kind \<Rightarrow> bundle_dependency \<Rightarrow> bool"
where
  "bundle_dependency_ok unique k kind d \<longleftrightarrow> is_portable_id (bdep_id d)
     \<and> (case bdep_artifact d of
          Some artifact \<Rightarrow> valid_artifact_pin artifact \<and> bt_get unique (bdep_id d) = None
            \<and> \<not> bad_requirement (bdep_version d) \<and> bdep_contract d \<noteq> Some 0
        | None \<Rightarrow> \<exists>provider. bt_get unique (bdep_id d) = Some provider
            \<and> satisfies (plugin_version provider) (bdep_version d) = Inr True
            \<and> contract_issue k d provider = None
            \<and> \<not> forbidden_direction kind (plugin_kind_of provider))"

definition declared_library_edge :: "string \<Rightarrow> string \<Rightarrow> library_dependency \<times> string \<Rightarrow> library_edge" where
  "declared_library_edge k kind = (\<lambda>(d, scope).
     \<lparr> ledge_from = k, ledge_from_kind = kind, ledge_to = ldep_id d, ledge_version = ldep_version d,
       ledge_scope = scope, ledge_external = (ldep_artifact d \<noteq> None),
       ledge_digest = Option.bind (ldep_artifact d) artifact_digest_of,
       ledge_targets = Option.bind (ldep_artifact d) artifact_targets_of \<rparr>)"

definition library_dependency_ok :: "(string, library_manifest) btree_map \<Rightarrow> library_dependency \<Rightarrow> bool" where
  "library_dependency_ok providers d \<longleftrightarrow> is_portable_id (ldep_id d)
     \<and> (case ldep_artifact d of
          Some artifact \<Rightarrow> valid_artifact_pin artifact \<and> bt_get providers (ldep_id d) = None
            \<and> \<not> bad_requirement (ldep_version d)
        | None \<Rightarrow> \<exists>provider. bt_get providers (ldep_id d) = Some provider
            \<and> satisfies (lib_version provider) (ldep_version d) = Inr True)"

lemma push_simps [simp]:
  "st_issues (push_issue i st) = st_issues st @ [i]" "st_edges (push_issue i st) = st_edges st"
  "st_library_edges (push_issue i st) = st_library_edges st"
  "st_issues (push_edge_to e st) = st_issues st" "st_edges (push_edge_to e st) = st_edges st @ [e]"
  "st_library_edges (push_edge_to e st) = st_library_edges st"
  "st_issues (push_library_edge l st) = st_issues st" "st_edges (push_library_edge l st) = st_edges st"
  "st_library_edges (push_library_edge l st) = st_library_edges st @ [l]"
  by (simp_all add: push_issue_def push_edge_to_def push_library_edge_def)

text \<open>\<open>clean_step\<close>: the report gets no issue and the given edges, and \<open>ok\<close> held.\<close>

definition clean_step ::
  "bool \<Rightarrow> workspace_edge list \<Rightarrow> library_edge list \<Rightarrow> workspace_state \<Rightarrow> workspace_state \<Rightarrow> bool"
where
  "clean_step ok es ls st st' \<longleftrightarrow>
     (st_issues st' = [] \<longrightarrow> ok \<and> st_issues st = [] \<and> st_edges st' = st_edges st @ es
        \<and> st_library_edges st' = st_library_edges st @ ls)"

lemma validate_library_dependency_clean:
  "clean_step (library_dependency_ok providers d) [] [declared_library_edge k kind (d, scope)] st
     (validate_library_dependency k kind d scope providers st)"
  by (auto simp: clean_step_def validate_library_dependency_def library_dependency_ok_def
      declared_library_edge_def Let_def split: option.splits sum.splits bool.splits)

lemma validate_pinned_bundle_clean:
  assumes "bdep_artifact d = Some artifact" "is_portable_id (bdep_id d)"
  shows "clean_step (bundle_dependency_ok unique k kind d) [declared_edge k d] [] st
     (validate_pinned_bundle k unique d artifact st)"
  using assms
  by (auto simp: clean_step_def validate_pinned_bundle_def bundle_dependency_ok_def declared_edge_def Let_def)

lemma validate_bundle_version_clean:
  "clean_step (satisfies (plugin_version provider) (bdep_version d) = Inr True) [] [] st
     (validate_bundle_version k d provider st)"
  by (auto simp: clean_step_def validate_bundle_version_def Let_def split: sum.splits bool.splits)

lemma clean_step_trans:
  "clean_step ok es ls st st' \<Longrightarrow> clean_step ok' es' ls' st' st'' \<Longrightarrow>
   clean_step (ok \<and> ok') (es @ es') (ls @ ls') st st''"
  by (auto simp: clean_step_def)

lemma validate_workspace_bundle_clean:
  assumes "bdep_artifact d = None" "is_portable_id (bdep_id d)"
  shows "clean_step (bundle_dependency_ok unique k kind d) [declared_edge k d] [] st
     (validate_workspace_bundle k kind unique d st)"
proof (cases "bt_get unique (bdep_id d)")
  case None
  then show ?thesis by (simp add: clean_step_def validate_workspace_bundle_def)
next
  case (Some provider)
  have contract: "clean_step (contract_issue k d provider = None) [] [] st (validate_contract k d provider st)" for st
    by (simp add: clean_step_def validate_contract_def split: option.split)
  have direction: "clean_step (\<not> forbidden_direction kind (plugin_kind_of provider)) [] [] st
      (validate_direction k kind provider st)" for st
    by (simp add: clean_step_def validate_direction_def)
  let ?st = "push_edge_to (declared_edge k d) st"
  have "clean_step True [declared_edge k d] [] st ?st"
    by (simp add: clean_step_def)
  from clean_step_trans [OF clean_step_trans [OF clean_step_trans [OF this validate_bundle_version_clean] contract] direction]
  have "clean_step (((True \<and> satisfies (plugin_version provider) (bdep_version d) = Inr True)
        \<and> contract_issue k d provider = None) \<and> \<not> forbidden_direction kind (plugin_kind_of provider))
      [declared_edge k d] [] st (validate_workspace_bundle k kind unique d st)"
    by (simp add: validate_workspace_bundle_def Some declared_edge_def assms(1))
  then show ?thesis
    using assms by (simp add: clean_step_def bundle_dependency_ok_def Some)
qed

lemma clean_step_weaken:
  "clean_step ok es ls st st' \<Longrightarrow> (ok \<Longrightarrow> ok') \<Longrightarrow> es = es' \<Longrightarrow> ls = ls' \<Longrightarrow> clean_step ok' es' ls' st st'"
  by (simp add: clean_step_def)

lemma clean_step_issue: "clean_step ok es ls (push_issue i st) st' \<Longrightarrow> clean_step ok' es' ls' st st'"
  by (simp add: clean_step_def)

text \<open>The loops over one member's dependencies.\<close>

lemma bundle_loop_clean:
  "clean_step ((\<forall>d \<in> set ds. bundle_dependency_ok unique k kind d) \<and> distinct (map bdep_id ds)
       \<and> set seen \<inter> bdep_id ` set ds = {})
     (map (declared_edge k) ds) [] st (snd (foldl (bundle_dependency_step k kind unique) (seen, st) ds))"
proof (induction ds arbitrary: seen st)
  case Nil
  then show ?case by (simp add: clean_step_def)
next
  case (Cons d ds)
  show ?case
  proof (cases "is_portable_id (bdep_id d) \<and> bdep_id d \<notin> set seen")
    case False
    then have "\<exists>i. bundle_dependency_step k kind unique (seen, st) d = (seen, push_issue i st)"
      by (cases "is_portable_id (bdep_id d)") (auto simp: bundle_dependency_step_def)
    then obtain i where "bundle_dependency_step k kind unique (seen, st) d = (seen, push_issue i st)" ..
    then show ?thesis
      using clean_step_issue [OF Cons [of seen "push_issue i st"]] by simp
  next
    case True
    let ?st = "case bdep_artifact d of Some artifact \<Rightarrow> validate_pinned_bundle k unique d artifact st
        | None \<Rightarrow> validate_workspace_bundle k kind unique d st"
    have "clean_step (bundle_dependency_ok unique k kind d) [declared_edge k d] [] st ?st"
      using True validate_pinned_bundle_clean validate_workspace_bundle_clean by (auto split: option.split)
    note both = clean_step_trans [OF this Cons [of "bs_insert (bdep_id d) seen" ?st]]
    have step: "bundle_dependency_step k kind unique (seen, st) d = (bs_insert (bdep_id d) seen, ?st)"
      using True by (simp add: bundle_dependency_step_def)
    show ?thesis
      unfolding foldl_Cons step by (rule clean_step_weaken [OF both]) (use True in auto)
  qed
qed

lemma library_loop_clean:
  "clean_step ((\<forall>ds \<in> set dss. library_dependency_ok providers (fst ds)) \<and> distinct (map (ldep_id \<circ> fst) dss)
       \<and> set seen \<inter> (ldep_id \<circ> fst) ` set dss = {})
     [] (map (declared_library_edge k kind) dss) st
     (snd (foldl (library_dependency_step k kind what providers) (seen, st) dss))"
proof (induction dss arbitrary: seen st)
  case Nil
  then show ?case by (simp add: clean_step_def)
next
  case (Cons ds dss)
  obtain d scope where ds: "ds = (d, scope)" by (cases ds)
  show ?case
  proof (cases "ldep_id d \<in> set seen")
    case True
    then obtain i where "library_dependency_step k kind what providers (seen, st) ds = (seen, push_issue i st)"
      by (auto simp: library_dependency_step_def ds)
    then show ?thesis
      using clean_step_issue [OF Cons [of seen "push_issue i st"]] by simp
  next
    case False
    let ?st = "validate_library_dependency k kind d scope providers st"
    note both = clean_step_trans [OF validate_library_dependency_clean [of providers d k kind scope st]
        Cons [of "bs_insert (ldep_id d) seen" ?st]]
    have step: "library_dependency_step k kind what providers (seen, st) ds = (bs_insert (ldep_id d) seen, ?st)"
      using False by (simp add: library_dependency_step_def ds)
    show ?thesis
      unfolding foldl_Cons step by (rule clean_step_weaken [OF both]) (use False in \<open>auto simp: ds\<close>)
  qed
qed

lemma tool_loop_clean:
  "clean_step True [] [] st (snd (foldl (tool_dependency_step k tool_ids) (seen, st) ds))"
proof (induction ds arbitrary: seen st)
  case (Cons d ds)
  obtain seen' st' where step: "tool_dependency_step k tool_ids (seen, st) d = (seen', st')"
    by (cases "tool_dependency_step k tool_ids (seen, st) d")
  then have "clean_step True [] [] st st'"
    by (auto simp: tool_dependency_step_def clean_step_def Let_def split: if_splits)
  from clean_step_trans [OF this Cons [where st = st' and seen = seen']] show ?case by (simp add: step)
qed (simp add: clean_step_def)


lemma foldl_clean:
  assumes "\<And>x st. clean_step (ok x) (es x) (ls x) st (f st x)"
  shows "clean_step (\<forall>x \<in> set xs. ok x) (concat (map es xs)) (concat (map ls xs)) st (foldl f st xs)"
proof (induction xs arbitrary: st)
  case (Cons x xs)
  from clean_step_trans [OF assms [of x st] Cons [of "f st x"]] show ?case
    by (simp add: ball_simps)
qed (simp add: clean_step_def)

definition member_ok :: "unique_bundles \<Rightarrow> (string, library_manifest) btree_map \<Rightarrow> string \<times> plugin_manifest \<Rightarrow> bool" where
  "member_ok unique libraries = (\<lambda>(k, m).
     (\<forall>d \<in> set (requires_bundles (plugin_requires_of m)). bundle_dependency_ok unique k (plugin_kind_of m) d)
     \<and> (\<forall>d \<in> set (requires_libraries (plugin_requires_of m)). library_dependency_ok libraries d))"

lemma bundle_member_clean:
  "clean_step (member_ok unique libraries km)
     (map (declared_edge (fst km)) (requires_bundles (plugin_requires_of (snd km))))
     (map (\<lambda>d. declared_library_edge (fst km) ''bundle'' (d, ''runtime''))
        (requires_libraries (plugin_requires_of (snd km))))
     st (validate_bundle_member unique libraries tool_ids st km)"
proof -
  obtain k m where km: "km = (k, m)" by (cases km)
  let ?st1 = "snd (foldl (bundle_dependency_step k (plugin_kind_of m) unique) ([], st)
      (requires_bundles (plugin_requires_of m)))"
  let ?st2 = "snd (foldl (library_dependency_step k ''bundle'' ''library dependency'' libraries) ([], ?st1)
      (map (\<lambda>d. (d, ''runtime'')) (requires_libraries (plugin_requires_of m))))"
  note all = clean_step_trans [OF clean_step_trans [OF bundle_loop_clean [of _ unique k "plugin_kind_of m" "[]" st]
        library_loop_clean [of "map (\<lambda>d. (d, ''runtime'')) (requires_libraries (plugin_requires_of m))"
          libraries "[]" k "''bundle''" ?st1 "''library dependency''"]]
        tool_loop_clean [of ?st2 k tool_ids "[]" "requires_tools (plugin_requires_of m)"]]
  show ?thesis
    unfolding km validate_bundle_member_def Let_def prod.case
    by (rule clean_step_weaken [OF all]) (auto simp: member_ok_def)
qed

lemma library_member_clean:
  "clean_step (\<forall>d \<in> set (all_dependencies (lib_requires (snd km))). library_dependency_ok libraries d) []
     (map (declared_library_edge (fst km) ''library'') (scoped_dependencies (lib_requires (snd km))))
     st (validate_library_member libraries st km)"
proof -
  obtain k m where km: "km = (k, m)" by (cases km)
  show ?thesis
    unfolding km validate_library_member_def prod.case
    by (rule clean_step_weaken [OF library_loop_clean])
       (auto simp: scoped_dependencies_def all_dependencies_def build_dependencies_def ball_Un)
qed

definition tool_edges :: "string \<times> tool_manifest list \<Rightarrow> library_edge list" where
  "tool_edges = (\<lambda>(k, ms). map (\<lambda>d. declared_library_edge k ''tool'' (d, ''runtime'')) (tool_requires_libraries (hd ms)))"

lemma tool_group_clean:
  "clean_step (length (snd km) \<le> 1 \<and> (\<forall>d \<in> set (tool_requires_libraries (hd (snd km))). library_dependency_ok libraries d))
     [] (tool_edges km) st (validate_tool_group libraries st km)"
proof -
  obtain k ms where km: "km = (k, ms)" by (cases km)
  show ?thesis
  proof (cases "1 < length ms")
    case True
    then show ?thesis by (simp add: validate_tool_group_def km clean_step_def)
  next
    case False
    then show ?thesis
      unfolding km validate_tool_group_def prod.case if_not_P [OF False]
      by (intro clean_step_weaken [OF library_loop_clean]) (auto simp: tool_edges_def)
  qed
qed


section \<open>A passed workspace\<close>

lemma bundle_groups_clean:
  assumes "foldl bundle_group_step (nodes, issues) groups = (nodes', [])"
  shows "issues = [] \<and> (\<forall>(k, ms) \<in> set groups. length ms \<le> 1 \<and> node_issues k (hd ms) = [])
     \<and> nodes' = nodes @ map (\<lambda>(k, ms). bundle_node k (hd ms)) groups"
  using assms
proof (induction groups arbitrary: nodes issues)
  case (Cons g groups)
  obtain k ms where g: "g = (k, ms)" by (cases g)
  show ?case
    using Cons.prems Cons.IH by (cases "1 < length ms") (fastforce simp: g bundle_group_step_def)+
qed simp

lemma library_groups_clean:
  assumes "foldl library_group_step (nodes, issues) groups = (nodes', [])"
  shows "issues = [] \<and> (\<forall>(k, ms) \<in> set groups. length ms \<le> 1)
     \<and> map lnode_id nodes' = map lnode_id nodes @ map fst groups"
  using assms
proof (induction groups arbitrary: nodes issues)
  case (Cons g groups)
  obtain k ms where g: "g = (k, ms)" by (cases g)
  show ?case
    using Cons.prems Cons.IH by (cases "1 < length ms") (fastforce simp: g library_group_step_def Let_def)+
qed simp

lemma groups_unique:
  assumes "\<forall>(k, ms) \<in> set (group_by_id key members). length ms \<le> 1"
  shows "distinct (map key members)"
    and "unique_members (group_by_id key members) = map (\<lambda>(k, ms). (k, hd ms)) (group_by_id key members)"
    and "bt_get (unique_members (group_by_id key members)) k = Some m \<longleftrightarrow> m \<in> set members \<and> key m = k"
    and "(k, m) \<in> set (unique_members (group_by_id key members)) \<longleftrightarrow> m \<in> set members \<and> key m = k"
proof -
  let ?groups = "group_by_id key members"
  have "length (filter (\<lambda>y. key y = key x) members) \<le> 1" if "x \<in> set members" for x
  proof -
    have "filter (\<lambda>y. key y = key x) members \<noteq> []" using that by (auto simp: filter_empty_conv)
    then have "(key x, filter (\<lambda>y. key y = key x) members) \<in> set ?groups" by (simp add: group_entry)
    with assms show ?thesis by blast
  qed
  then show dist: "distinct (map key members)"
    using filter_singleton_distinct [of members key] by blast
  have one: "length ms = 1" if "(k, ms) \<in> set ?groups" for k ms
    using that assms by (fastforce simp: group_entry le_Suc_eq)
  have "unique_members gs = map (\<lambda>(k, ms). (k, hd ms)) gs" if "\<forall>g \<in> set gs. length (snd g) = 1"
    for gs :: "(string \<times> 'a list) list"
    using that by (induction gs) (auto simp: unique_members_def List.map_filter_simps)
  moreover have "\<forall>g \<in> set ?groups. length (snd g) = 1"
    using one by (metis prod.collapse)
  ultimately show unique: "unique_members ?groups = map (\<lambda>(k, ms). (k, hd ms)) ?groups"
    by blast
  show entry: "(k, m) \<in> set (unique_members ?groups) \<longleftrightarrow> m \<in> set members \<and> key m = k" for k m
  proof
    assume "(k, m) \<in> set (unique_members ?groups)"
    then obtain ms where "(k, ms) \<in> set ?groups" "m = hd ms" unfolding unique by auto
    then have "m \<in> set (filter (\<lambda>x. key x = k) members)"
      by (metis group_entry hd_in_set)
    then show "m \<in> set members \<and> key m = k" by simp
  next
    assume m: "m \<in> set members \<and> key m = k"
    then have hit: "m \<in> set (filter (\<lambda>x. key x = k) members)" by simp
    then have "(k, filter (\<lambda>x. key x = k) members) \<in> set ?groups" by (auto simp: group_entry filter_empty_conv)
    moreover from one [OF this] hit have "hd (filter (\<lambda>x. key x = k) members) = m"
      by (cases "filter (\<lambda>x. key x = k) members") auto
    ultimately show "(k, m) \<in> set (unique_members ?groups)" unfolding unique by force
  qed
  have "bt_keys (unique_members ?groups) = bt_keys ?groups" unfolding unique by auto
  then have "distinct (bt_keys (unique_members ?groups))"
    using group_ok [of key members] by (simp add: bt_ok_def strict_sorted_iff)
  then show "bt_get (unique_members ?groups) k = Some m \<longleftrightarrow> m \<in> set members \<and> key m = k"
    using entry by simp
qed


subsection \<open>Imaging adapters\<close>

definition imaging_claims :: "plugin_bundle list \<Rightarrow> (string \<times> string) list" where
  "imaging_claims bundles =
     concat (map (\<lambda>b. map (\<lambda>key. (key, plugin_name (bundle_manifest b))) (imaging_keys b)) bundles)"

definition owners_of :: "(string, string btree_set) btree_map \<Rightarrow> string \<Rightarrow> string btree_set" where
  "owners_of owners key = (case bt_get owners key of None \<Rightarrow> [] | Some s \<Rightarrow> s)"

lemma imaging_owners_fold:
  "imaging_owners bundles = foldl (\<lambda>owners (key, name). note_owner name owners key) [] (imaging_claims bundles)"
proof -
  have "foldl (\<lambda>owners b. foldl (note_owner (plugin_name (bundle_manifest b))) owners (imaging_keys b)) acc bundles =
      foldl (\<lambda>owners (key, name). note_owner name owners key) acc (imaging_claims bundles)" for acc
    by (induction bundles arbitrary: acc) (simp_all add: imaging_claims_def foldl_map)
  then show ?thesis by (simp add: imaging_owners_def)
qed

lemma note_owner_get:
  "owners_of (note_owner name owners key) key' =
     (if key' = key then bs_insert name (owners_of owners key) else owners_of owners key')"
  by (simp add: owners_of_def note_owner_def)

lemma owners_fold:
  assumes "bt_ok owners" "\<forall>key. sorted_wrt (<) (owners_of owners key)"
    and "\<forall>key s. bt_get owners key = Some s \<longrightarrow> s \<noteq> []"
  shows "let owners' = foldl (\<lambda>owners (key, name). note_owner name owners key) owners claims
     in bt_ok owners' \<and> (\<forall>key. sorted_wrt (<) (owners_of owners' key))
        \<and> (\<forall>key s. bt_get owners' key = Some s \<longrightarrow> s \<noteq> [])
        \<and> (\<forall>key. set (owners_of owners' key) = set (owners_of owners key) \<union> {name. (key, name) \<in> set claims})"
  using assms
proof (induction claims arbitrary: owners)
  case (Cons claim claims)
  obtain key name where claim: "claim = (key, name)" by (cases claim)
  have "bs_insert name s \<noteq> []" for s :: "string list"
    by (metis insert_not_empty list.set(1) set_bs_insert)
  then have some: "\<forall>key' s. bt_get (note_owner name owners key) key' = Some s \<longrightarrow> s \<noteq> []"
    using Cons.prems(3) by (simp add: note_owner_def)
  have ok: "bt_ok (note_owner name owners key)"
    unfolding note_owner_def using Cons.prems(1) by (rule bt_ok_insert)
  have ascending: "\<forall>key'. sorted_wrt (<) (owners_of (note_owner name owners key) key')"
    using Cons.prems(2) by (simp add: note_owner_get sorted_bs_insert)
  from Cons.IH [OF ok ascending some] show ?case
    by (auto simp: claim note_owner_get Let_def)
qed simp

lemma imaging_owners_ok:
  "bt_ok (imaging_owners bundles)"
  "bt_get (imaging_owners bundles) key =
     (let names = {name. (key, name) \<in> set (imaging_claims bundles)}
      in if names = {} then None else Some (sorted_list_of_set names))"
proof -
  let ?names = "{name. (key, name) \<in> set (imaging_claims bundles)}"
  have fin: "finite ?names"
    by (rule finite_subset [of _ "snd ` set (imaging_claims bundles)"]) force+
  note result = owners_fold [of "[]" "imaging_claims bundles", folded imaging_owners_fold, unfolded Let_def]
  have base: "bt_ok ([] :: (string, string btree_set) btree_map)" "\<forall>key. sorted_wrt (<) (owners_of [] key)"
      "\<forall>key s. bt_get ([] :: (string, string btree_set) btree_map) key = Some s \<longrightarrow> s \<noteq> []"
    by (simp_all add: bt_ok_def owners_of_def)
  show "bt_ok (imaging_owners bundles)" using result [OF base] by blast
  have "set (owners_of (imaging_owners bundles) key) = ?names" "sorted_wrt (<) (owners_of (imaging_owners bundles) key)"
    using result [OF base] by (auto simp: owners_of_def)
  then have "owners_of (imaging_owners bundles) key = sorted_list_of_set ?names"
    using fin by (metis sorted_list_of_set.idem_if_sorted_distinct strict_sorted_iff)
  moreover have "sorted_list_of_set ?names = [] \<longleftrightarrow> ?names = {}"
    using fin by (rule sorted_list_of_set_eq_Nil_iff)
  ultimately show "bt_get (imaging_owners bundles) key =
      (let names = ?names in if names = {} then None else Some (sorted_list_of_set names))"
    using result [OF base] unfolding owners_of_def Let_def
    by (cases "bt_get (imaging_owners bundles) key") (simp_all only: option.case if_True if_False, auto)
qed

lemma imaging_conflict_free:
  assumes "imaging_conflicts bundles = []" "b \<in> set bundles" "b' \<in> set bundles"
    and "key \<in> set (imaging_keys b)" "key \<in> set (imaging_keys b')"
  shows "plugin_name (bundle_manifest b) = plugin_name (bundle_manifest b')"
proof -
  let ?names = "{name. (key, name) \<in> set (imaging_claims bundles)}"
  have fin: "finite ?names"
    by (rule finite_subset [of _ "snd ` set (imaging_claims bundles)"]) force+
  have names: "plugin_name (bundle_manifest b) \<in> ?names" "plugin_name (bundle_manifest b') \<in> ?names"
    using assms(2-5) by (auto simp: imaging_claims_def)
  then have "bt_get (imaging_owners bundles) key = Some (sorted_list_of_set ?names)"
    by (auto simp: imaging_owners_ok(2) Let_def)
  then have "(key, sorted_list_of_set ?names) \<in> set (imaging_owners bundles)"
    by (rule map_of_SomeD)
  then have "length (sorted_list_of_set ?names) \<le> 1"
    using assms(1) by (fastforce simp: imaging_conflicts_def filter_empty_conv)
  then have "card ?names \<le> 1" by simp
  then show ?thesis
    using names fin by (metis card_le_Suc0_iff_eq One_nat_def)
qed


subsection \<open>What a passed report says\<close>

text \<open>The report's stages, as the code computes them one after the other.\<close>

lemma validate_stages:
  fixes bundles :: "plugin_bundle list"
  defines "manifests \<equiv> map bundle_manifest bundles"
  obtains nodes issues1 lnodes issues2 st where
    "foldl bundle_group_step ([], map (issue ''WORKSPACE_IMAGING_CONFLICT'' ''workspace'' None) (imaging_conflicts bundles))
       (group_by_id plugin_name manifests) = (nodes, issues1)"
    "foldl library_group_step ([], issues1) (group_by_id lib_id libraries) = (lnodes, issues2)"
    "st = foldl (validate_tool_group (unique_members (group_by_id lib_id libraries)))
       (foldl (validate_library_member (unique_members (group_by_id lib_id libraries)))
         (foldl (validate_bundle_member (unique_members (group_by_id plugin_name manifests))
            (unique_members (group_by_id lib_id libraries)) (map tool_id tools))
           (initial_workspace issues2) (unique_members (group_by_id plugin_name manifests)))
         (unique_members (group_by_id lib_id libraries))) (group_by_id tool_id tools)"
    "validate_workspace_with_members bundles libraries tools =
       (let edges = sort_key edge_key (st_edges st);
            library_edges = sort_key library_edge_key (st_library_edges st);
            issues = sort_key issue_key (st_issues st
              @ map (cycle_issue ''WORKSPACE_DEPENDENCY_CYCLE'' ''bundle'') (find_cycles nodes edges)
              @ map (cycle_issue ''WORKSPACE_LIBRARY_DEPENDENCY_CYCLE'' ''library'')
                  (find_library_cycles lnodes library_edges))
        in \<lparr> ws_passed = (issues = []), ws_nodes = nodes, ws_edges = edges, ws_libraries = lnodes,
             ws_library_edges = library_edges, ws_issues = issues \<rparr>)"
proof -
  obtain nodes issues1 where 1: "foldl bundle_group_step
      ([], map (issue ''WORKSPACE_IMAGING_CONFLICT'' ''workspace'' None) (imaging_conflicts bundles))
      (group_by_id plugin_name manifests) = (nodes, issues1)"
    by fastforce
  obtain lnodes issues2 where 2: "foldl library_group_step ([], issues1) (group_by_id lib_id libraries) = (lnodes, issues2)"
    by fastforce
  show ?thesis
    by (rule that [OF 1 2 refl])
       (simp add: validate_workspace_with_members_def Let_def 1 [unfolded manifests_def] 2 manifests_def)
qed

definition bundle_dependency_met ::
  "plugin_manifest list \<Rightarrow> string \<Rightarrow> plugin_kind \<Rightarrow> bundle_dependency \<Rightarrow> bool"
where
  "bundle_dependency_met ms k kind d \<longleftrightarrow> is_portable_id (bdep_id d)
     \<and> (case bdep_artifact d of
          Some artifact \<Rightarrow> valid_artifact_pin artifact \<and> (\<forall>m \<in> set ms. plugin_name m \<noteq> bdep_id d)
            \<and> \<not> bad_requirement (bdep_version d) \<and> bdep_contract d \<noteq> Some 0
        | None \<Rightarrow> \<exists>provider \<in> set ms. plugin_name provider = bdep_id d
            \<and> satisfies (plugin_version provider) (bdep_version d) = Inr True
            \<and> contract_issue k d provider = None
            \<and> \<not> forbidden_direction kind (plugin_kind_of provider))"

definition library_dependency_met :: "library_manifest list \<Rightarrow> library_dependency \<Rightarrow> bool" where
  "library_dependency_met ls d \<longleftrightarrow> is_portable_id (ldep_id d)
     \<and> (case ldep_artifact d of
          Some artifact \<Rightarrow> valid_artifact_pin artifact \<and> (\<forall>l \<in> set ls. lib_id l \<noteq> ldep_id d)
            \<and> \<not> bad_requirement (ldep_version d)
        | None \<Rightarrow> \<exists>provider \<in> set ls. lib_id provider = ldep_id d
            \<and> satisfies (lib_version provider) (ldep_version d) = Inr True)"

lemma met_iff:
  assumes "\<And>k m. bt_get unique k = Some m \<longleftrightarrow> m \<in> set ms \<and> plugin_name m = k"
  shows "bundle_dependency_ok unique k kind d \<longleftrightarrow> bundle_dependency_met ms k kind d"
proof -
  have "bt_get unique k = None \<longleftrightarrow> (\<forall>m \<in> set ms. plugin_name m \<noteq> k)" for k
    using assms by (metis not_Some_eq)
  with assms show ?thesis
    by (auto simp: bundle_dependency_ok_def bundle_dependency_met_def split: option.split)
qed

lemma library_met_iff:
  assumes "\<And>k m. bt_get unique k = Some m \<longleftrightarrow> m \<in> set ms \<and> lib_id m = k"
  shows "library_dependency_ok unique d \<longleftrightarrow> library_dependency_met ms d"
proof -
  have "bt_get unique k = None \<longleftrightarrow> (\<forall>m \<in> set ms. lib_id m \<noteq> k)" for k
    using assms by (metis not_Some_eq)
  with assms show ?thesis
    by (auto simp: library_dependency_ok_def library_dependency_met_def split: option.split)
qed


lemma sort_key_empty: "sort_key f xs = [] \<longleftrightarrow> xs = []"
  by (metis mset_sort mset_zero_iff)

lemma workspace_cycle_free:
  "find_cycles nodes edges = [] \<Longrightarrow> acyclic (bundle_edges edges)"
  "find_library_cycles lnodes ledges = [] \<Longrightarrow> acyclic (library_edges_of library_cycle_edge ledges)"
  by (simp_all add: find_cycles_def find_library_cycles_def cycles_of_complete)

type_synonym unique_libraries = "(string, library_manifest) btree_map"
type_synonym tool_groups = "(string, tool_manifest list) btree_map"

definition validate_all ::
  "unique_bundles \<Rightarrow> unique_libraries \<Rightarrow> tool_manifest list \<Rightarrow> workspace_state \<Rightarrow> workspace_state"
where
  "validate_all unique libs tools st =
     foldl (validate_tool_group libs)
       (foldl (validate_library_member libs)
         (foldl (validate_bundle_member unique libs (map tool_id tools)) st unique) libs)
       (group_by_id tool_id tools)"

definition all_members_ok :: "unique_bundles \<Rightarrow> unique_libraries \<Rightarrow> tool_groups \<Rightarrow> bool" where
  "all_members_ok unique libs groups \<longleftrightarrow>
     (\<forall>km \<in> set unique. member_ok unique libs km)
     \<and> (\<forall>km \<in> set libs. \<forall>d \<in> set (all_dependencies (lib_requires (snd km))). library_dependency_ok libs d)
     \<and> (\<forall>km \<in> set groups. length (snd km) \<le> 1
          \<and> (\<forall>d \<in> set (tool_requires_libraries (hd (snd km))). library_dependency_ok libs d))"

definition all_edges :: "unique_bundles \<Rightarrow> workspace_edge list" where
  "all_edges unique =
     concat (map (\<lambda>km. map (declared_edge (fst km)) (requires_bundles (plugin_requires_of (snd km)))) unique)"

definition all_library_edges :: "unique_bundles \<Rightarrow> unique_libraries \<Rightarrow> tool_groups \<Rightarrow> library_edge list" where
  "all_library_edges unique libs groups =
     concat (map (\<lambda>km. map (\<lambda>d. declared_library_edge (fst km) ''bundle'' (d, ''runtime''))
       (requires_libraries (plugin_requires_of (snd km)))) unique)
     @ concat (map (\<lambda>km. map (declared_library_edge (fst km) ''library'')
         (scoped_dependencies (lib_requires (snd km)))) libs)
     @ concat (map tool_edges groups)"

lemma validate_all_clean:
  "clean_step (all_members_ok unique libs (group_by_id tool_id tools)) (all_edges unique)
     (all_library_edges unique libs (group_by_id tool_id tools)) st (validate_all unique libs tools st)"
  unfolding validate_all_def
  by (rule clean_step_weaken [OF clean_step_trans [OF clean_step_trans [OF
        foldl_clean [OF bundle_member_clean] foldl_clean [OF library_member_clean]] foldl_clean [OF tool_group_clean]]])
     (auto simp: all_members_ok_def all_edges_def all_library_edges_def)

lemma passed_stages:
  assumes "ws_passed (validate_workspace_with_members bundles libraries tools)"
  defines "w \<equiv> validate_workspace_with_members bundles libraries tools"
    and "groups \<equiv> group_by_id plugin_name (map bundle_manifest bundles)"
    and "unique \<equiv> unique_members (group_by_id plugin_name (map bundle_manifest bundles))"
    and "libs \<equiv> unique_members (group_by_id lib_id libraries)"
  shows "imaging_conflicts bundles = []"
    and "\<forall>(k, ms) \<in> set groups. length ms \<le> 1 \<and> node_issues k (hd ms) = []"
    and "\<forall>(k, ms) \<in> set (group_by_id lib_id libraries). length ms \<le> 1"
    and "ws_nodes w = map (\<lambda>(k, ms). bundle_node k (hd ms)) groups"
    and "map lnode_id (ws_libraries w) = map fst (group_by_id lib_id libraries)"
    and "all_members_ok unique libs (group_by_id tool_id tools)"
    and "mset (ws_edges w) = mset (all_edges unique)"
    and "mset (ws_library_edges w) = mset (all_library_edges unique libs (group_by_id tool_id tools))"
    and "acyclic (bundle_edges (ws_edges w))"
    and "acyclic (library_edges_of library_cycle_edge (ws_library_edges w))"
proof -
  obtain nodes issues1 lnodes issues2 st where stages:
    "foldl bundle_group_step ([], map (issue ''WORKSPACE_IMAGING_CONFLICT'' ''workspace'' None) (imaging_conflicts bundles))
       groups = (nodes, issues1)"
    "foldl library_group_step ([], issues1) (group_by_id lib_id libraries) = (lnodes, issues2)"
    "st = validate_all unique libs tools (initial_workspace issues2)"
    "w = (let edges = sort_key edge_key (st_edges st);
            library_edges = sort_key library_edge_key (st_library_edges st);
            issues = sort_key issue_key (st_issues st
              @ map (cycle_issue ''WORKSPACE_DEPENDENCY_CYCLE'' ''bundle'') (find_cycles nodes edges)
              @ map (cycle_issue ''WORKSPACE_LIBRARY_DEPENDENCY_CYCLE'' ''library'')
                  (find_library_cycles lnodes library_edges))
        in \<lparr> ws_passed = (issues = []), ws_nodes = nodes, ws_edges = edges, ws_libraries = lnodes,
             ws_library_edges = library_edges, ws_issues = issues \<rparr>)"
    unfolding groups_def unique_def libs_def w_def validate_all_def by (rule validate_stages)
  have fields: "ws_nodes w = nodes" "ws_edges w = sort_key edge_key (st_edges st)" "ws_libraries w = lnodes"
      "ws_library_edges w = sort_key library_edge_key (st_library_edges st)"
    unfolding stages(4) by (simp_all add: Let_def)
  have issues: "st_issues st = []" and cycles: "find_cycles nodes (ws_edges w) = []"
      "find_library_cycles lnodes (ws_library_edges w) = []"
    using assms(1) unfolding fields w_def [symmetric] unfolding stages(4) by (simp_all add: Let_def sort_key_empty)
  show "acyclic (bundle_edges (ws_edges w))" "acyclic (library_edges_of library_cycle_edge (ws_library_edges w))"
    using workspace_cycle_free cycles by blast+
  have final: "all_members_ok unique libs (group_by_id tool_id tools)" "issues2 = []"
      "st_edges st = all_edges unique" "st_library_edges st = all_library_edges unique libs (group_by_id tool_id tools)"
    using validate_all_clean [of unique libs tools "initial_workspace issues2"] issues
    unfolding stages(3) [symmetric] clean_step_def by (simp_all add: initial_workspace_def)
  then show "all_members_ok unique libs (group_by_id tool_id tools)" "mset (ws_edges w) = mset (all_edges unique)"
      "mset (ws_library_edges w) = mset (all_library_edges unique libs (group_by_id tool_id tools))"
    by (simp_all add: fields)
  note libs = library_groups_clean [OF stages(2) [unfolded final(2)]]
  then have "issues1 = []" by blast
  note bundles = bundle_groups_clean [OF stages(1) [unfolded this]]
  show "imaging_conflicts bundles = []" "\<forall>(k, ms) \<in> set groups. length ms \<le> 1 \<and> node_issues k (hd ms) = []"
      "ws_nodes w = map (\<lambda>(k, ms). bundle_node k (hd ms)) groups"
    using bundles by (simp_all add: fields)
  show "\<forall>(k, ms) \<in> set (group_by_id lib_id libraries). length ms \<le> 1"
      "map lnode_id (ws_libraries w) = map fst (group_by_id lib_id libraries)"
    using libs by (simp_all add: fields)
qed


lemma unique_set:
  assumes "\<forall>(k, ms) \<in> set (group_by_id key members). length ms \<le> 1"
  shows "set (unique_members (group_by_id key members)) = (\<lambda>m. (key m, m)) ` set members"
  using groups_unique(4) [OF assms] by force

lemma passed_nodes:
  assumes "ws_passed (validate_workspace_with_members bundles libraries tools)"
  defines "w \<equiv> validate_workspace_with_members bundles libraries tools" and "ms \<equiv> map bundle_manifest bundles"
  shows "set (ws_nodes w) = (\<lambda>m. bundle_node (plugin_name m) m) ` set ms"
    and "m \<in> set ms \<Longrightarrow> node_issues (plugin_name m) m = []"
    and "set (map lnode_id (ws_libraries w)) = lib_id ` set libraries"
proof -
  note stages = passed_stages [OF assms(1), folded w_def ms_def]
  have small: "\<forall>(k, ms) \<in> set (group_by_id plugin_name ms). length ms \<le> 1" using stages(2) by blast
  note unique = groups_unique [OF small]
  have "ws_nodes w = map (\<lambda>(k, m). bundle_node k m) (unique_members (group_by_id plugin_name ms))"
    unfolding stages(4) unique(2) by (simp add: split_def)
  then show "set (ws_nodes w) = (\<lambda>m. bundle_node (plugin_name m) m) ` set ms"
    by (simp add: unique_set [OF small] image_image)
  show "node_issues (plugin_name m) m = []" if "m \<in> set ms"
  proof -
    have "(plugin_name m, m) \<in> set (unique_members (group_by_id plugin_name ms))" using that unique(4) by blast
    then obtain hits where "(plugin_name m, hits) \<in> set (group_by_id plugin_name ms)" "m = hd hits"
      unfolding unique(2) by auto
    then show ?thesis using stages(2) by blast
  qed
  show "set (map lnode_id (ws_libraries w)) = lib_id ` set libraries"
    unfolding stages(5) by (rule group_keys)
qed

text \<open>
  C2. A workspace passes only when it is sound: members of each kind have unique ids, bundle
  ids are portable and only schema bundles carry a contract, which is not zero; every declared
  dependency on a bundle or library of the workspace names a member whose version satisfies
  the declared range, whose contract is the selected one and which the consumer's kind may
  depend on, and every other one is pinned by a valid digest and has no member of that id;
  no imaging key has two owners; the edges of the report are the declared ones; and neither
  bundles nor libraries depend on each other in a cycle.
\<close>

theorem workspace_passed_sound:
  fixes bundles :: "plugin_bundle list"
  assumes "ws_passed (validate_workspace_with_members bundles libraries tools)"
  defines "w \<equiv> validate_workspace_with_members bundles libraries tools" and "ms \<equiv> map bundle_manifest bundles"
  shows "distinct (map plugin_name ms) \<and> distinct (map lib_id libraries) \<and> distinct (map tool_id tools)
    \<and> (\<forall>m \<in> set ms. is_portable_id (plugin_name m)
         \<and> (\<forall>c. contract_of m = Some c \<longrightarrow> plugin_kind_of m = UsdSchema \<and> c \<noteq> 0)
         \<and> (\<forall>d \<in> set (requires_bundles (plugin_requires_of m)).
              bundle_dependency_met ms (plugin_name m) (plugin_kind_of m) d)
         \<and> (\<forall>d \<in> set (requires_libraries (plugin_requires_of m)). library_dependency_met libraries d))
    \<and> (\<forall>l \<in> set libraries. \<forall>d \<in> set (all_dependencies (lib_requires l)). library_dependency_met libraries d)
    \<and> (\<forall>t \<in> set tools. \<forall>d \<in> set (tool_requires_libraries t). library_dependency_met libraries d)
    \<and> (\<forall>b \<in> set bundles. \<forall>b' \<in> set bundles. set (imaging_keys b) \<inter> set (imaging_keys b') \<noteq> {} \<longrightarrow>
         plugin_name (bundle_manifest b) = plugin_name (bundle_manifest b'))
    \<and> set (ws_edges w) = {declared_edge (plugin_name m) d |m d. m \<in> set ms \<and> d \<in> set (requires_bundles (plugin_requires_of m))}
    \<and> acyclic (bundle_edges (ws_edges w)) \<and> acyclic (library_edges_of library_cycle_edge (ws_library_edges w))"
proof -
  let ?unique = "unique_members (group_by_id plugin_name ms)" and ?libs = "unique_members (group_by_id lib_id libraries)"
  note stages = passed_stages [OF assms(1), folded w_def ms_def]
  have small: "\<forall>(k, ms) \<in> set (group_by_id plugin_name ms). length ms \<le> 1" using stages(2) by blast
  have small_tools: "\<forall>(k, ms) \<in> set (group_by_id tool_id tools). length ms \<le> 1"
    using stages(6) unfolding all_members_ok_def by fastforce
  note unique = groups_unique [OF small] and libs = groups_unique [OF stages(3)] and tls = groups_unique [OF small_tools]
  have ok: "member_ok ?unique ?libs (plugin_name m, m)" if "m \<in> set ms" for m
    using stages(6) that unique(4) unfolding all_members_ok_def by blast
  have deps: "bundle_dependency_met ms (plugin_name m) (plugin_kind_of m) d"
    if "m \<in> set ms" "d \<in> set (requires_bundles (plugin_requires_of m))" for m d
    using ok [OF that(1)] that(2) met_iff [OF unique(3)] by (auto simp: member_ok_def)
  have ldeps: "library_dependency_met libraries d"
    if "m \<in> set ms" "d \<in> set (requires_libraries (plugin_requires_of m))" for m d
    using ok [OF that(1)] that(2) library_met_iff [OF libs(3)] by (auto simp: member_ok_def)
  have lib_deps: "library_dependency_met libraries d"
    if "l \<in> set libraries" "d \<in> set (all_dependencies (lib_requires l))" for l d
    using stages(6) that libs(4) [of "lib_id l" l] library_met_iff [OF libs(3)]
    unfolding all_members_ok_def by fastforce
  have tool_deps: "library_dependency_met libraries d" if "t \<in> set tools" "d \<in> set (tool_requires_libraries t)" for t d
  proof -
    have "(tool_id t, t) \<in> set (unique_members (group_by_id tool_id tools))" using tls(4) that(1) by blast
    then obtain hits where "(tool_id t, hits) \<in> set (group_by_id tool_id tools)" "t = hd hits"
      unfolding tls(2) by auto
    then show ?thesis
      using stages(6) that(2) library_met_iff [OF libs(3)] unfolding all_members_ok_def by fastforce
  qed
  have node: "is_portable_id (plugin_name m) \<and> (\<forall>c. contract_of m = Some c \<longrightarrow> plugin_kind_of m = UsdSchema \<and> c \<noteq> 0)"
    if "m \<in> set ms" for m
    using passed_nodes(2) [OF assms(1), folded ms_def, OF that] by (auto simp: node_issues_def split: if_splits)
  have "set (ws_edges w) = set (all_edges ?unique)"
    using stages(7) by (rule mset_eq_setD)
  also have "\<dots> = {declared_edge (plugin_name m) d |m d. m \<in> set ms \<and> d \<in> set (requires_bundles (plugin_requires_of m))}"
    by (auto simp: all_edges_def unique_set [OF small])
  finally have edges: "set (ws_edges w) =
      {declared_edge (plugin_name m) d |m d. m \<in> set ms \<and> d \<in> set (requires_bundles (plugin_requires_of m))}" .
  show ?thesis
  proof (intro conjI ballI impI)
    show "plugin_name (bundle_manifest b) = plugin_name (bundle_manifest b')"
      if "b \<in> set bundles" "b' \<in> set bundles" "set (imaging_keys b) \<inter> set (imaging_keys b') \<noteq> {}" for b b'
      using imaging_conflict_free [OF stages(1) that(1,2)] that(3) by blast
  qed (use unique(1) libs(1) tls(1) node deps ldeps lib_deps tool_deps edges stages(9,10) in simp_all)
qed


section \<open>Build orders of a passed workspace\<close>

lemma post_order_over:
  "acyclic E \<Longrightarrow> digraph adj = E \<Longrightarrow> closure_order E (set roots) (post_order adj roots)"
  using post_order_closure [of adj roots] by simp

lemma closure_not_self: "acyclic E \<Longrightarrow> closure_order E (E `` {k}) order \<Longrightarrow> k \<notin> set order"
  unfolding closure_order_def acyclic_def by (auto dest: rtrancl_into_trancl2)

lemma closed_reach: "E \<subseteq> A \<times> A \<Longrightarrow> E\<^sup>* `` A = A"
  by (auto elim: rtranclE)

lemma passed_targets:
  assumes "ws_passed (validate_workspace_with_members bundles libraries tools)"
  defines "w \<equiv> validate_workspace_with_members bundles libraries tools"
  shows "bundle_edges (ws_edges w) \<subseteq> node_id ` set (ws_nodes w) \<times> node_id ` set (ws_nodes w)"
proof -
  let ?ms = "map bundle_manifest bundles"
  note stages = passed_stages [OF assms(1), folded w_def]
  have small: "\<forall>(k, ms) \<in> set (group_by_id plugin_name ?ms). length ms \<le> 1" using stages(2) by blast
  have ids: "node_id ` set (ws_nodes w) = plugin_name ` set ?ms"
    using passed_nodes(1) [OF assms(1), folded w_def] by (simp add: image_image bundle_node_def)
  have "edge_from e \<in> plugin_name ` set ?ms \<and> edge_to e \<in> plugin_name ` set ?ms"
    if "e \<in> set (ws_edges w)" "\<not> edge_external e" for e
  proof -
    from that(1) have "e \<in> set (all_edges (unique_members (group_by_id plugin_name ?ms)))"
      using mset_eq_setD [OF stages(7)] by blast
    then obtain m d where e: "e = declared_edge (plugin_name m) d" "m \<in> set ?ms"
        "d \<in> set (requires_bundles (plugin_requires_of m))"
      unfolding all_edges_def unique_set [OF small] set_concat set_map by auto
    then have "member_ok (unique_members (group_by_id plugin_name ?ms)) (unique_members (group_by_id lib_id libraries))
        (plugin_name m, m)"
      using stages(6) unique_set [OF small] unfolding all_members_ok_def by blast
    then have "bundle_dependency_ok (unique_members (group_by_id plugin_name ?ms)) (plugin_name m) (plugin_kind_of m) d"
      using e(3) unfolding member_ok_def by blast
    then have "bundle_dependency_met ?ms (plugin_name m) (plugin_kind_of m) d"
      using met_iff [OF groups_unique(3) [OF small]] by blast
    moreover have "bdep_artifact d = None"
      using that(2) by (simp add: e(1) declared_edge_def)
    ultimately show ?thesis
      using e(2) unfolding e(1) declared_edge_def bundle_dependency_met_def by force
  qed
  then show ?thesis
    unfolding bundle_edges_def ids by auto
qed

text \<open>
  C26. The build orders of a passed workspace: the order of all bundles lists each bundle once
  and after the bundles it depends on; the dependency order of a bundle lists exactly the
  bundles it needs, directly or not, never itself; the library orders list exactly the
  libraries reached through the edges of the scopes asked for; all of them deepest first.
\<close>

theorem workspace_orders:
  fixes bundles :: "plugin_bundle list"
  assumes "ws_passed (validate_workspace_with_members bundles libraries tools)"
  defines "w \<equiv> validate_workspace_with_members bundles libraries tools"
    and "E \<equiv> bundle_edges (ws_edges (validate_workspace_with_members bundles libraries tools))"
  shows "(\<exists>order. workspace_order w = Some order \<and> set order = node_id ` set (ws_nodes w)
        \<and> closure_order E (node_id ` set (ws_nodes w)) order)
    \<and> (k \<in> node_id ` set (ws_nodes w) \<longrightarrow>
        (\<exists>order lorder. dependency_order w k = Some order \<and> library_dependency_order w k = Some lorder
           \<and> closure_order E (E `` {k}) order \<and> k \<notin> set order
           \<and> closure_order (library_edges_of runtime_edge (ws_library_edges w))
               {ledge_to e |e. e \<in> set (ws_library_edges w) \<and> ledge_from_kind e = ''bundle'' \<and> \<not> ledge_external e
                  \<and> ledge_from e \<in> insert k (set order)} lorder))
    \<and> (l \<in> lnode_id ` set (ws_libraries w) \<longrightarrow>
        (\<exists>order. library_order w l consumer tests = Some order \<and> l \<notin> set order
           \<and> closure_order (library_edges_of (ordered_edge l consumer tests) (ws_library_edges w))
               (library_edges_of (ordered_edge l consumer tests) (ws_library_edges w) `` {l}) order))"
proof -
  note stages = passed_stages [OF assms(1), folded w_def]
  have E: "E = bundle_edges (ws_edges w)" and passed: "ws_passed w"
    using assms(1) by (simp_all add: E_def w_def)
  have acyclic: "acyclic E" unfolding E by (rule stages(9))
  have lib: "acyclic (library_edges_of keep (ws_library_edges w))" if "\<And>e. keep e \<Longrightarrow> library_cycle_edge e" for keep
    using stages(10) that by (elim acyclic_subset) (auto simp: library_edges_of_def)
  let ?G = "bundle_graph (ws_nodes w) (ws_edges w)"
  have all: "closure_order E (set (map node_id (ws_nodes w))) (post_order ?G (map node_id (ws_nodes w)))"
    using acyclic E by (intro post_order_over) simp_all
  then have "set (post_order ?G (map node_id (ws_nodes w))) = node_id ` set (ws_nodes w)"
    using closed_reach [OF passed_targets [OF assms(1), folded w_def E]] by (simp add: closure_order_def)
  then have first: "\<exists>order. workspace_order w = Some order \<and> set order = node_id ` set (ws_nodes w)
        \<and> closure_order E (node_id ` set (ws_nodes w)) order"
    using all passed by (simp add: workspace_order_def)
  have second: "\<exists>order lorder. dependency_order w k = Some order \<and> library_dependency_order w k = Some lorder
           \<and> closure_order E (E `` {k}) order \<and> k \<notin> set order
           \<and> closure_order (library_edges_of runtime_edge (ws_library_edges w))
               {ledge_to e |e. e \<in> set (ws_library_edges w) \<and> ledge_from_kind e = ''bundle'' \<and> \<not> ledge_external e
                  \<and> ledge_from e \<in> insert k (set order)} lorder" if k: "k \<in> node_id ` set (ws_nodes w)"
  proof -
    let ?order = "post_order ?G (successors ?G k)"
    let ?L = "library_graph runtime_edge (ws_libraries w) (ws_library_edges w)"
    let ?roots = "remdups_adj (sort (map ledge_to (filter (\<lambda>e. ledge_from_kind e = ''bundle'' \<and> \<not> ledge_external e
      \<and> ledge_from e \<in> set (?order @ [k])) (ws_library_edges w))))"
    have known: "list_ex (\<lambda>n. node_id n = k) (ws_nodes w)" using k by (auto simp: list_ex_iff)
    have dep: "dependency_order w k = Some ?order"
      using known passed by (simp add: dependency_order_def Let_def)
    have libdep: "library_dependency_order w k = Some (post_order ?L ?roots)"
      using known passed by (simp add: library_dependency_order_def dep Let_def)
    have closure: "closure_order E (E `` {k}) ?order"
      using post_order_over [OF acyclic, of ?G "successors ?G k"] E by (simp add: successors_graph)
    have "closure_order (library_edges_of runtime_edge (ws_library_edges w)) (set ?roots) (post_order ?L ?roots)"
      by (rule post_order_over [OF lib]) (simp_all add: runtime_edge_def library_cycle_edge_def)
    moreover have "set ?roots = {ledge_to e |e. e \<in> set (ws_library_edges w) \<and> ledge_from_kind e = ''bundle''
        \<and> \<not> ledge_external e \<and> ledge_from e \<in> insert k (set ?order)}"
      by auto
    ultimately show ?thesis
      using dep libdep closure closure_not_self [OF acyclic closure]
      by (intro exI [of _ ?order] exI [of _ "post_order ?L ?roots"] conjI) (assumption | simp only:)+
  qed
  have third: "\<exists>order. library_order w l consumer tests = Some order \<and> l \<notin> set order
           \<and> closure_order (library_edges_of (ordered_edge l consumer tests) (ws_library_edges w))
               (library_edges_of (ordered_edge l consumer tests) (ws_library_edges w) `` {l}) order"
    if l: "l \<in> lnode_id ` set (ws_libraries w)"
  proof -
    let ?L = "library_graph (ordered_edge l consumer tests) (ws_libraries w) (ws_library_edges w)"
    let ?F = "library_edges_of (ordered_edge l consumer tests) (ws_library_edges w)"
    have acyc: "acyclic ?F" by (rule lib) (simp add: ordered_edge_def library_cycle_edge_def)
    have closure: "closure_order ?F (?F `` {l}) (post_order ?L (successors ?L l))"
      using post_order_over [OF acyc, of ?L "successors ?L l"] by (simp add: successors_graph)
    have "library_order w l consumer tests = Some (post_order ?L (successors ?L l))"
      using l passed by (auto simp: library_order_def list_ex_iff Let_def)
    then show ?thesis
      by (intro exI [of _ "post_order ?L (successors ?L l)"] conjI closure closure_not_self [OF acyc closure])
  qed
  show ?thesis
    by (intro conjI impI first second third) assumption+
qed

section \<open>Witnesses\<close>

lemma sample_workspace_passed: "ws_passed (validate_workspace_with_members sample_bundles sample_libraries [])"
  by code_simp

theorem workspace_passed_sound_witness:
  "ws_passed (validate_workspace_with_members sample_bundles sample_libraries [])
   \<and> distinct (map plugin_name (map bundle_manifest sample_bundles))
   \<and> acyclic (bundle_edges (ws_edges (validate_workspace_with_members sample_bundles sample_libraries [])))"
  using workspace_passed_sound [OF sample_workspace_passed] sample_workspace_passed by blast

theorem workspace_orders_witness:
  "ws_passed (validate_workspace_with_members sample_bundles sample_libraries [])
   \<and> (\<exists>order. dependency_order (validate_workspace_with_members sample_bundles sample_libraries []) ''rasterFormat'' = Some order
        \<and> ''rasterFormat'' \<notin> set order)
   \<and> (\<exists>order. library_order (validate_workspace_with_members sample_bundles sample_libraries []) ''raster'' True False = Some order
        \<and> ''raster'' \<notin> set order)"
proof -
  let ?w = "validate_workspace_with_members sample_bundles sample_libraries []"
  have "list_ex (\<lambda>n. node_id n = ''rasterFormat'') (ws_nodes ?w)" by code_simp
  then have node: "''rasterFormat'' \<in> node_id ` set (ws_nodes ?w)" unfolding list_ex_iff image_iff by (auto dest: sym)
  have "list_ex (\<lambda>n. lnode_id n = ''raster'') (ws_libraries ?w)" by code_simp
  then have library: "''raster'' \<in> lnode_id ` set (ws_libraries ?w)" unfolding list_ex_iff image_iff by (auto dest: sym)
  note orders = workspace_orders [OF sample_workspace_passed, where k = "''rasterFormat''" and l = "''raster''"
      and consumer = True and tests = False]
  from orders [THEN conjunct2, THEN conjunct1, THEN mp, OF node]
  have "\<exists>order. dependency_order ?w ''rasterFormat'' = Some order \<and> ''rasterFormat'' \<notin> set order"
    by (elim exE conjE) (intro exI conjI, assumption+)
  moreover from orders [THEN conjunct2, THEN conjunct2, THEN mp, OF library]
  have "\<exists>order. library_order ?w ''raster'' True False = Some order \<and> ''raster'' \<notin> set order"
    by (elim exE conjE) (intro exI conjI, assumption+)
  ultimately show ?thesis
    by (intro conjI sample_workspace_passed)
qed

theorem workspace_cycles_exact_witness:
  "find_cycles [] sample_loop = [[''a'', ''b'']] \<and> \<not> acyclic (bundle_edges sample_loop)
   \<and> canonical_cycle (bundle_edges sample_loop) [''a'', ''b'']"
proof -
  have "find_cycles [] sample_loop = [[''a'', ''b'']]" by code_simp
  with workspace_cycles_exact [of "[]" sample_loop "[]" "[]"] show ?thesis by simp
qed

end
