(* ===== verification/WorkspaceOrder.thy ===== *)
theory WorkspaceOrder
  imports WorkspaceSoundness
begin

text \<open>
  The report of a workspace (\<^verbatim>\<open>validate_workspace_with_members\<close>) is the same for every order
  of its bundles, libraries and tools.
\<close>

section \<open>The order of the members\<close>

lemma foldl_all2:
  assumes "list_all2 R xs ys" and "\<And>acc x y. R x y \<Longrightarrow> f acc x = g acc y"
  shows "foldl f acc xs = foldl g acc ys"
  using assms(1) by (induction arbitrary: acc rule: list_all2_induct) (simp_all add: assms(2))

text \<open>\<open>same_group\<close>: the same id with the same members, in some order.\<close>

definition same_group :: "string \<times> 'm list \<Rightarrow> string \<times> 'm list \<Rightarrow> bool" where
  "same_group g g' \<longleftrightarrow> fst g = fst g' \<and> mset (snd g) = mset (snd g')"

lemma bt_ok_map: "bt_ok (map (\<lambda>(k, v). (k, f v)) m) = bt_ok m"
  by (simp add: bt_ok_def case_prod_unfold comp_def)

lemma group_permutation:
  assumes "mset xs = mset ys"
  shows "list_all2 same_group (group_by_id key xs) (group_by_id key ys)"
proof -
  let ?bag = "\<lambda>m. map (\<lambda>(k, ms). (k, mset ms)) (group_by_id key m)"
  have eq: "mset (filter (\<lambda>m. key m = k) xs) = mset (filter (\<lambda>m. key m = k) ys)" for k
    using assms by (simp add: mset_filter)
  then have nil: "filter (\<lambda>m. key m = k) xs = [] \<longleftrightarrow> filter (\<lambda>m. key m = k) ys = []" for k
    by (metis mset_zero_iff)
  have "map_of (?bag xs) k = map_of (?bag ys) k" for k
    using eq [of k] nil [of k] group_get [of key xs k] group_get [of key ys k]
    by (auto simp: map_of_map Let_def)
  then have "?bag xs = ?bag ys"
    by (intro bt_ext ext) (simp_all add: bt_ok_map group_ok)
  then show ?thesis
    by (auto simp: list_all2_conv_all_nth list_eq_iff_nth_eq same_group_def case_prod_unfold)
qed

lemma same_group_single:
  assumes "same_group g g'" "\<not> 1 < length (snd g)"
  shows "g = g'"
proof -
  have eq: "mset (snd g) = mset (snd g')" "fst g = fst g'" using assms(1) by (simp_all add: same_group_def)
  have "snd g = snd g'"
  proof (cases "snd g")
    case Nil
    then show ?thesis using eq(1) by simp
  next
    case (Cons x xs)
    then show ?thesis using assms(2) eq(1) by simp
  qed
  with eq(2) show ?thesis by (simp add: prod_eq_iff)
qed

lemma same_group_length: "same_group g g' \<Longrightarrow> length (snd g) = length (snd g') \<and> fst g = fst g'"
  unfolding same_group_def by (metis size_mset)

lemma unique_permutation:
  "list_all2 same_group gs gs' \<Longrightarrow> unique_members gs = unique_members gs'"
proof (induction rule: list_all2_induct)
  case (Cons g gs g' gs')
  have "(case g of (k, ms) \<Rightarrow> if length ms = 1 then Some (k, hd ms) else None)
      = (case g' of (k, ms) \<Rightarrow> if length ms = 1 then Some (k, hd ms) else None)"
  proof (cases "length (snd g) = 1")
    case True
    then show ?thesis using same_group_single [OF Cons(1)] by simp
  next
    case False
    then show ?thesis using same_group_length [OF Cons(1)] by (simp add: case_prod_unfold)
  qed
  with Cons(3) show ?case by (simp add: unique_members_def List.map_filter_def split: option.splits)
qed simp

lemma group_step_permutation:
  assumes "list_all2 same_group gs gs'"
    and "\<And>acc k ms ms'. 1 < length ms \<Longrightarrow> length ms = length ms' \<Longrightarrow> step acc (k, ms) = step acc (k, ms')"
  shows "foldl step acc gs = foldl step acc gs'"
proof (rule foldl_all2 [OF assms(1)])
  fix acc and g g' :: "string \<times> 'a list"
  assume same: "same_group g g'"
  show "step acc g = step acc g'"
  proof (cases "1 < length (snd g)")
    case True
    then have "step acc (fst g, snd g) = step acc (fst g, snd g')"
      using same_group_length [OF same] by (intro assms(2)) simp_all
    then show ?thesis using same_group_length [OF same] by (metis prod.collapse)
  next
    case False
    then show ?thesis using same_group_single [OF same] by simp
  qed
qed

lemma imaging_permutation:
  assumes "set bundles = set bundles'"
  shows "imaging_conflicts bundles = imaging_conflicts bundles'"
proof -
  have "set (imaging_claims bundles) = set (imaging_claims bundles')"
    using assms by (simp add: imaging_claims_def)
  then have "bt_get (imaging_owners bundles) k = bt_get (imaging_owners bundles') k" for k
    unfolding imaging_owners_ok(2) by simp
  then have "imaging_owners bundles = imaging_owners bundles'"
    by (intro bt_ext imaging_owners_ok(1) ext)
  then show ?thesis by (simp add: imaging_conflicts_def)
qed

lemma tool_ids_permutation:
  "set ids = set ids' \<Longrightarrow> validate_bundle_member unique libs ids = validate_bundle_member unique libs ids'"
  unfolding validate_bundle_member_def tool_dependency_step_def by (simp only:)

text \<open>
  The order of the members does not affect the report: workspaces with the same bundles,
  libraries and tools in any order have the same nodes, edges, issues and verdict.
\<close>

lemma workspace_order_independent:
  assumes "mset bundles = mset bundles'" "mset libraries = mset libraries'" "mset tools = mset tools'"
  shows "validate_workspace_with_members bundles libraries tools =
    validate_workspace_with_members bundles' libraries' tools'"
proof -
  note sets = assms [THEN mset_eq_setD]
  have b: "list_all2 same_group (group_by_id plugin_name (map bundle_manifest bundles))
      (group_by_id plugin_name (map bundle_manifest bundles'))"
    using assms(1) by (intro group_permutation) simp
  note l = group_permutation [OF assms(2), of lib_id] and t = group_permutation [OF assms(3), of tool_id]
  have steps: "foldl bundle_group_step acc (group_by_id plugin_name (map bundle_manifest bundles)) =
      foldl bundle_group_step acc (group_by_id plugin_name (map bundle_manifest bundles'))"
    "foldl library_group_step acc' (group_by_id lib_id libraries) =
      foldl library_group_step acc' (group_by_id lib_id libraries')"
    "foldl (validate_tool_group providers) st (group_by_id tool_id tools) =
      foldl (validate_tool_group providers) st (group_by_id tool_id tools')" for acc acc' providers st
    by (rule group_step_permutation [OF b], simp add: bundle_group_step_def case_prod_unfold)
      (rule group_step_permutation [OF l], simp add: library_group_step_def case_prod_unfold,
       rule group_step_permutation [OF t], simp add: validate_tool_group_def)
  have ids: "set (map tool_id tools) = set (map tool_id tools')" using sets(3) by simp
  show ?thesis
    unfolding validate_workspace_with_members_def Let_def steps unique_permutation [OF b] unique_permutation [OF l]
      imaging_permutation [OF sets(1)] tool_ids_permutation [OF ids] ..
qed

lemma workspace_order_independent_witness:
  "rev sample_bundles \<noteq> sample_bundles
   \<and> validate_workspace_with_members (rev sample_bundles) (rev sample_libraries) [] =
      validate_workspace_with_members sample_bundles sample_libraries []"
proof -
  have "map (plugin_name \<circ> bundle_manifest) (rev sample_bundles) \<noteq> map (plugin_name \<circ> bundle_manifest) sample_bundles"
    by code_simp
  then have "rev sample_bundles \<noteq> sample_bundles" by (metis (no_types))
  moreover have "validate_workspace_with_members (rev sample_bundles) (rev sample_libraries) [] =
      validate_workspace_with_members sample_bundles sample_libraries []"
    by (rule workspace_order_independent) simp_all
  ultimately show ?thesis ..
qed

end
