(* ===== verification/ArchiveEntries.thy ===== *)
theory ArchiveEntries
  imports Encodings Paths
begin

text \<open>
  The entries of an artifact archive (ost-artifact/src/store.rs): which may be extracted,
  the walk that hashes them, the scan in front of an extraction, and the comparison of the
  hashed files with a producer manifest.
\<close>

section \<open>Entries\<close>

text \<open>
  A decoded archive is a list of entries.  The tar and zstd readers are external: what they
  hand over, or the error they report, is the input; an entry type other than the three the
  code names carries its debug rendering.
\<close>

datatype tar_type = TarRegular | TarDirectory | TarSymlink | TarOther string

record tar_entry =
  te_path :: "string + string"
  te_type :: tar_type
  te_mode :: "32 word option"
  te_link :: "string + string option"
  te_bytes :: "string + byte list"

type_synonym tar_archive = "string + (string + tar_entry) list"

datatype entry_class = EntryRegular | EntryDirectory | EntrySymlink string | EntryUnsafe string

text \<open>
  \<^verbatim>\<open>char::is_control\<close> on the UTF-8 bytes: U+0000 to U+001F, U+007F, and U+0080 to U+009F,
  which are encoded as \<^verbatim>\<open>C2 80\<close> to \<^verbatim>\<open>C2 9F\<close>.
\<close>

fun has_control :: "string \<Rightarrow> bool" where
  "has_control [] = False"
| "has_control [c] = (of_char c < (0x20 :: nat) \<or> of_char c = (0x7F :: nat))"
| "has_control (c # d # s) =
     (of_char c < (0x20 :: nat) \<or> of_char c = (0x7F :: nat)
      \<or> (of_char c = (0xC2 :: nat) \<and> 0x80 \<le> (of_char d :: nat) \<and> of_char d \<le> (0x9F :: nat))
      \<or> has_control (d # s))"

definition drive_letter :: "string \<Rightarrow> bool" where
  "drive_letter p = (2 \<le> length p \<and> is_ascii_alphabetic (p ! 0) \<and> p ! 1 = CHR '':'')"

definition unsafe_entry_path :: "string \<Rightarrow> string option" where
  "unsafe_entry_path path =
     (if path = [] then Some ''empty path''
      else if starts_with ''/'' path then Some ''absolute path''
      else if drive_letter path then Some ''drive-letter path''
      else if list_ex (\<lambda>c. c = ''..'') (split_on slash path) then Some ''parent traversal''
      else if has_control path then Some ''control character in path''
      else None)"

fun escapes :: "string list \<Rightarrow> string list \<Rightarrow> bool" where
  "escapes stack [] = False"
| "escapes stack (part # parts) =
     (if part = ''.'' then escapes stack parts
      else if part = ''..'' then (if stack = [] then True else escapes (butlast stack) parts)
      else escapes (stack @ [part]) parts)"

definition unsafe_symlink_target :: "string \<Rightarrow> string \<Rightarrow> string option" where
  "unsafe_symlink_target entry_path target =
     (if target = [] then Some ''symlink with an empty target''
      else if has_control target then Some ''symlink with a control character in its target''
      else if starts_with ''/'' target then Some ''symlink with an absolute target''
      else if drive_letter target then Some ''symlink with a drive-letter target''
      else let stack = butlast (filter (\<lambda>c. c \<noteq> []) (split_on slash entry_path))
           in if escapes stack (filter (\<lambda>c. c \<noteq> []) (split_on slash target))
              then Some ''symlink whose target escapes the archive root'' else None)"

definition reason :: "string \<Rightarrow> string \<Rightarrow> string" where
  "reason why path = why @ '': '' @ path"

definition classify_entry :: "string \<Rightarrow> tar_type \<Rightarrow> string option \<Rightarrow> entry_class" where
  "classify_entry path entry_type link_target =
     (case unsafe_entry_path path of
        Some why \<Rightarrow> EntryUnsafe (reason why path)
      | None \<Rightarrow>
          (case entry_type of
             TarRegular \<Rightarrow> EntryRegular
           | TarDirectory \<Rightarrow> EntryDirectory
           | TarSymlink \<Rightarrow>
               let target = (case link_target of None \<Rightarrow> [] | Some t \<Rightarrow> t)
               in (case unsafe_symlink_target path target of
                     Some why \<Rightarrow> EntryUnsafe (reason why path)
                   | None \<Rightarrow> EntrySymlink target)
           | TarOther rendered \<Rightarrow> EntryUnsafe (''unsupported entry type '' @ rendered @ '': '' @ path)))"

abbreviation forward_slashes :: "string \<Rightarrow> string" where
  "forward_slashes \<equiv> replace_char (CHR 0x5C) (CHR ''/'')"

definition read_link_target :: "string \<Rightarrow> tar_entry \<Rightarrow> string option res" where
  "read_link_target archive entry =
     (if te_type entry \<noteq> TarSymlink then Inr None
      else case te_link entry of
             Inl e \<Rightarrow> Inl (Io archive e)
           | Inr None \<Rightarrow> Inr (Some [])
           | Inr (Some p) \<Rightarrow> Inr (Some (forward_slashes p)))"

text \<open>The path and the class of an entry, as both walks compute them.\<close>

definition read_entry :: "string \<Rightarrow> string + tar_entry \<Rightarrow> (tar_entry \<times> string \<times> entry_class) res" where
  "read_entry archive item =
     (case item of
        Inl e \<Rightarrow> Inl (Io archive e)
      | Inr entry \<Rightarrow>
          (case te_path entry of
             Inl e \<Rightarrow> Inl (Io archive e)
           | Inr p \<Rightarrow>
               let path = forward_slashes p
               in and_then (read_link_target archive entry) (\<lambda>link.
                    Inr (entry, path, classify_entry path (te_type entry) link))))"

section \<open>The walks\<close>

record archive_file =
  af_path :: string
  af_sha256 :: string
  af_size :: nat
  af_link_target :: "string option"
  af_executable :: bool

record archive_walk =
  walk_files :: "archive_file list"
  walk_unsafe :: "string list"

definition duplicate_path :: "string \<Rightarrow> string" where
  "duplicate_path path = ''duplicate file path: '' @ path"

definition push_unsafe :: "string \<Rightarrow> archive_walk \<Rightarrow> archive_walk" where
  "push_unsafe why w = w \<lparr> walk_unsafe := walk_unsafe w @ [why] \<rparr>"

definition push_file :: "archive_file \<Rightarrow> archive_walk \<Rightarrow> archive_walk" where
  "push_file f w = w \<lparr> walk_files := walk_files w @ [f] \<rparr>"

definition walk_step ::
  "(byte list \<Rightarrow> byte list) \<Rightarrow> string \<Rightarrow> string list \<times> archive_walk \<Rightarrow> string + tar_entry
     \<Rightarrow> (string list \<times> archive_walk) res"
where
  "walk_step sha archive = (\<lambda>(seen, w) item.
     and_then (read_entry archive item) (\<lambda>(entry, path, cls).
       let executable = ((case te_mode entry of None \<Rightarrow> 0 | Some m \<Rightarrow> m) AND 0x49 \<noteq> 0)
       in case cls of
            EntryUnsafe why \<Rightarrow> Inr (seen, push_unsafe why w)
          | EntryDirectory \<Rightarrow> Inr (seen, w)
          | EntryRegular \<Rightarrow>
              if path \<in> set seen then Inr (seen, push_unsafe (duplicate_path path) w)
              else (case te_bytes entry of
                      Inl e \<Rightarrow> Inl (Io archive e)
                    | Inr bytes \<Rightarrow>
                        let (digest, n) = sha256_hex_reader sha bytes
                        in Inr (path # seen, push_file
                             \<lparr> af_path = path, af_sha256 = digest, af_size = n, af_link_target = None,
                               af_executable = executable \<rparr> w))
          | EntrySymlink target \<Rightarrow>
              if path \<in> set seen then Inr (seen, push_unsafe (duplicate_path path) w)
              else Inr (path # seen, push_file
                     \<lparr> af_path = path, af_sha256 = sha256_hex sha (map of_char target), af_size = length target,
                       af_link_target = Some target, af_executable = False \<rparr> w)))"

definition walk_archive :: "(byte list \<Rightarrow> byte list) \<Rightarrow> string \<Rightarrow> tar_archive \<Rightarrow> archive_walk res" where
  "walk_archive sha archive opened =
     (case opened of
        Inl e \<Rightarrow> Inl (Io archive e)
      | Inr entries \<Rightarrow>
          and_then (try_fold (walk_step sha archive) ([], \<lparr> walk_files = [], walk_unsafe = [] \<rparr>) entries)
            (\<lambda>(_, w). Inr w))"

definition scan_step :: "string \<Rightarrow> string list \<times> string list \<Rightarrow> string + tar_entry \<Rightarrow> (string list \<times> string list) res" where
  "scan_step archive = (\<lambda>(seen, bad) item.
     and_then (read_entry archive item) (\<lambda>(_, path, cls).
       case cls of
         EntryUnsafe why \<Rightarrow> Inr (seen, bad @ [why])
       | EntryDirectory \<Rightarrow> Inr (seen, bad)
       | _ \<Rightarrow> if path \<in> set seen then Inr (seen, bad @ [duplicate_path path]) else Inr (path # seen, bad)))"

definition scan_unsafe_entries :: "string \<Rightarrow> tar_archive \<Rightarrow> string list res" where
  "scan_unsafe_entries archive opened =
     (case opened of
        Inl e \<Rightarrow> Inl (Io archive e)
      | Inr entries \<Rightarrow> and_then (try_fold (scan_step archive) ([], []) entries) (\<lambda>(_, bad). Inr bad))"

section \<open>Comparison with a manifest\<close>

record manifest_file =
  mfile_path :: string
  mfile_sha256 :: string
  mfile_size :: nat
  mfile_link_target :: "string option"
  mfile_executable :: bool

record file_comparison =
  cmp_matched :: nat
  cmp_mismatched :: "string list"
  cmp_missing :: "string list"
  cmp_extra :: "string list"

definition comparison_passed :: "file_comparison \<Rightarrow> bool" where
  "comparison_passed c = (cmp_mismatched c = [] \<and> cmp_missing c = [] \<and> cmp_extra c = [])"

definition expected_step ::
  "archive_file list \<Rightarrow> string list \<times> file_comparison \<Rightarrow> manifest_file \<Rightarrow> string list \<times> file_comparison"
where
  "expected_step actual = (\<lambda>(seen, c) want.
     if mfile_path want \<in> set seen
     then (seen, c \<lparr> cmp_mismatched := cmp_mismatched c @ [mfile_path want] \<rparr>)
     else (mfile_path want # seen,
       case find (\<lambda>f. af_path f = mfile_path want) actual of
         Some f \<Rightarrow>
           if af_sha256 f = mfile_sha256 want \<and> af_size f = mfile_size want
              \<and> af_link_target f = mfile_link_target want \<and> af_executable f = mfile_executable want
           then c \<lparr> cmp_matched := cmp_matched c + 1 \<rparr>
           else c \<lparr> cmp_mismatched := cmp_mismatched c @ [mfile_path want] \<rparr>
       | None \<Rightarrow> c \<lparr> cmp_missing := cmp_missing c @ [mfile_path want] \<rparr>))"

definition actual_step ::
  "manifest_file list \<Rightarrow> string list \<times> file_comparison \<Rightarrow> archive_file \<Rightarrow> string list \<times> file_comparison"
where
  "actual_step expected = (\<lambda>(seen, c) f.
     let fresh = (af_path f \<notin> set seen)
     in (if fresh then af_path f # seen else seen,
         if \<not> fresh \<or> \<not> list_ex (\<lambda>w. mfile_path w = af_path f) expected
         then c \<lparr> cmp_extra := cmp_extra c @ [af_path f] \<rparr> else c))"

definition compare_archive_files :: "archive_file list \<Rightarrow> manifest_file list \<Rightarrow> file_comparison" where
  "compare_archive_files actual expected =
     (let start = \<lparr> cmp_matched = 0, cmp_mismatched = [], cmp_missing = [], cmp_extra = [] \<rparr>;
          (_, c) = foldl (expected_step actual) ([], start) expected;
          (_, c') = foldl (actual_step expected) ([], c) actual
      in c')"

section \<open>The comparison is exact\<close>

definition same_file :: "archive_file \<Rightarrow> manifest_file \<Rightarrow> bool" where
  "same_file f w \<longleftrightarrow> af_path f = mfile_path w \<and> af_sha256 f = mfile_sha256 w \<and> af_size f = mfile_size w
     \<and> af_link_target f = mfile_link_target w \<and> af_executable f = mfile_executable w"

definition served :: "archive_file list \<Rightarrow> manifest_file \<Rightarrow> bool" where
  "served actual w \<longleftrightarrow> (case find (\<lambda>f. af_path f = mfile_path w) actual of None \<Rightarrow> False | Some f \<Rightarrow> same_file f w)"

lemma same_file_path: "same_file f w \<Longrightarrow> mfile_path w = af_path f"
  by (simp add: same_file_def)

lemma find_key: "find (\<lambda>f. key f = k) xs = Some x \<Longrightarrow> key x = k \<and> x \<in> set xs"
  by (auto simp: find_Some_iff)

lemma served_iff:
  assumes "distinct (map af_path actual)"
  shows "served actual w \<longleftrightarrow> (\<exists>f \<in> set actual. same_file f w)"
proof
  assume "served actual w"
  then obtain f where "find (\<lambda>f. af_path f = mfile_path w) actual = Some f" "same_file f w"
    by (auto simp: served_def split: option.splits)
  then show "\<exists>f \<in> set actual. same_file f w" using find_key [of af_path] by blast
next
  assume "\<exists>f \<in> set actual. same_file f w"
  then obtain f where f: "f \<in> set actual" "same_file f w" by blast
  have path: "af_path f = mfile_path w" using f(2) by (simp add: same_file_def)
  obtain g where g: "find (\<lambda>f. af_path f = mfile_path w) actual = Some g"
    using f(1) path by (cases "find (\<lambda>f. af_path f = mfile_path w) actual") (auto simp: find_None_iff)
  then have "g = f"
    using find_key [OF g] f(1) path assms by (metis distinct_map inj_onD)
  with g f(2) show "served actual w" by (simp add: served_def)
qed

definition nothing_wrong :: "file_comparison \<Rightarrow> bool" where
  "nothing_wrong c \<longleftrightarrow> cmp_mismatched c = [] \<and> cmp_missing c = []"

lemma expected_step_result:
  assumes "expected_step actual (seen, c) w = (seen1, c1)"
  shows "(nothing_wrong c1 \<longleftrightarrow> nothing_wrong c
      \<and> mfile_path w \<notin> set seen \<and> served actual w)
    \<and> cmp_extra c1 = cmp_extra c
    \<and> (mfile_path w \<notin> set seen \<longrightarrow> set seen1 = insert (mfile_path w) (set seen))"
proof (cases "mfile_path w \<in> set seen")
  case True
  then have "c1 = c \<lparr> cmp_mismatched := cmp_mismatched c @ [mfile_path w] \<rparr>"
    using assms by (simp add: expected_step_def)
  with True show ?thesis by (simp add: nothing_wrong_def)
next
  case False
  note fresh = False
  show ?thesis
  proof (cases "find (\<lambda>f. af_path f = mfile_path w) actual")
    case None
    then have "c1 = c \<lparr> cmp_missing := cmp_missing c @ [mfile_path w] \<rparr>" "seen1 = mfile_path w # seen"
      using assms fresh by (simp_all add: expected_step_def)
    with None show ?thesis by (simp add: served_def nothing_wrong_def)
  next
    case (Some f)
    have path: "af_path f = mfile_path w" using find_key [OF Some] by simp
    have "c1 = (if same_file f w then c \<lparr> cmp_matched := cmp_matched c + 1 \<rparr>
        else c \<lparr> cmp_mismatched := cmp_mismatched c @ [mfile_path w] \<rparr>)" "seen1 = mfile_path w # seen"
      using assms fresh Some path by (simp_all add: expected_step_def same_file_def)
    with Some fresh show ?thesis by (cases "same_file f w") (simp_all add: served_def nothing_wrong_def)
  qed
qed

lemma expected_fold:
  assumes "foldl (expected_step actual) (seen, c) ws = (seen', c')"
  shows "cmp_extra c' = cmp_extra c
    \<and> (nothing_wrong c' \<longleftrightarrow>
      nothing_wrong c \<and> distinct (map mfile_path ws) \<and> mfile_path ` set ws \<inter> set seen = {}
      \<and> (\<forall>w \<in> set ws. served actual w))"
  using assms
proof (induction ws arbitrary: seen c)
  case (Cons w ws)
  obtain seen1 c1 where step: "expected_step actual (seen, c) w = (seen1, c1)" by (rule prod.exhaust)
  have rest: "foldl (expected_step actual) (seen1, c1) ws = (seen', c')" using Cons.prems step by simp
  have clean: "nothing_wrong c1 \<longleftrightarrow> nothing_wrong c
      \<and> mfile_path w \<notin> set seen \<and> served actual w"
    and extra: "cmp_extra c1 = cmp_extra c"
    and seen1: "mfile_path w \<notin> set seen \<Longrightarrow> set seen1 = insert (mfile_path w) (set seen)"
    using expected_step_result [OF step] by blast+
  from Cons.IH [OF rest] show ?case
    using clean extra seen1 by (cases "mfile_path w \<in> set seen") auto
qed simp

lemma actual_fold:
  assumes "foldl (actual_step expected) (seen, c) fs = (seen', c')"
  shows "cmp_mismatched c' = cmp_mismatched c \<and> cmp_missing c' = cmp_missing c
    \<and> (cmp_extra c' = [] \<longleftrightarrow> cmp_extra c = [] \<and> distinct (map af_path fs) \<and> af_path ` set fs \<inter> set seen = {}
      \<and> (\<forall>f \<in> set fs. \<exists>w \<in> set expected. mfile_path w = af_path f))"
  using assms
proof (induction fs arbitrary: seen c)
  case (Cons f fs)
  obtain seen1 c1 where step: "actual_step expected (seen, c) f = (seen1, c1)" by (rule prod.exhaust)
  have rest: "foldl (actual_step expected) (seen1, c1) fs = (seen', c')" using Cons.prems step by simp
  have clean: "cmp_extra c1 = [] \<longleftrightarrow> cmp_extra c = [] \<and> af_path f \<notin> set seen \<and> (\<exists>w \<in> set expected. mfile_path w = af_path f)"
    and kept: "cmp_mismatched c1 = cmp_mismatched c" "cmp_missing c1 = cmp_missing c"
    and seen1: "set seen1 = insert (af_path f) (set seen)"
    using step by (auto simp: actual_step_def Let_def list_ex_iff split: if_splits)
  from Cons.IH [OF rest] show ?case
    unfolding clean kept seen1 by auto
qed simp

lemma comparison_exact_iff:
  "comparison_passed (compare_archive_files actual expected) \<longleftrightarrow>
     distinct (map af_path actual) \<and> distinct (map mfile_path expected)
     \<and> (\<forall>f \<in> set actual. \<exists>w \<in> set expected. same_file f w)
     \<and> (\<forall>w \<in> set expected. \<exists>f \<in> set actual. same_file f w)"
proof -
  let ?start = "\<lparr> cmp_matched = 0, cmp_mismatched = [], cmp_missing = [], cmp_extra = [] \<rparr>"
  obtain s1 c1 where first: "foldl (expected_step actual) ([], ?start) expected = (s1, c1)" by (rule prod.exhaust)
  obtain s2 c2 where second: "foldl (actual_step expected) ([], c1) actual = (s2, c2)" by (rule prod.exhaust)
  note E = expected_fold [OF first] and A = actual_fold [OF second]
  have "comparison_passed (compare_archive_files actual expected) \<longleftrightarrow>
      cmp_mismatched c2 = [] \<and> cmp_missing c2 = [] \<and> cmp_extra c2 = []"
    by (simp add: comparison_passed_def compare_archive_files_def first second)
  also have "\<dots> \<longleftrightarrow> distinct (map mfile_path expected) \<and> distinct (map af_path actual)
      \<and> (\<forall>w \<in> set expected. served actual w) \<and> (\<forall>f \<in> set actual. \<exists>w \<in> set expected. mfile_path w = af_path f)"
    using A E by (auto simp: nothing_wrong_def)
  also have "\<dots> \<longleftrightarrow> distinct (map af_path actual) \<and> distinct (map mfile_path expected)
     \<and> (\<forall>f \<in> set actual. \<exists>w \<in> set expected. same_file f w)
     \<and> (\<forall>w \<in> set expected. \<exists>f \<in> set actual. same_file f w)" (is "?L \<longleftrightarrow> ?R")
  proof (cases "distinct (map af_path actual)")
    case True
    have "\<exists>w \<in> set expected. same_file f w"
      if "f \<in> set actual" "w \<in> set expected" "mfile_path w = af_path f" "g \<in> set actual" "same_file g w" for f g w
    proof -
      have "g = f" using True that by (metis same_file_def distinct_map inj_onD)
      with that show ?thesis by blast
    qed
    then show ?thesis
      using True unfolding served_iff [OF True] by (blast dest: same_file_path)
  qed simp
  finally show ?thesis .
qed

text \<open>
  C20. An archive passes the comparison exactly when neither side lists a path twice and both
  list the same files: same path, digest, size, link target and executable bit.
\<close>

theorem comparison_exact:
  "comparison_passed (compare_archive_files actual expected) \<longleftrightarrow>
     distinct (map af_path actual) \<and> distinct (map mfile_path expected)
     \<and> (\<forall>f \<in> set actual. \<exists>w \<in> set expected. same_file f w)
     \<and> (\<forall>w \<in> set expected. \<exists>f \<in> set actual. same_file f w)"
  by (rule comparison_exact_iff)

section \<open>What the scan guarantees\<close>

lemma escapes_walk: "escapes stack (filter (\<lambda>c. c \<noteq> []) parts) \<longleftrightarrow> walk stack parts = None"
  by (induction stack parts rule: walk.induct) auto

lemma safe_path_contained: "unsafe_entry_path path = None \<Longrightarrow> path \<noteq> [] \<and> contained slash path"
  by (auto simp: unsafe_entry_path_def list_ex_iff starts_with_prefix slash_def neq_Nil_conv
      intro!: contained_no_parent split: if_splits)

text \<open>The names of the directory a link lies in, as the check reads them off its path.\<close>

definition link_directory :: "string \<Rightarrow> string list" where
  "link_directory path = butlast (filter (\<lambda>c. c \<noteq> []) (split_on slash path))"

definition entry_path :: "string + tar_entry \<Rightarrow> string" where
  "entry_path item = (case item of Inl _ \<Rightarrow> [] | Inr entry \<Rightarrow> (case te_path entry of Inl _ \<Rightarrow> [] | Inr p \<Rightarrow> forward_slashes p))"

definition is_payload :: "string + tar_entry \<Rightarrow> bool" where
  "is_payload item = (case item of Inl _ \<Rightarrow> False | Inr entry \<Rightarrow> te_type entry \<noteq> TarDirectory)"

definition entry_contained :: "string + tar_entry \<Rightarrow> bool" where
  "entry_contained item \<longleftrightarrow> (\<exists>entry p. item = Inr entry \<and> te_path entry = Inr p \<and> contained slash (forward_slashes p)
     \<and> te_type entry \<in> {TarRegular, TarDirectory, TarSymlink}
     \<and> (te_type entry = TarSymlink \<longrightarrow> (\<exists>t names. te_link entry = Inr (Some t) \<and> \<not> is_absolute (forward_slashes t)
          \<and> walk (link_directory (forward_slashes p)) (split_on slash (forward_slashes t)) = Some names)))"

lemma safe_target_walk:
  assumes "unsafe_symlink_target path target = None"
  shows "target \<noteq> [] \<and> \<not> is_absolute target \<and> (\<exists>names. walk (link_directory path) (split_on slash target) = Some names)"
  using assms
  by (auto simp: unsafe_symlink_target_def Let_def is_absolute_def link_directory_def escapes_walk split: if_splits)

lemma read_entry_class:
  assumes "read_entry archive item = Inr (entry, path, cls)" "\<forall>why. cls \<noteq> EntryUnsafe why"
  shows "entry_contained item" "path = entry_path item" "is_payload item \<longleftrightarrow> cls \<noteq> EntryDirectory"
proof -
  obtain p link where read: "item = Inr entry" "te_path entry = Inr p" "path = forward_slashes p"
      and link: "read_link_target archive entry = Inr link" and kind_of: "cls = classify_entry path (te_type entry) link"
    using assms(1) by (auto simp: read_entry_def Let_def res_simps and_then_def split: sum.splits)
  have path: "unsafe_entry_path path = None"
    using assms(2) kind_of by (auto simp: classify_entry_def split: option.splits)
  have kind: "te_type entry \<in> {TarRegular, TarDirectory, TarSymlink}"
    using assms(2) kind_of path by (cases "te_type entry") (auto simp: classify_entry_def)
  have target: "\<exists>t names. te_link entry = Inr (Some t) \<and> \<not> is_absolute (forward_slashes t)
      \<and> walk (link_directory path) (split_on slash (forward_slashes t)) = Some names" if sym: "te_type entry = TarSymlink"
  proof -
    let ?target = "case link of None \<Rightarrow> [] | Some t \<Rightarrow> t"
    have "unsafe_symlink_target path ?target = None"
      using assms(2) kind_of path sym by (auto simp: classify_entry_def Let_def split: option.splits)
    from safe_target_walk [OF this] show ?thesis
      using link sym by (auto simp: read_link_target_def split: sum.splits option.splits)
  qed
  show "entry_contained item"
    unfolding entry_contained_def
    using read kind target safe_path_contained [OF path] by blast
  show "path = entry_path item" using read by (simp add: entry_path_def)
  show "is_payload item \<longleftrightarrow> cls \<noteq> EntryDirectory"
    using read kind_of path assms(2) kind
    by (cases "te_type entry") (auto simp: is_payload_def classify_entry_def Let_def split: option.splits)
qed

lemma scan_step_grows:
  assumes "scan_step archive (seen, bad) item = Inr (seen', bad')"
  shows "\<exists>more. bad' = bad @ more \<and> (more = [] \<longrightarrow> entry_contained item
    \<and> (if is_payload item then entry_path item \<notin> set seen \<and> seen' = entry_path item # seen else seen' = seen))"
proof -
  obtain entry path cls where read: "read_entry archive item = Inr (entry, path, cls)"
    using assms by (auto simp: scan_step_def and_then_def split: sum.splits)
  show ?thesis
  proof (cases "\<exists>why. cls = EntryUnsafe why")
    case True
    then show ?thesis using assms read by (auto simp: scan_step_def and_then_def)
  next
    case False
    then have "\<forall>why. cls \<noteq> EntryUnsafe why" by blast
    note entry = read_entry_class [OF read this]
    show ?thesis
      using assms read False entry
      by (cases cls) (auto simp: scan_step_def and_then_def split: if_splits)
  qed
qed

lemma scan_fold:
  assumes "try_fold (scan_step archive) (seen, bad) entries = Inr (seen', bad')"
  shows "\<exists>more. bad' = bad @ more \<and> (more = [] \<longrightarrow> (\<forall>item \<in> set entries. entry_contained item)
    \<and> distinct (map entry_path (filter is_payload entries)) \<and> set seen \<inter> entry_path ` set (filter is_payload entries) = {})"
  using assms
proof (induction entries arbitrary: seen bad)
  case (Cons item entries)
  obtain seen1 bad1 where step: "scan_step archive (seen, bad) item = Inr (seen1, bad1)"
      and rest: "try_fold (scan_step archive) (seen1, bad1) entries = Inr (seen', bad')"
    using Cons.prems by (auto simp: and_then_def split: sum.splits)
  obtain m1 where m1: "bad1 = bad @ m1" "m1 = [] \<longrightarrow> entry_contained item
    \<and> (if is_payload item then entry_path item \<notin> set seen \<and> seen1 = entry_path item # seen else seen1 = seen)"
    using scan_step_grows [OF step] by blast
  obtain m2 where m2: "bad' = bad1 @ m2" "m2 = [] \<longrightarrow> (\<forall>item \<in> set entries. entry_contained item)
    \<and> distinct (map entry_path (filter is_payload entries)) \<and> set seen1 \<inter> entry_path ` set (filter is_payload entries) = {}"
    using Cons.IH [OF rest] by blast
  show ?case
    using m1 m2 by (intro exI [of _ "m1 @ m2"]) (cases "is_payload item", auto)
qed simp

lemma scan_contained:
  assumes "scan_unsafe_entries archive (Inr entries) = Inr []"
  shows "(\<forall>item \<in> set entries. entry_contained item) \<and> distinct (map entry_path (filter is_payload entries))"
proof -
  obtain seen' bad' where "try_fold (scan_step archive) ([], []) entries = Inr (seen', bad')" "bad' = []"
    using assms by (auto simp: scan_unsafe_entries_def and_then_def split: sum.splits)
  with scan_fold [OF this(1)] show ?thesis by auto
qed


lemma walk_step_scan:
  assumes "walk_step sha archive (seen, w) item = Inr (seen', w')"
  shows "scan_step archive (seen, walk_unsafe w) item = Inr (seen', walk_unsafe w')"
proof -
  obtain entry path cls where read: "read_entry archive item = Inr (entry, path, cls)"
    using assms by (auto simp: walk_step_def and_then_def split: sum.splits)
  then show ?thesis
    using assms
    by (cases cls) (auto simp: walk_step_def scan_step_def and_then_def push_unsafe_def push_file_def
        case_prod_unfold Let_def split: if_splits sum.splits)
qed

lemma walk_fold_scan:
  "try_fold (walk_step sha archive) (seen, w) entries = Inr (seen', w') \<Longrightarrow>
   try_fold (scan_step archive) (seen, walk_unsafe w) entries = Inr (seen', walk_unsafe w')"
proof (induction entries arbitrary: seen w)
  case (Cons item entries)
  obtain seen1 w1 where "walk_step sha archive (seen, w) item = Inr (seen1, w1)"
      "try_fold (walk_step sha archive) (seen1, w1) entries = Inr (seen', w')"
    using Cons.prems by (auto simp: and_then_def split: sum.splits)
  with walk_step_scan [OF this(1)] Cons.IH [OF this(2)] show ?case by (simp add: and_then_def)
qed simp

text \<open>
  The two gates cannot disagree: when the hashing walk of the pull gate reads an archive,
  the scan of the extraction gate reports the same unsafe entries.
\<close>

lemma walks_agree:
  assumes "walk_archive sha archive opened = Inr w"
  shows "scan_unsafe_entries archive opened = Inr (walk_unsafe w)"
proof (cases opened)
  case (Inl e)
  then show ?thesis using assms by (simp add: walk_archive_def)
next
  case (Inr entries)
  then obtain seen' where "try_fold (walk_step sha archive) ([], \<lparr> walk_files = [], walk_unsafe = [] \<rparr>) entries = Inr (seen', w)"
    using assms by (auto simp: walk_archive_def and_then_def split: sum.splits)
  from walk_fold_scan [OF this] show ?thesis by (simp add: scan_unsafe_entries_def Inr and_then_def)
qed

section \<open>Links through links\<close>

text \<open>
  How a file system resolves a path below the extraction root: a name that is a link is
  replaced by its target, \<^verbatim>\<open>..\<close> leaves the directory reached so far.  The fuel bounds the
  names followed.
\<close>

datatype resolved = Inside "string list" | Escaped | OutOfFuel

fun follow :: "nat \<Rightarrow> (string list \<times> string) list \<Rightarrow> string list \<Rightarrow> string list \<Rightarrow> resolved" where
  "follow n links d parts =
     (if n = 0 then OutOfFuel
      else case parts of
        [] \<Rightarrow> Inside d
      | x # xs \<Rightarrow>
          if x = [] \<or> x = ''.'' then follow (n - 1) links d xs
          else if x = ''..'' then (if d = [] then Escaped else follow (n - 1) links (butlast d) xs)
          else case map_of links (d @ [x]) of
                 None \<Rightarrow> follow (n - 1) links (d @ [x]) xs
               | Some target \<Rightarrow> follow (n - 1) links d (split_on slash target @ xs))"

declare follow.simps [simp del]

text \<open>The links an extracted archive leaves, by the names of their paths.\<close>

definition extracted_links :: "tar_entry list \<Rightarrow> (string list \<times> string) list" where
  "extracted_links entries =
     List.map_filter (\<lambda>e. case (te_path e, te_type e, te_link e) of
         (Inr p, TarSymlink, Inr (Some t)) \<Rightarrow>
           Some (filter (\<lambda>c. c \<noteq> [] \<and> c \<noteq> ''.'') (split_on slash p), t)
       | _ \<Rightarrow> None) entries"

definition link_entry :: "string \<Rightarrow> string \<Rightarrow> tar_entry" where
  "link_entry path target =
     \<lparr> te_path = Inr path, te_type = TarSymlink, te_mode = None, te_link = Inr (Some target), te_bytes = Inr [] \<rparr>"

text \<open>
  The check of a link is lexical, and the gate accepts links that leave the destination:
  one whose path starts with \<^verbatim>\<open>./\<close>, as the dot counts as a directory that \<^verbatim>\<open>..\<close> climbs out
  of, and one whose target leads through another accepted link.
\<close>

lemma lexical_link_check_escapes:
  "scan_unsafe_entries ''a.tar.zst'' (Inr [Inr (link_entry ''./up'' ''..'')]) = Inr []
   \<and> follow 10 (extracted_links [link_entry ''./up'' ''..'']) [] [''up''] = Escaped
   \<and> scan_unsafe_entries ''a.tar.zst'' (Inr [Inr (link_entry ''lib/here'' ''..''), Inr (link_entry ''up'' ''lib/here/..'')]) = Inr []
   \<and> follow 10 (extracted_links [link_entry ''lib/here'' ''..'', link_entry ''up'' ''lib/here/..'']) [] [''up''] = Escaped"
  by code_simp

section \<open>Samples\<close>

definition sample_entries :: "(string + tar_entry) list" where
  "sample_entries =
     [Inr \<lparr> te_path = Inr ''lib/libtoy.so.1'', te_type = TarRegular, te_mode = Some 0x1ED, te_link = Inr None, te_bytes = Inr [1, 2, 3] \<rparr>,
      Inr (link_entry ''lib/libtoy.so'' ''libtoy.so.1'')]"


lemma walks_agree_sample:
  "\<exists>w. walk_archive (\<lambda>bs. take 1 bs) ''toy.tar.zst'' (Inr sample_entries) = Inr w \<and> length (walk_files w) = 2
     \<and> scan_unsafe_entries ''toy.tar.zst'' (Inr sample_entries) = Inr (walk_unsafe w)"
proof -
  have "(case walk_archive (\<lambda>bs. take 1 bs) ''toy.tar.zst'' (Inr sample_entries) of
      Inl _ \<Rightarrow> False | Inr w \<Rightarrow> length (walk_files w) = 2)" by code_simp
  then obtain w where w: "walk_archive (\<lambda>bs. take 1 bs) ''toy.tar.zst'' (Inr sample_entries) = Inr w" "length (walk_files w) = 2"
    by (auto split: sum.splits)
  with walks_agree [OF w(1)] show ?thesis by blast
qed

theorem comparison_exact_witness:
  "comparison_passed (compare_archive_files
     [\<lparr> af_path = ''a'', af_sha256 = ''d'', af_size = 1, af_link_target = None, af_executable = True \<rparr>]
     [\<lparr> mfile_path = ''a'', mfile_sha256 = ''d'', mfile_size = 1, mfile_link_target = None, mfile_executable = True \<rparr>])"
  unfolding comparison_exact by (simp add: same_file_def)

end
