(* ===== verification/SymbolFloors.thy ===== *)
theory SymbolFloors
  imports Encodings
begin

text \<open>
  The glibc floor of a runtime's ELF binaries (ost-build/src/glibc.rs): the highest
  \<^verbatim>\<open>GLIBC_x.y\<close> version string of each file, found by a scan of 64 KiB chunks that keeps a
  32 byte tail between them.  A file is its bytes with the answers the reads give.
\<close>

section \<open>Versions\<close>

datatype glibc_version = GlibcVersion (gl_major: "32 word") (gl_minor: "32 word")

instantiation glibc_version :: linorder
begin

definition less_eq_glibc_version :: "glibc_version \<Rightarrow> glibc_version \<Rightarrow> bool" where
  "less_eq_glibc_version a b \<longleftrightarrow> gl_major a < gl_major b \<or> gl_major a = gl_major b \<and> gl_minor a \<le> gl_minor b"

definition less_glibc_version :: "glibc_version \<Rightarrow> glibc_version \<Rightarrow> bool" where
  "less_glibc_version a b \<longleftrightarrow> gl_major a < gl_major b \<or> gl_major a = gl_major b \<and> gl_minor a < gl_minor b"

instance
  by standard (auto simp: less_eq_glibc_version_def less_glibc_version_def intro: glibc_version.expand)

end

definition glibc_token :: "glibc_version \<Rightarrow> string" where
  "glibc_token v = to_decimal (unat (gl_major v)) @ ''.'' @ to_decimal (unat (gl_minor v))"

text \<open>\<^verbatim>\<open>max = Some(max.map_or(v, |m| m.max(v)))\<close>\<close>

definition raise_floor :: "'a::linorder \<Rightarrow> 'a option \<Rightarrow> 'a option" where
  "raise_floor v m = Some (case m of None \<Rightarrow> v | Some w \<Rightarrow> max w v)"

section \<open>The scan of a window\<close>

definition ELF_MAGIC :: "byte list" where
  "ELF_MAGIC = [0x7F, 0x45, 0x4C, 0x46]"

definition GLIBC_PREFIX :: "byte list" where
  "GLIBC_PREFIX = [0x47, 0x4C, 0x49, 0x42, 0x43, 0x5F]"

definition CHUNK :: nat where
  "CHUNK = 64 * 1024"

definition CARRY :: nat where
  "CARRY = 32"

definition byte_digit :: "byte \<Rightarrow> bool" where
  "byte_digit b \<longleftrightarrow> 0x30 \<le> b \<and> b \<le> 0x39"

definition take_number :: "byte list \<Rightarrow> (32 word \<times> byte list) option" where
  "take_number bytes =
     (let n = length (takeWhile byte_digit bytes)
      in if n = 0 then None
         else if 6 < n then None
         else Some (foldl (\<lambda>v b. v * 10 + ucast (b - 0x30)) 0 (take n bytes), drop n bytes))"

definition parse_version :: "byte list \<Rightarrow> glibc_version option" where
  "parse_version bytes =
     (case take_number bytes of
        None \<Rightarrow> None
      | Some (major, rest) \<Rightarrow>
          (case rest of
             [] \<Rightarrow> None
           | dot # rest' \<Rightarrow>
               if dot \<noteq> 0x2E then None
               else case take_number rest' of
                      None \<Rightarrow> None
                    | Some (minor, _) \<Rightarrow> Some (GlibcVersion major minor)))"

text \<open>\<^verbatim>\<open>haystack.windows(needle.len()).position(|w| w == needle)\<close>\<close>

fun find_window :: "byte list \<Rightarrow> byte list \<Rightarrow> nat option" where
  "find_window needle [] = None"
| "find_window needle (b # bs) =
     (if take (length needle) (b # bs) = needle then Some 0 else map_option Suc (find_window needle bs))"

definition find_bytes :: "byte list \<Rightarrow> byte list \<Rightarrow> nat option" where
  "find_bytes haystack needle =
     (if needle = [] \<or> length haystack < length needle then None else find_window needle haystack)"

lemma find_window_bound: "find_window needle bs = Some i \<Longrightarrow> i < length bs"
  by (induction needle bs arbitrary: i rule: find_window.induct) (auto split: if_splits)

function scan_window :: "byte list \<Rightarrow> glibc_version option \<Rightarrow> glibc_version option" where
  "scan_window bytes m =
     (case find_bytes bytes GLIBC_PREFIX of
        None \<Rightarrow> m
      | Some rel \<Rightarrow>
          let rest = drop (rel + length GLIBC_PREFIX) bytes
          in scan_window rest
               (case parse_version rest of None \<Rightarrow> m | Some v \<Rightarrow> raise_floor v m))"
  by pat_completeness auto
termination
  by (relation "measure (\<lambda>(bytes, m). length bytes)")
    (auto simp: find_bytes_def GLIBC_PREFIX_def dest: find_window_bound split: if_splits)

declare scan_window.simps [simp del]

section \<open>Reading\<close>

text \<open>
  A file under \<^verbatim>\<open>read\<close>: what is left of it, and what the next calls do, which may deliver
  fewer bytes than asked for, be interrupted or fail.  Past the schedule a call delivers all.
\<close>

datatype read_event = Deliver nat | Interrupted | ReadFails string

type_synonym reader = "byte list \<times> read_event list"

fun read_once :: "nat \<Rightarrow> reader \<Rightarrow> (string option + byte list) \<times> reader" where
  "read_once want (rest, []) = (Inr (take want rest), (drop want rest, []))"
| "read_once want (rest, Deliver k # s) =
     (Inr (take (min (Suc k) want) rest), (drop (min (Suc k) want) rest, s))"
| "read_once want (rest, Interrupted # s) = (Inl None, (rest, s))"
| "read_once want (rest, ReadFails e # s) = (Inl (Some e), (rest, s))"

lemma read_once_measure:
  "read_once want rd = (Inr bs, rd') \<Longrightarrow> fst rd = bs @ fst rd' \<and> length (snd rd') \<le> length (snd rd) \<and> length bs \<le> want"
  "read_once want rd = (Inl e, rd') \<Longrightarrow> fst rd = fst rd' \<and> length (snd rd') < length (snd rd)"
  by (cases "(want, rd)" rule: read_once.cases; auto)+

function read_loop :: "nat \<Rightarrow> byte list \<Rightarrow> reader \<Rightarrow> (string + byte list) \<times> reader" where
  "read_loop want got rd =
     (if want \<le> length got then (Inr got, rd)
      else case read_once (want - length got) rd of
             (Inl None, rd') \<Rightarrow> read_loop want got rd'
           | (Inl (Some e), rd') \<Rightarrow> (Inl e, rd')
           | (Inr bs, rd') \<Rightarrow> if bs = [] then (Inr got, rd') else read_loop want (got @ bs) rd')"
  by pat_completeness auto
termination
proof (relation "measure (\<lambda>(want, got, rd). (want - length got) + length (snd rd))", goal_cases)
  case (2 want got rd x y)
  then have "read_once (want - length got) rd = (Inl None, y)" by simp
  then show ?case using read_once_measure(2) 2(1) by fastforce
next
  case (3 want got rd x y bs)
  then have "read_once (want - length got) rd = (Inr bs, y)" by simp
  then have "length (snd y) \<le> length (snd rd)" "length bs \<le> want - length got" using read_once_measure(1) by blast+
  then show ?case using 3 by (cases bs) auto
qed simp

declare read_loop.simps [simp del]

definition read_full :: "nat \<Rightarrow> reader \<Rightarrow> (string + byte list) \<times> reader" where
  "read_full want rd = read_loop want [] rd"

lemma read_once_shape:
  assumes "read_once want rd = (r, rd')"
  shows "set (snd rd') \<subseteq> set (snd rd) \<and> (case r of
      Inl None \<Rightarrow> fst rd = fst rd'
    | Inl (Some e) \<Rightarrow> ReadFails e \<in> set (snd rd)
    | Inr new \<Rightarrow> fst rd = new @ fst rd' \<and> length new \<le> want \<and> (0 < want \<and> new = [] \<longrightarrow> fst rd = []))"
  using assms by (cases "(want, rd)" rule: read_once.cases) (auto split: if_splits)

lemma read_loop_spec:
  assumes "read_loop want got rd = (Inr bs, rd')" "length got \<le> want"
  shows "\<exists>new. bs = got @ new \<and> fst rd = new @ fst rd' \<and> length bs \<le> want
    \<and> (length bs < want \<longrightarrow> fst rd' = []) \<and> set (snd rd') \<subseteq> set (snd rd)"
  using assms
proof (induction want got rd arbitrary: bs rd' rule: read_loop.induct)
  case (1 want got rd)
  show ?case
  proof (cases "want \<le> length got")
    case True
    then have "bs = got" "rd' = rd" using "1.prems"(1) by (simp_all add: read_loop.simps [of want got rd])
    then show ?thesis using "1.prems"(2) True by simp
  next
    case False
    obtain r rd1 where once: "read_once (want - length got) rd = (r, rd1)" by (rule prod.exhaust)
    note shape = read_once_shape [OF once]
    show ?thesis
    proof (cases r)
      case (Inl e)
      then have none: "e = None" using "1.prems"(1) False once by (cases e) (auto simp: read_loop.simps [of want got rd])
      then have "read_loop want got rd1 = (Inr bs, rd')"
        using "1.prems"(1) False once Inl by (simp add: read_loop.simps [of want got rd])
      from "1.IH"(1) [OF False once [symmetric] Inl none this "1.prems"(2)]
      show ?thesis using shape Inl none by auto
    next
      case (Inr new)
      show ?thesis
      proof (cases "new = []")
        case True
        then show ?thesis
          using "1.prems" False once Inr shape by (auto simp: read_loop.simps [of want got rd])
      next
        case False': False
        then have "read_loop want (got @ new) rd1 = (Inr bs, rd')"
          using "1.prems"(1) False once Inr by (simp add: read_loop.simps [of want got rd])
        moreover have "length (got @ new) \<le> want" using shape Inr False by auto
        ultimately obtain more where "bs = (got @ new) @ more" "fst rd1 = more @ fst rd'" "length bs \<le> want"
            "length bs < want \<longrightarrow> fst rd' = []" "set (snd rd') \<subseteq> set (snd rd1)"
          using "1.IH"(2) [OF False once [symmetric] Inr False'] by blast
        then show ?thesis using shape Inr by (intro exI [of _ "new @ more"]) auto
      qed
    qed
  qed
qed

lemma read_loop_ok:
  assumes "\<forall>e. ReadFails e \<notin> set (snd rd)"
  shows "\<exists>bs rd'. read_loop want got rd = (Inr bs, rd')"
  using assms
proof (induction want got rd rule: read_loop.induct)
  case (1 want got rd)
  obtain r rd1 where once: "read_once (want - length got) rd = (r, rd1)" by (rule prod.exhaust)
  have ok: "\<forall>e. ReadFails e \<notin> set (snd rd1)" and r: "\<forall>e. r \<noteq> Inl (Some e)"
    using read_once_shape [OF once] "1.prems" by (auto split: sum.splits option.splits)
  show ?case
  proof (cases "want \<le> length got")
    case True
    then show ?thesis by (simp add: read_loop.simps [of want got rd])
  next
    case False
    show ?thesis
    proof (cases r)
      case (Inl e)
      then show ?thesis
        using "1.IH"(1) [OF False once [symmetric] Inl _ ok] False once r
        by (cases e) (simp_all add: read_loop.simps [of want got rd])
    next
      case (Inr new)
      then show ?thesis
        using "1.IH"(2) [OF False once [symmetric] Inr _ ok] False once
        by (cases "new = []") (simp_all add: read_loop.simps [of want got rd])
    qed
  qed
qed

lemmas read_full_spec = read_loop_spec [where got = "[]", folded read_full_def, simplified]

section \<open>Files\<close>

text \<open>The loop over the chunks: a tail of each window is kept for a match that spans the next.\<close>

function scan_loop :: "byte list \<Rightarrow> glibc_version option \<Rightarrow> reader \<Rightarrow> string + glibc_version option" where
  "scan_loop window m rd =
     (case read_full CHUNK rd of
        (Inl e, _) \<Rightarrow> Inl e
      | (Inr bs, rd') \<Rightarrow>
          let window' = window @ bs; m' = scan_window window' m
          in if bs = [] then Inr m'
             else scan_loop (if CARRY < length window' then drop (length window' - CARRY) window' else window') m' rd')"
  by pat_completeness auto
termination
proof (relation "measure (\<lambda>(window, m, rd). length (fst rd))", goal_cases)
  case (2 window m rd x y bs window' m')
  then have "read_full CHUNK rd = (Inr bs, y)" by simp
  then have "fst rd = bs @ fst y" using read_full_spec by blast
  then show ?case using 2 by (cases bs) auto
qed simp

declare scan_loop.simps [simp del]

datatype file_meta = MetaFile | MetaOther | MetaMissing | MetaError string

definition scan_elf :: "reader \<Rightarrow> string + glibc_version option" where
  "scan_elf rd =
     (case read_full 4 rd of
        (Inl e, _) \<Rightarrow> Inl e
      | (Inr magic, rd') \<Rightarrow>
          if length magic < 4 then Inr None
          else if magic \<noteq> ELF_MAGIC then Inr None
          else scan_loop magic None rd')"

definition glibc_scan_file :: "file_meta \<times> (string + reader) \<Rightarrow> string + glibc_version option" where
  "glibc_scan_file = (\<lambda>(meta, opened).
     case meta of
       MetaOther \<Rightarrow> Inr None
     | MetaMissing \<Rightarrow> Inr None
     | MetaError e \<Rightarrow> Inl e
     | MetaFile \<Rightarrow> and_then opened scan_elf)"

definition max_glibc_floor :: "(file_meta \<times> (string + reader)) list \<Rightarrow> string + glibc_version option" where
  "max_glibc_floor files =
     try_fold (\<lambda>m f. and_then (glibc_scan_file f) (\<lambda>v.
       Inr (case v of None \<Rightarrow> m | Some v \<Rightarrow> raise_floor v m))) None files"

section \<open>The versions of a file\<close>

abbreviation GLIBC_LEN :: nat where
  "GLIBC_LEN \<equiv> length GLIBC_PREFIX"

definition occurs :: "nat \<Rightarrow> byte list \<Rightarrow> bool" where
  "occurs i bytes \<longleftrightarrow> prefix GLIBC_PREFIX (drop i bytes)"

definition glibc_versions :: "byte list \<Rightarrow> glibc_version set" where
  "glibc_versions bytes = {v. \<exists>i. occurs i bytes \<and> parse_version (drop (i + GLIBC_LEN) bytes) = Some v}"

definition is_floor :: "'a::linorder option \<Rightarrow> 'a set \<Rightarrow> bool" where
  "is_floor m S \<longleftrightarrow> finite S \<and> m = (if S = {} then None else Some (Max S))"

lemma is_floor_raise: "is_floor m S \<Longrightarrow> is_floor (raise_floor v m) (insert v S)"
  by (auto simp: is_floor_def raise_floor_def max.commute)

lemma occurs_bound: "occurs i bytes \<Longrightarrow> i + GLIBC_LEN \<le> length bytes"
  unfolding occurs_def GLIBC_PREFIX_def by (auto dest: prefix_length_le)

lemma prefix_take_eq: "prefix xs ys \<longleftrightarrow> take (length xs) ys = xs"
  by (metis append_eq_conv_conj prefix_def take_is_prefix)

lemma occurs_append: "i + GLIBC_LEN \<le> length xs \<Longrightarrow> occurs i (xs @ ys) = occurs i xs"
  by (simp add: occurs_def prefix_take_eq)

lemma occurs_drop: "occurs i (drop n bytes) = occurs (n + i) bytes"
  by (simp add: occurs_def add.commute)

lemma occurs_apart:
  assumes "occurs i bytes" "occurs j bytes" "i < j"
  shows "i + GLIBC_LEN \<le> j"
proof (rule ccontr)
  assume "\<not> i + GLIBC_LEN \<le> j"
  then have k: "0 < j - i" "j - i < 6" using assms(3) by (auto simp: GLIBC_PREFIX_def)
  obtain xs where xs: "drop i bytes = GLIBC_PREFIX @ xs" using assms(1) by (auto simp: occurs_def prefix_def)
  have "drop j bytes = drop (j - i) (GLIBC_PREFIX @ xs)"
    unfolding xs [symmetric] drop_drop using assms(3) by simp
  then have "prefix GLIBC_PREFIX (drop (j - i) (GLIBC_PREFIX @ xs))" using assms(2) by (simp add: occurs_def)
  moreover have "j - i = 1 \<or> j - i = 2 \<or> j - i = 3 \<or> j - i = 4 \<or> j - i = 5" using k by linarith
  ultimately show False by (auto simp: GLIBC_PREFIX_def)
qed

lemma find_window_Some:
  "find_window needle bytes = Some i \<Longrightarrow> prefix needle (drop i bytes) \<and> (\<forall>j < i. \<not> prefix needle (drop j bytes))"
proof (induction needle bytes arbitrary: i rule: find_window.induct)
  case (2 needle b bs)
  then show ?case
    by (simp only: find_window.simps prefix_take_eq less_Suc_eq_0_disj split: if_splits)
      (auto simp: less_Suc_eq_0_disj prefix_take_eq)
qed simp

lemma find_window_None: "find_window needle bytes = None \<Longrightarrow> prefix needle (drop i bytes) \<Longrightarrow> needle = []"
  by (induction needle bytes arbitrary: i rule: find_window.induct)
    (auto split: if_splits simp: drop_Cons' prefix_def)

lemma find_glibc:
  "find_bytes bytes GLIBC_PREFIX = None \<Longrightarrow> \<not> occurs i bytes"
  "find_bytes bytes GLIBC_PREFIX = Some i \<Longrightarrow> occurs i bytes \<and> (\<forall>j < i. \<not> occurs j bytes)"
proof -
  have nonempty: "GLIBC_PREFIX \<noteq> []" by (simp add: GLIBC_PREFIX_def)
  show "find_bytes bytes GLIBC_PREFIX = None \<Longrightarrow> \<not> occurs i bytes"
    using find_window_None [of GLIBC_PREFIX bytes i] nonempty occurs_bound [of i bytes]
    by (auto simp: find_bytes_def occurs_def split: if_splits)
  show "find_bytes bytes GLIBC_PREFIX = Some i \<Longrightarrow> occurs i bytes \<and> (\<forall>j < i. \<not> occurs j bytes)"
    using find_window_Some [of GLIBC_PREFIX bytes i] nonempty
    by (auto simp: find_bytes_def occurs_def split: if_splits)
qed

lemma scan_window_floor: "is_floor m S \<Longrightarrow> is_floor (scan_window bytes m) (S \<union> glibc_versions bytes)"
proof (induction bytes m arbitrary: S rule: scan_window.induct)
  case (1 bytes m)
  show ?case
  proof (cases "find_bytes bytes GLIBC_PREFIX")
    case None
    then show ?thesis
      using "1.prems" find_glibc(1) [OF None] by (simp add: scan_window.simps [of bytes m] glibc_versions_def)
  next
    case (Some rel)
    note first = find_glibc(2) [OF Some]
    let ?rest = "drop (rel + GLIBC_LEN) bytes"
    have split: "occurs i bytes \<longleftrightarrow> i = rel \<or> (\<exists>j. i = rel + GLIBC_LEN + j \<and> occurs j ?rest)" for i
      using first occurs_apart [of rel bytes i] by (auto simp: occurs_drop) (metis le_Suc_ex linorder_cases)
    have "glibc_versions bytes = set_option (parse_version ?rest) \<union> glibc_versions ?rest"
      unfolding glibc_versions_def split by (auto simp: elem_set add.commute add.left_commute)
    moreover have "is_floor (case parse_version ?rest of None \<Rightarrow> m | Some v \<Rightarrow> raise_floor v m)
        (set_option (parse_version ?rest) \<union> S)"
      using "1.prems" is_floor_raise by (auto split: option.split)
    note "1.IH" [OF Some refl this]
    ultimately show ?thesis
      by (simp add: scan_window.simps [of bytes m] Some Let_def Un_ac)
  qed
qed

section \<open>Numbers\<close>

definition digits_of :: "byte list \<Rightarrow> bool" where
  "digits_of ds \<longleftrightarrow> list_all byte_digit ds"

definition number_word :: "byte list \<Rightarrow> 32 word" where
  "number_word ds = foldl (\<lambda>v b. v * 10 + ucast (b - 0x30)) 0 ds"

fun number_nat :: "byte list \<Rightarrow> nat" where
  "number_nat [] = 0"
| "number_nat (d # ds) = unat (d - 0x30) * 10 ^ length ds + number_nat ds"

lemma digit_value_bound: "byte_digit b \<Longrightarrow> unat (b - 0x30) \<le> 9"
  by (auto simp: byte_digit_def unat_sub word_le_nat_alt)

lemma number_nat_append: "number_nat (xs @ ys) = number_nat xs * 10 ^ length ys + number_nat ys"
  by (induction xs) (simp_all add: power_add algebra_simps)

lemma number_nat_bound: "digits_of ds \<Longrightarrow> number_nat ds < 10 ^ length ds"
proof (induction ds)
  case (Cons d ds)
  then have "number_nat ds < 10 ^ length ds" "unat (d - 0x30) \<le> 9"
    using digit_value_bound by (simp_all add: digits_of_def)
  then have "unat (d - 0x30) * 10 ^ length ds + number_nat ds < 9 * 10 ^ length ds + 10 ^ length ds"
    by (intro add_le_less_mono mult_le_mono1)
  then show ?case by simp
qed simp

lemma number_word_nat: "digits_of ds \<Longrightarrow> length ds \<le> 6 \<Longrightarrow> unat (number_word ds) = number_nat ds"
proof (induction ds rule: rev_induct)
  case (snoc d ds)
  then have ds: "digits_of ds" "length ds \<le> 6" and d: "unat (d - 0x30) \<le> 9"
    using digit_value_bound by (auto simp: digits_of_def)
  have IH: "unat (number_word ds) = number_nat ds" using snoc.IH ds by blast
  have "number_nat (ds @ [d]) < 10 ^ length (ds @ [d])"
    using snoc.prems(1) by (rule number_nat_bound)
  also have "\<dots> \<le> 10 ^ 6" using snoc.prems(2) by (intro power_increasing) simp_all
  finally have small: "number_nat ds * 10 + unat (d - 0x30) < 1000000" by (simp add: number_nat_append)
  have digit: "unat (ucast (d - 0x30) :: 32 word) = unat (d - 0x30)"
    by (simp add: unsigned_ucast_eq take_bit_nat_eq_self unsigned_less [THEN order_less_le_trans])
  have "unat (number_word ds * 10) = number_nat ds * 10"
    using small IH by (subst unat_mult_lem [THEN iffD1]) simp_all
  then have "unat (number_word ds * 10 + ucast (d - 0x30)) = number_nat ds * 10 + unat (d - 0x30)"
    using small digit by (subst unat_add_lem [THEN iffD1]) simp_all
  then show ?case by (simp add: number_word_def number_nat_append)
qed (simp add: number_word_def)

lemma number_word_mono:
  assumes "digits_of (ds @ es)" "length (ds @ es) \<le> 6"
  shows "number_word ds \<le> number_word (ds @ es)"
proof -
  have "number_nat ds * 1 \<le> number_nat ds * 10 ^ length es" by (rule mult_le_mono2) simp
  then have "number_nat ds \<le> number_nat (ds @ es)" unfolding number_nat_append by linarith
  then show ?thesis
    using assms number_word_nat [of ds] number_word_nat [of "ds @ es"] by (simp add: word_le_nat_alt digits_of_def)
qed

section \<open>Version strings\<close>

text \<open>\<open>ends_number rest\<close>: no digit follows.\<close>

definition ends_number :: "byte list \<Rightarrow> bool" where
  "ends_number rest \<longleftrightarrow> rest = [] \<or> \<not> byte_digit (hd rest)"

lemma take_number_iff:
  "take_number bytes = Some (n, rest) \<longleftrightarrow>
     (\<exists>ds. bytes = ds @ rest \<and> digits_of ds \<and> ends_number rest \<and> 0 < length ds \<and> length ds \<le> 6 \<and> n = number_word ds)"
proof
  assume "take_number bytes = Some (n, rest)"
  then have "0 < length (takeWhile byte_digit bytes)" "length (takeWhile byte_digit bytes) \<le> 6"
      "n = number_word (takeWhile byte_digit bytes)" "rest = dropWhile byte_digit bytes"
    by (auto simp: take_number_def Let_def number_word_def takeWhile_eq_take [symmetric] dropWhile_eq_drop [symmetric] split: if_splits)
  then show "\<exists>ds. bytes = ds @ rest \<and> digits_of ds \<and> ends_number rest \<and> 0 < length ds \<and> length ds \<le> 6 \<and> n = number_word ds"
    using hd_dropWhile [of byte_digit bytes] by (intro exI [of _ "takeWhile byte_digit bytes"])
      (auto simp: digits_of_def ends_number_def list_all_iff simp del: dropWhile_eq_Nil_conv dest: set_takeWhileD)
next
  assume "\<exists>ds. bytes = ds @ rest \<and> digits_of ds \<and> ends_number rest \<and> 0 < length ds \<and> length ds \<le> 6 \<and> n = number_word ds"
  then obtain ds where ds: "bytes = ds @ rest" "digits_of ds" "ends_number rest" "0 < length ds" "length ds \<le> 6" "n = number_word ds"
    by blast
  have "takeWhile byte_digit bytes = ds"
    using ds(2,3) unfolding ds(1) by (cases rest) (auto simp: digits_of_def ends_number_def list_all_iff takeWhile_tail)
  then show "take_number bytes = Some (n, rest)"
    using ds by (simp add: take_number_def number_word_def)
qed

text \<open>A version string: the digits before and after the dot.\<close>

definition version_token :: "byte list \<Rightarrow> byte list \<Rightarrow> bool" where
  "version_token ds es \<longleftrightarrow> digits_of ds \<and> digits_of es \<and> 0 < length ds \<and> length ds \<le> 6 \<and> 0 < length es \<and> length es \<le> 6"

lemma parse_version_iff:
  "parse_version bytes = Some v \<longleftrightarrow>
     (\<exists>ds es rest. bytes = ds @ 0x2E # es @ rest \<and> version_token ds es \<and> ends_number rest
        \<and> v = GlibcVersion (number_word ds) (number_word es))"
proof
  assume "parse_version bytes = Some v"
  then obtain major minor rest rest' where first: "take_number bytes = Some (major, 0x2E # rest)"
      and second: "take_number rest = Some (minor, rest')" and v: "v = GlibcVersion major minor"
    by (auto simp: parse_version_def split: option.splits list.splits if_splits)
  from first second show "\<exists>ds es rest. bytes = ds @ 0x2E # es @ rest \<and> version_token ds es \<and> ends_number rest
        \<and> v = GlibcVersion (number_word ds) (number_word es)"
    unfolding take_number_iff version_token_def v by blast
next
  assume "\<exists>ds es rest. bytes = ds @ 0x2E # es @ rest \<and> version_token ds es \<and> ends_number rest
        \<and> v = GlibcVersion (number_word ds) (number_word es)"
  then obtain ds es rest where t: "bytes = ds @ 0x2E # es @ rest" "version_token ds es" "ends_number rest"
      "v = GlibcVersion (number_word ds) (number_word es)"
    by blast
  have "ends_number (0x2E # es @ rest)" by (simp add: ends_number_def byte_digit_def)
  then have "take_number bytes = Some (number_word ds, 0x2E # es @ rest)"
    unfolding take_number_iff using t by (auto simp: version_token_def)
  moreover have "take_number (es @ rest) = Some (number_word es, rest)"
    unfolding take_number_iff using t by (auto simp: version_token_def)
  ultimately show "parse_version bytes = Some v" by (simp add: parse_version_def t(4))
qed

section \<open>The streamed scan\<close>

text \<open>A version reference of the file at \<open>i\<close>, of \<open>n\<close> bytes.\<close>

definition reference_at :: "byte list \<Rightarrow> nat \<Rightarrow> nat \<Rightarrow> glibc_version \<Rightarrow> bool" where
  "reference_at whole i n v \<longleftrightarrow>
     (\<exists>ds es rest. drop i whole = GLIBC_PREFIX @ ds @ 0x2E # es @ rest \<and> version_token ds es \<and> ends_number rest
        \<and> n = length (GLIBC_PREFIX @ ds @ 0x2E # es) \<and> v = GlibcVersion (number_word ds) (number_word es))"

text \<open>What a window may show: a version read from a file cut off at some point.\<close>

definition cut_versions :: "byte list \<Rightarrow> glibc_version set" where
  "cut_versions whole = {v. \<exists>i j. occurs i whole \<and> parse_version (take j (drop (i + GLIBC_LEN) whole)) = Some v}"

lemma versions_reference: "v \<in> glibc_versions whole \<longleftrightarrow> (\<exists>i n. reference_at whole i n v)"
proof -
  have "occurs i whole \<and> parse_version (drop (i + GLIBC_LEN) whole) = Some v \<longleftrightarrow> (\<exists>n. reference_at whole i n v)" for i
  proof -
    have split: "occurs i whole \<and> drop (i + GLIBC_LEN) whole = xs \<longleftrightarrow> drop i whole = GLIBC_PREFIX @ xs" for xs
    proof -
      have "drop (i + GLIBC_LEN) whole = drop GLIBC_LEN (drop i whole)" by (simp add: add.commute)
      then show ?thesis by (auto simp: occurs_def prefix_def simp del: drop_drop)
    qed
    then show ?thesis
      unfolding parse_version_iff reference_at_def by (auto simp: split [symmetric])
  qed
  then show ?thesis by (simp add: glibc_versions_def)
qed

lemma reference_length: "reference_at whole i n v \<Longrightarrow> n \<le> 19 \<and> i + n \<le> length whole"
proof -
  assume "reference_at whole i n v"
  then obtain ds es rest where t: "drop i whole = GLIBC_PREFIX @ ds @ 0x2E # es @ rest" "version_token ds es"
      "n = length (GLIBC_PREFIX @ ds @ 0x2E # es)"
    unfolding reference_at_def by blast
  have "length whole - i = n + length rest" using arg_cong [OF t(1), of length] t(3) by simp
  then have "i + n \<le> length whole" using t(3) by (simp add: GLIBC_PREFIX_def)
  then show ?thesis using t(2,3) by (simp add: version_token_def GLIBC_PREFIX_def)
qed

lemma append_longer: "xs @ ys = zs @ ws \<Longrightarrow> length zs \<le> length xs \<Longrightarrow> \<exists>us. xs = zs @ us \<and> us @ ys = ws"
  by (auto simp: append_eq_append_conv2)

text \<open>A reference that lies in a part of the file is one of that part.\<close>

lemma reference_window:
  assumes "reference_at (before @ window @ after) i n v" "length before \<le> i" "i + n \<le> length (before @ window)"
  shows "reference_at window (i - length before) n v"
proof -
  obtain ds es rest where t: "drop i (before @ window @ after) = GLIBC_PREFIX @ ds @ 0x2E # es @ rest"
      "version_token ds es" "ends_number rest" "n = length (GLIBC_PREFIX @ ds @ 0x2E # es)"
      "v = GlibcVersion (number_word ds) (number_word es)"
    using assms(1) unfolding reference_at_def by blast
  let ?token = "GLIBC_PREFIX @ ds @ 0x2E # es"
  have eq: "drop (i - length before) window @ after = ?token @ rest"
    using t(1) assms(2,3) by simp
  have long: "length ?token \<le> length (drop (i - length before) window)" using assms(2,3) t(4) by simp
  obtain us where us: "drop (i - length before) window = ?token @ us" "us @ after = rest"
    using append_longer [OF eq long] by blast
  have "ends_number us" using t(3) us(2) by (cases us) (auto simp: ends_number_def)
  then show ?thesis
    unfolding reference_at_def using us(1) t(2,4,5) by (intro exI [of _ ds] exI [of _ es] exI [of _ us]) simp
qed

lemma window_cut:
  assumes "v \<in> glibc_versions window"
  shows "v \<in> cut_versions (before @ window @ after)"
proof -
  obtain i where i: "occurs i window" "parse_version (drop (i + GLIBC_LEN) window) = Some v"
    using assms unfolding glibc_versions_def by blast
  let ?i = "length before + i"
  have "occurs ?i (before @ window @ after)"
    using i(1) occurs_append [OF occurs_bound [OF i(1)]] occurs_drop [of i "length before" "before @ window @ after"] by simp
  moreover have "take (length window - (i + GLIBC_LEN)) (drop (?i + GLIBC_LEN) (before @ window @ after)) = drop (i + GLIBC_LEN) window"
    using occurs_bound [OF i(1)] by simp
  ultimately show ?thesis
    unfolding cut_versions_def using i(2) by (metis (mono_tags, lifting) mem_Collect_eq)
qed

lemma scan_loop_floor:
  assumes "is_floor m S" "whole = before @ window @ fst rd" "before = [] \<or> CARRY \<le> length window"
    and "\<And>i n v. reference_at whole i n v \<Longrightarrow> i + n \<le> length (before @ window) \<Longrightarrow> v \<in> S"
    and "S \<subseteq> cut_versions whole" "\<forall>e. ReadFails e \<notin> set (snd rd)"
  shows "\<exists>m' S'. scan_loop window m rd = Inr m' \<and> is_floor m' S' \<and> glibc_versions whole \<subseteq> S' \<and> S' \<subseteq> cut_versions whole"
  using assms
proof (induction window m rd arbitrary: before S rule: scan_loop.induct)
  case (1 window m rd)
  obtain bs rd' where read: "read_full CHUNK rd = (Inr bs, rd')"
    using read_loop_ok [OF "1.prems"(6), of CHUNK "[]"] by (auto simp: read_full_def)
  then have bs: "fst rd = bs @ fst rd'" "length bs < CHUNK \<longrightarrow> fst rd' = []" and ok: "\<forall>e. ReadFails e \<notin> set (snd rd')"
    using read_full_spec "1.prems"(6) by blast+
  let ?window = "window @ bs" and ?m = "scan_window (window @ bs) m" and ?S = "S \<union> glibc_versions (window @ bs)"
  have parts: "whole = before @ ?window @ fst rd'" using "1.prems"(2) bs(1) by simp
  have floor: "is_floor ?m ?S" by (rule scan_window_floor [OF "1.prems"(1)])
  have cut: "?S \<subseteq> cut_versions whole" using "1.prems"(5) window_cut parts by blast
  have covered: "v \<in> ?S" if ref: "reference_at whole i n v" and inside: "i + n \<le> length (before @ ?window)" for i n v
  proof (cases "i + n \<le> length (before @ window)")
    case True
    then show ?thesis using "1.prems"(4) ref by blast
  next
    case False
    then have "length before \<le> i"
      using "1.prems"(3) reference_length [OF ref] by (auto simp: CARRY_def)
    then have "reference_at ?window (i - length before) n v"
      using reference_window ref inside unfolding parts by blast
    then show ?thesis using versions_reference by blast
  qed
  show ?case
  proof (cases "bs = []")
    case True
    then have "fst rd' = []" using bs(2) by (simp add: CHUNK_def)
    then have whole: "whole = before @ ?window" using parts by simp
    have "glibc_versions whole \<subseteq> ?S"
    proof
      fix v
      assume "v \<in> glibc_versions whole"
      then obtain i n where ref: "reference_at whole i n v" using versions_reference by blast
      then show "v \<in> ?S" using covered reference_length [OF ref] whole by blast
    qed
    moreover have "scan_loop window m rd = Inr ?m"
      using read True by (simp add: scan_loop.simps [of window m rd] Let_def)
    ultimately show ?thesis using floor cut by blast
  next
    case False
    let ?keep = "if CARRY < length ?window then drop (length ?window - CARRY) ?window else ?window"
    let ?before = "before @ (if CARRY < length ?window then take (length ?window - CARRY) ?window else [])"
    have join: "?before @ ?keep = before @ ?window" by (simp only: append.assoc append_take_drop_id append_Nil split: if_split) simp
    have keep: "?before = [] \<or> CARRY \<le> length ?keep" using "1.prems"(3) by auto
    have "\<exists>m' S'. scan_loop ?keep ?m rd' = Inr m' \<and> is_floor m' S' \<and> glibc_versions whole \<subseteq> S' \<and> S' \<subseteq> cut_versions whole"
    proof (rule "1.IH" [OF read [symmetric] refl refl refl False floor _ keep _ cut ok])
      show "whole = ?before @ ?keep @ fst rd'" using parts join by (metis append.assoc)
      show "v \<in> ?S" if "reference_at whole i n v" "i + n \<le> length (?before @ ?keep)" for i n v
        by (rule covered [OF that(1)]) (use that(2) in \<open>simp only: join\<close>)
    qed
    then show ?thesis
      using read False by (simp add: scan_loop.simps [of window m rd] Let_def)
  qed
qed

text \<open>
  The references of the file have minor numbers of at most six digits, the longest
  \<^verbatim>\<open>take_number\<close> reads.
\<close>

definition short_minors :: "byte list \<Rightarrow> bool" where
  "short_minors bytes \<longleftrightarrow>
     list_all (\<lambda>i. occurs i bytes \<longrightarrow>
       (let after = dropWhile byte_digit (drop (i + GLIBC_LEN) bytes)
        in after = [] \<or> hd after \<noteq> 0x2E \<or> length (takeWhile byte_digit (tl after)) \<le> 6)) [0..<length bytes]"

lemma cut_below:
  assumes "short_minors bytes" "v \<in> cut_versions bytes"
  shows "\<exists>w \<in> glibc_versions bytes. v \<le> w"
proof -
  obtain i j where i: "occurs i bytes" and cut: "parse_version (take j (drop (i + GLIBC_LEN) bytes)) = Some v"
    using assms(2) unfolding cut_versions_def by blast
  let ?rest = "drop (i + GLIBC_LEN) bytes"
  obtain ds es us where t: "take j ?rest = ds @ 0x2E # es @ us" "version_token ds es" "ends_number us"
      "v = GlibcVersion (number_word ds) (number_word es)"
    using cut unfolding parse_version_iff by blast
  have rest: "?rest = ds @ 0x2E # es @ us @ drop j ?rest"
    using append_take_drop_id [of j ?rest] t(1) by simp
  let ?more = "takeWhile byte_digit (us @ drop j ?rest)" and ?tail = "dropWhile byte_digit (us @ drop j ?rest)"
  have digits: "digits_of ds" "digits_of es" using t(2) by (simp_all add: version_token_def)
  have "dropWhile byte_digit ?rest = 0x2E # es @ us @ drop j ?rest"
    using digits(1) by (subst rest, subst dropWhile_append2) (auto simp: digits_of_def list_all_iff byte_digit_def)
  moreover have "i \<in> set [0..<length bytes]" using occurs_bound [OF i] by (simp add: GLIBC_PREFIX_def)
  ultimately have "length (takeWhile byte_digit (es @ us @ drop j ?rest)) \<le> 6"
    using assms(1) i unfolding short_minors_def list_all_iff Let_def by (metis list.distinct(1) list.sel(1,3))
  then have short: "length (es @ ?more) \<le> 6"
    using digits(2) by (simp add: digits_of_def list_all_iff)
  have more: "digits_of (es @ ?more)" "ends_number ?tail"
    using digits(2) hd_dropWhile [of byte_digit "us @ drop j ?rest"]
    by (auto simp: digits_of_def ends_number_def list_all_iff dest: set_takeWhileD simp del: dropWhile_eq_Nil_conv)
  let ?w = "GlibcVersion (number_word ds) (number_word (es @ ?more))"
  have "?rest = ds @ 0x2E # (es @ ?more) @ ?tail" using rest by (simp only: append.assoc takeWhile_dropWhile_id)
  moreover have "version_token ds (es @ ?more)" using t(2) short more(1) by (simp add: version_token_def)
  ultimately have "parse_version ?rest = Some ?w"
    unfolding parse_version_iff using more(2) by blast
  then have "?w \<in> glibc_versions bytes" using i unfolding glibc_versions_def by blast
  moreover have "v \<le> ?w"
    using number_word_mono [OF more(1) short] by (simp add: t(4) less_eq_glibc_version_def)
  ultimately show ?thesis by blast
qed

text \<open>
  C35. The streamed scan of a regular ELF file, however the reads are split or interrupted,
  never reports a lower floor than any \<^verbatim>\<open>GLIBC_x.y\<close> reference of the file asks for, and it
  reports exactly the highest reference when no minor number is longer than the six digits the
  parser reads.
\<close>

theorem glibc_scan_exact:
  assumes "\<forall>e. ReadFails e \<notin> set schedule" "take 4 bytes = ELF_MAGIC"
  shows "\<exists>m. glibc_scan_file (MetaFile, Inr (bytes, schedule)) = Inr m
     \<and> (\<forall>v \<in> glibc_versions bytes. \<exists>w. m = Some w \<and> v \<le> w)
     \<and> (short_minors bytes \<longrightarrow> m = (if glibc_versions bytes = {} then None else Some (Max (glibc_versions bytes))))"
proof -
  obtain magic rd where read: "read_full 4 (bytes, schedule) = (Inr magic, rd)"
    using read_loop_ok [of "(bytes, schedule)" 4 "[]"] assms(1) by (auto simp: read_full_def)
  then have magic: "bytes = magic @ fst rd" "length magic \<le> 4" "length magic < 4 \<longrightarrow> fst rd = []"
      and ok: "\<forall>e. ReadFails e \<notin> set (snd rd)"
    using read_full_spec [OF read] assms(1) by auto
  have "length bytes \<ge> 4" using arg_cong [OF assms(2), of length] by (simp add: ELF_MAGIC_def)
  then have len: "length magic = 4" using magic by fastforce
  then have elf: "magic = ELF_MAGIC" using assms(2) magic(1) by simp
  have none: "v \<in> {}" if "reference_at bytes i n v" "i + n \<le> length ([] @ magic)" for i n v
    using that len unfolding reference_at_def by (auto simp: GLIBC_PREFIX_def)
  obtain m S where run: "scan_loop magic None rd = Inr m" and floor: "is_floor m S"
      and lower: "glibc_versions bytes \<subseteq> S" and upper: "S \<subseteq> cut_versions bytes"
    using scan_loop_floor [of None "{}" bytes "[]" magic rd] magic(1) none ok by (auto simp: is_floor_def)
  have result: "glibc_scan_file (MetaFile, Inr (bytes, schedule)) = Inr m"
    using read len elf run by (simp add: glibc_scan_file_def and_then_def scan_elf_def)
  have bound: "\<exists>w. m = Some w \<and> v \<le> w" if "v \<in> glibc_versions bytes" for v
    using that lower floor by (auto simp: is_floor_def)
  have exact: "m = (if glibc_versions bytes = {} then None else Some (Max (glibc_versions bytes)))" if short: "short_minors bytes"
  proof -
    have fin: "finite S" using floor by (simp add: is_floor_def)
    have dominated: "\<exists>w \<in> glibc_versions bytes. v \<le> w" if "v \<in> S" for v
      using cut_below [OF short] upper that by blast
    have empty: "S = {} \<longleftrightarrow> glibc_versions bytes = {}" using dominated lower by blast
    have "Max S = Max (glibc_versions bytes)" if nonempty: "S \<noteq> {}"
    proof (rule antisym)
      have sub: "finite (glibc_versions bytes)" using lower fin by (rule finite_subset)
      show "Max (glibc_versions bytes) \<le> Max S" using nonempty empty lower fin by (intro Max_mono) auto
      obtain w where "w \<in> glibc_versions bytes" "Max S \<le> w" using dominated Max_in [OF fin nonempty] by blast
      then show "Max S \<le> Max (glibc_versions bytes)" using sub Max_ge order_trans by blast
    qed
    then show ?thesis using floor empty by (simp add: is_floor_def)
  qed
  show ?thesis using result bound exact by blast
qed

definition sample_elf :: "byte list" where
  "sample_elf = ELF_MAGIC @ GLIBC_PREFIX @ [0x32, 0x2E, 0x39, 0] @ GLIBC_PREFIX @ [0x32, 0x2E, 0x32, 0x38]"

lemma sample_elf_short: "short_minors sample_elf"
  by code_simp

theorem glibc_scan_exact_witness:
  "\<exists>m. glibc_scan_file (MetaFile, Inr (sample_elf, [Deliver 9, Interrupted, Deliver 5])) = Inr m
     \<and> (\<exists>w. m = Some w \<and> GlibcVersion 2 28 \<le> w)
     \<and> m = (if glibc_versions sample_elf = {} then None else Some (Max (glibc_versions sample_elf)))"
proof -
  have "occurs 14 sample_elf" "parse_version (drop (14 + GLIBC_LEN) sample_elf) = Some (GlibcVersion 2 28)"
    by code_simp+
  then have "GlibcVersion 2 28 \<in> glibc_versions sample_elf" unfolding glibc_versions_def by blast
  moreover have "take 4 sample_elf = ELF_MAGIC" by (simp add: sample_elf_def ELF_MAGIC_def)
  ultimately show ?thesis
    using glibc_scan_exact [of "[Deliver 9, Interrupted, Deliver 5]" sample_elf] sample_elf_short by auto
qed

end
