(* ===== verification/MachOFloors.thy ===== *)
theory MachOFloors
  imports SymbolFloors
begin

text \<open>
  The macOS deployment floor of a runtime's Mach-O binaries (ost-build/src/macho.rs): the
  load commands of each image, and of each slice of a universal binary, read at their widths.
\<close>

section \<open>Versions\<close>

datatype macos_version = MacosVersion (mac_major: "32 word") (mac_minor: "32 word")

instantiation macos_version :: linorder
begin

definition less_eq_macos_version :: "macos_version \<Rightarrow> macos_version \<Rightarrow> bool" where
  "less_eq_macos_version a b \<longleftrightarrow> mac_major a < mac_major b \<or> mac_major a = mac_major b \<and> mac_minor a \<le> mac_minor b"

definition less_macos_version :: "macos_version \<Rightarrow> macos_version \<Rightarrow> bool" where
  "less_macos_version a b \<longleftrightarrow> mac_major a < mac_major b \<or> mac_major a = mac_major b \<and> mac_minor a < mac_minor b"

instance
  by standard (auto simp: less_eq_macos_version_def less_macos_version_def intro: macos_version.expand)

end

definition from_packed :: "32 word \<Rightarrow> macos_version option" where
  "from_packed packed =
     (let major = drop_bit 16 packed; minor = drop_bit 8 packed AND 0xFF
      in if 0 < major then Some (MacosVersion major minor) else None)"

definition macos_token :: "macos_version \<Rightarrow> string" where
  "macos_token v = to_decimal (unat (mac_major v)) @ ''.'' @ to_decimal (unat (mac_minor v))"

record macos_floor =
  deployment_target :: "macos_version option"
  floor_sdk :: "macos_version option"

definition no_floor :: macos_floor where
  "no_floor = \<lparr> deployment_target = None, floor_sdk = None \<rparr>"

definition floor_is_empty :: "macos_floor \<Rightarrow> bool" where
  "floor_is_empty f = (deployment_target f = None \<and> floor_sdk f = None)"

fun max_option :: "'a::linorder option \<Rightarrow> 'a option \<Rightarrow> 'a option" where
  "max_option (Some a) (Some b) = Some (max a b)"
| "max_option a None = a"
| "max_option None b = b"

definition absorb :: "macos_floor \<Rightarrow> macos_floor \<Rightarrow> macos_floor" where
  "absorb f other =
     \<lparr> deployment_target = max_option (deployment_target f) (deployment_target other),
       floor_sdk = max_option (floor_sdk f) (floor_sdk other) \<rparr>"

section \<open>Images\<close>

text \<open>\<^verbatim>\<open>bytes.get(offset..offset + n)?\<close>\<close>

definition get_range :: "byte list \<Rightarrow> nat \<Rightarrow> nat \<Rightarrow> byte list option" where
  "get_range bytes offset n = (if offset + n \<le> length bytes then Some (take n (drop offset bytes)) else None)"

definition read_u32_le :: "byte list \<Rightarrow> nat \<Rightarrow> 32 word option" where
  "read_u32_le bytes offset = map_option (\<lambda>s. word_of_nat (from_le s)) (get_range bytes offset 4)"

definition read_u32_be :: "byte list \<Rightarrow> nat \<Rightarrow> 32 word option" where
  "read_u32_be bytes offset = map_option (\<lambda>s. word_of_nat (from_le (rev s))) (get_range bytes offset 4)"

definition read_u64_be :: "byte list \<Rightarrow> nat \<Rightarrow> 64 word option" where
  "read_u64_be bytes offset = map_option (\<lambda>s. word_of_nat (from_le (rev s))) (get_range bytes offset 8)"

definition MACHO_MAGIC_64 :: "32 word" where
  "MACHO_MAGIC_64 = 0xFEEDFACF"

definition FAT_MAGIC :: "32 word" where
  "FAT_MAGIC = 0xCAFEBABE"

definition FAT_MAGIC_64 :: "32 word" where
  "FAT_MAGIC_64 = 0xCAFEBABF"

definition MAX_FAT_SLICES :: nat where
  "MAX_FAT_SLICES = 64"

definition LC_VERSION_MIN_MACOSX :: "32 word" where
  "LC_VERSION_MIN_MACOSX = 0x24"

definition LC_BUILD_VERSION :: "32 word" where
  "LC_BUILD_VERSION = 0x32"

definition PLATFORM_MACOS :: "32 word" where
  "PLATFORM_MACOS = 1"

definition MAX_LOAD_COMMANDS :: nat where
  "MAX_LOAD_COMMANDS = 2 ^ 20"

definition packed_at :: "byte list \<Rightarrow> nat \<Rightarrow> macos_version option" where
  "packed_at bytes offset = Option.bind (read_u32_le bytes offset) from_packed"

definition command_floor :: "byte list \<Rightarrow> nat \<Rightarrow> 32 word \<Rightarrow> macos_floor \<Rightarrow> macos_floor" where
  "command_floor bytes offset cmd f =
     (if cmd = LC_BUILD_VERSION then
        if read_u32_le bytes (offset + 8) = Some PLATFORM_MACOS
        then absorb f \<lparr> deployment_target = packed_at bytes (offset + 12), floor_sdk = packed_at bytes (offset + 16) \<rparr>
        else f
      else if cmd = LC_VERSION_MIN_MACOSX
      then absorb f \<lparr> deployment_target = packed_at bytes (offset + 8), floor_sdk = packed_at bytes (offset + 12) \<rparr>
      else f)"

fun scan_commands :: "byte list \<Rightarrow> nat \<Rightarrow> nat \<Rightarrow> macos_floor \<Rightarrow> macos_floor" where
  "scan_commands bytes 0 offset f = f"
| "scan_commands bytes (Suc n) offset f =
     (case (read_u32_le bytes offset, read_u32_le bytes (offset + 4)) of
        (Some cmd, Some cmdsize) \<Rightarrow>
          if unat cmdsize < 8 \<or> length bytes < offset + unat cmdsize then f
          else scan_commands bytes n (offset + unat cmdsize) (command_floor bytes offset cmd f)
      | _ \<Rightarrow> f)"

definition scan_thin :: "byte list \<Rightarrow> macos_floor" where
  "scan_thin bytes =
     (if read_u32_le bytes 0 \<noteq> Some MACHO_MAGIC_64 then no_floor
      else case read_u32_le bytes 16 of
             None \<Rightarrow> no_floor
           | Some ncmds \<Rightarrow> scan_commands bytes (unat ncmds) 32 no_floor)"

text \<open>The table of a universal binary: 32-bit or 64-bit offsets, big-endian.\<close>

fun slice_table :: "byte list \<Rightarrow> nat \<Rightarrow> bool \<Rightarrow> nat \<Rightarrow> nat \<Rightarrow> 64 word list" where
  "slice_table bytes entry_size wide index 0 = []"
| "slice_table bytes entry_size wide index (Suc n) =
     (let entry = 8 + index * entry_size
      in case (if wide then read_u64_be bytes (entry + 8) else map_option ucast (read_u32_be bytes (entry + 8))) of
           Some offset \<Rightarrow> offset # slice_table bytes entry_size wide (Suc index) n
         | None \<Rightarrow> [])"

definition fat_slice_offsets :: "byte list \<Rightarrow> (64 word list) option" where
  "fat_slice_offsets bytes =
     (case read_u32_be bytes 0 of
        None \<Rightarrow> None
      | Some magic \<Rightarrow>
          if magic \<noteq> FAT_MAGIC \<and> magic \<noteq> FAT_MAGIC_64 then None
          else let wide = (magic = FAT_MAGIC_64); entry_size = (if wide then 32 else 20)
               in case read_u32_be bytes 4 of
                    None \<Rightarrow> None
                  | Some n \<Rightarrow> Some (slice_table bytes entry_size wide 0 (min (unat n) MAX_FAT_SLICES)))"

definition scan_image :: "byte list \<Rightarrow> macos_floor" where
  "scan_image bytes =
     (case fat_slice_offsets bytes of
        None \<Rightarrow> scan_thin bytes
      | Some offsets \<Rightarrow>
          foldl (\<lambda>f offset. if unat offset < length bytes then absorb f (scan_thin (drop (unat offset) bytes)) else f)
            no_floor offsets)"

section \<open>Files\<close>

text \<open>
  A file that could be opened: its bytes, which seeks succeed and which reads, by the offset
  they start at, fail.
\<close>

record macho_file =
  mf_bytes :: "byte list"
  mf_seek_ok :: "64 word \<Rightarrow> bool"
  mf_read_error :: "64 word \<Rightarrow> string option"

definition read_window :: "macho_file \<Rightarrow> 64 word \<Rightarrow> string + byte list" where
  "read_window f offset =
     (case mf_read_error f offset of
        Some e \<Rightarrow> Inl e
      | None \<Rightarrow> Inr (take MAX_LOAD_COMMANDS (drop (unat offset) (mf_bytes f))))"

definition scan_slice :: "macho_file \<Rightarrow> macos_floor \<Rightarrow> 64 word \<Rightarrow> string + macos_floor" where
  "scan_slice f floor offset =
     (if \<not> mf_seek_ok f offset then Inr floor
      else and_then (read_window f offset) (\<lambda>slice. Inr (absorb floor (scan_thin slice))))"

definition scan_opened :: "macho_file \<Rightarrow> string + macos_floor" where
  "scan_opened f =
     and_then (read_window f 0) (\<lambda>head.
       case fat_slice_offsets head of
         None \<Rightarrow> Inr (scan_image head)
       | Some offsets \<Rightarrow> try_fold (scan_slice f) no_floor offsets)"

definition macho_scan_file :: "file_meta \<times> (string + macho_file) \<Rightarrow> string + macos_floor" where
  "macho_scan_file = (\<lambda>(meta, opened).
     case meta of
       MetaOther \<Rightarrow> Inr no_floor
     | MetaMissing \<Rightarrow> Inr no_floor
     | MetaError e \<Rightarrow> Inl e
     | MetaFile \<Rightarrow> and_then opened scan_opened)"

definition max_macos_floor :: "(file_meta \<times> (string + macho_file)) list \<Rightarrow> string + macos_floor" where
  "max_macos_floor files =
     try_fold (\<lambda>floor f. and_then (macho_scan_file f) (\<lambda>other. Inr (absorb floor other))) no_floor files"

section \<open>Floors\<close>

lemma max_option_None [simp]: "max_option None b = b"
  by (cases b) simp_all

lemma absorb_no_floor [simp]: "absorb f no_floor = f"
  by (cases f) (simp add: absorb_def no_floor_def)

lemma max_option_floor:
  "is_floor a S \<Longrightarrow> is_floor b T \<Longrightarrow> is_floor (max_option a b) (S \<union> T)"
  by (cases a; cases b) (auto simp: is_floor_def Max_Un split: if_splits)

lemma is_floor_option: "is_floor v (set_option v)"
  by (cases v) (simp_all add: is_floor_def)

text \<open>A floor over what was seen: both fields are the highest of the versions claimed.\<close>

definition floor_over :: "macos_floor \<Rightarrow> macos_version set \<Rightarrow> macos_version set \<Rightarrow> bool" where
  "floor_over f targets sdks \<longleftrightarrow> is_floor (deployment_target f) targets \<and> is_floor (floor_sdk f) sdks"

lemma floor_over_absorb:
  "floor_over f S T \<Longrightarrow> floor_over g S' T' \<Longrightarrow> floor_over (absorb f g) (S \<union> S') (T \<union> T')"
  by (simp add: floor_over_def absorb_def max_option_floor)

lemma floor_over_none [simp]: "floor_over no_floor {} {}"
  by (simp add: floor_over_def no_floor_def is_floor_def)

section \<open>Load commands\<close>

text \<open>The load commands of an image, in the layout of the Mach-O format.\<close>

datatype load_command =
    BuildVersion (platform: "32 word") (minos: "32 word") (built_sdk: "32 word")
  | VersionMin (minos: "32 word") (built_sdk: "32 word")
  | OtherCommand (tag: "32 word") (payload: "byte list")

fun encode_command :: "load_command \<Rightarrow> byte list" where
  "encode_command (BuildVersion p m s) =
     u32_le LC_BUILD_VERSION @ u32_le 24 @ u32_le p @ u32_le m @ u32_le s @ u32_le 0"
| "encode_command (VersionMin m s) = u32_le LC_VERSION_MIN_MACOSX @ u32_le 16 @ u32_le m @ u32_le s"
| "encode_command (OtherCommand t bs) = u32_le t @ u32_le (word_of_nat (8 + length bs)) @ bs"

fun command_ok :: "load_command \<Rightarrow> bool" where
  "command_ok (OtherCommand t bs) =
     (t \<noteq> LC_BUILD_VERSION \<and> t \<noteq> LC_VERSION_MIN_MACOSX \<and> length bs + 8 < 2 ^ 32)"
| "command_ok _ = True"

definition macho_image :: "byte list \<Rightarrow> byte list \<Rightarrow> load_command list \<Rightarrow> byte list" where
  "macho_image cpu flags cmds =
     u32_le MACHO_MAGIC_64 @ cpu @ u32_le (word_of_nat (length cmds)) @ flags @ concat (map encode_command cmds)"

definition image_ok :: "byte list \<Rightarrow> byte list \<Rightarrow> load_command list \<Rightarrow> bool" where
  "image_ok cpu flags cmds \<longleftrightarrow> length cpu = 12 \<and> length flags = 12 \<and> length cmds < 2 ^ 32 \<and> list_all command_ok cmds"

text \<open>What a command claims of the hosts that can load the image.\<close>

fun claims_macos :: "load_command \<Rightarrow> bool" where
  "claims_macos (BuildVersion p _ _) = (p = PLATFORM_MACOS)"
| "claims_macos (VersionMin _ _) = True"
| "claims_macos (OtherCommand _ _) = False"

definition claimed :: "(load_command \<Rightarrow> 32 word) \<Rightarrow> load_command list \<Rightarrow> macos_version set" where
  "claimed field cmds = {v. \<exists>c \<in> set cmds. claims_macos c \<and> from_packed (field c) = Some v}"

lemma claimed_simps [simp]:
  "claimed field [] = {}"
  "claimed field (c # cmds) = (if claims_macos c then set_option (from_packed (field c)) else {}) \<union> claimed field cmds"
  by (auto simp: claimed_def)

lemma unat_below32: "unat (w :: 32 word) < 4294967296"
  by (rule order_less_le_trans [OF unsigned_less]) simp

lemma read_at: "length xs = offset \<Longrightarrow> read_u32_le (xs @ u32_le w @ ys) offset = Some w"
proof -
  have "unat w mod 4294967296 = unat w" using unat_below32 [of w] by (rule mod_less)
  then show "length xs = offset \<Longrightarrow> ?thesis" by (auto simp: read_u32_le_def get_range_def from_le_bytes)
qed

lemma packed_read: "length xs = offset \<Longrightarrow> packed_at (xs @ u32_le w @ ys) offset = from_packed w"
  by (simp add: packed_at_def read_at)

lemma word_of_nat_unat: "n < 2 ^ 32 \<Longrightarrow> unat (word_of_nat n :: 32 word) = n"
  by (simp add: unsigned_of_nat take_bit_nat_eq_self)

text \<open>One step of the walk over the commands.\<close>

definition claim :: "load_command \<Rightarrow> macos_floor" where
  "claim c = (if claims_macos c
     then \<lparr> deployment_target = from_packed (minos c), floor_sdk = from_packed (built_sdk c) \<rparr> else no_floor)"

lemma scan_step:
  assumes "command_ok c" "bytes = pre @ encode_command c @ post"
  shows "scan_commands bytes (Suc n) (length pre) f =
    scan_commands bytes n (length (pre @ encode_command c)) (absorb f (claim c))"
proof (cases c)
  case (BuildVersion p m s)
  let ?pre = "pre @ u32_le LC_BUILD_VERSION"
  have bytes: "bytes = pre @ u32_le LC_BUILD_VERSION @ u32_le 24 @ u32_le p @ u32_le m @ u32_le s @ u32_le 0 @ post"
    using assms(2) BuildVersion by simp
  have reads: "read_u32_le bytes (length pre) = Some LC_BUILD_VERSION"
      "read_u32_le bytes (length pre + 4) = Some 24"
      "read_u32_le bytes (length pre + 8) = Some p"
      "packed_at bytes (length pre + 12) = from_packed m"
      "packed_at bytes (length pre + 16) = from_packed s"
    unfolding bytes
    using read_at [of pre "length pre" LC_BUILD_VERSION]
      read_at [of ?pre "length pre + 4" 24]
      read_at [of "?pre @ u32_le 24" "length pre + 8" p]
      packed_read [of "?pre @ u32_le 24 @ u32_le p" "length pre + 12" m]
      packed_read [of "?pre @ u32_le 24 @ u32_le p @ u32_le m" "length pre + 16" s]
    by simp_all
  have len: "length bytes = length pre + 24 + length post" "length (encode_command c) = 24"
    using bytes BuildVersion by simp_all
  show ?thesis
    using reads len by (auto simp: command_floor_def claim_def BuildVersion)
next
  case (VersionMin m s)
  let ?pre = "pre @ u32_le LC_VERSION_MIN_MACOSX"
  have bytes: "bytes = pre @ u32_le LC_VERSION_MIN_MACOSX @ u32_le 16 @ u32_le m @ u32_le s @ post"
    using assms(2) VersionMin by simp
  have reads: "read_u32_le bytes (length pre) = Some LC_VERSION_MIN_MACOSX"
      "read_u32_le bytes (length pre + 4) = Some 16"
      "packed_at bytes (length pre + 8) = from_packed m"
      "packed_at bytes (length pre + 12) = from_packed s"
    unfolding bytes
    using read_at [of pre "length pre" LC_VERSION_MIN_MACOSX]
      read_at [of ?pre "length pre + 4" 16]
      packed_read [of "?pre @ u32_le 16" "length pre + 8" m]
      packed_read [of "?pre @ u32_le 16 @ u32_le m" "length pre + 12" s]
    by simp_all
  have len: "length bytes = length pre + 16 + length post" "length (encode_command c) = 16"
    using bytes VersionMin by simp_all
  show ?thesis
    using reads len by (auto simp: command_floor_def claim_def VersionMin LC_VERSION_MIN_MACOSX_def LC_BUILD_VERSION_def)
next
  case (OtherCommand t bs)
  have bytes: "bytes = pre @ u32_le t @ u32_le (word_of_nat (8 + length bs)) @ bs @ post"
    using assms(2) OtherCommand by simp
  have ok: "t \<noteq> LC_BUILD_VERSION" "t \<noteq> LC_VERSION_MIN_MACOSX" "length bs + 8 < 2 ^ 32"
    using assms(1) OtherCommand by simp_all
  have reads: "read_u32_le bytes (length pre) = Some t"
      "read_u32_le bytes (length pre + 4) = Some (word_of_nat (8 + length bs))"
    unfolding bytes
    using read_at [of pre "length pre" t] read_at [of "pre @ u32_le t" "length pre + 4" "word_of_nat (8 + length bs)"]
    by simp_all
  have cmdsize: "unat (word_of_nat (8 + length bs) :: 32 word) = 8 + length bs"
    using ok(3) by (intro word_of_nat_unat) simp
  have len: "length bytes = length pre + (8 + length bs) + length post" "length (encode_command c) = 8 + length bs"
    using bytes OtherCommand by simp_all
  show ?thesis
    using reads len ok(1,2) cmdsize by (simp add: command_floor_def claim_def OtherCommand del: of_nat_add)
qed

lemma scan_commands_claims:
  "list_all command_ok cmds \<Longrightarrow> bytes = pre @ concat (map encode_command cmds) @ post \<Longrightarrow>
   scan_commands bytes (length cmds) (length pre) f = foldl absorb f (map claim cmds)"
proof (induction cmds arbitrary: pre f)
  case (Cons c cmds)
  have "scan_commands bytes (length (c # cmds)) (length pre) f =
      scan_commands bytes (length cmds) (length (pre @ encode_command c)) (absorb f (claim c))"
    unfolding length_Cons using Cons.prems by (intro scan_step) simp_all
  also have "\<dots> = foldl absorb (absorb f (claim c)) (map claim cmds)"
    using Cons.prems by (intro Cons.IH) simp_all
  finally show ?case by simp
qed simp

lemma claims_floor:
  "floor_over f S T \<Longrightarrow> floor_over (foldl absorb f (map claim cmds)) (S \<union> claimed minos cmds) (T \<union> claimed built_sdk cmds)"
proof (induction cmds arbitrary: f S T)
  case (Cons c cmds)
  have "floor_over (claim c) (if claims_macos c then set_option (from_packed (minos c)) else {})
      (if claims_macos c then set_option (from_packed (built_sdk c)) else {})"
    by (simp add: claim_def floor_over_def is_floor_option) (simp add: is_floor_def no_floor_def)
  from Cons.IH [OF floor_over_absorb [OF Cons.prems this]]
  show ?case by (simp add: Un_assoc)
qed simp

lemma scan_thin_floor:
  assumes "image_ok cpu flags cmds" "bytes = macho_image cpu flags cmds @ post"
  shows "floor_over (scan_thin bytes) (claimed minos cmds) (claimed built_sdk cmds)"
proof -
  let ?n = "word_of_nat (length cmds) :: 32 word" and ?head = "u32_le MACHO_MAGIC_64 @ cpu"
  have ok: "length cpu = 12" "length flags = 12" "length cmds < 2 ^ 32" "list_all command_ok cmds"
    using assms(1) by (simp_all add: image_ok_def)
  have bytes: "bytes = u32_le MACHO_MAGIC_64 @ cpu @ u32_le ?n @ flags @ concat (map encode_command cmds) @ post"
    using assms(2) by (simp add: macho_image_def)
  have "read_u32_le bytes 0 = Some MACHO_MAGIC_64" "read_u32_le bytes 16 = Some ?n"
    unfolding bytes using read_at [of "[]" 0 MACHO_MAGIC_64] read_at [of ?head 16 ?n] ok(1) by simp_all
  then have "scan_thin bytes = scan_commands bytes (length cmds) 32 no_floor"
    using word_of_nat_unat [OF ok(3)] by (simp add: scan_thin_def)
  also have "\<dots> = foldl absorb no_floor (map claim cmds)"
    using scan_commands_claims [OF ok(4), of bytes "?head @ u32_le ?n @ flags" post no_floor] ok(1,2) bytes by simp
  finally show ?thesis using claims_floor [OF floor_over_none, of cmds] by simp
qed

section \<open>The floor of a file\<close>

text \<open>Where the images of a file start: the slices of a universal binary, or the file itself.\<close>

definition image_offsets :: "byte list \<Rightarrow> 64 word list" where
  "image_offsets bytes =
     (case fat_slice_offsets (take MAX_LOAD_COMMANDS bytes) of None \<Rightarrow> [0] | Some offsets \<Rightarrow> offsets)"

text \<open>\<open>image_at bytes offset cmds\<close>: an image with these commands, all within the window that is read.\<close>

definition image_at :: "byte list \<Rightarrow> 64 word \<Rightarrow> load_command list \<Rightarrow> bool" where
  "image_at bytes offset cmds \<longleftrightarrow>
     (\<exists>cpu flags post. image_ok cpu flags cmds \<and> drop (unat offset) bytes = macho_image cpu flags cmds @ post
        \<and> length (macho_image cpu flags cmds) \<le> MAX_LOAD_COMMANDS)"

lemma image_at_floor:
  assumes "image_at bytes offset cmds"
  shows "floor_over (scan_thin (take MAX_LOAD_COMMANDS (drop (unat offset) bytes))) (claimed minos cmds) (claimed built_sdk cmds)"
proof -
  obtain cpu flags post where image: "image_ok cpu flags cmds" "drop (unat offset) bytes = macho_image cpu flags cmds @ post"
      "length (macho_image cpu flags cmds) \<le> MAX_LOAD_COMMANDS"
    using assms unfolding image_at_def by blast
  then show ?thesis by (intro scan_thin_floor [OF image(1)]) simp
qed

lemma slices_floor:
  assumes "\<forall>offset. mf_seek_ok f offset \<and> mf_read_error f offset = None"
    and "\<forall>offset \<in> set offsets. image_at (mf_bytes f) offset (cmds offset)" "floor_over g S T"
  shows "\<exists>floor. try_fold (scan_slice f) g offsets = Inr floor
    \<and> floor_over floor (S \<union> (\<Union>offset \<in> set offsets. claimed minos (cmds offset)))
        (T \<union> (\<Union>offset \<in> set offsets. claimed built_sdk (cmds offset)))"
  using assms(2,3)
proof (induction offsets arbitrary: g S T)
  case (Cons offset offsets)
  let ?slice = "scan_thin (take MAX_LOAD_COMMANDS (drop (unat offset) (mf_bytes f)))"
  have step: "scan_slice f g offset = Inr (absorb g ?slice)"
    using assms(1) by (simp add: scan_slice_def read_window_def and_then_def)
  have "floor_over (absorb g ?slice) (S \<union> claimed minos (cmds offset)) (T \<union> claimed built_sdk (cmds offset))"
    using Cons.prems image_at_floor by (intro floor_over_absorb) simp_all
  from Cons.IH [OF _ this] Cons.prems(1)
  show ?case by (simp add: step Un_assoc and_then_def)
qed simp

text \<open>
  The macOS floor of a file is measured over all its images: for a single image and for
  every slice of a universal binary, also one that starts past the window read first, the
  deployment target is the highest minimum OS of the load commands that claim one for macOS,
  and the SDK the highest SDK.
\<close>

lemma macho_floor_covers_slices:
  assumes "\<forall>offset. mf_seek_ok f offset \<and> mf_read_error f offset = None"
    and "\<forall>offset \<in> set (image_offsets (mf_bytes f)). image_at (mf_bytes f) offset (cmds offset)"
  defines "images \<equiv> set (image_offsets (mf_bytes f))"
  shows "\<exists>floor. macho_scan_file (MetaFile, Inr f) = Inr floor
     \<and> is_floor (deployment_target floor) (\<Union>offset \<in> images. claimed minos (cmds offset))
     \<and> is_floor (floor_sdk floor) (\<Union>offset \<in> images. claimed built_sdk (cmds offset))"
proof (cases "fat_slice_offsets (take MAX_LOAD_COMMANDS (mf_bytes f))")
  case None
  then have "macho_scan_file (MetaFile, Inr f) = Inr (scan_thin (take MAX_LOAD_COMMANDS (mf_bytes f)))"
    using assms(1) by (simp add: macho_scan_file_def scan_opened_def read_window_def and_then_def scan_image_def)
  moreover have "image_at (mf_bytes f) 0 (cmds 0)" "images = {0}"
    using assms(2) None by (simp_all add: image_offsets_def images_def)
  ultimately show ?thesis using image_at_floor [of "mf_bytes f" 0 "cmds 0"] by (simp add: floor_over_def)
next
  case (Some offsets)
  then have "macho_scan_file (MetaFile, Inr f) = try_fold (scan_slice f) no_floor offsets" "images = set offsets"
    using assms(1)
    by (simp_all add: macho_scan_file_def scan_opened_def read_window_def and_then_def image_offsets_def images_def)
  moreover have "\<forall>offset \<in> set offsets. image_at (mf_bytes f) offset (cmds offset)"
    using assms(2) Some by (simp add: image_offsets_def)
  ultimately show ?thesis
    using slices_floor [OF assms(1) _ floor_over_none, of offsets cmds] by (simp add: floor_over_def)
qed

section \<open>Bounds\<close>

definition version_bounded :: "macos_version \<Rightarrow> bool" where
  "version_bounded v \<longleftrightarrow> 0 < unat (mac_major v) \<and> unat (mac_major v) < 2 ^ 16 \<and> unat (mac_minor v) < 2 ^ 8"

definition floor_bounded :: "macos_floor \<Rightarrow> bool" where
  "floor_bounded f \<longleftrightarrow> pred_option version_bounded (deployment_target f) \<and> pred_option version_bounded (floor_sdk f)"

lemma from_packed_bounded: "from_packed w = Some v \<Longrightarrow> version_bounded v"
proof -
  assume v: "from_packed w = Some v"
  have "unat (drop_bit 16 w) < 2 ^ 16"
    using unat_below32 [of w] unfolding unsigned_drop_bit_eq
    by (simp add: drop_bit_eq_div take_bit_nat_eq_self less_mult_imp_div_less)
  moreover have "unat (drop_bit 8 w AND 0xFF) < 2 ^ 8"
  proof -
    have "drop_bit 8 w AND 0xFF = take_bit 8 (drop_bit 8 w)" by (simp add: take_bit_eq_mask mask_eq_exp_minus_1)
    then have "unat (drop_bit 8 w AND 0xFF) = unat (drop_bit 8 w) mod 2 ^ 8"
      by (simp only: unsigned_take_bit_eq) (simp only: take_bit_eq_mod)
    then show ?thesis by simp
  qed
  ultimately show ?thesis
    using v by (auto simp: from_packed_def Let_def version_bounded_def word_less_nat_alt split: if_splits)
qed

lemma packed_bounded: "pred_option version_bounded (packed_at bytes offset)"
  using from_packed_bounded by (auto simp: packed_at_def pred_option_def bind_eq_Some_conv)

lemma absorb_bounded: "floor_bounded f \<Longrightarrow> floor_bounded g \<Longrightarrow> floor_bounded (absorb f g)"
proof -
  have "pred_option version_bounded a \<Longrightarrow> pred_option version_bounded b \<Longrightarrow> pred_option version_bounded (max_option a b)" for a b
    by (cases a; cases b) (auto simp: max_def)
  then show "floor_bounded f \<Longrightarrow> floor_bounded g \<Longrightarrow> floor_bounded (absorb f g)"
    by (simp add: floor_bounded_def absorb_def)
qed

lemma no_floor_bounded [simp]: "floor_bounded no_floor"
  by (simp add: floor_bounded_def no_floor_def)

lemma scan_commands_bounded: "floor_bounded f \<Longrightarrow> floor_bounded (scan_commands bytes n offset f)"
proof (induction bytes n offset f rule: scan_commands.induct)
  case (2 bytes n offset f)
  have "floor_bounded (command_floor bytes offset cmd f)" for cmd
    using 2 by (simp add: command_floor_def) (simp add: floor_bounded_def absorb_bounded [unfolded floor_bounded_def] packed_bounded)
  then show ?case using 2 by (auto split: option.splits)
qed simp

lemma scan_thin_bounded: "floor_bounded (scan_thin bytes)"
  by (simp add: scan_thin_def scan_commands_bounded split: option.split)

lemma scan_slice_bounded: "floor_bounded g \<Longrightarrow> scan_slice f g offset = Inr g' \<Longrightarrow> floor_bounded g'"
  by (auto simp: scan_slice_def and_then_def absorb_bounded scan_thin_bounded split: if_splits sum.splits)

lemma scan_image_bounded: "floor_bounded (scan_image bytes)"
proof -
  have "floor_bounded f \<Longrightarrow> floor_bounded (foldl (\<lambda>f offset. if unat offset < length bytes
      then absorb f (scan_thin (drop (unat offset) bytes)) else f) f offsets)" for f and offsets :: "64 word list"
    by (induction offsets arbitrary: f) (simp_all add: absorb_bounded scan_thin_bounded)
  then show ?thesis by (simp add: scan_image_def scan_thin_bounded split: option.split)
qed

lemma macho_scan_bounded:
  assumes "macho_scan_file (meta, opened) = Inr f"
  shows "floor_bounded f"
proof (cases meta)
  case MetaFile
  then obtain g where "scan_opened g = Inr f"
    using assms by (auto simp: macho_scan_file_def and_then_def split: sum.splits)
  then show ?thesis
    using scan_image_bounded try_fold_invariant [where I = floor_bounded, OF _ no_floor_bounded scan_slice_bounded]
    by (fastforce simp: scan_opened_def and_then_def split: sum.splits option.splits)
qed (use assms in \<open>auto simp: macho_scan_file_def\<close>)


section \<open>A sample\<close>

definition sample_commands :: "load_command list" where
  "sample_commands = [OtherCommand 0x19 [], BuildVersion PLATFORM_MACOS 0x000E0500 0x000F0200]"

definition sample_macho :: macho_file where
  "sample_macho = \<lparr> mf_bytes = macho_image (replicate 12 0) (replicate 12 0) sample_commands,
     mf_seek_ok = (\<lambda>_. True), mf_read_error = (\<lambda>_. None) \<rparr>"

lemma sample_macho_answers: "mf_seek_ok sample_macho offset" "mf_read_error sample_macho offset = None"
  by (simp_all add: sample_macho_def)

lemma sample_macho_small: "take MAX_LOAD_COMMANDS (mf_bytes sample_macho) = mf_bytes sample_macho"
proof -
  have "length (mf_bytes sample_macho) \<le> 100" by code_simp
  then show ?thesis by (simp add: MAX_LOAD_COMMANDS_def)
qed

lemma sample_macho_thin: "image_offsets (mf_bytes sample_macho) = [0]"
proof -
  have "fat_slice_offsets (mf_bytes sample_macho) = None" by code_simp
  then show ?thesis by (simp add: image_offsets_def sample_macho_small)
qed

lemma sample_macho_image: "image_at (mf_bytes sample_macho) 0 sample_commands"
proof -
  have "length (macho_image (replicate 12 0) (replicate 12 0) sample_commands) \<le> 100" by code_simp
  then show ?thesis
    unfolding image_at_def
    by (intro exI [of _ "replicate 12 0"] exI [of _ "[]"])
      (simp add: image_ok_def sample_commands_def sample_macho_def MAX_LOAD_COMMANDS_def LC_BUILD_VERSION_def LC_VERSION_MIN_MACOSX_def)
qed

lemma macho_floor_covers_slices_witness:
  "\<exists>floor. macho_scan_file (MetaFile, Inr sample_macho) = Inr floor
     \<and> is_floor (deployment_target floor) (claimed minos sample_commands)"
  using macho_floor_covers_slices [of sample_macho "\<lambda>_. sample_commands"] sample_macho_image
  by (auto simp: sample_macho_thin sample_macho_answers)


end
