(* ===== verification/Platforms.thy ===== *)
theory Platforms
  imports Compatibility Catalogs
begin

text \<open>
  The platform catalog (ost-platform): the checks a platform manifest passes when it is loaded
  (loader.rs), the resolution of an approved OpenUSD cell (model.rs), the requirement selector
  and the build plan of a cell (openusd.rs), and the difference of two platforms (diff.rs).
\<close>

section \<open>Loading\<close>

definition require_core :: "platform \<Rightarrow> string \<Rightarrow> unit res" where
  "require_core p reference =
     (if platform_component p reference = None
      then Inl (InvalidManifest (''platform '' @ quoted (platform_id p) @
             '' OpenUSD cell references missing core component '' @ quoted reference))
      else Inr ())"

definition cell_references :: "openusd_cell \<Rightarrow> string list" where
  "cell_references c =
     [ot_version_from (cell_toolchain c), ot_cxx_standard_from (cell_toolchain c),
      op_version_from (ot_runtime (cell_toolchain c)), op_version_from (cell_python c),
      op_version_from (cell_tbb c)]"

definition macos_references :: "openusd_macos \<Rightarrow> string list" where
  "macos_references m = [op_version_from (om_sdk m), om_deployment_target_from m]"

definition variant_step ::
  "platform \<Rightarrow> nat \<Rightarrow> openusd_cell \<Rightarrow> string btree_set \<Rightarrow> openusd_variant \<Rightarrow> (string btree_set) res"
where
  "variant_step p schema cell seen v =
     (let name = variant_as_str (ov_id v)
      in if name \<in> set seen
         then Inl (InvalidManifest (''platform '' @ quoted (platform_id p) @ '' OpenUSD cell '' @
                os_as_str (cell_os cell) @ ''-'' @ arch_as_str (cell_arch cell) @
                '' repeats variant '' @ quoted name))
         else if ov_builders v = []
         then Inl (InvalidManifest (''platform '' @ quoted (platform_id p) @ '' OpenUSD variant '' @
                quoted name @ '' declares no supported builder''))
         else if 2 \<le> schema \<and> \<not> variant_is_canonical (ov_id v)
         then Inl (InvalidManifest (''platform '' @ quoted (platform_id p) @ '' OpenUSD schema '' @
                to_decimal schema @ '' cannot declare legacy variant '' @ quoted name))
         else Inr (bs_insert name seen))"

definition cell_key :: "openusd_cell \<Rightarrow> string \<times> string" where
  "cell_key cell = (os_as_str (cell_os cell), arch_as_str (cell_arch cell))"

definition check_cell :: "platform \<Rightarrow> nat \<Rightarrow> openusd_cell \<Rightarrow> unit res" where
  "check_cell p schema cell =
     and_then (for_each (require_core p) (cell_references cell)) (\<lambda>_.
     and_then (case cell_macos cell of
                 None \<Rightarrow> Inr ()
               | Some m \<Rightarrow> for_each (require_core p) (macos_references m)) (\<lambda>_.
       if (cell_os cell = Macos) \<noteq> (cell_macos cell \<noteq> None)
       then Inl (InvalidManifest (''platform '' @ quoted (platform_id p) @ '' OpenUSD cell '' @
              os_as_str (cell_os cell) @ ''-'' @ arch_as_str (cell_arch cell) @
              '' must declare macos ABI facts only for macOS''))
       else and_then (try_fold (variant_step p schema cell) [] (cell_variants cell))
              (\<lambda>_. Inr ())))"

definition cell_step ::
  "platform \<Rightarrow> nat \<Rightarrow> (string \<times> string) btree_set \<Rightarrow> openusd_cell \<Rightarrow> ((string \<times> string) btree_set) res"
where
  "cell_step p schema seen cell =
     (if cell_key cell \<in> set seen
      then Inl (InvalidManifest (''platform '' @ quoted (platform_id p) @
             '' has duplicate OpenUSD cell '' @ os_as_str (cell_os cell) @ ''-'' @
             arch_as_str (cell_arch cell)))
      else and_then (check_cell p schema cell) (\<lambda>_. Inr (bs_insert (cell_key cell) seen)))"

definition validate_openusd :: "platform \<Rightarrow> unit res" where
  "validate_openusd p =
     (case platform_openusd p of
        None \<Rightarrow> Inr ()
      | Some policy \<Rightarrow>
          if \<not> (usd_policy_schema policy = 1 \<or> usd_policy_schema policy = 2)
          then Inl (InvalidManifest (''platform '' @ quoted (platform_id p) @
                 '' has unsupported openusd schema '' @ to_decimal (usd_policy_schema policy) @
                 '' (expected 1 or 2)''))
          else and_then (try_fold (cell_step p (usd_policy_schema policy)) [] (usd_policy_cells policy))
                 (\<lambda>_. Inr ()))"

text \<open>\<open>read\<close> is the YAML reader, \<open>builtins\<close> the documents compiled in, \<open>dir\<close> the user's directory.\<close>

definition parse_platform :: "(string \<Rightarrow> string + platform) \<Rightarrow> string \<Rightarrow> string \<Rightarrow> platform res" where
  "parse_platform read label src =
     (case read src of
        Inl e \<Rightarrow> Inl (Parse (''platform '' @ quoted label) e)
      | Inr p \<Rightarrow> and_then (validate_openusd p) (\<lambda>_. Inr p))"

definition platform_catalog ::
  "(string \<Rightarrow> string + platform) \<Rightarrow> (string \<times> string) list \<Rightarrow> user_dir
     \<Rightarrow> (string, platform) btree_map res"
where
  "platform_catalog read builtins dir = catalog_load platform_id builtins dir (parse_platform read)"

definition catalog_get :: "(string, platform) btree_map \<Rightarrow> string \<Rightarrow> platform res" where
  "catalog_get catalog ident =
     (case bt_get catalog ident of None \<Rightarrow> Inl (PlatformNotFound ident) | Some p \<Rightarrow> Inr p)"

definition load_one ::
  "(string \<Rightarrow> string + platform) \<Rightarrow> (string \<times> string) list \<Rightarrow> user_dir \<Rightarrow> string \<Rightarrow> platform res"
where
  "load_one read builtins dir ident =
     and_then (platform_catalog read builtins dir) (\<lambda>catalog. catalog_get catalog ident)"

section \<open>Cells\<close>

text \<open>\<^verbatim>\<open>core.get(key).cloned().unwrap_or_default()\<close>\<close>

definition core_value :: "platform \<Rightarrow> string \<Rightarrow> string" where
  "core_value p key = (case map_of (platform_core p) key of None \<Rightarrow> [] | Some v \<Rightarrow> v)"

definition resolve_provider :: "platform \<Rightarrow> openusd_provider \<Rightarrow> resolved_usd_provider" where
  "resolve_provider p source =
     \<lparr> rp_family = op_family source, rp_provider = op_provider source, rp_version = None,
       rp_constraint = core_value p (op_version_from source) \<rparr>"

definition resolve_toolchain :: "platform \<Rightarrow> openusd_toolchain \<Rightarrow> resolved_toolchain" where
  "resolve_toolchain p t =
     (let runtime = resolve_provider p (ot_runtime t)
      in \<lparr> rt_family = ot_family t, rt_provider = ot_provider t, rt_version = None,
           rt_constraint = core_value p (ot_version_from t),
           rt_cxx_standard = core_value p (ot_cxx_standard_from t),
           rt_runtime = runtime\<lparr>rp_constraint := runtime_floor_constraint (rp_constraint runtime)\<rparr> \<rparr>)"

definition resolve_cell :: "platform \<Rightarrow> nat \<Rightarrow> openusd_cell \<Rightarrow> openusd_variant \<Rightarrow> compatibility" where
  "resolve_cell p schema cell variant =
     \<lparr> compat_schema = schema, compat_platform = platform_id p, compat_profile = Some ''usd'',
       compat_os = cell_os cell, compat_arch = cell_arch cell,
       compat_toolchain = resolve_toolchain p (cell_toolchain cell),
       compat_python = resolve_provider p (cell_python cell),
       compat_tbb = resolve_provider p (cell_tbb cell),
       compat_variant = ov_id variant, compat_capabilities = ov_capabilities variant,
       compat_producer_version = None, compat_consumer_constraint = Some ''>=26.05,<26.09'',
       compat_macos = map_option (\<lambda>m. \<lparr> rm_sdk = resolve_provider p (om_sdk m),
         rm_deployment_target = core_value p (om_deployment_target_from m) \<rparr>) (cell_macos cell) \<rparr>"

definition resolve_openusd ::
  "platform \<Rightarrow> os \<Rightarrow> arch \<Rightarrow> variant_id \<Rightarrow> (compatibility \<times> openusd_variant) option"
where
  "resolve_openusd p os arch vid =
     (case platform_openusd p of
        None \<Rightarrow> None
      | Some policy \<Rightarrow>
          (case find (\<lambda>c. cell_os c = os \<and> cell_arch c = arch) (usd_policy_cells policy) of
             None \<Rightarrow> None
           | Some cell \<Rightarrow>
               (case find (\<lambda>v. ov_id v = vid) (cell_variants cell) of
                  None \<Rightarrow> None
                | Some variant \<Rightarrow>
                    Some (resolve_cell p (usd_policy_schema policy) cell variant, variant))))"

section \<open>Requirements\<close>

definition requirement_os :: "string \<Rightarrow> os res" where
  "requirement_os s =
     (if s = ''linux'' then Inr Linux
      else if s = ''macos'' then Inr Macos
      else if s = ''windows'' then Inr Windows
      else Inl (usage (''unknown OpenUSD requirement OS '' @ quoted s @
             '' (expected linux, macos, or windows)'')))"

definition requirement_arch :: "string \<Rightarrow> arch res" where
  "requirement_arch s =
     (if s = ''x86_64'' then Inr X86_64
      else if s = ''arm64'' then Inr Arm64
      else Inl (usage (''unknown OpenUSD requirement architecture '' @ quoted s @
             '' (expected x86_64 or arm64)'')))"

definition requirement_variant :: "string \<Rightarrow> variant_id res" where
  "requirement_variant s =
     (if s = ''core'' \<or> s = ''headless'' then Inr Core
      else if s = ''gl'' \<or> s = ''standard'' then Inr Gl
      else if s = ''vulkan'' then Inr Vulkan
      else if s = ''metal'' then Inr Metal
      else Inl (usage (''unknown OpenUSD requirement variant '' @ quoted s @
             '' (expected core, gl, vulkan, or metal)'')))"

text \<open>\<open>load\<close> is \<^const>\<open>load_one\<close> on the store of the process.\<close>

definition resolve_openusd_requirement ::
  "(string \<Rightarrow> platform res) \<Rightarrow> string \<Rightarrow> compatibility res"
where
  "resolve_openusd_requirement load value =
     (let parts = split_char (CHR ''/'') value
      in if length parts \<noteq> 4 \<or> list_ex (\<lambda>part. part = []) parts
         then Inl (usage (''invalid OpenUSD requirement '' @ quoted value @
                '' (expected PLATFORM/OS/ARCH/VARIANT, for example cy2026/linux/x86_64/vulkan)''))
         else and_then (requirement_os (parts ! 1)) (\<lambda>os.
              and_then (requirement_arch (parts ! 2)) (\<lambda>arch.
              and_then (requirement_variant (parts ! 3)) (\<lambda>variant.
              and_then (load (parts ! 0)) (\<lambda>p.
                case resolve_openusd p os arch variant of
                  Some (compatibility, _) \<Rightarrow> Inr compatibility
                | None \<Rightarrow> Inl (with_hint ''choose a cell declared in the platform manifest's openusd matrix''
                    (usage (''platform '' @ quoted (platform_id p) @ '' declares no approved OpenUSD '' @
                      os_as_str os @ ''/'' @ arch_as_str arch @ '' '' @ quoted (variant_as_str variant) @
                      '' cell''))))))))"

section \<open>Build plans\<close>

datatype plan_error =
    UnsupportedVersion string
  | UnnormalizedVariant string
  | UnsupportedPlatform string string

definition CANONICAL_OPENUSD_VERSIONS :: "string list" where
  "CANONICAL_OPENUSD_VERSIONS = [''26.05'', ''26.08'']"

fun variant_supported :: "os \<Rightarrow> variant_id \<Rightarrow> bool" where
  "variant_supported Macos v = (v \<noteq> Vulkan \<and> v \<noteq> Gl)"
| "variant_supported _ v = (v \<noteq> Metal)"

definition validate_variant_platform :: "variant_id \<Rightarrow> os \<Rightarrow> plan_error + unit" where
  "validate_variant_platform variant os =
     (if variant_supported os variant then Inr ()
      else Inl (UnsupportedPlatform (variant_as_str variant) (os_as_str os)))"

record build_plan =
  plan_source_version :: string
  plan_platform_cell :: string
  plan_profile :: string
  plan_variant :: variant_id
  plan_dependency_providers :: "string list"
  plan_build_arguments :: "string list"
  plan_cmake_cache_entries :: "string list"
  plan_examples_required :: bool

definition on_off :: "bool \<Rightarrow> string" where
  "on_off b = (if b then ''ON'' else ''OFF'')"

text \<open>The arguments of a canonical variant; the legacy ones are \<^verbatim>\<open>unreachable!\<close>.\<close>

fun variant_arguments :: "variant_id \<Rightarrow> (string list) option" where
  "variant_arguments Core = Some [''--no-imaging'', ''--no-examples'']"
| "variant_arguments Headless = None"
| "variant_arguments Standard = None"
| "variant_arguments v = Some [''--imaging'', ''--examples'']"

definition plan_arguments :: "string \<Rightarrow> openusd_builder \<Rightarrow> os \<Rightarrow> string list \<Rightarrow> string list" where
  "plan_arguments source_version builder os arguments =
     (if builder = CmakeBuilder then []
      else arguments
        @ (if source_version = ''26.08'' then [''--python-install-dir=lib/python''] else [])
        @ (if builder = BuildUsd \<and> os = Windows then [''--generator=Ninja''] else []))"

definition plan_cmake_entries :: "variant_id \<Rightarrow> os \<Rightarrow> string list" where
  "plan_cmake_entries variant os =
     [''-DPXR_BUILD_IMAGING='' @ on_off (variant \<noteq> Core),
      ''-DPXR_BUILD_USD_IMAGING='' @ on_off (variant \<noteq> Core),
      ''-DPXR_BUILD_EXAMPLES='' @ on_off (variant \<noteq> Core),
      ''-DPXR_ENABLE_VULKAN_SUPPORT='' @ on_off (variant = Vulkan)]
     @ (if os = Macos then [''-DPXR_ENABLE_METAL_SUPPORT='' @ on_off (variant = Metal)] else [])"

definition plan_providers :: "compatibility \<Rightarrow> string list" where
  "plan_providers c =
     [''python:'' @ rp_provider (compat_python c), ''tbb:'' @ rp_provider (compat_tbb c),
      ''native-runtime:'' @ rp_provider (rt_runtime (compat_toolchain c))]
     @ (case compat_macos c of None \<Rightarrow> [] | Some m \<Rightarrow> [''macos-sdk:'' @ rp_provider (rm_sdk m)])"

text \<open>\<^const>\<open>None\<close> is a panic.\<close>

definition build_plan_new ::
  "string \<Rightarrow> compatibility \<Rightarrow> openusd_builder \<Rightarrow> (plan_error + build_plan) option"
where
  "build_plan_new source_version c builder =
     (if source_version \<notin> set CANONICAL_OPENUSD_VERSIONS
      then Some (Inl (UnsupportedVersion source_version))
      else case variant_canonical (compat_variant c) (compat_capabilities c) of
        None \<Rightarrow> Some (Inl (UnnormalizedVariant (variant_as_str (compat_variant c))))
      | Some variant \<Rightarrow>
          (case validate_variant_platform variant (compat_os c) of
             Inl e \<Rightarrow> Some (Inl e)
           | Inr _ \<Rightarrow>
               (case variant_arguments variant of
                  None \<Rightarrow> None
                | Some arguments \<Rightarrow> Some (Inr
                    \<lparr> plan_source_version = source_version,
                      plan_platform_cell = compat_platform c @ ''-'' @ os_as_str (compat_os c) @ ''-'' @
                        arch_as_str (compat_arch c),
                      plan_profile = (case compat_profile c of None \<Rightarrow> ''usd'' | Some profile \<Rightarrow> profile),
                      plan_variant = variant,
                      plan_dependency_providers = plan_providers c,
                      plan_build_arguments = plan_arguments source_version builder (compat_os c) arguments,
                      plan_cmake_cache_entries = plan_cmake_entries variant (compat_os c),
                      plan_examples_required = (variant \<noteq> Core) \<rparr>))))"

definition canonical_openusd_leaf_tag ::
  "string \<Rightarrow> variant_id \<Rightarrow> os \<Rightarrow> arch \<Rightarrow> plan_error + string"
where
  "canonical_openusd_leaf_tag version variant os arch =
     (if version \<notin> set CANONICAL_OPENUSD_VERSIONS then Inl (UnsupportedVersion version)
      else if \<not> variant_is_canonical variant then Inl (UnnormalizedVariant (variant_as_str variant))
      else and_then (validate_variant_platform variant os) (\<lambda>_.
        Inr (version @ ''-'' @ variant_as_str variant @ ''-'' @ os_as_str os @ ''-'' @ arch_as_str arch)))"

section \<open>Differences\<close>

datatype component_change = Added string | Removed string | Changed string string

record platform_diff =
  diff_from_id :: string
  diff_to_id :: string
  diff_changes :: "(string \<times> component_change) list"

definition diff_is_empty :: "platform_diff \<Rightarrow> bool" where
  "diff_is_empty d \<longleftrightarrow> diff_changes d = []"

fun diff_loop :: "platform \<Rightarrow> platform \<Rightarrow> string list \<Rightarrow> ((string \<times> component_change) list) option" where
  "diff_loop p q [] = Some []"
| "diff_loop p q (name # names) =
     (case (platform_component p name, platform_component q name) of
        (Some a, Some b) \<Rightarrow>
          if a \<noteq> b then map_option (\<lambda>cs. (name, Changed a b) # cs) (diff_loop p q names)
          else diff_loop p q names
      | (None, Some b) \<Rightarrow> map_option (\<lambda>cs. (name, Added b) # cs) (diff_loop p q names)
      | (Some a, None) \<Rightarrow> map_option (\<lambda>cs. (name, Removed a) # cs) (diff_loop p q names)
      | (None, None) \<Rightarrow> None)"

definition component_names :: "platform \<Rightarrow> platform \<Rightarrow> string btree_set" where
  "component_names p q =
     foldl (\<lambda>names key. bs_insert key names)
       (foldl (\<lambda>names key. bs_insert key names) [] (map fst (platform_core p)))
       (map fst (platform_core q))"

definition platform_diff_of :: "platform \<Rightarrow> platform \<Rightarrow> platform_diff option" where
  "platform_diff_of p q =
     map_option (\<lambda>changes. \<lparr> diff_from_id = platform_id p, diff_to_id = platform_id q,
       diff_changes = changes \<rparr>) (diff_loop p q (component_names p q))"

section \<open>Validated platforms\<close>

lemma variant_as_str_inj: "variant_as_str v = variant_as_str w \<longleftrightarrow> v = w"
  by (cases v; cases w) simp_all

definition variant_valid :: "nat \<Rightarrow> openusd_variant \<Rightarrow> bool" where
  "variant_valid schema v \<longleftrightarrow>
     ov_builders v \<noteq> [] \<and> (schema < 2 \<or> variant_is_canonical (ov_id v))"

definition cell_valid :: "platform \<Rightarrow> nat \<Rightarrow> openusd_cell \<Rightarrow> bool" where
  "cell_valid p schema cell \<longleftrightarrow>
     (\<forall>r \<in> set (cell_references cell). platform_component p r \<noteq> None)
     \<and> (case cell_macos cell of
          None \<Rightarrow> cell_os cell \<noteq> Macos
        | Some m \<Rightarrow> cell_os cell = Macos
            \<and> (\<forall>r \<in> set (macos_references m). platform_component p r \<noteq> None))
     \<and> (\<forall>v \<in> set (cell_variants cell). variant_valid schema v)
     \<and> distinct (map ov_id (cell_variants cell))"

interpretation variant_loop: unique_loop "variant_step p schema cell" "variant_valid schema"
    "\<lambda>v. variant_as_str (ov_id v)" for p schema cell
  by unfold_locales (auto simp: variant_step_def variant_valid_def Let_def)

lemma require_core_ok: "require_core p r = Inr () \<longleftrightarrow> platform_component p r \<noteq> None"
  by (simp add: require_core_def)

lemma variants_ok:
  "(\<exists>seen. try_fold (variant_step p schema cell) [] vs = Inr seen) \<longleftrightarrow>
     (\<forall>v \<in> set vs. variant_valid schema v) \<and> distinct (map ov_id vs)"
  unfolding variant_loop.loop_passes by (simp add: distinct_map inj_on_def variant_as_str_inj)

lemma check_cell_ok: "check_cell p schema cell = Inr () \<longleftrightarrow> cell_valid p schema cell"
proof (cases "cell_macos cell")
  case None
  then show ?thesis
    using variants_ok [of p schema cell "cell_variants cell"]
    by (auto simp: check_cell_def cell_valid_def res_simps require_core_ok)
next
  case (Some m)
  then show ?thesis
    using variants_ok [of p schema cell "cell_variants cell"]
    by (auto simp: check_cell_def cell_valid_def res_simps require_core_ok)
qed

interpretation cell_loop: unique_loop "cell_step p schema" "cell_valid p schema" cell_key for p schema
proof unfold_locales
  fix seen seen' cell
  show "cell_step p schema seen cell = Inr seen' \<longleftrightarrow>
      cell_valid p schema cell \<and> cell_key cell \<notin> set seen \<and> seen' = bs_insert (cell_key cell) seen"
    unfolding check_cell_ok [symmetric]
    by (cases "check_cell p schema cell") (auto simp: cell_step_def)
qed

lemma cell_key_eq: "cell_key c = cell_key d \<longleftrightarrow> cell_os c = cell_os d \<and> cell_arch c = cell_arch d"
  by (auto simp: cell_key_def dest: os_as_str_inj arch_as_str_inj)

definition platform_valid :: "platform \<Rightarrow> bool" where
  "platform_valid p =
     (case platform_openusd p of
        None \<Rightarrow> True
      | Some policy \<Rightarrow>
          usd_policy_schema policy \<in> {1, 2}
          \<and> (\<forall>cell \<in> set (usd_policy_cells policy). cell_valid p (usd_policy_schema policy) cell)
          \<and> distinct (map cell_key (usd_policy_cells policy)))"

lemma validate_openusd_ok: "validate_openusd p = Inr () \<longleftrightarrow> platform_valid p"
proof (cases "platform_openusd p")
  case None
  then show ?thesis by (simp add: validate_openusd_def platform_valid_def)
next
  case (Some policy)
  have "(\<exists>seen. try_fold (cell_step p (usd_policy_schema policy)) [] (usd_policy_cells policy) = Inr seen)
      \<longleftrightarrow> (\<forall>cell \<in> set (usd_policy_cells policy). cell_valid p (usd_policy_schema policy) cell)
          \<and> distinct (map cell_key (usd_policy_cells policy))"
    unfolding cell_loop.loop_passes by simp
  with Some show ?thesis
    by (auto simp: validate_openusd_def platform_valid_def res_simps)
qed

lemma find_unique:
  assumes "distinct (map f xs)" and "x \<in> set xs" and "\<And>y. y \<in> set xs \<Longrightarrow> P y \<longleftrightarrow> f y = f x"
  shows "find P xs = Some x"
  using assms
proof (induction xs)
  case (Cons a xs)
  then show ?case by (cases "a = x") (auto simp: rev_image_eqI)
qed simp

text \<open>
  What a resolved identity owes the manifest: each constraint is the value of a declared core
  component, and the native runtime's is made a floor.
\<close>

definition declared :: "platform \<Rightarrow> string \<Rightarrow> bool" where
  "declared p value \<longleftrightarrow> value \<in> ran (platform_component p)"

definition grounded :: "platform \<Rightarrow> compatibility \<Rightarrow> bool" where
  "grounded p c \<longleftrightarrow>
     compat_platform c = platform_id p
     \<and> declared p (rt_constraint (compat_toolchain c))
     \<and> declared p (rt_cxx_standard (compat_toolchain c))
     \<and> rp_constraint (rt_runtime (compat_toolchain c)) \<in> runtime_floor_constraint ` ran (platform_component p)
     \<and> declared p (rp_constraint (compat_python c))
     \<and> declared p (rp_constraint (compat_tbb c))
     \<and> (case compat_macos c of
          None \<Rightarrow> compat_os c \<noteq> Macos
        | Some m \<Rightarrow> compat_os c = Macos \<and> declared p (rp_constraint (rm_sdk m))
            \<and> declared p (rm_deployment_target m))"

lemma core_value_ran: "platform_component p r \<noteq> None \<Longrightarrow> core_value p r \<in> ran (platform_component p)"
  by (auto simp: core_value_def platform_component_def ran_def)

lemma resolve_cell_grounded:
  assumes "cell_valid p schema cell"
  shows "grounded p (resolve_cell p schema cell variant)"
proof -
  have "\<forall>r \<in> set (cell_references cell). core_value p r \<in> ran (platform_component p)"
    using assms core_value_ran by (auto simp: cell_valid_def)
  moreover have "\<forall>m. cell_macos cell = Some m \<longrightarrow>
      (\<forall>r \<in> set (macos_references m). core_value p r \<in> ran (platform_component p))"
    using assms core_value_ran by (auto simp: cell_valid_def)
  moreover have "cell_os cell = Macos \<longleftrightarrow> cell_macos cell \<noteq> None"
    using assms by (auto simp: cell_valid_def split: option.splits)
  ultimately show ?thesis
    by (auto simp: grounded_def resolve_cell_def resolve_toolchain_def resolve_provider_def Let_def
        declared_def cell_references_def macos_references_def split: option.split)
qed

text \<open>
  A loaded platform resolves exactly the cells and variants it declares, wherever they
  stand in the manifest, and every constraint of a resolved identity is the value of a core
  component of the platform: none is left empty by a missing reference.
\<close>

lemma approved_cells_exact:
  assumes "validate_openusd p = Inr ()"
  shows "resolve_openusd p os arch vid = Some (c, variant) \<longleftrightarrow>
     (\<exists>policy cell. platform_openusd p = Some policy \<and> cell \<in> set (usd_policy_cells policy)
        \<and> cell_os cell = os \<and> cell_arch cell = arch
        \<and> variant \<in> set (cell_variants cell) \<and> ov_id variant = vid
        \<and> c = resolve_cell p (usd_policy_schema policy) cell variant \<and> grounded p c)"
proof (cases "platform_openusd p")
  case None
  then show ?thesis by (simp add: resolve_openusd_def)
next
  case (Some policy)
  have valid: "\<forall>cell \<in> set (usd_policy_cells policy). cell_valid p (usd_policy_schema policy) cell"
    and keys: "distinct (map cell_key (usd_policy_cells policy))"
    using assms Some by (auto simp: validate_openusd_ok platform_valid_def)
  have cells: "find (\<lambda>c. cell_os c = os \<and> cell_arch c = arch) (usd_policy_cells policy) = Some cell \<longleftrightarrow>
      cell \<in> set (usd_policy_cells policy) \<and> cell_os cell = os \<and> cell_arch cell = arch" for cell
  proof
    assume "cell \<in> set (usd_policy_cells policy) \<and> cell_os cell = os \<and> cell_arch cell = arch"
    then show "find (\<lambda>c. cell_os c = os \<and> cell_arch c = arch) (usd_policy_cells policy) = Some cell"
      using keys by (intro find_unique [where f = cell_key]) (auto simp: cell_key_eq)
  qed (auto simp: find_Some_iff)
  have variants: "find (\<lambda>v. ov_id v = vid) (cell_variants cell) = Some v \<longleftrightarrow>
      v \<in> set (cell_variants cell) \<and> ov_id v = vid"
    if "cell \<in> set (usd_policy_cells policy)" for cell v
  proof
    assume "v \<in> set (cell_variants cell) \<and> ov_id v = vid"
    moreover have "distinct (map ov_id (cell_variants cell))"
      using valid that by (auto simp: cell_valid_def)
    ultimately show "find (\<lambda>v. ov_id v = vid) (cell_variants cell) = Some v"
      by (intro find_unique [where f = ov_id]) auto
  qed (auto simp: find_Some_iff)
  have "resolve_openusd p os arch vid = Some (c, variant) \<longleftrightarrow>
      (\<exists>cell. find (\<lambda>c. cell_os c = os \<and> cell_arch c = arch) (usd_policy_cells policy) = Some cell
         \<and> find (\<lambda>v. ov_id v = vid) (cell_variants cell) = Some variant
         \<and> c = resolve_cell p (usd_policy_schema policy) cell variant)"
    using Some by (auto simp: resolve_openusd_def split: option.splits)
  also have "\<dots> \<longleftrightarrow> (\<exists>cell. cell \<in> set (usd_policy_cells policy) \<and> cell_os cell = os \<and> cell_arch cell = arch
      \<and> variant \<in> set (cell_variants cell) \<and> ov_id variant = vid
      \<and> c = resolve_cell p (usd_policy_schema policy) cell variant)"
    using cells variants by blast
  also have "\<dots> \<longleftrightarrow> (\<exists>cell. cell \<in> set (usd_policy_cells policy) \<and> cell_os cell = os \<and> cell_arch cell = arch
      \<and> variant \<in> set (cell_variants cell) \<and> ov_id variant = vid
      \<and> c = resolve_cell p (usd_policy_schema policy) cell variant \<and> grounded p c)"
    using valid resolve_cell_grounded by blast
  finally show ?thesis using Some by simp
qed

section \<open>Requirements and plans\<close>

lemma split_four:
  "split_char (CHR ''/'') value = [a, b, c, d] \<longleftrightarrow>
     value = a @ ''/'' @ b @ ''/'' @ c @ ''/'' @ d \<and> CHR ''/'' \<notin> set (a @ b @ c @ d)"
proof
  assume parts: "split_char (CHR ''/'') value = [a, b, c, d]"
  have "join ''/'' (split_char (CHR ''/'') value) = value" by simp
  then have "value = a @ ''/'' @ b @ ''/'' @ c @ ''/'' @ d"
    by (simp add: parts)
  moreover have "\<forall>x \<in> {a, b, c, d}. CHR ''/'' \<notin> set x"
    using split_on_parts [where P = "\<lambda>x. x = CHR ''/''" and s = "value"] parts by auto
  ultimately show "value = a @ ''/'' @ b @ ''/'' @ c @ ''/'' @ d \<and> CHR ''/'' \<notin> set (a @ b @ c @ d)"
    by auto
next
  assume "value = a @ ''/'' @ b @ ''/'' @ c @ ''/'' @ d \<and> CHR ''/'' \<notin> set (a @ b @ c @ d)"
  then show "split_char (CHR ''/'') value = [a, b, c, d]"
    using split_char_join [of "[a, b, c, d]" "CHR ''/''"] by simp
qed

lemma length_four: "length xs = 4 \<longleftrightarrow> (\<exists>a b c d. xs = [a, b, c, d])"
  by (auto simp: length_Suc_conv eval_nat_numeral)

lemma requirement_os_ok: "requirement_os s = Inr os \<longleftrightarrow> s = os_as_str os"
  by (cases os) (auto simp: requirement_os_def)

lemma requirement_arch_ok: "requirement_arch s = Inr arch \<longleftrightarrow> s = arch_as_str arch"
  by (cases arch) (auto simp: requirement_arch_def)

lemma approved_answer:
  "(case r of None \<Rightarrow> Inl e | Some (x, y) \<Rightarrow> Inr x) = Inr z \<longleftrightarrow> (\<exists>y. r = Some (z, y))"
  by (auto split: option.splits)

lemma tokens_nonempty [simp]: "os_as_str os \<noteq> []" "[] \<noteq> os_as_str os" "arch_as_str arch \<noteq> []"
    "[] \<noteq> arch_as_str arch"
  by (cases os; cases arch; simp)+

lemma requirement_parts:
  assumes "split_char (CHR ''/'') value = [a, b, c, d]"
  shows "resolve_openusd_requirement load value = Inr identity \<longleftrightarrow>
     a \<noteq> [] \<and> (\<exists>os arch variant p build. b = os_as_str os \<and> c = arch_as_str arch
       \<and> requirement_variant d = Inr variant \<and> load a = Inr p
       \<and> resolve_openusd p os arch variant = Some (identity, build))"
proof -
  have "requirement_variant [] \<noteq> Inr v" for v by (simp add: requirement_variant_def)
  then show ?thesis
    using assms
    by (auto simp: resolve_openusd_requirement_def Let_def res_simps requirement_os_ok
        requirement_arch_ok approved_answer)
qed

text \<open>
  A requirement resolves exactly when it reads platform, operating system, architecture
  and a spelling of a variant, and the loaded platform approves that cell; every other text is
  an error.
\<close>

lemma requirement_names_cell:
  "resolve_openusd_requirement load value = Inr identity \<longleftrightarrow>
     (\<exists>ident os arch spelling variant p build.
        value = ident @ ''/'' @ os_as_str os @ ''/'' @ arch_as_str arch @ ''/'' @ spelling
        \<and> ident \<noteq> [] \<and> CHR ''/'' \<notin> set ident
        \<and> requirement_variant spelling = Inr variant \<and> load ident = Inr p
        \<and> resolve_openusd p os arch variant = Some (identity, build))"
  (is "?l \<longleftrightarrow> ?r")
proof
  assume l: ?l
  then have "length (split_char (CHR ''/'') value) = 4"
    by (auto simp: resolve_openusd_requirement_def Let_def split: if_splits)
  then obtain a b c d where parts: "split_char (CHR ''/'') value = [a, b, c, d]"
    unfolding length_four by blast
  then show ?r
    using l unfolding requirement_parts [OF parts] split_four by fastforce
next
  assume ?r
  then obtain ident os arch spelling variant p build where r:
    "value = ident @ ''/'' @ os_as_str os @ ''/'' @ arch_as_str arch @ ''/'' @ spelling"
    "ident \<noteq> []" "CHR ''/'' \<notin> set ident"
    "requirement_variant spelling = Inr variant" "load ident = Inr p"
    "resolve_openusd p os arch variant = Some (identity, build)" by blast
  have "CHR ''/'' \<notin> set spelling"
    using r(4) by (auto simp: requirement_variant_def split: if_splits)
  moreover have "CHR ''/'' \<notin> set (os_as_str os)" "CHR ''/'' \<notin> set (arch_as_str arch)"
    by (cases os; simp) (cases arch; simp)
  ultimately have "split_char (CHR ''/'') value = [ident, os_as_str os, arch_as_str arch, spelling]"
    using r(1,3) by (simp add: split_four)
  then show ?l using r requirement_parts by blast
qed

lemma leaf_tag_parts:
  assumes "canonical_openusd_leaf_tag version variant os arch = Inr tag"
  shows "split_char (CHR ''-'') tag = [version, variant_as_str variant, os_as_str os, arch_as_str arch]"
proof -
  have "version \<in> {''26.05'', ''26.08''}"
    and tag: "tag = join ''-'' [version, variant_as_str variant, os_as_str os, arch_as_str arch]"
    using assms by (auto simp: canonical_openusd_leaf_tag_def CANONICAL_OPENUSD_VERSIONS_def res_simps
        split: if_splits)
  then have "CHR ''-'' \<notin> set version" by auto
  moreover have "CHR ''-'' \<notin> set (variant_as_str variant)" by (cases variant) simp_all
  ultimately show ?thesis
    unfolding tag by (intro split_char_join) (simp_all add: os_as_str_plain arch_as_str_plain)
qed

lemma canonical_is_canonical: "variant_canonical v cs = Some w \<Longrightarrow> variant_is_canonical w"
  by (cases v) (auto split: if_splits)

text \<open>
  The build plan never reaches its unreachable branch, and a plan exists exactly when the
  leaf tag of the identity's canonical variant does; different leaves have different tags.
\<close>

lemma plan_and_leaf_tag:
  "build_plan_new version c builder \<noteq> None
   \<and> ((\<exists>plan. build_plan_new version c builder = Some (Inr plan)) \<longleftrightarrow>
        (\<exists>variant tag. variant_canonical (compat_variant c) (compat_capabilities c) = Some variant
           \<and> canonical_openusd_leaf_tag version variant (compat_os c) (compat_arch c) = Inr tag))
   \<and> inj_on (\<lambda>(version, variant, os, arch). canonical_openusd_leaf_tag version variant os arch)
        {(version, variant, os, arch). is_ok (canonical_openusd_leaf_tag version variant os arch)}"
proof (intro conjI)
  have arguments: "variant_is_canonical v \<Longrightarrow> \<exists>a. variant_arguments v = Some a" for v
    by (cases v) simp_all
  show "build_plan_new version c builder \<noteq> None"
    using arguments canonical_is_canonical
    by (fastforce simp: build_plan_new_def split: option.split sum.split)
  show "(\<exists>plan. build_plan_new version c builder = Some (Inr plan)) \<longleftrightarrow>
        (\<exists>variant tag. variant_canonical (compat_variant c) (compat_capabilities c) = Some variant
           \<and> canonical_openusd_leaf_tag version variant (compat_os c) (compat_arch c) = Inr tag)"
  proof (cases "variant_canonical (compat_variant c) (compat_capabilities c)")
    case None
    then show ?thesis by (simp add: build_plan_new_def)
  next
    case (Some v)
    then have canonical: "variant_is_canonical v" by (rule canonical_is_canonical)
    from arguments [OF this] obtain a where "variant_arguments v = Some a" by blast
    with Some canonical show ?thesis
      by (auto simp: build_plan_new_def canonical_openusd_leaf_tag_def res_simps
          split: sum.splits)
  qed
  show "inj_on (\<lambda>(version, variant, os, arch). canonical_openusd_leaf_tag version variant os arch)
        {(version, variant, os, arch). is_ok (canonical_openusd_leaf_tag version variant os arch)}"
  proof (rule inj_onI, clarsimp simp: is_ok_iff)
    fix version variant os arch version' variant' os' arch' tag
    assume "canonical_openusd_leaf_tag version variant os arch = Inr tag"
      and "canonical_openusd_leaf_tag version' variant' os' arch' = Inr tag"
    then show "version = version' \<and> variant = variant' \<and> os = os' \<and> arch = arch'"
      using leaf_tag_parts [of version variant os arch tag]
        leaf_tag_parts [of version' variant' os' arch' tag]
      by (auto simp: variant_as_str_inj dest: os_as_str_inj arch_as_str_inj)
  qed
qed

section \<open>Patches\<close>

text \<open>What the changes of a difference do to the components of the older platform.\<close>

fun apply_change :: "string \<times> component_change \<Rightarrow> (string \<rightharpoonup> string) \<Rightarrow> (string \<rightharpoonup> string)" where
  "apply_change (name, Added v) m = m(name \<mapsto> v)"
| "apply_change (name, Removed v) m = m(name := None)"
| "apply_change (name, Changed old v) m = m(name \<mapsto> v)"

definition apply_changes ::
  "(string \<times> component_change) list \<Rightarrow> (string \<rightharpoonup> string) \<Rightarrow> (string \<rightharpoonup> string)"
where
  "apply_changes cs m = fold apply_change cs m"

text \<open>The change of a name is read off its two values.\<close>

definition change_of :: "platform \<Rightarrow> platform \<Rightarrow> string \<Rightarrow> component_change option" where
  "change_of p q name =
     (case (platform_component p name, platform_component q name) of
        (Some a, Some b) \<Rightarrow> if a = b then None else Some (Changed a b)
      | (None, Some b) \<Rightarrow> Some (Added b)
      | (Some a, None) \<Rightarrow> Some (Removed a)
      | (None, None) \<Rightarrow> None)"

lemma diff_loop_changes:
  "\<forall>n \<in> set names. platform_component p n \<noteq> None \<or> platform_component q n \<noteq> None \<Longrightarrow>
     diff_loop p q names =
       Some (concat (map (\<lambda>n. case change_of p q n of None \<Rightarrow> [] | Some c \<Rightarrow> [(n, c)]) names))"
  by (induction names) (auto simp: change_of_def split: option.splits)

lemma bs_fold_set: "set (foldl (\<lambda>names key. bs_insert key names) s xs) = set s \<union> set xs"
  by (induction xs arbitrary: s) auto

lemma bs_fold_sorted:
  "sorted_wrt (<) s \<Longrightarrow> sorted_wrt (<) (foldl (\<lambda>names key. bs_insert key names) s xs)"
  by (induction xs arbitrary: s) (auto intro: sorted_bs_insert)

lemma component_names_set:
  "set (component_names p q) = dom (platform_component p) \<union> dom (platform_component q)"
proof -
  have "dom (platform_component r) = fst ` set (platform_core r)" for r
    by (simp add: platform_component_def [abs_def] dom_map_of_conv_image_fst)
  then show ?thesis by (simp add: component_names_def bs_fold_set)
qed

lemma component_names_sorted: "sorted_wrt (<) (component_names p q)"
  by (simp add: component_names_def bs_fold_sorted)

abbreviation change_entries :: "platform \<Rightarrow> platform \<Rightarrow> string list \<Rightarrow> (string \<times> component_change) list" where
  "change_entries p q names \<equiv>
     concat (map (\<lambda>n. case change_of p q n of None \<Rightarrow> [] | Some c \<Rightarrow> [(n, c)]) names)"

lemma apply_change_entries:
  "apply_changes (change_entries p q names) m =
     (\<lambda>n. if n \<in> set names \<and> change_of p q n \<noteq> None then platform_component q n else m n)"
proof (induction names arbitrary: m)
  case Nil
  then show ?case by (simp add: apply_changes_def)
next
  case (Cons name names)
  have "apply_changes (change_entries p q (name # names)) m =
      apply_changes (change_entries p q names)
        (case change_of p q name of None \<Rightarrow> m | Some c \<Rightarrow> apply_change (name, c) m)"
    by (simp add: apply_changes_def split: option.split)
  also have "\<dots> = (\<lambda>n. if n \<in> set (name # names) \<and> change_of p q n \<noteq> None
      then platform_component q n else m n)"
    unfolding Cons.IH
    by (rule ext) (auto simp: change_of_def split: option.splits if_splits)
  finally show ?case .
qed

lemma change_entries_names: "set (map fst (change_entries p q names)) \<subseteq> set names"
  by (auto split: option.splits)

lemma change_entries_sorted:
  "sorted_wrt (<) names \<Longrightarrow> sorted_wrt (<) (map fst (change_entries p q names))"
proof (induction names)
  case (Cons name names)
  then show ?case
    using change_entries_names [of p q names] by (cases "change_of p q name") auto
qed simp

text \<open>
  The difference of two platforms never panics, lists its changes by name, each once, and
  turns the components of the first platform into those of the second; it is empty exactly when
  they agree.
\<close>

lemma diff_patches:
  "\<exists>d. platform_diff_of p q = Some d
     \<and> apply_changes (diff_changes d) (platform_component p) = platform_component q
     \<and> sorted_wrt (<) (map fst (diff_changes d))
     \<and> (diff_is_empty d \<longleftrightarrow> platform_component p = platform_component q)"
proof -
  let ?names = "component_names p q" and ?cs = "change_entries p q (component_names p q)"
  have "\<forall>n \<in> set ?names. platform_component p n \<noteq> None \<or> platform_component q n \<noteq> None"
    by (auto simp: component_names_set)
  then have "platform_diff_of p q =
      Some \<lparr> diff_from_id = platform_id p, diff_to_id = platform_id q, diff_changes = ?cs \<rparr>"
    by (simp add: platform_diff_of_def diff_loop_changes)
  moreover have patch: "apply_changes ?cs (platform_component p) = platform_component q"
  proof
    fix n
    have "change_of p q n = None \<longleftrightarrow> platform_component p n = platform_component q n"
      by (auto simp: change_of_def split: option.splits)
    moreover have "n \<in> set ?names \<or> platform_component p n = platform_component q n"
      by (cases "platform_component p n"; cases "platform_component q n")
         (auto simp: component_names_set)
    ultimately show "apply_changes ?cs (platform_component p) n = platform_component q n"
      by (auto simp: apply_change_entries)
  qed
  moreover have "sorted_wrt (<) (map fst ?cs)"
    by (rule change_entries_sorted) (rule component_names_sorted)
  moreover have "?cs = [] \<longleftrightarrow> platform_component p = platform_component q"
  proof
    assume "?cs = []"
    then show "platform_component p = platform_component q"
      using patch by (simp only: apply_changes_def fold_simps)
  next
    assume "platform_component p = platform_component q"
    then show "?cs = []" by (auto simp: change_of_def split: option.splits)
  qed
  ultimately show ?thesis by (simp add: diff_is_empty_def)
qed

section \<open>A sample platform\<close>

definition sample_source_provider :: "string \<Rightarrow> string \<Rightarrow> openusd_provider" where
  "sample_source_provider family key =
     \<lparr> op_family = family, op_provider = ''platform'', op_version_from = key \<rparr>"

definition sample_variant :: "variant_id \<Rightarrow> openusd_variant" where
  "sample_variant v =
     \<lparr> ov_id = v, ov_builders = [BuildUsd, CmakeBuilder], ov_build_usd_args = [], ov_cmake_args = [],
       ov_capabilities = (if v = Core then [''usd-core''] else [''usd-core'', ''imaging'', ''opengl'']) \<rparr>"

definition sample_cell :: openusd_cell where
  "sample_cell =
     \<lparr> cell_os = Linux, cell_arch = X86_64,
       cell_toolchain = \<lparr> ot_family = ''gcc'', ot_provider = ''platform'', ot_version_from = ''gcc'',
         ot_cxx_standard_from = ''cxx'', ot_runtime = sample_source_provider ''glibc'' ''glibc'' \<rparr>,
       cell_python = sample_source_provider ''cpython'' ''python'',
       cell_tbb = sample_source_provider ''onetbb'' ''tbb'',
       cell_macos = None, cell_variants = [sample_variant Core, sample_variant Gl] \<rparr>"

definition sample_platform :: platform where
  "sample_platform =
     \<lparr> platform_id = ''cy2026'',
       platform_source = \<lparr> source_kind = VfxReferencePlatform, source_status = Final \<rparr>,
       platform_core = [(''gcc'', ''14.2''), (''cxx'', ''20''), (''glibc'', ''2.28''),
         (''python'', ''3.13.x''), (''tbb'', ''2022.x'')],
       platform_openusd = Some \<lparr> usd_policy_schema = 2, usd_policy_cells = [sample_cell] \<rparr>,
       platform_notes = None \<rparr>"

lemma approved_cells_exact_witness:
  "validate_openusd sample_platform = Inr ()
   \<and> resolve_openusd sample_platform Linux X86_64 Gl =
       Some (resolve_cell sample_platform 2 sample_cell (sample_variant Gl), sample_variant Gl)
   \<and> grounded sample_platform (resolve_cell sample_platform 2 sample_cell (sample_variant Gl))"
proof -
  have ok: "validate_openusd sample_platform = Inr ()" by code_simp
  have "resolve_openusd sample_platform Linux X86_64 Gl =
      Some (resolve_cell sample_platform 2 sample_cell (sample_variant Gl), sample_variant Gl)"
    by (simp add: resolve_openusd_def sample_platform_def sample_cell_def sample_variant_def)
  with ok approved_cells_exact [OF ok] show ?thesis by blast
qed


end
