(* ===== verification/Documents.thy ===== *)
theory Documents
  imports Errors
begin

text \<open>
  The accessors of \<^verbatim>\<open>serde_json::Value\<close> that the producers and verifiers of manifests use.
  An object is the list of its members in key order, so that equality of documents is equality
  of values.
\<close>

fun json_get :: "string \<Rightarrow> json \<Rightarrow> json option" where
  "json_get key (JObject members) = map_of members key"
| "json_get key v = None"

text \<open>\<^verbatim>\<open>pointer("/a/b")\<close> with names that are not array indices.\<close>

fun json_pointer :: "string list \<Rightarrow> json \<Rightarrow> json option" where
  "json_pointer [] v = Some v"
| "json_pointer (key # keys) v =
     (case json_get key v of None \<Rightarrow> None | Some w \<Rightarrow> json_pointer keys w)"

text \<open>\<^verbatim>\<open>v[key]\<close> on a value that is read only: null where there is no member.\<close>

definition json_index :: "json \<Rightarrow> string \<Rightarrow> json" where
  "json_index v key = (case json_get key v of None \<Rightarrow> JNull | Some w \<Rightarrow> w)"

fun as_str :: "json \<Rightarrow> string option" where
  "as_str (JString s) = Some s"
| "as_str v = None"

fun as_bool :: "json \<Rightarrow> bool option" where
  "as_bool (JBool b) = Some b"
| "as_bool v = None"

fun as_u64 :: "json \<Rightarrow> nat option" where
  "as_u64 (JInt i) = (if 0 \<le> i \<and> i < 2 ^ 64 then Some (nat i) else None)"
| "as_u64 v = None"

fun as_array :: "json \<Rightarrow> json list option" where
  "as_array (JArray vs) = Some vs"
| "as_array v = None"

fun as_object :: "json \<Rightarrow> (string \<times> json) list option" where
  "as_object (JObject ms) = Some ms"
| "as_object v = None"

definition is_object :: "json \<Rightarrow> bool" where
  "is_object v \<longleftrightarrow> as_object v \<noteq> None"

definition get_str :: "string \<Rightarrow> json \<Rightarrow> string option" where
  "get_str key v = Option.bind (json_get key v) as_str"

definition get_array :: "string \<Rightarrow> json \<Rightarrow> json list option" where
  "get_array key v = Option.bind (json_get key v) as_array"

definition pointer_str :: "string list \<Rightarrow> json \<Rightarrow> string option" where
  "pointer_str keys v = Option.bind (json_pointer keys v) as_str"

text \<open>\<^verbatim>\<open>into_iter().flatten()\<close> over an optional array.\<close>

definition items :: "json list option \<Rightarrow> json list" where
  "items vs = (case vs of None \<Rightarrow> [] | Some vs \<Rightarrow> vs)"

text \<open>\<^verbatim>\<open>filter(|value| !value.is_null())\<close>\<close>

definition non_null :: "json option \<Rightarrow> json option" where
  "non_null v = (case v of None \<Rightarrow> None | Some w \<Rightarrow> if w = JNull then None else Some w)"

lemma as_str_Some: "as_str v = Some s \<longleftrightarrow> v = JString s"
  by (cases v) auto

lemma as_array_Some: "as_array v = Some vs \<longleftrightarrow> v = JArray vs"
  by (cases v) auto

lemma as_u64_bound: "as_u64 v = Some n \<Longrightarrow> n < 2 ^ 64"
  by (cases v) (auto split: if_splits)

lemma non_null_Some: "non_null v = Some w \<longleftrightarrow> v = Some w \<and> w \<noteq> JNull"
  by (auto simp: non_null_def split: option.splits)

lemma get_str_pointer: "get_str key v = pointer_str [key] v"
  by (simp add: get_str_def pointer_str_def split: option.split)

end
