(* ===== verification/Records.thy ===== *)
theory Records
  imports ArtifactRecords ArchiveEntries Documents
begin

text \<open>
  The record derived from a producer manifest (ost-artifact/src/record.rs).  The derived readers
  of serde, from a JSON value to a structure or a message, are the fields of
  \<open>manifest_reader\<close>, and so is the rendering of a value in a message.
\<close>

section \<open>Manifests\<close>

definition MANIFEST_FILE :: string where
  "MANIFEST_FILE = ''manifest.json''"

definition PLUGIN_BUNDLE_KIND :: string where
  "PLUGIN_BUNDLE_KIND = ''openstrata.plugin-bundle''"

definition PLUGIN_PRODUCT_KIND :: string where
  "PLUGIN_PRODUCT_KIND = ''openstrata.plugin-product''"

definition TOOL_KIND :: string where
  "TOOL_KIND = ''openstrata.tool''"

definition RUNTIME_KIND :: string where
  "RUNTIME_KIND = ''openstrata.runtime''"

definition COMPOSED_RUNTIME_KIND :: string where
  "COMPOSED_RUNTIME_KIND = ''openstrata.composed-runtime''"

definition OPENUSD_SELECTOR_SCHEMA_FIELD :: string where
  "OPENUSD_SELECTOR_SCHEMA_FIELD = ''openusd_selector_schema''"

lemmas manifest_kinds = PLUGIN_BUNDLE_KIND_def PLUGIN_PRODUCT_KIND_def TOOL_KIND_def
  RUNTIME_KIND_def COMPOSED_RUNTIME_KIND_def

record manifest_reader =
  rd_component :: "json \<Rightarrow> string + component_contract"
  rd_compatibility :: "json \<Rightarrow> string + compatibility"
  rd_verification :: "json \<Rightarrow> string + openusd_verification"
  rd_dependency :: "json \<Rightarrow> string + dependency_identity"
  rd_file :: "json \<Rightarrow> string + manifest_file"
  rd_show :: "json \<Rightarrow> string"

definition detect_kind :: "json \<Rightarrow> artifact_kind res" where
  "detect_kind manifest =
     (case get_str ''kind'' manifest of
        None \<Rightarrow> Inr PackageArtifact
      | Some k \<Rightarrow>
          if k = PLUGIN_BUNDLE_KIND then Inr PluginArtifact
          else if k = PLUGIN_PRODUCT_KIND then Inr ProductArtifact
          else if k = RUNTIME_KIND then Inr RuntimeArtifact
          else if k = COMPOSED_RUNTIME_KIND then Inr ComposedRuntimeArtifact
          else if k = TOOL_KIND then Inr PackageArtifact
          else Inl (InvalidManifest (''unrecognized producer manifest kind '' @ quoted k @
                 '' (expected '' @ PLUGIN_BUNDLE_KIND @ '', '' @ PLUGIN_PRODUCT_KIND @ '', '' @
                 TOOL_KIND @ '', '' @ RUNTIME_KIND @ '', or a project package manifest)'')))"

definition require_object :: "json \<Rightarrow> string \<Rightarrow> json res" where
  "require_object v key =
     (case json_get key v of
        None \<Rightarrow> Inl (InvalidManifest (''producer manifest is missing the '' @ quoted key @ '' object''))
      | Some w \<Rightarrow>
          if is_object w then Inr w
          else Inl (InvalidManifest (''producer manifest is missing the '' @ quoted key @ '' object'')))"

definition require_str :: "json \<Rightarrow> string \<Rightarrow> string res" where
  "require_str v key =
     (case get_str key v of
        None \<Rightarrow> Inl (InvalidManifest (''producer manifest is missing '' @ quoted key @ '' (string)''))
      | Some s \<Rightarrow> Inr s)"

definition require_u64 :: "json \<Rightarrow> string \<Rightarrow> nat res" where
  "require_u64 v key =
     (case Option.bind (json_get key v) as_u64 of
        None \<Rightarrow> Inl (InvalidManifest (''producer manifest is missing '' @ quoted key @ '' (integer)''))
      | Some n \<Rightarrow> Inr n)"

text \<open>\<^const>\<open>has_control\<close> reads the UTF-8 bytes for \<^verbatim>\<open>char::is_control\<close>.\<close>

definition is_plain_archive_filename :: "string \<Rightarrow> bool" where
  "is_plain_archive_filename name \<longleftrightarrow>
     name \<noteq> [] \<and> name \<noteq> ''.'' \<and> name \<noteq> ''..''
     \<and> CHR ''/'' \<notin> set name \<and> CHR 0x5C \<notin> set name \<and> CHR '':'' \<notin> set name
     \<and> \<not> has_control name"

definition require_archive_filename :: "json \<Rightarrow> string res" where
  "require_archive_filename manifest =
     and_then (require_str manifest ''archive'') (\<lambda>archive.
       if \<not> is_plain_archive_filename archive
       then Inl (InvalidManifest (''producer manifest 'archive' must be a plain filename, got '' @
              quoted archive))
       else Inr archive)"

section \<open>File lists\<close>

fun try_map :: "('a \<Rightarrow> 'e + 'b) \<Rightarrow> 'a list \<Rightarrow> 'e + 'b list" where
  "try_map f [] = Inr []"
| "try_map f (x # xs) = and_then (f x) (\<lambda>y. and_then (try_map f xs) (\<lambda>ys. Inr (y # ys)))"

definition manifest_files :: "manifest_reader \<Rightarrow> json \<Rightarrow> (manifest_file list) res" where
  "manifest_files rd manifest =
     (case get_array ''files'' manifest of
        None \<Rightarrow> Inl (InvalidManifest ''producer manifest has no 'files' array'')
      | Some files \<Rightarrow>
          try_map (\<lambda>f. case rd_file rd f of
              Inl e \<Rightarrow> Inl (InvalidManifest (''producer manifest 'files' entry is invalid: '' @ e))
            | Inr m \<Rightarrow> Inr m) files)"

record debug_archive =
  debug_archive_name :: string
  debug_digest :: string
  debug_archive_size :: nat
  debug_files :: "manifest_file list"

definition manifest_debug_archive :: "manifest_reader \<Rightarrow> json \<Rightarrow> (debug_archive option) res" where
  "manifest_debug_archive rd manifest =
     (case json_get ''debug'' manifest of
        None \<Rightarrow> Inr None
      | Some debug \<Rightarrow>
          if \<not> is_object debug
          then Inl (InvalidManifest ''producer manifest 'debug' must be an object'')
          else
            and_then (require_archive_filename debug) (\<lambda>archive.
            and_then (require_str debug ''archive_digest'') (\<lambda>digest.
              if \<not> is_sha256_ref digest
              then Inl (InvalidManifest
                (''producer manifest debug archive carries a malformed archive_digest '' @
                 quoted digest @ '' (expected sha256:<64 hex chars>)''))
              else
                and_then (require_u64 debug ''archive_size'') (\<lambda>archive_size.
                and_then (manifest_files rd debug) (\<lambda>files.
                  if get_str ''archive'' manifest = Some archive
                  then Inl (InvalidManifest
                    ''producer manifest debug archive must have a distinct filename'')
                  else Inr (Some \<lparr> debug_archive_name = archive, debug_digest = digest,
                    debug_archive_size = archive_size, debug_files = files \<rparr>))))))"

section \<open>Parts of the record\<close>

definition check_composed :: "json \<Rightarrow> unit res" where
  "check_composed manifest =
     (case json_get ''composition'' manifest of
        None \<Rightarrow> Inl (InvalidManifest ''composed runtime requires composition metadata'')
      | Some composition \<Rightarrow>
          if get_str ''schema'' composition \<noteq> Some ''openstrata.composed-runtime/v1alpha1''
             \<or> get_str ''lock'' composition \<noteq> Some ''metadata/composition.lock.json''
             \<or> (case get_str ''runtime_digest'' composition of None \<Rightarrow> True | Some d \<Rightarrow> \<not> is_sha256_ref d)
          then Inl (InvalidManifest ''composed runtime has an invalid schema, identity or lock path'')
          else Inr ())"

definition validate_selector_schema :: "manifest_reader \<Rightarrow> json \<Rightarrow> artifact_kind \<Rightarrow> unit res" where
  "validate_selector_schema rd manifest kind =
     (case json_get OPENUSD_SELECTOR_SCHEMA_FIELD manifest of
        None \<Rightarrow> Inr ()
      | Some v \<Rightarrow>
          if kind \<noteq> RuntimeArtifact
          then Inl (InvalidManifest (''only runtime producer manifests may carry '' @
                 quoted OPENUSD_SELECTOR_SCHEMA_FIELD))
          else if \<not> (as_u64 v = Some 2 \<or> as_u64 v = Some 3)
          then Inl (InvalidManifest (''producer manifest carries unsupported OpenUSD selector schema '' @
                 rd_show rd v @ '' (expected 2 or 3)''))
          else Inr ())"

definition license_of :: "json \<Rightarrow> string list" where
  "license_of v = (case get_str ''license'' v of None \<Rightarrow> [] | Some s \<Rightarrow> [s])"

definition licenses_of :: "json \<Rightarrow> string list" where
  "licenses_of manifest = List.map_filter as_str (items (get_array ''licenses'' manifest))"

text \<open>Name, version and licenses, read where the kind of manifest keeps them.\<close>

definition manifest_identity :: "json \<Rightarrow> artifact_kind \<Rightarrow> (string \<times> string \<times> string list) res" where
  "manifest_identity manifest kind =
     (if kind = PluginArtifact
      then and_then (require_object manifest ''plugin'') (\<lambda>plugin.
           and_then (require_str plugin ''name'') (\<lambda>name.
           and_then (require_str plugin ''version'') (\<lambda>version.
             Inr (name, version, license_of plugin))))
      else if kind = PackageArtifact \<and> get_str ''kind'' manifest = Some TOOL_KIND
      then and_then (require_object manifest ''tool'') (\<lambda>tool.
           and_then (require_str tool ''id'') (\<lambda>name.
           and_then (require_str tool ''version'') (\<lambda>version.
             Inr (name, version, license_of tool))))
      else and_then (require_str manifest ''name'') (\<lambda>name.
           and_then (require_str manifest ''version'') (\<lambda>version.
             Inr (name, version, licenses_of manifest))))"

definition normalize_component ::
  "manifest_reader \<Rightarrow> json \<Rightarrow> string \<Rightarrow> string \<Rightarrow> (component_contract option) res"
where
  "normalize_component rd manifest name version =
     (case json_get ''component'' manifest of
        None \<Rightarrow> Inr None
      | Some v \<Rightarrow>
          (case rd_component rd v of
             Inl e \<Rightarrow> Inl (InvalidManifest (''producer manifest 'component' contract is invalid: '' @ e))
           | Inr contract \<Rightarrow>
               and_then (contract_validate contract) (\<lambda>_.
                 if contract_id contract \<noteq> name
                 then Inl (InvalidManifest (''component id '' @ quoted (contract_id contract) @
                        '' does not match artifact name '' @ quoted name))
                 else if contract_version contract \<noteq> version
                 then Inl (InvalidManifest (''component version '' @ quoted (contract_version contract) @
                        '' does not match artifact version '' @ quoted version))
                 else Inr (Some contract))))"

text \<open>
  A value that stands at the top of the manifest and in the embedded runtime manifest: both
  copies agree, or there is none.
\<close>

fun render_bool :: "bool \<Rightarrow> string" where
  "render_bool True = ''true''"
| "render_bool False = ''false''"

definition agreed_copies :: "string \<Rightarrow> string \<Rightarrow> json \<Rightarrow> (json option) res" where
  "agreed_copies field what manifest =
     (let top_level = non_null (json_get field manifest);
          embedded = non_null (json_pointer [''provenance'', ''runtime_manifest'', field] manifest)
      in case (top_level, embedded) of
           (None, None) \<Rightarrow> Inr None
         | (Some t, Some e) \<Rightarrow>
             if t = e then Inr (Some e)
             else Inl (InvalidManifest (''producer manifest top-level '' @ quoted field @
                    '' does not match provenance.runtime_manifest.'' @ field))
         | _ \<Rightarrow> Inl (InvalidManifest (''producer manifest OpenUSD '' @ what @
                  '' is incomplete (top-level present='' @ render_bool (top_level \<noteq> None) @
                  '', embedded runtime present='' @ render_bool (embedded \<noteq> None) @ '')'')))"

definition normalize_openusd_verification ::
  "manifest_reader \<Rightarrow> json \<Rightarrow> artifact_kind \<Rightarrow> (openusd_verification option) res"
where
  "normalize_openusd_verification rd manifest kind =
     (if kind \<noteq> RuntimeArtifact \<and> non_null (json_get ''openusd_verification'' manifest) \<noteq> None
      then Inl (InvalidManifest (''only runtime producer manifests may carry '' @ quoted ''openusd_verification''))
      else if kind \<noteq> RuntimeArtifact then Inr None
      else and_then (agreed_copies ''openusd_verification'' ''verification state'' manifest) (\<lambda>v.
        case v of
          None \<Rightarrow> Inr None
        | Some v \<Rightarrow>
            (case rd_verification rd v of
               Inl e \<Rightarrow> Inl (InvalidManifest
                 (''producer manifest 'openusd_verification' is invalid: '' @ e))
             | Inr verification \<Rightarrow>
                 if \<not> verification_supported verification
                 then Inl (InvalidManifest
                   (''producer manifest carries unsupported OpenUSD verification schema '' @
                    to_decimal (ver_schema verification) @ '' (expected 1)''))
                 else Inr (Some verification))))"

definition normalize_source_identity :: "json \<Rightarrow> (source_identity option) res" where
  "normalize_source_identity manifest =
     (case non_null (json_get ''build'' manifest) of
        None \<Rightarrow> Inr None
      | Some build \<Rightarrow>
          (case json_get ''source'' build of
             None \<Rightarrow> Inl (InvalidManifest (''producer manifest build metadata is missing '' @ quoted ''source''))
           | Some source \<Rightarrow>
               (case get_str ''repository'' source of
                  None \<Rightarrow> Inl (InvalidManifest
                    (''producer manifest build source is missing an exact, whitespace-normalized '' @ quoted ''repository''))
                | Some repository \<Rightarrow>
                    if \<not> exact_identity_component repository
                    then Inl (InvalidManifest
                      (''producer manifest build source is missing an exact, whitespace-normalized '' @ quoted ''repository''))
                    else case get_str ''revision'' source of
                      None \<Rightarrow> Inl (InvalidManifest
                        (''producer manifest build source is missing an exact, whitespace-normalized '' @ quoted ''revision''))
                    | Some revision \<Rightarrow>
                        if \<not> exact_identity_component revision
                        then Inl (InvalidManifest
                          (''producer manifest build source is missing an exact, whitespace-normalized '' @ quoted ''revision''))
                        else Inr (Some \<lparr> src_repository = repository, src_revision = revision \<rparr>))))"

definition read_dependency ::
  "manifest_reader \<Rightarrow> nat \<times> json \<Rightarrow> dependency_identity res"
where
  "read_dependency rd = (\<lambda>(index, v).
     case rd_dependency rd v of
       Inl e \<Rightarrow> Inl (InvalidManifest (''producer manifest build dependency '' @ to_decimal index @
         '' is invalid: '' @ e))
     | Inr d \<Rightarrow>
         if \<not> dependency_verified d
         then Inl (InvalidManifest (''producer manifest build dependency '' @ to_decimal index @
                '' has a blank name, version, repository, or revision''))
         else Inr d)"

fun repeated_name :: "dependency_identity list \<Rightarrow> string option" where
  "repeated_name (a # b # ds) =
     (if dep_name a = dep_name b then Some (dep_name a) else repeated_name (b # ds))"
| "repeated_name _ = None"

definition normalize_dependency_identities ::
  "manifest_reader \<Rightarrow> json \<Rightarrow> (dependency_identity list) res"
where
  "normalize_dependency_identities rd manifest =
     (case non_null (json_pointer [''build'', ''dependencies''] manifest) of
        None \<Rightarrow> Inr []
      | Some values \<Rightarrow>
          (case as_array values of
             None \<Rightarrow> Inl (InvalidManifest ''producer manifest build dependencies must be an array'')
           | Some vs \<Rightarrow>
               and_then (try_map (read_dependency rd) (enumerate 0 vs)) (\<lambda>ds.
                 let ds = sort_key dependency_key ds
                 in case repeated_name ds of
                      None \<Rightarrow> Inr ds
                    | Some name \<Rightarrow> Inl (InvalidManifest
                        (''producer manifest build dependencies repeat name '' @ quoted name)))))"

definition python_abi_token :: "string \<Rightarrow> string option" where
  "python_abi_token version =
     (case split_char (CHR ''.'') (trim version) of
        major # minor # _ \<Rightarrow>
          if major = [] \<or> minor = [] \<or> \<not> list_all is_ascii_digit major \<or> \<not> list_all is_ascii_digit minor
          then None else Some (''py'' @ major @ minor)
      | _ \<Rightarrow> None)"

definition check_compatibility ::
  "compatibility \<Rightarrow> string option \<Rightarrow> string \<Rightarrow> unit res"
where
  "check_compatibility c producer_platform target =
     (if \<not> (compat_schema c = 1 \<or> compat_schema c = 2)
      then Inl (InvalidManifest (''producer manifest carries unsupported OpenUSD compatibility schema '' @
             to_decimal (compat_schema c) @ '' (expected 1 or 2)''))
      else case (if compat_schema c = 1 then providers_failure c else verification_failure c) of
        Some failure \<Rightarrow> Inl (InvalidManifest
          (''producer manifest OpenUSD compatibility identity is not verifiable: '' @ failure))
      | None \<Rightarrow>
          if producer_platform \<noteq> Some (compat_platform c)
          then Inl (InvalidManifest (''producer manifest OpenUSD platform '' @ quoted (compat_platform c) @
                 '' does not match provenance platform '' @
                 quoted (case producer_platform of None \<Rightarrow> ''<missing>'' | Some p \<Rightarrow> p)))
          else if \<not> starts_with (os_as_str (compat_os c) @ ''-'' @ arch_as_str (compat_arch c) @ ''-'') target
          then Inl (InvalidManifest (''producer manifest OpenUSD target '' @ os_as_str (compat_os c) @ ''-'' @
                 arch_as_str (compat_arch c) @ '' does not match artifact target '' @ quoted target))
          else case Option.bind (rp_version (compat_python c)) python_abi_token of
            None \<Rightarrow> Inl (InvalidManifest
              ''producer manifest OpenUSD Python version cannot produce a major/minor ABI tag'')
          | Some token \<Rightarrow>
              if token \<notin> set (split_char (CHR ''-'') target)
              then Inl (InvalidManifest (''producer manifest OpenUSD Python ABI '' @ quoted token @
                     '' does not match artifact target '' @ quoted target))
              else Inr ())"

definition normalize_openusd_compatibility ::
  "manifest_reader \<Rightarrow> json \<Rightarrow> artifact_kind \<Rightarrow> string option \<Rightarrow> string \<Rightarrow> (compatibility option) res"
where
  "normalize_openusd_compatibility rd manifest kind producer_platform target =
     (if kind \<noteq> RuntimeArtifact \<and> non_null (json_get ''openusd_compatibility'' manifest) \<noteq> None
      then Inl (InvalidManifest (''only runtime producer manifests may carry '' @ quoted ''openusd_compatibility''))
      else if kind \<noteq> RuntimeArtifact then Inr None
      else and_then (agreed_copies ''openusd_compatibility'' ''compatibility identity'' manifest) (\<lambda>v.
        case v of
          None \<Rightarrow> Inr None
        | Some v \<Rightarrow>
            (case rd_compatibility rd v of
               Inl e \<Rightarrow> Inl (InvalidManifest
                 (''producer manifest 'openusd_compatibility' is invalid: '' @ e))
             | Inr c \<Rightarrow>
                 and_then (check_compatibility c producer_platform target) (\<lambda>_. Inr (Some c)))))"

definition validation_word :: "json option \<Rightarrow> string" where
  "validation_word v =
     (case v of
        Some (JObject ms) \<Rightarrow>
          (case Option.bind (json_get ''passed'' (JObject ms)) as_bool of
             Some True \<Rightarrow> ''passed''
           | Some False \<Rightarrow> ''failed''
           | None \<Rightarrow> ''unknown'')
      | Some (JString s) \<Rightarrow> s
      | _ \<Rightarrow> ''unknown'')"

fun initial_trust :: "artifact_source \<Rightarrow> trust_level" where
  "initial_trust Imported = Local"
| "initial_trust Published = Unsigned"

section \<open>Records\<close>

definition from_producer_manifest ::
  "manifest_reader \<Rightarrow> json \<Rightarrow> artifact_source \<Rightarrow> nat \<Rightarrow> string \<Rightarrow> artifact_record res"
where
  "from_producer_manifest rd manifest source created_unix imported_by =
     and_then (detect_kind manifest) (\<lambda>kind.
     and_then (if kind = ComposedRuntimeArtifact then check_composed manifest else Inr ()) (\<lambda>_.
     and_then (validate_selector_schema rd manifest kind) (\<lambda>_.
     and_then (manifest_identity manifest kind) (\<lambda>(name, version, licenses).
     and_then (require_str manifest ''archive_digest'') (\<lambda>digest.
       if \<not> is_sha256_ref digest
       then Inl (InvalidManifest (''producer manifest carries a malformed archive_digest '' @
              quoted digest @ '' (expected sha256:<64 hex chars>)''))
       else
     and_then (require_str manifest ''target'') (\<lambda>target.
     and_then (normalize_openusd_compatibility rd manifest kind
                 (pointer_str [''provenance'', ''platform''] manifest) target) (\<lambda>openusd.
     and_then (normalize_openusd_verification rd manifest kind) (\<lambda>verification.
     and_then (normalize_source_identity manifest) (\<lambda>source_id.
     and_then (normalize_dependency_identities rd manifest) (\<lambda>dependencies.
     and_then (normalize_component rd manifest name version) (\<lambda>component.
     and_then (require_archive_filename manifest) (\<lambda>archive.
     and_then (require_u64 manifest ''archive_size'') (\<lambda>archive_size.
     and_then (require_u64 manifest ''total_size'') (\<lambda>total_size.
       Inr \<lparr> record_schema = RECORD_SCHEMA, record_kind = kind, record_name = name,
         record_version = version, record_target = target,
         record_profile = pointer_str [''provenance'', ''profile''] manifest,
         record_digest = digest, record_archive = archive, record_archive_size = archive_size,
         record_total_size = total_size,
         record_file_count = length (items (get_array ''files'' manifest)),
         record_created_unix = created_unix,
         record_producer = (case get_str ''producer'' manifest of
           None \<Rightarrow> None | Some p \<Rightarrow> if p = [] then None else Some p),
         record_imported_by = imported_by, record_source = source,
         record_trust = initial_trust source,
         record_validation = validation_word (json_pointer [''provenance'', ''validation''] manifest),
         record_licenses = licenses, record_sbom = None, record_sbom_digest = None,
         record_sbom_size = None, record_provenance = None, record_provenance_digest = None,
         record_provenance_size = None,
         record_runtime_id = pointer_str [''provenance'', ''runtime'', ''id''] manifest,
         record_runtime_digest = pointer_str [''provenance'', ''runtime'', ''digest''] manifest,
         record_openusd = openusd, record_openusd_verification = verification,
         record_source_identity = source_id, record_dependencies = dependencies,
         record_component = component \<rparr>))))))))))))))"

section \<open>What a record promises\<close>

lemma plain_filename_split: "is_plain_archive_filename name \<Longrightarrow> split_on any_slash name = [name]"
  by (intro split_on_plain) (auto simp: is_plain_archive_filename_def any_slash_def)

interpretation archive_filename: path_guard any_slash is_plain_archive_filename
proof
  fix name assume plain: "is_plain_archive_filename name"
  then have "hd name \<in> set name" "name \<noteq> ''..''" by (auto simp: is_plain_archive_filename_def)
  moreover have "\<not> any_slash c" if "c \<in> set name" for c
    using plain that by (auto simp: is_plain_archive_filename_def any_slash_def)
  ultimately show "contained any_slash name"
    by (intro contained_no_parent) (simp_all add: plain_filename_split [OF plain])
qed

lemma plain_filename_below:
  "is_plain_archive_filename name \<Longrightarrow> walk base (split_on any_slash name) = Some (base @ [name])"
  by (simp add: plain_filename_split) (simp add: is_plain_archive_filename_def)

lemma try_map_ok: "try_map f xs = Inr ys \<longleftrightarrow> list_all2 (\<lambda>x y. f x = Inr y) xs ys"
  by (induction xs arbitrary: ys) (auto simp: res_simps list_all2_Cons1)

lemma require_str_ok: "require_str v key = Inr s \<longleftrightarrow> get_str key v = Some s"
  by (simp add: require_str_def split: option.split)

lemma require_u64_ok: "require_u64 v key = Inr n \<longleftrightarrow> Option.bind (json_get key v) as_u64 = Some n"
  by (simp add: require_u64_def split: option.split)

lemma require_archive_filename_ok:
  "require_archive_filename v = Inr a \<longleftrightarrow> get_str ''archive'' v = Some a \<and> is_plain_archive_filename a"
  by (auto simp: require_archive_filename_def res_simps require_str_ok)

text \<open>Sorted by the derived order, equal names are neighbours.\<close>

lemma dependency_key_name: "dependency_key a \<le> dependency_key b \<Longrightarrow> dep_name a \<le> dep_name b"
  by (auto simp: dependency_key_def less_eq_prod_def)

lemma repeated_name_None:
  "sorted (map dep_name ds) \<Longrightarrow> repeated_name ds = None \<longleftrightarrow> distinct (map dep_name ds)"
proof (induction ds rule: repeated_name.induct)
  case (1 a b ds)
  show ?case
  proof (cases "dep_name a = dep_name b")
    case False
    with "1.prems" have "dep_name a < dep_name b" by auto
    with "1.prems" have "\<forall>d \<in> set (b # ds). dep_name a < dep_name d" by auto
    then have "dep_name a \<notin> dep_name ` set (b # ds)" by auto
    with False 1 show ?thesis by simp
  qed simp
qed simp_all

definition dependencies_normal :: "dependency_identity list \<Rightarrow> bool" where
  "dependencies_normal ds \<longleftrightarrow>
     list_all dependency_verified ds \<and> sorted (map dep_name ds) \<and> distinct (map dep_name ds)"

lemma read_dependency_ok:
  "read_dependency rd (i, v) = Inr d \<longleftrightarrow> rd_dependency rd v = Inr d \<and> dependency_verified d"
  by (auto simp: read_dependency_def split: sum.splits if_splits)

lemma sorted_dep_names: "sorted (map dep_name (sort_key dependency_key ds))"
  using sorted_sort_key [of dependency_key ds]
  by (auto simp: sorted_wrt_map intro: sorted_wrt_mono_rel [rotated] dest: dependency_key_name)

text \<open>The values a dependency list is read from.\<close>

definition dependency_values :: "json \<Rightarrow> json list" where
  "dependency_values manifest =
     items (Option.bind (json_pointer [''build'', ''dependencies''] manifest) as_array)"

lemma normalize_dependencies_ok:
  assumes "normalize_dependency_identities rd manifest = Inr ds"
  shows "dependencies_normal ds
     \<and> (\<exists>read. ds = sort_key dependency_key read
          \<and> list_all2 (\<lambda>v d. rd_dependency rd v = Inr d) (dependency_values manifest) read)"
proof (cases "non_null (json_pointer [''build'', ''dependencies''] manifest)")
  case None
  then have "dependency_values manifest = []"
    by (auto simp: non_null_def dependency_values_def items_def split: option.splits if_splits)
  with None assms show ?thesis
    by (auto simp: normalize_dependency_identities_def dependencies_normal_def)
next
  case (Some arr)
  then obtain vs where "as_array arr = Some vs"
    using assms by (auto simp: normalize_dependency_identities_def split: option.splits)
  with Some have vs: "dependency_values manifest = vs"
    by (simp add: dependency_values_def non_null_Some items_def)
  obtain read where read: "try_map (read_dependency rd) (enumerate 0 vs) = Inr read"
    and ds: "ds = sort_key dependency_key read" and unique: "repeated_name ds = None"
    using assms Some \<open>as_array arr = Some vs\<close>
    by (auto simp: normalize_dependency_identities_def res_simps Let_def split: option.splits)
  have len: "length read = length vs"
    using list_all2_lengthD [OF read [unfolded try_map_ok]] by simp
  have each: "rd_dependency rd (vs ! i) = Inr (read ! i) \<and> dependency_verified (read ! i)"
    if "i < length vs" for i
    using list_all2_nthD [OF read [unfolded try_map_ok], of i] that
    by (simp add: nth_enumerate_eq read_dependency_ok)
  have "list_all2 (\<lambda>v d. rd_dependency rd v = Inr d) vs read"
    using len each by (simp add: list_all2_conv_all_nth)
  moreover have "\<forall>d \<in> set read. dependency_verified d"
    using len each by (auto simp: in_set_conv_nth)
  then have "dependencies_normal ds"
    using unique repeated_name_None [of ds] sorted_dep_names [of read]
    by (simp add: dependencies_normal_def ds list_all_iff)
  ultimately show ?thesis using ds vs by blast
qed

text \<open>
  An OpenUSD identity is bound to the manifest: it is verified, both copies of it agree, and it
  matches the platform, the target and the Python tag of the artifact.
\<close>

definition openusd_bound :: "manifest_reader \<Rightarrow> json \<Rightarrow> artifact_record \<Rightarrow> compatibility \<Rightarrow> bool" where
  "openusd_bound rd manifest r c \<longleftrightarrow>
     record_kind r = RuntimeArtifact
     \<and> (compat_schema c = 1 \<and> providers_are_verified c \<or> compat_schema c = 2 \<and> compat_verified c)
     \<and> (\<exists>v. json_get ''openusd_compatibility'' manifest = Some v
          \<and> json_pointer [''provenance'', ''runtime_manifest'', ''openusd_compatibility''] manifest = Some v
          \<and> rd_compatibility rd v = Inr c)
     \<and> pointer_str [''provenance'', ''platform''] manifest = Some (compat_platform c)
     \<and> starts_with (os_as_str (compat_os c) @ ''-'' @ arch_as_str (compat_arch c) @ ''-'') (record_target r)
     \<and> (\<exists>version token. rp_version (compat_python c) = Some version
          \<and> python_abi_token version = Some token
          \<and> token \<in> set (split_char (CHR ''-'') (record_target r)))"

lemma agreed_copies_ok:
  "agreed_copies field what manifest = Inr (Some v) \<longleftrightarrow>
     v \<noteq> JNull \<and> json_get field manifest = Some v
     \<and> json_pointer [''provenance'', ''runtime_manifest'', field] manifest = Some v"
  by (auto simp: agreed_copies_def Let_def non_null_def split: option.splits if_splits
      simp del: json_pointer.simps)

lemma check_compatibility_ok:
  "check_compatibility c platform target = Inr () \<longleftrightarrow>
     (compat_schema c = 1 \<and> providers_are_verified c \<or> compat_schema c = 2 \<and> compat_verified c)
     \<and> platform = Some (compat_platform c)
     \<and> starts_with (os_as_str (compat_os c) @ ''-'' @ arch_as_str (compat_arch c) @ ''-'') target
     \<and> (\<exists>version token. rp_version (compat_python c) = Some version
          \<and> python_abi_token version = Some token \<and> token \<in> set (split_char (CHR ''-'') target))"
  (is "_ \<longleftrightarrow> ?schema \<and> ?platform \<and> ?target \<and> ?python")
proof -
  define failure where "failure = (if compat_schema c = 1 then providers_failure c else verification_failure c)"
  have "?schema \<longleftrightarrow> (compat_schema c = 1 \<or> compat_schema c = 2) \<and> failure = None"
    by (auto simp: failure_def providers_failure_None verification_failure_None)
  then show ?thesis
    unfolding check_compatibility_def failure_def [symmetric]
    by (auto split: option.splits bind_splits if_splits)
qed

lemma openusd_ok:
  assumes "normalize_openusd_compatibility rd manifest kind platform target = Inr (Some c)"
  shows "kind = RuntimeArtifact
     \<and> (\<exists>v. json_get ''openusd_compatibility'' manifest = Some v
          \<and> json_pointer [''provenance'', ''runtime_manifest'', ''openusd_compatibility''] manifest = Some v
          \<and> rd_compatibility rd v = Inr c)
     \<and> check_compatibility c platform target = Inr ()"
proof -
  have kind: "kind = RuntimeArtifact"
    using assms by (auto simp: normalize_openusd_compatibility_def split: if_splits)
  with assms obtain copy where copy:
      "agreed_copies ''openusd_compatibility'' ''compatibility identity'' manifest = Inr (Some copy)"
    and rest: "(case rd_compatibility rd copy of
         Inl e \<Rightarrow> Inl (InvalidManifest (''producer manifest 'openusd_compatibility' is invalid: '' @ e))
       | Inr c \<Rightarrow> and_then (check_compatibility c platform target) (\<lambda>_. Inr (Some c))) = Inr (Some c)"
    unfolding normalize_openusd_compatibility_def and_then_eq_Inr
    by (auto simp: and_then_eq_Inr simp del: append.simps split: option.splits)
  from rest have "rd_compatibility rd copy = Inr c" "check_compatibility c platform target = Inr ()"
    by (auto simp: and_then_eq_Inr split: sum.splits)
  with kind copy show ?thesis by (auto simp: agreed_copies_ok simp del: json_pointer.simps)
qed

lemma component_ok:
  "normalize_component rd manifest name version = Inr (Some contract) \<Longrightarrow>
     contract_valid contract \<and> contract_id contract = name \<and> contract_version contract = version"
  by (auto simp: normalize_component_def res_simps contract_validate_ok
      split: option.splits sum.splits if_splits)

lemma source_ok:
  "normalize_source_identity manifest = Inr (Some s) \<Longrightarrow>
     source_verified s
     \<and> pointer_str [''build'', ''source'', ''repository''] manifest = Some (src_repository s)
     \<and> pointer_str [''build'', ''source'', ''revision''] manifest = Some (src_revision s)"
  by (auto simp: normalize_source_identity_def source_verified_def get_str_pointer pointer_str_def
      non_null_Some split: option.splits if_splits)

lemma record_fields:
  assumes "from_producer_manifest rd manifest source created imported_by = Inr r"
  shows "get_str ''archive_digest'' manifest = Some (record_digest r) \<and> is_sha256_ref (record_digest r)
     \<and> get_str ''archive'' manifest = Some (record_archive r) \<and> is_plain_archive_filename (record_archive r)
     \<and> record_archive_size r < 2 ^ 64
     \<and> record_source r = source \<and> record_trust r = initial_trust source
     \<and> detect_kind manifest = Inr (record_kind r)
     \<and> (record_kind r = ComposedRuntimeArtifact \<longrightarrow> check_composed manifest = Inr ())
     \<and> normalize_openusd_compatibility rd manifest (record_kind r)
           (pointer_str [''provenance'', ''platform''] manifest) (record_target r) = Inr (record_openusd r)
     \<and> normalize_source_identity manifest = Inr (record_source_identity r)
     \<and> normalize_dependency_identities rd manifest = Inr (record_dependencies r)
     \<and> normalize_component rd manifest (record_name r) (record_version r) = Inr (record_component r)
     \<and> record_sbom r = None \<and> record_provenance r = None"
  using assms
  by (auto simp: from_producer_manifest_def res_simps require_str_ok require_archive_filename_ok
      require_u64_ok bind_eq_Some_conv dest: as_u64_bound split: if_splits)


section \<open>A sample manifest\<close>

definition sample_dependency :: dependency_identity where
  "sample_dependency =
     \<lparr> dep_name = ''onetbb'', dep_version = ''2022.1'',
       dep_source = \<lparr> src_repository = ''https://github.com/uxlfoundation/oneTBB'', src_revision = ''45587e9'' \<rparr>,
       dep_archive_digest = None \<rparr>"

definition sample_dependency_json :: json where
  "sample_dependency_json = JObject
     [(''name'', JString ''onetbb''),
      (''source'', JObject [(''repository'', JString ''https://github.com/uxlfoundation/oneTBB''),
                           (''revision'', JString ''45587e9'')]),
      (''version'', JString ''2022.1'')]"

definition sample_build :: json where
  "sample_build = JObject
     [(''builder'', JObject [(''id'', JString ''builder-1'')]),
      (''dependencies'', JArray [sample_dependency_json]),
      (''source'', JObject [(''repository'', JString ''org/usd''), (''revision'', JString ''0a1b2c3'')])]"

text \<open>A stand-in for the serialised identity; the sample reader recognises it.\<close>

definition sample_identity_json :: json where
  "sample_identity_json = JObject [(''schema'', JInt 2)]"

definition sample_runtime_manifest :: json where
  "sample_runtime_manifest = JObject
     [(''archive'', JString ''usd.tar.zst''),
      (''archive_digest'', JString (''sha256:'' @ replicate 64 (CHR ''a''))),
      (''archive_size'', JInt 4),
      (''build'', sample_build),
      (''files'', JArray []),
      (''kind'', JString ''openstrata.runtime''),
      (''licenses'', JArray [JString ''Apache-2.0'']),
      (''name'', JString ''usd''),
      (''openusd_compatibility'', sample_identity_json),
      (''provenance'', JObject
         [(''platform'', JString ''cy2026''),
          (''runtime_manifest'', JObject [(''openusd_compatibility'', sample_identity_json)]),
          (''validation'', JString ''passed'')]),
      (''target'', JString ''linux-x86_64-gcc14-py313-usd''),
      (''total_size'', JInt 8),
      (''version'', JString ''26.05'')]"

definition sample_reader :: manifest_reader where
  "sample_reader =
     \<lparr> rd_component = (\<lambda>_. Inl ''no component''),
       rd_compatibility = (\<lambda>v. if v = sample_identity_json then Inr sample_compatibility else Inl ''identity''),
       rd_verification = (\<lambda>_. Inl ''verification''),
       rd_dependency = (\<lambda>v. if v = sample_dependency_json then Inr sample_dependency else Inl ''dependency''),
       rd_file = (\<lambda>_. Inl ''file''), rd_show = (\<lambda>_. []) \<rparr>"

definition sample_runtime_record :: artifact_record where
  "sample_runtime_record =
     (plain_record RuntimeArtifact ''usd'' ''26.05'' ''linux-x86_64-gcc14-py313-usd''
        (''sha256:'' @ replicate 64 (CHR ''a'')) None)
     \<lparr> record_archive := ''usd.tar.zst'', record_archive_size := 4, record_total_size := 8,
       record_validation := ''passed'', record_licenses := [''Apache-2.0''],
       record_openusd := Some sample_compatibility,
       record_source_identity := Some \<lparr> src_repository = ''org/usd'', src_revision = ''0a1b2c3'' \<rparr>,
       record_dependencies := [sample_dependency] \<rparr>"

lemma sample_derivation:
  "from_producer_manifest sample_reader sample_runtime_manifest Imported 0 ''ost'' = Inr sample_runtime_record"
  by code_simp


end
