(* ===== verification/FileSystem.thy ===== *)
theory FileSystem
  imports Encodings Paths "HOL-Library.AList"
begin

text \<open>
  Files: what the modelled code reads off a disk, a file system whose operations may fail at any
  point or end with the process, and the helpers of ost-core/src/fs.rs: the atomic write, the
  robust removal of a tree and the preparation of a staging directory.

  A path is its text; two spellings of one file are two paths here.  There are no links: the
  guard of the atomic write against one is the field \<open>fs_symlink\<close>.
\<close>

section \<open>Reading a disk\<close>

text \<open>
  The answers of the disk: the contents of a file or the error of reading it, the error of
  reading it as text when it is not UTF-8, and the error of writing or removing a file, if any.
\<close>

record disk =
  disk_contents :: "string \<rightharpoonup> string"
  disk_read_error :: "string \<Rightarrow> string option"
  disk_missing :: string
  disk_utf8_error :: "string \<Rightarrow> string option"
  disk_write_error :: "string \<Rightarrow> string option"

definition disk_read :: "disk \<Rightarrow> string \<Rightarrow> string res" where
  "disk_read d path =
     (case disk_read_error d path of
        Some e \<Rightarrow> Inl (Io path e)
      | None \<Rightarrow> (case disk_contents d path of None \<Rightarrow> Inl (Io path (disk_missing d)) | Some s \<Rightarrow> Inr s))"

definition disk_read_text :: "disk \<Rightarrow> string \<Rightarrow> string res" where
  "disk_read_text d path =
     and_then (disk_read d path) (\<lambda>s.
       case disk_utf8_error d s of Some e \<Rightarrow> Inl (Io path e) | None \<Rightarrow> Inr s)"

section \<open>Parents and names\<close>

text \<open>\<^verbatim>\<open>file_name\<close> and \<^verbatim>\<open>parent\<close> of a Unix path, by its text.\<close>

definition path_file_name :: "string \<Rightarrow> string option" where
  "path_file_name p = (case rev (components p) of Normal name # _ \<Rightarrow> Some name | _ \<Rightarrow> None)"

definition trim_parts :: "string list \<Rightarrow> string list" where
  "trim_parts parts = rev (dropWhile (\<lambda>x. x = [] \<or> x = ''.'') (rev parts))"

definition path_parent :: "string \<Rightarrow> string option" where
  "path_parent p =
     (let parts = split_on slash p; first = hd parts; rest = trim_parts (tl parts)
      in if rest = [] then (if first = [] then None else Some [])
         else let above = trim_parts (butlast rest)
              in if above = [] then Some (if first = [] then ''/'' else first)
                 else Some (join ''/'' (first # above)))"

section \<open>A file system with faults\<close>

datatype node = Dir | Bytes string

datatype os_kind = NotFound | AlreadyExists | OtherKind

type_synonym os_error = "os_kind \<times> string"

type_synonym 'a std = "os_error + 'a"

text \<open>
  A fault stops one operation with a message.  It may end the process (nothing later has an
  effect), leave a partial file where one was being written, and let a removal of a tree lose
  only part of it.
\<close>

record fault =
  ft_message :: string
  ft_dies :: bool
  ft_partial :: "string option"
  ft_lost :: "string \<Rightarrow> bool"

text \<open>
  The state: the nodes by path, the answers of the operating system that do not change (errors
  of reading, links, the identifier of the process), those that depend on the number of
  operations so far (faults, random tokens, the time), that number, and whether the process has
  died.
\<close>

record fs =
  fs_nodes :: "(string \<times> node) list"
  fs_read_error :: "string \<Rightarrow> string option"
  fs_missing :: string
  fs_utf8_error :: "string \<Rightarrow> string option"
  fs_symlink :: "string \<Rightarrow> bool"
  fs_pid :: nat
  fs_faults :: "nat \<Rightarrow> fault option"
  fs_random :: "nat \<Rightarrow> 64 word"
  fs_time :: "nat \<Rightarrow> nat"
  fs_tick :: nat
  fs_dead :: bool

definition node :: "fs \<Rightarrow> string \<Rightarrow> node option" where
  "node st p = map_of (fs_nodes st) p"

definition put :: "string \<Rightarrow> node \<Rightarrow> fs \<Rightarrow> fs" where
  "put p n st = st\<lparr>fs_nodes := AList.update p n (fs_nodes st)\<rparr>"

definition drop_nodes :: "(string \<Rightarrow> bool) \<Rightarrow> fs \<Rightarrow> fs" where
  "drop_nodes P st = st\<lparr>fs_nodes := filter (\<lambda>(q, _). \<not> P q) (fs_nodes st)\<rparr>"

text \<open>The directory of a path, and the paths below one; the root and the current directory always exist.\<close>

definition dir_of :: "string \<Rightarrow> string" where
  "dir_of p = (case rsplit_once (CHR ''/'') p of None \<Rightarrow> [] | Some (a, _) \<Rightarrow> if a = [] then ''/'' else a)"

definition below :: "string \<Rightarrow> string \<Rightarrow> string option" where
  "below p q = strip_prefix (p @ ''/'') q"

definition is_dir :: "fs \<Rightarrow> string \<Rightarrow> bool" where
  "is_dir st p \<longleftrightarrow> p \<in> {[], ''/'', ''.''} \<or> node st p = Some Dir"

definition is_file :: "fs \<Rightarrow> string \<Rightarrow> bool" where
  "is_file st p \<longleftrightarrow> (case node st p of Some (Bytes _) \<Rightarrow> True | _ \<Rightarrow> False)"

definition path_exists :: "fs \<Rightarrow> string \<Rightarrow> bool" where
  "path_exists st p \<longleftrightarrow> is_dir st p \<or> node st p \<noteq> None"

definition inhabited :: "fs \<Rightarrow> string \<Rightarrow> bool" where
  "inhabited st p \<longleftrightarrow> list_ex (\<lambda>(q, _). below p q \<noteq> None) (fs_nodes st)"

definition can_write :: "fs \<Rightarrow> string \<Rightarrow> bool" where
  "can_write st p \<longleftrightarrow> is_dir st (dir_of p) \<and> \<not> is_dir st p"

definition fs_disk :: "fs \<Rightarrow> disk" where
  "fs_disk st =
     \<lparr> disk_contents = (\<lambda>p. case node st p of Some (Bytes s) \<Rightarrow> Some s | _ \<Rightarrow> None),
       disk_read_error = fs_read_error st, disk_missing = fs_missing st,
       disk_utf8_error = fs_utf8_error st, disk_write_error = (\<lambda>_. None) \<rparr>"

section \<open>Operations\<close>

type_synonym ('e, 'a) act = "fs \<Rightarrow> ('e + 'a) \<times> fs"

definition guarded :: "(fault \<Rightarrow> fs \<Rightarrow> fs) \<Rightarrow> (os_error, 'a) act \<Rightarrow> (os_error, 'a) act" where
  "guarded torn act st =
     (if fs_dead st then (Inl (OtherKind, []), st)
      else let now = st\<lparr>fs_tick := Suc (fs_tick st)\<rparr>
           in case fs_faults st (fs_tick st) of
                None \<Rightarrow> act now
              | Some f \<Rightarrow> (Inl (OtherKind, ft_message f), (torn f now)\<lparr>fs_dead := ft_dies f\<rparr>))"

definition bind_act :: "('e, 'a) act \<Rightarrow> ('a \<Rightarrow> ('e, 'b) act) \<Rightarrow> ('e, 'b) act" where
  "bind_act m k st = (case m st of (Inl e, st') \<Rightarrow> (Inl e, st') | (Inr x, st') \<Rightarrow> k x st')"

definition pure :: "'e + 'a \<Rightarrow> ('e, 'a) act" where
  "pure r st = (r, st)"

text \<open>\<^verbatim>\<open>map_err(|e| Error::io(path, e))\<close>\<close>

definition io_at :: "string \<Rightarrow> (os_error, 'a) act \<Rightarrow> (error, 'a) act" where
  "io_at p m st = (case m st of (Inl (_, why), st') \<Rightarrow> (Inl (Io p why), st') | (Inr x, st') \<Rightarrow> (Inr x, st'))"

definition std_read :: "fs \<Rightarrow> string \<Rightarrow> string std" where
  "std_read st p =
     (case fs_read_error st p of
        Some e \<Rightarrow> Inl (OtherKind, e)
      | None \<Rightarrow>
          (case node st p of
             Some (Bytes s) \<Rightarrow> Inr s
           | Some Dir \<Rightarrow> Inl (OtherKind, fs_missing st)
           | None \<Rightarrow> Inl (NotFound, fs_missing st)))"

definition torn_write :: "string \<Rightarrow> fault \<Rightarrow> fs \<Rightarrow> fs" where
  "torn_write p f st =
     (case ft_partial f of Some s \<Rightarrow> if can_write st p then put p (Bytes s) st else st | None \<Rightarrow> st)"

definition write_node :: "string \<Rightarrow> string \<Rightarrow> (os_error, unit) act" where
  "write_node p s st =
     (if can_write st p then (Inr (), put p (Bytes s) st) else (Inl (NotFound, fs_missing st), st))"

definition std_write :: "string \<Rightarrow> string \<Rightarrow> (os_error, unit) act" where
  "std_write p s = guarded (torn_write p) (write_node p s)"

definition std_copy :: "string \<Rightarrow> string \<Rightarrow> (os_error, unit) act" where
  "std_copy src dst =
     guarded (\<lambda>f st. case std_read st src of Inl _ \<Rightarrow> st | Inr _ \<Rightarrow> torn_write dst f st)
       (\<lambda>st. case std_read st src of Inl e \<Rightarrow> (Inl e, st) | Inr s \<Rightarrow> write_node dst s st)"

definition std_create_new :: "string \<Rightarrow> (os_error, unit) act" where
  "std_create_new p =
     guarded (\<lambda>_ st. st)
       (\<lambda>st. if path_exists st p then (Inl (AlreadyExists, fs_missing st), st) else write_node p [] st)"

definition std_sync :: "(os_error, unit) act" where
  "std_sync = guarded (\<lambda>_ st. st) (\<lambda>st. (Inr (), st))"

definition std_remove_file :: "string \<Rightarrow> (os_error, unit) act" where
  "std_remove_file p =
     guarded (\<lambda>_ st. st)
       (\<lambda>st. if is_file st p then (Inr (), drop_nodes (\<lambda>q. q = p) st)
             else (Inl (if path_exists st p then OtherKind else NotFound, fs_missing st), st))"

definition std_create_dir :: "string \<Rightarrow> (os_error, unit) act" where
  "std_create_dir p =
     guarded (\<lambda>_ st. st)
       (\<lambda>st. if path_exists st p then (Inl (AlreadyExists, fs_missing st), st)
             else if is_dir st (dir_of p) then (Inr (), put p Dir st)
             else (Inl (NotFound, fs_missing st), st))"

text \<open>The path and the directories above it, outermost first.\<close>

definition lineage :: "string \<Rightarrow> string list" where
  "lineage p = map (\<lambda>i. take i p) (filter (\<lambda>i. 0 < i \<and> p ! i = CHR ''/'') [0..<length p]) @ [p]"

fun create_dirs :: "string list \<Rightarrow> (os_error, unit) act" where
  "create_dirs [] st = (Inr (), st)"
| "create_dirs (p # ps) st =
     (if is_dir st p then create_dirs ps st else bind_act (std_create_dir p) (\<lambda>_. create_dirs ps) st)"

definition std_create_dir_all :: "string \<Rightarrow> (os_error, unit) act" where
  "std_create_dir_all p = create_dirs (lineage p)"

text \<open>A torn removal loses some of the paths below, a directory only with all it holds.\<close>

definition torn_remove :: "string \<Rightarrow> fault \<Rightarrow> fs \<Rightarrow> fs" where
  "torn_remove p f st =
     drop_nodes (\<lambda>q. below p q \<noteq> None \<and> ft_lost f q
       \<and> list_all (\<lambda>(r, _). below q r \<noteq> None \<longrightarrow> ft_lost f r) (fs_nodes st)) st"

definition std_remove_dir_all :: "string \<Rightarrow> (os_error, unit) act" where
  "std_remove_dir_all p =
     guarded (torn_remove p)
       (\<lambda>st. case node st p of
               None \<Rightarrow> (Inl (NotFound, fs_missing st), st)
             | Some (Bytes _) \<Rightarrow> (Inl (OtherKind, fs_missing st), st)
             | Some Dir \<Rightarrow> (Inr (), drop_nodes (\<lambda>q. q = p \<or> below p q \<noteq> None) st))"

text \<open>A rename is atomic; a directory takes what it holds along and replaces an empty one.\<close>

definition moved :: "string \<Rightarrow> string \<Rightarrow> string \<Rightarrow> string" where
  "moved src dst q =
     (if q = src then dst else case below src q of None \<Rightarrow> q | Some r \<Rightarrow> dst @ ''/'' @ r)"

definition move_nodes :: "string \<Rightarrow> string \<Rightarrow> fs \<Rightarrow> fs" where
  "move_nodes src dst st =
     st\<lparr>fs_nodes := map (\<lambda>(q, n). (moved src dst q, n)) (filter (\<lambda>(q, _). q \<noteq> dst) (fs_nodes st))\<rparr>"

definition std_rename :: "string \<Rightarrow> string \<Rightarrow> (os_error, unit) act" where
  "std_rename src dst =
     guarded (\<lambda>_ st. st)
       (\<lambda>st. case node st src of
               None \<Rightarrow> (Inl (NotFound, fs_missing st), st)
             | Some (Bytes s) \<Rightarrow>
                 if can_write st dst
                 then (Inr (), put dst (Bytes s) (if src = dst then st else drop_nodes (\<lambda>q. q = src) st))
                 else (Inl (OtherKind, fs_missing st), st)
             | Some Dir \<Rightarrow>
                 if src = dst then (Inr (), st)
                 else if is_dir st (dir_of dst) \<and> \<not> is_file st dst \<and> \<not> inhabited st dst
                    \<and> src \<notin> {[], ''/'', ''.''} \<and> dst \<notin> {[], ''/'', ''.''} \<and> below src dst = None
                 then (Inr (), move_nodes src dst st)
                 else (Inl (OtherKind, fs_missing st), st))"

section \<open>The atomic write\<close>

definition MAX_TEMP_ATTEMPTS :: nat where
  "MAX_TEMP_ATTEMPTS = 16"

definition random_token :: "fs \<Rightarrow> 64 word" where
  "random_token st = fs_random st (fs_tick st)"

text \<open>\<^verbatim>\<open>{:016x}\<close>\<close>

definition hex16 :: "64 word \<Rightarrow> string" where
  "hex16 w = to_hex (rev (le_bytes 8 w))"

definition temp_name :: "string \<Rightarrow> 64 word \<Rightarrow> string" where
  "temp_name name token = ''.'' @ name @ ''.ost-'' @ hex16 token @ ''.tmp''"

fun create_temp :: "nat \<Rightarrow> string \<Rightarrow> string \<Rightarrow> string option \<Rightarrow> (error, string) act" where
  "create_temp 0 dir name last_err st =
     (Inl (Io (path_join dir name)
        (case last_err of None \<Rightarrow> ''temp name collision'' | Some e \<Rightarrow> e)), st)"
| "create_temp (Suc n) dir name last_err st =
     (let tmp = path_join dir (temp_name name (random_token st))
      in case std_create_new tmp st of
           (Inr _, st') \<Rightarrow> (Inr tmp, st')
         | (Inl (kind, e), st') \<Rightarrow>
             if kind = AlreadyExists then create_temp n dir name (Some e) st'
             else (Inl (Io tmp e), st'))"

definition parent_or_here :: "string \<Rightarrow> string" where
  "parent_or_here path =
     (case path_parent path of None \<Rightarrow> ''.'' | Some p \<Rightarrow> if p = [] then ''.'' else p)"

definition name_or :: "string \<Rightarrow> string \<Rightarrow> string" where
  "name_or fallback path = (case path_file_name path of None \<Rightarrow> fallback | Some n \<Rightarrow> n)"

text \<open>The best-effort synchronisation of the directory changes nothing here.\<close>

definition write_atomic :: "string \<Rightarrow> string \<Rightarrow> (error, unit) act" where
  "write_atomic path contents st =
     (if fs_symlink st path
      then (Inl (Io path ''refusing to write atomically over a symlink''), st)
      else
        bind_act (create_temp MAX_TEMP_ATTEMPTS (parent_or_here path) (name_or ''tmp'' path) None) (\<lambda>tmp st.
          case bind_act (std_write tmp contents) (\<lambda>_. std_sync) st of
            (Inl (_, e), st') \<Rightarrow> (Inl (Io tmp e), snd (std_remove_file tmp st'))
          | (Inr _, st') \<Rightarrow>
              (case std_rename tmp path st' of
                 (Inl (_, e), st'') \<Rightarrow> (Inl (Io path e), snd (std_remove_file tmp st''))
               | (Inr _, st'') \<Rightarrow> (Inr (), st''))) st)"

section \<open>Staging directories\<close>

text \<open>The removal is tried once and again after each of the four delays.\<close>

fun remove_again :: "nat \<Rightarrow> string \<Rightarrow> (os_error, unit) act" where
  "remove_again 0 dir st = std_remove_dir_all dir st"
| "remove_again (Suc n) dir st =
     (case std_remove_dir_all dir st of
        (Inl (kind, e), st') \<Rightarrow> if kind = NotFound then (Inl (kind, e), st') else remove_again n dir st'
      | (Inr x, st') \<Rightarrow> (Inr x, st'))"

definition remove_dir_all_robust :: "string \<Rightarrow> (os_error, unit) act" where
  "remove_dir_all_robust dir st =
     (case remove_again 4 dir st of
        (Inl (kind, e), st') \<Rightarrow> (if kind = NotFound then Inr () else Inl (kind, e), st')
      | (Inr x, st') \<Rightarrow> (Inr x, st'))"

definition CLEAN_RECLAIM_ROUNDS :: nat where
  "CLEAN_RECLAIM_ROUNDS = 3"

record staging_outcome =
  staging_path :: string
  staging_swept :: nat
  staging_leftover :: nat

definition fell_back :: "staging_outcome \<Rightarrow> string \<Rightarrow> bool" where
  "fell_back outcome preferred \<longleftrightarrow> staging_path outcome \<noteq> preferred"

definition fallback_suffix :: "string \<Rightarrow> string \<Rightarrow> bool" where
  "fallback_suffix name s \<longleftrightarrow>
     (case strip_prefix (name @ ''-'') s of
        None \<Rightarrow> False
      | Some tail \<Rightarrow> length tail = 16 \<and> list_all is_ascii_hexdigit tail)"

text \<open>The names the listing of the parent yields are an argument; no listing, no sweep.\<close>

fun sweep_names :: "string \<Rightarrow> string \<Rightarrow> string list \<Rightarrow> nat \<times> nat \<Rightarrow> fs \<Rightarrow> (nat \<times> nat) \<times> fs" where
  "sweep_names parent name [] counts st = (counts, st)"
| "sweep_names parent name (s # ss) (swept, leftover) st =
     (if fallback_suffix name s
      then case remove_dir_all_robust (path_join parent s) st of
             (Inr _, st') \<Rightarrow> sweep_names parent name ss (swept + 1, leftover) st'
           | (Inl _, st') \<Rightarrow> sweep_names parent name ss (swept, leftover + 1) st'
      else sweep_names parent name ss (swept, leftover) st)"

definition sweep_stale_staging :: "string \<Rightarrow> string \<Rightarrow> string list option \<Rightarrow> fs \<Rightarrow> (nat \<times> nat) \<times> fs" where
  "sweep_stale_staging parent name entries =
     (case entries of None \<Rightarrow> (\<lambda>st. ((0, 0), st)) | Some names \<Rightarrow> sweep_names parent name names (0, 0))"

text \<open>One reclaiming round: both steps succeeded or not.\<close>

definition reclaim_round :: "string \<Rightarrow> fs \<Rightarrow> bool \<times> fs" where
  "reclaim_round preferred st =
     (case bind_act (remove_dir_all_robust preferred) (\<lambda>_. std_create_dir_all preferred) st of
        (r, st') \<Rightarrow> (is_ok r, st'))"

fun reclaim :: "nat \<Rightarrow> string \<Rightarrow> fs \<Rightarrow> bool \<times> fs" where
  "reclaim 0 preferred st = (False, st)"
| "reclaim (Suc n) preferred st =
     (case reclaim_round preferred st of
        (ok, st') \<Rightarrow> if ok then (True, st') else reclaim n preferred st')"

fun create_fallback :: "nat \<Rightarrow> string \<Rightarrow> string \<Rightarrow> string \<Rightarrow> string option \<Rightarrow> (error, string) act" where
  "create_fallback 0 preferred parent name last_err st =
     (Inl (Io preferred (case last_err of None \<Rightarrow> ''staging name collision'' | Some e \<Rightarrow> e)), st)"
| "create_fallback (Suc n) preferred parent name last_err st =
     (let alt = path_join parent (name @ ''-'' @ hex16 (random_token st))
      in case std_create_dir alt st of
           (Inr _, st') \<Rightarrow> (Inr alt, st')
         | (Inl (kind, e), st') \<Rightarrow>
             if kind = AlreadyExists then create_fallback n preferred parent name (Some e) st'
             else (Inl (Io alt e), st'))"

definition prepare_staging_dir :: "string list option \<Rightarrow> string \<Rightarrow> bool \<Rightarrow> (error, staging_outcome) act" where
  "prepare_staging_dir entries preferred clean st =
     (let parent = parent_or_here preferred; name = name_or ''stage'' preferred
      in case sweep_stale_staging parent name entries st of ((swept, leftover), st1) \<Rightarrow>
         (case reclaim (if clean then CLEAN_RECLAIM_ROUNDS else 1) preferred st1 of (ok, st2) \<Rightarrow>
            if ok then (Inr \<lparr> staging_path = preferred, staging_swept = swept, staging_leftover = leftover \<rparr>, st2)
            else bind_act (io_at parent (std_create_dir_all parent)) (\<lambda>_.
                 bind_act (create_fallback MAX_TEMP_ATTEMPTS preferred parent name None) (\<lambda>alt.
                   pure (Inr \<lparr> staging_path = alt, staging_swept = swept, staging_leftover = leftover \<rparr>))) st2))"

section \<open>Nodes after an operation\<close>

named_theorems fs_simps "nodes and environment after an update of the state"
named_theorems touch_rules "what an operation leaves alone"
named_theorems tree_rules "operations that keep the tree"

lemma node_put [fs_simps]: "node (put p n st) q = (if q = p then Some n else node st q)"
  by (simp add: node_def put_def update_conv')

lemma map_of_drop: "map_of (filter (\<lambda>(q, _). \<not> P q) xs) q = (if P q then None else map_of xs q)"
  by (induction xs) auto

lemma node_drop [fs_simps]: "node (drop_nodes P st) q = (if P q then None else node st q)"
  by (simp add: node_def drop_nodes_def map_of_drop)

lemma node_fields [fs_simps]:
  "node (st\<lparr>fs_tick := t\<rparr>) = node st" "node (st\<lparr>fs_dead := d\<rparr>) = node st"
  by (auto simp: node_def)

lemma is_dir_fields [fs_simps]:
  "is_dir (st\<lparr>fs_tick := t\<rparr>) = is_dir st" "is_dir (st\<lparr>fs_dead := d\<rparr>) = is_dir st"
  by (auto simp: is_dir_def fs_simps)

lemma can_write_fields [fs_simps]:
  "can_write (st\<lparr>fs_tick := t\<rparr>) = can_write st" "can_write (st\<lparr>fs_dead := d\<rparr>) = can_write st"
  by (auto simp: can_write_def fs_simps)

lemma below_Some: "below p q = Some r \<longleftrightarrow> q = p @ ''/'' @ r"
  by (simp add: below_def strip_prefix_Some)

lemma below_app [simp]: "below p (p @ CHR ''/'' # r) = Some r"
  by (simp add: below_Some)

lemma below_None: "below p q = None \<longleftrightarrow> (\<forall>r. q \<noteq> p @ CHR ''/'' # r)"
  by (cases "below p q") (auto simp: below_Some dest: sym)

lemma below_self [simp]: "below p p = None"
  by (simp add: below_None)

lemma below_trans: "below p q = Some r \<Longrightarrow> below q t = Some u \<Longrightarrow> below p t = Some (r @ ''/'' @ u)"
  by (simp add: below_Some)

text \<open>Two directories above one path: one is the other or above it.\<close>

lemma below_linear:
  assumes "below p t = Some r" "below q t = Some u" "p \<noteq> q"
  shows "below p q \<noteq> None \<or> below q p \<noteq> None"
proof -
  have t: "p @ ''/'' @ r = q @ ''/'' @ u"
    using assms(1,2) by (auto simp: below_Some)
  from t obtain us where "p = q @ us \<and> us @ ''/'' @ r = ''/'' @ u \<or> p @ us = q \<and> ''/'' @ r = us @ ''/'' @ u"
    by (auto simp: append_eq_append_conv2)
  then show ?thesis
  proof
    assume "p = q @ us \<and> us @ ''/'' @ r = ''/'' @ u"
    moreover from this assms(3) obtain vs where "us = ''/'' @ vs" by (cases us) auto
    ultimately show ?thesis by (metis below_Some option.distinct(1) option.exhaust_sel)
  next
    assume "p @ us = q \<and> ''/'' @ r = us @ ''/'' @ u"
    moreover from this assms(3) obtain vs where "us = ''/'' @ vs" by (cases us) auto
    ultimately show ?thesis by (metis below_Some option.distinct(1) option.exhaust_sel)
  qed
qed

lemma dir_of_below:
  assumes "below p q = Some r"
  shows "(CHR ''/'' \<notin> set r \<and> dir_of q = (if p = [] then ''/'' else p))
     \<or> (\<exists>r' x. r = r' @ ''/'' @ x \<and> CHR ''/'' \<notin> set x \<and> dir_of q = p @ ''/'' @ r')"
proof (cases "rsplit_once (CHR ''/'') r")
  case None
  then have "rsplit_once (CHR ''/'') q = Some (p, r)" "CHR ''/'' \<notin> set r"
    using assms by (auto simp: rsplit_once_None rsplit_once_Some below_Some)
  then show ?thesis by (simp add: dir_of_def)
next
  case (Some ab)
  then obtain r' x where "rsplit_once (CHR ''/'') r = Some (r', x)" by (cases ab) auto
  then have "r = r' @ ''/'' @ x" "CHR ''/'' \<notin> set x" by (simp_all add: rsplit_once_Some)
  moreover from this have "rsplit_once (CHR ''/'') q = Some (p @ ''/'' @ r', x)"
    using assms by (simp add: rsplit_once_Some below_Some)
  ultimately show ?thesis by (auto simp: dir_of_def)
qed

lemma below_dir_of: "dir_of q = p \<Longrightarrow> p \<noteq> [] \<Longrightarrow> p \<noteq> ''/'' \<Longrightarrow> below p q \<noteq> None"
  by (auto simp: dir_of_def rsplit_once_Some split: option.splits if_splits)

lemma map_of_rekey:
  "(\<And>k. k \<in> fst ` set xs \<Longrightarrow> f k = q \<longleftrightarrow> k = g) \<Longrightarrow>
   map_of (map (\<lambda>(k, n). (f k, n)) xs) q = map_of xs g"
proof (induction xs)
  case (Cons x xs)
  have "f (fst x) = q \<longleftrightarrow> fst x = g"
    by (rule Cons.prems) simp
  moreover have "map_of (map (\<lambda>(k, n). (f k, n)) xs) q = map_of xs g"
    using Cons.prems by (intro Cons.IH) auto
  ultimately show ?case by (auto simp: case_prod_unfold)
qed simp

lemma map_of_rekey_None:
  "(\<And>k. k \<in> fst ` set xs \<Longrightarrow> f k \<noteq> q) \<Longrightarrow> map_of (map (\<lambda>(k, n). (f k, n)) xs) q = None"
  by (force simp: map_of_eq_None_iff)

lemma inhabited_iff: "inhabited st p \<longleftrightarrow> (\<exists>q. node st q \<noteq> None \<and> below p q \<noteq> None)"
proof
  assume "inhabited st p"
  then obtain q n where "(q, n) \<in> set (fs_nodes st)" "below p q \<noteq> None"
    by (auto simp: inhabited_def list_ex_iff)
  moreover from this(1) have "q \<in> fst ` set (fs_nodes st)" by force
  then have "node st q \<noteq> None" by (simp add: node_def map_of_eq_None_iff)
  ultimately show "\<exists>q. node st q \<noteq> None \<and> below p q \<noteq> None" by blast
next
  assume "\<exists>q. node st q \<noteq> None \<and> below p q \<noteq> None"
  then obtain q n where "node st q = Some n" "below p q \<noteq> None" by auto
  then show "inhabited st p"
    by (auto simp: inhabited_def list_ex_iff node_def dest!: map_of_SomeD)
qed

lemma node_move:
  assumes "\<not> inhabited st dst" "below src dst = None" "src \<noteq> dst"
  shows "node (move_nodes src dst st) q =
     (if q = dst then node st src
      else case below dst q of
        Some r \<Rightarrow> node st (src @ ''/'' @ r)
      | None \<Rightarrow> if q = src \<or> below src q \<noteq> None then None else node st q)"
proof -
  let ?xs = "filter (\<lambda>(q, _). q \<noteq> dst) (fs_nodes st)"
  have keys: "k \<noteq> dst \<and> below dst k = None" if "k \<in> fst ` set ?xs" for k
  proof -
    from that obtain n where "(k, n) \<in> set (fs_nodes st)" "k \<noteq> dst" by auto
    then show ?thesis using assms(1) by (auto simp: inhabited_def list_ex_iff)
  qed
  have old: "map_of ?xs p = node st p" if "p \<noteq> dst" for p
    using that by (simp add: map_of_drop node_def)
  have moved: "node (move_nodes src dst st) q = map_of (map (\<lambda>(k, n). (moved src dst k, n)) ?xs) q"
    by (simp add: node_def move_nodes_def)
  consider (dst) "q = dst" | (inside) r where "q \<noteq> dst" "below dst q = Some r"
    | (gone) "q \<noteq> dst" "below dst q = None" "q = src \<or> below src q \<noteq> None"
    | (other) "q \<noteq> dst" "below dst q = None" "q \<noteq> src" "below src q = None"
    by (cases "below dst q") auto
  then show ?thesis
  proof cases
    case dst
    have "moved src dst k = q \<longleftrightarrow> k = src" if "k \<in> fst ` set ?xs" for k
      using keys [OF that] dst by (auto simp: moved_def split: option.splits)
    then show ?thesis
      unfolding moved using map_of_rekey [of ?xs "moved src dst" q src] old [of src] assms(3) dst by simp
  next
    case (inside r)
    have "moved src dst k = q \<longleftrightarrow> k = src @ ''/'' @ r" if "k \<in> fst ` set ?xs" for k
      using keys [OF that] inside by (auto simp: moved_def below_Some split: option.splits)
    moreover have "src @ ''/'' @ r \<noteq> dst"
      using assms(2) by (metis below_Some option.distinct(1))
    ultimately show ?thesis
      unfolding moved using map_of_rekey [of ?xs "moved src dst" q "src @ ''/'' @ r"] old [of "src @ ''/'' @ r"] inside
      by simp
  next
    case gone
    have "moved src dst k \<noteq> q" if "k \<in> fst ` set ?xs" for k
    proof (cases "k = src \<or> below src k \<noteq> None")
      case True
      then show ?thesis using gone(1,2) by (auto simp: moved_def below_None)
    next
      case False
      then show ?thesis using gone(3) by (auto simp: moved_def)
    qed
    then show ?thesis
      unfolding moved using map_of_rekey_None [of ?xs "moved src dst" q] gone by simp
  next
    case other
    have "moved src dst k = q \<longleftrightarrow> k = q" if "k \<in> fst ` set ?xs" for k
    proof (cases "k = src \<or> below src k \<noteq> None")
      case True
      then show ?thesis using other by (auto simp: moved_def below_None)
    next
      case False
      then show ?thesis by (auto simp: moved_def)
    qed
    then show ?thesis
      unfolding moved using map_of_rekey [of ?xs "moved src dst" q q] old [of q] other by simp
  qed
qed

section \<open>Footprints\<close>

text \<open>What the operations never change, and the paths outside of which nothing changes.\<close>

definition fs_env :: "fs \<Rightarrow> fs" where
  "fs_env st = st\<lparr>fs_nodes := [], fs_tick := 0, fs_dead := False\<rparr>"

definition touched :: "(string \<Rightarrow> bool) \<Rightarrow> fs \<Rightarrow> fs \<Rightarrow> bool" where
  "touched P st st' \<longleftrightarrow> fs_env st' = fs_env st \<and> (\<forall>q. \<not> P q \<longrightarrow> node st' q = node st q)"

definition touches :: "(string \<Rightarrow> bool) \<Rightarrow> (fs \<Rightarrow> 'r \<times> fs) \<Rightarrow> bool" where
  "touches P m \<longleftrightarrow> (\<forall>st. touched P st (snd (m st)))"

definition keeps :: "(fs \<Rightarrow> bool) \<Rightarrow> (fs \<Rightarrow> 'r \<times> fs) \<Rightarrow> bool" where
  "keeps I m \<longleftrightarrow> (\<forall>st. I st \<longrightarrow> I (snd (m st)))"

lemma fs_env_simps [simp]:
  "fs_env (put p n st) = fs_env st" "fs_env (drop_nodes P st) = fs_env st"
  "fs_env (move_nodes src dst st) = fs_env st"
  "fs_env (st\<lparr>fs_tick := t\<rparr>) = fs_env st" "fs_env (st\<lparr>fs_dead := d\<rparr>) = fs_env st"
  by (simp_all add: fs_env_def put_def drop_nodes_def move_nodes_def)

lemma fs_env_reads:
  "fs_read_error (fs_env st) = fs_read_error st" "fs_missing (fs_env st) = fs_missing st"
  "fs_utf8_error (fs_env st) = fs_utf8_error st" "fs_symlink (fs_env st) = fs_symlink st"
  "fs_pid (fs_env st) = fs_pid st" "fs_faults (fs_env st) = fs_faults st"
  "fs_random (fs_env st) = fs_random st" "fs_time (fs_env st) = fs_time st"
  by (simp_all add: fs_env_def)

lemma fs_env_fields:
  assumes "fs_env st' = fs_env st"
  shows "fs_read_error st' = fs_read_error st" "fs_missing st' = fs_missing st"
    "fs_utf8_error st' = fs_utf8_error st" "fs_symlink st' = fs_symlink st" "fs_pid st' = fs_pid st"
    "fs_faults st' = fs_faults st" "fs_random st' = fs_random st" "fs_time st' = fs_time st"
  by (metis assms fs_env_reads)+

lemma touched_refl [simp]: "touched P st st"
  by (simp add: touched_def)

lemma touched_trans: "touched P st st' \<Longrightarrow> touched P st' st'' \<Longrightarrow> touched P st st''"
  by (simp add: touched_def)

lemma touched_mono: "touched P st st' \<Longrightarrow> (\<And>q. P q \<Longrightarrow> Q q) \<Longrightarrow> touched Q st st'"
  by (auto simp: touched_def)

lemma touches_mono: "touches P m \<Longrightarrow> (\<And>q. P q \<Longrightarrow> Q q) \<Longrightarrow> touches Q m"
  by (auto simp: touches_def intro: touched_mono)

lemma touchesD: "touches P m \<Longrightarrow> m st = (r, st') \<Longrightarrow> touched P st st'"
  by (auto simp: touches_def dest: spec [of _ st])

lemma touches_bind [touch_rules]:
  assumes "touches P m" "\<And>x. touches P (k x)"
  shows "touches P (bind_act m k)"
  unfolding touches_def
proof
  fix st
  obtain r st' where m: "m st = (r, st')" by (cases "m st")
  have first: "touched P st st'" by (rule touchesD [OF assms(1) m])
  show "touched P st (snd (bind_act m k st))"
  proof (cases r)
    case (Inl e)
    then show ?thesis using m first by (simp add: bind_act_def)
  next
    case (Inr x)
    have "touched P st' (snd (k x st'))"
      using assms(2) by (simp add: touches_def)
    then show ?thesis
      using Inr m touched_trans [OF first] by (simp add: bind_act_def)
  qed
qed

lemma keeps_bind [tree_rules]:
  assumes "keeps I m" "\<And>x. keeps I (k x)"
  shows "keeps I (bind_act m k)"
  using assms by (auto simp: keeps_def bind_act_def split: prod.split sum.split)

lemma touches_pure [touch_rules]: "touches P (pure r)"
  by (simp add: touches_def pure_def)

lemma keeps_pure [tree_rules]: "keeps I (pure r)"
  by (simp add: keeps_def pure_def)

lemma snd_io_at: "snd (io_at p m st) = snd (m st)"
  by (simp add: io_at_def split: prod.split sum.split)

lemma touches_io_at [touch_rules]: "touches P m \<Longrightarrow> touches P (io_at p m)"
  by (simp add: touches_def snd_io_at)

lemma keeps_io_at [tree_rules]: "keeps I m \<Longrightarrow> keeps I (io_at p m)"
  by (simp add: keeps_def snd_io_at)

text \<open>An operation under faults: what it and what its torn run change.\<close>

lemma guarded_cases:
  assumes "guarded torn act st = (r, st')"
  obtains (dead) "fs_dead st" "st' = st" "r = Inl (OtherKind, [])"
  | (fault) f where "\<not> fs_dead st" "r = Inl (OtherKind, ft_message f)"
      "st' = (torn f (st\<lparr>fs_tick := Suc (fs_tick st)\<rparr>))\<lparr>fs_dead := ft_dies f\<rparr>"
  | (runs) "\<not> fs_dead st" "act (st\<lparr>fs_tick := Suc (fs_tick st)\<rparr>) = (r, st')"
  using assms by (auto simp: guarded_def Let_def split: if_splits option.splits)

lemma guarded_Inr:
  assumes "guarded torn act st = (Inr x, st')"
  obtains now where "node now = node st" "fs_env now = fs_env st" "is_dir now = is_dir st" "act now = (Inr x, st')"
    "fs_dead now = False"
  using assms
  by (elim guarded_cases) (auto simp: fs_simps intro!: that [of "st\<lparr>fs_tick := Suc (fs_tick st)\<rparr>"])

lemma touches_guarded:
  assumes "\<And>f st. touched P st (torn f st)" "touches P act"
  shows "touches P (guarded torn act)"
  unfolding touches_def
proof
  fix st
  have tick: "touched P st (st\<lparr>fs_tick := Suc (fs_tick st)\<rparr>)"
    by (simp add: touched_def fs_simps)
  obtain r st' where run: "guarded torn act st = (r, st')" by (cases "guarded torn act st")
  then show "touched P st (snd (guarded torn act st))"
  proof (cases rule: guarded_cases)
    case (fault f)
    then show ?thesis
      using run touched_trans [OF tick assms(1)] by (simp add: touched_def fs_simps)
  next
    case runs
    then show ?thesis using run touched_trans [OF tick] touchesD [OF assms(2)] by auto
  qed (use run in simp)
qed

lemma keeps_guarded:
  assumes "\<And>f st. I st \<Longrightarrow> I (torn f st)" "keeps I act"
    and "\<And>st t d. I (st\<lparr>fs_tick := t\<rparr>) = I st" "\<And>st t d. I (st\<lparr>fs_dead := d\<rparr>) = I st"
  shows "keeps I (guarded torn act)"
  unfolding keeps_def
proof (intro allI impI)
  fix st
  assume I: "I st"
  obtain r st' where run: "guarded torn act st = (r, st')" by (cases "guarded torn act st")
  then show "I (snd (guarded torn act st))"
  proof (cases rule: guarded_cases)
    case runs
    then show ?thesis
      using run assms(2) [unfolded keeps_def, rule_format, of "st\<lparr>fs_tick := Suc (fs_tick st)\<rparr>"] assms(3) I by simp
  qed (use run I assms in simp_all)
qed

lemma touched_put: "P p \<Longrightarrow> touched P st (put p n st)"
  by (auto simp: touched_def fs_simps)

lemma touched_drop: "(\<And>q. R q \<Longrightarrow> P q) \<Longrightarrow> touched P st (drop_nodes R st)"
  by (auto simp: touched_def fs_simps)

lemma touched_torn_write: "P p \<Longrightarrow> touched P st (torn_write p f st)"
  by (auto simp: torn_write_def intro: touched_put split: option.split)

lemma touches_write_node: "P p \<Longrightarrow> touches P (write_node p s)"
  by (simp add: touches_def write_node_def touched_put)

lemma touches_std [touch_rules]:
  "P p \<Longrightarrow> touches P (std_write p s)"
  "P p \<Longrightarrow> touches P (std_copy src p)"
  "P p \<Longrightarrow> touches P (std_create_new p)"
  "touches P std_sync"
  "P p \<Longrightarrow> touches P (std_remove_file p)"
  "P p \<Longrightarrow> touches P (std_create_dir p)"
proof -
  show "P p \<Longrightarrow> touches P (std_write p s)"
    unfolding std_write_def by (intro touches_guarded touched_torn_write touches_write_node)
  have "touched P st (snd (write_node p s st))" if "P p" for st s
    using touches_write_node [where P = P, OF that] by (simp add: touches_def)
  then show "P p \<Longrightarrow> touches P (std_copy src p)" "P p \<Longrightarrow> touches P (std_create_new p)"
    unfolding std_copy_def std_create_new_def
    by (intro touches_guarded; auto simp: touches_def touched_torn_write split: sum.split)+
  show "touches P std_sync" "P p \<Longrightarrow> touches P (std_remove_file p)" "P p \<Longrightarrow> touches P (std_create_dir p)"
    unfolding std_sync_def std_remove_file_def std_create_dir_def
    by (intro touches_guarded; auto simp: touches_def intro: touched_put touched_drop)+
qed

lemma touches_remove_dir_all [touch_rules]:
  assumes "\<And>q. q = p \<or> below p q \<noteq> None \<Longrightarrow> P q"
  shows "touches P (std_remove_dir_all p)"
  unfolding std_remove_dir_all_def torn_remove_def
  using assms by (intro touches_guarded) (auto simp: touches_def intro!: touched_drop split: option.split node.split)

lemma touches_rename [touch_rules]:
  assumes "\<And>q. q = src \<or> below src q \<noteq> None \<or> q = dst \<or> below dst q \<noteq> None \<Longrightarrow> P q"
  shows "touches P (std_rename src dst)"
proof -
  have "touched P st (move_nodes src dst st)"
    if "\<not> inhabited st dst" "below src dst = None" "src \<noteq> dst" for st
    using assms unfolding touched_def by (auto simp: node_move [OF that] split: option.split)
  moreover have "touched P st (put dst n (if src = dst then st else drop_nodes (\<lambda>q. q = src) st))" for st n
    using assms by (auto simp: touched_def fs_simps)
  ultimately show ?thesis
    unfolding std_rename_def
    by (intro touches_guarded) (auto simp: touches_def split: option.split node.split)
qed

section \<open>The tree\<close>

text \<open>Every node is in a directory.\<close>

definition tree_ok :: "fs \<Rightarrow> bool" where
  "tree_ok st \<longleftrightarrow> (\<forall>q. node st q \<noteq> None \<longrightarrow> is_dir st (dir_of q))"

definition special :: "string \<Rightarrow> bool" where
  "special p \<longleftrightarrow> p \<in> {[], ''/'', ''.''}"

lemma is_dir_special: "is_dir st p \<longleftrightarrow> special p \<or> node st p = Some Dir"
  by (simp add: is_dir_def special_def)

lemma below_dir: "\<not> special (dir_of q) \<Longrightarrow> below (dir_of q) q \<noteq> None"
  using below_dir_of [of q "dir_of q"] by (simp add: special_def)

lemma tree_ok_fields:
  "tree_ok (st\<lparr>fs_tick := t\<rparr>) = tree_ok st" "tree_ok (st\<lparr>fs_dead := d\<rparr>) = tree_ok st"
  by (simp_all add: tree_ok_def fs_simps)

lemma tree_put:
  assumes "tree_ok st" "is_dir st (dir_of p)" "n = Dir \<or> \<not> is_dir st p"
  shows "tree_ok (put p n st)"
  using assms by (auto simp: tree_ok_def is_dir_special fs_simps)

lemma tree_drop:
  assumes "tree_ok st"
    and "\<And>q. node st q \<noteq> None \<Longrightarrow> P (dir_of q) \<Longrightarrow> \<not> special (dir_of q) \<Longrightarrow> node st (dir_of q) = Some Dir \<Longrightarrow> P q"
  shows "tree_ok (drop_nodes P st)"
  using assms by (auto simp: tree_ok_def is_dir_special fs_simps)

lemma tree_write: "tree_ok st \<Longrightarrow> can_write st p \<Longrightarrow> tree_ok (put p (Bytes s) st)"
  by (auto simp: can_write_def intro: tree_put)

lemma keeps_write_node: "keeps tree_ok (write_node p s)"
  by (simp add: keeps_def write_node_def tree_write)

lemma tree_torn_write: "tree_ok st \<Longrightarrow> tree_ok (torn_write p f st)"
  by (simp add: torn_write_def tree_write split: option.split)

lemmas keeps_tree = keeps_guarded [where I = tree_ok, OF _ _ tree_ok_fields]

lemma node_in_nodes: "node st q \<noteq> None \<Longrightarrow> \<exists>n. (q, n) \<in> set (fs_nodes st)"
  by (auto simp: node_def dest: map_of_SomeD)

lemma tree_remove: "tree_ok st \<Longrightarrow> tree_ok (drop_nodes (\<lambda>q. q = p \<or> below p q \<noteq> None) st)"
  using below_dir below_trans by (intro tree_drop) blast+

lemma tree_torn_remove:
  assumes "tree_ok st"
  shows "tree_ok (torn_remove p f st)"
  unfolding torn_remove_def
proof (rule tree_drop [OF assms], goal_cases)
  case (1 q)
  then have in_dir: "below (dir_of q) q \<noteq> None" using below_dir by blast
  moreover obtain n where "(q, n) \<in> set (fs_nodes st)" using node_in_nodes 1(1) by blast
  ultimately have "ft_lost f q" using 1(2) by (auto simp: list_all_iff)
  moreover have "below p q \<noteq> None" using 1(2) in_dir below_trans by blast
  moreover have "list_all (\<lambda>(r, _). below q r \<noteq> None \<longrightarrow> ft_lost f r) (fs_nodes st)"
    using 1(2) in_dir below_trans by (fastforce simp: list_all_iff)
  ultimately show ?case by blast
qed

lemma tree_move:
  assumes tree: "tree_ok st" and free: "\<not> inhabited st dst" "below src dst = None" "src \<noteq> dst"
    and dir: "node st src = Some Dir" "is_dir st (dir_of dst)" "src \<noteq> []"
  shows "tree_ok (move_nodes src dst st)"
  unfolding tree_ok_def
proof (intro allI impI)
  fix q
  assume q: "node (move_nodes src dst st) q \<noteq> None"
  let ?st = "move_nodes src dst st"
  note moved = node_move [OF free]
  have stays: "is_dir ?st p" if "is_dir st p" "p \<noteq> src" "below src p = None" "p \<noteq> dst" for p
  proof (cases "special p")
    case False
    then have "below dst p = None"
      using that free(1) by (metis inhabited_iff is_dir_special option.distinct(1))
    then show ?thesis using that False by (simp add: is_dir_special moved)
  qed (simp add: is_dir_special)
  have dst: "is_dir ?st dst" using dir(1) by (simp add: is_dir_special moved)
  show "is_dir ?st (dir_of q)"
  proof (cases "special (dir_of q)")
    case False
    note in_dir = below_dir [OF False]
    show ?thesis
    proof (cases "q = dst")
      case True
      have "dir_of dst \<noteq> src" "below src (dir_of dst) = None" "dir_of dst \<noteq> dst"
        using in_dir free(2) True by (metis below_trans below_self option.exhaust option.distinct(1))+
      then show ?thesis using stays dir(2) True by simp
    next
      case False
      show ?thesis
      proof (cases "below dst q")
        case None
        then have here: "node st q \<noteq> None" "q \<noteq> src" "below src q = None"
          using q False by (auto simp: moved split: if_splits)
        then have "is_dir st (dir_of q)" using tree by (simp add: tree_ok_def)
        moreover have "dir_of q \<noteq> src" "dir_of q \<noteq> dst" "below src (dir_of q) = None"
          using in_dir here None by (metis below_trans option.exhaust option.distinct(1))+
        ultimately show ?thesis using stays by blast
      next
        case (Some r)
        with q False have child: "node st (src @ ''/'' @ r) \<noteq> None" by (simp add: moved)
        have src: "below src (src @ ''/'' @ r) = Some r" by simp
        have parent: "is_dir st (dir_of (src @ ''/'' @ r))" using tree child by (simp add: tree_ok_def)
        from dir_of_below [OF Some] show ?thesis
        proof
          assume "CHR ''/'' \<notin> set r \<and> dir_of q = (if dst = [] then ''/'' else dst)"
          then show ?thesis using dst by (auto simp: is_dir_special special_def)
        next
          assume "\<exists>r' x. r = r' @ ''/'' @ x \<and> CHR ''/'' \<notin> set x \<and> dir_of q = dst @ ''/'' @ r'"
          then obtain r' x where r: "r = r' @ ''/'' @ x" "CHR ''/'' \<notin> set x" "dir_of q = dst @ ''/'' @ r'" by blast
          then have "rsplit_once (CHR ''/'') (src @ ''/'' @ r) = Some (src @ ''/'' @ r', x)"
            by (simp add: rsplit_once_Some)
          then have "dir_of (src @ ''/'' @ r) = src @ ''/'' @ r'" by (simp add: dir_of_def)
          with parent have "is_dir st (src @ ''/'' @ r')" by simp
          moreover have "\<not> special (src @ ''/'' @ r')"
            using dir(3) by (auto simp: special_def append_eq_Cons_conv)
          moreover have "below dst (dst @ CHR ''/'' # r') = Some r'" "dst @ CHR ''/'' # r' \<noteq> dst" by simp_all
          ultimately show ?thesis
            using r(3) \<open>\<not> special (dir_of q)\<close> by (auto simp: is_dir_special moved)
        qed
      qed
    qed
  qed (simp add: is_dir_special)
qed

lemma tree_std [tree_rules]:
  "keeps tree_ok (std_write p s)" "keeps tree_ok (std_copy src p)" "keeps tree_ok (std_create_new p)"
  "keeps tree_ok std_sync" "keeps tree_ok (std_remove_file p)" "keeps tree_ok (std_create_dir p)"
  "keeps tree_ok (std_remove_dir_all p)" "keeps tree_ok (std_rename p q)"
proof -
  have written: "tree_ok (snd (write_node p s st))" if "tree_ok st" for p s st
    using keeps_write_node that by (simp add: keeps_def)
  show "keeps tree_ok (std_write p s)"
    unfolding std_write_def by (intro keeps_tree tree_torn_write keeps_write_node)
  show "keeps tree_ok (std_copy src p)" "keeps tree_ok (std_create_new p)"
    unfolding std_copy_def std_create_new_def
    by (intro keeps_tree; auto simp: keeps_def written tree_torn_write split: sum.split)+
  show "keeps tree_ok std_sync"
    unfolding std_sync_def by (intro keeps_tree) (auto simp: keeps_def)
  have "tree_ok (drop_nodes (\<lambda>q. q = p) st)" if "tree_ok st" "is_file st p" for st
    using that by (intro tree_drop) (auto simp: is_file_def)
  then show "keeps tree_ok (std_remove_file p)"
    unfolding std_remove_file_def by (intro keeps_tree) (auto simp: keeps_def)
  show "keeps tree_ok (std_create_dir p)"
    unfolding std_create_dir_def by (intro keeps_tree) (auto simp: keeps_def intro: tree_put)
  show "keeps tree_ok (std_remove_dir_all p)"
    unfolding std_remove_dir_all_def
    by (intro keeps_tree tree_torn_remove) (auto simp: keeps_def tree_remove simp del: not_None_eq split: option.split node.split)
  have "tree_ok (put q (Bytes s) (if p = q then st else drop_nodes (\<lambda>r. r = p) st))"
    if "tree_ok st" "node st p = Some (Bytes s)" "can_write st q" for st s
  proof (cases "p = q")
    case False
    have drop: "tree_ok (drop_nodes (\<lambda>r. r = p) st)"
      using that by (intro tree_drop) auto
    have "is_dir (drop_nodes (\<lambda>r. r = p) st) r \<longleftrightarrow> is_dir st r" for r
      using that(2) by (auto simp: is_dir_special fs_simps)
    then show ?thesis
      using False that(3) drop by (auto simp: can_write_def intro: tree_put)
  qed (use that tree_write in simp)
  moreover have "tree_ok (move_nodes p q st)"
    if "tree_ok st" "node st p = Some Dir" "p \<noteq> q" "is_dir st (dir_of q)" "\<not> inhabited st q" "below p q = None" "p \<noteq> []" for st
    using tree_move that by blast
  ultimately show "keeps tree_ok (std_rename p q)"
    unfolding std_rename_def by (intro keeps_tree) (auto simp: keeps_def split: option.split node.split)
qed

text \<open>Nothing is below a path that is no directory.\<close>

lemma not_inhabited:
  assumes "tree_ok st" "\<not> is_dir st p"
  shows "\<not> inhabited st p"
proof -
  have "node st (p @ ''/'' @ r) = None" for r
  proof (induction r rule: length_induct)
    case (1 r)
    have q: "below p (p @ ''/'' @ r) = Some r" by simp
    have special: "\<not> special p" using assms(2) by (simp add: is_dir_special)
    show ?case
    proof (rule ccontr)
      assume "node st (p @ ''/'' @ r) \<noteq> None"
      then have dir: "is_dir st (dir_of (p @ ''/'' @ r))" using assms(1) by (simp add: tree_ok_def)
      from dir_of_below [OF q] show False
      proof
        assume "CHR ''/'' \<notin> set r \<and> dir_of (p @ ''/'' @ r) = (if p = [] then ''/'' else p)"
        then show False using dir assms(2) special by (auto simp: special_def)
      next
        assume "\<exists>r' x. r = r' @ ''/'' @ x \<and> CHR ''/'' \<notin> set x \<and> dir_of (p @ ''/'' @ r) = p @ ''/'' @ r'"
        then obtain r' x where r: "r = r' @ ''/'' @ x" "dir_of (p @ ''/'' @ r) = p @ ''/'' @ r'" by blast
        then have "node st (p @ ''/'' @ r') = None" using 1 by simp
        moreover have "\<not> special (p @ ''/'' @ r')"
          using special by (auto simp: special_def append_eq_Cons_conv)
        ultimately show False using dir r by (simp add: is_dir_special)
      qed
    qed
  qed
  then show ?thesis by (auto simp: inhabited_iff below_None)
qed

lemma tree_create_dirs [tree_rules]: "keeps tree_ok (create_dirs ps)"
proof (induction ps)
  case (Cons p ps)
  have "keeps tree_ok (bind_act (std_create_dir p) (\<lambda>_. create_dirs ps))"
    by (intro tree_rules Cons.IH)
  then show ?case using Cons.IH by (simp add: keeps_def)
qed (simp add: keeps_def)

lemma tree_create_dir_all [tree_rules]: "keeps tree_ok (std_create_dir_all p)"
  unfolding std_create_dir_all_def by (rule tree_create_dirs)

lemma tree_remove_again [tree_rules]: "keeps tree_ok (remove_again n dir)"
proof (induction n)
  case 0
  have "keeps tree_ok (std_remove_dir_all dir)" by (rule tree_rules)
  then show ?case by (simp add: keeps_def)
next
  case (Suc n)
  show ?case
    unfolding keeps_def
  proof (intro allI impI)
    fix st
    assume "tree_ok st"
    moreover obtain r st' where run: "std_remove_dir_all dir st = (r, st')" by (cases "std_remove_dir_all dir st")
    moreover have "keeps tree_ok (std_remove_dir_all dir)" by (rule tree_rules)
    ultimately have "tree_ok st'" by (metis keeps_def snd_conv)
    then show "tree_ok (snd (remove_again (Suc n) dir st))"
      using Suc run by (auto simp: keeps_def split: sum.split)
  qed
qed

lemma tree_remove_robust [tree_rules]: "keeps tree_ok (remove_dir_all_robust dir)"
  using tree_remove_again [of 4 dir] by (auto simp: keeps_def remove_dir_all_robust_def split: prod.split sum.split)

section \<open>The atomic write is atomic\<close>

lemma split_on_append_sep: "P d \<Longrightarrow> split_on P (a @ d # b) = split_on P a @ split_on P b"
  by (induction P a rule: split_on.induct) (auto simp: neq_Nil_conv split: list.split)

lemma filter_last:
  "xs \<noteq> [] \<Longrightarrow> Q (last xs) \<Longrightarrow> filter Q xs \<noteq> [] \<and> last (filter Q xs) = last xs"
  by (induction xs rule: rev_induct) auto

text \<open>The name of a path below a directory is its last part.\<close>

lemma path_file_name_plain:
  assumes "CHR ''/'' \<notin> set x" "x \<notin> {[], ''.'', ''..''}" "path = x \<or> (\<exists>a. path = a @ ''/'' @ x)"
  shows "path_file_name path = Some x"
proof -
  let ?parts = "split_on slash path"
  have plain: "split_on slash x = [x]"
    using assms(1) by (intro split_on_plain) (auto simp: slash_def)
  then have last: "last ?parts = x"
    using assms(3) by (auto simp: split_on_append_sep slash_def)
  let ?named = "filter (\<lambda>x. x \<noteq> [] \<and> x \<noteq> ''.'') ?parts"
  have "?named \<noteq> [] \<and> last ?named = x"
    using filter_last [of ?parts "\<lambda>x. x \<noteq> [] \<and> x \<noteq> ''.''"] last assms(2) by simp
  then obtain ys where "?named = ys @ [x]"
    by (metis append_butlast_last_id)
  then show ?thesis
    using assms(2) by (simp add: path_file_name_def components_def Let_def raw_component_def)
qed

lemma hex_digits_of: "c \<in> set (to_hex bs) \<Longrightarrow> is_ascii_hexdigit c"
proof -
  have "list_all is_ascii_hexdigit ''0123456789abcdef''" by code_simp
  then show "c \<in> set (to_hex bs) \<Longrightarrow> is_ascii_hexdigit c"
    by (auto simp: to_hex_def list_all_iff dest!: hex_byte_digits)
qed

lemma hex16_plain: "length (hex16 w) = 16" "list_all is_ascii_hexdigit (hex16 w)" "CHR ''/'' \<notin> set (hex16 w)"
proof -
  show "length (hex16 w) = 16" by (simp add: hex16_def to_hex_length)
  show "list_all is_ascii_hexdigit (hex16 w)" by (simp add: hex16_def list_all_iff hex_digits_of)
  have "\<not> is_ascii_hexdigit (CHR ''/'')" by code_simp
  then show "CHR ''/'' \<notin> set (hex16 w)" using hex_digits_of by (auto simp: hex16_def)
qed

lemma file_name_no_slash: "path_file_name p = Some n \<Longrightarrow> CHR ''/'' \<notin> set n"
proof -
  assume "path_file_name p = Some n"
  then have "Normal n \<in> set (components p)"
    by (auto simp: path_file_name_def split: list.splits component.splits)
  then have "n \<in> set (split_on slash p)"
    by (auto simp: components_def Let_def raw_component_def split: if_splits)
  then show ?thesis using split_on_parts [of n slash p] by (auto simp: slash_def)
qed

lemma name_or_no_slash: "CHR ''/'' \<notin> set fallback \<Longrightarrow> CHR ''/'' \<notin> set (name_or fallback path)"
  by (auto simp: name_or_def dest: file_name_no_slash split: option.split)

text \<open>The temporary files of a path: siblings of it, never the path itself.\<close>

definition temp_of :: "string \<Rightarrow> string \<Rightarrow> bool" where
  "temp_of path q \<longleftrightarrow> (\<exists>token. q = path_join (parent_or_here path) (temp_name (name_or ''tmp'' path) token))"

lemma temp_not_path: "\<not> temp_of path path"
proof
  assume "temp_of path path"
  then obtain token where path: "path = path_join (parent_or_here path) (temp_name (name_or ''tmp'' path) token)"
    by (auto simp: temp_of_def)
  let ?x = "temp_name (name_or ''tmp'' path) token"
  have "CHR ''/'' \<notin> set ?x"
    using name_or_no_slash [of "''tmp''" path] hex16_plain(3) by (auto simp: temp_name_def)
  moreover have "?x \<notin> {[], ''.'', ''..''}"
    by (auto simp: temp_name_def)
  moreover have "path = ?x \<or> (\<exists>a. path = a @ ''/'' @ ?x)"
    using path by (auto simp: path_join_def is_absolute_def starts_with_def temp_name_def ends_with_suffix suffix_def
        split: if_splits)
  ultimately have "path_file_name path = Some ?x"
    by (rule path_file_name_plain)
  then have "name_or ''tmp'' path = ?x" by (subst name_or_def) simp
  then have "length (name_or ''tmp'' path) = length ?x" by simp
  then show False by (simp add: temp_name_def)
qed

lemma create_temp_result:
  assumes "create_temp n (parent_or_here path) (name_or ''tmp'' path) last_err st = (r, st')"
  shows "touched (temp_of path) st st'
     \<and> (\<forall>tmp. r = Inr tmp \<longrightarrow> temp_of path tmp \<and> node st tmp = None
          \<and> (\<forall>q. q \<noteq> tmp \<longrightarrow> node st' q = node st q) \<and> node st' tmp = Some (Bytes []))
     \<and> (is_ok r \<or> (\<forall>q. node st' q = node st q))"
  using assms
proof (induction n arbitrary: last_err st)
  case (Suc n)
  let ?tmp = "path_join (parent_or_here path) (temp_name (name_or ''tmp'' path) (random_token st))"
  have temp: "temp_of path ?tmp" by (auto simp: temp_of_def)
  obtain s st1 where run: "std_create_new ?tmp st = (s, st1)" by (cases "std_create_new ?tmp st")
  have touched: "touched (temp_of path) st st1"
    using touchesD [OF touches_std(3) run] temp by blast
  have made: "node st ?tmp = None \<and> (\<forall>q. q \<noteq> ?tmp \<longrightarrow> node st1 q = node st q) \<and> node st1 ?tmp = Some (Bytes [])"
    if "s = Inr u" for u
    using run that unfolding std_create_new_def
    by (auto elim!: guarded_Inr simp: write_node_def path_exists_def fs_simps split: if_splits)
  have same: "\<forall>q. node st1 q = node st q" if "s = Inl e" for e
    using run that unfolding std_create_new_def
    by (auto elim!: guarded_cases simp: write_node_def fs_simps split: if_splits)
  show ?case
  proof (cases s)
    case (Inr u)
    then show ?thesis using Suc.prems run made [OF Inr] touched temp by (auto simp: Let_def)
  next
    case (Inl e)
    obtain kind why where e: "e = (kind, why)" by (cases e)
    show ?thesis
    proof (cases "kind = AlreadyExists")
      case True
      then have "create_temp n (parent_or_here path) (name_or ''tmp'' path) (Some why) st1 = (r, st')"
        using Suc.prems run Inl e by (simp add: Let_def)
      from Suc.IH [OF this] same [OF Inl] show ?thesis
        using touched_trans [OF touched] by auto
    next
      case False
      then show ?thesis using Suc.prems run Inl e touched same [OF Inl] by (auto simp: Let_def)
    qed
  qed
qed auto

lemma std_write_ok:
  assumes "std_write p s st = (Inr u, st')"
  shows "node st' p = Some (Bytes s)"
  using assms unfolding std_write_def
  by (auto elim!: guarded_Inr simp: write_node_def fs_simps split: if_splits)

lemma std_sync_nodes: "std_sync st = (r, st') \<Longrightarrow> node st' = node st"
  unfolding std_sync_def by (auto elim!: guarded_cases simp: fs_simps)

lemma rename_file_cases:
  assumes "std_rename src dst st = (r, st')" "node st src = Some (Bytes s)" "src \<noteq> dst"
  shows "(is_ok r \<and> node st' = (node st)(src := None, dst := Some (Bytes s))) \<or> (\<not> is_ok r \<and> node st' = node st)"
  using assms unfolding std_rename_def
  by (auto elim!: guarded_cases simp: fs_simps fun_eq_iff split: if_splits)

text \<open>What follows the creation of the temporary file.\<close>

definition finish_write :: "string \<Rightarrow> string \<Rightarrow> string \<Rightarrow> (error, unit) act" where
  "finish_write path contents tmp st =
     (case bind_act (std_write tmp contents) (\<lambda>_. std_sync) st of
        (Inl (_, e), st') \<Rightarrow> (Inl (Io tmp e), snd (std_remove_file tmp st'))
      | (Inr _, st') \<Rightarrow>
          (case std_rename tmp path st' of
             (Inl (_, e), st'') \<Rightarrow> (Inl (Io path e), snd (std_remove_file tmp st''))
           | (Inr _, st'') \<Rightarrow> (Inr (), st'')))"

lemma write_atomic_finish:
  "write_atomic path contents st =
     (if fs_symlink st path
      then (Inl (Io path ''refusing to write atomically over a symlink''), st)
      else bind_act (create_temp MAX_TEMP_ATTEMPTS (parent_or_here path) (name_or ''tmp'' path) None)
             (finish_write path contents) st)"
  by (simp add: write_atomic_def finish_write_def [abs_def])

lemma finish_write_result:
  assumes run: "finish_write path contents tmp st = (r, st')" and tmp: "tmp \<noteq> path"
  shows "(if is_ok r then node st' = (node st)(tmp := None, path := Some (Bytes contents))
          else \<forall>q. q \<noteq> tmp \<longrightarrow> node st' q = node st q)"
proof -
  obtain w st1 where first: "bind_act (std_write tmp contents) (\<lambda>_. std_sync) st = (w, st1)"
    by (cases "bind_act (std_write tmp contents) (\<lambda>_. std_sync) st")
  have "touches (\<lambda>q. q = tmp) (bind_act (std_write tmp contents) (\<lambda>_. std_sync))"
    by (intro touch_rules) simp
  from touchesD [OF this first] have st1: "\<forall>q. q \<noteq> tmp \<longrightarrow> node st1 q = node st q"
    by (simp add: touched_def)
  have removed: "\<forall>q. q \<noteq> tmp \<longrightarrow> node (snd (std_remove_file tmp st2)) q = node st2 q" for st2
    using touches_std(5) [of "\<lambda>q. q = tmp" tmp] by (auto simp: touches_def touched_def)
  show ?thesis
  proof (cases w)
    case (Inl e)
    then show ?thesis using run first st1 removed [of st1] by (cases e) (auto simp: finish_write_def)
  next
    case (Inr u)
    then obtain st0 where "std_write tmp contents st = (Inr (), st0)" "std_sync st0 = (Inr u, st1)"
      using first by (auto simp: bind_act_def split: prod.splits sum.splits)
    then have written: "node st1 tmp = Some (Bytes contents)"
      using std_write_ok std_sync_nodes by metis
    obtain v st2 where last: "std_rename tmp path st1 = (v, st2)" by (cases "std_rename tmp path st1")
    show ?thesis
    proof (cases v)
      case (Inl e)
      then have "node st2 = node st1"
        using rename_file_cases [OF last written tmp] by simp
      then show ?thesis
        using run first last Inl Inr st1 removed [of st2] by (cases e) (auto simp: finish_write_def)
    next
      case (Inr x)
      then have "node st2 = (node st1)(tmp := None, path := Some (Bytes contents))"
        using rename_file_cases [OF last written tmp] by simp
      then have "node st2 = (node st)(tmp := None, path := Some (Bytes contents))"
        using st1 by (auto simp: fun_eq_iff)
      then show ?thesis
        using run first last Inr \<open>w = Inr u\<close> by (auto simp: finish_write_def)
    qed
  qed
qed

lemma write_atomic_result:
  assumes "write_atomic path contents st = (r, st')"
  shows "(node st' path = node st path \<or> node st' path = Some (Bytes contents))
     \<and> (r = Inr () \<longrightarrow> node st' = (node st)(path := Some (Bytes contents)))
     \<and> (\<forall>q. q \<noteq> path \<longrightarrow> node st' q = node st q \<or> temp_of path q \<and> node st q = None)"
proof (cases "fs_symlink st path")
  case False
  obtain c st1 where temp: "create_temp MAX_TEMP_ATTEMPTS (parent_or_here path) (name_or ''tmp'' path) None st = (c, st1)"
    by (cases "create_temp MAX_TEMP_ATTEMPTS (parent_or_here path) (name_or ''tmp'' path) None st")
  note created = create_temp_result [OF temp]
  show ?thesis
  proof (cases c)
    case (Inl e)
    then show ?thesis
      using assms False temp created by (auto simp: write_atomic_finish bind_act_def)
  next
    case (Inr tmp)
    then have "finish_write path contents tmp st1 = (r, st')"
      using assms False temp by (simp add: write_atomic_finish bind_act_def)
    moreover have tmp: "temp_of path tmp" "node st tmp = None" "\<forall>q. q \<noteq> tmp \<longrightarrow> node st1 q = node st q"
      using created Inr by simp_all
    moreover have "tmp \<noteq> path" using tmp(1) temp_not_path by blast
    ultimately have "if is_ok r then node st' = (node st1)(tmp := None, path := Some (Bytes contents))
        else \<forall>q. q \<noteq> tmp \<longrightarrow> node st' q = node st1 q"
      using finish_write_result by blast
    then show ?thesis
      using tmp \<open>tmp \<noteq> path\<close> by (cases r) (simp_all add: fun_eq_iff, metis+)
  qed
qed (use assms in \<open>auto simp: write_atomic_def\<close>)

text \<open>
  C8. \<open>write_atomic\<close> is atomic: whatever operation fails and even if the process dies at any
  point, the file holds its old or its new contents, no other file than a temporary sibling that
  did not exist is changed, and when it returns successfully the file holds the new contents and
  nothing else has changed.
\<close>

theorem write_atomic_atomic:
  assumes "write_atomic path contents st = (r, st')"
  shows "(node st' path = node st path \<or> node st' path = Some (Bytes contents))
     \<and> (r = Inr () \<longrightarrow> node st' = (node st)(path := Some (Bytes contents)))
     \<and> (\<forall>q. q \<noteq> path \<longrightarrow> node st' q = node st q \<or> temp_of path q \<and> node st q = None)"
  by (rule write_atomic_result [OF assms])

section \<open>A staging directory is empty\<close>

definition within :: "string \<Rightarrow> string \<Rightarrow> bool" where
  "within p q \<longleftrightarrow> q = p \<or> below p q \<noteq> None"

text \<open>The siblings an earlier run may have fallen back to.\<close>

definition fallback_of :: "string \<Rightarrow> string \<Rightarrow> bool" where
  "fallback_of preferred q \<longleftrightarrow>
     (\<exists>s. fallback_suffix (name_or ''stage'' preferred) s \<and> q = path_join (parent_or_here preferred) s)"

text \<open>Existing nodes outside the preferred tree and its fallbacks stay.\<close>

definition staging_safe :: "string \<Rightarrow> fs \<Rightarrow> fs \<Rightarrow> bool" where
  "staging_safe preferred st st' \<longleftrightarrow>
     (\<forall>q. node st q \<noteq> None \<longrightarrow>
        node st' q = node st q \<or> within preferred q \<or> (\<exists>f. fallback_of preferred f \<and> within f q))"

lemma staging_safe_trans:
  "staging_safe p st st' \<Longrightarrow> staging_safe p st' st'' \<Longrightarrow> staging_safe p st st''"
  unfolding staging_safe_def by metis

lemma remove_dir_all_cases:
  assumes "std_remove_dir_all p st = (r, st')"
  shows "(\<forall>u. r = Inr u \<longrightarrow> node st' p = None)
     \<and> (\<forall>why. r = Inl (NotFound, why) \<longrightarrow> node st' p = None)"
  using assms unfolding std_remove_dir_all_def
  by (auto elim!: guarded_cases simp: fs_simps split: option.splits node.splits)

lemma touches_remove_again:
  "touches (within p) (remove_again n p)"
proof (induction n)
  case 0
  have "touches (within p) (std_remove_dir_all p)" by (intro touch_rules) (simp add: within_def)
  then show ?case by (simp add: touches_def)
next
  case (Suc n)
  show ?case
    unfolding touches_def
  proof
    fix st
    obtain r st' where run: "std_remove_dir_all p st = (r, st')" by (cases "std_remove_dir_all p st")
    have "touches (within p) (std_remove_dir_all p)" by (intro touch_rules) (simp add: within_def)
    from touchesD [OF this run] have first: "touched (within p) st st'" .
    have "touched (within p) st' (snd (remove_again n p st'))"
      using Suc by (simp add: touches_def)
    then show "touched (within p) st (snd (remove_again (Suc n) p st))"
      using run first touched_trans [OF first] by (auto split: sum.split)
  qed
qed

lemma remove_again_gone:
  assumes "remove_again n p st = (r, st')" "is_ok r \<or> (\<exists>why. r = Inl (NotFound, why))"
  shows "node st' p = None"
  using assms
proof (induction n arbitrary: st)
  case 0
  then show ?case using remove_dir_all_cases by (auto simp: is_ok_iff)
next
  case (Suc n)
  obtain s st1 where run: "std_remove_dir_all p st = (s, st1)" by (cases "std_remove_dir_all p st")
  note removed = remove_dir_all_cases [OF run]
  show ?case
  proof (cases s)
    case (Inr u)
    then show ?thesis using Suc.prems run removed by auto
  next
    case (Inl e)
    then show ?thesis
      using Suc.prems run removed Suc.IH [of st1] by (cases e) (auto split: if_splits)
  qed
qed

lemma remove_robust:
  assumes "remove_dir_all_robust p st = (r, st')"
  shows "touched (within p) st st' \<and> (is_ok r \<longrightarrow> node st' p = None)"
proof -
  obtain s st1 where run: "remove_again 4 p st = (s, st1)" by (cases "remove_again 4 p st")
  then have "st' = st1" "is_ok r \<Longrightarrow> is_ok s \<or> (\<exists>why. s = Inl (NotFound, why))"
    using assms by (auto simp: remove_dir_all_robust_def split: sum.splits if_splits)
  then show ?thesis
    using touchesD [OF touches_remove_again run] remove_again_gone [OF run] by auto
qed

lemma create_dir_cases:
  assumes "std_create_dir p st = (r, st')"
  shows "(is_ok r \<and> \<not> path_exists st p \<and> node st' = (node st)(p \<mapsto> Dir)) \<or> (\<not> is_ok r \<and> node st' = node st)"
  using assms unfolding std_create_dir_def
  by (auto elim!: guarded_cases simp: fs_simps fun_eq_iff path_exists_def split: if_splits)

lemma create_dirs_result:
  assumes "create_dirs ps st = (r, st')"
  shows "(\<forall>q. node st q \<noteq> None \<or> q \<notin> set ps \<longrightarrow> node st' q = node st q)
     \<and> (is_ok r \<longrightarrow> (\<forall>p \<in> set ps. is_dir st' p))"
  using assms
proof (induction ps arbitrary: st)
  case (Cons p ps)
  have later: "is_dir st' p" if "is_dir st1 p" "\<forall>q. node st1 q \<noteq> None \<or> q \<notin> set ps \<longrightarrow> node st' q = node st1 q" for st1
    using that by (auto simp: is_dir_special)
  show ?case
  proof (cases "is_dir st p")
    case True
    then have "create_dirs ps st = (r, st')" using Cons.prems by simp
    from Cons.IH [OF this] later [OF True] show ?thesis by auto
  next
    case False
    obtain s st1 where run: "std_create_dir p st = (s, st1)" by (cases "std_create_dir p st")
    show ?thesis
    proof (cases s)
      case (Inl e)
      then show ?thesis
        using Cons.prems False run create_dir_cases [OF run] by (auto simp: bind_act_def)
    next
      case (Inr u)
      then have made: "\<not> path_exists st p" "node st1 = (node st)(p \<mapsto> Dir)"
        using create_dir_cases [OF run] by auto
      have "create_dirs ps st1 = (r, st')" using Cons.prems False run Inr by (simp add: bind_act_def)
      from Cons.IH [OF this] made later [of st1] show ?thesis
        by (auto simp: is_dir_special path_exists_def)
    qed
  qed
qed (auto simp: is_ok_iff)

lemma lineage_last: "p \<in> set (lineage p)"
  by (simp add: lineage_def)

lemma lineage_not_below: "q \<in> set (lineage p) \<Longrightarrow> below p q = None"
  by (auto simp: lineage_def below_None dest: arg_cong [of _ _ length])

lemma sweep_result:
  assumes "sweep_names (parent_or_here preferred) (name_or ''stage'' preferred) names (a, b) st = ((swept, left), st')"
  shows "touched (\<lambda>q. \<exists>f. fallback_of preferred f \<and> within f q) st st'
     \<and> (tree_ok st \<longrightarrow> tree_ok st')
     \<and> swept + left = a + b + length (filter (fallback_suffix (name_or ''stage'' preferred)) names)"
  using assms
proof (induction names arbitrary: a b st)
  case (Cons s names)
  let ?p = "path_join (parent_or_here preferred) s"
  show ?case
  proof (cases "fallback_suffix (name_or ''stage'' preferred) s")
    case True
    then have fallback: "fallback_of preferred ?p" by (auto simp: fallback_of_def)
    obtain r st1 where run: "remove_dir_all_robust ?p st = (r, st1)" by (cases "remove_dir_all_robust ?p st")
    have first: "touched (\<lambda>q. \<exists>f. fallback_of preferred f \<and> within f q) st st1"
      using remove_robust [OF run] fallback by (auto intro: touched_mono)
    have tree: "tree_ok st \<longrightarrow> tree_ok st1"
      using tree_remove_robust [of ?p] run by (metis keeps_def snd_conv)
    obtain a' b' where "sweep_names (parent_or_here preferred) (name_or ''stage'' preferred) names (a', b') st1
        = ((swept, left), st')" "a' + b' = Suc (a + b)"
      using Cons.prems True run by (cases r) auto
    from Cons.IH [OF this(1)] this(2) True first tree show ?thesis
      using touched_trans [OF first] by auto
  next
    case False
    then show ?thesis using Cons by simp
  qed
qed simp

lemma touched_safe:
  assumes "touched P st st'" "\<And>q. P q \<Longrightarrow> within preferred q \<or> (\<exists>f. fallback_of preferred f \<and> within f q)"
  shows "staging_safe preferred st st'"
  using assms by (auto simp: touched_def staging_safe_def)

lemma reclaim_result:
  assumes "reclaim n preferred st = (ok, st')" "tree_ok st" "\<not> special preferred"
  shows "staging_safe preferred st st' \<and> tree_ok st'
     \<and> (ok \<longrightarrow> node st' preferred = Some Dir \<and> \<not> inhabited st' preferred)"
  using assms
proof (induction n arbitrary: st)
  case 0
  then show ?case by (auto simp: staging_safe_def)
next
  case (Suc n)
  obtain r st1 where removed: "remove_dir_all_robust preferred st = (r, st1)"
    by (cases "remove_dir_all_robust preferred st")
  have safe1: "staging_safe preferred st st1"
    using remove_robust [OF removed] by (auto intro: touched_safe)
  have tree1: "tree_ok st1"
    using tree_remove_robust [of preferred] removed Suc.prems(2) by (metis keeps_def snd_conv)
  obtain d st2 where round: "reclaim_round preferred st = (d, st2)" by (cases "reclaim_round preferred st")
  have step: "staging_safe preferred st st2 \<and> tree_ok st2
      \<and> (d \<longrightarrow> node st2 preferred = Some Dir \<and> \<not> inhabited st2 preferred)"
  proof (cases r)
    case (Inl e)
    then show ?thesis using round removed safe1 tree1 by (simp add: reclaim_round_def bind_act_def)
  next
    case (Inr u)
    obtain t where create: "create_dirs (lineage preferred) st1 = (t, st2)" and d: "d = is_ok t"
      using round removed Inr by (auto simp: reclaim_round_def bind_act_def std_create_dir_all_def split: prod.splits)
    note made = create_dirs_result [OF create]
    have tree2: "tree_ok st2" using tree_create_dirs [of "lineage preferred"] create tree1 by (metis keeps_def snd_conv)
    have "node st1 preferred = None" using remove_robust [OF removed] Inr by simp
    then have "\<not> inhabited st1 preferred"
      using not_inhabited [OF tree1] Suc.prems(3) by (simp add: is_dir_special)
    then have "\<not> inhabited st2 preferred"
      using made lineage_not_below by (metis inhabited_iff)
    moreover have "d \<longrightarrow> node st2 preferred = Some Dir"
      using made d lineage_last Suc.prems(3) by (auto simp: is_dir_special)
    moreover have "staging_safe preferred st1 st2" using made by (simp add: staging_safe_def)
    ultimately show ?thesis using safe1 staging_safe_trans tree2 by blast
  qed
  show ?case
  proof (cases d)
    case True
    then show ?thesis using Suc.prems round step by simp
  next
    case False
    then have "reclaim n preferred st2 = (ok, st')" using Suc.prems round by simp
    from Suc.IH [OF this] step Suc.prems(3) show ?thesis using staging_safe_trans by blast
  qed
qed

lemma fallback_token: "fallback_suffix name (name @ ''-'' @ hex16 token)"
proof -
  have "strip_prefix (name @ ''-'') (name @ ''-'' @ hex16 token) = Some (hex16 token)"
    using strip_prefix_append [of "name @ ''-''" "hex16 token"] by simp
  then show ?thesis using hex16_plain by (simp add: fallback_suffix_def)
qed

lemma create_fallback_result:
  assumes "create_fallback n preferred (parent_or_here preferred) (name_or ''stage'' preferred) last_err st = (r, st')"
    and "tree_ok st"
  shows "(\<forall>q. node st q \<noteq> None \<longrightarrow> node st' q = node st q)
     \<and> (\<forall>alt. r = Inr alt \<longrightarrow> fallback_of preferred alt \<and> node st alt = None
          \<and> node st' alt = Some Dir \<and> \<not> inhabited st' alt)"
  using assms
proof (induction n arbitrary: last_err st)
  case (Suc n)
  let ?alt = "path_join (parent_or_here preferred) (name_or ''stage'' preferred @ ''-'' @ hex16 (random_token st))"
  have fallback: "fallback_of preferred ?alt"
    unfolding fallback_of_def using fallback_token by blast
  obtain s st1 where run: "std_create_dir ?alt st = (s, st1)" by (cases "std_create_dir ?alt st")
  note made = create_dir_cases [OF run]
  have tree: "tree_ok st1" using tree_std(6) [of ?alt] run Suc.prems(2) by (metis keeps_def snd_conv)
  show ?case
  proof (cases s)
    case (Inr u)
    then have new: "\<not> path_exists st ?alt" "node st1 = (node st)(?alt \<mapsto> Dir)" using made by auto
    then have "\<not> inhabited st ?alt"
      using not_inhabited [OF Suc.prems(2)] by (simp add: path_exists_def)
    then have "\<not> inhabited st1 ?alt"
      using new by (auto simp: inhabited_iff split: if_splits)
    then show ?thesis
      using Suc.prems run Inr new fallback by (auto simp: Let_def path_exists_def)
  next
    case (Inl e)
    then have same: "node st1 = node st" using made by auto
    obtain kind why where e: "e = (kind, why)" by (cases e)
    show ?thesis
    proof (cases "kind = AlreadyExists")
      case True
      then have "create_fallback n preferred (parent_or_here preferred) (name_or ''stage'' preferred) (Some why) st1
          = (r, st')"
        using Suc.prems run Inl e by (simp add: Let_def)
      from Suc.IH [OF this tree] same show ?thesis by simp
    next
      case False
      then show ?thesis using Suc.prems run Inl e same by (auto simp: Let_def)
    qed
  qed
qed auto

text \<open>
  A staging directory is empty and preparing it is safe: whatever fails on the way, what is
  returned is a directory with nothing in it, the preferred one or a fresh sibling of it, nothing
  that existed is changed outside the preferred tree and the fallbacks of earlier runs, and every
  fallback the listing names is counted as swept or as left over.
\<close>

lemma staging_dir_empty:
  assumes "prepare_staging_dir entries preferred clean st = (Inr outcome, st')"
    and "tree_ok st" and "\<not> special preferred"
  shows "node st' (staging_path outcome) = Some Dir \<and> \<not> inhabited st' (staging_path outcome)
     \<and> (staging_path outcome = preferred \<or> fallback_of preferred (staging_path outcome))
     \<and> staging_safe preferred st st'
     \<and> staging_swept outcome + staging_leftover outcome =
          length (filter (fallback_suffix (name_or ''stage'' preferred)) (case entries of None \<Rightarrow> [] | Some ss \<Rightarrow> ss))"
proof -
  let ?parent = "parent_or_here preferred" and ?name = "name_or ''stage'' preferred"
  obtain a b st1 where sweep: "sweep_stale_staging ?parent ?name entries st = ((a, b), st1)"
    by (cases "sweep_stale_staging ?parent ?name entries st") auto
  have swept: "staging_safe preferred st st1 \<and> tree_ok st1
      \<and> a + b = length (filter (fallback_suffix ?name) (case entries of None \<Rightarrow> [] | Some ss \<Rightarrow> ss))"
  proof (cases entries)
    case None
    then show ?thesis using sweep assms(2) by (auto simp: sweep_stale_staging_def staging_safe_def)
  next
    case (Some ss)
    then have "sweep_names ?parent ?name ss (0, 0) st = ((a, b), st1)"
      using sweep by (simp add: sweep_stale_staging_def)
    from sweep_result [OF this] Some assms(2) show ?thesis by (auto intro: touched_safe)
  qed
  obtain ok st2 where claim: "reclaim (if clean then CLEAN_RECLAIM_ROUNDS else 1) preferred st1 = (ok, st2)"
    by (cases "reclaim (if clean then CLEAN_RECLAIM_ROUNDS else 1) preferred st1")
  have claimed: "staging_safe preferred st1 st2 \<and> tree_ok st2
      \<and> (ok \<longrightarrow> node st2 preferred = Some Dir \<and> \<not> inhabited st2 preferred)"
    using reclaim_result [OF claim] swept assms(3) by blast
  then have safe2: "staging_safe preferred st st2" using swept staging_safe_trans by blast
  show ?thesis
  proof (cases ok)
    case True
    then show ?thesis
      using assms(1) sweep claim claimed swept safe2
      by (auto simp: prepare_staging_dir_def Let_def)
  next
    case False
    then obtain st3 t alt where parent: "create_dirs (lineage ?parent) st2 = (t, st3)"
      and alt: "create_fallback MAX_TEMP_ATTEMPTS preferred ?parent ?name None st3 = (Inr alt, st')"
      and outcome: "outcome = \<lparr> staging_path = alt, staging_swept = a, staging_leftover = b \<rparr>"
      using assms(1) sweep claim
      by (auto simp: prepare_staging_dir_def Let_def bind_act_def pure_def io_at_def std_create_dir_all_def
          split: prod.splits sum.splits)
    have "tree_ok st3" using tree_create_dirs [of "lineage ?parent"] parent claimed by (metis keeps_def snd_conv)
    from create_fallback_result [OF alt this] have last: "staging_safe preferred st3 st'"
      "fallback_of preferred alt" "node st' alt = Some Dir" "\<not> inhabited st' alt"
      by (simp_all add: staging_safe_def)
    moreover have "staging_safe preferred st2 st3"
      using create_dirs_result [OF parent] by (simp add: staging_safe_def)
    ultimately have "staging_safe preferred st st'"
      using safe2 staging_safe_trans by blast
    then show ?thesis
      using outcome swept last by simp
  qed
qed

section \<open>Samples\<close>

text \<open>A file system without faults, and one whose process dies at an operation, leaving a partial file.\<close>

definition calm_fs :: "(string \<times> node) list \<Rightarrow> fs" where
  "calm_fs nodes =
     \<lparr> fs_nodes = nodes, fs_read_error = (\<lambda>_. None), fs_missing = ''not found'',
       fs_utf8_error = (\<lambda>_. None), fs_symlink = (\<lambda>_. False), fs_pid = 7, fs_faults = (\<lambda>_. None),
       fs_random = of_nat, fs_time = (\<lambda>_. 0), fs_tick = 0, fs_dead = False \<rparr>"

definition dying_fs :: "nat \<Rightarrow> string \<Rightarrow> (string \<times> node) list \<Rightarrow> fs" where
  "dying_fs n left nodes = (calm_fs nodes)
     \<lparr> fs_faults := (\<lambda>i. if i = n
         then Some \<lparr> ft_message = ''killed'', ft_dies = True, ft_partial = Some left, ft_lost = (\<lambda>_. True) \<rparr>
         else None) \<rparr>"

definition sample_nodes :: "(string \<times> node) list" where
  "sample_nodes = [(''store'', Dir), (''store/index.json'', Bytes ''old''), (''stage'', Dir), (''stage/a'', Bytes ''x'')]"

theorem write_atomic_atomic_witness:
  "\<exists>st'. write_atomic ''store/index.json'' ''new'' (dying_fs 1 ''n'' sample_nodes)
       = (Inl (Io ''store/.index.json.ost-0000000000000000.tmp'' ''killed''), st')
     \<and> node st' ''store/index.json'' = Some (Bytes ''old'')
     \<and> node st' ''store/.index.json.ost-0000000000000000.tmp'' = Some (Bytes ''n'')
     \<and> node st' ''stage/a'' = Some (Bytes ''x'')"
proof -
  let ?st = "dying_fs 1 ''n'' sample_nodes"
  obtain r st' where run: "write_atomic ''store/index.json'' ''new'' ?st = (r, st')"
    by (cases "write_atomic ''store/index.json'' ''new'' ?st")
  have "case write_atomic ''store/index.json'' ''new'' ?st of (r, st') \<Rightarrow>
      r = Inl (Io ''store/.index.json.ost-0000000000000000.tmp'' ''killed'')
      \<and> node st' ''store/index.json'' \<noteq> Some (Bytes ''new'')
      \<and> node st' ''store/.index.json.ost-0000000000000000.tmp'' = Some (Bytes ''n'')"
    by code_simp
  then have computed: "r = Inl (Io ''store/.index.json.ost-0000000000000000.tmp'' ''killed'')"
      "node st' ''store/index.json'' \<noteq> Some (Bytes ''new'')"
      "node st' ''store/.index.json.ost-0000000000000000.tmp'' = Some (Bytes ''n'')"
    unfolding run by simp_all
  have before: "node ?st ''store/index.json'' = Some (Bytes ''old'')" "node ?st ''stage/a'' = Some (Bytes ''x'')"
    by code_simp+
  note whole = write_atomic_atomic [OF run]
  have "node st' ''store/index.json'' = Some (Bytes ''old'')"
    using whole computed(2) before(1) by simp
  moreover have "node st' ''stage/a'' = Some (Bytes ''x'')"
    using whole [THEN conjunct2, THEN conjunct2, rule_format, of "''stage/a''"] before(2) by simp
  ultimately show ?thesis
    using run computed by blast
qed

lemma staging_dir_empty_witness:
  "\<exists>st'. prepare_staging_dir (Some [''stage'', ''stage-0123456789abcdef'']) ''stage'' False (calm_fs sample_nodes)
       = (Inr \<lparr> staging_path = ''stage'', staging_swept = 1, staging_leftover = 0 \<rparr>, st')
     \<and> node st' ''stage'' = Some Dir \<and> \<not> inhabited st' ''stage''"
proof -
  let ?run = "prepare_staging_dir (Some [''stage'', ''stage-0123456789abcdef'']) ''stage'' False (calm_fs sample_nodes)"
  have "fst ?run = Inr \<lparr> staging_path = ''stage'', staging_swept = 1, staging_leftover = 0 \<rparr>"
    by code_simp
  then obtain st' where run: "?run = (Inr \<lparr> staging_path = ''stage'', staging_swept = 1, staging_leftover = 0 \<rparr>, st')"
    by (cases ?run) simp
  have "tree_ok (calm_fs sample_nodes)"
    by (auto simp: tree_ok_def calm_fs_def sample_nodes_def node_def is_dir_def dir_of_def rsplit_once_def
        split: if_splits)
  then show ?thesis
    using staging_dir_empty [OF run] run by (simp add: special_def)
qed

end
