(* ===== verification/Evidence.thy ===== *)
theory Evidence
  imports Records FileSystem
begin

text \<open>
  The evidence carried with an artifact (ost-artifact/src/evidence.rs): the build metadata it is
  made from, the SPDX bill of materials and the in-toto provenance that are generated, and their
  verification against an artifact.  The disk and the JSON reader and writers are arguments.
\<close>

section \<open>Documents and files\<close>

definition SBOM_FILE :: string where
  "SBOM_FILE = ''sbom.spdx.json''"

definition PROVENANCE_FILE :: string where
  "PROVENANCE_FILE = ''provenance.intoto.jsonl''"

record evidence_digest =
  evd_path :: string
  evd_digest :: string
  evd_size :: nat

text \<open>The readers and writers of serde_json, the hash, and the version of the program.\<close>

record evidence_codec =
  ev_from_str :: "string \<Rightarrow> string + json"
  ev_to_string :: "json \<Rightarrow> string + string"
  ev_pretty :: "json \<Rightarrow> string + string"
  ev_identity :: "json \<Rightarrow> string + publisher_identity"
  ev_reader :: manifest_reader
  ev_sha :: "byte list \<Rightarrow> byte list"
  ev_version :: string

definition disk_write :: "disk \<Rightarrow> string \<Rightarrow> string \<Rightarrow> disk res" where
  "disk_write d path text =
     (case disk_write_error d path of
        Some e \<Rightarrow> Inl (Io path e)
      | None \<Rightarrow> Inr (d\<lparr>disk_contents := (disk_contents d)(path \<mapsto> text)\<rparr>))"

text \<open>\<^verbatim>\<open>remove_file\<close>, where a missing file is not an error of the caller.\<close>

definition disk_remove :: "disk \<Rightarrow> string \<Rightarrow> disk res" where
  "disk_remove d path =
     (case disk_contents d path of
        None \<Rightarrow> Inr d
      | Some _ \<Rightarrow>
          (case disk_write_error d path of
             Some e \<Rightarrow> Inl (Io path e)
           | None \<Rightarrow> Inr (d\<lparr>disk_contents := (disk_contents d)(path := None)\<rparr>)))"

definition evidence_from_file :: "evidence_codec \<Rightarrow> disk \<Rightarrow> string \<Rightarrow> string \<Rightarrow> evidence_digest res" where
  "evidence_from_file cd d path name =
     and_then (disk_read d path) (\<lambda>bytes.
       Inr \<lparr> evd_path = name, evd_digest = sha256_hex (ev_sha cd) (str_bytes bytes),
             evd_size = length bytes \<rparr>)"

text \<open>The macro \<^verbatim>\<open>json!\<close> on an object: its members in key order.\<close>

definition json_object :: "(string \<times> json) list \<Rightarrow> json" where
  "json_object members = JObject (foldl (\<lambda>m (k, v). bt_insert k v m) [] members)"

text \<open>
  \<^verbatim>\<open>v[key] = w\<close> along a path of keys; the paths written to below exist as objects
  (on a value of another kind the code would panic).
\<close>

fun json_put :: "string list \<Rightarrow> json \<Rightarrow> json \<Rightarrow> json" where
  "json_put [] w v = w"
| "json_put (key # keys) w (JObject m) =
     JObject (bt_insert key (json_put keys w (json_index (JObject m) key)) m)"
| "json_put (key # keys) w v = json_object [(key, json_put keys w JNull)]"

section \<open>Build metadata\<close>

definition nonempty_env :: "(string \<Rightarrow> string option) \<Rightarrow> string \<Rightarrow> string option" where
  "nonempty_env env key = (case env key of None \<Rightarrow> None | Some v \<Rightarrow> if v = [] then None else Some v)"

definition github_build_metadata :: "(string \<Rightarrow> string option) \<Rightarrow> json option" where
  "github_build_metadata env =
     Option.bind (nonempty_env env ''GITHUB_REPOSITORY'') (\<lambda>repository.
     Option.bind (nonempty_env env ''GITHUB_SHA'') (\<lambda>revision.
     Option.bind (nonempty_env env ''GITHUB_WORKFLOW_REF'') (\<lambda>workflow_ref.
     Option.bind (nonempty_env env ''GITHUB_REF'') (\<lambda>git_ref.
     Option.bind (nonempty_env env ''GITHUB_ACTOR'') (\<lambda>actor.
     Option.bind (nonempty_env env ''GITHUB_EVENT_NAME'') (\<lambda>event.
     Option.bind (strip_prefix (repository @ ''/'') workflow_ref) (\<lambda>rest.
       let workflow_path = hd (split_char (CHR ''@'') rest)
       in if \<not> starts_with ''.github/workflows/'' workflow_path then None
          else Some (json_object
            [(''source'', json_object [(''repository'', JString repository), (''revision'', JString revision)]),
             (''builder'', json_object
               [(''id'', JString (''https://github.com/'' @ workflow_ref)),
                (''identity'', json_object
                  [(''repository'', JString repository), (''workflow_path'', JString workflow_path),
                   (''git_ref'', JString git_ref), (''actor'', JString actor),
                   (''event'', JString event)])])]))))))))"

definition metadata_incomplete :: "string \<Rightarrow> error" where
  "metadata_incomplete field =
     with_hint (''provenance names what produced an artifact; a document missing its source or '' @
         ''builder cannot do that, and partial provenance is worse than none'')
       (coded ''BUILD_METADATA_INCOMPLETE'' Validation
         (''build metadata is missing a non-empty '' @ quoted field))"

definition require_metadata :: "json \<Rightarrow> string \<times> string \<Rightarrow> unit res" where
  "require_metadata v = (\<lambda>(parent, child).
     case pointer_str [parent, child] v of
       None \<Rightarrow> Inl (metadata_incomplete (parent @ ''.'' @ child))
     | Some s \<Rightarrow> if exact_identity_component s then Inr ()
                else Inl (metadata_incomplete (parent @ ''.'' @ child)))"

definition dependency_invalid :: "string \<Rightarrow> error" where
  "dependency_invalid message = coded ''BUILD_METADATA_DEPENDENCY_INVALID'' Validation message"

definition build_dependency_step ::
  "manifest_reader \<Rightarrow> string btree_set \<Rightarrow> nat \<times> json \<Rightarrow> (string btree_set) res"
where
  "build_dependency_step rd names = (\<lambda>(index, v).
     case rd_dependency rd v of
       Inl e \<Rightarrow> Inl (dependency_invalid (''build metadata dependency '' @ to_decimal index @
         '' is invalid: '' @ e))
     | Inr d \<Rightarrow>
         if \<not> dependency_verified d
         then Inl (dependency_invalid (''build metadata dependency '' @ to_decimal index @
                '' has a blank name, version, repository, or revision''))
         else if dep_name d \<in> set names
         then Inl (dependency_invalid (''build metadata dependencies repeat name '' @ quoted (dep_name d)))
         else Inr (bs_insert (dep_name d) names))"

definition validate_build_dependencies :: "manifest_reader \<Rightarrow> json \<Rightarrow> unit res" where
  "validate_build_dependencies rd v =
     (case as_array v of
        None \<Rightarrow> Inl (dependency_invalid ''build metadata 'dependencies' must be an array'')
      | Some vs \<Rightarrow>
          and_then (try_fold (build_dependency_step rd) [] (enumerate 0 vs)) (\<lambda>_. Inr ()))"

definition parse_build_metadata :: "evidence_codec \<Rightarrow> string \<Rightarrow> json res" where
  "parse_build_metadata cd source =
     (case ev_from_str cd source of
        Inl e \<Rightarrow> Inl (Parse ''build metadata'' e)
      | Inr v \<Rightarrow>
          and_then (for_each (require_metadata v)
              [(''source'', ''repository''), (''source'', ''revision''), (''builder'', ''id'')]) (\<lambda>_.
            if (case Option.bind (json_pointer [''builder'', ''identity''] v) as_object of
                  None \<Rightarrow> True | Some ms \<Rightarrow> ms = [])
            then Inl (with_hint (''describe the builder concretely '' @ [CHR 0xE2, CHR 0x80, CHR 0x94] @
                   '' for a self-hosted producer that is typically its host, pipeline and triggering ref'')
                   (coded ''BUILD_METADATA_INCOMPLETE'' Validation
                     ''build metadata is missing a non-empty 'builder.identity' object''))
            else and_then (case json_get ''dependencies'' v of
                             None \<Rightarrow> Inr ()
                           | Some ds \<Rightarrow> validate_build_dependencies (ev_reader cd) ds) (\<lambda>_. Inr v)))"

section \<open>The bill of materials\<close>

definition manifest_str :: "json \<Rightarrow> string \<Rightarrow> string res" where
  "manifest_str manifest field =
     (case get_str field manifest of
        None \<Rightarrow> Inl (validation (''producer manifest is missing '' @ quoted field))
      | Some s \<Rightarrow> Inr s)"

text \<open>\<^verbatim>\<open>strip_prefix("sha256:").unwrap_or(s)\<close>\<close>

definition bare_hex :: "string \<Rightarrow> string" where
  "bare_hex s = (case strip_prefix ''sha256:'' s of None \<Rightarrow> s | Some hex \<Rightarrow> hex)"

text \<open>\<^verbatim>\<open>{index:06}\<close>\<close>

definition six_digits :: "nat \<Rightarrow> string" where
  "six_digits n = replicate (6 - length (to_decimal n)) (CHR ''0'') @ to_decimal n"

definition checksums :: "string \<Rightarrow> json" where
  "checksums hex =
     JArray [json_object [(''algorithm'', JString ''SHA256''), (''checksumValue'', JString hex)]]"

text \<open>\<^verbatim>\<open>pointer(..).or_else(|| get(..)).and_then(as_str).unwrap_or(..)\<close>\<close>

definition first_string :: "json option \<Rightarrow> json option \<Rightarrow> string \<Rightarrow> string" where
  "first_string a b fallback =
     (case Option.bind (or_else a b) as_str of None \<Rightarrow> fallback | Some s \<Rightarrow> s)"

definition spdx_licenses :: "json \<Rightarrow> string" where
  "spdx_licenses manifest =
     (case or_else (pointer_str [''plugin'', ''license''] manifest)
             (map_option (\<lambda>vs. join '' AND '' (List.map_filter as_str vs)) (get_array ''licenses'' manifest)) of
        None \<Rightarrow> ''NOASSERTION''
      | Some s \<Rightarrow> if s = [] then ''NOASSERTION'' else s)"

definition spdx_file :: "nat \<times> json \<Rightarrow> json option" where
  "spdx_file = (\<lambda>(index, f).
     case (get_str ''path'' f, get_str ''sha256'' f) of
       (Some path, Some sha) \<Rightarrow> Some (json_object
         [(''SPDXID'', JString (''SPDXRef-File-'' @ six_digits index)),
          (''fileName'', JString path),
          (''checksums'', checksums (bare_hex sha)),
          (''licenseConcluded'', JString ''NOASSERTION''),
          (''copyrightText'', JString ''NOASSERTION'')])
     | _ \<Rightarrow> None)"

definition spdx_relationship :: "string \<Rightarrow> json \<Rightarrow> json option" where
  "spdx_relationship kind v =
     map_option (\<lambda>ident. json_object
       [(''spdxElementId'', JString ''SPDXRef-Package''), (''relationshipType'', JString kind),
        (''relatedSpdxElement'', JString ident)]) (get_str ''SPDXID'' v)"

definition spdx_dependency :: "nat \<times> json \<Rightarrow> json" where
  "spdx_dependency = (\<lambda>(index, dependency).
     let source = json_index dependency ''source'';
         package = json_object
           [(''name'', json_index dependency ''name''),
            (''SPDXID'', JString (''SPDXRef-Dependency-'' @ six_digits index)),
            (''versionInfo'', json_index dependency ''version''),
            (''downloadLocation'', json_index source ''repository''),
            (''filesAnalyzed'', JBool False),
            (''licenseConcluded'', JString ''NOASSERTION''),
            (''licenseDeclared'', JString ''NOASSERTION''),
            (''copyrightText'', JString ''NOASSERTION''),
            (''sourceInfo'', JString (''revision '' @
               (case as_str (json_index source ''revision'') of None \<Rightarrow> ''unknown'' | Some s \<Rightarrow> s)))]
     in case Option.bind (as_str (json_index dependency ''archive_digest'')) (strip_prefix ''sha256:'') of
          None \<Rightarrow> package
        | Some hex \<Rightarrow> json_put [''checksums''] (checksums hex) package)"

definition spdx_package :: "string \<Rightarrow> string \<Rightarrow> string \<Rightarrow> string \<Rightarrow> json" where
  "spdx_package name version licenses hex = json_object
     [(''name'', JString name), (''SPDXID'', JString ''SPDXRef-Package''),
      (''versionInfo'', JString version), (''downloadLocation'', JString ''NOASSERTION''),
      (''filesAnalyzed'', JBool True), (''licenseConcluded'', JString ''NOASSERTION''),
      (''licenseDeclared'', JString licenses), (''copyrightText'', JString ''NOASSERTION''),
      (''checksums'', checksums hex)]"

definition spdx_root ::
  "string \<Rightarrow> string \<Rightarrow> string \<Rightarrow> string \<Rightarrow> json list \<Rightarrow> json list \<Rightarrow> json list \<Rightarrow> json"
where
  "spdx_root tool name version hex packages files relationships = json_object
     [(''spdxVersion'', JString ''SPDX-2.3''), (''dataLicense'', JString ''CC0-1.0''),
      (''SPDXID'', JString ''SPDXRef-DOCUMENT''), (''name'', JString (name @ ''-'' @ version)),
      (''documentNamespace'', JString (''https://openstrata.dev/spdx/'' @ hex)),
      (''creationInfo'', json_object
        [(''created'', JString ''1970-01-01T00:00:00Z''),
         (''creators'', JArray [JString (''Tool: ost-'' @ tool)]),
         (''comment'', JString (''Timestamp is fixed for deterministic OpenStrata evidence; '' @
            ''producer time remains in manifest.json.''))]),
      (''packages'', JArray packages), (''files'', JArray files),
      (''relationships'', JArray relationships)]"

definition spdx_document :: "evidence_codec \<Rightarrow> json \<Rightarrow> json res" where
  "spdx_document cd manifest =
     and_then (manifest_str manifest ''archive_digest'') (\<lambda>digest.
       let hex = bare_hex digest;
           name = first_string (json_pointer [''plugin'', ''name''] manifest)
                    (json_get ''name'' manifest) ''openstrata-artifact'';
           version = first_string (json_pointer [''plugin'', ''version''] manifest)
                       (json_get ''version'' manifest) ''unknown'';
           files = List.map_filter spdx_file (enumerate 0 (items (get_array ''files'' manifest)));
           dependencies = map spdx_dependency (enumerate 0 (dependency_values manifest))
       in Inr (spdx_root (ev_version cd) name version hex
                (spdx_package name version (spdx_licenses manifest) hex # dependencies) files
                (List.map_filter (spdx_relationship ''CONTAINS'') files
                 @ List.map_filter (spdx_relationship ''DEPENDS_ON'') dependencies)))"

section \<open>Provenance\<close>

definition str_or_empty :: "string option \<Rightarrow> string" where
  "str_or_empty s = (case s of None \<Rightarrow> [] | Some v \<Rightarrow> v)"

definition composition_materials :: "json \<Rightarrow> json" where
  "composition_materials manifest =
     JArray (map (\<lambda>dependency.
       let digest = str_or_empty (as_str (json_index dependency ''archive_digest''))
       in json_object
            [(''name'', json_index dependency ''name''),
             (''uri'', JString (''urn:openstrata:artifact:'' @ digest)),
             (''digest'', json_object
                [(''sha256'', JString (str_or_empty (strip_prefix ''sha256:'' digest)))])])
       (dependency_values manifest))"

definition is_composed :: "json \<Rightarrow> bool" where
  "is_composed manifest \<longleftrightarrow> get_str ''kind'' manifest = Some COMPOSED_RUNTIME_KIND"

definition statement_of :: "string \<Rightarrow> string \<Rightarrow> json \<Rightarrow> json \<Rightarrow> json" where
  "statement_of archive hex source builder = json_object
     [(''_type'', JString ''https://in-toto.io/Statement/v1''),
      (''subject'', JArray [json_object
         [(''name'', JString archive), (''digest'', json_object [(''sha256'', JString hex)])]]),
      (''predicateType'', JString ''https://slsa.dev/provenance/v1''),
      (''predicate'', json_object
         [(''buildDefinition'', json_object
            [(''buildType'', JString ''https://openstrata.dev/build/v1''),
             (''externalParameters'', json_object [(''source'', source)])]),
          (''runDetails'', json_object [(''builder'', builder)])])]"

definition composed_statement :: "json \<Rightarrow> json \<Rightarrow> json" where
  "composed_statement manifest statement =
     json_put [''predicate'', ''buildDefinition'', ''resolvedDependencies'']
       (composition_materials manifest)
     (json_put [''predicate'', ''buildDefinition'', ''externalParameters'', ''runtime_digest'']
       (json_index (json_index manifest ''composition'') ''runtime_digest'')
     (json_put [''predicate'', ''buildDefinition'', ''buildType'']
       (JString ''https://openstrata.dev/runtime/compose/v1'') statement))"

definition provenance_statement :: "json \<Rightarrow> json res" where
  "provenance_statement manifest =
     and_then (manifest_str manifest ''archive'') (\<lambda>archive.
     and_then (manifest_str manifest ''archive_digest'') (\<lambda>digest.
       case json_get ''build'' manifest of
         None \<Rightarrow> Inl (validation ''cannot generate provenance without build metadata'')
       | Some build \<Rightarrow>
           let statement = statement_of archive (bare_hex digest) (json_index build ''source'')
                 (json_index build ''builder'')
           in Inr (if is_composed manifest then composed_statement manifest statement else statement)))"

section \<open>Generation\<close>

definition write_json :: "evidence_codec \<Rightarrow> disk \<Rightarrow> string \<Rightarrow> json \<Rightarrow> disk res" where
  "write_json cd d path v =
     (case ev_pretty cd v of
        Inl e \<Rightarrow> Inl (Parse path e)
      | Inr text \<Rightarrow> disk_write d path (text @ [CHR 0x0A]))"

text \<open>Explicit build metadata wins over what the environment tells.\<close>

definition with_build :: "(string \<Rightarrow> string option) \<Rightarrow> json \<Rightarrow> json" where
  "with_build env manifest =
     (case json_get ''build'' manifest of
        Some _ \<Rightarrow> manifest
      | None \<Rightarrow>
          (case github_build_metadata env of
             None \<Rightarrow> manifest
           | Some build \<Rightarrow> json_put [''build''] build manifest))"

text \<open>The manifest is updated in place; creating the directory is one more answer of the disk.\<close>

definition generate_evidence ::
  "evidence_codec \<Rightarrow> (string \<Rightarrow> string option) \<Rightarrow> string option \<Rightarrow> disk \<Rightarrow> string \<Rightarrow> json
     \<Rightarrow> json \<times> (disk \<times> evidence_digest list) res"
where
  "generate_evidence cd env create_error d dist manifest =
     (case create_error of
        Some e \<Rightarrow> (manifest, Inl (Io dist e))
      | None \<Rightarrow>
          (let manifest = with_build env manifest;
               sbom_path = path_join dist SBOM_FILE;
               provenance_path = path_join dist PROVENANCE_FILE
           in (manifest,
             and_then (spdx_document cd manifest) (\<lambda>sbom.
             and_then (write_json cd d sbom_path sbom) (\<lambda>d.
             and_then (evidence_from_file cd d sbom_path SBOM_FILE) (\<lambda>sbom_evidence.
               if json_get ''build'' manifest \<noteq> None
               then and_then (provenance_statement manifest) (\<lambda>provenance.
                 case ev_to_string cd provenance of
                   Inl e \<Rightarrow> Inl (Parse PROVENANCE_FILE e)
                 | Inr line \<Rightarrow>
                     and_then (disk_write d provenance_path (line @ [CHR 0x0A])) (\<lambda>d.
                     and_then (evidence_from_file cd d provenance_path PROVENANCE_FILE) (\<lambda>evidence.
                       Inr (d, [sbom_evidence, evidence]))))
               else and_then (disk_remove d provenance_path) (\<lambda>d.
                 Inr (d, [sbom_evidence]))))))))"

section \<open>Verification\<close>

definition evidence_invalid :: "string \<Rightarrow> error" where
  "evidence_invalid message = coded ''ARTIFACT_EVIDENCE_INVALID'' Validation message"

definition record_evidence ::
  "string option \<Rightarrow> string option \<Rightarrow> nat option \<Rightarrow> string \<Rightarrow> string \<Rightarrow> (evidence_digest option) res"
where
  "record_evidence path digest sz label expected_path =
     (case (path, digest, sz) of
        (None, None, None) \<Rightarrow> Inr None
      | (Some path, Some digest, Some sz) \<Rightarrow>
          if path = expected_path
          then Inr (Some \<lparr> evd_path = path, evd_digest = digest, evd_size = sz \<rparr>)
          else Inl (evidence_invalid (''artifact record '' @ label @ '' path must be '' @
                 quoted expected_path @ '', got '' @ quoted path))
      | _ \<Rightarrow> Inl (evidence_invalid (''artifact record has incomplete '' @ label @
               '' path/digest/size metadata'')))"

definition verify_evidence_digest ::
  "evidence_codec \<Rightarrow> disk \<Rightarrow> string \<Rightarrow> evidence_digest \<Rightarrow> unit res"
where
  "verify_evidence_digest cd d root evidence =
     and_then (evidence_from_file cd d (path_join root (evd_path evidence)) (evd_path evidence)) (\<lambda>actual.
       if evd_digest actual \<noteq> evd_digest evidence \<or> evd_size actual \<noteq> evd_size evidence
       then Inl (coded ''ARTIFACT_EVIDENCE_DIGEST_MISMATCH'' Validation
              (''evidence '' @ quoted (evd_path evidence) @ '' hashes to '' @ evd_digest actual @ '' ('' @
               to_decimal (evd_size actual) @ '' bytes), expected '' @ evd_digest evidence @ '' ('' @
               to_decimal (evd_size evidence) @ '' bytes)''))
       else Inr ())"

definition sbom_invalid :: "string \<Rightarrow> error" where
  "sbom_invalid message = coded ''ARTIFACT_SBOM_INVALID'' Validation (SBOM_FILE @ message)"

definition checksum_matches :: "string \<Rightarrow> json \<Rightarrow> bool" where
  "checksum_matches expected checksum \<longleftrightarrow>
     get_str ''algorithm'' checksum = Some ''SHA256''
     \<and> get_str ''checksumValue'' checksum = Some expected"

definition package_has_checksum :: "string \<Rightarrow> json \<Rightarrow> bool" where
  "package_has_checksum expected package \<longleftrightarrow>
     list_ex (checksum_matches expected) (items (get_array ''checksums'' package))"

definition is_dependency_package :: "json \<Rightarrow> bool" where
  "is_dependency_package package =
     (case get_str ''SPDXID'' package of
        None \<Rightarrow> False
      | Some ident \<Rightarrow> starts_with ''SPDXRef-Dependency-'' ident)"

definition package_matches :: "dependency_identity \<Rightarrow> json \<Rightarrow> bool" where
  "package_matches d package \<longleftrightarrow>
     get_str ''name'' package = Some (dep_name d)
     \<and> get_str ''versionInfo'' package = Some (dep_version d)
     \<and> get_str ''downloadLocation'' package = Some (src_repository (dep_source d))
     \<and> get_str ''sourceInfo'' package = Some (''revision '' @ src_revision (dep_source d))
     \<and> (case dep_archive_digest d of
          None \<Rightarrow> True
        | Some digest \<Rightarrow> package_has_checksum (bare_hex digest) package)"

text \<open>\<^const>\<open>None\<close> is the panic of the \<^verbatim>\<open>expect\<close> on the package array.\<close>

definition verify_sbom ::
  "evidence_codec \<Rightarrow> disk \<Rightarrow> string \<Rightarrow> string \<Rightarrow> dependency_identity list \<Rightarrow> (unit res) option"
where
  "verify_sbom cd d path artifact_digest dependencies =
     (case disk_read d path of
        Inl e \<Rightarrow> Some (Inl e)
      | Inr bytes \<Rightarrow>
          (case ev_from_str cd bytes of
             Inl e \<Rightarrow> Some (Inl (sbom_invalid ('' is not valid JSON: '' @ e)))
           | Inr document \<Rightarrow>
               if get_str ''spdxVersion'' document \<noteq> Some ''SPDX-2.3''
               then Some (Inl (sbom_invalid '' must be an SPDX-2.3 JSON document''))
               else if \<not> list_ex (package_has_checksum (bare_hex artifact_digest))
                      (items (get_array ''packages'' document))
               then Some (Inl (coded ''ARTIFACT_SBOM_SUBJECT_MISMATCH'' Validation
                 (SBOM_FILE @ '' does not identify artifact digest '' @ artifact_digest)))
               else if dependencies = [] then Some (Inr ())
               else (case get_array ''packages'' document of
                  None \<Rightarrow> None
                | Some packages \<Rightarrow>
                    (let declared = filter is_dependency_package packages
                     in if length declared \<noteq> length dependencies
                           \<or> list_ex (\<lambda>dep. \<not> list_ex (package_matches dep) declared) dependencies
                        then Some (Inl (coded ''ARTIFACT_SBOM_DEPENDENCY_MISMATCH'' Validation
                          (SBOM_FILE @ '' dependency packages do not match the artifact's '' @
                           to_decimal (length dependencies) @ '' exact dependency identit'' @
                           (if length dependencies = 1 then ''y'' else ''ies''))))
                        else Some (Inr ())))))"

text \<open>\<^verbatim>\<open>str::lines\<close>: the last line may lack its line feed.\<close>

definition strip_cr :: "string \<Rightarrow> string" where
  "strip_cr s = (case strip_suffix [CHR 0x0D] s of None \<Rightarrow> s | Some t \<Rightarrow> t)"

definition text_lines :: "string \<Rightarrow> string list" where
  "text_lines s =
     (let parts = split_char (CHR 0x0A) s
      in map strip_cr (butlast parts) @ (if last parts = [] then [] else [last parts]))"

definition provenance_invalid :: "string \<Rightarrow> error" where
  "provenance_invalid message = coded ''ARTIFACT_PROVENANCE_INVALID'' Validation (PROVENANCE_FILE @ message)"

definition source_mismatch :: "string \<Rightarrow> error" where
  "source_mismatch message = coded ''ARTIFACT_PROVENANCE_SOURCE_MISMATCH'' Validation message"

definition builder_untrusted :: "string \<Rightarrow> error" where
  "builder_untrusted message = coded ''ARTIFACT_PROVENANCE_BUILDER_UNTRUSTED'' Validation message"

definition statement_subject :: "string \<Rightarrow> json \<Rightarrow> bool" where
  "statement_subject expected statement \<longleftrightarrow>
     list_ex (\<lambda>subject. pointer_str [''digest'', ''sha256''] subject = Some expected)
       (items (get_array ''subject'' statement))"

definition required_source :: "json \<Rightarrow> string list \<Rightarrow> string \<Rightarrow> string res" where
  "required_source document pointer description =
     (case pointer_str pointer document of
        None \<Rightarrow> Inl (source_mismatch (''missing '' @ description))
      | Some s \<Rightarrow> if s = [] then Inl (source_mismatch (''missing '' @ description)) else Inr s)"

definition binds_composition :: "json \<Rightarrow> json \<Rightarrow> bool" where
  "binds_composition manifest statement \<longleftrightarrow>
     json_pointer [''predicate'', ''buildDefinition'', ''resolvedDependencies''] statement
       = Some (composition_materials manifest)
     \<and> json_pointer [''predicate'', ''buildDefinition'', ''externalParameters'', ''runtime_digest''] statement
       = json_pointer [''composition'', ''runtime_digest''] manifest"

definition match_publisher :: "evidence_codec \<Rightarrow> artifact_policy \<Rightarrow> json \<Rightarrow> string res" where
  "match_publisher cd policy statement =
     (case json_pointer [''predicate'', ''runDetails'', ''builder'', ''identity''] statement of
        None \<Rightarrow> Inl (builder_untrusted ''provenance builder carries no publisher identity'')
      | Some v \<Rightarrow>
          (case ev_identity cd v of
             Inl e \<Rightarrow> Inl (builder_untrusted (''provenance publisher identity is invalid: '' @ e))
           | Inr identity \<Rightarrow>
               (case find (\<lambda>p. publisher_matches p identity) (policy_publishers policy) of
                  None \<Rightarrow> Inl (builder_untrusted
                    ''provenance builder identity matches no allowed publisher policy'')
                | Some publisher \<Rightarrow> Inr (ap_id publisher))))"

definition parse_statement :: "evidence_codec \<Rightarrow> string \<Rightarrow> json res" where
  "parse_statement cd line =
     (case ev_from_str cd line of
        Inl e \<Rightarrow> Inl (provenance_invalid ('' contains invalid JSONL: '' @ e))
      | Inr v \<Rightarrow> Inr v)"

definition verify_provenance ::
  "evidence_codec \<Rightarrow> disk \<Rightarrow> string \<Rightarrow> json \<Rightarrow> string \<Rightarrow> artifact_policy option \<Rightarrow> (string option) res"
where
  "verify_provenance cd d path manifest artifact_digest policy =
     and_then (disk_read_text d path) (\<lambda>source.
     and_then (try_map (parse_statement cd) (filter (\<lambda>line. trim line \<noteq> []) (text_lines source))) (\<lambda>statements.
       if statements = [] then Inl (provenance_invalid '' contains no statements'')
       else case find (statement_subject (bare_hex artifact_digest)) statements of
         None \<Rightarrow> Inl (coded ''ARTIFACT_PROVENANCE_SUBJECT_MISMATCH'' Validation
           (PROVENANCE_FILE @ '' has no subject matching artifact digest '' @ artifact_digest))
       | Some statement \<Rightarrow>
           if is_composed manifest \<and> \<not> binds_composition manifest statement
           then Inl (source_mismatch
             ''composition provenance does not bind the runtime identity and exact input artifacts'')
           else
             and_then (required_source manifest [''build'', ''source'', ''repository'']
                         ''manifest build.source.repository'') (\<lambda>build_repository.
             and_then (required_source manifest [''build'', ''source'', ''revision'']
                         ''manifest build.source.revision'') (\<lambda>build_revision.
             and_then (required_source statement
                         [''predicate'', ''buildDefinition'', ''externalParameters'', ''source'', ''repository'']
                         ''provenance source repository'') (\<lambda>attested_repository.
             and_then (required_source statement
                         [''predicate'', ''buildDefinition'', ''externalParameters'', ''source'', ''revision'']
                         ''provenance source revision'') (\<lambda>attested_revision.
               if build_repository \<noteq> attested_repository \<or> build_revision \<noteq> attested_revision
               then Inl (source_mismatch
                 ''provenance source repository/revision does not match manifest build metadata'')
               else case policy of
                 None \<Rightarrow> Inr None
               | Some policy \<Rightarrow>
                   and_then (match_publisher cd policy statement) (\<lambda>publisher. Inr (Some publisher))))))))"

section \<open>Generated documents\<close>

lemma json_get_object: "json_get key (json_object ms) = map_of (rev ms) key"
proof -
  have "bt_get (foldl (\<lambda>m (k, v). bt_insert k v m) [] ms) key = map_of (rev ms) key"
    using btree.get_inserts [of "[]" ms key] by (simp add: bt_ok_def split: option.splits)
  then show ?thesis by (simp add: json_object_def)
qed

lemma json_get_put:
  "json_get k (json_put (key # keys) w (JObject m)) =
     (if k = key then Some (json_put keys w (json_index (JObject m) key)) else json_get k (JObject m))"
  by simp

lemma json_object_is: "\<exists>m. json_object ms = JObject m"
  by (simp add: json_object_def)

lemma json_get_put_object:
  "json_get k (json_put (key # keys) w (json_object ms)) =
     (if k = key then Some (json_put keys w (json_index (json_object ms) key))
      else json_get k (json_object ms))"
  using json_get_put [of k key keys w] json_object_is [of ms] by force

text \<open>
  What the code relies on of serde_json and of its derived reader: printing a value and reading
  it back gives the value, a compact rendering is one line of text, and a dependency is read
  off the members that carry its fields.
\<close>

definition serde_faithful :: "evidence_codec \<Rightarrow> disk \<Rightarrow> bool" where
  "serde_faithful cd d \<longleftrightarrow>
     (\<forall>v s. ev_pretty cd v = Inr s \<longrightarrow> ev_from_str cd (s @ [CHR 0x0A]) = Inr v)
     \<and> (\<forall>v s. ev_to_string cd v = Inr s \<longrightarrow>
          ev_from_str cd s = Inr v \<and> trim s \<noteq> [] \<and> CHR 0x0A \<notin> set s \<and> CHR 0x0D \<notin> set s
          \<and> disk_utf8_error d (s @ [CHR 0x0A]) = None)
     \<and> (\<forall>v dep. rd_dependency (ev_reader cd) v = Inr dep \<longrightarrow>
          get_str ''name'' v = Some (dep_name dep)
          \<and> get_str ''version'' v = Some (dep_version dep)
          \<and> pointer_str [''source'', ''repository''] v = Some (src_repository (dep_source dep))
          \<and> pointer_str [''source'', ''revision''] v = Some (src_revision (dep_source dep))
          \<and> (dep_archive_digest dep \<noteq> None \<longrightarrow> get_str ''archive_digest'' v = dep_archive_digest dep))"

lemma get_str_index: "get_str key v = Some s \<Longrightarrow> json_index v key = JString s"
  by (auto simp: get_str_def json_index_def as_str_Some bind_eq_Some_conv)

lemma pointer_index:
  "pointer_str [a, b] v = Some s \<Longrightarrow> json_index (json_index v a) b = JString s"
  by (auto simp: pointer_str_def json_index_def as_str_Some bind_eq_Some_conv split: option.splits)

lemma checksums_match: "package_has_checksum hex p" if "json_get ''checksums'' p = Some (checksums hex)"
  using that
  by (simp add: package_has_checksum_def checksum_matches_def checksums_def get_array_def get_str_def
      items_def json_get_object)

lemma spdx_dependency_fields:
  "get_str ''SPDXID'' (spdx_dependency (i, v)) = Some (''SPDXRef-Dependency-'' @ six_digits i)"
  "json_get ''name'' (spdx_dependency (i, v)) = Some (json_index v ''name'')"
  "json_get ''versionInfo'' (spdx_dependency (i, v)) = Some (json_index v ''version'')"
  "json_get ''downloadLocation'' (spdx_dependency (i, v)) =
     Some (json_index (json_index v ''source'') ''repository'')"
  "get_str ''sourceInfo'' (spdx_dependency (i, v)) = Some (''revision '' @
     (case as_str (json_index (json_index v ''source'') ''revision'') of None \<Rightarrow> ''unknown'' | Some s \<Rightarrow> s))"
  by (simp_all add: spdx_dependency_def Let_def get_str_def json_get_put_object json_get_object
      del: json_put.simps json_get.simps split: option.split)

lemma spdx_dependency_checksum:
  assumes "as_str (json_index v ''archive_digest'') = Some g" and "strip_prefix ''sha256:'' g = Some hex"
  shows "json_get ''checksums'' (spdx_dependency (i, v)) = Some (checksums hex)"
proof -
  have "json_put [] (checksums hex) x = checksums hex" for x by simp
  with assms show ?thesis
    by (simp add: spdx_dependency_def Let_def json_get_put_object del: json_put.simps json_get.simps)
qed

lemma spdx_dependency_matches:
  assumes "serde_faithful cd d" and "rd_dependency (ev_reader cd) v = Inr dep" and "dependency_verified dep"
  shows "package_matches dep (spdx_dependency (i, v))"
proof -
  from assms(1,2) have fields:
    "get_str ''name'' v = Some (dep_name dep)" "get_str ''version'' v = Some (dep_version dep)"
    "pointer_str [''source'', ''repository''] v = Some (src_repository (dep_source dep))"
    "pointer_str [''source'', ''revision''] v = Some (src_revision (dep_source dep))"
    "dep_archive_digest dep \<noteq> None \<Longrightarrow> get_str ''archive_digest'' v = dep_archive_digest dep"
    unfolding serde_faithful_def by blast+
  have archive: "package_has_checksum (bare_hex g) (spdx_dependency (i, v))"
    if g: "dep_archive_digest dep = Some g" for g
  proof -
    from g assms(3) obtain hex where hex: "strip_prefix ''sha256:'' g = Some hex"
      by (auto simp: dependency_verified_def is_canonical_sha256_def split: option.splits)
    then have "bare_hex g = hex" by (simp add: bare_hex_def)
    moreover have "as_str (json_index v ''archive_digest'') = Some g"
      using fields(5) g get_str_index by fastforce
    ultimately show ?thesis
      using spdx_dependency_checksum [OF _ hex] checksums_match by blast
  qed
  have "get_str ''name'' (spdx_dependency (i, v)) = Some (dep_name dep)"
    "get_str ''versionInfo'' (spdx_dependency (i, v)) = Some (dep_version dep)"
    "get_str ''downloadLocation'' (spdx_dependency (i, v)) = Some (src_repository (dep_source dep))"
    using get_str_index [OF fields(1)] get_str_index [OF fields(2)] pointer_index [OF fields(3)]
    by (simp_all add: get_str_def spdx_dependency_fields)
  moreover have "get_str ''sourceInfo'' (spdx_dependency (i, v)) =
      Some (''revision '' @ src_revision (dep_source dep))"
    by (simp add: spdx_dependency_fields pointer_index [OF fields(4)])
  ultimately show ?thesis
    using archive by (simp add: package_matches_def split: option.split)
qed

lemma dependency_packages: "filter is_dependency_package (map spdx_dependency ivs) = map spdx_dependency ivs"
  by (rule filter_True)
     (auto simp: is_dependency_package_def spdx_dependency_fields starts_with_def)

lemma spdx_root_fields:
  "get_str ''spdxVersion'' (spdx_root tool name version hex packages files relationships) = Some ''SPDX-2.3''"
  "get_array ''packages'' (spdx_root tool name version hex packages files relationships) = Some packages"
  by (simp_all add: spdx_root_def get_str_def get_array_def json_get_object del: json_get.simps)

lemma spdx_package_checksum: "package_has_checksum hex (spdx_package name version licenses hex)"
  by (rule checksums_match) (simp add: spdx_package_def json_get_object)

lemma spdx_package_is_subject: "\<not> is_dependency_package (spdx_package name version licenses hex)"
  by (simp add: is_dependency_package_def spdx_package_def get_str_def json_get_object starts_with_def)

text \<open>The generated bill of materials passes its own verification.\<close>

lemma generated_sbom_verifies:
  assumes "spdx_document cd manifest = Inr doc"
    and "disk_read d path = Inr text" and "ev_from_str cd text = Inr doc"
    and "get_str ''archive_digest'' manifest = Some digest"
    and "normalize_dependency_identities (ev_reader cd) manifest = Inr ds" and "serde_faithful cd d'"
  shows "verify_sbom cd d path digest ds = Some (Inr ())"
proof -
  let ?packages = "map spdx_dependency (enumerate 0 (dependency_values manifest))"
  obtain package where version: "get_str ''spdxVersion'' doc = Some ''SPDX-2.3''"
    and packages: "get_array ''packages'' doc = Some (package # ?packages)"
    and subject: "package_has_checksum (bare_hex digest) package" "\<not> is_dependency_package package"
    using assms(1,4) spdx_root_fields spdx_package_checksum spdx_package_is_subject
    by (auto simp: spdx_document_def manifest_str_def Let_def)
  from normalize_dependencies_ok [OF assms(5)] obtain found where
    ds: "ds = sort_key dependency_key found" and verified: "list_all dependency_verified ds"
    and found: "list_all2 (\<lambda>v dep. rd_dependency (ev_reader cd) v = Inr dep) (dependency_values manifest) found"
    by (auto simp: dependencies_normal_def)
  have "\<exists>p \<in> set ?packages. package_matches dep p" if "dep \<in> set ds" for dep
  proof -
    from that ds obtain i where i: "i < length found" "found ! i = dep" by (auto simp: in_set_conv_nth)
    with found have v: "rd_dependency (ev_reader cd) (dependency_values manifest ! i) = Inr dep"
      and len: "i < length (dependency_values manifest)"
      by (auto simp: list_all2_conv_all_nth)
    from verified that have "dependency_verified dep" by (simp add: list_all_iff)
    from spdx_dependency_matches [OF assms(6) v this] have
      "package_matches dep (spdx_dependency (i, dependency_values manifest ! i))" .
    moreover have "spdx_dependency (i, dependency_values manifest ! i) = ?packages ! i"
      using len by (simp add: nth_enumerate_eq)
    ultimately show ?thesis using len by (metis length_enumerate length_map nth_mem)
  qed
  moreover have "length ?packages = length ds"
    using list_all2_lengthD [OF found] by (simp add: ds)
  moreover have "filter is_dependency_package (package # ?packages) = ?packages"
    using subject by (simp add: dependency_packages)
  ultimately show ?thesis
    using assms(2,3) version packages subject
    by (simp add: verify_sbom_def items_def list_ex_iff Let_def) blast
qed

text \<open>The panic of the verification is never reached.\<close>

lemma verify_sbom_total: "verify_sbom cd d path digest ds \<noteq> None"
proof -
  have "get_array ''packages'' doc = None \<Longrightarrow> \<not> list_ex P (items (get_array ''packages'' doc))" for doc P
    by (simp add: items_def)
  then show ?thesis by (auto simp: verify_sbom_def Let_def split: sum.split option.split)
qed

section \<open>Generated provenance\<close>

lemma text_lines_single:
  assumes "CHR 0x0A \<notin> set s" and "CHR 0x0D \<notin> set s"
  shows "text_lines (s @ [CHR 0x0A]) = [s]"
proof -
  have "\<forall>c \<in> set s. c \<noteq> CHR 0x0A" using assms(1) by auto
  then have "split_char (CHR 0x0A) (s @ CHR 0x0A # []) = s # split_char (CHR 0x0A) []"
    by (rule split_on_append) simp
  then have "split_char (CHR 0x0A) (s @ [CHR 0x0A]) = [s, []]" by simp
  moreover have "strip_suffix [CHR 0x0D] s = None"
    using assms(2) by (cases "strip_suffix [CHR 0x0D] s") (auto simp: strip_suffix_Some)
  ultimately show ?thesis by (simp add: text_lines_def strip_cr_def)
qed

text \<open>Writing along one path leaves the paths that leave it unchanged.\<close>

fun diverge :: "string list \<Rightarrow> string list \<Rightarrow> bool" where
  "diverge (k # ks) (q # qs) = (k \<noteq> q \<or> diverge ks qs)"
| "diverge _ _ = False"

lemma pointer_put_same: "json_pointer ks (json_put ks w v) = Some w"
proof (induction ks arbitrary: v)
  case (Cons k ks)
  then show ?case by (cases v) (simp_all add: json_get_object)
qed simp

lemma pointer_null: "qs \<noteq> [] \<Longrightarrow> (\<And>m. v \<noteq> JObject m) \<Longrightarrow> json_pointer qs v = None"
  by (cases qs; cases v) auto

lemma diverge_nonempty: "diverge ks qs \<Longrightarrow> qs \<noteq> []"
  by (cases ks; cases qs) auto

lemma pointer_put_other: "diverge ks qs \<Longrightarrow> json_pointer qs (json_put ks w v) = json_pointer qs v"
proof (induction ks qs arbitrary: v rule: diverge.induct)
  case (1 k ks q qs)
  show ?case
  proof (cases "k = q")
    case False
    then show ?thesis by (cases v) (simp_all add: json_get_object)
  next
    case True
    with "1.prems" have qs: "diverge ks qs" by simp
    have IH: "json_pointer qs (json_put ks w u) = json_pointer qs u" for u
      using "1.IH" [OF qs] .
    have "json_pointer qs JNull = None" using diverge_nonempty [OF qs] pointer_null by blast
    then show ?thesis
      using True IH by (cases v) (auto simp: json_get_object json_index_def split: option.split)
  qed
qed simp_all

lemma get_array_pointer: "get_array key v = Option.bind (json_pointer [key] v) as_array"
  by (simp add: get_array_def split: option.split)

lemma composed_pointers:
  "get_array ''subject'' (composed_statement manifest st) = get_array ''subject'' st"
  "json_pointer [''predicate'', ''buildDefinition'', ''externalParameters'', ''source'', key]
     (composed_statement manifest st) =
   json_pointer [''predicate'', ''buildDefinition'', ''externalParameters'', ''source'', key] st"
  "json_pointer [''predicate'', ''buildDefinition'', ''resolvedDependencies''] (composed_statement manifest st) =
   Some (composition_materials manifest)"
  "json_pointer [''predicate'', ''buildDefinition'', ''externalParameters'', ''runtime_digest'']
     (composed_statement manifest st) =
   Some (json_index (json_index manifest ''composition'') ''runtime_digest'')"
  unfolding composed_statement_def get_array_pointer
  by (simp_all add: pointer_put_same pointer_put_other del: json_put.simps json_pointer.simps)

lemma statement_pointers:
  "statement_subject hex (statement_of archive hex source builder)"
  "json_pointer [''predicate'', ''buildDefinition'', ''externalParameters'', ''source'', key]
     (statement_of archive hex source builder) = json_get key source"
  by (simp_all add: statement_subject_def statement_of_def get_array_def items_def pointer_str_def
      json_get_object del: json_get.simps split: option.split)

lemma json_get_index: "json_get key (json_index v k) = json_pointer [k, key] v"
  by (simp add: json_index_def split: option.split)

lemma composed_digest:
  assumes "check_composed manifest = Inr ()"
  shows "Some (json_index (json_index manifest ''composition'') ''runtime_digest'') =
     json_pointer [''composition'', ''runtime_digest''] manifest"
proof -
  from assms obtain c where c: "json_get ''composition'' manifest = Some c"
    and "get_str ''runtime_digest'' c \<noteq> None"
    by (auto simp: check_composed_def split: option.splits if_splits)
  then show ?thesis by (auto simp: json_index_def get_str_def split: option.splits bind_splits)
qed

lemma composed_kind: "detect_kind manifest = Inr kind \<Longrightarrow> is_composed manifest \<Longrightarrow> kind = ComposedRuntimeArtifact"
  by (auto simp: detect_kind_def is_composed_def manifest_kinds split: if_splits)

text \<open>The generated provenance passes its own verification.\<close>

lemma generated_provenance_verifies:
  assumes generated: "provenance_statement manifest = Inr st"
    and line_of: "ev_to_string cd st = Inr line" and stored: "disk_read d path = Inr (line @ [CHR 0x0A])"
    and faithful: "serde_faithful cd d"
    and digest: "get_str ''archive_digest'' manifest = Some digest"
    and composed: "is_composed manifest \<Longrightarrow> check_composed manifest = Inr ()"
    and source: "normalize_source_identity manifest = Inr (Some s)"
  shows "verify_provenance cd d path manifest digest None = Inr None"
proof -
  from generated digest obtain archive build where build: "json_get ''build'' manifest = Some build"
    and st: "st = (let st = statement_of archive (bare_hex digest) (json_index build ''source'')
        (json_index build ''builder'') in if is_composed manifest then composed_statement manifest st else st)"
    by (auto simp: provenance_statement_def manifest_str_def res_simps Let_def split: option.splits)
  from faithful line_of have parsed: "ev_from_str cd line = Inr st" "trim line \<noteq> []"
    and plain: "CHR 0x0A \<notin> set line" "CHR 0x0D \<notin> set line"
    and utf8: "disk_utf8_error d (line @ [CHR 0x0A]) = None"
    unfolding serde_faithful_def by blast+
  have "disk_read_text d path = Inr (line @ [CHR 0x0A])"
    by (simp add: disk_read_text_def stored utf8)
  moreover have "try_map (parse_statement cd) (filter (\<lambda>l. trim l \<noteq> []) (text_lines (line @ [CHR 0x0A]))) = Inr [st]"
    using parsed text_lines_single [OF plain] by (simp add: parse_statement_def)
  moreover have subject: "statement_subject (bare_hex digest) st"
    unfolding st Let_def using statement_pointers(1) composed_pointers(1)
    by (simp add: statement_subject_def)
  moreover have binds: "is_composed manifest \<Longrightarrow> binds_composition manifest st"
    unfolding binds_composition_def st Let_def using composed_digest [OF composed]
    by (simp add: composed_pointers del: json_pointer.simps)
  moreover have attested: "pointer_str [''predicate'', ''buildDefinition'', ''externalParameters'', ''source'', key] st =
      pointer_str [''build'', ''source'', key] manifest" for key
  proof -
    have "json_pointer [''predicate'', ''buildDefinition'', ''externalParameters'', ''source'', key] st =
        json_get key (json_index build ''source'')"
      unfolding st Let_def by (simp add: composed_pointers statement_pointers del: json_pointer.simps)
    also have "\<dots> = json_pointer [''build'', ''source'', key] manifest"
      by (simp add: json_get_index build)
    finally show ?thesis by (simp add: pointer_str_def del: json_pointer.simps)
  qed
  moreover have "required_source manifest [''build'', ''source'', ''repository''] w = Inr (src_repository s)"
    "required_source manifest [''build'', ''source'', ''revision''] w = Inr (src_revision s)" for w
    using source_ok [OF source]
    by (simp_all add: required_source_def source_verified_def exact_identity_component_def)
  ultimately show ?thesis
    by (simp add: verify_provenance_def required_source_def del: json_pointer.simps)
qed

section \<open>Generated evidence\<close>

lemma disk_write_ok:
  assumes "disk_write d p t = Inr d'"
  shows "disk_read d' p = (case disk_read_error d p of Some e \<Rightarrow> Inl (Io p e) | None \<Rightarrow> Inr t)
     \<and> (\<forall>q. q \<noteq> p \<longrightarrow> disk_read d' q = disk_read d q) \<and> disk_utf8_error d' = disk_utf8_error d"
proof -
  from assms have "d' = d\<lparr>disk_contents := (disk_contents d)(p \<mapsto> t)\<rparr>"
    by (simp add: disk_write_def split: option.splits)
  then show ?thesis by (simp add: disk_read_def split: option.split)
qed

lemma disk_remove_ok:
  assumes "disk_remove d p = Inr d'"
  shows "(\<forall>q. q \<noteq> p \<longrightarrow> disk_read d' q = disk_read d q) \<and> disk_utf8_error d' = disk_utf8_error d"
proof -
  from assms have "d' = d \<or> d' = d\<lparr>disk_contents := (disk_contents d)(p := None)\<rparr>"
    by (auto simp: disk_remove_def split: option.splits)
  then show ?thesis by (auto simp: disk_read_def split: option.split if_splits)
qed

lemma serde_faithful_disk: "disk_utf8_error d' = disk_utf8_error d \<Longrightarrow> serde_faithful cd d' = serde_faithful cd d"
  by (simp add: serde_faithful_def)

lemma sidecar_paths: "path_join dist SBOM_FILE \<noteq> path_join dist PROVENANCE_FILE"
  by (auto simp: path_join_def is_absolute_def starts_with_def SBOM_FILE_def PROVENANCE_FILE_def)

lemma evidence_from_file_ok:
  "evidence_from_file cd d path name = Inr e \<longleftrightarrow>
     (\<exists>bytes. disk_read d path = Inr bytes
        \<and> e = \<lparr> evd_path = name, evd_digest = sha256_hex (ev_sha cd) (str_bytes bytes),
                evd_size = length bytes \<rparr>)"
  by (auto simp: evidence_from_file_def res_simps)

lemma verify_same_file:
  assumes "evidence_from_file cd d (path_join dist name) name = Inr e"
    and "disk_read d' (path_join dist name) = disk_read d (path_join dist name)"
  shows "verify_evidence_digest cd d' dist e = Inr ()"
proof -
  from assms(1) obtain bytes where "disk_read d (path_join dist name) = Inr bytes"
    and e: "e = \<lparr> evd_path = name, evd_digest = sha256_hex (ev_sha cd) (str_bytes bytes),
      evd_size = length bytes \<rparr>"
    by (auto simp: evidence_from_file_ok)
  with assms(2) show ?thesis by (simp add: verify_evidence_digest_def evidence_from_file_def)
qed

text \<open>What generation leaves on the disk.\<close>

lemma generated_files:
  assumes "generate_evidence cd env None d dist manifest = (manifest', Inr (d', evidence))"
  shows "manifest' = with_build env manifest \<and> disk_utf8_error d' = disk_utf8_error d
     \<and> (\<forall>e \<in> set evidence. verify_evidence_digest cd d' dist e = Inr ())
     \<and> (\<exists>sbom body. spdx_document cd manifest' = Inr sbom \<and> ev_pretty cd sbom = Inr body
          \<and> disk_read d' (path_join dist SBOM_FILE) = Inr (body @ [CHR 0x0A]))
     \<and> (json_get ''build'' manifest' \<noteq> None \<longrightarrow>
          (\<exists>st line. provenance_statement manifest' = Inr st \<and> ev_to_string cd st = Inr line
             \<and> disk_read d' (path_join dist PROVENANCE_FILE) = Inr (line @ [CHR 0x0A])))"
proof -
  let ?s = "path_join dist SBOM_FILE" and ?p = "path_join dist PROVENANCE_FILE"
  have m: "manifest' = with_build env manifest"
    using assms by (simp add: generate_evidence_def Let_def)
  obtain sbom body d1 e1 where sbom: "spdx_document cd manifest' = Inr sbom" "ev_pretty cd sbom = Inr body"
    and w1: "disk_write d ?s (body @ [CHR 0x0A]) = Inr d1"
    and e1: "evidence_from_file cd d1 ?s SBOM_FILE = Inr e1"
    and rest: "(if json_get ''build'' manifest' \<noteq> None
         then and_then (provenance_statement manifest') (\<lambda>provenance.
           case ev_to_string cd provenance of
             Inl e \<Rightarrow> Inl (Parse PROVENANCE_FILE e)
           | Inr line \<Rightarrow>
               and_then (disk_write d1 ?p (line @ [CHR 0x0A])) (\<lambda>d.
               and_then (evidence_from_file cd d ?p PROVENANCE_FILE) (\<lambda>evidence. Inr (d, [e1, evidence]))))
         else and_then (disk_remove d1 ?p) (\<lambda>d. Inr (d, [e1]))) = Inr (d', evidence)"
    using assms unfolding generate_evidence_def Let_def write_json_def m
    by (auto simp: and_then_eq_Inr case_err_ok)
  from w1 e1 have r1: "disk_read d1 ?s = Inr (body @ [CHR 0x0A])"
    by (auto simp: evidence_from_file_ok dest!: disk_write_ok split: option.splits)
  show ?thesis
  proof (cases "json_get ''build'' manifest' = None")
    case True
    with rest obtain w2: "disk_remove d1 ?p = Inr d'" and ev: "evidence = [e1]"
      by (auto simp: and_then_eq_Inr)
    from disk_remove_ok [OF w2] sidecar_paths have same: "disk_read d' ?s = disk_read d1 ?s" by blast
    show ?thesis
      using m sbom same r1 ev True disk_remove_ok [OF w2] disk_write_ok [OF w1]
        verify_same_file [OF e1 same] by auto
  next
    case False
    with rest obtain st line e2 where st: "provenance_statement manifest' = Inr st"
      "ev_to_string cd st = Inr line"
      and w2: "disk_write d1 ?p (line @ [CHR 0x0A]) = Inr d'"
      and e2: "evidence_from_file cd d' ?p PROVENANCE_FILE = Inr e2" and ev: "evidence = [e1, e2]"
      by (auto simp: and_then_eq_Inr case_err_ok)
    from disk_write_ok [OF w2] sidecar_paths have same: "disk_read d' ?s = disk_read d1 ?s" by blast
    from w2 e2 have r2: "disk_read d' ?p = Inr (line @ [CHR 0x0A])"
      by (auto simp: evidence_from_file_ok dest!: disk_write_ok split: option.splits)
    show ?thesis
      using m sbom same r1 r2 st ev disk_write_ok [OF w2] disk_write_ok [OF w1]
        verify_same_file [OF e1 same] verify_same_file [OF e2 refl] by auto
  qed
qed


text \<open>
  A manifest whose build metadata is null has no source identity, but provenance is generated
  for it, and no verification accepts it.
\<close>

lemma null_build_provenance:
  assumes "json_get ''build'' manifest = Some JNull"
    and "get_str ''archive'' manifest = Some archive" and "get_str ''archive_digest'' manifest = Some digest"
  shows "normalize_source_identity manifest = Inr None
     \<and> with_build env manifest = manifest
     \<and> (\<exists>statement. provenance_statement manifest = Inr statement)
     \<and> verify_provenance cd d path manifest digest policy \<noteq> Inr publisher"
proof -
  have "required_source manifest [''build'', ''source'', ''repository''] w \<noteq> Inr s" for w s
    using assms(1) by (simp add: required_source_def pointer_str_def)
  then have "verify_provenance cd d path manifest digest policy \<noteq> Inr publisher"
    by (auto simp: verify_provenance_def and_then_eq_Inr split: option.splits if_splits)
  then show ?thesis
    using assms by (simp add: normalize_source_identity_def non_null_def with_build_def
        provenance_statement_def manifest_str_def Let_def)
qed

section \<open>Samples\<close>

text \<open>A codec that prints and reads the two documents of the sample manifest.\<close>

definition blank_codec :: evidence_codec where
  "blank_codec =
     \<lparr> ev_from_str = (\<lambda>_. Inl ''syntax''), ev_to_string = (\<lambda>_. Inl ''value''),
       ev_pretty = (\<lambda>_. Inl ''value''), ev_identity = (\<lambda>_. Inl ''identity''), ev_reader = sample_reader,
       ev_sha = (\<lambda>_. replicate 32 0xAA), ev_version = ''0.24.0'' \<rparr>"

definition sample_sbom :: json where
  "sample_sbom = (case spdx_document blank_codec sample_runtime_manifest of Inl _ \<Rightarrow> JNull | Inr v \<Rightarrow> v)"

definition sample_statement :: json where
  "sample_statement = (case provenance_statement sample_runtime_manifest of Inl _ \<Rightarrow> JNull | Inr v \<Rightarrow> v)"

definition sample_evidence_codec :: evidence_codec where
  "sample_evidence_codec = blank_codec
     \<lparr> ev_from_str := (\<lambda>s. if s = ''sbom'' @ [CHR 0x0A] then Inr sample_sbom
         else if s = ''statement'' then Inr sample_statement else Inl ''syntax''),
       ev_to_string := (\<lambda>v. if v = sample_statement then Inr ''statement'' else Inl ''value''),
       ev_pretty := (\<lambda>v. if v = sample_sbom then Inr ''sbom'' else Inl ''value'') \<rparr>"

definition empty_disk :: disk where
  "empty_disk =
     \<lparr> disk_contents = Map.empty, disk_read_error = (\<lambda>_. None), disk_missing = ''not found'',
       disk_utf8_error = (\<lambda>_. None), disk_write_error = (\<lambda>_. None) \<rparr>"

definition sample_evidence :: "json \<times> (disk \<times> evidence_digest list) res" where
  "sample_evidence =
     generate_evidence sample_evidence_codec (\<lambda>_. None) None empty_disk ''dist'' sample_runtime_manifest"

lemma sample_reader_dependency:
  "rd_dependency sample_reader v = Inr dep \<Longrightarrow> v = sample_dependency_json \<and> dep = sample_dependency"
  by (simp add: sample_reader_def split: if_splits)

lemma sample_codec_faithful: "serde_faithful sample_evidence_codec empty_disk"
proof -
  have "trim ''statement'' \<noteq> []" by code_simp
  then show ?thesis
    unfolding serde_faithful_def
    by (auto simp: sample_evidence_codec_def blank_codec_def empty_disk_def sample_dependency_json_def
        sample_dependency_def get_str_def pointer_str_def dest!: sample_reader_dependency split: if_splits)
qed

lemma sample_evidence_generated:
  "case sample_evidence of (m, Inl e) \<Rightarrow> False
   | (m, Inr (d, es)) \<Rightarrow> m = sample_runtime_manifest \<and> length es = 2"
  by code_simp


end
