(* ===== verification/TargetMutex.thy ===== *)
theory TargetMutex
  imports Leases
begin

text \<open>
  What the lease of a target promises, as an abstract mutex with a published identity, and the
  simulation by which the lease protocol of \<open>Leases\<close> implements it; then what a waiting process
  can count on: the target always can be freed for it, and a bounded wait is always left.
\<close>

section \<open>Simulations\<close>

text \<open>
  A concrete system that simulates an abstract one through an abstraction of its states, with
  steps of its own that the abstraction does not see.
\<close>

locale simulation =
  fixes cinit :: "'c \<Rightarrow> bool" and cstep :: "'c \<Rightarrow> 'c \<Rightarrow> bool"
    and ainit :: "'a \<Rightarrow> bool" and astep :: "'a \<Rightarrow> 'a \<Rightarrow> bool"
    and abs_of :: "'c \<Rightarrow> 'a" and inv :: "'c \<Rightarrow> bool"
  assumes init_inv: "cinit c \<Longrightarrow> inv c"
    and init_sim: "cinit c \<Longrightarrow> ainit (abs_of c)"
    and step_inv: "inv c \<Longrightarrow> cstep c c' \<Longrightarrow> inv c'"
    and step_sim: "inv c \<Longrightarrow> cstep c c' \<Longrightarrow> astep (abs_of c) (abs_of c') \<or> abs_of c' = abs_of c"
begin

lemma runs_inv:
  assumes "cstep\<^sup>*\<^sup>* c c'" "inv c"
  shows "inv c'"
  using assms by (induction rule: rtranclp_induct) (auto intro: step_inv)

lemma runs_sim:
  assumes "cstep\<^sup>*\<^sup>* c c'" "inv c"
  shows "astep\<^sup>*\<^sup>* (abs_of c) (abs_of c')"
  using assms
proof (induction rule: rtranclp_induct)
  case (step d d')
  then have "inv d"
    using runs_inv by blast
  with step show ?case
    using step_sim [of d d'] by (auto intro: rtranclp.rtrancl_into_rtrancl)
qed simp

text \<open>An invariant of the abstract system is one of the concrete system.\<close>

lemma transfer:
  assumes "\<And>a. ainit a \<Longrightarrow> P a" "\<And>a a'. P a \<Longrightarrow> astep a a' \<Longrightarrow> P a'"
    and "cinit c" "cstep\<^sup>*\<^sup>* c c'"
  shows "P (abs_of c')"
proof -
  have "astep\<^sup>*\<^sup>* (abs_of c) (abs_of c')"
    using runs_sim assms(3,4) init_inv by blast
  then show ?thesis
    using assms(1) [OF init_sim [OF assms(3)]]
    by (induction rule: rtranclp_induct) (auto intro: assms(2))
qed

end

section \<open>The abstract mutex\<close>

text \<open>
  Who queues, who is inside, and the identity a bystander reads.  Only the process inside changes
  the identity, and one that is inside for the first time reads what the previous one left.
\<close>

record mutex =
  waiting :: "nat set"
  inside :: "nat option"
  published :: "lease_owner option"

definition mutex_init :: "mutex \<Rightarrow> bool" where
  "mutex_init m \<longleftrightarrow> waiting m = {} \<and> inside m = None"

inductive mutex_step :: "bool \<Rightarrow> mutex \<Rightarrow> mutex \<Rightarrow> bool"
  for clean :: bool
where
  queue: "h \<notin> waiting m \<Longrightarrow> inside m \<noteq> Some h \<Longrightarrow>
    mutex_step clean m (m \<lparr> waiting := insert h (waiting m) \<rparr>)"
| give_up: "h \<in> waiting m \<Longrightarrow>
    mutex_step clean m (m \<lparr> waiting := waiting m - {h} \<rparr>)"
| enter: "h \<in> waiting m \<Longrightarrow> inside m = None \<Longrightarrow>
    mutex_step clean m (m \<lparr> waiting := waiting m - {h}, inside := Some h \<rparr>)"
| publish: "inside m = Some h \<Longrightarrow>
    mutex_step clean m (m \<lparr> published := Some owner \<rparr>)"
| withdraw: "inside m = Some h \<Longrightarrow>
    mutex_step clean m (m \<lparr> published := None \<rparr>)"
| leave: "inside m = Some h \<Longrightarrow>
    mutex_step clean m (m \<lparr> inside := None \<rparr>)"
| garble: "inside m = Some h \<Longrightarrow> \<not> clean \<Longrightarrow>
    mutex_step clean m (m \<lparr> inside := None, published := seen \<rparr>)"

definition lease_abs :: "lease_os \<Rightarrow> lease_state \<Rightarrow> mutex" where
  "lease_abs os st =
     \<lparr> waiting = {h. \<exists>mode deadline. phases st h = Acquiring mode deadline},
       inside = lock_holder st,
       published = read_owner_from os (lock_body st) \<rparr>"

fun queueing :: "phase \<Rightarrow> bool" where
  "queueing (Acquiring mode deadline) = True"
| "queueing _ = False"

lemma waiting_abs: "waiting (lease_abs os st) = {h. queueing (phases st h)}"
proof -
  have "queueing p \<longleftrightarrow> (\<exists>mode deadline. p = Acquiring mode deadline)" for p
    by (cases p) auto
  then show ?thesis
    by (simp add: lease_abs_def)
qed

lemma abs_fields [simp]:
  "inside (lease_abs os st) = lock_holder st"
  "published (lease_abs os st) = read_owner_from os (lock_body st)"
  by (simp_all add: lease_abs_def)

lemma mutex_eqI: "waiting m = waiting m' \<Longrightarrow> inside m = inside m' \<Longrightarrow> published m = published m' \<Longrightarrow> m = (m' :: mutex)"
  by (cases m, cases m') simp

lemma writing_not_queueing: "writing p \<Longrightarrow> \<not> queueing p"
  by (cases p) auto

text \<open>A process that neither queues before nor after: only the lock and the record may change.\<close>

lemma abs_unchanged:
  assumes "phases st' = (phases st)(h := p)" "\<not> queueing (phases st h)" "\<not> queueing p"
    and "lock_holder st' = lock_holder st" "lock_body st' = lock_body st"
  shows "lease_abs os st' = lease_abs os st"
  using assms by (intro mutex_eqI) (auto simp: waiting_abs)

lemma read_owner_written:
  "os_contract os \<Longrightarrow> read_owner_from os (owner_record os owner) = Some owner"
  by (simp add: os_contract_def read_owner_from_def)

lemma lease_step_sim:
  assumes os: "os_contract os" and inv: "lease_inv os st" and "lease_step os clean st st'"
  shows "mutex_step clean (lease_abs os st) (lease_abs os st') \<or> lease_abs os st' = lease_abs os st"
  using assms(3)
proof (cases rule: lease_step.cases)
  case (start h mode)
  have "lease_abs os st' = lease_abs os st \<lparr> waiting := insert h (waiting (lease_abs os st)) \<rparr>"
    using start by (intro mutex_eqI) (auto simp: waiting_abs)
  moreover have "lock_holder st \<noteq> Some h"
    using inv start by (auto simp: lease_inv_iff dest: spec [of _ h])
  ultimately show ?thesis
    using start mutex_step.queue [of h "lease_abs os st" clean] by (simp add: waiting_abs)
next
  case (lock h mode deadline)
  have "lease_abs os st' = lease_abs os st \<lparr> waiting := waiting (lease_abs os st) - {h}, inside := Some h \<rparr>"
    using lock by (intro mutex_eqI) (auto simp: waiting_abs)
  moreover have "lock_holder st = None"
    using lock os by (cases "lock_holder st") (auto simp: os_contract_def)
  ultimately show ?thesis
    using lock mutex_step.enter [of h "lease_abs os st" clean] by (simp add: waiting_abs)
next
  case (poll h mode deadline later)
  then have "lease_abs os st' = lease_abs os st"
    by (intro mutex_eqI) (auto simp: waiting_abs)
  then show ?thesis ..
next
  case (busy h mode deadline opened target)
  then have "lease_abs os st' = lease_abs os st \<lparr> waiting := waiting (lease_abs os st) - {h} \<rparr>"
    by (intro mutex_eqI) (auto simp: waiting_abs)
  then show ?thesis
    using busy mutex_step.give_up [of h "lease_abs os st" clean] by (simp add: waiting_abs)
next
  case (lock_error h mode deadline path message)
  then have "lease_abs os st' = lease_abs os st \<lparr> waiting := waiting (lease_abs os st) - {h} \<rparr>"
    by (intro mutex_eqI) (auto simp: waiting_abs)
  then show ?thesis
    using lock_error mutex_step.give_up [of h "lease_abs os st" clean] by (simp add: waiting_abs)
next
  case (own h owner invocation command target pid now)
  then have "lease_abs os st' = lease_abs os st \<lparr> published := Some owner \<rparr>"
    using os by (intro mutex_eqI) (auto simp: waiting_abs read_owner_written)
  moreover have "lock_holder st = Some h"
    using inv own by (auto intro: lease_inv_holder)
  ultimately show ?thesis
    by (auto intro!: mutex_step.publish)
next
  case (own_error h path message partial)
  then have "lease_abs os st' = lease_abs os st \<lparr> inside := None, published := read_owner_from os partial \<rparr>"
    by (intro mutex_eqI) (auto simp: waiting_abs)
  moreover have "lock_holder st = Some h"
    using inv own_error by (auto intro: lease_inv_holder)
  ultimately show ?thesis
    using own_error by (auto intro!: mutex_step.garble)
next
  case (clear h lease)
  then have "lease_abs os st' = lease_abs os st \<lparr> published := None \<rparr>"
    by (intro mutex_eqI) (auto simp: waiting_abs read_owner_from_empty)
  moreover have "lock_holder st = Some h"
    using inv clear by (auto intro: lease_inv_holder)
  ultimately show ?thesis
    by (auto intro!: mutex_step.withdraw)
next
  case (unlock h)
  then have "lease_abs os st' = lease_abs os st \<lparr> inside := None \<rparr>"
    by (intro mutex_eqI) (auto simp: waiting_abs)
  moreover have "lock_holder st = Some h"
    using inv unlock by (auto intro: lease_inv_holder)
  ultimately show ?thesis
    by (auto intro!: mutex_step.leave)
next
  case (abandon h)
  then have writer: "writing (phases st h)"
    by auto
  then have "lease_abs os st' = lease_abs os st \<lparr> inside := None \<rparr>"
    using abandon by (intro mutex_eqI) (auto simp: waiting_abs dest: writing_not_queueing)
  moreover have "lock_holder st = Some h"
    using inv writer by (auto intro: lease_inv_holder)
  ultimately show ?thesis
    by (auto intro!: mutex_step.leave)
qed (auto intro!: disjI2 abs_unchanged)

text \<open>The lease protocol on a system that keeps its contract simulates the mutex.\<close>

interpretation lease_mutex: simulation
  "\<lambda>st. os_contract os \<and> (\<exists>body. st = lease_init body)" "lease_step os clean"
  mutex_init "mutex_step clean" "lease_abs os" "\<lambda>st. os_contract os \<and> lease_inv os st"
  for os :: lease_os and clean :: bool
proof (unfold_locales, goal_cases)
  case (1 c)
  then show ?case by (auto simp: lease_inv_def lease_init_def)
next
  case (2 c)
  then show ?case by (auto simp: mutex_init_def waiting_abs lease_init_def)
next
  case (3 c c')
  then show ?case using lease_step_inv by blast
next
  case (4 c c')
  then show ?case using lease_step_sim by blast
qed

lemma lease_reachable_runs:
  "lease_reachable os clean body st \<Longrightarrow> (lease_step os clean)\<^sup>*\<^sup>* (lease_init body) st"
  by (induction rule: lease_reachable.induct) (auto intro: rtranclp.rtrancl_into_rtrancl)

text \<open>
  C7. The lease protocol refines the mutex: the state of the lock, the record and the phases of
  all processes abstracts, after any run, to a state the mutex reaches, and every further step of
  the protocol is a step of the mutex or invisible to it.  In particular the identity a bystander
  reads is changed only by the process inside.
\<close>

theorem lease_refines_mutex:
  assumes "os_contract os" and "lease_reachable os clean body st"
  shows "mutex_init (lease_abs os (lease_init body))
     \<and> (mutex_step clean)\<^sup>*\<^sup>* (lease_abs os (lease_init body)) (lease_abs os st)
     \<and> (\<forall>st'. lease_step os clean st st' \<longrightarrow>
          mutex_step clean (lease_abs os st) (lease_abs os st') \<or> lease_abs os st' = lease_abs os st)"
proof (intro conjI allI impI)
  have start: "os_contract os \<and> (\<exists>b. lease_init body = lease_init b)"
    using assms(1) by blast
  show "mutex_init (lease_abs os (lease_init body))"
    using lease_mutex.init_sim [OF start] .
  show "(mutex_step clean)\<^sup>*\<^sup>* (lease_abs os (lease_init body)) (lease_abs os st)"
    using lease_mutex.runs_sim [OF lease_reachable_runs [OF assms(2)]] lease_mutex.init_inv [OF start] .
  fix st'
  assume "lease_step os clean st st'"
  then show "mutex_step clean (lease_abs os st) (lease_abs os st') \<or> lease_abs os st' = lease_abs os st"
    using lease_step_sim [OF assms(1)] lease_reachable_inv [OF assms(2,1)] by blast
qed

theorem lease_refines_mutex_witness:
  "(mutex_step True)\<^sup>*\<^sup>* (lease_abs sample_os (lease_init [])) (lease_abs sample_os sample_held)
   \<and> inside (lease_abs sample_os sample_held) = Some 0
   \<and> published (lease_abs sample_os sample_held) = Some sample_owner"
  using lease_refines_mutex [OF sample_os_contract sample_held_reachable]
  by (simp add: sample_held_def read_owner_written [OF sample_os_contract])

section \<open>What a waiting process can count on\<close>

text \<open>
  From any state with a holder, its own remaining steps (record, clear, unlock) free the lock and
  leave everybody else where they were.
\<close>

lemma holder_leaves:
  assumes inv: "lease_inv os st" and holder: "lock_holder st = Some k"
  shows "\<exists>st'. (lease_step os clean)\<^sup>*\<^sup>* st st' \<and> lock_holder st' = None
     \<and> phases st' = (phases st)(k := Idle) \<and> lease_clock st' = lease_clock st"
proof -
  have unlocked: ?thesis if "(lease_step os clean)\<^sup>*\<^sup>* st mid" "phases mid = (phases st)(k := Releasing)"
      "lease_clock mid = lease_clock st" for mid
  proof -
    have "lease_step os clean mid (go k Idle (mid \<lparr> lock_holder := None \<rparr>))"
      using that(2) by (intro unlock) simp
    then have "(lease_step os clean)\<^sup>*\<^sup>* st (go k Idle (mid \<lparr> lock_holder := None \<rparr>))"
      using that(1) by (rule rtranclp.rtrancl_into_rtrancl [rotated])
    then show ?thesis
      using that(2,3) by (intro exI [of _ "go k Idle (mid \<lparr> lock_holder := None \<rparr>)"]) simp
  qed
  have cleared: ?thesis if "(lease_step os clean)\<^sup>*\<^sup>* st mid" "phases mid = (phases st)(k := Leased lease)"
      "\<not> lease_read_only lease" "lease_clock mid = lease_clock st" for mid lease
  proof (rule unlocked)
    have "lease_step os clean mid (go k Releasing (mid \<lparr> lock_body := [] \<rparr>))"
      using that(2,3) by (intro clear) simp_all
    then show "(lease_step os clean)\<^sup>*\<^sup>* st (go k Releasing (mid \<lparr> lock_body := [] \<rparr>))"
      using that(1) by (rule rtranclp.rtrancl_into_rtrancl [rotated])
  qed (simp_all add: that)
  have "writing (phases st k)"
    using inv holder by (simp add: lease_inv_iff)
  then consider "phases st k = Releasing"
    | lease where "phases st k = Leased lease" "\<not> lease_read_only lease"
    | "phases st k = Locked"
    by (cases "phases st k") auto
  then show ?thesis
  proof cases
    case 1
    then show ?thesis by (intro unlocked [of st]) (auto simp: fun_eq_iff)
  next
    case (2 lease)
    then show ?thesis by (intro cleared [of st lease]) (auto simp: fun_eq_iff)
  next
    case 3
    let ?owner = "lease_owner_new os [] [] [] 0 0"
    let ?mid = "go k (Leased (fresh_lease os (lock_body st) ?owner)) (st \<lparr> lock_body := owner_record os ?owner \<rparr>)"
    have "(lease_step os clean)\<^sup>*\<^sup>* st ?mid"
      using 3 by (intro r_into_rtranclp own) simp_all
    then show ?thesis
      by (rule cleared [where lease = "fresh_lease os (lock_body st) ?owner"]) simp_all
  qed
qed

text \<open>
  C36. No reachable state is a deadlock for a waiting process: whatever the others have done, the
  current holder alone, by the clean release the code performs, frees the lock, after which the
  waiting process is granted it.
\<close>

theorem waiter_can_enter:
  assumes "os_contract os" and "os_flock os None"
    and "lease_reachable os clean body st" and "phases st h = Acquiring mode deadline"
  shows "\<exists>st'. (lease_step os clean)\<^sup>*\<^sup>* st st' \<and> phases st' h = Locked \<and> lock_holder st' = Some h
     \<and> (\<forall>k. k \<noteq> h \<and> lock_holder st \<noteq> Some k \<longrightarrow> phases st' k = phases st k)"
proof -
  have inv: "lease_inv os st"
    using assms(1,3) lease_reachable_inv by blast
  have "lock_holder st \<noteq> Some h"
    using inv assms(4) by (auto simp: lease_inv_iff dest: spec [of _ h])
  moreover obtain mid where mid: "(lease_step os clean)\<^sup>*\<^sup>* st mid" "lock_holder mid = None"
    "\<And>k. lock_holder st \<noteq> Some k \<Longrightarrow> phases mid k = phases st k"
  proof (cases "lock_holder st")
    case None
    then show ?thesis using that [of st] by simp
  next
    case (Some k)
    then show ?thesis using holder_leaves [OF inv Some, of clean] that by auto
  qed
  ultimately have "lease_step os clean mid (go h Locked (mid \<lparr> lock_holder := Some h \<rparr>))"
    using assms(2,4) by (intro lock [of _ _ mode deadline]) auto
  then have "(lease_step os clean)\<^sup>*\<^sup>* st (go h Locked (mid \<lparr> lock_holder := Some h \<rparr>))"
    using mid(1) by (rule rtranclp.rtrancl_into_rtrancl [rotated])
  then show ?thesis
    using mid(3) by (intro exI [of _ "go h Locked (mid \<lparr> lock_holder := Some h \<rparr>)"]) auto
qed

text \<open>A step is an attempt of \<open>h\<close> when it moves \<open>h\<close> on, or is the pause after a busy attempt of it.\<close>

definition attempt_of :: "nat \<Rightarrow> lease_state \<Rightarrow> lease_state \<Rightarrow> bool" where
  "attempt_of h st st' \<longleftrightarrow> phases st' h \<noteq> phases st h
     \<or> (\<exists>mode deadline. phases st h = Acquiring mode deadline
          \<and> still_waiting deadline (lease_clock st) \<and> lease_clock st + POLL_INTERVAL \<le> lease_clock st')"

lemma lease_clock_mono: "lease_step os clean st st' \<Longrightarrow> lease_clock st \<le> lease_clock st'"
  by (cases rule: lease_step.cases) auto

lemma acquiring_left:
  assumes "lease_step os clean st st'" "phases st h = Acquiring mode deadline" "phases st' h \<noteq> phases st h"
  shows "phases st' h = Locked \<or> (\<exists>e. phases st' h = Refused e)"
  using assms by (cases rule: lease_step.cases) (auto split: if_splits)

text \<open>
  A bounded wait is left: in every infinite run in which a process that acquires with a
  bounded wait keeps making attempts, it eventually has the lock or is refused, whatever the
  other processes do.
\<close>

lemma bounded_wait_is_left:
  assumes run: "\<And>n. lease_step os clean (run n) (run (Suc n))"
    and fair: "\<And>n. \<exists>m \<ge> n. attempt_of h (run m) (run (Suc m))"
    and start: "phases (run n) h = Acquiring mode deadline"
    and bounded: "deadline = None \<or> deadline = Some (Some instant)"
  shows "\<exists>m > n. phases (run m) h = Locked \<or> (\<exists>e. phases (run m) h = Refused e)"
proof (rule ccontr)
  assume never: "\<not> ?thesis"
  have stays: "phases (run (n + k)) h = Acquiring mode deadline" for k
  proof (induction k)
    case (Suc k)
    have "n < Suc (n + k)" by simp
    with never have "\<not> (phases (run (Suc (n + k))) h = Locked \<or> (\<exists>e. phases (run (Suc (n + k))) h = Refused e))"
      by blast
    with acquiring_left [OF run [of "n + k"] Suc.IH] Suc.IH show ?case by auto
  qed (simp add: start)
  have mono: "lease_clock (run i) \<le> lease_clock (run j)" if "i \<le> j" for i j
    using that by (induction rule: dec_induct) (auto intro: order.trans lease_clock_mono [OF run])
  have "\<exists>m \<ge> n. j * POLL_INTERVAL \<le> lease_clock (run m)" for j
  proof (induction j)
    case (Suc j)
    then obtain m where m: "m \<ge> n" "j * POLL_INTERVAL \<le> lease_clock (run m)" by blast
    obtain m' where m': "m' \<ge> m" "attempt_of h (run m') (run (Suc m'))"
      using fair by blast
    have "phases (run m') h = phases (run (Suc m')) h"
      using stays [of "m' - n"] stays [of "Suc m' - n"] m m' by simp
    then have "lease_clock (run m') + POLL_INTERVAL \<le> lease_clock (run (Suc m'))"
      using m'(2) by (auto simp: attempt_of_def)
    then show ?case
      using m mono [OF m'(1)] m'(1) by (intro exI [of _ "Suc m'"]) auto
  qed (auto intro: exI [of _ n])
  then obtain m where m: "m \<ge> n" "instant * POLL_INTERVAL \<le> lease_clock (run m)" by blast
  obtain m' where m': "m' \<ge> m" "attempt_of h (run m') (run (Suc m'))"
    using fair by blast
  have "phases (run m') h = Acquiring mode deadline" "phases (run (Suc m')) h = Acquiring mode deadline"
    using stays [of "m' - n"] stays [of "Suc m' - n"] m m' by simp_all
  then have "still_waiting deadline (lease_clock (run m'))"
    using m'(2) by (auto simp: attempt_of_def)
  then have "lease_clock (run m') < instant"
    using bounded by (auto simp: still_waiting_def)
  moreover have "instant \<le> instant * POLL_INTERVAL"
    by (simp add: POLL_INTERVAL_def)
  ultimately show False
    using m(2) mono [OF m'(1)] by linarith
qed

section \<open>Runs of the sample system\<close>

text \<open>A process that acquires the free target with a wait of a second and releases it, for ever.\<close>

definition cycle_state :: "nat \<Rightarrow> lease_state" where
  "cycle_state k =
     (if k = 0 then lease_init []
      else if k = 1 then go 0 (Acquiring (Wait (from_secs 1)) (Some (Some (from_secs 1)))) (lease_init [])
      else if k = 2 then go 0 Locked (lease_init [] \<lparr> lock_holder := Some 0 \<rparr>)
      else if k = 3 then sample_held
      else go 0 Releasing (sample_held \<lparr> lock_body := [] \<rparr>))"

definition cycle_run :: "nat \<Rightarrow> lease_state" where
  "cycle_run n = cycle_state (n mod 5)"

lemma cycle_steps:
  "lease_step sample_os True (cycle_state 0) (cycle_state 1)"
  "lease_step sample_os True (cycle_state 1) (cycle_state 2)"
  "lease_step sample_os True (cycle_state 2) (cycle_state 3)"
  "lease_step sample_os True (cycle_state 3) (cycle_state 4)"
  "lease_step sample_os True (cycle_state 4) (cycle_state 0)"
proof -
  have "cycle_state 1 = go 0 (Acquiring (Wait (from_secs 1)) (lease_deadline sample_os (Wait (from_secs 1))
      (lease_clock (cycle_state 0)))) (cycle_state 0)"
    by (simp add: cycle_state_def lease_deadline_def sample_os_def lease_init_def)
  moreover have "phases (cycle_state 0) 0 = Idle"
    by (simp add: cycle_state_def lease_init_def)
  ultimately show "lease_step sample_os True (cycle_state 0) (cycle_state 1)"
    by (metis start lease_mode.distinct(5))
  have "cycle_state 2 = go 0 Locked (cycle_state 1 \<lparr> lock_holder := Some 0 \<rparr>)"
    by (simp add: cycle_state_def go_def lease_init_def)
  moreover have "phases (cycle_state 1) 0 = Acquiring (Wait (from_secs 1)) (Some (Some (from_secs 1)))"
    "os_flock sample_os (lock_holder (cycle_state 1))"
    by (simp_all add: cycle_state_def sample_os_def lease_init_def)
  ultimately show "lease_step sample_os True (cycle_state 1) (cycle_state 2)"
    by (metis lock)
  have "cycle_state 3 = go 0 (Leased (fresh_lease sample_os (lock_body (cycle_state 2)) sample_owner))
      (cycle_state 2 \<lparr> lock_body := owner_record sample_os sample_owner \<rparr>)"
    by (simp add: cycle_state_def sample_held_def go_def lease_init_def fresh_lease_def sample_lease_def
        read_owner_from_empty)
  moreover have "phases (cycle_state 2) 0 = Locked"
    by (simp add: cycle_state_def)
  ultimately show "lease_step sample_os True (cycle_state 2) (cycle_state 3)"
    using own [of "cycle_state 2" 0 sample_owner sample_os _ _ _ _ _ True] by (metis sample_owner_def)
  have "cycle_state 4 = go 0 Releasing (cycle_state 3 \<lparr> lock_body := [] \<rparr>)"
    by (simp add: cycle_state_def)
  moreover have "phases (cycle_state 3) 0 = Leased sample_lease" "\<not> lease_read_only sample_lease"
    by (simp_all add: cycle_state_def sample_held_def sample_lease_def)
  ultimately show "lease_step sample_os True (cycle_state 3) (cycle_state 4)"
    by (metis clear)
  have "cycle_state 0 = go 0 Idle (cycle_state 4 \<lparr> lock_holder := None \<rparr>)"
    by (simp add: cycle_state_def go_def lease_init_def sample_held_def fun_eq_iff)
  moreover have "phases (cycle_state 4) 0 = Releasing"
    by (simp add: cycle_state_def)
  ultimately show "lease_step sample_os True (cycle_state 4) (cycle_state 0)"
    by (metis unlock)
qed

lemma cycle_run_step: "lease_step sample_os True (cycle_run n) (cycle_run (Suc n))"
proof -
  have "n mod 5 = 0 \<or> n mod 5 = 1 \<or> n mod 5 = 2 \<or> n mod 5 = 3 \<or> n mod 5 = 4"
    by linarith
  then show ?thesis
    using cycle_steps by (auto simp: cycle_run_def mod_Suc numeral_2_eq_2 [symmetric])
qed

lemma cycle_run_attempts: "\<exists>m \<ge> n. attempt_of 0 (cycle_run m) (cycle_run (Suc m))"
  by (intro exI [of _ "5 * n"])
    (simp add: cycle_run_def attempt_of_def mod_Suc cycle_state_def lease_init_def)

theorem waiter_can_enter_witness:
  "phases (cycle_state 1) 0 = Acquiring (Wait (from_secs 1)) (Some (Some (from_secs 1)))
   \<and> (\<exists>st. (lease_step sample_os True)\<^sup>*\<^sup>* (cycle_state 1) st \<and> lock_holder st = Some 0)"
proof -
  have "lease_reachable sample_os True [] (cycle_state 1)"
    using cycle_steps(1) by (intro next_step [OF initial]) (simp add: cycle_state_def)
  moreover have "phases (cycle_state 1) 0 = Acquiring (Wait (from_secs 1)) (Some (Some (from_secs 1)))"
    by (simp add: cycle_state_def)
  moreover have "os_flock sample_os None"
    by (simp add: sample_os_def)
  ultimately show ?thesis
    using waiter_can_enter [OF sample_os_contract, of True "[]" "cycle_state 1" 0] by blast
qed

lemma bounded_wait_is_left_witness:
  "phases (cycle_run 1) 0 = Acquiring (Wait (from_secs 1)) (Some (Some (from_secs 1)))
   \<and> (\<exists>m > 1. phases (cycle_run m) 0 = Locked \<or> (\<exists>e. phases (cycle_run m) 0 = Refused e))"
proof -
  have start: "phases (cycle_run 1) 0 = Acquiring (Wait (from_secs 1)) (Some (Some (from_secs 1)))"
    by (simp add: cycle_run_def cycle_state_def)
  then show ?thesis
    using bounded_wait_is_left [of sample_os True cycle_run 0 1 "Wait (from_secs 1)" _ "from_secs 1",
      OF cycle_run_step cycle_run_attempts start] by simp
qed

end
