(* ===== verification/OpenusdRequirement.thy ===== *)
theory OpenusdRequirement
  imports Evidence
begin

text \<open>
  The consumer cell an artifact must satisfy (\<^verbatim>\<open>verify_openusd_requirement\<close>,
  ost-artifact/src/transport/verify.rs): the platform, the compiler and runtime, the providers of
  Python and TBB, the macOS SDK, the variant and the graphics capabilities, each with its own
  error.  The serialisers of the pieces that go into the error's data are arguments.
\<close>

section \<open>Model\<close>

record requirement_codec =
  rq_selector :: selector_codec
  rq_compat :: "compatibility \<Rightarrow> json"
  rq_toolchain :: "resolved_toolchain \<Rightarrow> json"
  rq_provider :: "resolved_usd_provider \<Rightarrow> json"
  rq_os :: "os \<Rightarrow> json"
  rq_arch :: "arch \<Rightarrow> json"
  rq_variant :: "variant_id \<Rightarrow> json"

definition json_option :: "('a \<Rightarrow> json) \<Rightarrow> 'a option \<Rightarrow> json" where
  "json_option f x = (case x of None \<Rightarrow> JNull | Some v \<Rightarrow> f v)"

definition version_matches :: "string option \<Rightarrow> string option \<Rightarrow> string \<Rightarrow> bool" where
  "version_matches selected exact constraint =
     (case selected of
        None \<Rightarrow> False
      | Some s \<Rightarrow> (case exact of Some e \<Rightarrow> s = e | None \<Rightarrow> version_satisfies_constraint s constraint))"

definition provider_matches :: "resolved_usd_provider \<Rightarrow> resolved_usd_provider \<Rightarrow> bool" where
  "provider_matches selected required \<longleftrightarrow>
     rp_family selected = rp_family required \<and> rp_provider selected = rp_provider required
     \<and> version_matches (rp_version selected) (rp_version required) (rp_constraint required)"

definition macos_matches :: "resolved_macos option \<Rightarrow> resolved_macos option \<Rightarrow> bool" where
  "macos_matches selected required =
     (case (selected, required) of
        (None, None) \<Rightarrow> True
      | (Some s, Some r) \<Rightarrow>
          provider_matches (rm_sdk s) (rm_sdk r) \<and> rm_deployment_target s = rm_deployment_target r
      | _ \<Rightarrow> False)"

text \<open>\<^verbatim>\<open>unwrap_or\<close>\<close>

definition version_or :: "string \<Rightarrow> string option \<Rightarrow> string" where
  "version_or fallback v = (case v of None \<Rightarrow> fallback | Some s \<Rightarrow> s)"

definition openusd_mismatch ::
  "requirement_codec \<Rightarrow> string \<Rightarrow> string \<Rightarrow> artifact_record \<Rightarrow> compatibility \<Rightarrow> string option
     \<Rightarrow> string \<Rightarrow> string \<Rightarrow> error"
where
  "openusd_mismatch cd code dimension r required required_version detail hint =
     with_data (json_object
        [(''dimension'', JString dimension),
         (''selected_artifact'', json_object
           [(''digest'', JString (record_digest r)), (''name'', JString (record_name r)),
            (''version'', JString (record_version r)),
            (''selector'', json_option JString (record_selector (rq_selector cd) r)),
            (''openusd'', json_option (rq_compat cd) (record_openusd r))]),
         (''requirement'', json_object
           [(''platform'', JString (compat_platform required)),
            (''openusd_version'', json_option JString required_version),
            (''os'', rq_os cd (compat_os required)), (''arch'', rq_arch cd (compat_arch required)),
            (''variant'', rq_variant cd (compat_variant required)),
            (''toolchain'', rq_toolchain cd (compat_toolchain required)),
            (''python'', rq_provider cd (compat_python required)),
            (''tbb'', rq_provider cd (compat_tbb required)),
            (''capabilities'', JArray (map JString (compat_capabilities required)))])])
       (with_hint hint (coded code Validation
         (''selected artifact '' @ short_digest r @ '' ('' @ record_name r @ '' '' @ record_version r @ '') '' @ detail)))"

definition verify_provider_dimension ::
  "requirement_codec \<Rightarrow> string \<Rightarrow> string \<Rightarrow> artifact_record \<Rightarrow> compatibility \<Rightarrow> string option
     \<Rightarrow> resolved_usd_provider \<Rightarrow> resolved_usd_provider \<Rightarrow> unit res"
where
  "verify_provider_dimension cd dimension code r cell required_version selected required =
     (if provider_matches selected required then Inr ()
      else Inl (openusd_mismatch cd code dimension r cell required_version
        (''uses '' @ dimension @ '' '' @ rp_family selected @ ''@'' @ rp_provider selected @ '' '' @
         version_or ''unresolved'' (rp_version selected) @ '', but the consumer requires '' @
         rp_family required @ ''@'' @ rp_provider required @ '' '' @
         version_or (rp_constraint required) (rp_version required))
        (''resolve an artifact whose '' @ dimension @
         '' provider and exact version satisfy the required cell'')))"

definition same_platform :: "compatibility \<Rightarrow> compatibility \<Rightarrow> bool" where
  "same_platform selected required \<longleftrightarrow>
     compat_schema selected = compat_schema required \<and> compat_platform selected = compat_platform required
     \<and> compat_os selected = compat_os required \<and> compat_arch selected = compat_arch required"

definition compiler_ok :: "resolved_toolchain \<Rightarrow> resolved_toolchain \<Rightarrow> bool" where
  "compiler_ok selected required \<longleftrightarrow>
     rt_family selected = rt_family required \<and> rt_provider selected = rt_provider required
     \<and> rt_cxx_standard selected = rt_cxx_standard required
     \<and> version_matches (rt_version selected) (rt_version required) (rt_constraint required)"

definition platform_detail :: "compatibility \<Rightarrow> string" where
  "platform_detail c =
     compat_platform c @ '' '' @ os_as_str (compat_os c) @ ''/'' @ arch_as_str (compat_arch c) @
     '' (schema '' @ to_decimal (compat_schema c) @ '')''"

definition toolchain_detail :: "string \<Rightarrow> string \<Rightarrow> resolved_toolchain \<Rightarrow> string" where
  "toolchain_detail compiler runtime t =
     ''compiler '' @ rt_family t @ ''@'' @ rt_provider t @ '' '' @ compiler @
     '' (C++ '' @ rt_cxx_standard t @ '') and native runtime '' @ rp_family (rt_runtime t) @ ''@'' @
     rp_provider (rt_runtime t) @ '' '' @ runtime"

definition describe_macos :: "resolved_macos option \<Rightarrow> string" where
  "describe_macos m =
     (case m of
        None \<Rightarrow> ''none''
      | Some m \<Rightarrow>
          rp_family (rm_sdk m) @ ''@'' @ rp_provider (rm_sdk m) @ '' '' @
          version_or (rp_constraint (rm_sdk m)) (rp_version (rm_sdk m)) @
          '' with deployment target '' @ rm_deployment_target m)"

definition missing_capabilities :: "compatibility \<Rightarrow> compatibility \<Rightarrow> string list" where
  "missing_capabilities selected required =
     filter (\<lambda>c. \<not> list_ex (\<lambda>have. have = c) (compat_capabilities selected)) (compat_capabilities required)"

definition require_that :: "bool \<Rightarrow> error \<Rightarrow> unit res" where
  "require_that ok e = (if ok then Inr () else Inl e)"

definition check_selected ::
  "requirement_codec \<Rightarrow> artifact_record \<Rightarrow> compatibility \<Rightarrow> compatibility \<Rightarrow> string option \<Rightarrow> unit res"
where
  "check_selected cd r selected required required_version =
     (let mismatch = (\<lambda>code dimension. openusd_mismatch cd code dimension r required required_version);
          t = compat_toolchain selected; rt = compat_toolchain required;
          missing = missing_capabilities selected required in
      and_then (require_that (case required_version of None \<Rightarrow> True | Some v \<Rightarrow> record_version r = v)
        (mismatch ''ARTIFACT_OPENUSD_VERSION_MISMATCH'' ''openusd-version''
          (''provides OpenUSD '' @ record_version r @ '', but the consumer requires '' @
           version_or [] required_version)
          ''resolve an artifact published for the required OpenUSD release'')) (\<lambda>_.
      and_then (require_that (same_platform selected required)
        (mismatch ''ARTIFACT_OPENUSD_PLATFORM_MISMATCH'' ''platform''
          (''declares '' @ platform_detail selected @ '', not required '' @ platform_detail required)
          ''resolve an artifact tag for the required platform and architecture'')) (\<lambda>_.
      and_then (require_that (compiler_ok t rt \<and> provider_matches (rt_runtime t) (rt_runtime rt))
        (mismatch ''ARTIFACT_OPENUSD_TOOLCHAIN_MISMATCH'' ''toolchain''
          (''uses '' @ toolchain_detail (version_or ''unresolved'' (rt_version t))
             (version_or ''unresolved'' (rp_version (rt_runtime t))) t @
           '', but the consumer requires '' @
           toolchain_detail (version_or (rt_constraint rt) (rt_version rt))
             (version_or (rp_constraint (rt_runtime rt)) (rp_version (rt_runtime rt))) rt)
          ''resolve an artifact built with the required compiler and native runtime providers'')) (\<lambda>_.
      and_then (verify_provider_dimension cd ''python'' ''ARTIFACT_OPENUSD_PYTHON_MISMATCH'' r required
        required_version (compat_python selected) (compat_python required)) (\<lambda>_.
      and_then (verify_provider_dimension cd ''tbb'' ''ARTIFACT_OPENUSD_TBB_MISMATCH'' r required
        required_version (compat_tbb selected) (compat_tbb required)) (\<lambda>_.
      and_then (require_that (macos_matches (compat_macos selected) (compat_macos required))
        (mismatch ''ARTIFACT_OPENUSD_MACOS_MISMATCH'' ''macos''
          (''uses macOS '' @ describe_macos (compat_macos selected) @
           '', but the consumer requires '' @ describe_macos (compat_macos required))
          ''resolve an artifact built with the required macOS SDK and deployment target'')) (\<lambda>_.
      require_that (compat_variant selected = compat_variant required \<and> missing = [])
        (mismatch ''ARTIFACT_OPENUSD_GRAPHICS_MISMATCH'' ''graphics''
          (''provides variant '' @ quoted (variant_as_str (compat_variant selected)) @
           '' with capabilities ['' @ join '', '' (compat_capabilities selected) @ ''], but variant '' @
           quoted (variant_as_str (compat_variant required)) @ '' with capabilities ['' @
           join '', '' (compat_capabilities required) @ ''] is required (missing: '' @
           (if missing = [] then ''none'' else join '', '' missing) @ '')'')
          (''resolve the compatibility tag for the required OpenUSD variant and graphics '' @
           ''capabilities'')))))))))"

definition verify_openusd_requirement ::
  "requirement_codec \<Rightarrow> artifact_record \<Rightarrow> compatibility \<Rightarrow> string option \<Rightarrow> unit res"
where
  "verify_openusd_requirement cd r required required_version =
     (case record_openusd r of
        None \<Rightarrow> Inl (openusd_mismatch cd ''ARTIFACT_OPENUSD_IDENTITY_MISSING'' ''identity'' r required
          required_version
          ''has no verified normalized OpenUSD compatibility identity''
          ''select a normalized OpenUSD runtime artifact published for the required cell'')
      | Some selected \<Rightarrow> check_selected cd r selected required required_version)"

section \<open>What a cell requires\<close>

text \<open>A provider is one the cell admits: its version exactly, or its constraint.\<close>

definition provider_admits :: "resolved_usd_provider \<Rightarrow> resolved_usd_provider \<Rightarrow> bool" where
  "provider_admits required p \<longleftrightarrow>
     rp_family p = rp_family required \<and> rp_provider p = rp_provider required
     \<and> (\<exists>v. rp_version p = Some v \<and> (case rp_version required of
          Some exact \<Rightarrow> v = exact | None \<Rightarrow> version_satisfies_constraint v (rp_constraint required)))"

definition cell_admits :: "compatibility \<Rightarrow> compatibility \<Rightarrow> bool" where
  "cell_admits required c \<longleftrightarrow>
     same_platform c required
     \<and> provider_admits (toolchain_provider (compat_toolchain required)) (toolchain_provider (compat_toolchain c))
     \<and> rt_cxx_standard (compat_toolchain c) = rt_cxx_standard (compat_toolchain required)
     \<and> provider_admits (rt_runtime (compat_toolchain required)) (rt_runtime (compat_toolchain c))
     \<and> provider_admits (compat_python required) (compat_python c)
     \<and> provider_admits (compat_tbb required) (compat_tbb c)
     \<and> rel_option (\<lambda>m n. provider_admits (rm_sdk m) (rm_sdk n)
          \<and> rm_deployment_target n = rm_deployment_target m) (compat_macos required) (compat_macos c)
     \<and> compat_variant c = compat_variant required
     \<and> set (compat_capabilities required) \<subseteq> set (compat_capabilities c)"

lemma provider_matches_admits: "provider_matches p required = provider_admits required p"
  by (auto simp: provider_matches_def provider_admits_def version_matches_def split: option.splits)

lemma compiler_ok_admits:
  "compiler_ok t required \<longleftrightarrow> provider_admits (toolchain_provider required) (toolchain_provider t)
     \<and> rt_cxx_standard t = rt_cxx_standard required"
  by (auto simp: compiler_ok_def provider_admits_def toolchain_provider_def version_matches_def split: option.splits)

lemma macos_matches_admits:
  "macos_matches c required \<longleftrightarrow>
     rel_option (\<lambda>m n. provider_admits (rm_sdk m) (rm_sdk n) \<and> rm_deployment_target n = rm_deployment_target m) required c"
  by (auto simp: macos_matches_def provider_matches_admits rel_option_iff split: option.splits)

lemma missing_capabilities_none:
  "missing_capabilities selected required = [] \<longleftrightarrow> set (compat_capabilities required) \<subseteq> set (compat_capabilities selected)"
  by (auto simp: missing_capabilities_def filter_empty_conv list_ex_iff)

lemma require_that_ok [res_simps]: "require_that ok e = Inr () \<longleftrightarrow> ok" "require_that ok e = Inl e' \<longleftrightarrow> \<not> ok \<and> e' = e"
  by (auto simp: require_that_def)

lemma check_selected_ok:
  "check_selected cd r selected required version = Inr () \<longleftrightarrow>
     (\<forall>v. version = Some v \<longrightarrow> record_version r = v) \<and> cell_admits required selected"
  by (auto simp: check_selected_def Let_def res_simps cell_admits_def compiler_ok_admits
      provider_matches_admits macos_matches_admits missing_capabilities_none verify_provider_dimension_def
      split: option.split)

definition mismatch_error :: "artifact_record \<Rightarrow> error \<Rightarrow> bool" where
  "mismatch_error r e \<longleftrightarrow> error_category e = Validation
     \<and> (\<exists>data. error_data e = Some data
          \<and> pointer_str [''selected_artifact'', ''digest''] data = Some (record_digest r))"

lemma mismatch_is_error: "mismatch_error r (openusd_mismatch cd code dimension r required version detail hint)"
  by (simp add: mismatch_error_def openusd_mismatch_def coded_def json_object_def pointer_str_def)

lemma check_selected_error:
  "check_selected cd r selected required version = Inl e \<Longrightarrow> mismatch_error r e"
  by (auto simp: check_selected_def Let_def res_simps verify_provider_dimension_def mismatch_is_error
      split: if_splits)

text \<open>
  C16. An artifact passes the requirement of a consumer exactly when it has a normalised OpenUSD
  identity that the consumer's cell admits (platform, compiler, C++ standard, native runtime,
  Python, TBB and macOS SDK with the exact version or within the constraint, the variant, and all
  required capabilities) and, where a release is required, is of that release; every refusal is a
  validation error whose data names the artifact.
\<close>

theorem openusd_requirement_exact:
  "(verify_openusd_requirement cd r required version = Inr () \<longleftrightarrow>
      (\<exists>c. record_openusd r = Some c \<and> cell_admits required c)
      \<and> (\<forall>v. version = Some v \<longrightarrow> record_version r = v))
   \<and> (\<forall>e. verify_openusd_requirement cd r required version = Inl e \<longrightarrow> mismatch_error r e)"
  by (auto simp: verify_openusd_requirement_def check_selected_ok mismatch_is_error
      dest: check_selected_error split: option.splits)

section \<open>The own cell\<close>

text \<open>The cell of an identity: its constraints, without the exact versions of the build.\<close>

definition unpinned :: "resolved_usd_provider \<Rightarrow> resolved_usd_provider" where
  "unpinned p = p\<lparr>rp_version := None\<rparr>"

definition cell_of :: "compatibility \<Rightarrow> compatibility" where
  "cell_of c = c
     \<lparr> compat_toolchain := (compat_toolchain c)
         \<lparr> rt_version := None, rt_runtime := unpinned (rt_runtime (compat_toolchain c)) \<rparr>,
       compat_python := unpinned (compat_python c), compat_tbb := unpinned (compat_tbb c),
       compat_macos := map_option (\<lambda>m. m\<lparr>rm_sdk := unpinned (rm_sdk m)\<rparr>) (compat_macos c) \<rparr>"

lemma verified_admits: "provider_is_verified p \<Longrightarrow> provider_admits (unpinned p) p"
  by (auto simp: provider_is_verified_def provider_admits_def unpinned_def observed_satisfies_def split: option.splits)

lemma verified_admits_self: "provider_is_verified p \<Longrightarrow> provider_admits p p"
  by (auto simp: provider_is_verified_def provider_admits_def observed_satisfies_def split: option.splits)

text \<open>
  A verified identity is admitted by its own cell, pinned to its exact versions or not:
  what a producer verified never fails the consumer it was built for.
\<close>

lemma own_cell_admits:
  assumes "record_openusd r = Some c" and "compat_verified c"
  shows "verify_openusd_requirement cd r (cell_of c) None = Inr ()
     \<and> verify_openusd_requirement cd r c (Some (record_version r)) = Inr ()"
proof -
  let ?t = "compat_toolchain c"
  have verified: "provider_is_verified (rt_runtime ?t)" "provider_is_verified (compat_python c)"
    "provider_is_verified (compat_tbb c)" "observed_satisfies (rt_version ?t) (rt_constraint ?t)"
    and macos: "\<And>m. compat_macos c = Some m \<Longrightarrow> provider_is_verified (rm_sdk m)"
    using assms(2) by (auto simp: compat_verified_def providers_are_verified_def Let_def split: option.splits)
  have compiler: "provider_admits (toolchain_provider ?t) (toolchain_provider ?t)"
    "provider_admits (unpinned (toolchain_provider ?t)) (toolchain_provider ?t)"
    using verified(4)
    by (auto simp: provider_admits_def toolchain_provider_def unpinned_def observed_satisfies_def split: option.splits)
  have "cell_admits (cell_of c) c" "cell_admits c c"
    using verified macos compiler verified_admits verified_admits_self
    by (auto simp: cell_admits_def cell_of_def same_platform_def option.rel_map
        toolchain_provider_def unpinned_def split: option.split intro!: option.rel_refl_strong)
  then show ?thesis
    using assms(1) by (simp add: verify_openusd_requirement_def check_selected_ok)
qed

definition sample_requirement_codec :: requirement_codec where
  "sample_requirement_codec =
     \<lparr> rq_selector = sample_codec, rq_compat = (\<lambda>_. JNull), rq_toolchain = (\<lambda>_. JNull),
       rq_provider = (\<lambda>_. JNull), rq_os = (\<lambda>o'. JString (os_as_str o')), rq_arch = (\<lambda>a. JString (arch_as_str a)),
       rq_variant = (\<lambda>v. JString (variant_as_str v)) \<rparr>"

lemma sample_runtime_identity: "record_openusd sample_runtime_record = Some sample_compatibility"
  by (simp add: sample_runtime_record_def)

lemma sample_identity_verified: "compat_verified sample_compatibility"
  by code_simp

lemma own_cell_admits_witness:
  "verify_openusd_requirement sample_requirement_codec sample_runtime_record (cell_of sample_compatibility) None = Inr ()
   \<and> rp_version (compat_python (cell_of sample_compatibility)) = None"
  using own_cell_admits [OF sample_runtime_identity sample_identity_verified, of sample_requirement_codec]
  by (simp add: cell_of_def unpinned_def)

theorem openusd_requirement_exact_witness:
  "\<exists>e. verify_openusd_requirement sample_requirement_codec sample_runtime_record (cell_of sample_compatibility)
       (Some ''24.11'') = Inl e
     \<and> mismatch_error sample_runtime_record e"
proof -
  have "record_version sample_runtime_record \<noteq> ''24.11''" by code_simp
  then show ?thesis
    using openusd_requirement_exact [of sample_requirement_codec sample_runtime_record
        "cell_of sample_compatibility" "Some ''24.11''"]
    by (cases "verify_openusd_requirement sample_requirement_codec sample_runtime_record
          (cell_of sample_compatibility) (Some ''24.11'')") auto
qed

end
