(* ===== verification/PullChain.thy ===== *)
theory PullChain
  imports OpenusdRequirement
begin

text \<open>
  The verification chain of a pull (\<^verbatim>\<open>verify_dist\<close>, ost-artifact/src/transport/verify.rs):
  the steps between a fetched distribution directory and its import.  The state is the file
  system of \<open>FileSystem\<close>, which the chain only reads; the decoder of archives is an argument.
\<close>

section \<open>Distributions\<close>

record pull_codec =
  pc_evidence :: evidence_codec
  pc_requirement :: requirement_codec
  pc_tar :: "string \<Rightarrow> tar_archive"

definition pc_sha :: "pull_codec \<Rightarrow> byte list \<Rightarrow> byte list" where
  "pc_sha cd = ev_sha (pc_evidence cd)"

text \<open>\<^verbatim>\<open>map_err\<close>\<close>

definition map_err :: "('e \<Rightarrow> 'f) \<Rightarrow> 'e + 'a \<Rightarrow> 'f + 'a" where
  "map_err f r = (case r of Inl e \<Rightarrow> Inl (f e) | Inr x \<Rightarrow> Inr x)"

definition locate_manifest :: "fs \<Rightarrow> string \<Rightarrow> (string \<times> string) res" where
  "locate_manifest st path =
     (if is_dir st path
      then let manifest = path_join path MANIFEST_FILE
           in if is_file st manifest then Inr (path, manifest)
              else Inl (precondition (quoted path @ '' has no '' @ MANIFEST_FILE @ '' '' @
                [CHR 0xE2, CHR 0x80, CHR 0x94] @ '' point at a package output directory '' @
                ''(e.g. dist/<library>/<version>/<target>/ for a library, or '' @
                ''dist/plugins/<name>/<version>/<target>/ for a plugin)''))
      else if path_file_name path = Some MANIFEST_FILE
      then (case path_parent path of
              None \<Rightarrow> Inl (usage (quoted path @ '' has no parent directory''))
            | Some dir \<Rightarrow> Inr (dir, path))
      else Inl (usage (quoted path @ '' is neither a package output directory nor a '' @ MANIFEST_FILE)))"

text \<open>The hash and the number of the bytes of a file.\<close>

definition hash_file :: "pull_codec \<Rightarrow> fs \<Rightarrow> string \<Rightarrow> (string \<times> nat) res" where
  "hash_file cd st path =
     and_then (disk_read (fs_disk st) path) (\<lambda>s. Inr (sha256_hex_reader (pc_sha cd) (str_bytes s)))"

text \<open>What decoding an archive on the disk yields.\<close>

definition decoded_archive :: "pull_codec \<Rightarrow> fs \<Rightarrow> string \<Rightarrow> tar_archive" where
  "decoded_archive cd st path =
     (case std_read st path of Inl (_, e) \<Rightarrow> Inl e | Inr bytes \<Rightarrow> pc_tar cd bytes)"

definition manifest_invalid :: "string \<Rightarrow> error" where
  "manifest_invalid message = coded ''ARTIFACT_MANIFEST_INVALID'' Validation message"

record fetched_dist =
  fd_dir :: string
  fd_manifest :: json
  fd_record :: artifact_record
  fd_files :: "manifest_file list"
  fd_debug :: "debug_archive option"

definition read_dist :: "pull_codec \<Rightarrow> fs \<Rightarrow> string \<Rightarrow> fetched_dist res" where
  "read_dist cd st dist =
     and_then (locate_manifest st dist) (\<lambda>(dist_dir, manifest_path).
     and_then (disk_read (fs_disk st) manifest_path) (\<lambda>bytes.
     and_then (map_err (\<lambda>e. manifest_invalid (''fetched manifest.json is not valid JSON: '' @ e))
         (ev_from_str (pc_evidence cd) bytes)) (\<lambda>manifest.
     and_then (map_err (\<lambda>e. manifest_invalid
           (''fetched manifest.json is not a producer manifest: '' @ error_display e))
         (from_producer_manifest (ev_reader (pc_evidence cd)) manifest Imported 0 ''verification'')) (\<lambda>r.
     and_then (map_err (\<lambda>e. manifest_invalid
           (''fetched manifest.json has no usable file list: '' @ error_display e))
         (manifest_files (ev_reader (pc_evidence cd)) manifest)) (\<lambda>files.
     and_then (map_err (\<lambda>e. manifest_invalid
           (''fetched manifest.json has an invalid debug archive: '' @ error_display e))
         (manifest_debug_archive (ev_reader (pc_evidence cd)) manifest)) (\<lambda>debug.
       Inr \<lparr> fd_dir = dist_dir, fd_manifest = manifest, fd_record = r, fd_files = files,
             fd_debug = debug \<rparr>))))))"

section \<open>The policy of a pull\<close>

record pull_policy =
  pp_expected_digest :: "string option"
  pp_kind :: "artifact_kind option"
  pp_target :: "string option"
  pp_openusd :: "compatibility option"
  pp_openusd_version :: "string option"
  pp_require_sbom :: bool
  pp_require_provenance :: bool
  pp_minimum_trust :: "trust_level option"
  pp_artifact_policy :: "artifact_policy option"

type_synonym step_status = "string \<times> string"

definition step :: "string \<Rightarrow> bool \<Rightarrow> step_status" where
  "step name passed = (name, if passed then ''passed'' else ''skipped'')"

section \<open>Identity\<close>

definition selector_mismatch :: "string \<Rightarrow> string \<Rightarrow> error" where
  "selector_mismatch message hint =
     with_hint hint (coded ''ARTIFACT_OPENUSD_SELECTOR_MISMATCH'' Validation message)"

definition check_selector :: "pull_codec \<Rightarrow> fetched_dist \<Rightarrow> string option \<Rightarrow> step_status res" where
  "check_selector cd d remote =
     (case remote of
        None \<Rightarrow> Inr (step ''openusd_selector'' False)
      | Some declared \<Rightarrow>
          (case record_selector (rq_selector (pc_requirement cd)) (fd_record d) of
             None \<Rightarrow> Inl (selector_mismatch
               (''the resolved OCI manifest declares OpenUSD selector '' @ quoted declared @
                '', but the producer manifest has no verified normalized OpenUSD identity'')
               (''re-publish the runtime so its OCI annotation is derived from the same '' @
                ''producer manifest carried by the artifact''))
           | Some computed \<Rightarrow>
               let legacy_matches = (json_get OPENUSD_SELECTOR_SCHEMA_FIELD (fd_manifest d) = None
                     \<and> legacy_record_selector (rq_selector (pc_requirement cd)) (fd_record d) = Some declared)
               in if declared \<noteq> computed \<and> \<not> legacy_matches
                  then Inl (selector_mismatch
                    (''the resolved OCI manifest declares OpenUSD selector '' @ quoted declared @
                     '', but the producer manifest resolves to '' @ quoted computed)
                    (''do not import this inconsistent bundle; resolve a correctly published '' @
                     ''compatibility tag or re-publish upstream''))
                  else Inr (step ''openusd_selector'' True)))"

definition check_requirement :: "pull_codec \<Rightarrow> fetched_dist \<Rightarrow> pull_policy \<Rightarrow> step_status res" where
  "check_requirement cd d policy =
     (case pp_openusd policy of
        None \<Rightarrow> Inr (step ''openusd_requirement'' False)
      | Some required \<Rightarrow>
          and_then (verify_openusd_requirement (pc_requirement cd) (fd_record d) required
              (pp_openusd_version policy)) (\<lambda>_. Inr (step ''openusd_requirement'' True)))"

section \<open>Archives\<close>

definition digest_mismatch :: "string \<Rightarrow> error" where
  "digest_mismatch message = coded ''ARTIFACT_ARCHIVE_DIGEST_MISMATCH'' Validation message"

definition recorded_as :: "string \<Rightarrow> string \<times> nat \<Rightarrow> string \<Rightarrow> nat \<Rightarrow> string" where
  "recorded_as archive actual digest bytes =
     quoted archive @ '' hashes to '' @ fst actual @ '' ('' @ to_decimal (snd actual) @
     '' bytes) but its manifest records '' @ digest @ '' ('' @ to_decimal bytes @ '' bytes)''"

definition check_archive_digest :: "pull_codec \<Rightarrow> fs \<Rightarrow> fetched_dist \<Rightarrow> step_status res" where
  "check_archive_digest cd st d =
     (let r = fd_record d
      in and_then (hash_file cd st (path_join (fd_dir d) (record_archive r))) (\<lambda>actual.
           if fst actual \<noteq> record_digest r \<or> snd actual \<noteq> record_archive_size r
           then Inl (with_hint (''the remote bundle is inconsistent '' @ [CHR 0xE2, CHR 0x80, CHR 0x94] @ '' do not trust it; re-publish upstream'')
             (digest_mismatch (''fetched archive '' @
               recorded_as (record_archive r) actual (record_digest r) (record_archive_size r))))
           else Inr (step ''archive_digest'' True)))"

definition check_pin :: "fetched_dist \<Rightarrow> pull_policy \<Rightarrow> step_status res" where
  "check_pin d policy =
     (case pp_expected_digest policy of
        None \<Rightarrow> Inr (step ''pinned_artifact_digest'' False)
      | Some expected \<Rightarrow>
          if expected \<noteq> record_digest (fd_record d)
          then Inl (with_hint (''the remote reference points at a different artifact than the pin '' @
                 [CHR 0xE2, CHR 0x80, CHR 0x94] @ '' update the pin deliberately or fix the reference'')
                 (digest_mismatch (''pulled artifact digest '' @ record_digest (fd_record d) @
                   '' does not match the pinned digest '' @ expected)))
          else Inr (step ''pinned_artifact_digest'' True))"

definition archive_unsafe :: "string \<Rightarrow> error" where
  "archive_unsafe message = coded ''ARTIFACT_ARCHIVE_UNSAFE'' Validation message"

definition file_mismatch :: "string \<Rightarrow> error" where
  "file_mismatch message = coded ''ARTIFACT_FILE_DIGEST_MISMATCH'' Validation message"

definition listed :: "string \<Rightarrow> string list \<Rightarrow> string list" where
  "listed label xs = (if xs = [] then [] else [label @ '': '' @ join '', '' xs])"

definition check_files :: "pull_codec \<Rightarrow> fs \<Rightarrow> fetched_dist \<Rightarrow> (step_status list) res" where
  "check_files cd st d =
     (let archive = path_join (fd_dir d) (record_archive (fd_record d))
      in and_then (walk_archive (pc_sha cd) archive (decoded_archive cd st archive)) (\<lambda>walked.
           if walk_unsafe walked \<noteq> []
           then Inl (archive_unsafe (''fetched archive '' @ quoted (record_archive (fd_record d)) @ '' contains '' @
             to_decimal (length (walk_unsafe walked)) @ '' entr'' @
             (if length (walk_unsafe walked) = 1 then ''y'' else ''ies'') @ '' unsafe to extract: '' @
             join ''; '' (walk_unsafe walked)))
           else let cmp = compare_archive_files (walk_files walked) (fd_files d)
                in if \<not> comparison_passed cmp
                   then Inl (file_mismatch (''fetched archive contents do not match the manifest file list ('' @
                     join ''; '' (listed ''mismatched'' (cmp_mismatched cmp) @ listed ''missing'' (cmp_missing cmp)
                       @ listed ''extra'' (cmp_extra cmp)) @ '')''))
                   else Inr [step ''archive_safety'' True, step ''file_digests'' True]))"

definition check_debug :: "pull_codec \<Rightarrow> fs \<Rightarrow> fetched_dist \<Rightarrow> (step_status list) res" where
  "check_debug cd st d =
     (case fd_debug d of
        None \<Rightarrow> Inr []
      | Some debug \<Rightarrow>
          (let path = path_join (fd_dir d) (debug_archive_name debug)
           in and_then (hash_file cd st path) (\<lambda>actual.
                if fst actual \<noteq> debug_digest debug \<or> snd actual \<noteq> debug_archive_size debug
                then Inl (digest_mismatch (''fetched debug archive '' @
                  recorded_as (debug_archive_name debug) actual (debug_digest debug) (debug_archive_size debug)))
                else and_then (walk_archive (pc_sha cd) path (decoded_archive cd st path)) (\<lambda>walked.
                  if walk_unsafe walked \<noteq> []
                  then Inl (archive_unsafe (''fetched debug archive '' @ quoted (debug_archive_name debug) @
                    '' contains entries unsafe to extract: '' @ join ''; '' (walk_unsafe walked)))
                  else if \<not> comparison_passed (compare_archive_files (walk_files walked) (debug_files debug))
                  then Inl (file_mismatch (''fetched debug archive '' @ quoted (debug_archive_name debug) @
                    '' does not match its manifest file list''))
                  else Inr [step ''debug_archive'' True]))))"

section \<open>Kind and target\<close>

definition check_kind :: "fetched_dist \<Rightarrow> pull_policy \<Rightarrow> step_status res" where
  "check_kind d policy =
     (case pp_kind policy of
        None \<Rightarrow> Inr (step ''kind_match'' False)
      | Some kind \<Rightarrow>
          if kind \<noteq> record_kind (fd_record d)
          then Inl (coded ''ARTIFACT_SUPPORT_LINE_MISMATCH'' Validation
                 (''pulled artifact is a '' @ artifact_kind_as_str (record_kind (fd_record d)) @
                  '' but the support line requires a '' @ artifact_kind_as_str kind))
          else Inr (step ''kind_match'' True))"

definition check_target :: "fetched_dist \<Rightarrow> pull_policy \<Rightarrow> step_status res" where
  "check_target d policy =
     (case pp_target policy of
        None \<Rightarrow> Inr (step ''target_match'' False)
      | Some target \<Rightarrow>
          if target \<noteq> record_target (fd_record d)
          then Inl (coded ''ARTIFACT_PLATFORM_MISMATCH'' Validation
                 (''pulled artifact targets '' @ quoted (record_target (fd_record d)) @ '' but '' @
                  quoted target @ '' is required''))
          else Inr (step ''target_match'' True))"

section \<open>Evidence and trust\<close>

definition evidence_in_dist :: "pull_codec \<Rightarrow> fs \<Rightarrow> string \<Rightarrow> string \<Rightarrow> (evidence_digest option) res" where
  "evidence_in_dist cd st dist name =
     (let path = path_join dist name
      in if \<not> path_exists st path then Inr None
         else if \<not> is_file st path
         then Inl (coded ''ARTIFACT_EVIDENCE_INVALID'' Validation
                (''fetched evidence '' @ quoted name @ '' is not a regular file''))
         else and_then (evidence_from_file (pc_evidence cd) (fs_disk st) path name) (\<lambda>e. Inr (Some e)))"

text \<open>The outer \<^const>\<open>None\<close> is the panic of \<^const>\<open>verify_sbom\<close>.\<close>

definition check_sbom ::
  "pull_codec \<Rightarrow> fs \<Rightarrow> fetched_dist \<Rightarrow> pull_policy \<Rightarrow> ((bool \<times> step_status) res) option"
where
  "check_sbom cd st d policy =
     (case evidence_in_dist cd st (fd_dir d) SBOM_FILE of
        Inl e \<Rightarrow> Some (Inl e)
      | Inr (Some evidence) \<Rightarrow>
          (case verify_evidence_digest (pc_evidence cd) (fs_disk st) (fd_dir d) evidence of
             Inl e \<Rightarrow> Some (Inl e)
           | Inr _ \<Rightarrow>
               map_option (\<lambda>r. and_then r (\<lambda>_. Inr (True, step ''sbom'' True)))
                 (verify_sbom (pc_evidence cd) (fs_disk st) (path_join (fd_dir d) SBOM_FILE)
                   (record_digest (fd_record d)) (record_dependencies (fd_record d))))
      | Inr None \<Rightarrow>
          if pp_require_sbom policy
          then Some (Inl (with_hint ''select or publish an artifact carrying subject-bound SBOM evidence''
                 (coded ''ARTIFACT_SBOM_REQUIRED'' Validation ''pulled artifact has no SPDX SBOM'')))
          else Some (Inr (False, step ''sbom'' False)))"

text \<open>\<^verbatim>\<open>unwrap_or_default\<close>\<close>

definition trust_or_default :: "trust_level option \<Rightarrow> trust_level" where
  "trust_or_default t = (case t of None \<Rightarrow> Local | Some level \<Rightarrow> level)"

definition required_trust :: "pull_policy \<Rightarrow> trust_level" where
  "required_trust policy =
     max (trust_or_default (pp_minimum_trust policy))
       (trust_or_default (map_option policy_minimum_trust (pp_artifact_policy policy)))"

definition publisher_policy :: "pull_policy \<Rightarrow> artifact_policy option" where
  "publisher_policy policy =
     (case pp_artifact_policy policy of
        None \<Rightarrow> None
      | Some p \<Rightarrow> if pp_require_provenance policy \<or> required_trust policy > Attested then Some p else None)"

definition check_provenance ::
  "pull_codec \<Rightarrow> fs \<Rightarrow> fetched_dist \<Rightarrow> pull_policy \<Rightarrow> (bool \<times> string option \<times> step_status) res"
where
  "check_provenance cd st d policy =
     and_then (evidence_in_dist cd st (fd_dir d) PROVENANCE_FILE) (\<lambda>provenance.
       case provenance of
         Some evidence \<Rightarrow>
           and_then (verify_evidence_digest (pc_evidence cd) (fs_disk st) (fd_dir d) evidence) (\<lambda>_.
           and_then (verify_provenance (pc_evidence cd) (fs_disk st) (path_join (fd_dir d) PROVENANCE_FILE)
               (fd_manifest d) (record_digest (fd_record d)) (publisher_policy policy)) (\<lambda>publisher.
             Inr (True, publisher, step ''provenance'' True)))
       | None \<Rightarrow>
           if pp_require_provenance policy
           then Inl (with_hint ''select or publish an artifact carrying subject-bound provenance evidence''
                  (coded ''ARTIFACT_PROVENANCE_REQUIRED'' Validation
                    ''pulled artifact has no SLSA/in-toto provenance''))
           else Inr (False, None, step ''provenance'' False))"

definition effective_trust ::
  "artifact_policy option \<Rightarrow> artifact_record \<Rightarrow> bool \<Rightarrow> bool \<Rightarrow> string option \<Rightarrow> trust_level"
where
  "effective_trust policy r sbom provenance matched =
     (case matched of
        Some publisher \<Rightarrow>
          if sbom
          then (case Option.bind policy (\<lambda>p. policy_publisher p publisher) of
                  None \<Rightarrow> Attested
                | Some p \<Rightarrow> max Attested (ap_trust p))
          else Attested
      | None \<Rightarrow> if provenance then Attested else record_trust r)"

definition trust_insufficient :: "trust_level \<Rightarrow> trust_level \<Rightarrow> string option \<Rightarrow> bool \<Rightarrow> bool \<Rightarrow> error" where
  "trust_insufficient effective required matched sbom provenance =
     with_data (json_object
        [(''effective_trust'', JString (trust_as_str effective)),
         (''required_trust'', JString (trust_as_str required)),
         (''matched_publisher'', json_option JString matched),
         (''sbom_present'', JBool sbom), (''provenance_present'', JBool provenance)])
       (with_hint (''select an artifact with the required SBOM/provenance and allowed '' @
          ''publisher evidence'')
         (coded ''ARTIFACT_POLICY_TRUST_INSUFFICIENT'' Validation
           (''pulled artifact trust '' @ quoted (trust_as_str effective) @ '' is below required minimum '' @
            quoted (trust_as_str required))))"

section \<open>The chain\<close>

record chain_outcome =
  chain_steps :: "step_status list"
  chain_effective :: trust_level
  chain_required :: trust_level
  chain_publisher :: "string option"

text \<open>The steps before and after the bill of materials.\<close>

definition check_contents ::
  "pull_codec \<Rightarrow> fs \<Rightarrow> fetched_dist \<Rightarrow> pull_policy \<Rightarrow> string option \<Rightarrow> (step_status list) res"
where
  "check_contents cd st d policy remote =
     and_then (check_selector cd d remote) (\<lambda>selector.
     and_then (check_requirement cd d policy) (\<lambda>requirement.
     and_then (check_archive_digest cd st d) (\<lambda>archive.
     and_then (check_pin d policy) (\<lambda>pin.
     and_then (check_files cd st d) (\<lambda>files.
     and_then (check_debug cd st d) (\<lambda>debug.
     and_then (check_kind d policy) (\<lambda>kind.
     and_then (check_target d policy) (\<lambda>target.
       Inr ([step ''manifest_schema'' True, selector, requirement, archive, pin] @ files @ debug
            @ [kind, target])))))))))"

definition check_trust ::
  "pull_codec \<Rightarrow> fs \<Rightarrow> fetched_dist \<Rightarrow> pull_policy \<Rightarrow> step_status list \<Rightarrow> bool \<Rightarrow> chain_outcome res"
where
  "check_trust cd st d policy steps sbom =
     and_then (check_provenance cd st d policy) (\<lambda>(provenance, matched, provenance_step).
       let required = required_trust policy;
           effective = effective_trust (publisher_policy policy) (fd_record d) sbom provenance matched
       in if effective < required
          then Inl (trust_insufficient effective required matched sbom provenance)
          else Inr \<lparr> chain_steps = steps @ [provenance_step, step ''trust_policy''
                       (required > Local \<or> pp_artifact_policy policy \<noteq> None \<or> pp_minimum_trust policy \<noteq> None)],
                     chain_effective = effective, chain_required = required, chain_publisher = matched \<rparr>)"

definition verify_dist ::
  "pull_codec \<Rightarrow> fs \<Rightarrow> string \<Rightarrow> pull_policy \<Rightarrow> string option \<Rightarrow> (chain_outcome res) option"
where
  "verify_dist cd st dist policy remote =
     (case read_dist cd st dist of
        Inl e \<Rightarrow> Some (Inl e)
      | Inr d \<Rightarrow>
          (case check_contents cd st d policy remote of
             Inl e \<Rightarrow> Some (Inl e)
           | Inr steps \<Rightarrow>
               map_option (\<lambda>r. and_then r (\<lambda>(sbom, sbom_step).
                   check_trust cd st d policy (steps @ [sbom_step]) sbom))
                 (check_sbom cd st d policy)))"

section \<open>What a verified distribution is\<close>

text \<open>
  The bytes of an archive have the digest and the size that are claimed for them, and what they
  decode to is safe to extract and holds exactly the files that are listed.
\<close>

definition archive_holds :: "pull_codec \<Rightarrow> fs \<Rightarrow> string \<Rightarrow> string \<Rightarrow> nat \<Rightarrow> manifest_file list \<Rightarrow> bool" where
  "archive_holds cd st path digest bytes files \<longleftrightarrow>
     (\<exists>contents entries walked.
        node st path = Some (Bytes contents)
        \<and> sha256_hex (pc_sha cd) (str_bytes contents) = digest \<and> length contents = bytes
        \<and> pc_tar cd contents = Inr entries
        \<and> (\<forall>item \<in> set entries. entry_contained item) \<and> distinct (map entry_path (filter is_payload entries))
        \<and> walk_archive (pc_sha cd) path (Inr entries) = Inr walked
        \<and> distinct (map af_path (walk_files walked)) \<and> distinct (map mfile_path files)
        \<and> (\<forall>f \<in> set (walk_files walked). \<exists>w \<in> set files. same_file f w)
        \<and> (\<forall>w \<in> set files. \<exists>f \<in> set (walk_files walked). same_file f w))"

text \<open>The fetched manifest is the one read, and its record is derived from it.\<close>

definition dist_read :: "pull_codec \<Rightarrow> fs \<Rightarrow> string \<Rightarrow> fetched_dist \<Rightarrow> bool" where
  "dist_read cd st dist d \<longleftrightarrow>
     (\<exists>path bytes. locate_manifest st dist = Inr (fd_dir d, path)
        \<and> node st path = Some (Bytes bytes) \<and> ev_from_str (pc_evidence cd) bytes = Inr (fd_manifest d)
        \<and> from_producer_manifest (ev_reader (pc_evidence cd)) (fd_manifest d) Imported 0 ''verification'' = Inr (fd_record d)
        \<and> manifest_files (ev_reader (pc_evidence cd)) (fd_manifest d) = Inr (fd_files d)
        \<and> manifest_debug_archive (ev_reader (pc_evidence cd)) (fd_manifest d) = Inr (fd_debug d))"

definition policy_met :: "pull_codec \<Rightarrow> fetched_dist \<Rightarrow> pull_policy \<Rightarrow> string option \<Rightarrow> bool" where
  "policy_met cd d policy remote \<longleftrightarrow>
     (\<forall>digest. pp_expected_digest policy = Some digest \<longrightarrow> record_digest (fd_record d) = digest)
     \<and> (\<forall>kind. pp_kind policy = Some kind \<longrightarrow> record_kind (fd_record d) = kind)
     \<and> (\<forall>target. pp_target policy = Some target \<longrightarrow> record_target (fd_record d) = target)
     \<and> (\<forall>required. pp_openusd policy = Some required \<longrightarrow>
          verify_openusd_requirement (pc_requirement cd) (fd_record d) required (pp_openusd_version policy) = Inr ())
     \<and> (\<forall>declared. remote = Some declared \<longrightarrow>
          record_selector (rq_selector (pc_requirement cd)) (fd_record d) = Some declared
          \<or> json_get OPENUSD_SELECTOR_SCHEMA_FIELD (fd_manifest d) = None
            \<and> legacy_record_selector (rq_selector (pc_requirement cd)) (fd_record d) = Some declared)"

definition sbom_verified :: "pull_codec \<Rightarrow> fs \<Rightarrow> fetched_dist \<Rightarrow> bool" where
  "sbom_verified cd st d \<longleftrightarrow>
     verify_sbom (pc_evidence cd) (fs_disk st) (path_join (fd_dir d) SBOM_FILE) (record_digest (fd_record d))
       (record_dependencies (fd_record d)) = Some (Inr ())"

definition provenance_verified ::
  "pull_codec \<Rightarrow> fs \<Rightarrow> fetched_dist \<Rightarrow> artifact_policy option \<Rightarrow> string option \<Rightarrow> bool"
where
  "provenance_verified cd st d policy publisher \<longleftrightarrow>
     verify_provenance (pc_evidence cd) (fs_disk st) (path_join (fd_dir d) PROVENANCE_FILE) (fd_manifest d)
       (record_digest (fd_record d)) policy = Inr publisher"

text \<open>
  The trust a pull reports is at least what the policy requires, and each level is earned: up to
  attested by verified provenance, above it by verified provenance of a publisher the policy
  allows at that level, with a verified bill of materials.
\<close>

definition trust_earned :: "pull_codec \<Rightarrow> fs \<Rightarrow> fetched_dist \<Rightarrow> pull_policy \<Rightarrow> chain_outcome \<Rightarrow> bool" where
  "trust_earned cd st d policy out \<longleftrightarrow>
     chain_required out = required_trust policy \<and> required_trust policy \<le> chain_effective out
     \<and> (chain_effective out \<ge> Attested \<longrightarrow>
          provenance_verified cd st d (publisher_policy policy) (chain_publisher out))
     \<and> (chain_effective out > Attested \<longrightarrow>
          sbom_verified cd st d
          \<and> (\<exists>p publisher. pp_artifact_policy policy = Some p \<and> publisher \<in> set (policy_publishers p)
               \<and> chain_publisher out = Some (ap_id publisher) \<and> ap_trust publisher = chain_effective out))
     \<and> (pp_require_sbom policy \<longrightarrow> sbom_verified cd st d)
     \<and> (pp_require_provenance policy \<longrightarrow>
          provenance_verified cd st d (publisher_policy policy) (chain_publisher out)
          \<and> (pp_artifact_policy policy \<noteq> None \<longrightarrow> chain_publisher out \<noteq> None))"

definition dist_verified :: "pull_codec \<Rightarrow> fs \<Rightarrow> string \<Rightarrow> pull_policy \<Rightarrow> string option \<Rightarrow> chain_outcome \<Rightarrow> bool" where
  "dist_verified cd st dist policy remote out \<longleftrightarrow>
     (\<exists>d. dist_read cd st dist d \<and> policy_met cd d policy remote
        \<and> archive_holds cd st (path_join (fd_dir d) (record_archive (fd_record d))) (record_digest (fd_record d))
            (record_archive_size (fd_record d)) (fd_files d)
        \<and> (\<forall>debug. fd_debug d = Some debug \<longrightarrow>
             archive_holds cd st (path_join (fd_dir d) (debug_archive_name debug)) (debug_digest debug)
               (debug_archive_size debug) (debug_files debug))
        \<and> trust_earned cd st d policy out)"

lemma map_err_ok [res_simps]: "map_err f r = Inr x \<longleftrightarrow> r = Inr x"
  by (cases r) (simp_all add: map_err_def)

lemma disk_read_node:
  "disk_read (fs_disk st) path = Inr s \<longleftrightarrow> fs_read_error st path = None \<and> node st path = Some (Bytes s)"
  by (auto simp: disk_read_def fs_disk_def split: option.splits node.splits)

lemma read_dist_ok: "read_dist cd st dist = Inr d \<Longrightarrow> dist_read cd st dist d"
  by (auto simp: read_dist_def res_simps disk_read_node dist_read_def)

lemma hash_file_ok:
  "hash_file cd st path = Inr (digest, n) \<longleftrightarrow>
     (\<exists>s. disk_read (fs_disk st) path = Inr s \<and> digest = sha256_hex (pc_sha cd) (str_bytes s) \<and> n = length s)"
  by (auto simp: hash_file_def res_simps sha256_hex_reader_def sha256_hex_def str_bytes_def)

lemma decoded_archive_ok:
  "disk_read (fs_disk st) path = Inr s \<Longrightarrow> decoded_archive cd st path = pc_tar cd s"
  by (simp add: decoded_archive_def std_read_def disk_read_node)

text \<open>An archive that is hashed, walked and compared holds what is claimed.\<close>

lemma archive_holdsI:
  assumes "hash_file cd st path = Inr (digest, bytes)"
    and "walk_archive (pc_sha cd) path (decoded_archive cd st path) = Inr walked" "walk_unsafe walked = []"
    and "comparison_passed (compare_archive_files (walk_files walked) files)"
  shows "archive_holds cd st path digest bytes files"
proof -
  obtain s where s: "disk_read (fs_disk st) path = Inr s" "digest = sha256_hex (pc_sha cd) (str_bytes s)"
    "bytes = length s"
    using assms(1) by (auto simp: hash_file_ok)
  then have decoded: "decoded_archive cd st path = pc_tar cd s" by (simp add: decoded_archive_ok)
  then obtain entries where entries: "pc_tar cd s = Inr entries"
    using assms(2) by (cases "pc_tar cd s") (auto simp: walk_archive_def)
  have "scan_unsafe_entries path (Inr entries) = Inr []"
    using walks_agree [OF assms(2)] decoded entries assms(3) by simp
  from scan_contained [OF this] show ?thesis
    unfolding archive_holds_def
    using s entries decoded assms(2,4) by (auto simp: comparison_exact_iff disk_read_node)
qed

lemma check_contents_ok:
  assumes "check_contents cd st d policy remote = Inr steps"
  shows "policy_met cd d policy remote
     \<and> archive_holds cd st (path_join (fd_dir d) (record_archive (fd_record d))) (record_digest (fd_record d))
         (record_archive_size (fd_record d)) (fd_files d)
     \<and> (\<forall>debug. fd_debug d = Some debug \<longrightarrow>
          archive_holds cd st (path_join (fd_dir d) (debug_archive_name debug)) (debug_digest debug)
            (debug_archive_size debug) (debug_files debug))"
proof -
  let ?archive = "path_join (fd_dir d) (record_archive (fd_record d))"
  from assms obtain selector requirement archive pin files debug kind target where
    selector: "check_selector cd d remote = Inr selector"
    and requirement: "check_requirement cd d policy = Inr requirement"
    and archive: "check_archive_digest cd st d = Inr archive"
    and pin: "check_pin d policy = Inr pin"
    and files: "check_files cd st d = Inr files"
    and debug: "check_debug cd st d = Inr debug"
    and kind: "check_kind d policy = Inr kind"
    and target: "check_target d policy = Inr target"
    by (auto simp: check_contents_def res_simps)
  have "policy_met cd d policy remote"
    using selector requirement pin kind target
    by (auto simp: policy_met_def check_selector_def check_requirement_def check_pin_def check_kind_def
        check_target_def Let_def res_simps split: option.splits if_splits)
  moreover have "hash_file cd st ?archive = Inr (record_digest (fd_record d), record_archive_size (fd_record d))"
    using archive by (auto simp: check_archive_digest_def Let_def res_simps split: if_splits)
  then have "archive_holds cd st ?archive (record_digest (fd_record d)) (record_archive_size (fd_record d)) (fd_files d)"
    using files by (auto simp: check_files_def Let_def res_simps split: if_splits intro: archive_holdsI)
  moreover have "archive_holds cd st (path_join (fd_dir d) (debug_archive_name b)) (debug_digest b)
      (debug_archive_size b) (debug_files b)" if "fd_debug d = Some b" for b
    using debug that by (auto simp: check_debug_def Let_def res_simps split: if_splits intro: archive_holdsI)
  ultimately show ?thesis by blast
qed

lemma check_sbom_ok:
  assumes "check_sbom cd st d policy = Some (Inr (sbom, sbom_step))"
  shows "(sbom \<longrightarrow> sbom_verified cd st d) \<and> (pp_require_sbom policy \<longrightarrow> sbom)"
  using assms
  by (auto simp: check_sbom_def sbom_verified_def res_simps split: sum.splits option.splits if_splits)

lemma check_provenance_ok:
  assumes "check_provenance cd st d policy = Inr (provenance, matched, provenance_step)"
  shows "(provenance \<longrightarrow> provenance_verified cd st d (publisher_policy policy) matched)
     \<and> (\<not> provenance \<longrightarrow> matched = None) \<and> (pp_require_provenance policy \<longrightarrow> provenance)"
  using assms
  by (auto simp: check_provenance_def provenance_verified_def res_simps split: option.splits if_splits)

lemma verify_provenance_policy:
  "verify_provenance cd d path manifest digest (Some policy) = Inr matched \<Longrightarrow> matched \<noteq> None"
  by (auto simp: verify_provenance_def res_simps split: option.splits if_splits)

lemma publisher_policy_Some: "publisher_policy policy = Some p \<Longrightarrow> pp_artifact_policy policy = Some p"
  by (auto simp: publisher_policy_def split: option.splits if_splits)

lemma record_trust_low: "from_producer_manifest rd manifest Imported created imported_by = Inr r \<Longrightarrow> record_trust r < Attested"
  by (auto dest!: record_fields simp: less_trust_level_def)

lemma check_trust_ok:
  assumes run: "check_trust cd st d policy steps sbom = Inr out"
    and sbom: "sbom \<longrightarrow> sbom_verified cd st d" "pp_require_sbom policy \<longrightarrow> sbom"
    and low: "record_trust (fd_record d) < Attested"
  shows "trust_earned cd st d policy out"
proof -
  obtain provenance matched provenance_step where
    p: "check_provenance cd st d policy = Inr (provenance, matched, provenance_step)"
    and effective: "chain_effective out = effective_trust (publisher_policy policy) (fd_record d) sbom provenance matched"
    and required: "chain_required out = required_trust policy" "required_trust policy \<le> chain_effective out"
    and publisher: "chain_publisher out = matched"
    using run by (auto simp: check_trust_def Let_def res_simps split: if_splits)
  note provenance = check_provenance_ok [OF p]
  have attested: "provenance" if "chain_effective out \<ge> Attested"
    using that low provenance effective
    by (cases provenance) (auto simp: effective_trust_def split: option.splits)
  have "sbom_verified cd st d \<and> (\<exists>p publisher. pp_artifact_policy policy = Some p \<and> publisher \<in> set (policy_publishers p)
      \<and> chain_publisher out = Some (ap_id publisher) \<and> ap_trust publisher = chain_effective out)"
    if above: "chain_effective out > Attested"
  proof -
    have "record_trust (fd_record d) \<le> Attested" using low by simp
    then obtain name where name: "matched = Some name" and "sbom"
      using above effective by (auto simp: effective_trust_def split: option.splits if_splits)
    then obtain p ap where "publisher_policy policy = Some p" "policy_publisher p name = Some ap"
        "chain_effective out = max Attested (ap_trust ap)"
      using above effective by (auto simp: effective_trust_def split: option.splits bind_splits)
    moreover from this(3) have "ap_trust ap = chain_effective out" using above by (auto simp: max_def split: if_splits)
    ultimately show ?thesis
      using sbom \<open>sbom\<close> name publisher publisher_policy_Some policy_publisher_Some by metis
  qed
  moreover have "chain_publisher out \<noteq> None"
    if needed: "pp_require_provenance policy" "pp_artifact_policy policy \<noteq> None"
  proof -
    obtain p where "publisher_policy policy = Some p"
      using needed by (auto simp: publisher_policy_def)
    then show ?thesis
      using provenance needed(1) publisher
      by (auto simp: provenance_verified_def dest: verify_provenance_policy)
  qed
  ultimately show ?thesis
    unfolding trust_earned_def publisher using required provenance publisher attested sbom by simp
qed

lemma verify_dist_sound:
  "verify_dist cd st dist policy remote \<noteq> None
   \<and> (\<forall>out. verify_dist cd st dist policy remote = Some (Inr out) \<longrightarrow> dist_verified cd st dist policy remote out)"
proof (intro conjI allI impI)
  have "check_sbom cd st d policy \<noteq> None" for d
    using verify_sbom_total by (auto simp: check_sbom_def split: sum.split option.split)
  then show "verify_dist cd st dist policy remote \<noteq> None"
    by (simp add: verify_dist_def split: sum.split)
  fix out
  assume "verify_dist cd st dist policy remote = Some (Inr out)"
  then obtain d steps sbom sbom_step where
    d: "read_dist cd st dist = Inr d" and contents: "check_contents cd st d policy remote = Inr steps"
    and sbom: "check_sbom cd st d policy = Some (Inr (sbom, sbom_step))"
    and trust: "check_trust cd st d policy (steps @ [sbom_step]) sbom = Inr out"
    by (auto simp: verify_dist_def res_simps split: sum.splits)
  have "record_trust (fd_record d) < Attested"
    using read_dist_ok [OF d] record_trust_low by (auto simp: dist_read_def)
  with check_trust_ok [OF trust] check_sbom_ok [OF sbom] have "trust_earned cd st d policy out" by blast
  then show "dist_verified cd st dist policy remote out"
    unfolding dist_verified_def using read_dist_ok [OF d] check_contents_ok [OF contents] by blast
qed

text \<open>
  C4. A distribution that passes the chain may be imported: its manifest was read and derives its
  record, the archive's bytes have the recorded digest and size and decode to entries that are
  safe to extract and are exactly the listed files, so does a debug archive, every pin of the
  policy is met, and the reported trust reaches what is required and is earned by evidence that
  verifies.  The chain never panics.
\<close>

theorem verified_dist_sound:
  "verify_dist cd st dist policy remote \<noteq> None
   \<and> (\<forall>out. verify_dist cd st dist policy remote = Some (Inr out) \<longrightarrow> dist_verified cd st dist policy remote out)"
  by (rule verify_dist_sound)

section \<open>A sample distribution\<close>

definition sample_pull_codec :: pull_codec where
  "sample_pull_codec =
     \<lparr> pc_evidence = sample_evidence_codec
         \<lparr> ev_from_str := (\<lambda>s. if s = ''manifest'' then Inr sample_runtime_manifest
             else ev_from_str sample_evidence_codec s) \<rparr>,
       pc_requirement = sample_requirement_codec, pc_tar = (\<lambda>_. Inr []) \<rparr>"

definition dist_nodes :: "string \<Rightarrow> (string \<times> node) list" where
  "dist_nodes dir =
     [(dir, Dir), (path_join dir ''manifest.json'', Bytes ''manifest''),
      (path_join dir ''usd.tar.zst'', Bytes ''data''),
      (path_join dir ''sbom.spdx.json'', Bytes (''sbom'' @ [CHR 0x0A])),
      (path_join dir ''provenance.intoto.jsonl'', Bytes (''statement'' @ [CHR 0x0A]))]"

definition sample_pull_policy :: pull_policy where
  "sample_pull_policy =
     \<lparr> pp_expected_digest = Some (''sha256:'' @ replicate 64 (CHR ''a'')), pp_kind = Some RuntimeArtifact,
       pp_target = None, pp_openusd = Some (cell_of sample_compatibility), pp_openusd_version = Some ''26.05'',
       pp_require_sbom = True, pp_require_provenance = True, pp_minimum_trust = Some Attested,
       pp_artifact_policy = None \<rparr>"

definition sample_outcome :: chain_outcome where
  "sample_outcome =
     \<lparr> chain_steps = [(''manifest_schema'', ''passed''), (''openusd_selector'', ''skipped''),
         (''openusd_requirement'', ''passed''), (''archive_digest'', ''passed''),
         (''pinned_artifact_digest'', ''passed''), (''archive_safety'', ''passed''), (''file_digests'', ''passed''),
         (''kind_match'', ''passed''), (''target_match'', ''skipped''), (''sbom'', ''passed''),
         (''provenance'', ''passed''), (''trust_policy'', ''passed'')],
       chain_effective = Attested, chain_required = Attested, chain_publisher = None \<rparr>"


definition sample_dist_fs :: fs where
  "sample_dist_fs = calm_fs (dist_nodes ''dist'')"

definition sample_fetched :: fetched_dist where
  "sample_fetched =
     \<lparr> fd_dir = ''dist'', fd_manifest = sample_runtime_manifest,
       fd_record = sample_runtime_record\<lparr>record_imported_by := ''verification''\<rparr>, fd_files = [], fd_debug = None \<rparr>"

text \<open>The stages of the chain on the sample, evaluated one by one.\<close>

lemma sample_read: "read_dist sample_pull_codec sample_dist_fs ''dist'' = Inr sample_fetched"
  by code_simp

lemma sample_contents:
  "check_requirement sample_pull_codec sample_fetched sample_pull_policy = Inr (step ''openusd_requirement'' True)"
  "check_archive_digest sample_pull_codec sample_dist_fs sample_fetched = Inr (step ''archive_digest'' True)"
  "check_files sample_pull_codec sample_dist_fs sample_fetched = Inr [step ''archive_safety'' True, step ''file_digests'' True]"
  "check_pin sample_fetched sample_pull_policy = Inr (step ''pinned_artifact_digest'' True)"
  "check_kind sample_fetched sample_pull_policy = Inr (step ''kind_match'' True)"
  "check_target sample_fetched sample_pull_policy = Inr (step ''target_match'' False)"
  by code_simp+

lemma sample_check_sbom:
  "check_sbom sample_pull_codec sample_dist_fs sample_fetched sample_pull_policy = Some (Inr (True, step ''sbom'' True))"
  by code_simp

lemma sample_check_provenance:
  "check_provenance sample_pull_codec sample_dist_fs sample_fetched sample_pull_policy
     = Inr (True, None, step ''provenance'' True)"
  by code_simp

lemma sample_chain:
  "verify_dist sample_pull_codec sample_dist_fs ''dist'' sample_pull_policy None = Some (Inr sample_outcome)"
proof -
  have "fd_debug sample_fetched = None" by (simp add: sample_fetched_def)
  moreover have "required_trust sample_pull_policy = Attested" by code_simp
  moreover have "pp_minimum_trust sample_pull_policy = Some Attested" by (simp add: sample_pull_policy_def)
  ultimately show ?thesis
    by (simp add: verify_dist_def sample_read check_contents_def check_selector_def check_debug_def sample_contents
        sample_check_sbom check_trust_def sample_check_provenance effective_trust_def Let_def sample_outcome_def
        step_def less_trust_level_def)
qed

theorem verified_dist_sound_witness:
  "\<exists>d. dist_read sample_pull_codec sample_dist_fs ''dist'' d
     \<and> policy_met sample_pull_codec d sample_pull_policy None
     \<and> trust_earned sample_pull_codec sample_dist_fs d sample_pull_policy sample_outcome"
  using verified_dist_sound [of sample_pull_codec sample_dist_fs "''dist''" sample_pull_policy None]
    sample_chain
  by (auto simp: dist_verified_def)

end
