(* ===== verification/ArtifactStore.thy ===== *)
theory ArtifactStore
  imports PullChain
begin

text \<open>
  The local content-addressed artifact store (ost-artifact/src/store.rs) over the file system of
  \<open>FileSystem\<close>: the object directories, the index, import, removal, export, extraction and
  verification.  The JSON writers and readers of records and of the index, and the unpacker of tar
  archives, are arguments.
\<close>

section \<open>Data\<close>

definition INDEX_FILE :: string where
  "INDEX_FILE = ''index.json''"

definition RECORD_FILE :: string where
  "RECORD_FILE = ''record.json''"

definition SUMS_FILE :: string where
  "SUMS_FILE = ''SHA256SUMS''"

record store_index =
  index_schema :: nat
  index_artifacts :: "artifact_record list"

record import_outcome =
  import_record :: artifact_record
  import_already_present :: bool
  import_attached :: "string list"
  import_skipped :: "string list"

record verify_report =
  report_digest :: string
  report_digest_ok :: bool
  report_matched :: nat
  report_mismatched :: "string list"
  report_missing :: "string list"
  report_extra :: "string list"

definition report_passed :: "verify_report \<Rightarrow> bool" where
  "report_passed v \<longleftrightarrow>
     report_digest_ok v \<and> report_mismatched v = [] \<and> report_missing v = [] \<and> report_extra v = []"

text \<open>\<open>sc_unpack\<close>: what unpacking the bytes of an archive below a directory does.\<close>

record store_codec =
  sc_pull :: pull_codec
  sc_record_json :: "artifact_record \<Rightarrow> string + string"
  sc_record_read :: "string \<Rightarrow> string + artifact_record"
  sc_index_json :: "store_index \<Rightarrow> string + string"
  sc_index_read :: "string \<Rightarrow> string + store_index"
  sc_unpack :: "string \<Rightarrow> string \<Rightarrow> (string, unit) act"
  sc_listing :: "fs \<Rightarrow> string \<Rightarrow> string + (string + string) list"

definition sc_evidence :: "store_codec \<Rightarrow> evidence_codec" where
  "sc_evidence cd = pc_evidence (sc_pull cd)"

definition objects_dir :: "string \<Rightarrow> string" where
  "objects_dir root = path_join (path_join root ''objects'') ''sha256''"

definition object_dir :: "string \<Rightarrow> string \<Rightarrow> string" where
  "object_dir root hex = path_join (objects_dir root) hex"

definition archive_path :: "string \<Rightarrow> artifact_record \<Rightarrow> string" where
  "archive_path root r = path_join (object_dir root (digest_hex r)) (record_archive r)"

definition read_json :: "store_codec \<Rightarrow> fs \<Rightarrow> string \<Rightarrow> json res" where
  "read_json cd st path =
     and_then (disk_read (fs_disk st) path) (\<lambda>bytes.
       map_err (Parse path) (ev_from_str (sc_evidence cd) bytes))"

definition producer_manifest :: "store_codec \<Rightarrow> fs \<Rightarrow> string \<Rightarrow> artifact_record \<Rightarrow> json res" where
  "producer_manifest cd st root r =
     read_json cd st (path_join (object_dir root (digest_hex r)) MANIFEST_FILE)"

definition stored_evidence :: "artifact_record \<Rightarrow> (evidence_digest option \<times> evidence_digest option) res" where
  "stored_evidence r =
     and_then (record_evidence (record_sbom r) (record_sbom_digest r) (record_sbom_size r) ''SBOM'' SBOM_FILE) (\<lambda>sbom.
     and_then (record_evidence (record_provenance r) (record_provenance_digest r) (record_provenance_size r)
         ''provenance'' PROVENANCE_FILE) (\<lambda>provenance.
       Inr (sbom, provenance)))"

section \<open>Records and the index\<close>

definition read_record :: "store_codec \<Rightarrow> fs \<Rightarrow> string \<Rightarrow> artifact_record res" where
  "read_record cd st dir =
     (let path = path_join dir RECORD_FILE
      in and_then (disk_read (fs_disk st) path) (\<lambda>bytes.
         and_then (map_err (Parse path) (sc_record_read cd bytes)) (\<lambda>r.
           Inr (migrate_legacy_producer r))))"

definition read_index :: "store_codec \<Rightarrow> fs \<Rightarrow> string \<Rightarrow> store_index res" where
  "read_index cd st root =
     (let path = path_join root INDEX_FILE
      in case std_read st path of
           Inr bytes \<Rightarrow>
             and_then (map_err (Parse path) (sc_index_read cd bytes)) (\<lambda>index.
               Inr (index\<lparr>index_artifacts := map migrate_legacy_producer (index_artifacts index)\<rparr>))
         | Inl (kind, e) \<Rightarrow>
             if kind = NotFound then Inr \<lparr> index_schema = RECORD_SCHEMA, index_artifacts = [] \<rparr>
             else Inl (Io path e))"

definition write_index :: "store_codec \<Rightarrow> string \<Rightarrow> store_index \<Rightarrow> (error, unit) act" where
  "write_index cd root index =
     (let sorted = \<lparr> index_schema = RECORD_SCHEMA,
            index_artifacts = sort_key record_digest (index_artifacts index) \<rparr>
      in bind_act (io_at root (std_create_dir_all root)) (\<lambda>_.
         bind_act (pure (map_err (Parse ''artifact index'') (sc_index_json cd sorted))) (\<lambda>text.
           write_atomic (path_join root INDEX_FILE) (text @ [CHR 0x0A]))))"

text \<open>A computation that only reads the state.\<close>

definition reads :: "(fs \<Rightarrow> 'e + 'a) \<Rightarrow> ('e, 'a) act" where
  "reads f st = (f st, st)"

definition without_digest :: "string \<Rightarrow> artifact_record list \<Rightarrow> artifact_record list" where
  "without_digest digest rs = filter (\<lambda>r. record_digest r \<noteq> digest) rs"

definition index_upsert :: "store_codec \<Rightarrow> string \<Rightarrow> artifact_record \<Rightarrow> (error, unit) act" where
  "index_upsert cd root r =
     bind_act (reads (\<lambda>st. read_index cd st root)) (\<lambda>index.
       write_index cd root
         (index\<lparr>index_artifacts := without_digest (record_digest r) (index_artifacts index) @ [r]\<rparr>))"

section \<open>Looking up\<close>

definition store_list :: "store_codec \<Rightarrow> fs \<Rightarrow> string \<Rightarrow> (artifact_record list) res" where
  "store_list cd st root = and_then (read_index cd st root) (\<lambda>index. Inr (index_artifacts index))"

definition store_resolve :: "store_codec \<Rightarrow> fs \<Rightarrow> string \<Rightarrow> string \<Rightarrow> artifact_record res" where
  "store_resolve cd st root digest_ref =
     (let needle = bare_hex digest_ref
      in if length needle < 6 \<or> \<not> list_all is_ascii_hexdigit needle
         then Inl (usage (quoted digest_ref @
                '' is not a digest reference (expected sha256:<hex> or a hex prefix of >= 6 chars)''))
         else and_then (read_index cd st root) (\<lambda>index.
           case filter (\<lambda>r. starts_with (map ascii_lower needle) (digest_hex r)) (index_artifacts index) of
             [one] \<Rightarrow> Inr one
           | a # b # _ \<Rightarrow> Inl (usage (''digest prefix '' @ quoted digest_ref @
               '' is ambiguous (matches at least '' @ short_digest a @ '' and '' @ short_digest b @ '')''))
           | [] \<Rightarrow> Inl (with_hint ''run `ost artifact list` to see what is stored''
               (coded ''ARTIFACT_NOT_FOUND'' Precondition
                 (''no artifact matches '' @ quoted digest_ref @ '' in the local registry'')))))"

section \<open>Parts of an import\<close>

definition store_evidence_in_dist :: "store_codec \<Rightarrow> fs \<Rightarrow> string \<Rightarrow> string \<Rightarrow> (evidence_digest option) res" where
  "store_evidence_in_dist cd st dist name =
     (let path = path_join dist name
      in if \<not> path_exists st path then Inr None
         else if \<not> is_file st path
         then Inl (coded ''ARTIFACT_EVIDENCE_INVALID'' Validation
                (''evidence path '' @ quoted path @ '' is not a regular file''))
         else and_then (evidence_from_file (sc_evidence cd) (fs_disk st) path name) (\<lambda>e. Inr (Some e)))"

definition store_mismatch :: "string \<Rightarrow> error" where
  "store_mismatch message = coded ''ARTIFACT_DIGEST_MISMATCH'' Validation message"

definition verify_archive_claim :: "store_codec \<Rightarrow> fs \<Rightarrow> string \<Rightarrow> debug_archive \<Rightarrow> unit res" where
  "verify_archive_claim cd st dist debug =
     and_then (hash_file (sc_pull cd) st (path_join dist (debug_archive_name debug))) (\<lambda>actual.
       if fst actual \<noteq> debug_digest debug \<or> snd actual \<noteq> debug_archive_size debug
       then Inl (with_hint ''re-run the package step to produce a consistent debug archive + manifest''
              (store_mismatch (''debug archive '' @
                recorded_as (debug_archive_name debug) actual (debug_digest debug) (debug_archive_size debug))))
       else Inr ())"

definition sum_line :: "string \<Rightarrow> string \<Rightarrow> string" where
  "sum_line digest name = bare_hex digest @ ''  '' @ name @ [CHR 0x0A]"

definition evidence_sum :: "string option \<Rightarrow> string option \<Rightarrow> string" where
  "evidence_sum path digest = (case (path, digest) of (Some p, Some d) \<Rightarrow> sum_line d p | _ \<Rightarrow> [])"

definition checksum_contents :: "artifact_record \<Rightarrow> debug_archive option \<Rightarrow> string" where
  "checksum_contents r debug =
     digest_hex r @ ''  '' @ record_archive r @ [CHR 0x0A] @
     (case debug of None \<Rightarrow> [] | Some b \<Rightarrow> sum_line (debug_digest b) (debug_archive_name b)) @
     evidence_sum (record_sbom r) (record_sbom_digest r) @
     evidence_sum (record_provenance r) (record_provenance_digest r)"

text \<open>What an import reads of its source before it changes anything.\<close>

record import_source =
  is_dist :: string
  is_manifest_bytes :: string
  is_record :: artifact_record
  is_debug :: "debug_archive option"
  is_sbom :: "evidence_digest option"
  is_provenance :: "evidence_digest option"

definition with_sbom :: "evidence_digest option \<Rightarrow> artifact_record \<Rightarrow> artifact_record" where
  "with_sbom evidence r =
     (case evidence of
        None \<Rightarrow> r
      | Some e \<Rightarrow> r\<lparr>record_sbom := Some (evd_path e), record_sbom_digest := Some (evd_digest e),
                    record_sbom_size := Some (evd_size e)\<rparr>)"

definition with_provenance :: "evidence_digest option \<Rightarrow> artifact_record \<Rightarrow> artifact_record" where
  "with_provenance evidence r =
     (case evidence of
        None \<Rightarrow> r
      | Some e \<Rightarrow> r\<lparr>record_provenance := Some (evd_path e), record_provenance_digest := Some (evd_digest e),
                    record_provenance_size := Some (evd_size e)\<rparr>)"

text \<open>The outer \<^const>\<open>None\<close> is again the panic of \<^const>\<open>verify_sbom\<close>.\<close>

definition import_sbom ::
  "store_codec \<Rightarrow> fs \<Rightarrow> string \<Rightarrow> artifact_record \<Rightarrow> ((evidence_digest option) res) option"
where
  "import_sbom cd st dist r =
     (case store_evidence_in_dist cd st dist SBOM_FILE of
        Inl e \<Rightarrow> Some (Inl e)
      | Inr None \<Rightarrow> Some (Inr None)
      | Inr (Some evidence) \<Rightarrow>
          map_option (\<lambda>v. and_then v (\<lambda>_. Inr (Some evidence)))
            (verify_sbom (sc_evidence cd) (fs_disk st) (path_join dist SBOM_FILE) (record_digest r)
              (record_dependencies r)))"

definition import_provenance ::
  "store_codec \<Rightarrow> fs \<Rightarrow> string \<Rightarrow> json \<Rightarrow> artifact_record \<Rightarrow> (evidence_digest option) res"
where
  "import_provenance cd st dist manifest r =
     and_then (store_evidence_in_dist cd st dist PROVENANCE_FILE) (\<lambda>evidence.
       case evidence of
         None \<Rightarrow> Inr None
       | Some e \<Rightarrow>
           and_then (verify_provenance (sc_evidence cd) (fs_disk st) (path_join dist PROVENANCE_FILE) manifest
               (record_digest r) None) (\<lambda>_. Inr (Some e)))"

definition check_import_archive :: "store_codec \<Rightarrow> fs \<Rightarrow> string \<Rightarrow> artifact_record \<Rightarrow> unit res" where
  "check_import_archive cd st dist r =
     and_then (hash_file (sc_pull cd) st (path_join dist (record_archive r))) (\<lambda>(actual, actual_size).
       if actual \<noteq> record_digest r
       then Inl (with_hint ''re-run the package step to produce a consistent archive + manifest''
              (store_mismatch (''archive '' @ quoted (record_archive r) @ '' hashes to '' @ actual @
                '' but its manifest records '' @ record_digest r @ '' '' @ [CHR 0xE2, CHR 0x80, CHR 0x94] @
                '' the artifact was modified after packaging'')))
       else if actual_size \<noteq> record_archive_size r
       then Inl (store_mismatch (''archive '' @ quoted (record_archive r) @ '' is '' @ to_decimal actual_size @
              '' bytes but its manifest records '' @ to_decimal (record_archive_size r)))
       else Inr ())"

definition import_record_of ::
  "store_codec \<Rightarrow> fs \<Rightarrow> json \<Rightarrow> artifact_source \<Rightarrow> artifact_record res"
where
  "import_record_of cd st manifest source =
     from_producer_manifest (ev_reader (sc_evidence cd)) manifest source (fs_time st (fs_tick st) div 10 ^ 9)
       (''ost '' @ ev_version (sc_evidence cd))"

definition finish_source ::
  "store_codec \<Rightarrow> fs \<Rightarrow> string \<Rightarrow> string \<Rightarrow> json \<Rightarrow> artifact_record \<Rightarrow> debug_archive option
     \<Rightarrow> evidence_digest option \<Rightarrow> import_source res"
where
  "finish_source cd st dist bytes manifest r debug sbom =
     and_then (import_provenance cd st dist manifest r) (\<lambda>provenance.
     and_then (check_import_archive cd st dist r) (\<lambda>_.
     and_then (case debug of None \<Rightarrow> Inr () | Some b \<Rightarrow> verify_archive_claim cd st dist b) (\<lambda>_.
       Inr \<lparr> is_dist = dist, is_manifest_bytes = bytes,
             is_record = with_provenance provenance (with_sbom sbom r), is_debug = debug,
             is_sbom = sbom, is_provenance = provenance \<rparr>)))"

definition read_source ::
  "store_codec \<Rightarrow> fs \<Rightarrow> string \<Rightarrow> artifact_source \<Rightarrow> (import_source res) option"
where
  "read_source cd st path source =
     (case and_then (locate_manifest st path) (\<lambda>(dist, manifest_path).
           and_then (disk_read (fs_disk st) manifest_path) (\<lambda>bytes.
           and_then (map_err (Parse manifest_path) (ev_from_str (sc_evidence cd) bytes)) (\<lambda>manifest.
           and_then (import_record_of cd st manifest source) (\<lambda>r.
           and_then (manifest_debug_archive (ev_reader (sc_evidence cd)) manifest) (\<lambda>debug.
             Inr (dist, bytes, manifest, r, debug)))))) of
        Inl e \<Rightarrow> Some (Inl e)
      | Inr (dist, bytes, manifest, r, debug) \<Rightarrow>
          map_option (\<lambda>s. and_then s (finish_source cd st dist bytes manifest r debug))
            (import_sbom cd st dist r))"

section \<open>Importing a digest that is stored\<close>

definition option_conflict :: "bool \<Rightarrow> 'a option \<Rightarrow> 'a option \<Rightarrow> bool" where
  "option_conflict incoming_evidence stored incoming =
     (case (stored, incoming) of
        (Some a, Some b) \<Rightarrow> a \<noteq> b
      | (Some _, None) \<Rightarrow> incoming_evidence
      | _ \<Rightarrow> False)"

definition dependency_conflict ::
  "bool \<Rightarrow> dependency_identity list \<Rightarrow> dependency_identity list \<Rightarrow> bool"
where
  "dependency_conflict incoming_evidence stored incoming =
     (if stored = [] then False else if incoming = [] then incoming_evidence else stored \<noteq> incoming)"

definition identity_conflict :: "bool \<Rightarrow> artifact_record \<Rightarrow> artifact_record \<Rightarrow> bool" where
  "identity_conflict incoming_evidence existing r \<longleftrightarrow>
     option_conflict incoming_evidence (record_source_identity existing) (record_source_identity r)
     \<or> dependency_conflict incoming_evidence (record_dependencies existing) (record_dependencies r)
     \<or> option_conflict incoming_evidence (record_openusd existing) (record_openusd r)
     \<or> option_conflict incoming_evidence (record_openusd_verification existing) (record_openusd_verification r)"

definition newly :: "'a option \<Rightarrow> 'a option \<Rightarrow> bool" where
  "newly stored incoming \<longleftrightarrow> stored = None \<and> incoming \<noteq> None"

definition source_enrichment :: "artifact_record \<Rightarrow> artifact_record \<Rightarrow> bool" where
  "source_enrichment existing r = newly (record_source_identity existing) (record_source_identity r)"

definition dependency_enrichment :: "artifact_record \<Rightarrow> artifact_record \<Rightarrow> bool" where
  "dependency_enrichment existing r \<longleftrightarrow> record_dependencies existing = [] \<and> record_dependencies r \<noteq> []"

definition openusd_enrichment :: "artifact_record \<Rightarrow> artifact_record \<Rightarrow> bool" where
  "openusd_enrichment existing r = newly (record_openusd existing) (record_openusd r)"

definition verification_enrichment :: "artifact_record \<Rightarrow> artifact_record \<Rightarrow> bool" where
  "verification_enrichment existing r =
     newly (record_openusd_verification existing) (record_openusd_verification r)"

definition enrichment_requested :: "artifact_record \<Rightarrow> artifact_record \<Rightarrow> bool" where
  "enrichment_requested existing r \<longleftrightarrow>
     source_enrichment existing r \<or> dependency_enrichment existing r \<or> openusd_enrichment existing r
     \<or> verification_enrichment existing r"

definition enrichment_bound :: "bool \<Rightarrow> bool \<Rightarrow> artifact_record \<Rightarrow> artifact_record \<Rightarrow> bool" where
  "enrichment_bound sbom provenance existing r \<longleftrightarrow>
     (source_enrichment existing r \<longrightarrow> provenance) \<and> (dependency_enrichment existing r \<longrightarrow> sbom)
     \<and> \<not> openusd_enrichment existing r \<and> \<not> verification_enrichment existing r"

definition enrich :: "artifact_record \<Rightarrow> artifact_record \<Rightarrow> artifact_record" where
  "enrich existing r = existing
     \<lparr> record_source_identity := (if source_enrichment existing r then record_source_identity r
         else record_source_identity existing),
       record_dependencies := (if dependency_enrichment existing r then record_dependencies r
         else record_dependencies existing),
       record_openusd := (if openusd_enrichment existing r then record_openusd r else record_openusd existing),
       record_openusd_verification := (if verification_enrichment existing r then record_openusd_verification r
         else record_openusd_verification existing) \<rparr>"

definition conflict_error :: "artifact_record \<Rightarrow> error" where
  "conflict_error existing =
     with_hint (''the same archive digest cannot carry two producer identities; verify the '' @
         ''producer manifest and evidence'')
       (coded ''ARTIFACT_IDENTITY_CONFLICT'' Validation (''artifact '' @ short_digest existing @
         '' is already stored with different source, dependency, OpenUSD compatibility, or verification identity''))"

definition incomplete_error :: "artifact_record \<Rightarrow> error" where
  "incomplete_error existing =
     with_hint (''attach provenance for a new source identity and an SBOM for new dependency identities; '' @
         ''OpenUSD compatibility and verification enrichment require the original producer manifest'')
       (coded ''ARTIFACT_IDENTITY_EVIDENCE_INCOMPLETE'' Validation (''artifact '' @ short_digest existing @
         '' cannot enrich source, dependency, OpenUSD compatibility, or verification identity because the '' @
         ''incoming evidence does not bind every new field''))"

text \<open>The record after the identity rules, and whether it was enriched.\<close>

definition merge_identity ::
  "bool \<Rightarrow> import_source \<Rightarrow> artifact_record \<Rightarrow> (artifact_record \<times> bool) res"
where
  "merge_identity manifest_committed src existing =
     (let r = is_record src; sbom = (is_sbom src \<noteq> None); provenance = (is_provenance src \<noteq> None);
          incoming_evidence = (sbom \<or> provenance);
          requested = enrichment_requested existing r;
          bound = enrichment_bound sbom provenance existing r
      in if identity_conflict incoming_evidence existing r then Inl (conflict_error existing)
         else if \<not> manifest_committed \<and> incoming_evidence \<and> requested \<and> \<not> bound
         then Inl (incomplete_error existing)
         else if manifest_committed \<or> (requested \<and> bound) then Inr (enrich existing r, requested)
         else Inr (existing, False))"

definition materialize_debug_archive ::
  "store_codec \<Rightarrow> string \<Rightarrow> string \<Rightarrow> debug_archive \<Rightarrow> (error, unit) act"
where
  "materialize_debug_archive cd obj dist debug =
     (let destination = path_join obj (debug_archive_name debug);
          source = path_join dist (debug_archive_name debug);
          temp = (\<lambda>st. path_join obj (''.tmp-debug-'' @ to_decimal (fs_pid st) @ ''-'' @ debug_archive_name debug))
      in bind_act (\<lambda>st.
           if is_file st destination then (Inr (), st)
           else bind_act (io_at source (std_copy source (temp st))) (\<lambda>_ st.
                  case std_rename (temp st) destination st of
                    (Inl (_, e), st') \<Rightarrow> (Inl (Io destination e), snd (std_remove_file (temp st) st'))
                  | (Inr _, st') \<Rightarrow> (Inr (), st')) st) (\<lambda>_.
         reads (\<lambda>st. verify_archive_claim cd st obj debug)))"

definition write_sums :: "string \<Rightarrow> artifact_record \<Rightarrow> debug_archive option \<Rightarrow> (error, unit) act" where
  "write_sums obj r debug = write_atomic (path_join obj SUMS_FILE) (checksum_contents r debug)"

definition write_record :: "store_codec \<Rightarrow> string \<Rightarrow> artifact_record \<Rightarrow> (error, unit) act" where
  "write_record cd obj r =
     bind_act (pure (map_err (Parse ''artifact record'') (sc_record_json cd r))) (\<lambda>text.
       write_atomic (path_join obj RECORD_FILE) (text @ [CHR 0x0A]))"

text \<open>One sidecar: already bound and true, or copied into place and checked there.\<close>

definition attach_evidence ::
  "store_codec \<Rightarrow> string \<Rightarrow> string \<Rightarrow> evidence_digest option \<Rightarrow> string option
     \<Rightarrow> string list \<times> string list \<Rightarrow> (error, string list \<times> string list) act"
where
  "attach_evidence cd obj dist evidence stored_digest = (\<lambda>(attached, skipped) st.
     case evidence of
       None \<Rightarrow> (Inr (attached, skipped), st)
     | Some e \<Rightarrow>
         (let destination = path_join obj (evd_path e);
              source = path_join dist (evd_path e);
              temp = path_join obj (''.tmp-evidence-'' @ to_decimal (fs_pid st) @ ''-'' @ evd_path e)
          in if stored_digest = Some (evd_digest e) \<and> is_file st destination
             then bind_act (reads (\<lambda>st. verify_evidence_digest (sc_evidence cd) (fs_disk st) obj e)) (\<lambda>_.
                    pure (Inr (attached, skipped @ [evd_path e]))) st
             else bind_act (io_at source (std_copy source temp)) (\<lambda>_.
                  bind_act (\<lambda>st. case std_rename temp destination st of
                      (Inl (_, e), st') \<Rightarrow> (Inl (Io destination e), snd (std_remove_file temp st'))
                    | (Inr _, st') \<Rightarrow> (Inr (), st')) (\<lambda>_.
                  bind_act (reads (\<lambda>st. verify_evidence_digest (sc_evidence cd) (fs_disk st) obj e)) (\<lambda>_.
                    pure (Inr (attached @ [evd_path e], skipped))))) st))"

definition when_some :: "'a option \<Rightarrow> ('a \<Rightarrow> (error, unit) act) \<Rightarrow> (error, unit) act" where
  "when_some x f = (case x of None \<Rightarrow> pure (Inr ()) | Some v \<Rightarrow> f v)"

text \<open>The debug archive the manifest on disk promises.\<close>

definition committed_debug ::
  "store_codec \<Rightarrow> bool \<Rightarrow> import_source \<Rightarrow> string \<Rightarrow> string \<Rightarrow> (debug_archive option) res"
where
  "committed_debug cd manifest_committed src stored_path stored_manifest =
     (if manifest_committed then Inr (is_debug src)
      else and_then (map_err (Parse stored_path) (ev_from_str (sc_evidence cd) stored_manifest)) (\<lambda>stored.
             manifest_debug_archive (ev_reader (sc_evidence cd)) stored))"

definition merge_evidence :: "import_source \<Rightarrow> artifact_record \<Rightarrow> artifact_record" where
  "merge_evidence src existing =
     (let r = is_record src;
          e = (if is_sbom src = None then existing
               else existing\<lparr>record_sbom := record_sbom r, record_sbom_digest := record_sbom_digest r,
                             record_sbom_size := record_sbom_size r\<rparr>)
      in if is_provenance src = None then e
         else e\<lparr>record_provenance := record_provenance r, record_provenance_digest := record_provenance_digest r,
                record_provenance_size := record_provenance_size r\<rparr>)"

definition import_existing ::
  "store_codec \<Rightarrow> string \<Rightarrow> import_source \<Rightarrow> (error, import_outcome) act"
where
  "import_existing cd root src =
     (let obj = object_dir root (digest_hex (is_record src));
          stored_path = path_join obj MANIFEST_FILE in
      bind_act (reads (\<lambda>st. read_record cd st obj)) (\<lambda>stored.
      bind_act (reads (\<lambda>st. disk_read (fs_disk st) stored_path)) (\<lambda>stored_manifest.
        let committed = (stored_manifest = is_manifest_bytes src) in
      bind_act (pure (merge_identity committed src stored)) (\<lambda>(existing, enriched).
      bind_act (if committed
          then when_some (is_debug src) (\<lambda>debug.
                 bind_act (materialize_debug_archive cd obj (is_dist src) debug) (\<lambda>_.
                   write_sums obj existing (Some debug)))
          else pure (Inr ())) (\<lambda>_.
      bind_act (attach_evidence cd obj (is_dist src) (is_sbom src) (record_sbom_digest existing) ([], [])) (\<lambda>done.
      bind_act (attach_evidence cd obj (is_dist src) (is_provenance src) (record_provenance_digest existing) done)
        (\<lambda>(attached, skipped).
        let commits = ((PROVENANCE_FILE \<in> set attached \<or> enriched) \<and> \<not> committed) in
      bind_act (if commits
          then bind_act (when_some (is_debug src) (materialize_debug_archive cd obj (is_dist src))) (\<lambda>_.
                 write_atomic stored_path (is_manifest_bytes src))
          else pure (Inr ())) (\<lambda>_.
        let committed_now = (committed \<or> commits);
            updated = (if attached \<noteq> [] \<or> enriched then merge_evidence src existing else existing) in
      bind_act (if attached \<noteq> [] \<or> enriched
          then bind_act (write_record cd obj updated) (\<lambda>_.
               bind_act (pure (committed_debug cd committed_now src stored_path stored_manifest)) (\<lambda>debug.
                 write_sums obj updated debug))
          else pure (Inr ())) (\<lambda>_.
      bind_act (index_upsert cd root updated) (\<lambda>_.
        pure (Inr \<lparr> import_record = updated, import_already_present = True,
                    import_attached = attached, import_skipped = skipped \<rparr>)))))))))))"

section \<open>Importing a new digest\<close>

definition evidence_list :: "import_source \<Rightarrow> evidence_digest list" where
  "evidence_list src = List.map_filter id [is_sbom src, is_provenance src]"

fun copy_evidence :: "string \<Rightarrow> string \<Rightarrow> evidence_digest list \<Rightarrow> (error, unit) act" where
  "copy_evidence dist staging [] = pure (Inr ())"
| "copy_evidence dist staging (e # es) =
     (let source = path_join dist (evd_path e)
      in bind_act (io_at source (std_copy source (path_join staging (evd_path e)))) (\<lambda>_.
           copy_evidence dist staging es))"

definition stage_files :: "store_codec \<Rightarrow> string \<Rightarrow> import_source \<Rightarrow> (error, unit) act" where
  "stage_files cd staging src =
     (let r = is_record src; archive = path_join (is_dist src) (record_archive r) in
      bind_act (io_at archive (std_copy archive (path_join staging (record_archive r)))) (\<lambda>_.
      bind_act (write_atomic (path_join staging MANIFEST_FILE) (is_manifest_bytes src)) (\<lambda>_.
      bind_act (when_some (is_debug src) (\<lambda>debug.
          let source = path_join (is_dist src) (debug_archive_name debug)
          in io_at source (std_copy source (path_join staging (debug_archive_name debug))))) (\<lambda>_.
      bind_act (copy_evidence (is_dist src) staging (evidence_list src)) (\<lambda>_.
      bind_act (write_sums staging r (is_debug src)) (\<lambda>_.
        write_record cd staging r))))))"

definition staging_dir :: "string \<Rightarrow> string \<Rightarrow> nat \<Rightarrow> string" where
  "staging_dir root hex pid = path_join (objects_dir root) (''.tmp-'' @ take 12 hex @ ''-'' @ to_decimal pid)"

definition clear_staging :: "string \<Rightarrow> (error, unit) act" where
  "clear_staging staging =
     bind_act (\<lambda>st. if path_exists st staging then io_at staging (std_remove_dir_all staging) st else (Inr (), st))
       (\<lambda>_. io_at staging (std_create_dir_all staging))"

definition stage_object :: "store_codec \<Rightarrow> string \<Rightarrow> import_source \<Rightarrow> (error, unit) act" where
  "stage_object cd staging src st =
     (case stage_files cd staging src st of
        (Inl e, st') \<Rightarrow> (Inl e, snd (std_remove_dir_all staging st'))
      | (Inr _, st') \<Rightarrow> (Inr (), st'))"

text \<open>A concurrent import of the digest that landed first is a success.\<close>

definition publish_object :: "string \<Rightarrow> string \<Rightarrow> (error, unit) act" where
  "publish_object staging obj st =
     (case std_rename staging obj st of
        (Inr _, st') \<Rightarrow> (Inr (), st')
      | (Inl (_, e), st') \<Rightarrow>
          (let st'' = snd (std_remove_dir_all staging st')
           in (if is_file st'' (path_join obj RECORD_FILE) then Inr () else Inl (Io obj e), st'')))"

definition import_fresh ::
  "store_codec \<Rightarrow> string \<Rightarrow> import_source \<Rightarrow> (error, import_outcome) act"
where
  "import_fresh cd root src st =
     (let hex = digest_hex (is_record src); obj = object_dir root hex; staging = staging_dir root hex (fs_pid st) in
      bind_act (clear_staging staging) (\<lambda>_.
      bind_act (stage_object cd staging src) (\<lambda>_.
      bind_act (publish_object staging obj) (\<lambda>_.
      bind_act (index_upsert cd root (is_record src)) (\<lambda>_.
        pure (Inr \<lparr> import_record = is_record src, import_already_present = False,
                    import_attached = map evd_path (evidence_list src), import_skipped = [] \<rparr>))))) st)"

definition store_import ::
  "store_codec \<Rightarrow> string \<Rightarrow> string \<Rightarrow> artifact_source \<Rightarrow> fs \<Rightarrow> (import_outcome res \<times> fs) option"
where
  "store_import cd root path source st =
     (case read_source cd st path source of
        None \<Rightarrow> None
      | Some (Inl e) \<Rightarrow> Some (Inl e, st)
      | Some (Inr src) \<Rightarrow>
          Some (if is_file st (path_join (object_dir root (digest_hex (is_record src))) RECORD_FILE)
                then import_existing cd root src st else import_fresh cd root src st))"

section \<open>Removing, exporting, extracting, verifying\<close>

definition remove_object :: "string \<Rightarrow> (error, unit) act" where
  "remove_object obj st =
     (case std_remove_dir_all obj st of
        (Inr _, st') \<Rightarrow> (Inr (), st')
      | (Inl (kind, e), st') \<Rightarrow> (if kind = NotFound then Inr () else Inl (Io obj e), st'))"

definition store_remove :: "store_codec \<Rightarrow> string \<Rightarrow> string \<Rightarrow> (error, artifact_record) act" where
  "store_remove cd root digest_ref =
     bind_act (reads (\<lambda>st. store_resolve cd st root digest_ref)) (\<lambda>r.
     bind_act (reads (\<lambda>st. read_index cd st root)) (\<lambda>index.
     bind_act (write_index cd root
         (index\<lparr>index_artifacts := without_digest (record_digest r) (index_artifacts index)\<rparr>)) (\<lambda>_.
     bind_act (remove_object (object_dir root (digest_hex r))) (\<lambda>_. pure (Inr r)))))"

fun copy_out :: "string \<Rightarrow> string \<Rightarrow> string list \<Rightarrow> string list \<Rightarrow> (error, string list) act" where
  "copy_out obj dest [] written = pure (Inr written)"
| "copy_out obj dest (name # names) written =
     (let src = path_join obj name; dst = path_join dest name
      in (\<lambda>st. if path_exists st dst
           then (Inl (usage (''refusing to overwrite existing '' @ quoted dst @ '' '' @
                   [CHR 0xE2, CHR 0x80, CHR 0x94] @ '' export into an empty directory'')), st)
           else bind_act (io_at src (std_copy src dst)) (\<lambda>_. copy_out obj dest names (written @ [dst])) st))"

definition corrupted :: "artifact_record \<Rightarrow> string \<Rightarrow> error" where
  "corrupted r actual =
     with_hint ''re-import the artifact from its original producer output''
       (store_mismatch (''stored archive for '' @ short_digest r @ '' hashes to '' @ actual @ '' '' @
         [CHR 0xE2, CHR 0x80, CHR 0x94] @ '' the local store is corrupted''))"

definition export_names ::
  "artifact_record \<Rightarrow> debug_archive option \<Rightarrow> evidence_digest option \<Rightarrow> evidence_digest option \<Rightarrow> string list"
where
  "export_names r debug sbom provenance =
     [record_archive r] @ List.map_filter (map_option debug_archive_name) [debug]
     @ List.map_filter (map_option evd_path) [sbom, provenance] @ [MANIFEST_FILE, SUMS_FILE, RECORD_FILE]"

definition check_export ::
  "store_codec \<Rightarrow> fs \<Rightarrow> string \<Rightarrow> artifact_record \<Rightarrow> debug_archive option \<Rightarrow> evidence_digest list \<Rightarrow> unit res"
where
  "check_export cd st dest r debug evidence =
     and_then (hash_file (sc_pull cd) st (path_join dest (record_archive r))) (\<lambda>(actual, _).
       if actual \<noteq> record_digest r then Inl (corrupted r actual)
       else and_then (case debug of None \<Rightarrow> Inr () | Some b \<Rightarrow> verify_archive_claim cd st dest b) (\<lambda>_.
              for_each (verify_evidence_digest (sc_evidence cd) (fs_disk st) dest) evidence))"

definition store_export ::
  "store_codec \<Rightarrow> string \<Rightarrow> string \<Rightarrow> string \<Rightarrow> (error, artifact_record \<times> string list) act"
where
  "store_export cd root digest_ref dest =
     bind_act (reads (\<lambda>st. store_resolve cd st root digest_ref)) (\<lambda>r.
     bind_act (reads (\<lambda>st. producer_manifest cd st root r)) (\<lambda>manifest.
     bind_act (pure (manifest_debug_archive (ev_reader (sc_evidence cd)) manifest)) (\<lambda>debug.
     bind_act (pure (stored_evidence r)) (\<lambda>(sbom, provenance).
     bind_act (io_at dest (std_create_dir_all dest)) (\<lambda>_.
     bind_act (copy_out (object_dir root (digest_hex r)) dest (export_names r debug sbom provenance) [])
       (\<lambda>written.
     bind_act (reads (\<lambda>st. check_export cd st dest r debug (List.map_filter id [sbom, provenance]))) (\<lambda>_.
       pure (Inr (r, written)))))))))"

text \<open>An extraction destination is absent or an empty directory.\<close>

definition prepare_destination :: "store_codec \<Rightarrow> string \<Rightarrow> (error, unit) act" where
  "prepare_destination cd dest st =
     (if path_exists st dest
      then (if \<not> is_dir st dest
            then Inl (usage (''extract destination '' @ quoted dest @ '' exists but is not a directory''))
            else case sc_listing cd st dest of
                   Inl e \<Rightarrow> Inl (Io dest e)
                 | Inr [] \<Rightarrow> Inr ()
                 | Inr (Inl e # _) \<Rightarrow> Inl (Io dest e)
                 | Inr (Inr _ # _) \<Rightarrow>
                     Inl (usage (''refusing to extract into non-empty directory '' @ quoted dest)), st)
      else io_at dest (std_create_dir_all dest) st)"

definition unsafe_entries_error :: "string \<Rightarrow> string list \<Rightarrow> error" where
  "unsafe_entries_error archive bad =
     coded ''ARTIFACT_UNSAFE_ENTRY'' Validation
       (''archive '' @ quoted archive @ '' contains '' @ to_decimal (length bad) @ '' entr'' @
        (if length bad = 1 then ''y'' else ''ies'') @ '' unsafe to extract: '' @ join ''; '' bad)"

definition extract_archive ::
  "store_codec \<Rightarrow> string \<Rightarrow> string \<Rightarrow> string \<Rightarrow> (error, unit) act"
where
  "extract_archive cd archive expected dest =
     bind_act (reads (\<lambda>st. hash_file (sc_pull cd) st archive)) (\<lambda>(actual, _).
       if actual \<noteq> expected
       then pure (Inl (with_hint (''the archive is corrupt or was modified after it was built '' @
                [CHR 0xE2, CHR 0x80, CHR 0x94] @ '' repackage it'')
              (store_mismatch (''archive '' @ quoted archive @ '' hashes to '' @ actual @ '', expected '' @ expected))))
       else
     bind_act (prepare_destination cd dest) (\<lambda>_.
     bind_act (reads (\<lambda>st. scan_unsafe_entries archive (decoded_archive (sc_pull cd) st archive))) (\<lambda>bad.
       if bad \<noteq> [] then pure (Inl (unsafe_entries_error archive bad))
       else
     bind_act (reads (\<lambda>st. disk_read (fs_disk st) archive)) (\<lambda>bytes st.
       case sc_unpack cd bytes dest st of
         (Inl e, st') \<Rightarrow> (Inl (Io dest e), st')
       | (Inr _, st') \<Rightarrow> (Inr (), st')))))"

definition store_extract ::
  "store_codec \<Rightarrow> string \<Rightarrow> string \<Rightarrow> string \<Rightarrow> (error, artifact_record) act"
where
  "store_extract cd root digest_ref dest =
     bind_act (reads (\<lambda>st. store_resolve cd st root digest_ref)) (\<lambda>r.
     bind_act (extract_archive cd (archive_path root r) (record_digest r) dest) (\<lambda>_. pure (Inr r)))"

definition store_verify :: "store_codec \<Rightarrow> fs \<Rightarrow> string \<Rightarrow> string \<Rightarrow> verify_report res" where
  "store_verify cd st root digest_ref =
     and_then (store_resolve cd st root digest_ref) (\<lambda>r.
       let obj = object_dir root (digest_hex r); archive = path_join obj (record_archive r) in
     and_then (hash_file (sc_pull cd) st archive) (\<lambda>(actual, _).
       if actual \<noteq> record_digest r
       then Inr \<lparr> report_digest = record_digest r, report_digest_ok = False, report_matched = 0,
                  report_mismatched = [], report_missing = [], report_extra = [] \<rparr>
       else
     and_then (read_json cd st (path_join obj MANIFEST_FILE)) (\<lambda>manifest.
     and_then (manifest_files (ev_reader (sc_evidence cd)) manifest) (\<lambda>expected.
     and_then (walk_archive (pc_sha (sc_pull cd)) archive (decoded_archive (sc_pull cd) st archive)) (\<lambda>walked.
       let c = compare_archive_files (walk_files walked) expected
       in Inr \<lparr> report_digest = record_digest r, report_digest_ok = True, report_matched = cmp_matched c,
                report_mismatched = cmp_mismatched c, report_missing = cmp_missing c,
                report_extra = cmp_extra c \<rparr>)))))"

end
