(* ===== verification/StoreImports.thy ===== *)
theory StoreImports
  imports ArtifactStore
begin

text \<open>
  The import of a new digest into the artifact store: what its operations leave alone, and that
  it publishes whole objects only, whatever fails and whenever the process dies.
\<close>

section \<open>Frames\<close>

text \<open>
  A relation between the states before and after an operation that composes: what is proved of
  the operations of the operating system carries over to everything built from them.
\<close>

definition along :: "(fs \<Rightarrow> fs \<Rightarrow> bool) \<Rightarrow> (fs \<Rightarrow> 'r \<times> fs) \<Rightarrow> bool" where
  "along rel m \<longleftrightarrow> (\<forall>st. rel st (snd (m st)))"

named_theorems frame_rules "what an operation leaves alone"

locale frame =
  fixes rel :: "fs \<Rightarrow> fs \<Rightarrow> bool"
  assumes rel_refl: "rel st st"
    and rel_trans: "rel st st' \<Longrightarrow> rel st' st'' \<Longrightarrow> rel st st''"
begin

lemma along_pure: "along rel (pure r)"
  by (simp add: along_def pure_def rel_refl)

lemma along_reads: "along rel (reads f)"
  by (simp add: along_def reads_def rel_refl)

lemma along_io_at: "along rel m \<Longrightarrow> along rel (io_at p m)"
  by (simp add: along_def snd_io_at)

lemma along_bind:
  assumes "along rel m" "\<And>x. along rel (k x)"
  shows "along rel (bind_act m k)"
proof -
  have "rel st (snd (bind_act m k st))" for st
  proof (cases "m st")
    case (Pair r st')
    then have first: "rel st st'" using assms(1) by (auto simp: along_def dest: spec [of _ st])
    then show ?thesis
      using Pair rel_trans [OF first] assms(2) by (cases r) (simp_all add: bind_act_def along_def)
  qed
  then show ?thesis by (simp add: along_def)
qed

lemma along_when_some: "(\<And>x. v = Some x \<Longrightarrow> along rel (f x)) \<Longrightarrow> along rel (when_some v f)"
  by (cases v) (simp_all add: when_some_def along_pure)

lemma along_if: "along rel a \<Longrightarrow> along rel b \<Longrightarrow> along rel (if c then a else b)"
  by simp

lemma along_then: "along rel m \<Longrightarrow> m st = (r, st') \<Longrightarrow> rel st' st'' \<Longrightarrow> rel st st''"
  using rel_trans by (auto simp: along_def dest: spec [of _ st])

end

text \<open>
  Outside of \<open>P\<close>, what exists stays as it is, and what appears is a directory or a temporary
  file.
\<close>

definition stays :: "(string \<Rightarrow> bool) \<Rightarrow> fs \<Rightarrow> fs \<Rightarrow> bool" where
  "stays P st st' \<longleftrightarrow> fs_env st' = fs_env st
     \<and> (\<forall>q. \<not> P q \<longrightarrow> node st' q = node st q
          \<or> node st q = None \<and> (node st' q = Some Dir \<or> ends_with ''.tmp'' q))"

interpretation stays: frame "stays P"
proof
  show "stays P st st" for st by (simp add: stays_def)
  show "stays P st st''" if "stays P st st'" "stays P st' st''" for st st' st''
    unfolding stays_def
  proof (intro conjI allI impI)
    show "fs_env st'' = fs_env st" using that by (simp add: stays_def)
    fix q
    assume "\<not> P q"
    then have "node st' q = node st q \<or> node st q = None \<and> (node st' q = Some Dir \<or> ends_with ''.tmp'' q)"
      "node st'' q = node st' q \<or> node st' q = None \<and> (node st'' q = Some Dir \<or> ends_with ''.tmp'' q)"
      using that by (simp_all add: stays_def)
    then show "node st'' q = node st q \<or> node st q = None \<and> (node st'' q = Some Dir \<or> ends_with ''.tmp'' q)"
      by (cases "node st q") auto
  qed
qed

lemmas [frame_rules] = stays.along_pure stays.along_reads stays.along_io_at stays.along_bind
  stays.along_when_some stays.along_if

lemma stays_mono: "stays P st st' \<Longrightarrow> (\<And>q. P q \<Longrightarrow> Q q) \<Longrightarrow> stays Q st st'"
  by (auto simp: stays_def)

lemma stays_node: "stays P st st' \<Longrightarrow> node st q = Some n \<Longrightarrow> \<not> P q \<Longrightarrow> node st' q = Some n"
  by (auto simp: stays_def)

lemma stays_no_file:
  "stays P st st' \<Longrightarrow> \<not> P q \<Longrightarrow> \<not> ends_with ''.tmp'' q \<Longrightarrow> is_file st' q \<Longrightarrow> is_file st q"
  by (fastforce simp: stays_def is_file_def split: option.splits node.splits)

lemma stays_env: "stays P st st' \<Longrightarrow> fs_env st' = fs_env st"
  by (simp add: stays_def)

lemma touched_stays: "touched P st st' \<Longrightarrow> stays P st st'"
  by (auto simp: touched_def stays_def)

lemma along_touches: "touches P m \<Longrightarrow> along (stays P) m"
  by (simp add: touches_def along_def touched_stays)

lemma along_mono: "along (stays P) m \<Longrightarrow> (\<And>q. P q \<Longrightarrow> Q q) \<Longrightarrow> along (stays Q) m"
  unfolding along_def by (rule allI, rule stays_mono, erule spec) blast

lemma temp_of_tmp: "temp_of path q \<Longrightarrow> ends_with ''.tmp'' q"
proof -
  assume "temp_of path q"
  then obtain token where q: "q = path_join (parent_or_here path) (temp_name (name_or ''tmp'' path) token)"
    by (auto simp: temp_of_def)
  obtain a where "q = a @ temp_name (name_or ''tmp'' path) token"
    unfolding q path_join_def by (metis append.assoc append_Nil)
  then have "q = (a @ ''.'' @ name_or ''tmp'' path @ ''.ost-'' @ hex16 token) @ ''.tmp''"
    by (simp add: temp_name_def)
  then show ?thesis unfolding ends_with_suffix suffix_def by blast
qed

lemma along_create_dirs: "along (stays P) (create_dirs ps)"
proof -
  have "touches (\<lambda>q. q \<in> set ps) (create_dirs ps)" for ps
  proof (induction ps)
    case (Cons p ps)
    have "touches (\<lambda>q. q \<in> set (p # ps)) (bind_act (std_create_dir p) (\<lambda>_. create_dirs ps))"
      using Cons.IH by (intro touch_rules touches_mono [OF Cons.IH]) auto
    moreover have "touches (\<lambda>q. q \<in> set (p # ps)) (create_dirs ps)"
      by (rule touches_mono [OF Cons.IH]) auto
    ultimately show ?case by (simp add: touches_def)
  qed (simp add: touches_def)
  then have env: "fs_env (snd (create_dirs ps st)) = fs_env st" for ps st
    by (simp add: touches_def touched_def)
  have nodes: "node st' q = node st q \<or> node st q = None \<and> node st' q = Some Dir"
    if "create_dirs ps st = (r, st')" for st r st' q ps
    using that
  proof (induction ps arbitrary: st)
    case (Cons p ps)
    show ?case
    proof (cases "is_dir st p")
      case True
      then show ?thesis using Cons by simp
    next
      case False
      obtain s st1 where run: "std_create_dir p st = (s, st1)" by (cases "std_create_dir p st")
      then show ?thesis
        using Cons.prems Cons.IH [of st1] False create_dir_cases [OF run]
        by (cases s) (auto simp: bind_act_def path_exists_def split: if_splits)
    qed
  qed simp
  have "node (snd (create_dirs ps st)) q = node st q
      \<or> node st q = None \<and> node (snd (create_dirs ps st)) q = Some Dir" for st q
    by (rule nodes [of ps st "fst (create_dirs ps st)"]) simp
  then show ?thesis
    unfolding along_def stays_def env by blast
qed

lemma touches_create_temp: "touches (\<lambda>_. True) (create_temp n dir name last_err)"
proof (induction n arbitrary: last_err)
  case (Suc n)
  show ?case
    unfolding touches_def
  proof
    fix st
    let ?tmp = "path_join dir (temp_name name (random_token st))"
    obtain s st1 where run: "std_create_new ?tmp st = (s, st1)" by (cases "std_create_new ?tmp st")
    have "touches (\<lambda>_. True) (std_create_new ?tmp)"
      by (intro touch_rules TrueI)
    from touchesD [OF this run] have first: "touched (\<lambda>_. True) st st1" .
    have "touched (\<lambda>_. True) st (snd (create_temp n dir name e st1))" for e
      using Suc touched_trans [OF first] by (simp add: touches_def)
    then show "touched (\<lambda>_. True) st (snd (create_temp (Suc n) dir name last_err st))"
      using run first by (auto simp: Let_def split: sum.split)
  qed
qed (simp add: touches_def)

lemma touches_finish_write: "touches (\<lambda>_. True) (finish_write path contents tmp)"
  unfolding touches_def
proof
  fix st
  obtain w st1 where first: "bind_act (std_write tmp contents) (\<lambda>_. std_sync) st = (w, st1)"
    by (cases "bind_act (std_write tmp contents) (\<lambda>_. std_sync) st")
  have "touches (\<lambda>_. True) (bind_act (std_write tmp contents) (\<lambda>_. std_sync))"
    by (intro touch_rules TrueI)
  from touchesD [OF this first] have a: "touched (\<lambda>_. True) st st1" .
  obtain v st2 where last: "std_rename tmp path st1 = (v, st2)" by (cases "std_rename tmp path st1")
  have "touches (\<lambda>_. True) (std_rename tmp path)"
    by (intro touch_rules TrueI)
  from touched_trans [OF a touchesD [OF this last]] have b: "touched (\<lambda>_. True) st st2" .
  have c: "touched (\<lambda>_. True) st3 (snd (std_remove_file tmp st3))" for st3
    using touches_std(5) [of "\<lambda>_. True" tmp] by (simp add: touches_def)
  show "touched (\<lambda>_. True) st (snd (finish_write path contents tmp st))"
    using first last a b touched_trans [OF a c] touched_trans [OF b c]
    by (auto simp: finish_write_def split: sum.split)
qed

lemma touches_write_atomic: "touches (\<lambda>_. True) (write_atomic path s)"
proof -
  have "touches (\<lambda>_. True) (bind_act (create_temp MAX_TEMP_ATTEMPTS (parent_or_here path) (name_or ''tmp'' path) None)
      (finish_write path s))"
    by (intro touch_rules touches_create_temp touches_finish_write)
  then show ?thesis by (simp add: touches_def write_atomic_finish)
qed

lemma along_write_atomic: "P path \<Longrightarrow> along (stays P) (write_atomic path s)"
  unfolding along_def
proof
  fix st
  assume "P path"
  obtain r st' where run: "write_atomic path s st = (r, st')" by (cases "write_atomic path s st")
  have env: "fs_env st' = fs_env st"
    using touchesD [OF touches_write_atomic run] by (simp add: touched_def)
  have others: "node st' q = node st q \<or> temp_of path q \<and> node st q = None" if "q \<noteq> path" for q
    using write_atomic_result [OF run] that by simp
  have "node st' q = node st q \<or> node st q = None \<and> (node st' q = Some Dir \<or> ends_with ''.tmp'' q)"
    if "\<not> P q" for q
  proof -
    have "q \<noteq> path" using that \<open>P path\<close> by blast
    from others [OF this] show ?thesis using temp_of_tmp [of path q] by metis
  qed
  then show "stays P st (snd (write_atomic path s st))"
    using run env by (simp add: stays_def)
qed

lemma along_std:
  "P p \<Longrightarrow> along (stays P) (std_copy src p)"
  "(\<And>q. within p q \<Longrightarrow> P q) \<Longrightarrow> along (stays P) (std_remove_dir_all p)"
  "along (stays P) (std_create_dir_all p)"
  unfolding std_create_dir_all_def
  by (intro along_touches touch_rules along_create_dirs; simp add: within_def)+

lemmas [frame_rules] = along_std along_write_atomic

section \<open>Paths of the store\<close>

definition plain_name :: "string \<Rightarrow> bool" where
  "plain_name x \<longleftrightarrow> x \<noteq> [] \<and> CHR ''/'' \<notin> set x"

lemma plain_name_join:
  assumes "plain_name x"
  shows "path_join d x = (if d = [] \<or> ends_with ''/'' d then d @ x else d @ ''/'' @ x)"
  using assms by (cases x) (auto simp: plain_name_def path_join_def is_absolute_def starts_with_def)

lemma ends_with_last: "ends_with [c] s \<longleftrightarrow> s \<noteq> [] \<and> last s = c"
  by (cases s rule: rev_cases) (auto simp: ends_with_suffix suffix_def)

lemma join_inject: "plain_name x \<Longrightarrow> plain_name y \<Longrightarrow> path_join d x = path_join d y \<longleftrightarrow> x = y"
  by (simp add: plain_name_join)

lemma join_plain: "plain_name x \<Longrightarrow> path_join d x \<noteq> [] \<and> \<not> ends_with ''/'' (path_join d x)"
  by (auto simp: plain_name_join ends_with_last plain_name_def) (metis last_in_set)+

text \<open>A directory below another, and its files.\<close>

lemma join_join: "plain_name x \<Longrightarrow> plain_name y \<Longrightarrow> path_join (path_join d x) y = path_join d x @ ''/'' @ y"
  using join_plain [of x d] by (simp add: plain_name_join [of y])

lemma below_join: "plain_name x \<Longrightarrow> plain_name y \<Longrightarrow> below (path_join d x) (path_join (path_join d x) y) = Some y"
  by (simp add: join_join below_Some)

lemma plain_archive: "is_plain_archive_filename x \<Longrightarrow> plain_name x"
  by (simp add: is_plain_archive_filename_def plain_name_def)

lemma plain_names [simp]:
  "plain_name MANIFEST_FILE" "plain_name SUMS_FILE" "plain_name RECORD_FILE" "plain_name SBOM_FILE"
  "plain_name PROVENANCE_FILE" "plain_name INDEX_FILE" "plain_name ''objects''" "plain_name ''sha256''"
  by code_simp+

section \<open>Whole objects\<close>

text \<open>The files an import promises, with the digests and sizes it claims for them.\<close>

definition promised :: "import_source \<Rightarrow> (string \<times> string \<times> nat) list" where
  "promised src =
     (record_archive (is_record src), record_digest (is_record src), record_archive_size (is_record src))
     # (case is_debug src of None \<Rightarrow> []
        | Some b \<Rightarrow> [(debug_archive_name b, debug_digest b, debug_archive_size b)])
     @ map (\<lambda>e. (evd_path e, evd_digest e, evd_size e)) (evidence_list src)"

definition file_is :: "store_codec \<Rightarrow> fs \<Rightarrow> string \<Rightarrow> string \<Rightarrow> nat \<Rightarrow> bool" where
  "file_is cd st path digest n \<longleftrightarrow>
     (case node st path of
        Some (Bytes s) \<Rightarrow> sha256_hex (pc_sha (sc_pull cd)) (str_bytes s) = digest \<and> length s = n
      | _ \<Rightarrow> False)"

definition holds_promised :: "store_codec \<Rightarrow> fs \<Rightarrow> string \<Rightarrow> import_source \<Rightarrow> bool" where
  "holds_promised cd st dir src \<longleftrightarrow>
     list_all (\<lambda>(name, digest, n). file_is cd st (path_join dir name) digest n) (promised src)"

definition object_whole :: "store_codec \<Rightarrow> fs \<Rightarrow> string \<Rightarrow> import_source \<Rightarrow> bool" where
  "object_whole cd st dir src \<longleftrightarrow>
     holds_promised cd st dir src
     \<and> node st (path_join dir MANIFEST_FILE) = Some (Bytes (is_manifest_bytes src))
     \<and> node st (path_join dir SUMS_FILE) = Some (Bytes (checksum_contents (is_record src) (is_debug src)))
     \<and> (case sc_record_json cd (is_record src) of
          Inl _ \<Rightarrow> False
        | Inr json \<Rightarrow> node st (path_join dir RECORD_FILE) = Some (Bytes (json @ [CHR 0x0A])))"

text \<open>No promised file has the name of another, or of a file the store writes itself.\<close>

definition names_apart :: "import_source \<Rightarrow> bool" where
  "names_apart src \<longleftrightarrow> distinct (map fst (promised src) @ [MANIFEST_FILE, SUMS_FILE, RECORD_FILE])"

lemma bind_act_Inr:
  "bind_act m k st = (Inr x, st') \<longleftrightarrow> (\<exists>y st1. m st = (Inr y, st1) \<and> k y st1 = (Inr x, st'))"
  by (auto simp: bind_act_def split: prod.splits sum.splits)

lemma io_at_Inr: "io_at p m st = (Inr x, st') \<longleftrightarrow> m st = (Inr x, st')"
  by (auto simp: io_at_def split: prod.splits sum.splits)

lemma pure_Inr: "pure r st = (Inr x, st') \<longleftrightarrow> r = Inr x \<and> st' = st"
  by (auto simp: pure_def)

lemma reads_Inr: "reads f st = (Inr x, st') \<longleftrightarrow> f st = Inr x \<and> st' = st"
  by (auto simp: reads_def)

lemmas act_simps = bind_act_Inr io_at_Inr pure_Inr reads_Inr

lemma std_copy_ok:
  assumes "std_copy src dst st = (Inr u, st')"
  shows "\<exists>s. node st src = Some (Bytes s) \<and> node st' dst = Some (Bytes s)"
  using assms unfolding std_copy_def
  by (auto elim!: guarded_Inr simp: write_node_def std_read_def fs_simps split: if_splits sum.splits option.splits node.splits)

lemma std_copy_file: "std_copy src dst st = (Inr u, st') \<Longrightarrow> file_is cd st src d n \<Longrightarrow> file_is cd st' dst d n"
  by (drule std_copy_ok) (auto simp: file_is_def)

lemma write_atomic_ok: "write_atomic path s st = (Inr u, st') \<Longrightarrow> node st' path = Some (Bytes s)"
  by (drule write_atomic_result) simp

lemma file_is_stays: "file_is cd st path d n \<Longrightarrow> stays P st st' \<Longrightarrow> \<not> P path \<Longrightarrow> file_is cd st' path d n"
  by (auto simp: file_is_def stays_def split: option.splits node.splits)

lemma stays_step: "along (stays P) m \<Longrightarrow> m st = (r, st') \<Longrightarrow> stays P st st'"
  by (auto simp: along_def dest: spec [of _ st])

definition files_of :: "string \<Rightarrow> string list \<Rightarrow> string \<Rightarrow> bool" where
  "files_of dir names q \<longleftrightarrow> (\<exists>x \<in> set names. q = path_join dir x)"

lemma files_of_join:
  "plain_name x \<Longrightarrow> \<forall>y \<in> set names. plain_name y \<Longrightarrow> files_of dir names (path_join dir x) \<longleftrightarrow> x \<in> set names"
  by (auto simp: files_of_def join_inject)

lemma along_copy_evidence: "along (stays (files_of dir (map evd_path es))) (copy_evidence dist dir es)"
proof (induction es)
  case (Cons e es)
  have "along (stays (files_of dir (map evd_path (e # es)))) (copy_evidence dist dir es)"
    by (rule along_mono [OF Cons.IH]) (auto simp: files_of_def)
  then have "along (stays (files_of dir (map evd_path (e # es))))
      (bind_act (io_at (path_join dist (evd_path e)) (std_copy (path_join dist (evd_path e)) (path_join dir (evd_path e))))
        (\<lambda>_. copy_evidence dist dir es))"
    by (intro frame_rules) (auto simp: files_of_def)
  then show ?case by (simp add: Let_def)
qed (auto intro: frame_rules)

lemma copy_evidence_ok:
  assumes "copy_evidence dist dir es st = (Inr u, st')" "distinct (map evd_path es)"
    and "\<forall>e \<in> set es. plain_name (evd_path e) \<and> \<not> within dir (path_join dist (evd_path e))
      \<and> file_is cd st (path_join dist (evd_path e)) (evd_digest e) (evd_size e)"
    and "dir \<noteq> []" "\<not> ends_with ''/'' dir"
  shows "\<forall>e \<in> set es. file_is cd st' (path_join dir (evd_path e)) (evd_digest e) (evd_size e)"
  using assms
proof (induction es arbitrary: st)
  case (Cons e es)
  have inside: "within dir (path_join dir (evd_path x))" if "x \<in> set (e # es)" for x
    using that Cons.prems(3-5) by (auto simp: within_def plain_name_join below_Some)
  obtain st1 where copy: "std_copy (path_join dist (evd_path e)) (path_join dir (evd_path e)) st = (Inr (), st1)"
    and rest: "copy_evidence dist dir es st1 = (Inr u, st')"
    using Cons.prems(1) by (auto simp: Let_def act_simps)
  have "along (stays (within dir)) (std_copy (path_join dist (evd_path e)) (path_join dir (evd_path e)))"
    by (rule frame_rules, rule inside) simp
  from stays_step [OF this copy] have first: "stays (within dir) st st1" .
  have "\<forall>x \<in> set es. file_is cd st1 (path_join dist (evd_path x)) (evd_digest x) (evd_size x)"
    using Cons.prems(3) file_is_stays [OF _ first] by simp
  then have "\<forall>x \<in> set es. file_is cd st' (path_join dir (evd_path x)) (evd_digest x) (evd_size x)"
    using Cons.IH [OF rest] Cons.prems by simp
  moreover have "file_is cd st1 (path_join dir (evd_path e)) (evd_digest e) (evd_size e)"
    using std_copy_file [OF copy] Cons.prems(3) by simp
  then have "file_is cd st' (path_join dir (evd_path e)) (evd_digest e) (evd_size e)"
    using Cons.prems(2,3) by (intro file_is_stays [OF _ stays_step [OF along_copy_evidence rest]]) (auto simp: files_of_join)
  ultimately show ?case by simp
qed simp

definition written_names :: "import_source \<Rightarrow> string list" where
  "written_names src = map fst (promised src) @ [MANIFEST_FILE, SUMS_FILE, RECORD_FILE]"

lemma along_stage_files: "along (stays (files_of dir (written_names src))) (stage_files cd dir src)"
proof -
  have "along (stays (files_of dir (written_names src))) (copy_evidence (is_dist src) dir (evidence_list src))"
    by (rule along_mono [OF along_copy_evidence]) (auto simp: files_of_def written_names_def promised_def)
  then show ?thesis
    unfolding stage_files_def Let_def write_sums_def write_record_def
    by (intro frame_rules) (auto simp: files_of_def written_names_def promised_def)
qed

lemma files_trans:
  assumes "stays (files_of dir xs) a b" "stays (files_of dir ys) b c"
  shows "stays (files_of dir (xs @ ys)) a c"
proof (rule stays.rel_trans)
  show "stays (files_of dir (xs @ ys)) a b" by (rule stays_mono [OF assms(1)]) (auto simp: files_of_def)
  show "stays (files_of dir (xs @ ys)) b c" by (rule stays_mono [OF assms(2)]) (auto simp: files_of_def)
qed

text \<open>After its stages the staging directory holds the whole object.\<close>

lemma stage_files_ok:
  assumes run: "stage_files cd dir src st = (Inr u, st')"
    and dir: "dir \<noteq> []" "\<not> ends_with ''/'' dir"
    and names: "names_apart src" "\<forall>x \<in> set (written_names src). plain_name x"
    and source: "holds_promised cd st (is_dist src) src"
    and outside: "\<forall>x \<in> set (map fst (promised src)). \<not> within dir (path_join (is_dist src) x)"
  shows "object_whole cd st' dir src"
proof -
  let ?r = "is_record src" and ?at = "path_join dir" and ?from = "path_join (is_dist src)"
  have inside: "within dir (?at x)" if "x \<in> set (written_names src)" for x
    using that dir names(2) by (auto simp: within_def plain_name_join below_Some)
  have distinct: "distinct (written_names src)"
    using names(1) by (simp add: names_apart_def written_names_def)
  obtain st1 st2 st3 st4 st5 json where
    archive: "std_copy (?from (record_archive ?r)) (?at (record_archive ?r)) st = (Inr (), st1)"
    and manifest: "write_atomic (?at MANIFEST_FILE) (is_manifest_bytes src) st1 = (Inr (), st2)"
    and debug: "when_some (is_debug src) (\<lambda>b. io_at (?from (debug_archive_name b))
        (std_copy (?from (debug_archive_name b)) (?at (debug_archive_name b)))) st2 = (Inr (), st3)"
    and evidence: "copy_evidence (is_dist src) dir (evidence_list src) st3 = (Inr (), st4)"
    and sums: "write_atomic (?at SUMS_FILE) (checksum_contents ?r (is_debug src)) st4 = (Inr (), st5)"
    and json: "sc_record_json cd ?r = Inr json"
    and last: "write_atomic (?at RECORD_FILE) (json @ [CHR 0x0A]) st5 = (Inr u, st')"
    using run by (auto simp: stage_files_def Let_def act_simps write_sums_def write_record_def map_err_ok)
  let ?debugs = "map debug_archive_name (case is_debug src of None \<Rightarrow> [] | Some b \<Rightarrow> [b])"
  have members: "record_archive ?r \<in> set (written_names src)" "MANIFEST_FILE \<in> set (written_names src)"
      "SUMS_FILE \<in> set (written_names src)" "RECORD_FILE \<in> set (written_names src)"
      "set ?debugs \<subseteq> set (written_names src)" "set (map evd_path (evidence_list src)) \<subseteq> set (written_names src)"
    by (cases "is_debug src"; auto simp: written_names_def promised_def)+
  have steps: "stays (files_of dir [record_archive ?r]) st st1" "stays (files_of dir [MANIFEST_FILE]) st1 st2"
      "stays (files_of dir ?debugs) st2 st3" "stays (files_of dir (map evd_path (evidence_list src))) st3 st4"
      "stays (files_of dir [SUMS_FILE]) st4 st5" "stays (files_of dir [RECORD_FILE]) st5 st'"
  proof -
    show "stays (files_of dir [record_archive ?r]) st st1"
      by (rule stays_step [OF along_std(1) archive]) (simp add: files_of_def)
    show "stays (files_of dir [MANIFEST_FILE]) st1 st2" "stays (files_of dir [SUMS_FILE]) st4 st5"
      "stays (files_of dir [RECORD_FILE]) st5 st'"
      by (rule stays_step [OF along_write_atomic manifest] stays_step [OF along_write_atomic sums]
          stays_step [OF along_write_atomic last]; simp add: files_of_def)+
    have "along (stays (files_of dir ?debugs)) (when_some (is_debug src) (\<lambda>b. io_at (?from (debug_archive_name b))
        (std_copy (?from (debug_archive_name b)) (?at (debug_archive_name b)))))"
      by (intro frame_rules) (simp add: files_of_def)
    from stays_step [OF this debug] show "stays (files_of dir ?debugs) st2 st3" .
    show "stays (files_of dir (map evd_path (evidence_list src))) st3 st4"
      by (rule stays_step [OF along_copy_evidence evidence])
  qed
  have rel: "stays (within dir) a b"
    if "stays (files_of dir names) a b" "set names \<subseteq> set (written_names src)" for names a b
    by (rule stays_mono [OF that(1)]) (use that(2) inside in \<open>auto simp: files_of_def\<close>)
  have "stays (within dir) st st1" "stays (within dir) st1 st2" "stays (within dir) st2 st3"
    using members rel [OF steps(1)] rel [OF steps(2)] rel [OF steps(3)] by simp_all
  then have sources: "stays (within dir) st st2" "stays (within dir) st st3"
    using stays.rel_trans by blast+
  have given: "file_is cd st (?from name) digest n" if "(name, digest, n) \<in> set (promised src)" for name digest n
    using that source by (auto simp: holds_promised_def list_all_iff)
  have kept: "file_is cd sta (?from name) digest n"
    if "(name, digest, n) \<in> set (promised src)" "stays (within dir) st sta" for name digest n sta
    using file_is_stays [OF given [OF that(1)] that(2)] outside that(1) by force
  note last_rel = steps(6)
  note sums_rel = files_trans [OF steps(5) last_rel]
  note evidence_rel = files_trans [OF steps(4) sums_rel]
  note debug_rel = files_trans [OF steps(3) evidence_rel]
  note manifest_rel = files_trans [OF steps(2) debug_rel]
  have untouched: "\<not> files_of dir names (?at x)"
    if "x \<in> set (written_names src)" "set names \<subseteq> set (written_names src)" "x \<notin> set names" for names x
    using that names(2) by (subst files_of_join) auto
  have promised_names: "written_names src = record_archive ?r # ?debugs @ map evd_path (evidence_list src)
      @ [MANIFEST_FILE, SUMS_FILE, RECORD_FILE]"
    by (cases "is_debug src") (simp_all add: written_names_def promised_def comp_def)
  note apart = distinct [unfolded promised_names]
  have "file_is cd st' (?at (record_archive ?r)) (record_digest ?r) (record_archive_size ?r)"
  proof (rule file_is_stays [OF std_copy_file [OF archive] manifest_rel untouched])
    show "file_is cd st (?from (record_archive ?r)) (record_digest ?r) (record_archive_size ?r)"
      by (rule given) (simp add: promised_def)
  qed (use members apart in auto)
  moreover have "file_is cd st' (?at (debug_archive_name b)) (debug_digest b) (debug_archive_size b)"
    if "is_debug src = Some b" for b
  proof -
    have "std_copy (?from (debug_archive_name b)) (?at (debug_archive_name b)) st2 = (Inr (), st3)"
      using debug that by (simp add: when_some_def act_simps)
    moreover have "file_is cd st2 (?from (debug_archive_name b)) (debug_digest b) (debug_archive_size b)"
      using that sources(1) by (intro kept) (simp_all add: promised_def)
    ultimately have "file_is cd st3 (?at (debug_archive_name b)) (debug_digest b) (debug_archive_size b)"
      by (rule std_copy_file)
    from file_is_stays [OF this evidence_rel untouched] show ?thesis
      using members apart that by auto
  qed
  moreover have "file_is cd st' (?at (evd_path e)) (evd_digest e) (evd_size e)" if "e \<in> set (evidence_list src)" for e
  proof (rule file_is_stays [OF _ sums_rel untouched])
    have "(evd_path x, evd_digest x, evd_size x) \<in> set (promised src)" if "x \<in> set (evidence_list src)" for x
      using that by (simp add: promised_def)
    then have "\<forall>x \<in> set (evidence_list src). plain_name (evd_path x) \<and> \<not> within dir (?from (evd_path x))
        \<and> file_is cd st3 (?from (evd_path x)) (evd_digest x) (evd_size x)"
      using kept [OF _ sources(2)] outside names(2) members(6) by fastforce
    from copy_evidence_ok [OF evidence _ this dir] apart that
    show "file_is cd st4 (?at (evd_path e)) (evd_digest e) (evd_size e)" by simp
  next
    have "evd_path e \<in> set (map evd_path (evidence_list src))" using that by simp
    then show "evd_path e \<in> set (written_names src)" "evd_path e \<notin> set ([SUMS_FILE] @ [RECORD_FILE])"
      using members(6) apart by (blast, simp only: distinct.simps distinct_append set_append) auto
  qed (use members in simp)
  ultimately have "holds_promised cd st' dir src"
    by (auto simp: holds_promised_def promised_def list_all_iff split: option.splits)
  moreover have "node st' (?at MANIFEST_FILE) = Some (Bytes (is_manifest_bytes src))"
    by (rule stays_node [OF debug_rel write_atomic_ok [OF manifest]], rule untouched) (use members apart in auto)
  moreover have "node st' (?at SUMS_FILE) = Some (Bytes (checksum_contents ?r (is_debug src)))"
    by (rule stays_node [OF last_rel write_atomic_ok [OF sums]], rule untouched) (use members apart in auto)
  ultimately show ?thesis
    using write_atomic_ok [OF last] json by (simp add: object_whole_def)
qed

section \<open>Sources\<close>

lemma checked_hash:
  assumes "hash_file (sc_pull cd) st path = Inr (digest, n)"
  shows "file_is cd st path digest n"
  using assms by (auto simp: hash_file_ok file_is_def disk_read_node)

lemma store_evidence_ok:
  assumes "store_evidence_in_dist cd st dist name = Inr (Some e)"
  shows "evd_path e = name \<and> file_is cd st (path_join dist name) (evd_digest e) (evd_size e)"
  using assms
  by (auto simp: store_evidence_in_dist_def Let_def res_simps evidence_from_file_def disk_read_node file_is_def
      pc_sha_def sc_evidence_def split: if_splits)

lemma import_sbom_ok:
  assumes "import_sbom cd st dist r = Some (Inr (Some e))"
  shows "evd_path e = SBOM_FILE \<and> file_is cd st (path_join dist SBOM_FILE) (evd_digest e) (evd_size e)
     \<and> verify_sbom (sc_evidence cd) (fs_disk st) (path_join dist SBOM_FILE) (record_digest r) (record_dependencies r)
         = Some (Inr ())"
  using assms
  by (auto simp: import_sbom_def res_simps dest: store_evidence_ok split: sum.splits option.splits)

lemma import_provenance_ok:
  assumes "import_provenance cd st dist manifest r = Inr (Some e)"
  shows "evd_path e = PROVENANCE_FILE \<and> file_is cd st (path_join dist PROVENANCE_FILE) (evd_digest e) (evd_size e)"
  using assms by (auto simp: import_provenance_def res_simps dest: store_evidence_ok split: option.splits)

lemma with_evidence_fields [simp]:
  "record_digest (with_provenance p (with_sbom s r)) = record_digest r"
  "record_archive (with_provenance p (with_sbom s r)) = record_archive r"
  "record_archive_size (with_provenance p (with_sbom s r)) = record_archive_size r"
  by (simp_all add: with_provenance_def with_sbom_def split: option.splits)

text \<open>Everything an import promises was found true in the source.\<close>

lemma read_source_ok:
  assumes "read_source cd st path origin = Some (Inr src)"
  shows "holds_promised cd st (is_dist src) src \<and> (\<forall>x \<in> set (written_names src). plain_name x)
     \<and> is_sha256_ref (record_digest (is_record src))"
proof -
  obtain manifest r sbom provenance where
    derived: "import_record_of cd st manifest origin = Inr r"
    and debug: "manifest_debug_archive (ev_reader (sc_evidence cd)) manifest = Inr (is_debug src)"
    and sbom: "import_sbom cd st (is_dist src) r = Some (Inr sbom)" "is_sbom src = sbom"
    and provenance: "import_provenance cd st (is_dist src) manifest r = Inr provenance" "is_provenance src = provenance"
    and archive: "check_import_archive cd st (is_dist src) r = Inr ()"
    and claim: "case is_debug src of None \<Rightarrow> True | Some b \<Rightarrow> verify_archive_claim cd st (is_dist src) b = Inr ()"
    and stored: "is_record src = with_provenance provenance (with_sbom sbom r)"
    using assms by (auto simp: read_source_def finish_source_def res_simps split: sum.splits option.splits)
  have fields: "is_sha256_ref (record_digest r)" "is_plain_archive_filename (record_archive r)"
    using derived record_fields by (auto simp: import_record_of_def)
  have "hash_file (sc_pull cd) st (path_join (is_dist src) (record_archive r)) = Inr (record_digest r, record_archive_size r)"
    using archive by (auto simp: check_import_archive_def res_simps split: if_splits)
  then have "file_is cd st (path_join (is_dist src) (record_archive r)) (record_digest r) (record_archive_size r)"
    by (rule checked_hash)
  moreover have "file_is cd st (path_join (is_dist src) (debug_archive_name b)) (debug_digest b) (debug_archive_size b)
      \<and> plain_name (debug_archive_name b)"
    if "is_debug src = Some b" for b
  proof
    show "file_is cd st (path_join (is_dist src) (debug_archive_name b)) (debug_digest b) (debug_archive_size b)"
      using claim that by (auto simp: verify_archive_claim_def res_simps intro: checked_hash split: if_splits)
    show "plain_name (debug_archive_name b)"
      using debug that plain_archive
      by (auto simp: manifest_debug_archive_def res_simps require_archive_filename_ok split: option.splits if_splits)
  qed
  moreover have "file_is cd st (path_join (is_dist src) (evd_path e)) (evd_digest e) (evd_size e)
      \<and> plain_name (evd_path e)" if "e \<in> set (evidence_list src)" for e
    using that import_sbom_ok [of cd st "is_dist src" r] import_provenance_ok [of cd st "is_dist src" manifest r]
      sbom provenance
    by (auto simp: evidence_list_def List.map_filter_def split: if_splits option.splits)
  ultimately show ?thesis
    using fields plain_archive [OF fields(2)] stored
    by (auto simp: holds_promised_def promised_def written_names_def list_all_iff split: option.splits)
qed

section \<open>A fresh import\<close>

lemma plain_hex: "list_all is_ascii_hexdigit s \<Longrightarrow> s \<noteq> [] \<Longrightarrow> plain_name s"
proof -
  have "\<not> is_ascii_hexdigit (CHR ''/'')" by code_simp
  then show "list_all is_ascii_hexdigit s \<Longrightarrow> s \<noteq> [] \<Longrightarrow> plain_name s"
    by (auto simp: plain_name_def list_all_iff)
qed

lemma digest_hex_ok:
  assumes "is_sha256_ref (record_digest r)"
  shows "record_digest r = ''sha256:'' @ digest_hex r \<and> length (digest_hex r) = 64
     \<and> list_all is_ascii_hexdigit (digest_hex r) \<and> plain_name (digest_hex r)"
proof -
  obtain hex where "strip_prefix ''sha256:'' (record_digest r) = Some hex" "length hex = 64" "list_all is_ascii_hexdigit hex"
    using assms by (auto simp: is_sha256_ref_def split: option.splits)
  then show ?thesis by (auto simp: digest_hex_def strip_prefix_Some intro: plain_hex)
qed

definition staging_name :: "string \<Rightarrow> nat \<Rightarrow> string" where
  "staging_name hex pid = ''.tmp-'' @ take 12 hex @ ''-'' @ to_decimal pid"

lemma staging_plain:
  assumes "list_all is_ascii_hexdigit hex"
  shows "plain_name (staging_name hex pid)"
proof -
  have "\<not> is_ascii_hexdigit (CHR ''/'')" "\<not> is_ascii_digit (CHR ''/'')" by code_simp+
  then show ?thesis
    using assms to_decimal_digits [of pid] by (auto simp: plain_name_def staging_name_def list_all_iff dest: in_set_takeD)
qed

text \<open>The object directory and the staging directory are siblings.\<close>

lemma store_dirs:
  assumes "is_sha256_ref (record_digest r)"
  defines "hex \<equiv> digest_hex r"
  shows "plain_name hex" "staging_dir root hex pid = path_join (objects_dir root) (staging_name hex pid)"
    "object_dir root hex = path_join (objects_dir root) hex" "plain_name (staging_name hex pid)"
    "hex \<noteq> staging_name hex pid"
proof -
  note hex = digest_hex_ok [OF assms(1), folded hex_def]
  have "\<not> is_ascii_hexdigit (CHR ''.'')" by code_simp
  moreover have "is_ascii_hexdigit (hd hex)" using hex by (cases hex) auto
  ultimately show "hex \<noteq> staging_name hex pid" by (auto simp: staging_name_def dest: arg_cong [of _ _ hd])
  show "plain_name hex" "plain_name (staging_name hex pid)" using hex staging_plain by auto
qed (simp_all add: staging_dir_def object_dir_def staging_name_def)

text \<open>Siblings are apart, and so is what is below them.\<close>

lemma siblings_apart:
  assumes "plain_name x" "plain_name y" "x \<noteq> y"
  shows "\<not> within (path_join d x) (path_join d y)"
    and "within (path_join d y) q \<Longrightarrow> \<not> within (path_join d x) q"
proof -
  obtain e where e: "\<And>z. plain_name z \<Longrightarrow> path_join d z = e @ z"
  proof (cases "d = [] \<or> ends_with ''/'' d")
    case True
    then show ?thesis using that [of d] by (simp add: plain_name_join)
  next
    case False
    then show ?thesis using that [of "d @ ''/''"] by (simp add: plain_name_join)
  qed
  have slash: "CHR ''/'' \<notin> set x" "CHR ''/'' \<notin> set y" using assms by (simp_all add: plain_name_def)
  have apart: "y @ r \<noteq> x @ t" if "r = [] \<or> hd r = CHR ''/''" "t = [] \<or> hd t = CHR ''/''" for r t
  proof
    assume "y @ r = x @ t"
    then have "takeWhile (\<lambda>c. c \<noteq> CHR ''/'') (y @ r) = takeWhile (\<lambda>c. c \<noteq> CHR ''/'') (x @ t)" by simp
    moreover have "takeWhile (\<lambda>c. c \<noteq> CHR ''/'') (z @ r) = z"
      if "CHR ''/'' \<notin> set z" "r = [] \<or> hd r = CHR ''/''" for z r :: string
      using that by (cases r; induction z) auto
    ultimately have "y = x" using slash that by metis
    then show False using assms(3) by simp
  qed
  show "\<not> within (path_join d x) (path_join d y)"
    using apart [of "[]"] by (auto simp: within_def below_None e assms(1,2) intro: sym)
  show "within (path_join d y) q \<Longrightarrow> \<not> within (path_join d x) q"
    using apart slash by (auto simp: within_def below_None e assms(1,2))
qed

lemma within_trans: "within a b \<Longrightarrow> within b c \<Longrightarrow> within a c"
  unfolding within_def using below_trans by (metis option.exhaust option.distinct(1))

lemma within_join: "plain_name x \<Longrightarrow> plain_name y \<Longrightarrow> within (path_join d x) (path_join (path_join d x) y)"
  by (simp add: within_def below_join)

text \<open>The index is outside of the object directories.\<close>

lemma objects_within: "plain_name x \<Longrightarrow> within (path_join root ''objects'') (path_join (objects_dir root) x)"
  unfolding objects_dir_def by (rule within_trans [OF within_join within_join]) simp_all

lemma index_apart:
  assumes "plain_name x"
  shows "\<not> within (path_join (objects_dir root) x) (path_join root INDEX_FILE)"
    and "within (path_join (objects_dir root) x) q \<Longrightarrow> q \<noteq> path_join root INDEX_FILE"
proof -
  have "''objects'' \<noteq> INDEX_FILE" by code_simp
  then show out: "\<not> within (path_join (objects_dir root) x) (path_join root INDEX_FILE)"
    using siblings_apart(1) [of "''objects''" INDEX_FILE root] within_trans [OF objects_within [OF assms]] by auto
  show "within (path_join (objects_dir root) x) q \<Longrightarrow> q \<noteq> path_join root INDEX_FILE"
    using out by auto
qed

section \<open>The published object\<close>

lemma std_rename_dir:
  assumes "std_rename src dst st = (r, st')" "node st src = Some Dir" "src \<noteq> dst" "\<not> special dst"
  shows "(is_ok r \<and> node st' dst = Some Dir \<and> (\<forall>x. node st' (dst @ ''/'' @ x) = node st (src @ ''/'' @ x)))
     \<or> (\<not> is_ok r \<and> node st' = node st \<and> fs_env st' = fs_env st)"
  using assms unfolding std_rename_def
  by (auto elim!: guarded_cases simp: fs_simps node_move split: if_splits)

lemma along_index_upsert: "along (stays (\<lambda>q. q = path_join root INDEX_FILE)) (index_upsert cd root r)"
  unfolding index_upsert_def write_index_def Let_def by (intro frame_rules refl)

lemma not_special_join: "plain_name x \<Longrightarrow> plain_name y \<Longrightarrow> \<not> special (path_join (path_join d x) y)"
  by (auto simp: join_join special_def append_eq_Cons_conv plain_name_def)

lemma is_dir_node: "is_dir st p \<Longrightarrow> \<not> special p \<Longrightarrow> node st p = Some Dir"
  by (simp add: is_dir_special)

lemma clear_staging_stays: "along (stays (within staging)) (clear_staging staging)"
proof -
  have "along (stays (within staging)) (\<lambda>st. if path_exists st staging
      then io_at staging (std_remove_dir_all staging) st else (Inr (), st))"
    using stays.along_io_at [OF along_std(2) [of staging "within staging"], of staging]
    by (auto simp: along_def stays.rel_refl)
  then show ?thesis unfolding clear_staging_def by (intro frame_rules)
qed

lemma clear_staging_ok:
  assumes "clear_staging staging st = (Inr u, st')"
  shows "is_dir st' staging"
proof -
  obtain st1 where "create_dirs (lineage staging) st1 = (Inr u, st')"
    using assms by (auto simp: clear_staging_def act_simps std_create_dir_all_def)
  from create_dirs_result [OF this] show ?thesis using lineage_last by auto
qed

lemma stage_object_stays:
  assumes dir: "dir \<noteq> []" "\<not> ends_with ''/'' dir" and plain: "\<forall>x \<in> set (written_names src). plain_name x"
  shows "along (stays (within dir)) (stage_object cd dir src)"
  unfolding along_def
proof
  fix st
  obtain r st1 where run: "stage_files cd dir src st = (r, st1)" by (cases "stage_files cd dir src st")
  have a: "stays (within dir) st st1"
    by (rule stays_mono [OF stays_step [OF along_stage_files run]])
       (use dir plain in \<open>auto simp: files_of_def within_def plain_name_join below_Some\<close>)
  have "stays (within dir) st1 (snd (std_remove_dir_all dir st1))"
    using along_std(2) [of dir "within dir"] by (auto simp: along_def)
  with a stays.rel_trans [OF a] show "stays (within dir) st (snd (stage_object cd dir src st))"
    using run by (auto simp: stage_object_def split: sum.split)
qed

lemma stage_object_Inr:
  "stage_object cd dir src st = (Inr u, st') \<longleftrightarrow> stage_files cd dir src st = (Inr (), st')"
  by (cases "stage_files cd dir src st") (auto simp: stage_object_def split: sum.splits)

text \<open>An import up to the publication.\<close>

lemma staged:
  assumes run: "bind_act (clear_staging dir) (\<lambda>_. stage_object cd dir src) st = (r, st')"
    and dir: "dir \<noteq> []" "\<not> ends_with ''/'' dir" "\<not> special dir"
    and names: "names_apart src" "\<forall>x \<in> set (written_names src). plain_name x"
    and source: "holds_promised cd st (is_dist src) src"
    and outside: "\<forall>x \<in> set (map fst (promised src)). \<not> within dir (path_join (is_dist src) x)"
  shows "stays (within dir) st st' \<and> (is_ok r \<longrightarrow> object_whole cd st' dir src \<and> node st' dir = Some Dir)"
proof
  note stage = stage_object_stays [OF dir(1,2) names(2)]
  have "along (stays (within dir)) (bind_act (clear_staging dir) (\<lambda>_. stage_object cd dir src))"
    by (intro frame_rules clear_staging_stays stage)
  from stays_step [OF this run] show "stays (within dir) st st'" .
  show "is_ok r \<longrightarrow> object_whole cd st' dir src \<and> node st' dir = Some Dir"
  proof
    assume "is_ok r"
    then obtain u where "r = Inr u" by (auto simp: is_ok_iff)
    then obtain st1 where clear: "clear_staging dir st = (Inr (), st1)" and files: "stage_files cd dir src st1 = (Inr (), st')"
      using run by (auto simp: act_simps stage_object_Inr)
    have first: "stays (within dir) st st1" by (rule stays_step [OF clear_staging_stays clear])
    have "holds_promised cd st1 (is_dist src) src"
      using source outside file_is_stays [OF _ first] by (fastforce simp: holds_promised_def list_all_iff)
    then have "object_whole cd st' dir src"
      using stage_files_ok [OF files dir(1,2) names _ outside] by simp
    moreover have "node st' dir = Some Dir"
    proof (rule stays_node [OF stays_step [OF along_stage_files files]])
      show "node st1 dir = Some Dir" by (rule is_dir_node [OF clear_staging_ok [OF clear] dir(3)])
      show "\<not> files_of dir (written_names src) dir"
        using names(2) dir by (auto simp: files_of_def plain_name_join)
    qed
    ultimately show "object_whole cd st' dir src \<and> node st' dir = Some Dir" ..
  qed
qed

text \<open>The publication: the object is there whole, or it is not there.\<close>

lemma object_moved:
  assumes whole: "object_whole cd st dir src"
    and nodes: "\<And>x. x \<in> set (written_names src) \<Longrightarrow> node st' (path_join obj x) = node st (path_join dir x)"
  shows "object_whole cd st' obj src"
proof -
  have files: "file_is cd st' (path_join obj x) d n = file_is cd st (path_join dir x) d n"
    if "x \<in> set (written_names src)" for x d n
    using nodes [OF that] by (simp add: file_is_def)
  have "x \<in> set (written_names src)" if "(x, d, n) \<in> set (promised src)" for x d n
    using that by (force simp: written_names_def)
  then have "holds_promised cd st' obj src = holds_promised cd st dir src"
    using files by (auto simp: holds_promised_def list_all_iff)
  then show ?thesis
    using whole nodes by (simp add: object_whole_def written_names_def split: sum.splits)
qed

lemma record_not_temp:
  assumes "obj \<noteq> []" "\<not> ends_with ''/'' obj"
  shows "\<not> ends_with ''.tmp'' (path_join obj RECORD_FILE)"
proof
  have "path_join obj RECORD_FILE = (obj @ ''/record.jso'') @ ''n''"
    using assms by (subst plain_name_join) (simp_all add: RECORD_FILE_def plain_name_def)
  moreover assume "ends_with ''.tmp'' (path_join obj RECORD_FILE)"
  then have "last (path_join obj RECORD_FILE) = CHR ''p''"
    by (auto simp: ends_with_suffix suffix_def)
  ultimately show False by simp
qed

lemma published:
  assumes run: "publish_object dir obj st = (r, st')"
    and dirs: "node st dir = Some Dir" "dir \<noteq> obj" "\<not> special obj"
    and whole: "object_whole cd st dir src" "\<forall>x \<in> set (written_names src). plain_name x"
    and ends: "dir \<noteq> []" "\<not> ends_with ''/'' dir" "obj \<noteq> []" "\<not> ends_with ''/'' obj"
    and absent: "\<not> is_file st (path_join obj RECORD_FILE)" "\<not> within dir (path_join obj RECORD_FILE)"
  shows "stays (\<lambda>q. within dir q \<or> within obj q) st st'
     \<and> (if is_ok r then object_whole cd st' obj src else \<not> is_file st' (path_join obj RECORD_FILE))"
proof -
  obtain s st1 where rename: "std_rename dir obj st = (s, st1)" by (cases "std_rename dir obj st")
  let ?P = "\<lambda>q. within dir q \<or> within obj q"
  have touches: "touches ?P (std_rename dir obj)" by (intro touch_rules) (auto simp: within_def)
  have first: "stays ?P st st1" by (rule touched_stays [OF touchesD [OF touches rename]])
  let ?st2 = "snd (std_remove_dir_all dir st1)"
  have removed: "stays (within dir) st1 ?st2" using along_std(2) [of dir "within dir"] by (auto simp: along_def)
  show ?thesis
  proof (cases "is_ok s")
    case True
    then obtain v where s: "s = Inr v" by (auto simp: is_ok_iff)
    then have result: "r = Inr ()" "st' = st1" using run rename by (auto simp: publish_object_def)
    have moved: "node st1 (obj @ ''/'' @ x) = node st (dir @ ''/'' @ x)" for x
      using std_rename_dir [OF rename dirs] True by simp
    have "node st1 (path_join obj x) = node st (path_join dir x)" if "x \<in> set (written_names src)" for x
      using moved [of x] whole(2) that ends by (simp add: plain_name_join)
    from object_moved [OF whole(1) this] have "object_whole cd st1 obj src" .
    then show ?thesis using first result by simp
  next
    case False
    then obtain e where s: "s = Inl e" by (cases s) (auto simp: is_ok_iff)
    have "\<not> is_file st1 (path_join obj RECORD_FILE)"
      using std_rename_dir [OF rename dirs] False absent(1) by (simp add: is_file_def)
    moreover have tmp: "\<not> ends_with ''.tmp'' (path_join obj RECORD_FILE)"
      by (rule record_not_temp [OF ends(3,4)])
    ultimately have "\<not> is_file ?st2 (path_join obj RECORD_FILE)"
      using stays_no_file [OF removed absent(2) tmp] by blast
    moreover from this have "\<not> is_ok r" "st' = ?st2"
      using run rename s by (cases e; auto simp: publish_object_def Let_def)+
    moreover have "stays ?P st ?st2"
      by (rule stays.rel_trans [OF first stays_mono [OF removed]]) simp
    ultimately show ?thesis by simp
  qed
qed

lemma bind_act_assoc: "bind_act (bind_act m k) h = bind_act m (\<lambda>x. bind_act (k x) h)"
  by (auto simp: bind_act_def fun_eq_iff split: prod.split sum.split)

lemma object_whole_stays:
  assumes whole: "object_whole cd st obj src" and stays: "stays P st st'"
    and apart: "\<And>x. x \<in> set (written_names src) \<Longrightarrow> \<not> P (path_join obj x)"
  shows "object_whole cd st' obj src"
proof -
  have "x \<in> set (written_names src)" if "(x, d, n) \<in> set (promised src)" for x d n
    using that by (force simp: written_names_def)
  then have "holds_promised cd st' obj src"
    using whole file_is_stays [OF _ stays] apart by (fastforce simp: object_whole_def holds_promised_def list_all_iff)
  moreover have "node st' (path_join obj x) = Some n"
    if "node st (path_join obj x) = Some n" "x \<in> {MANIFEST_FILE, SUMS_FILE, RECORD_FILE}" for x n
    using stays_node [OF stays that(1) apart] that(2) by (auto simp: written_names_def)
  ultimately show ?thesis using whole by (auto simp: object_whole_def split: sum.splits)
qed

lemma object_whole_record: "object_whole cd st obj src \<Longrightarrow> is_file st (path_join obj RECORD_FILE)"
  by (auto simp: object_whole_def is_file_def split: sum.splits)

text \<open>The source is not inside the directory the import stages in.\<close>

definition source_apart :: "string \<Rightarrow> nat \<Rightarrow> import_source \<Rightarrow> bool" where
  "source_apart root pid src \<longleftrightarrow>
     list_all (\<lambda>(name, _, _). \<not> within (staging_dir root (digest_hex (is_record src)) pid) (path_join (is_dist src) name))
       (promised src)"

definition import_scope :: "string \<Rightarrow> nat \<Rightarrow> import_source \<Rightarrow> string \<Rightarrow> bool" where
  "import_scope root pid src q \<longleftrightarrow>
     within (staging_dir root (digest_hex (is_record src)) pid) q
     \<or> within (object_dir root (digest_hex (is_record src))) q \<or> q = path_join root INDEX_FILE"

lemma import_fresh_result:
  assumes source: "read_source cd st path origin = Some (Inr src)"
    and run: "import_fresh cd root src st = (r, st')"
    and apart: "names_apart src" "source_apart root (fs_pid st) src"
  defines "obj \<equiv> object_dir root (digest_hex (is_record src))"
  assumes absent: "\<not> is_file st (path_join obj RECORD_FILE)"
  shows "stays (import_scope root (fs_pid st) src) st st'
     \<and> (is_file st' (path_join obj RECORD_FILE) \<longrightarrow> object_whole cd st' obj src)
     \<and> (is_ok r \<longrightarrow> is_file st' (path_join obj RECORD_FILE))"
proof -
  define dir where "dir = staging_dir root (digest_hex (is_record src)) (fs_pid st)"
  note read = read_source_ok [OF source]
  have digest: "is_sha256_ref (record_digest (is_record src))" using read by blast
  note dirs = store_dirs [OF digest]
  have ends: "dir \<noteq> []" "\<not> ends_with ''/'' dir" "obj \<noteq> []" "\<not> ends_with ''/'' obj"
    using join_plain dirs(1,4) by (simp_all add: dir_def obj_def dirs(2,3))
  have special: "\<not> special dir" "\<not> special obj"
    using dirs(1,4) by (simp_all add: dir_def obj_def dirs(2,3) objects_dir_def not_special_join)
  have siblings: "within obj q \<Longrightarrow> \<not> within dir q" for q
    unfolding dir_def obj_def dirs(2,3) by (rule siblings_apart(2) [OF dirs(4,1) dirs(5) [symmetric]])
  have inside: "within obj (path_join obj x)" if "plain_name x" for x
    unfolding obj_def dirs(3) by (rule within_join) (use dirs(1) that in auto)
  have outside: "\<forall>x \<in> set (map fst (promised src)). \<not> within dir (path_join (is_dist src) x)"
    using apart(2) by (auto simp: source_apart_def dir_def list_all_iff)
  let ?rec = "path_join obj RECORD_FILE" and ?scope = "import_scope root (fs_pid st) src"
  have scope: "within dir q \<Longrightarrow> ?scope q" "within obj q \<Longrightarrow> ?scope q" "?scope (path_join root INDEX_FILE)" for q
    by (simp_all add: import_scope_def dir_def obj_def)
  obtain s st1 where prep: "bind_act (clear_staging dir) (\<lambda>_. stage_object cd dir src) st = (s, st1)"
    by (cases "bind_act (clear_staging dir) (\<lambda>_. stage_object cd dir src) st")
  have first: "stays (within dir) st st1" and whole1: "is_ok s \<Longrightarrow> object_whole cd st1 dir src \<and> node st1 dir = Some Dir"
    using staged [OF prep ends(1,2) special(1) apart(1) _ _ outside] read by simp_all
  have no_record: "\<not> is_file st1 ?rec"
    using stays_no_file [OF first siblings [OF inside] record_not_temp [OF ends(3,4)]] absent by auto
  have rest: "import_fresh cd root src st = bind_act (\<lambda>st. (s, st1))
      (\<lambda>_. bind_act (publish_object dir obj) (\<lambda>_. bind_act (index_upsert cd root (is_record src)) (\<lambda>_.
        pure (Inr \<lparr> import_record = is_record src, import_already_present = False,
          import_attached = map evd_path (evidence_list src), import_skipped = [] \<rparr>)))) st"
    using prep by (simp add: import_fresh_def Let_def dir_def obj_def bind_act_assoc [symmetric]) (simp add: bind_act_def)
  show ?thesis
  proof (cases s)
    case (Inl e)
    then have "st' = st1" "\<not> is_ok r" using run rest by (auto simp: bind_act_def)
    then show ?thesis using stays_mono [OF first scope(1)] no_record by simp
  next
    case (Inr u)
    obtain p st2 where publish: "publish_object dir obj st1 = (p, st2)" by (cases "publish_object dir obj st1")
    have "dir \<noteq> obj" unfolding dir_def obj_def dirs(2,3) using join_inject [OF dirs(4,1)] dirs(5) [of "fs_pid st"] by metis
    moreover have "object_whole cd st1 dir src" "node st1 dir = Some Dir" using whole1 Inr by simp_all
    ultimately have second: "stays (\<lambda>q. within dir q \<or> within obj q) st1 st2"
        "if is_ok p then object_whole cd st2 obj src else \<not> is_file st2 ?rec"
      using published [OF publish _ _ special(2) _ _ ends no_record siblings [OF inside], of cd src] read by simp_all
    have two: "stays ?scope st st2"
      by (rule stays.rel_trans [OF stays_mono [OF first] stays_mono [OF second(1)]]) (use scope in auto)
    show ?thesis
    proof (cases p)
      case (Inl e)
      then have "st' = st2" "\<not> is_ok r" using run rest publish \<open>s = Inr u\<close> by (auto simp: bind_act_def)
      then show ?thesis using two second(2) Inl by simp
    next
      case (Inr v)
      obtain i st3 where index: "index_upsert cd root (is_record src) st2 = (i, st3)"
        by (cases "index_upsert cd root (is_record src) st2")
      then have st': "st' = st3"
        using run rest publish \<open>s = Inr u\<close> Inr by (auto simp: bind_act_def pure_def split: sum.splits)
      have third: "stays (\<lambda>q. q = path_join root INDEX_FILE) st2 st3"
        by (rule stays_step [OF along_index_upsert index])
      have "object_whole cd st3 obj src"
      proof (rule object_whole_stays [OF _ third])
        show "object_whole cd st2 obj src" using second(2) Inr by simp
        show "path_join obj x \<noteq> path_join root INDEX_FILE" if "x \<in> set (written_names src)" for x
          unfolding obj_def dirs(3) by (rule index_apart(2) [OF dirs(1) within_join]) (use dirs(1) read that in auto)
      qed
      moreover have "stays ?scope st st3"
        by (rule stays.rel_trans [OF two stays_mono [OF third]]) (use scope(3) in auto)
      ultimately show ?thesis using object_whole_record st' by blast
    qed
  qed
qed


end
