(* ===== verification/StoreGuarantees.thy ===== *)
theory StoreGuarantees
  imports StoreImports
begin

text \<open>
  What the artifact store guarantees between its operations: the index is a finite map by digest,
  what was imported is found and what was removed is gone, a re-import never changes an identity,
  nothing is unpacked before it is verified, and a passing verification is exact.
\<close>

section \<open>The index is a map\<close>

definition index_view :: "store_index \<Rightarrow> string \<rightharpoonup> artifact_record" where
  "index_view index = map_of (map (\<lambda>r. (record_digest r, r)) (index_artifacts index))"

definition index_ok :: "store_index \<Rightarrow> bool" where
  "index_ok index \<longleftrightarrow> sorted (map record_digest (index_artifacts index))
     \<and> distinct (map record_digest (index_artifacts index))"

text \<open>The JSON writer of an index and its reader agree.\<close>

definition index_codec :: "store_codec \<Rightarrow> bool" where
  "index_codec cd \<longleftrightarrow> (\<forall>index json. sc_index_json cd index = Inr json \<longrightarrow>
     sc_index_read cd (json @ [CHR 0x0A]) = Inr index)"

lemma map_of_by_filter:
  "map_of (map (\<lambda>r. (f r, r)) rs) k = (case filter (\<lambda>r. f r = k) rs of [] \<Rightarrow> None | r # _ \<Rightarrow> Some r)"
  by (induction rs) auto

lemma map_of_sort_key: "map_of (map (\<lambda>r. (f r, r)) (sort_key f rs)) = map_of (map (\<lambda>r. (f r, r)) rs)"
  by (simp add: fun_eq_iff map_of_by_filter sort_key_stable)

lemma migrate_digest [simp]: "record_digest (migrate_legacy_producer r) = record_digest r"
  by (simp add: migrate_legacy_producer_def)

lemma map_of_upsert:
  "map_of (map (\<lambda>r. (record_digest r, r)) (without_digest (record_digest x) rs @ [x]))
     = (map_of (map (\<lambda>r. (record_digest r, r)) rs)) (record_digest x \<mapsto> x)"
  by (induction rs) (auto simp: without_digest_def fun_eq_iff)

lemma map_of_without:
  "map_of (map (\<lambda>r. (record_digest r, r)) (without_digest d rs))
     = (map_of (map (\<lambda>r. (record_digest r, r)) rs)) (d := None)"
  by (induction rs) (auto simp: without_digest_def fun_eq_iff)

lemma digests_migrated [simp]: "map record_digest (map migrate_legacy_producer rs) = map record_digest rs"
  by (simp add: comp_def)

text \<open>What is read back is what was written.\<close>

lemma index_not_lineage: "path_join root INDEX_FILE \<notin> set (lineage root)"
proof
  assume "path_join root INDEX_FILE \<in> set (lineage root)"
  then have "length (path_join root INDEX_FILE) \<le> length root"
    by (auto simp: lineage_def)
  then show False by (simp add: plain_name_join INDEX_FILE_def plain_name_def split: if_splits)
qed

lemma write_index_result:
  assumes run: "write_index cd root index st = (r, st')"
  defines "written \<equiv> \<lparr> index_schema = RECORD_SCHEMA,
    index_artifacts = sort_key record_digest (index_artifacts index) \<rparr>"
  shows "fs_env st' = fs_env st
     \<and> (node st' (path_join root INDEX_FILE) = node st (path_join root INDEX_FILE) \<and> \<not> is_ok r
        \<or> (\<exists>json. sc_index_json cd written = Inr json
             \<and> node st' (path_join root INDEX_FILE) = Some (Bytes (json @ [CHR 0x0A]))))"
proof -
  let ?p = "path_join root INDEX_FILE"
  have "along (stays (\<lambda>q. q = ?p)) (write_index cd root index)"
    unfolding write_index_def Let_def by (intro frame_rules refl)
  then have env: "fs_env st' = fs_env st" using stays_step run stays_env by metis
  obtain d st1 where dirs: "create_dirs (lineage root) st = (d, st1)" by (cases "create_dirs (lineage root) st")
  have same: "node st1 ?p = node st ?p" using create_dirs_result [OF dirs] index_not_lineage by blast
  show ?thesis
  proof (cases "\<exists>u json. d = Inr u \<and> sc_index_json cd written = Inr json")
    case False
    then have "\<not> is_ok r \<and> st' = st1"
      using run dirs
      by (cases d; cases "sc_index_json cd written")
         (auto simp: write_index_def Let_def written_def bind_act_def io_at_def std_create_dir_all_def pure_def map_err_def
           split: prod.splits sum.splits)
    then show ?thesis using env same by simp
  next
    case True
    then obtain u json where *: "d = Inr u" "sc_index_json cd written = Inr json" by blast
    then have "write_atomic ?p (json @ [CHR 0x0A]) st1 = (r, st')"
      using run dirs by (simp add: write_index_def Let_def written_def bind_act_def io_at_def std_create_dir_all_def
          pure_def map_err_def)
    from write_atomic_result [OF this] show ?thesis
      using env same * by (cases r) auto
  qed
qed

lemma std_read_node: "std_read st p = Inr s \<longleftrightarrow> fs_read_error st p = None \<and> node st p = Some (Bytes s)"
  by (auto simp: std_read_def split: option.splits node.splits)

lemma read_index_same:
  assumes "fs_env st' = fs_env st" "node st' (path_join root INDEX_FILE) = node st (path_join root INDEX_FILE)"
  shows "read_index cd st' root = read_index cd st root"
proof -
  have "std_read st' (path_join root INDEX_FILE) = std_read st (path_join root INDEX_FILE)"
    unfolding std_read_def assms(2) fs_env_fields(1,2) [OF assms(1)] ..
  then show ?thesis by (simp only: read_index_def Let_def)
qed

lemma read_index_written:
  assumes codec: "index_codec cd" and read: "read_index cd st root = Inr index" and env: "fs_env st' = fs_env st"
    and json: "sc_index_json cd written = Inr json"
    and node: "node st' (path_join root INDEX_FILE) = Some (Bytes (json @ [CHR 0x0A]))"
  shows "read_index cd st' root = Inr (written\<lparr>index_artifacts := map migrate_legacy_producer (index_artifacts written)\<rparr>)"
proof -
  have "fs_read_error st (path_join root INDEX_FILE) = None"
    using read by (auto simp: read_index_def Let_def std_read_def split: option.splits)
  then have "std_read st' (path_join root INDEX_FILE) = Inr (json @ [CHR 0x0A])"
    using node fs_env_fields [OF env] by (simp add: std_read_node)
  then show ?thesis
    using codec json by (simp add: read_index_def index_codec_def and_then_eq_Inr map_err_ok)
qed

text \<open>An index read from the disk has migrated records only.\<close>

lemma read_index_migrated:
  "read_index cd st root = Inr index \<Longrightarrow> map migrate_legacy_producer (index_artifacts index) = index_artifacts index"
  by (auto simp: read_index_def Let_def and_then_eq_Inr migrate_idempotent split: sum.splits if_splits)

lemma map_of_migrated:
  "map_of (map (\<lambda>r. (record_digest r, r)) (map migrate_legacy_producer rs)) d
     = map_option migrate_legacy_producer (map_of (map (\<lambda>r. (record_digest r, r)) rs) d)"
  by (induction rs) auto

lemma view_migrated:
  assumes "read_index cd st root = Inr index"
  shows "map_option migrate_legacy_producer (index_view index d) = index_view index d"
  using map_of_migrated [of "index_artifacts index" d] read_index_migrated [OF assms] by (simp add: index_view_def)

lemma rewritten_index:
  assumes codec: "index_codec cd" and read: "read_index cd st root = Inr index"
    and run: "write_index cd root (index\<lparr>index_artifacts := rs\<rparr>) st = (r, st')"
  shows "\<exists>index'. read_index cd st' root = Inr index'
     \<and> (index' = index \<and> \<not> is_ok r
        \<or> (\<forall>d. index_view index' d = map_option migrate_legacy_producer (map_of (map (\<lambda>r. (record_digest r, r)) rs) d))
          \<and> (distinct (map record_digest rs) \<longrightarrow> index_ok index'))"
proof -
  note result = write_index_result [OF run]
  show ?thesis
  proof (cases "node st' (path_join root INDEX_FILE) = node st (path_join root INDEX_FILE) \<and> \<not> is_ok r")
    case True
    then show ?thesis using read_index_same result read by metis
  next
    case False
    let ?written = "\<lparr> index_schema = RECORD_SCHEMA, index_artifacts = sort_key record_digest rs \<rparr>"
    obtain json where "sc_index_json cd ?written = Inr json"
        "node st' (path_join root INDEX_FILE) = Some (Bytes (json @ [CHR 0x0A]))"
      using result False by auto
    from read_index_written [OF codec read conjunct1 [OF result] this]
    have again: "read_index cd st' root
        = Inr (?written\<lparr>index_artifacts := map migrate_legacy_producer (sort_key record_digest rs)\<rparr>)" by simp
    have "distinct (map record_digest (sort_key record_digest rs)) = distinct (map record_digest rs)"
      by (simp add: distinct_map)
    with again show ?thesis
      by (simp add: index_view_def map_of_migrated map_of_sort_key index_ok_def comp_def del: map_map)
  qed
qed

lemma index_upsert_result:
  assumes codec: "index_codec cd" and read: "read_index cd st root = Inr index"
    and run: "index_upsert cd root r st = (res, st')"
  shows "\<exists>index'. read_index cd st' root = Inr index'
     \<and> (index' = index \<and> \<not> is_ok res
        \<or> index_view index' = (index_view index)(record_digest r \<mapsto> migrate_legacy_producer r)
          \<and> (distinct (map record_digest (index_artifacts index)) \<longrightarrow> index_ok index'))"
proof -
  let ?rs = "without_digest (record_digest r) (index_artifacts index) @ [r]"
  have "write_index cd root (index\<lparr>index_artifacts := ?rs\<rparr>) st = (res, st')"
    using run read by (simp add: index_upsert_def bind_act_def reads_def)
  from rewritten_index [OF codec read this] obtain index' where index': "read_index cd st' root = Inr index'"
    "index' = index \<and> \<not> is_ok res
     \<or> (\<forall>d. index_view index' d = map_option migrate_legacy_producer (map_of (map (\<lambda>r. (record_digest r, r)) ?rs) d))
       \<and> (distinct (map record_digest ?rs) \<longrightarrow> index_ok index')" by blast
  have "map_option migrate_legacy_producer (map_of (map (\<lambda>r. (record_digest r, r)) ?rs) d)
      = ((index_view index)(record_digest r \<mapsto> migrate_legacy_producer r)) d" for d
    using view_migrated [OF read, of d] by (simp only: map_of_upsert) (simp add: index_view_def)
  moreover have "distinct (map record_digest (index_artifacts index)) \<Longrightarrow> distinct (map record_digest ?rs)"
    by (auto simp: without_digest_def distinct_map_filter)
  ultimately show ?thesis using index' by (auto simp: fun_eq_iff)
qed

text \<open>
  C13. The index refines a finite map from digests to records: an upsert that fails, wherever it
  fails, leaves the index or has already updated it, and one that succeeds reads back as the
  updated map, sorted and without duplicates.
\<close>

theorem index_upsert_updates:
  assumes "index_codec cd" "read_index cd st root = Inr index" "index_upsert cd root r st = (res, st')"
  shows "\<exists>index'. read_index cd st' root = Inr index'
     \<and> (index' = index \<and> \<not> is_ok res
        \<or> index_view index' = (index_view index)(record_digest r \<mapsto> migrate_legacy_producer r)
          \<and> (distinct (map record_digest (index_artifacts index)) \<longrightarrow> index_ok index'))"
  by (rule index_upsert_result [OF assms])

section \<open>Looking up what was stored\<close>

definition index_wf :: "store_index \<Rightarrow> bool" where
  "index_wf index \<longleftrightarrow> distinct (map record_digest (index_artifacts index))
     \<and> list_all (\<lambda>r. is_sha256_ref (record_digest r)) (index_artifacts index)"

lemma index_view_Some: "index_view index d = Some r \<Longrightarrow> r \<in> set (index_artifacts index) \<and> record_digest r = d"
  by (auto simp: index_view_def dest!: map_of_SomeD)

lemma filter_single:
  assumes "distinct (map f rs)" "r \<in> set rs" "\<And>x. x \<in> set rs \<Longrightarrow> P x \<longleftrightarrow> f x = f r"
  shows "filter P rs = [r]"
  using assms
proof (induction rs)
  case (Cons y rs)
  show ?case
  proof (cases "y = r")
    case True
    have "f x \<noteq> f r" if "x \<in> set rs" for x using Cons.prems(1) True that by (auto simp: image_iff)
    then have "filter P rs = []" using Cons.prems(3) by (simp add: filter_empty_conv)
    then show ?thesis using True Cons.prems(3) [of y] by simp
  next
    case False
    then have "r \<in> set rs" "f y \<noteq> f r" using Cons.prems(1,2) by (auto simp: image_iff)
    then show ?thesis using Cons.IH Cons.prems by simp
  qed
qed simp

lemma stored_resolves:
  assumes wf: "index_wf index" and read: "read_index cd st root = Inr index"
    and stored: "index_view index d = Some r" and lower: "map ascii_lower d = d"
  shows "store_resolve cd st root d = Inr r"
proof -
  have r: "r \<in> set (index_artifacts index)" "record_digest r = d"
    using index_view_Some [OF stored] by simp_all
  have digests: "record_digest a = ''sha256:'' @ digest_hex a \<and> length (digest_hex a) = 64
      \<and> list_all is_ascii_hexdigit (digest_hex a)" if "a \<in> set (index_artifacts index)" for a
    using wf digest_hex_ok [of a] that by (auto simp: index_wf_def list_all_iff)
  have d: "d = ''sha256:'' @ digest_hex r" using digests [OF r(1)] r(2) by simp
  then have needle: "bare_hex d = digest_hex r" by (simp add: bare_hex_def strip_prefix_Some)
  have "map ascii_lower (digest_hex r) = digest_hex r" using lower d by simp
  moreover have "starts_with (digest_hex r) (digest_hex a) \<longleftrightarrow> record_digest a = record_digest r"
    if a: "a \<in> set (index_artifacts index)" for a
  proof -
    have "starts_with (digest_hex r) (digest_hex a) \<longleftrightarrow> digest_hex a = digest_hex r"
      using digests [OF a] digests [OF r(1)] by (auto simp: starts_with_def strip_prefix_Some)
    then show ?thesis using digests [OF a] digests [OF r(1)] by simp
  qed
  ultimately have "filter (\<lambda>a. starts_with (map ascii_lower (digest_hex r)) (digest_hex a)) (index_artifacts index) = [r]"
    using wf r(1) by (intro filter_single [where f = record_digest]) (simp_all add: index_wf_def)
  then show ?thesis
    using digests [OF r(1)] read needle by (simp add: store_resolve_def Let_def)
qed

lemma render_lower: "map ascii_lower (render_digest bs) = render_digest bs"
proof -
  have "list_all (\<lambda>c. ascii_lower c = c) (''sha256:'' @ ''0123456789abcdef'')" by code_simp
  then have lower: "ascii_lower c = c" if "c \<in> set (''sha256:'' @ ''0123456789abcdef'')" for c
    using that unfolding list_all_iff by blast
  have "c \<in> set (''sha256:'' @ ''0123456789abcdef'')" if "c \<in> set (render_digest bs)" for c
    using that by (auto simp: render_digest_def to_hex_def dest!: hex_byte_digits)
  then show ?thesis using lower by (intro map_idI) blast
qed

lemma import_fresh_Inr:
  assumes "import_fresh cd root src st = (Inr out, st')"
  shows "\<exists>st1. index_upsert cd root (is_record src) st1 = (Inr (), st')
     \<and> import_record out = is_record src \<and> \<not> import_already_present out"
  using assms by (auto simp: import_fresh_def Let_def act_simps)

lemma import_record_migrated:
  assumes "read_source cd st path origin = Some (Inr src)"
  shows "migrate_legacy_producer (is_record src) = is_record src"
proof -
  obtain manifest r provenance sbom where "import_record_of cd st manifest origin = Inr r"
      and stored: "is_record src = with_provenance provenance (with_sbom sbom r)"
    using assms by (auto simp: read_source_def finish_source_def res_simps split: sum.splits option.splits)
  then have "record_imported_by r \<noteq> []"
    by (auto simp: import_record_of_def from_producer_manifest_def res_simps split: if_splits)
  then have "record_imported_by (is_record src) \<noteq> []"
    by (simp add: stored with_provenance_def with_sbom_def split: option.splits)
  then show ?thesis by (simp add: migrate_legacy_producer_def)
qed

lemma publish_stays: "along (stays (\<lambda>q. within dir q \<or> within obj q)) (publish_object dir obj)"
  unfolding along_def
proof
  fix st
  let ?P = "\<lambda>q. within dir q \<or> within obj q"
  obtain s st1 where run: "std_rename dir obj st = (s, st1)" by (cases "std_rename dir obj st")
  have "touches ?P (std_rename dir obj)" by (intro touch_rules) (auto simp: within_def)
  from touched_stays [OF touchesD [OF this run]] have a: "stays ?P st st1" .
  have "along (stays ?P) (std_remove_dir_all dir)" by (rule along_std(2)) simp
  then have "stays ?P st1 (snd (std_remove_dir_all dir st1))" by (simp add: along_def)
  with a stays.rel_trans [OF a] show "stays ?P st (snd (publish_object dir obj st))"
    using run by (auto simp: publish_object_def Let_def split: sum.split)
qed

text \<open>The index an import updates is the one it found.\<close>

lemma import_index:
  assumes source: "read_source cd st path origin = Some (Inr src)"
    and run: "import_fresh cd root src st = (Inr out, st')"
    and index: "read_index cd st root = Inr index"
  shows "\<exists>st1. read_index cd st1 root = Inr index \<and> index_upsert cd root (is_record src) st1 = (Inr (), st')"
proof -
  let ?dir = "staging_dir root (digest_hex (is_record src)) (fs_pid st)"
    and ?obj = "object_dir root (digest_hex (is_record src))" and ?index = "path_join root INDEX_FILE"
  note read = read_source_ok [OF source]
  note dirs = store_dirs [OF read [THEN conjunct2, THEN conjunct2]]
  let ?prefix = "bind_act (clear_staging ?dir) (\<lambda>_. bind_act (stage_object cd ?dir src) (\<lambda>_. publish_object ?dir ?obj))"
  obtain st1 where prefix: "?prefix st = (Inr (), st1)"
    and upsert: "index_upsert cd root (is_record src) st1 = (Inr (), st')"
    using run by (auto simp: import_fresh_def Let_def act_simps)
  have ends: "?dir \<noteq> []" "\<not> ends_with ''/'' ?dir"
    using join_plain [OF dirs(4)] by (simp_all add: dirs(2))
  let ?P = "\<lambda>q. within ?dir q \<or> within ?obj q"
  have "along (stays ?P) ?prefix"
  proof (intro frame_rules publish_stays)
    show "along (stays ?P) (clear_staging ?dir)" by (rule along_mono [OF clear_staging_stays]) simp
    show "along (stays ?P) (stage_object cd ?dir src)"
      by (rule along_mono [OF stage_object_stays [OF ends]]) (use read in simp_all)
  qed
  from stays_step [OF this prefix] have stays: "stays ?P st st1" .
  have out: "\<not> ?P ?index"
    unfolding dirs(2,3) using index_apart(1) [OF dirs(1)] index_apart(1) [OF dirs(4)] by simp
  have no_dir: "node st1 ?index \<noteq> Some Dir"
    using upsert by (auto simp: index_upsert_def act_simps read_index_def Let_def std_read_def split: option.splits)
  have "\<not> ends_with ''.tmp'' ?index"
  proof
    assume "ends_with ''.tmp'' ?index"
    then have "last ?index = CHR ''p''" by (auto simp: ends_with_suffix suffix_def)
    then show False by (simp add: plain_name_join INDEX_FILE_def plain_name_def split: if_splits)
  qed
  then have "node st1 ?index = node st ?index"
    using stays out no_dir by (auto simp: stays_def)
  then have "read_index cd st1 root = Inr index"
    using read_index_same [OF stays_env [OF stays]] index by simp
  then show ?thesis using upsert by blast
qed

text \<open>
  C15. What was imported is found: after a successful import of a new digest into a store with a
  well-formed index, resolving the full digest gives exactly the record the import returned, and
  the index is that of before with this entry.
\<close>

theorem imported_artifact_resolves:
  assumes "index_codec cd" "read_index cd st root = Inr index" "index_wf index"
    and "read_source cd st path origin = Some (Inr src)"
    and "store_import cd root path origin st = Some (Inr out, st')"
    and "\<not> is_file st (path_join (object_dir root (digest_hex (is_record src))) RECORD_FILE)"
  shows "store_resolve cd st' root (record_digest (import_record out)) = Inr (import_record out)
     \<and> (\<exists>index'. read_index cd st' root = Inr index' \<and> index_wf index'
          \<and> index_view index' = (index_view index)(record_digest (import_record out) \<mapsto> import_record out))"
proof -
  have run: "import_fresh cd root src st = (Inr out, st')"
    using assms(4-6) by (simp add: store_import_def)
  obtain st1 where st1: "read_index cd st1 root = Inr index" "index_upsert cd root (is_record src) st1 = (Inr (), st')"
    using import_index [OF assms(4) run assms(2)] by blast
  have out: "import_record out = is_record src" using import_fresh_Inr [OF run] by blast
  have wf: "distinct (map record_digest (index_artifacts index))"
    using assms(3) by (simp add: index_wf_def)
  obtain index' where index': "read_index cd st' root = Inr index'" "index_ok index'"
      "index_view index' = (index_view index)(record_digest (is_record src) \<mapsto> is_record src)"
    using index_upsert_result [OF assms(1) st1] wf import_record_migrated [OF assms(4)] by auto
  have "is_sha256_ref (record_digest a)" if "a \<in> set (index_artifacts index')" for a
  proof -
    have found: "index_view index' (record_digest a) = Some a"
      using index'(2) that by (auto simp: index_view_def index_ok_def comp_def intro!: map_of_is_SomeI)
    show ?thesis
    proof (cases "record_digest a = record_digest (is_record src)")
      case True
      then show ?thesis using read_source_ok [OF assms(4)] by simp
    next
      case False
      then have "index_view index (record_digest a) = Some a" using found index'(3) by simp
      from index_view_Some [OF this] show ?thesis using assms(3) by (simp add: index_wf_def list_all_iff)
    qed
  qed
  then have wf': "index_wf index'" using index'(2) by (simp add: index_wf_def index_ok_def list_all_iff)
  have "file_is cd st (path_join (is_dist src) (record_archive (is_record src))) (record_digest (is_record src))
      (record_archive_size (is_record src))"
    using read_source_ok [OF assms(4)] by (simp add: holds_promised_def promised_def)
  then obtain s where "sha256_hex (pc_sha (sc_pull cd)) (str_bytes s) = record_digest (is_record src)"
    by (auto simp: file_is_def split: option.splits node.splits)
  then have "map ascii_lower (record_digest (is_record src)) = record_digest (is_record src)"
    by (metis sha256_hex_def render_lower)
  from stored_resolves [OF wf' index'(1) _ this] index' wf' out show ?thesis by auto
qed

section \<open>Removing\<close>

lemma remove_object_ok: "remove_object obj st = (Inr u, st') \<Longrightarrow> node st' obj = None"
  using remove_dir_all_cases [of obj st]
  by (cases "std_remove_dir_all obj st") (auto simp: remove_object_def split: sum.splits if_splits)

lemma remove_object_stays: "along (stays (within obj)) (remove_object obj)"
  unfolding along_def
proof
  fix st
  have "along (stays (within obj)) (std_remove_dir_all obj)" by (rule along_std(2)) simp
  then have "stays (within obj) st (snd (std_remove_dir_all obj st))" by (simp add: along_def)
  then show "stays (within obj) st (snd (remove_object obj st))"
    by (cases "std_remove_dir_all obj st") (auto simp: remove_object_def split: sum.splits if_splits)
qed

text \<open>
  A removal drops exactly the entry it reports from the index and the object directory of
  its digest; no other stored object is touched.
\<close>

lemma removal_exact:
  assumes "index_codec cd" "read_index cd st root = Inr index" "index_wf index"
    and "store_remove cd root digest_ref st = (Inr r, st')"
  shows "store_resolve cd st root digest_ref = Inr r
     \<and> (\<exists>index'. read_index cd st' root = Inr index' \<and> index_ok index'
          \<and> index_view index' = (index_view index)(record_digest r := None))
     \<and> node st' (object_dir root (digest_hex r)) = None
     \<and> stays (\<lambda>q. within (object_dir root (digest_hex r)) q \<or> q = path_join root INDEX_FILE) st st'"
proof -
  let ?obj = "object_dir root (digest_hex r)" and ?index = "path_join root INDEX_FILE"
    and ?rs = "without_digest (record_digest r) (index_artifacts index)"
  obtain st1 where found: "store_resolve cd st root digest_ref = Inr r"
    and rewrite: "write_index cd root (index\<lparr>index_artifacts := ?rs\<rparr>) st = (Inr (), st1)"
    and remove: "remove_object ?obj st1 = (Inr (), st')"
    using assms(2,4) by (auto simp: store_remove_def act_simps)
  have "r \<in> set (index_artifacts index)"
    using found assms(2)
    by (auto simp: store_resolve_def Let_def and_then_eq_Inr filter_eq_Cons_iff split: if_splits list.splits)
  then have digest: "is_sha256_ref (record_digest r)" using assms(3) by (simp add: index_wf_def list_all_iff)
  note dirs = store_dirs [OF digest]
  have distinct: "distinct (map record_digest ?rs)"
    using assms(3) by (simp add: index_wf_def without_digest_def distinct_map_filter)
  have view: "map_option migrate_legacy_producer (map_of (map (\<lambda>r. (record_digest r, r)) ?rs) d)
      = ((index_view index)(record_digest r := None)) d" for d
    using view_migrated [OF assms(2), of d] by (simp only: map_of_without) (simp add: index_view_def)
  obtain index' where index': "read_index cd st1 root = Inr index'" "index_ok index'"
      "index_view index' = (index_view index)(record_digest r := None)"
    using rewritten_index [OF assms(1,2) rewrite] distinct by (auto simp: view fun_eq_iff)
  have first: "along (stays (\<lambda>q. q = ?index)) (write_index cd root i)" for i
    unfolding write_index_def Let_def by (intro frame_rules refl)
  have removed: "stays (within ?obj) st1 st'" by (rule stays_step [OF remove_object_stays remove])
  have "node st' ?index = node st1 ?index"
  proof -
    have "node st1 ?index \<noteq> None"
      using write_index_result [OF rewrite] by auto
    then show ?thesis
      using stays_node [OF removed] index_apart(1) [OF dirs(1)] by (auto simp: dirs(3))
  qed
  then have "read_index cd st' root = Inr index'"
    using read_index_same [OF stays_env [OF removed]] index'(1) by simp
  moreover have "stays (\<lambda>q. within ?obj q \<or> q = ?index) st st'"
    by (rule stays.rel_trans [OF stays_mono [OF stays_step [OF first rewrite]] stays_mono [OF removed]]) simp_all
  ultimately show ?thesis using found index' remove_object_ok [OF remove] by blast
qed

section \<open>Identities\<close>

text \<open>\<open>b\<close> extends \<open>a\<close>: what is set stays set.\<close>

definition extends :: "'a option \<Rightarrow> 'a option \<Rightarrow> bool" where
  "extends a b \<longleftrightarrow> a = None \<or> b = a"

definition identity_kept :: "artifact_record \<Rightarrow> artifact_record \<Rightarrow> bool" where
  "identity_kept old new \<longleftrightarrow>
     extends (record_source_identity old) (record_source_identity new)
     \<and> (record_dependencies old = [] \<or> record_dependencies new = record_dependencies old)
     \<and> extends (record_openusd old) (record_openusd new)
     \<and> extends (record_openusd_verification old) (record_openusd_verification new)
     \<and> record_digest new = record_digest old \<and> record_archive new = record_archive old
     \<and> record_kind new = record_kind old \<and> record_name new = record_name old
     \<and> record_version new = record_version old \<and> record_target new = record_target old
     \<and> record_trust new = record_trust old \<and> record_source new = record_source old"

text \<open>A field that becomes set is bound: by the stored manifest itself or by the evidence that attests it.\<close>

definition enrichment_justified :: "bool \<Rightarrow> import_source \<Rightarrow> artifact_record \<Rightarrow> artifact_record \<Rightarrow> bool" where
  "enrichment_justified committed src old new \<longleftrightarrow>
     (record_source_identity new \<noteq> record_source_identity old \<longrightarrow> committed \<or> is_provenance src \<noteq> None)
     \<and> (record_dependencies new \<noteq> record_dependencies old \<longrightarrow> committed \<or> is_sbom src \<noteq> None)
     \<and> (record_openusd new \<noteq> record_openusd old \<longrightarrow> committed)
     \<and> (record_openusd_verification new \<noteq> record_openusd_verification old \<longrightarrow> committed)"

lemma enrich_kept: "identity_kept existing (enrich existing r)"
  by (auto simp: identity_kept_def enrich_def extends_def source_enrichment_def dependency_enrichment_def
      openusd_enrichment_def verification_enrichment_def newly_def)

lemma merge_identity_ok:
  assumes "merge_identity committed src existing = Inr (new, enriched)"
  shows "identity_kept existing new \<and> enrichment_justified committed src existing new
     \<and> \<not> identity_conflict (is_sbom src \<noteq> None \<or> is_provenance src \<noteq> None) existing (is_record src)"
proof -
  let ?r = "is_record src"
  have conflict: "\<not> identity_conflict (is_sbom src \<noteq> None \<or> is_provenance src \<noteq> None) existing ?r"
    using assms by (auto simp: merge_identity_def Let_def split: if_splits)
  have cases: "new = existing \<or> new = enrich existing ?r
      \<and> (committed \<or> enrichment_bound (is_sbom src \<noteq> None) (is_provenance src \<noteq> None) existing ?r)"
    using assms by (auto simp: merge_identity_def Let_def split: if_splits)
  then have "enrichment_justified committed src existing new"
    by (auto simp: enrichment_justified_def enrich_def enrichment_bound_def)
  moreover have "identity_kept existing new"
    using cases enrich_kept by (auto simp: identity_kept_def extends_def)
  ultimately show ?thesis using conflict by blast
qed

lemma merge_evidence_kept: "identity_kept existing new \<Longrightarrow> identity_kept existing (merge_evidence src new)"
  by (simp add: identity_kept_def merge_evidence_def Let_def)

lemma merge_evidence_justified:
  "enrichment_justified committed src existing new \<Longrightarrow> enrichment_justified committed src existing (merge_evidence src new)"
  by (auto simp: enrichment_justified_def merge_evidence_def Let_def)

lemma import_existing_Inr:
  assumes "import_existing cd root src st = (Inr out, st')"
  shows "import_already_present out
     \<and> (\<exists>existing stored_manifest merged enriched.
          read_record cd st (object_dir root (digest_hex (is_record src))) = Inr existing
          \<and> disk_read (fs_disk st) (path_join (object_dir root (digest_hex (is_record src))) MANIFEST_FILE) = Inr stored_manifest
          \<and> merge_identity (stored_manifest = is_manifest_bytes src) src existing = Inr (merged, enriched)
          \<and> (import_record out = merged \<or> import_record out = merge_evidence src merged))"
  using assms unfolding import_existing_def Let_def bind_act_Inr reads_Inr
  by (auto simp only: pure_Inr bind_act_Inr split: prod.splits) (auto simp: pure_Inr bind_act_Inr split: if_splits)

lemma reimport_result:
  assumes "read_source cd st path origin = Some (Inr src)"
    and "store_import cd root path origin st = Some (Inr out, st')"
    and "is_file st (path_join (object_dir root (digest_hex (is_record src))) RECORD_FILE)"
  shows "import_already_present out
     \<and> (\<exists>existing stored_manifest. read_record cd st (object_dir root (digest_hex (is_record src))) = Inr existing
          \<and> node st (path_join (object_dir root (digest_hex (is_record src))) MANIFEST_FILE) = Some (Bytes stored_manifest)
          \<and> identity_kept existing (import_record out)
          \<and> enrichment_justified (stored_manifest = is_manifest_bytes src) src existing (import_record out)
          \<and> \<not> identity_conflict (is_sbom src \<noteq> None \<or> is_provenance src \<noteq> None) existing (is_record src))"
proof -
  let ?obj = "object_dir root (digest_hex (is_record src))"
  have run: "import_existing cd root src st = (Inr out, st')"
    using assms by (simp add: store_import_def)
  obtain existing stored_manifest merged enriched where
    "read_record cd st ?obj = Inr existing"
    and "disk_read (fs_disk st) (path_join ?obj MANIFEST_FILE) = Inr stored_manifest"
    and merged: "merge_identity (stored_manifest = is_manifest_bytes src) src existing = Inr (merged, enriched)"
    and "import_already_present out"
    and "import_record out = merged \<or> import_record out = merge_evidence src merged"
    using import_existing_Inr [OF run] by blast
  then show ?thesis
    using merge_identity_ok [OF merged] merge_evidence_kept merge_evidence_justified
    by (auto simp: disk_read_node)
qed


section \<open>Extracting and verifying\<close>

lemma prepare_destination_stays: "along (stays (\<lambda>_. False)) (prepare_destination cd dest)"
proof -
  have "along (stays (\<lambda>_. False)) (io_at dest (std_create_dir_all dest))" by (intro frame_rules)
  then show ?thesis by (simp add: along_def prepare_destination_def stays.rel_refl)
qed

text \<open>The bytes at a path have a digest and decode to entries that are safe to extract.\<close>

definition safe_archive :: "store_codec \<Rightarrow> fs \<Rightarrow> string \<Rightarrow> string \<Rightarrow> string \<Rightarrow> bool" where
  "safe_archive cd st archive expected bytes \<longleftrightarrow>
     node st archive = Some (Bytes bytes)
     \<and> sha256_hex (pc_sha (sc_pull cd)) (str_bytes bytes) = expected
     \<and> (\<exists>entries. pc_tar (sc_pull cd) bytes = Inr entries
          \<and> (\<forall>item \<in> set entries. entry_contained item) \<and> distinct (map entry_path (filter is_payload entries)))"

text \<open>
  C17. Nothing is unpacked before it is verified: an extraction either fails having created at
  most empty directories, or hands to the unpacker bytes that have the expected digest and decode
  to entries that all stay below the destination, which is an empty directory.
\<close>

theorem extraction_verified:
  assumes "extract_archive cd archive expected dest st = (r, st')"
  shows "(\<not> is_ok r \<and> stays (\<lambda>_. False) st st')
     \<or> (\<exists>bytes st1 u. safe_archive cd st archive expected bytes \<and> stays (\<lambda>_. False) st st1
          \<and> (path_exists st dest \<longrightarrow> is_dir st dest \<and> sc_listing cd st dest = Inr [])
          \<and> sc_unpack cd bytes dest st1 = (u, st') \<and> (is_ok r \<longleftrightarrow> is_ok u))"
proof -
  let ?hash = "hash_file (sc_pull cd) st archive"
  obtain p st1 where prepared: "prepare_destination cd dest st = (p, st1)" by (cases "prepare_destination cd dest st")
  have stays: "stays (\<lambda>_. False) st st1" by (rule stays_step [OF prepare_destination_stays prepared])
  show ?thesis
  proof (cases "\<exists>n. ?hash = Inr (expected, n) \<and> p = Inr ()")
    case False
    then show ?thesis
      using assms prepared stays
      by (cases ?hash; cases p)
         (auto simp: extract_archive_def bind_act_def reads_def pure_def stays.rel_refl split: if_splits)
  next
    case True
    then obtain n where hash: "?hash = Inr (expected, n)" and p: "p = Inr ()" by blast
    obtain bytes where bytes: "node st archive = Some (Bytes bytes)" "fs_read_error st archive = None"
        "sha256_hex (pc_sha (sc_pull cd)) (str_bytes bytes) = expected"
      using hash by (auto simp: hash_file_ok disk_read_node)
    have later: "disk_read (fs_disk st1) archive = Inr bytes"
      using stays_node [OF stays bytes(1)] fs_env_fields(1) [OF stays_env [OF stays]] bytes(2) by (simp add: disk_read_node)
    then have decoded: "decoded_archive (sc_pull cd) st1 archive = pc_tar (sc_pull cd) bytes"
      by (rule decoded_archive_ok)
    have empty: "(path_exists st dest \<longrightarrow> is_dir st dest \<and> sc_listing cd st dest = Inr [])"
      using prepared p
      by (auto simp: prepare_destination_def split: if_splits sum.splits list.splits)
    show ?thesis
    proof (cases "scan_unsafe_entries archive (pc_tar (sc_pull cd) bytes) = Inr []")
      case False
      then show ?thesis
        using assms prepared p hash decoded stays
        by (cases "scan_unsafe_entries archive (pc_tar (sc_pull cd) bytes)")
           (auto simp: extract_archive_def bind_act_def reads_def pure_def)
    next
      case True
      then obtain entries where "pc_tar (sc_pull cd) bytes = Inr entries"
        by (cases "pc_tar (sc_pull cd) bytes") (auto simp: scan_unsafe_entries_def)
      then have "safe_archive cd st archive expected bytes"
        using bytes True scan_contained [of archive entries] by (simp add: safe_archive_def)
      moreover obtain u st2 where unpack: "sc_unpack cd bytes dest st1 = (u, st2)" by (cases "sc_unpack cd bytes dest st1")
      moreover have "st' = st2 \<and> (is_ok r \<longleftrightarrow> is_ok u)"
        using assms prepared p hash decoded True later unpack
        by (cases u) (auto simp: extract_archive_def bind_act_def reads_def)
      ultimately show ?thesis using stays empty by blast
    qed
  qed
qed

text \<open>The stored archive holds exactly the files of the stored manifest.\<close>

definition archive_true :: "store_codec \<Rightarrow> fs \<Rightarrow> string \<Rightarrow> artifact_record \<Rightarrow> bool" where
  "archive_true cd st root r \<longleftrightarrow>
     (\<exists>bytes manifest files walked.
        node st (archive_path root r) = Some (Bytes bytes)
        \<and> sha256_hex (pc_sha (sc_pull cd)) (str_bytes bytes) = record_digest r
        \<and> producer_manifest cd st root r = Inr manifest
        \<and> manifest_files (ev_reader (sc_evidence cd)) manifest = Inr files
        \<and> walk_archive (pc_sha (sc_pull cd)) (archive_path root r) (pc_tar (sc_pull cd) bytes) = Inr walked
        \<and> distinct (map af_path (walk_files walked)) \<and> distinct (map mfile_path files)
        \<and> (\<forall>f \<in> set (walk_files walked). \<exists>w \<in> set files. same_file f w)
        \<and> (\<forall>w \<in> set files. \<exists>f \<in> set (walk_files walked). same_file f w))"

text \<open>
  A verification report passes exactly when the stored archive has the recorded digest and
  holds exactly the files the stored manifest lists, each with its digest, size and mode.
\<close>

lemma store_verify_exact:
  assumes "store_verify cd st root digest_ref = Inr report"
  shows "\<exists>r. store_resolve cd st root digest_ref = Inr r \<and> report_digest report = record_digest r
     \<and> (report_passed report \<longleftrightarrow> archive_true cd st root r)"
proof -
  let ?sha = "pc_sha (sc_pull cd)"
  obtain r digest n where r: "store_resolve cd st root digest_ref = Inr r"
    and hash: "hash_file (sc_pull cd) st (archive_path root r) = Inr (digest, n)"
    using assms by (auto simp: store_verify_def Let_def and_then_eq_Inr archive_path_def)
  obtain bytes where bytes: "disk_read (fs_disk st) (archive_path root r) = Inr bytes" "digest = sha256_hex ?sha (str_bytes bytes)"
    using hash by (auto simp: hash_file_ok)
  have node: "node st (archive_path root r) = Some (Bytes bytes)" using bytes(1) by (simp add: disk_read_node)
  show ?thesis
  proof (cases "digest = record_digest r")
    case False
    then show ?thesis
      using assms r hash bytes node
      by (auto simp: store_verify_def Let_def archive_path_def report_passed_def archive_true_def)
  next
    case True
    then obtain manifest files walked where *: "producer_manifest cd st root r = Inr manifest"
        "manifest_files (ev_reader (sc_evidence cd)) manifest = Inr files"
        "walk_archive ?sha (archive_path root r) (pc_tar (sc_pull cd) bytes) = Inr walked"
      and report: "report_digest report = record_digest r"
        "report_passed report \<longleftrightarrow> comparison_passed (compare_archive_files (walk_files walked) files)"
      using assms r hash decoded_archive_ok [OF bytes(1), of "sc_pull cd"]
      by (auto simp: store_verify_def Let_def archive_path_def and_then_eq_Inr producer_manifest_def report_passed_def
          comparison_passed_def)
    then show ?thesis
      using r True node bytes(2) by (simp add: archive_true_def comparison_exact_iff)
  qed
qed

section \<open>Reserved names\<close>


end
