(* ===== verification/StoreSamples.thy ===== *)
theory StoreSamples
  imports StoreGuarantees
begin

text \<open>
  A sample store and a sample distribution: the guarantees of the store at work on them.
\<close>

section \<open>A sample store\<close>

definition sample_digest :: string where
  "sample_digest = ''sha256:'' @ replicate 64 (CHR ''a'')"

definition sample_sbom_evidence :: evidence_digest where
  "sample_sbom_evidence = \<lparr> evd_path = SBOM_FILE, evd_digest = sample_digest, evd_size = 5 \<rparr>"

definition sample_provenance_evidence :: evidence_digest where
  "sample_provenance_evidence = \<lparr> evd_path = PROVENANCE_FILE, evd_digest = sample_digest, evd_size = 10 \<rparr>"

definition sample_derived :: artifact_record where
  "sample_derived = sample_runtime_record\<lparr>record_imported_by := ''ost '' @ ev_version sample_evidence_codec\<rparr>"

definition sample_stored :: artifact_record where
  "sample_stored =
     with_provenance (Some sample_provenance_evidence) (with_sbom (Some sample_sbom_evidence) sample_derived)"

definition sample_source :: import_source where
  "sample_source =
     \<lparr> is_dist = ''dist'', is_manifest_bytes = ''manifest'', is_record = sample_stored, is_debug = None,
       is_sbom = Some sample_sbom_evidence, is_provenance = Some sample_provenance_evidence \<rparr>"

definition sample_index :: store_index where
  "sample_index = \<lparr> index_schema = RECORD_SCHEMA, index_artifacts = [sample_stored] \<rparr>"

definition empty_index :: store_index where
  "empty_index = \<lparr> index_schema = RECORD_SCHEMA, index_artifacts = [] \<rparr>"

definition sample_store_codec :: store_codec where
  "sample_store_codec =
     \<lparr> sc_pull = sample_pull_codec,
       sc_record_json = (\<lambda>_. Inr ''record''),
       sc_record_read = (\<lambda>s. if s = ''record'' @ [CHR 0x0A] then Inr sample_stored else Inl ''syntax''),
       sc_index_json = (\<lambda>i. if i = sample_index then Inr ''one'' else if i = empty_index then Inr ''none''
         else Inl ''unknown''),
       sc_index_read = (\<lambda>s. if s = ''one'' @ [CHR 0x0A] then Inr sample_index
         else if s = ''none'' @ [CHR 0x0A] then Inr empty_index else Inl ''syntax''),
       sc_unpack = (\<lambda>_ _ st. (Inr (), st)), sc_listing = (\<lambda>_ _. Inr []) \<rparr>"

text \<open>An empty store and a store that holds the sample, each with a distribution.\<close>

definition sample_store_fs :: fs where
  "sample_store_fs = calm_fs ((''store'', Dir) # dist_nodes ''dist'')"

definition stocked_fs :: fs where
  "stocked_fs = calm_fs (dist_nodes ''dist'' @ [(''shop'', Dir), (''shop/index.json'', Bytes (''one'' @ [CHR 0x0A])),
     (''shop/objects'', Dir), (''shop/objects/sha256'', Dir)]
     @ dist_nodes (object_dir ''shop'' (replicate 64 (CHR ''a'')))
     @ [(path_join (object_dir ''shop'' (replicate 64 (CHR ''a''))) RECORD_FILE, Bytes (''record'' @ [CHR 0x0A]))])"

lemma sample_index_codec: "index_codec sample_store_codec"
proof -
  have "sample_index \<noteq> empty_index" by (simp add: sample_index_def empty_index_def)
  then show ?thesis by (simp add: index_codec_def sample_store_codec_def)
qed

text \<open>The stages of reading the source, evaluated one by one.\<close>

lemma sample_manifest:
  "ev_from_str (sc_evidence sample_store_codec) ''manifest'' = Inr sample_runtime_manifest"
  "manifest_debug_archive (ev_reader (sc_evidence sample_store_codec)) sample_runtime_manifest = Inr None"
  by code_simp+

lemma sample_stages:
  "locate_manifest sample_store_fs ''dist'' = Inr (''dist'', ''dist/manifest.json'')"
  "disk_read (fs_disk sample_store_fs) ''dist/manifest.json'' = Inr ''manifest''"
  "import_record_of sample_store_codec sample_store_fs sample_runtime_manifest Imported = Inr sample_derived"
  "check_import_archive sample_store_codec sample_store_fs ''dist'' sample_derived = Inr ()"
  by code_simp+

lemma sample_sbom:
  "import_sbom sample_store_codec sample_store_fs ''dist'' sample_derived = Some (Inr (Some sample_sbom_evidence))"
  by code_simp

lemma sample_provenance:
  "import_provenance sample_store_codec sample_store_fs ''dist'' sample_runtime_manifest sample_derived
     = Inr (Some sample_provenance_evidence)"
  by code_simp

lemma sample_read_source: "read_source sample_store_codec sample_store_fs ''dist'' Imported = Some (Inr sample_source)"
  by (simp add: read_source_def finish_source_def sample_manifest sample_stages sample_sbom sample_provenance map_err_def
      sample_source_def sample_stored_def)

lemma stocked_stages:
  "locate_manifest stocked_fs ''dist'' = Inr (''dist'', ''dist/manifest.json'')"
  "disk_read (fs_disk stocked_fs) ''dist/manifest.json'' = Inr ''manifest''"
  "import_record_of sample_store_codec stocked_fs sample_runtime_manifest Imported = Inr sample_derived"
  "check_import_archive sample_store_codec stocked_fs ''dist'' sample_derived = Inr ()"
  by code_simp+

lemma stocked_sbom:
  "import_sbom sample_store_codec stocked_fs ''dist'' sample_derived = Some (Inr (Some sample_sbom_evidence))"
  by code_simp

lemma stocked_provenance:
  "import_provenance sample_store_codec stocked_fs ''dist'' sample_runtime_manifest sample_derived
     = Inr (Some sample_provenance_evidence)"
  by code_simp

lemma stocked_read_source: "read_source sample_store_codec stocked_fs ''dist'' Imported = Some (Inr sample_source)"
  by (simp add: read_source_def finish_source_def sample_manifest stocked_stages stocked_sbom stocked_provenance map_err_def
      sample_source_def sample_stored_def)

lemma sample_apart:
  "names_apart sample_source" "source_apart ''store'' (fs_pid sample_store_fs) sample_source"
  "\<not> is_file sample_store_fs (path_join (object_dir ''store'' (digest_hex sample_stored)) RECORD_FILE)"
  by code_simp+

lemma sample_reads_index: "read_index sample_store_codec sample_store_fs ''store'' = Inr empty_index"
  by code_simp

lemma sample_import:
  "is_ok (fst (import_fresh sample_store_codec ''store'' sample_source sample_store_fs))"
  by code_simp


lemma sample_imported:
  "\<exists>out st'. store_import sample_store_codec ''store'' ''dist'' Imported sample_store_fs = Some (Inr out, st')
     \<and> import_record out = sample_stored"
proof -
  have stored: "is_record sample_source = sample_stored" by (simp add: sample_source_def)
  obtain out st' where fresh: "import_fresh sample_store_codec ''store'' sample_source sample_store_fs = (Inr out, st')"
    using sample_import by (cases "import_fresh sample_store_codec ''store'' sample_source sample_store_fs") (auto simp: is_ok_iff)
  then show ?thesis
    using sample_apart(3) import_fresh_Inr [OF fresh] by (simp add: store_import_def sample_read_source stored)
qed

theorem imported_artifact_resolves_witness:
  "\<exists>out st'. store_import sample_store_codec ''store'' ''dist'' Imported sample_store_fs = Some (Inr out, st')
     \<and> store_resolve sample_store_codec st' ''store'' sample_digest = Inr sample_stored"
proof -
  have stored: "is_record sample_source = sample_stored" "record_digest sample_stored = sample_digest"
    by (simp add: sample_source_def) code_simp
  obtain out st' where run: "store_import sample_store_codec ''store'' ''dist'' Imported sample_store_fs = Some (Inr out, st')"
    and out: "import_record out = sample_stored" using sample_imported by blast
  have "index_wf empty_index" by (simp add: index_wf_def empty_index_def)
  from imported_artifact_resolves [OF sample_index_codec sample_reads_index this sample_read_source run] sample_apart(3)
  show ?thesis using run by (auto simp: stored out)
qed

theorem index_upsert_updates_witness:
  "\<exists>st' index'. index_upsert sample_store_codec ''store'' sample_stored sample_store_fs = (Inr (), st')
     \<and> read_index sample_store_codec st' ''store'' = Inr index' \<and> index_view index' sample_digest = Some sample_stored"
proof -
  obtain r st' where run: "index_upsert sample_store_codec ''store'' sample_stored sample_store_fs = (r, st')"
    by (cases "index_upsert sample_store_codec ''store'' sample_stored sample_store_fs")
  have "is_ok (fst (index_upsert sample_store_codec ''store'' sample_stored sample_store_fs))"
    "migrate_legacy_producer sample_stored = sample_stored" "record_digest sample_stored = sample_digest"
    by code_simp+
  then show ?thesis
    using index_upsert_updates [OF sample_index_codec sample_reads_index run] run by (auto simp: is_ok_iff)
qed

text \<open>The store that holds the sample.\<close>

lemma stocked_index: "read_index sample_store_codec stocked_fs ''shop'' = Inr sample_index"
  by code_simp

lemma sample_index_wf: "index_wf sample_index"
  by code_simp

lemma sample_stored_digest: "record_digest sample_stored = sample_digest"
  by code_simp

lemma stocked_remove:
  "fst (store_remove sample_store_codec ''shop'' sample_digest stocked_fs) = Inr sample_stored"
  by code_simp

lemma removal_exact_witness:
  "\<exists>st' index'. store_remove sample_store_codec ''shop'' sample_digest stocked_fs = (Inr sample_stored, st')
     \<and> read_index sample_store_codec st' ''shop'' = Inr index' \<and> index_view index' sample_digest = None"
proof -
  obtain st' where run: "store_remove sample_store_codec ''shop'' sample_digest stocked_fs = (Inr sample_stored, st')"
    using stocked_remove by (cases "store_remove sample_store_codec ''shop'' sample_digest stocked_fs") simp
  show ?thesis
    using removal_exact [OF sample_index_codec stocked_index sample_index_wf run] run sample_stored_digest by auto
qed

lemma stocked_import:
  "is_ok (fst (import_existing sample_store_codec ''shop'' sample_source stocked_fs))"
  by code_simp

lemma stocked_record:
  "is_file stocked_fs (path_join (object_dir ''shop'' (digest_hex sample_stored)) RECORD_FILE)"
  "read_record sample_store_codec stocked_fs (object_dir ''shop'' (digest_hex sample_stored)) = Inr sample_stored"
  by code_simp+


lemma stocked_extract: "is_ok (fst (extract_archive sample_store_codec ''dist/usd.tar.zst'' sample_digest ''out'' stocked_fs))"
  by code_simp

theorem extraction_verified_witness:
  "\<exists>bytes. safe_archive sample_store_codec stocked_fs ''dist/usd.tar.zst'' sample_digest bytes"
proof -
  obtain r st' where run: "extract_archive sample_store_codec ''dist/usd.tar.zst'' sample_digest ''out'' stocked_fs = (r, st')"
    by (cases "extract_archive sample_store_codec ''dist/usd.tar.zst'' sample_digest ''out'' stocked_fs")
  then have "is_ok r" using stocked_extract by simp
  with extraction_verified [OF run] show ?thesis by blast
qed

lemma stocked_verify:
  "map_prod id report_passed (case store_verify sample_store_codec stocked_fs ''shop'' sample_digest of
     Inl _ \<Rightarrow> (False, undefined) | Inr report \<Rightarrow> (True, report)) = (True, True)"
  "store_resolve sample_store_codec stocked_fs ''shop'' sample_digest = Inr sample_stored"
  by code_simp+

lemma store_verify_exact_witness:
  "archive_true sample_store_codec stocked_fs ''shop'' sample_stored"
proof -
  obtain report where run: "store_verify sample_store_codec stocked_fs ''shop'' sample_digest = Inr report"
    and "report_passed report"
    using stocked_verify(1) by (auto split: sum.splits)
  then show ?thesis using store_verify_exact [OF run] stocked_verify(2) by simp
qed

section \<open>A reserved name\<close>

definition reserved_source :: import_source where
  "reserved_source = \<lparr> is_dist = ''dist'', is_manifest_bytes = ''manifest'',
     is_record = sample_derived\<lparr>record_archive := SUMS_FILE\<rparr>, is_debug = None, is_sbom = None, is_provenance = None \<rparr>"

definition reserved_fs :: fs where
  "reserved_fs = calm_fs [(''dist'', Dir), (''dist/SHA256SUMS'', Bytes ''data''), (''s'', Dir)]"

lemma reserved_staged: "is_ok (fst (stage_files sample_store_codec ''s'' reserved_source reserved_fs))"
  by code_simp


end
