(* ===== verification/Transports.thy ===== *)
theory Transports
  imports StoreGuarantees
begin

text \<open>
  The transports of artifacts (ost-artifact/src/transport/mod.rs and file.rs): the interface of a
  transport, the pull and the push over it, and the transport of the local file system.  The OCI
  registry client is another implementation of the interface and is not modelled.
\<close>

section \<open>The interface\<close>

record resolved_remote =
  rr_locator :: string
  rr_registry :: string
  rr_repository :: string
  rr_oci_digest :: "string option"
  rr_selector :: "string option"
  rr_auth_mode :: string

record push_source =
  ps_archive_path :: string
  ps_manifest_path :: string
  ps_record :: artifact_record

record push_outcome =
  po_oci_digest :: string
  po_artifact_digest :: string
  po_locator :: string
  po_registry :: string
  po_repository :: string
  po_already_present :: bool
  po_auth_mode :: string

record transfer_attempt =
  ta_attempt :: nat
  ta_resume_offset :: nat
  ta_received_bytes :: nat
  ta_elapsed_ms :: nat
  ta_idle_age_ms :: nat
  ta_decision :: string
  ta_detail :: string
  ta_retry_after_ms :: "nat option"

record layer_transfer =
  lt_digest :: string
  lt_title :: string
  lt_expected_bytes :: nat
  lt_received_bytes :: nat
  lt_attempts :: "transfer_attempt list"

record manifest_transfer =
  mt_digest :: string
  mt_received_bytes :: nat

record transfer_evidence =
  te_manifest :: "manifest_transfer option"
  te_layers :: "layer_transfer list"

definition no_transfer :: transfer_evidence where
  "no_transfer = \<lparr> te_manifest = None, te_layers = [] \<rparr>"

record fetch_outcome =
  fo_dist :: string
  fo_transfer :: transfer_evidence

record transport =
  tr_resolve :: "remote_reference \<Rightarrow> (error, resolved_remote) act"
  tr_fetch :: "remote_reference \<Rightarrow> resolved_remote \<Rightarrow> string \<Rightarrow> (error, fetch_outcome) act"
  tr_fetch_metadata :: "remote_reference \<Rightarrow> resolved_remote \<Rightarrow> string \<Rightarrow> (error, fetch_outcome) act"
  tr_push :: "push_source \<Rightarrow> remote_reference \<Rightarrow> (error, push_outcome) act"

text \<open>What a transport that does not define a push does.\<close>

definition default_push :: "push_source \<Rightarrow> remote_reference \<Rightarrow> (error, push_outcome) act" where
  "default_push source destination =
     pure (Inl (coded ''ARTIFACT_PUSH_UNSUPPORTED'' Usage
       (''this transport is read-only '' @ [CHR 0xE2, CHR 0x80, CHR 0x94] @ '' only the OCI backend (oci://) can push'')))"

section \<open>Pulling\<close>

record pull_evidence =
  pe_reference :: string
  pe_remote :: resolved_remote
  pe_transfer :: transfer_evidence
  pe_verification :: "step_status list"
  pe_effective :: trust_level
  pe_required :: trust_level
  pe_publisher :: "string option"
  pe_record :: artifact_record
  pe_import_status :: string
  pe_import_path :: string

definition check_pull :: "remote_reference \<Rightarrow> pull_policy \<Rightarrow> unit res" where
  "check_pull reference policy =
     (if \<not> is_pinned reference
      then Inl (with_hint (''resolve the tag first: `ost artifact resolve <reference>` and pull the '' @
               ''@sha256:<digest> form it prints'')
             (coded ''ARTIFACT_REFERENCE_MUTABLE'' Usage
               (quoted (locator reference) @ '' pins no digest '' @ [CHR 0xE2, CHR 0x80, CHR 0x94] @
                '' tags are convenience, digests are the contract'')))
      else
     and_then (case pp_expected_digest policy of
         None \<Rightarrow> Inr ()
       | Some expected \<Rightarrow>
           if is_sha256_ref expected then Inr ()
           else Inl (usage (''expected artifact digest '' @ quoted expected @ '' is not sha256:<64 hex chars>''))) (\<lambda>_.
       if pp_openusd_version policy \<noteq> None \<and> pp_openusd policy = None
       then Inl (usage ''an OpenUSD version requirement needs a matching OpenUSD consumer cell'')
       else case pp_openusd_version policy of
           None \<Rightarrow> Inr ()
         | Some version \<Rightarrow>
             if trim version = [] then Inl (usage ''the required OpenUSD version cannot be empty'') else Inr ()))"

text \<open>The directory a pull downloads into, named by the process and the time.\<close>

definition pull_name :: "fs \<Rightarrow> string" where
  "pull_name st = ''.tmp-pull-'' @ to_decimal (fs_pid st) @ ''-'' @ to_decimal (fs_time st (fs_tick st))"

definition pull_scratch :: "string \<Rightarrow> fs \<Rightarrow> string" where
  "pull_scratch root st = path_join root (pull_name st)"

definition evidence_of ::
  "string \<Rightarrow> remote_reference \<Rightarrow> resolved_remote \<Rightarrow> transfer_evidence \<Rightarrow> chain_outcome \<Rightarrow> import_outcome
     \<Rightarrow> pull_evidence"
where
  "evidence_of root reference resolved transfer chain out =
     \<lparr> pe_reference = locator reference, pe_remote = resolved, pe_transfer = transfer,
       pe_verification = [step ''oci_digest'' (rr_oci_digest resolved \<noteq> None)] @ chain_steps chain
         @ [step ''local_import'' True],
       pe_effective = chain_effective chain, pe_required = chain_required chain,
       pe_publisher = chain_publisher chain, pe_record = import_record out,
       pe_import_status = (if import_already_present out then ''already-present'' else ''imported''),
       pe_import_path = object_dir root (digest_hex (import_record out)) \<rparr>"

text \<open>
  The steps of a pull once it has a directory to download into.  The outer \<^const>\<open>None\<close> is the
  panic of \<^const>\<open>verify_sbom\<close>.
\<close>

definition pull_into ::
  "store_codec \<Rightarrow> transport \<Rightarrow> remote_reference \<Rightarrow> resolved_remote \<Rightarrow> string \<Rightarrow> pull_policy \<Rightarrow> string \<Rightarrow> fs
     \<Rightarrow> (pull_evidence res \<times> fs) option"
where
  "pull_into cd tr reference resolved root policy scratch st =
     (case tr_fetch tr reference resolved scratch st of
        (Inl e, st1) \<Rightarrow> Some (Inl e, st1)
      | (Inr fetched, st1) \<Rightarrow>
          (case verify_dist (sc_pull cd) st1 (fo_dist fetched) policy (rr_selector resolved) of
             None \<Rightarrow> None
           | Some (Inl e) \<Rightarrow> Some (Inl e, st1)
           | Some (Inr chain) \<Rightarrow>
               map_option (\<lambda>(r, st2).
                   (and_then r (\<lambda>out. Inr (evidence_of root reference resolved (fo_transfer fetched) chain out)), st2))
                 (store_import cd root (fo_dist fetched) Imported st1)))"

definition pull ::
  "store_codec \<Rightarrow> transport \<Rightarrow> remote_reference \<Rightarrow> string \<Rightarrow> pull_policy \<Rightarrow> fs \<Rightarrow> (pull_evidence res \<times> fs) option"
where
  "pull cd tr reference root policy st =
     (case check_pull reference policy of
        Inl e \<Rightarrow> Some (Inl e, st)
      | Inr _ \<Rightarrow>
          (case tr_resolve tr reference st of
             (Inl e, st1) \<Rightarrow> Some (Inl e, st1)
           | (Inr resolved, st1) \<Rightarrow>
               (let scratch = pull_scratch root st1
                in case io_at scratch (std_create_dir_all scratch) st1 of
                     (Inl e, st2) \<Rightarrow> Some (Inl e, st2)
                   | (Inr _, st2) \<Rightarrow>
                       map_option (\<lambda>(r, st3). (r, snd (std_remove_dir_all scratch st3)))
                         (pull_into cd tr reference resolved root policy scratch st2))))"

section \<open>Pushing\<close>

definition check_stored :: "store_codec \<Rightarrow> fs \<Rightarrow> string \<Rightarrow> artifact_record \<Rightarrow> unit res" where
  "check_stored cd st archive r =
     and_then (hash_file (sc_pull cd) st archive) (\<lambda>(actual, actual_size).
       if actual \<noteq> record_digest r \<or> actual_size \<noteq> record_archive_size r
       then Inl (with_hint ''re-import the artifact from its original producer output''
              (store_mismatch (''stored archive for '' @ short_digest r @ '' hashes to '' @ actual @ '' ('' @
                to_decimal actual_size @ '' bytes) '' @ [CHR 0xE2, CHR 0x80, CHR 0x94] @
                '' the local store is corrupted'')))
       else Inr ())"

definition stored_push_source :: "store_codec \<Rightarrow> fs \<Rightarrow> string \<Rightarrow> string \<Rightarrow> push_source res" where
  "stored_push_source cd st root digest_ref =
     and_then (store_resolve cd st root digest_ref) (\<lambda>r.
       let obj = object_dir root (digest_hex r); archive = path_join obj (record_archive r);
           manifest_path = path_join obj MANIFEST_FILE in
     and_then (read_json cd st manifest_path) (\<lambda>manifest.
     and_then (manifest_debug_archive (ev_reader (sc_evidence cd)) manifest) (\<lambda>debug.
     and_then (check_stored cd st archive r) (\<lambda>_.
     and_then (case debug of None \<Rightarrow> Inr () | Some b \<Rightarrow> verify_archive_claim cd st obj b) (\<lambda>_.
       Inr \<lparr> ps_archive_path = archive, ps_manifest_path = manifest_path, ps_record = r \<rparr>)))))"

definition push ::
  "store_codec \<Rightarrow> transport \<Rightarrow> string \<Rightarrow> string \<Rightarrow> remote_reference \<Rightarrow> (error, push_outcome) act"
where
  "push cd tr root digest_ref destination =
     bind_act (reads (\<lambda>st. stored_push_source cd st root digest_ref)) (\<lambda>source. tr_push tr source destination)"

section \<open>The transport of the local file system\<close>

definition FILE_REGISTRY_ID :: string where
  "FILE_REGISTRY_ID = ''local-filesystem''"

fun dist_dir :: "remote_reference \<Rightarrow> string res" where
  "dist_dir (File f) = Inr (file_path f)"
| "dist_dir (Oci r) = Inl (usage (quoted (oci_locator r) @ '' is an OCI reference '' @
     [CHR 0xE2, CHR 0x80, CHR 0x94] @ '' the filesystem transport only handles file://''))"

definition snapshot_file :: "string \<Rightarrow> string \<Rightarrow> string \<Rightarrow> bool \<Rightarrow> (error, unit) act" where
  "snapshot_file dist scratch name required st =
     (let source = path_join dist name
      in if \<not> path_exists st source
         then (if required
               then Inl (coded ''ARTIFACT_REMOTE_NOT_FOUND'' Precondition (''producer output is missing '' @ quoted source))
               else Inr (), st)
         else if \<not> is_file st source
         then (Inl (coded ''ARTIFACT_EVIDENCE_INVALID'' Validation
                 (''producer output path '' @ quoted source @ '' is not a regular file'')), st)
         else io_at source (std_copy source (path_join scratch name)) st)"

text \<open>What a fetch reads of the producer output: its directory, the manifest and the archives it names.\<close>

definition read_output ::
  "store_codec \<Rightarrow> fs \<Rightarrow> remote_reference \<Rightarrow> (string \<times> string \<times> artifact_record \<times> debug_archive option) res"
where
  "read_output cd st reference =
     and_then (dist_dir reference) (\<lambda>path.
     and_then (locate_manifest st path) (\<lambda>(_, manifest_path).
     and_then (case path_parent manifest_path of
         None \<Rightarrow> Inl (usage ''producer manifest has no parent directory'') | Some dist \<Rightarrow> Inr dist) (\<lambda>dist.
     and_then (disk_read (fs_disk st) manifest_path) (\<lambda>bytes.
     and_then (map_err (\<lambda>e. manifest_invalid (quoted manifest_path @ '' is not valid JSON: '' @ e))
         (ev_from_str (sc_evidence cd) bytes)) (\<lambda>manifest.
     and_then (map_err (\<lambda>e. manifest_invalid
           (quoted manifest_path @ '' is not a producer manifest: '' @ error_display e))
         (from_producer_manifest (ev_reader (sc_evidence cd)) manifest Imported 0 ''filesystem transport'')) (\<lambda>r.
     and_then (map_err (\<lambda>e. manifest_invalid
           (quoted manifest_path @ '' has an invalid debug archive: '' @ error_display e))
         (manifest_debug_archive (ev_reader (sc_evidence cd)) manifest)) (\<lambda>debug.
       Inr (dist, bytes, r, debug))))))))"

definition fetch_files ::
  "store_codec \<Rightarrow> remote_reference \<Rightarrow> string \<Rightarrow> bool \<Rightarrow> (error, fetch_outcome) act"
where
  "fetch_files cd reference scratch payloads =
     bind_act (reads (\<lambda>st. read_output cd st reference)) (\<lambda>(dist, bytes, r, debug).
     bind_act (io_at (path_join scratch MANIFEST_FILE) (std_write (path_join scratch MANIFEST_FILE) bytes)) (\<lambda>_.
     bind_act (if payloads
         then bind_act (snapshot_file dist scratch (record_archive r) True) (\<lambda>_.
                when_some debug (\<lambda>b. snapshot_file dist scratch (debug_archive_name b) True))
         else pure (Inr ())) (\<lambda>_.
     bind_act (snapshot_file dist scratch SBOM_FILE False) (\<lambda>_.
     bind_act (snapshot_file dist scratch PROVENANCE_FILE False) (\<lambda>_.
       pure (Inr \<lparr> fo_dist = scratch, fo_transfer = no_transfer \<rparr>))))))"

definition file_resolve :: "store_codec \<Rightarrow> fs \<Rightarrow> remote_reference \<Rightarrow> resolved_remote res" where
  "file_resolve cd st reference =
     and_then (dist_dir reference) (\<lambda>dist.
       if \<not> path_exists st dist
       then Inl (coded ''ARTIFACT_REMOTE_NOT_FOUND'' Precondition (quoted dist @ '' does not exist''))
       else
     and_then (locate_manifest st dist) (\<lambda>(_, manifest_path).
     and_then (disk_read (fs_disk st) manifest_path) (\<lambda>bytes.
     and_then (map_err (\<lambda>e. manifest_invalid (quoted manifest_path @ '' is not valid JSON: '' @ e))
         (ev_from_str (sc_evidence cd) bytes)) (\<lambda>manifest.
       case Option.bind (get_str ''archive_digest'' manifest) (\<lambda>d. if is_sha256_ref d then Some d else None) of
         None \<Rightarrow> Inl (manifest_invalid (quoted manifest_path @ '' carries no well-formed archive_digest''))
       | Some claimed \<Rightarrow>
           Inr \<lparr> rr_locator = locator reference @ ''@'' @ claimed, rr_registry = FILE_REGISTRY_ID, rr_repository = [],
                 rr_oci_digest = None, rr_selector = None, rr_auth_mode = ''none'' \<rparr>))))"

definition file_transport :: "store_codec \<Rightarrow> transport" where
  "file_transport cd =
     \<lparr> tr_resolve = (\<lambda>reference. reads (\<lambda>st. file_resolve cd st reference)),
       tr_fetch = (\<lambda>reference _ scratch. fetch_files cd reference scratch True),
       tr_fetch_metadata = (\<lambda>reference _ scratch. fetch_files cd reference scratch False),
       tr_push = default_push \<rparr>"

section \<open>The contract of a transport\<close>

text \<open>A path strictly below a directory.\<close>

definition inside :: "string \<Rightarrow> string \<Rightarrow> bool" where
  "inside dir q \<longleftrightarrow> below dir q \<noteq> None"

lemma inside_within: "inside dir q \<Longrightarrow> within dir q"
  by (simp add: inside_def within_def)

lemma inside_join: "dir \<noteq> [] \<Longrightarrow> \<not> ends_with ''/'' dir \<Longrightarrow> plain_name x \<Longrightarrow> inside dir (path_join dir x)"
  by (simp add: inside_def plain_name_join below_Some)

lemma inside_self: "\<not> inside dir dir"
  by (simp add: inside_def below_None)

text \<open>
  A transport may change the directory it is given and nothing else, and the files it fetched are
  in that directory: a snapshot nobody else writes to.
\<close>

locale snapshot_transport =
  fixes tr :: transport
  assumes resolve_frame: "along (stays (\<lambda>_. False)) (tr_resolve tr reference)"
    and fetch_frame: "dir \<noteq> [] \<Longrightarrow> \<not> ends_with ''/'' dir \<Longrightarrow>
      along (stays (inside dir)) (tr_fetch tr reference resolved dir)"
    and fetch_dist: "tr_fetch tr reference resolved dir st = (Inr out, st') \<Longrightarrow> fo_dist out = dir"

section \<open>The file transport meets the contract\<close>

lemma along_read_then:
  assumes "\<And>x. (\<exists>st. f st = Inr x) \<Longrightarrow> along (stays P) (k x)"
  shows "along (stays P) (bind_act (reads f) k)"
  unfolding along_def
proof
  fix st
  show "stays P st (snd (bind_act (reads f) k st))"
  proof (cases "f st")
    case (Inl e)
    then show ?thesis by (simp add: bind_act_def reads_def stays.rel_refl)
  next
    case (Inr x)
    have "along (stays P) (k x)" by (rule assms) (use Inr in blast)
    then show ?thesis using Inr by (simp add: bind_act_def reads_def along_def)
  qed
qed

lemma snapshot_file_stays:
  assumes "P (path_join scratch name)"
  shows "along (stays P) (snapshot_file dist scratch name required)"
proof -
  have "along (stays P) (io_at (path_join dist name) (std_copy (path_join dist name) (path_join scratch name)))"
    by (intro frame_rules assms)
  then show ?thesis by (simp add: along_def snapshot_file_def Let_def stays.rel_refl)
qed

lemma std_write_stays: "P p \<Longrightarrow> along (stays P) (std_write p s)"
  by (intro along_touches touch_rules)

lemma output_names:
  assumes "read_output cd st reference = Inr (dist, bytes, r, debug)"
  shows "plain_name (record_archive r)" "debug = Some b \<Longrightarrow> plain_name (debug_archive_name b)"
proof -
  obtain manifest where
    "from_producer_manifest (ev_reader (sc_evidence cd)) manifest Imported 0 ''filesystem transport'' = Inr r"
    and debug: "manifest_debug_archive (ev_reader (sc_evidence cd)) manifest = Inr debug"
    using assms by (auto simp: read_output_def res_simps)
  then show "plain_name (record_archive r)" using record_fields plain_archive by blast
  show "plain_name (debug_archive_name b)" if "debug = Some b"
    using debug that plain_archive
    by (auto simp: manifest_debug_archive_def res_simps require_archive_filename_ok split: option.splits if_splits)
qed

lemma fetch_files_stays:
  assumes "dir \<noteq> []" "\<not> ends_with ''/'' dir"
  shows "along (stays (inside dir)) (fetch_files cd reference dir payloads)"
  unfolding fetch_files_def
proof (rule along_read_then, clarify)
  fix dist bytes r debug st
  assume read: "read_output cd st reference = Inr (dist, bytes, r, debug)"
  have plain: "inside dir (path_join dir x)" if "plain_name x" for x
    by (rule inside_join [OF assms that])
  note names = output_names [OF read]
  show "along (stays (inside dir))
     (bind_act (io_at (path_join dir MANIFEST_FILE) (std_write (path_join dir MANIFEST_FILE) bytes)) (\<lambda>_.
      bind_act (if payloads
         then bind_act (snapshot_file dist dir (record_archive r) True) (\<lambda>_.
                when_some debug (\<lambda>b. snapshot_file dist dir (debug_archive_name b) True))
         else pure (Inr ())) (\<lambda>_.
      bind_act (snapshot_file dist dir SBOM_FILE False) (\<lambda>_.
      bind_act (snapshot_file dist dir PROVENANCE_FILE False) (\<lambda>_.
        pure (Inr \<lparr> fo_dist = dir, fo_transfer = no_transfer \<rparr>))))))"
    by (intro frame_rules std_write_stays snapshot_file_stays plain names plain_names)
qed

lemma fetch_files_dist: "fetch_files cd reference dir payloads st = (Inr out, st') \<Longrightarrow> fo_dist out = dir"
  by (auto simp: fetch_files_def act_simps)

interpretation local_files: snapshot_transport "file_transport cd" for cd
proof
  show "along (stays (\<lambda>_. False)) (tr_resolve (file_transport cd) reference)" for reference
    by (simp add: file_transport_def stays.along_reads)
  show "along (stays (inside dir)) (tr_fetch (file_transport cd) reference resolved dir)"
    if "dir \<noteq> []" "\<not> ends_with ''/'' dir" for dir reference resolved
    using fetch_files_stays [OF that] by (simp add: file_transport_def)
  show "fo_dist out = dir" if "tr_fetch (file_transport cd) reference resolved dir st = (Inr out, st')"
    for reference resolved dir st out st'
    using that by (auto simp: file_transport_def dest: fetch_files_dist)
qed

section \<open>What a pull guarantees\<close>

lemma pull_name_plain: "plain_name (pull_name st)"
proof -
  have "\<not> is_ascii_digit (CHR ''/'')" by code_simp
  then show ?thesis using to_decimal_digits by (auto simp: plain_name_def pull_name_def list_all_iff)
qed

lemma pull_name_apart: "pull_name st \<noteq> ''objects''" "pull_name st \<noteq> INDEX_FILE"
  by (simp_all add: pull_name_def INDEX_FILE_def)

lemma pull_scratch_ends: "pull_scratch root st \<noteq> []" "\<not> ends_with ''/'' (pull_scratch root st)"
  "\<not> special (pull_scratch root st)"
  using join_plain [OF pull_name_plain, of root st] pull_name_plain [of st]
  by (auto simp: pull_scratch_def special_def plain_name_join pull_name_def append_eq_Cons_conv split: if_splits)

text \<open>The directory of a pull is apart from the objects of the store.\<close>

lemma pull_scratch_apart: "within (path_join root ''objects'') q \<Longrightarrow> \<not> within (pull_scratch root st) q"
  unfolding pull_scratch_def
  by (rule siblings_apart(2) [OF pull_name_plain _ pull_name_apart(1)]) simp_all

text \<open>Both readings of the manifest are of the same artifact.\<close>

lemma and_then_map:
  "and_then m k = Inr r \<Longrightarrow> (\<And>x. k x = Inr r \<Longrightarrow> k' x = Inr r') \<Longrightarrow> and_then m k' = Inr r'"
  by (auto simp: and_then_eq_Inr)

lemma from_producer_manifest_relabel:
  "from_producer_manifest rd manifest source t by = Inr r \<Longrightarrow>
   from_producer_manifest rd manifest source t' by' = Inr (r\<lparr>record_created_unix := t', record_imported_by := by'\<rparr>)"
  unfolding from_producer_manifest_def
  by (erule and_then_map | simp only: split: prod.splits if_splits | clarsimp split del: if_split option.splits)+

definition source_meets :: "pull_policy \<Rightarrow> import_source \<Rightarrow> bool" where
  "source_meets policy src \<longleftrightarrow>
     (\<forall>digest. pp_expected_digest policy = Some digest \<longrightarrow> record_digest (is_record src) = digest)
     \<and> (\<forall>kind. pp_kind policy = Some kind \<longrightarrow> record_kind (is_record src) = kind)
     \<and> (\<forall>target. pp_target policy = Some target \<longrightarrow> record_target (is_record src) = target)"

lemma source_agrees:
  assumes verified: "dist_verified (sc_pull cd) st dist policy remote chain"
    and read: "read_source cd st dist Imported = Some (Inr src)"
  shows "source_meets policy src"
proof -
  obtain d where d: "dist_read (sc_pull cd) st dist d" and met: "policy_met (sc_pull cd) d policy remote"
    using verified by (auto simp: dist_verified_def)
  obtain path manifest r provenance sbom where
    "locate_manifest st dist = Inr (is_dist src, path)"
    and bytes: "disk_read (fs_disk st) path = Inr (is_manifest_bytes src)"
      "ev_from_str (sc_evidence cd) (is_manifest_bytes src) = Inr manifest"
    and derived: "import_record_of cd st manifest Imported = Inr r"
    and stored: "is_record src = with_provenance provenance (with_sbom sbom r)"
    using read by (auto simp: read_source_def finish_source_def res_simps split: sum.splits option.splits)
  then have "fd_manifest d = manifest"
    using d by (auto simp: dist_read_def disk_read_node sc_evidence_def)
  then have "r = fd_record d\<lparr>record_created_unix := fs_time st (fs_tick st) div 10 ^ 9,
      record_imported_by := ''ost '' @ ev_version (sc_evidence cd)\<rparr>"
    using d derived from_producer_manifest_relabel
    by (fastforce simp: dist_read_def import_record_of_def sc_evidence_def)
  then have "record_digest (is_record src) = record_digest (fd_record d)"
    "record_kind (is_record src) = record_kind (fd_record d)" "record_target (is_record src) = record_target (fd_record d)"
    unfolding stored by (simp_all add: with_provenance_def with_sbom_def split: option.split)
  then show ?thesis using met by (simp add: source_meets_def policy_met_def)
qed

text \<open>
  What a successful pull reports: the trust the chain established, and for a digest that was not
  stored the record of the verified files, published whole; for one that was, the stored record.
\<close>

definition pull_reports ::
  "store_codec \<Rightarrow> string \<Rightarrow> fs \<Rightarrow> fs \<Rightarrow> chain_outcome \<Rightarrow> import_source \<Rightarrow> pull_evidence \<Rightarrow> bool"
where
  "pull_reports cd root mid st' chain src ev \<longleftrightarrow>
     pe_effective ev = chain_effective chain \<and> pe_required ev = chain_required chain
     \<and> pe_publisher ev = chain_publisher chain
     \<and> (let obj = object_dir root (digest_hex (is_record src)) in
          if is_file mid (path_join obj RECORD_FILE)
          then pe_import_status ev = ''already-present''
            \<and> (\<exists>existing. read_record cd mid obj = Inr existing \<and> identity_kept existing (pe_record ev))
          else pe_import_status ev = ''imported'' \<and> pe_record ev = is_record src \<and> pe_import_path ev = obj
            \<and> (names_apart src \<longrightarrow> object_whole cd st' obj src))"

lemma removal_stays: "stays (within dir) st (snd (std_remove_dir_all dir st))"
proof -
  have "along (stays (within dir)) (std_remove_dir_all dir)" by (rule along_std(2)) simp
  then show ?thesis by (simp add: along_def)
qed

lemma objects_apart:
  assumes "is_sha256_ref (record_digest r)" "within (path_join (objects_dir root) x) q" "plain_name x"
  shows "\<not> within (pull_scratch root st) q"
  by (rule pull_scratch_apart [OF within_trans [OF objects_within [OF assms(3)] assms(2)]])

text \<open>The import of a verified snapshot, and the removal of the snapshot.\<close>

lemma pulled_import:
  fixes root st0 st chain src
  defines "scratch \<equiv> pull_scratch root st0" and "obj \<equiv> object_dir root (digest_hex (is_record src))"
  assumes snapshot: "node st scratch = Some Dir"
    and read: "read_source cd st scratch Imported = Some (Inr src)"
    and run: "store_import cd root scratch Imported st = Some (Inr out, st1)"
  shows "pull_reports cd root st (snd (std_remove_dir_all scratch st1)) chain src
     (evidence_of root reference resolved transfer chain out)"
proof (cases "is_file st (path_join obj RECORD_FILE)")
  case True
  then show ?thesis
    using reimport_result [OF read run] by (auto simp: pull_reports_def Let_def evidence_of_def obj_def)
next
  case False
  note ok = read_source_ok [OF read]
  note dirs = store_dirs [OF conjunct2 [OF conjunct2 [OF ok]]]
  have fresh: "import_fresh cd root src st = (Inr out, st1)"
    using run read False by (simp add: store_import_def obj_def)
  have out: "import_record out = is_record src" "\<not> import_already_present out"
    using import_fresh_Inr [OF fresh] by simp_all
  have dist: "is_dist src = scratch"
    using read snapshot
    by (auto simp: read_source_def finish_source_def res_simps locate_manifest_def Let_def is_dir_special
        split: sum.splits option.splits if_splits)
  have promised: "within scratch (path_join scratch x)" if "x \<in> set (map fst (promised src))" for x
  proof -
    have "plain_name x" using ok that by (auto simp: written_names_def)
    then show ?thesis unfolding scratch_def pull_scratch_def by (rule within_join [OF pull_name_plain])
  qed
  have "\<not> within (staging_dir root (digest_hex (is_record src)) (fs_pid st)) (path_join scratch x)"
    if "x \<in> set (map fst (promised src))" for x
    using promised [OF that] objects_apart [OF conjunct2 [OF conjunct2 [OF ok]] _ dirs(4)]
    unfolding scratch_def dirs(2) by blast
  then have apart: "source_apart root (fs_pid st) src"
    by (force simp: source_apart_def list_all_iff dist)
  have "object_whole cd (snd (std_remove_dir_all scratch st1)) obj src" if "names_apart src"
  proof (rule object_whole_stays [OF _ removal_stays])
    show "object_whole cd st1 obj src"
      using import_fresh_result [OF read fresh that apart] False by (simp add: obj_def)
    show "\<not> within scratch (path_join obj x)" if "x \<in> set (written_names src)" for x
      unfolding scratch_def obj_def dirs(3)
      by (rule objects_apart [OF conjunct2 [OF conjunct2 [OF ok]] within_join dirs(1)]) (use ok that dirs(1) in auto)
  qed
  then show ?thesis
    using False out by (simp add: pull_reports_def Let_def evidence_of_def obj_def)
qed

lemma read_source_total: "read_source cd st path source \<noteq> None"
  using verify_sbom_total
  by (auto simp: read_source_def import_sbom_def split: sum.splits option.splits)

lemma store_import_total: "\<exists>r st'. store_import cd root path source st = Some (r, st')"
  using read_source_total [of cd st path source]
  by (auto simp: store_import_def split: option.splits sum.splits)

lemma check_pull_pinned: "check_pull reference policy = Inr u \<Longrightarrow> is_pinned reference"
  by (simp add: check_pull_def split: if_splits)

text \<open>The steps after the resolution, over any transport that keeps the contract.\<close>

definition pull_outcome ::
  "store_codec \<Rightarrow> string \<Rightarrow> pull_policy \<Rightarrow> string option \<Rightarrow> string \<Rightarrow> fs \<Rightarrow> pull_evidence res \<Rightarrow> fs \<Rightarrow> bool"
where
  "pull_outcome cd root policy remote scratch st r st' \<longleftrightarrow>
     stays (within scratch) st st' \<and> \<not> is_ok r
     \<or> (\<exists>mid chain src. stays (within scratch) st mid
          \<and> dist_verified (sc_pull cd) mid scratch policy remote chain
          \<and> read_source cd mid scratch Imported = Some (Inr src) \<and> source_meets policy src
          \<and> (\<forall>ev. r = Inr ev \<longrightarrow> pull_reports cd root mid st' chain src ev))"

definition declared_selector :: "resolved_remote res \<Rightarrow> string option" where
  "declared_selector resolved = (case resolved of Inl _ \<Rightarrow> None | Inr r \<Rightarrow> rr_selector r)"

lemma pull_outcome_refused: "stays (within scratch) st st' \<Longrightarrow> pull_outcome cd root policy remote scratch st (Inl e) st'"
  by (simp add: pull_outcome_def)

lemma pull_outcome_before:
  assumes "stays (within scratch) st st1" "pull_outcome cd root policy remote scratch st1 r st'"
  shows "pull_outcome cd root policy remote scratch st r st'"
proof (cases "stays (within scratch) st1 st' \<and> \<not> is_ok r")
  case True
  then show ?thesis using stays.rel_trans [OF assms(1)] by (simp add: pull_outcome_def)
next
  case False
  then obtain mid chain src where "stays (within scratch) st1 mid"
    and rest: "dist_verified (sc_pull cd) mid scratch policy remote chain"
      "read_source cd mid scratch Imported = Some (Inr src)" "source_meets policy src"
      "\<forall>ev. r = Inr ev \<longrightarrow> pull_reports cd root mid st' chain src ev"
    using assms(2) by (auto simp: pull_outcome_def)
  then have "stays (within scratch) st mid" using stays.rel_trans [OF assms(1)] by blast
  then show ?thesis using rest unfolding pull_outcome_def by blast
qed

context snapshot_transport
begin

lemma pull_into_outcome:
  fixes root st0
  defines "scratch \<equiv> pull_scratch root st0"
  assumes dir: "node st scratch = Some Dir"
  shows "\<exists>r st1. pull_into cd tr reference resolved root policy scratch st = Some (r, st1)
     \<and> pull_outcome cd root policy (rr_selector resolved) scratch st r (snd (std_remove_dir_all scratch st1))"
proof -
  note ends = pull_scratch_ends [of root st0, folded scratch_def]
  obtain f st1 where fetch: "tr_fetch tr reference resolved scratch st = (f, st1)"
    by (cases "tr_fetch tr reference resolved scratch st")
  have first: "stays (inside scratch) st st1" by (rule stays_step [OF fetch_frame [OF ends(1,2)] fetch])
  have within: "stays (within scratch) st st1" by (rule stays_mono [OF first inside_within])
  have removed: "stays (within scratch) st (snd (std_remove_dir_all scratch st1))"
    by (rule stays.rel_trans [OF within removal_stays])
  show ?thesis
  proof (cases f)
    case (Inl e)
    then show ?thesis using fetch pull_outcome_refused [OF removed] by (simp add: pull_into_def)
  next
    case (Inr out)
    then have dist: "fo_dist out = scratch" using fetch_dist fetch by blast
    have dir1: "node st1 scratch = Some Dir" by (rule stays_node [OF first dir inside_self])
    let ?chain = "verify_dist (sc_pull cd) st1 scratch policy (rr_selector resolved)"
    have sound: "?chain \<noteq> None" "?chain = Some (Inr chain) \<Longrightarrow>
        dist_verified (sc_pull cd) st1 scratch policy (rr_selector resolved) chain" for chain
      using verify_dist_sound by blast+
    show ?thesis
    proof (cases "\<exists>chain. ?chain = Some (Inr chain)")
      case False
      then obtain e where "?chain = Some (Inl e)" using sound(1) by (metis option.exhaust sum.exhaust)
      then show ?thesis using fetch Inr dist pull_outcome_refused [OF removed] by (simp add: pull_into_def)
    next
      case True
      then obtain chain where chain: "?chain = Some (Inr chain)" ..
      obtain i st2 where run: "store_import cd root scratch Imported st1 = Some (i, st2)"
        using store_import_total by blast
      let ?r = "and_then i (\<lambda>x. Inr (evidence_of root reference resolved (fo_transfer out) chain x))"
      have "pull_into cd tr reference resolved root policy scratch st = Some (?r, st2)"
        using fetch Inr dist chain run by (simp add: pull_into_def)
      moreover have "pull_outcome cd root policy (rr_selector resolved) scratch st ?r (snd (std_remove_dir_all scratch st2))"
      proof (cases "read_source cd st1 scratch Imported")
        case None
        then show ?thesis using read_source_total by blast
      next
        case (Some source)
        show ?thesis
        proof (cases source)
          case (Inl e)
          then show ?thesis using Some run pull_outcome_refused [OF removed] by (auto simp: store_import_def)
        next
          case (Inr src)
          then have read: "read_source cd st1 scratch Imported = Some (Inr src)" using Some by simp
          have "pull_reports cd root st1 (snd (std_remove_dir_all scratch st2)) chain src ev" if ev: "?r = Inr ev" for ev
          proof -
            obtain x where "i = Inr x" "ev = evidence_of root reference resolved (fo_transfer out) chain x"
              using ev by (cases i) auto
            then show ?thesis
              using pulled_import [of st1 root st0 cd src, folded scratch_def, OF dir1 read] run by blast
          qed
          then show ?thesis
            using within sound(2) [OF chain] read source_agrees [OF sound(2) [OF chain] read]
            unfolding pull_outcome_def by blast
        qed
      qed
      ultimately show ?thesis by blast
    qed
  qed
qed

lemma pull_outcome_of:
  fixes reference st root
  defines "scratch \<equiv> pull_scratch root (snd (tr_resolve tr reference st))"
  shows "\<exists>r st'. pull cd tr reference root policy st = Some (r, st')
     \<and> (is_ok r \<longrightarrow> is_pinned reference)
     \<and> pull_outcome cd root policy (declared_selector (fst (tr_resolve tr reference st))) scratch st r st'"
proof (cases "check_pull reference policy")
  case (Inl e)
  then show ?thesis
    by (auto simp: pull_def intro!: pull_outcome_refused stays.rel_refl)
next
  case (Inr u)
  obtain rs st1 where resolve: "tr_resolve tr reference st = (rs, st1)" by (cases "tr_resolve tr reference st")
  have zero: "stays (within scratch) st st1"
    using stays_mono [OF stays_step [OF resolve_frame resolve]] by blast
  show ?thesis
  proof (cases rs)
    case (Inl e)
    then show ?thesis using Inr resolve pull_outcome_refused [OF zero] by (auto simp: pull_def)
  next
    case resolved: (Inr resolved)
    have scratch: "scratch = pull_scratch root st1" by (simp add: scratch_def resolve)
    obtain c st2 where create: "create_dirs (lineage scratch) st1 = (c, st2)"
      by (cases "create_dirs (lineage scratch) st1")
    have two: "stays (within scratch) st st2"
      by (rule stays.rel_trans [OF zero stays_step [OF along_create_dirs create]])
    show ?thesis
    proof (cases c)
      case (Inl e)
      then show ?thesis
        using Inr resolve resolved create pull_outcome_refused [OF two]
        by (cases e) (auto simp: pull_def scratch io_at_def std_create_dir_all_def)
    next
      case made: (Inr v)
      have "is_dir st2 scratch" using create_dirs_result [OF create] made lineage_last by auto
      then have "node st2 (pull_scratch root st1) = Some Dir"
        using is_dir_node pull_scratch_ends(3) scratch by simp
      from pull_into_outcome [OF this, of cd reference resolved policy] obtain r st3 where
        into: "pull_into cd tr reference resolved root policy (pull_scratch root st1) st2 = Some (r, st3)"
        and outcome: "pull_outcome cd root policy (rr_selector resolved) (pull_scratch root st1) st2 r
          (snd (std_remove_dir_all (pull_scratch root st1) st3))" by blast
      have "pull cd tr reference root policy st = Some (r, snd (std_remove_dir_all scratch st3))"
        using Inr resolve resolved create made into scratch by (simp add: pull_def io_at_def std_create_dir_all_def)
      then show ?thesis
        using check_pull_pinned [OF Inr] resolve resolved
          pull_outcome_before [OF two outcome [folded scratch]] by (simp add: declared_selector_def)
    qed
  qed
qed

end

text \<open>
  C5. A pull never panics, and what it imports is verified: for every reference, policy and state,
  and whatever operations fail, a pull from the local file system either is refused and changes
  nothing outside its own download directory, or it has verified the very snapshot it imports
  against the policy; when it succeeds the reference was pinned, the trust it reports is the trust
  established, a new digest is published whole under the verified identity and a stored one keeps
  its identity.
\<close>

theorem file_pull_verified:
  "\<exists>r st'. pull cd (file_transport cd) reference root policy st = Some (r, st')
     \<and> (is_ok r \<longrightarrow> is_pinned reference)
     \<and> (stays (within (pull_scratch root st)) st st' \<and> \<not> is_ok r
        \<or> (\<exists>mid chain src. stays (within (pull_scratch root st)) st mid
             \<and> dist_verified (sc_pull cd) mid (pull_scratch root st) policy None chain
             \<and> read_source cd mid (pull_scratch root st) Imported = Some (Inr src) \<and> source_meets policy src
             \<and> (\<forall>ev. r = Inr ev \<longrightarrow> pull_reports cd root mid st' chain src ev)))"
proof -
  have state: "snd (tr_resolve (file_transport cd) reference st) = st"
    and declared: "declared_selector (fst (tr_resolve (file_transport cd) reference st)) = None"
    by (auto simp: file_transport_def reads_def declared_selector_def file_resolve_def res_simps
        split: sum.splits if_splits option.splits)
  show ?thesis
    using local_files.pull_outcome_of [where cd = cd and reference = reference and st = st and root = root
        and policy = policy and cda = cd]
    unfolding state declared pull_outcome_def .
qed

section \<open>What a push guarantees\<close>


end
