(* ===== verification/TransportSamples.thy ===== *)
theory TransportSamples
  imports StoreSamples Transports
begin

text \<open>
  The guarantees of pulls and pushes at work: a distribution pulled into an empty store, and an
  artifact pushed from a store that holds it.
\<close>

definition sample_reference :: remote_reference where
  "sample_reference = File \<lparr> file_path = ''dist'' \<rparr>"

text \<open>A distribution without evidence, and a policy that pins its digest and its kind.\<close>

definition plain_codec :: store_codec where
  "plain_codec = sample_store_codec\<lparr>sc_index_json := (\<lambda>_. Inr ''index'')\<rparr>"

definition pinned_policy :: pull_policy where
  "pinned_policy = sample_pull_policy\<lparr>pp_openusd := None, pp_openusd_version := None, pp_require_sbom := False,
     pp_require_provenance := False, pp_minimum_trust := None\<rparr>"

definition plain_fs :: fs where
  "plain_fs = calm_fs [(''store'', Dir), (''dist'', Dir), (''dist/manifest.json'', Bytes ''manifest''),
     (''dist/usd.tar.zst'', Bytes ''data'')]"

lemma sample_pulled:
  "map_option (is_ok \<circ> fst) (pull plain_codec (file_transport plain_codec) sample_reference ''store''
     pinned_policy plain_fs) = Some True"
  by code_simp

theorem file_pull_verified_witness:
  "\<exists>ev st' mid chain src. pull plain_codec (file_transport plain_codec) sample_reference ''store'' pinned_policy plain_fs
       = Some (Inr ev, st')
     \<and> dist_verified (sc_pull plain_codec) mid (pull_scratch ''store'' plain_fs) pinned_policy None chain
     \<and> record_digest (is_record src) = sample_digest \<and> pull_reports plain_codec ''store'' mid st' chain src ev"
proof -
  have pin: "pp_expected_digest pinned_policy = Some sample_digest"
    by (simp add: pinned_policy_def sample_pull_policy_def sample_digest_def)
  show ?thesis
    using file_pull_verified [of plain_codec sample_reference "''store''" pinned_policy plain_fs] sample_pulled pin
    by (fastforce simp: is_ok_iff source_meets_def)
qed

text \<open>A transport whose destination takes everything.\<close>

definition sample_outcome_of :: "push_source \<Rightarrow> push_outcome" where
  "sample_outcome_of source =
     \<lparr> po_oci_digest = sample_digest, po_artifact_digest = record_digest (ps_record source),
       po_locator = ''oci://registry/usd'', po_registry = ''registry'', po_repository = ''usd'',
       po_already_present = False, po_auth_mode = ''none'' \<rparr>"

definition sample_transport :: transport where
  "sample_transport = file_transport sample_store_codec\<lparr>tr_push := (\<lambda>source _. pure (Inr (sample_outcome_of source)))\<rparr>"

lemma sample_pushed:
  "is_ok (fst (push sample_store_codec sample_transport ''shop'' sample_digest sample_reference stocked_fs))"
  by code_simp


end
