(* ===== verification/Projects.thy ===== *)
theory Projects
  imports FileSystem
begin

text \<open>
  The project manifest \<^verbatim>\<open>openstrata.toml\<close> (ost-manifest/src/project.rs): its data, the checks a
  loaded manifest has passed, and the version it resolves to.  The TOML reader and writer are
  arguments; the edits of a manifest in place, which only rearrange a TOML document, are left out.
\<close>

section \<open>Data\<close>

definition PROJECT_MANIFEST :: string where
  "PROJECT_MANIFEST = ''openstrata.toml''"

record project_meta =
  meta_name :: string
  meta_version :: "string option"
  meta_version_file :: "string option"
  meta_description :: "string option"

record requires_table =
  requires_platform :: string
  requires_profile :: string
  requires_capabilities :: "string list"
  requires_named :: "string list"

datatype build_cache_type = CacheBool | CacheString | CachePath | CacheFilepath

datatype build_path_portability = Portable | LocalOverride

datatype build_cache_value = BoolValue bool | StringValue string

record build_cache_entry =
  cache_kind :: build_cache_type
  cache_value :: build_cache_value
  cache_portability :: "build_path_portability option"

type_synonym build_cache = "(string, build_cache_entry) btree_map"

record build_intent_config =
  intent_cache :: build_cache

record build_config =
  build_compiler :: string
  build_cc :: "string option"
  build_cxx :: "string option"
  build_cache_base :: build_cache
  build_intents :: "(string, build_intent_config) btree_map"

record host_discovery_config =
  discovery_roots :: "string list"
  discovery_max_depth :: "8 word option"
  discovery_families :: "string list"

record host_config =
  host_discovery :: "host_discovery_config option"

record workspace_install_data =
  data_source :: string
  data_destination :: string
  data_include :: "string list"

record workspace_config =
  workspace_members :: "string list"
  workspace_release_members :: "string list option"
  workspace_release_exclude :: "string list"
  workspace_install_data :: "workspace_install_data list"

record project =
  project_table :: project_meta
  project_requires :: requires_table
  project_build :: "build_config option"
  project_host :: "host_config option"
  project_workspace :: "workspace_config option"

definition MAX_DISCOVERY_DEPTH :: "8 word" where
  "MAX_DISCOVERY_DEPTH = 4"

definition DEFAULT_DISCOVERY_DEPTH :: "8 word" where
  "DEFAULT_DISCOVERY_DEPTH = 2"

definition MAX_WORKSPACE_MEMBER_DEPTH :: nat where
  "MAX_WORKSPACE_MEMBER_DEPTH = 8"

definition default_version :: string where
  "default_version = ''0.1.0''"

definition default_profile :: string where
  "default_profile = ''core''"

definition default_compiler :: string where
  "default_compiler = ''host''"

definition default_build :: build_config where
  "default_build = \<lparr> build_compiler = default_compiler, build_cc = None, build_cxx = None,
     build_cache_base = [], build_intents = [] \<rparr>"

definition project_scaffold :: "string \<Rightarrow> string \<Rightarrow> project" where
  "project_scaffold name platform =
     \<lparr> project_table = \<lparr> meta_name = name, meta_version = Some default_version, meta_version_file = None,
         meta_description = None \<rparr>,
       project_requires = \<lparr> requires_platform = platform, requires_profile = ''usd'', requires_capabilities = [],
         requires_named = [] \<rparr>,
       project_build = None, project_host = None, project_workspace = None \<rparr>"

section \<open>Words and paths\<close>

text \<open>\<^verbatim>\<open>contains([c, ...])\<close>\<close>

definition has_any :: "string \<Rightarrow> string \<Rightarrow> bool" where
  "has_any cs s = list_ex (\<lambda>c. c \<in> set cs) s"

fun is_path_type :: "build_cache_type \<Rightarrow> bool" where
  "is_path_type CachePath = True"
| "is_path_type CacheFilepath = True"
| "is_path_type _ = False"

fun cache_type_debug :: "build_cache_type \<Rightarrow> string" where
  "cache_type_debug CacheBool = ''Bool''"
| "cache_type_debug CacheString = ''String''"
| "cache_type_debug CachePath = ''Path''"
| "cache_type_debug CacheFilepath = ''Filepath''"

definition safe_relative_file :: "string \<Rightarrow> bool" where
  "safe_relative_file path \<longleftrightarrow>
     path \<noteq> [] \<and> \<not> any_slash (hd path) \<and> CHR '':'' \<notin> set path
     \<and> \<not> list_ex (\<lambda>part. part = ''..'') (split_on any_slash path)"

definition safe_cache_variable :: "string \<Rightarrow> bool" where
  "safe_cache_variable name \<longleftrightarrow>
     name \<noteq> [] \<and> is_ascii_alphabetic (hd name) \<and> list_all (\<lambda>c. is_ascii_alphanumeric c \<or> c = CHR ''_'') name"

definition safe_intent_name :: "string \<Rightarrow> bool" where
  "safe_intent_name name \<longleftrightarrow>
     name \<noteq> [] \<and> is_ascii_alphanumeric (hd name)
     \<and> list_all (\<lambda>c. is_ascii_alphanumeric c \<or> c \<in> set ''._-'') name"

definition safe_family_name :: "string \<Rightarrow> bool" where
  "safe_family_name name \<longleftrightarrow>
     name \<noteq> [] \<and> is_ascii_lowercase (hd name)
     \<and> list_all (\<lambda>c. is_ascii_lowercase c \<or> is_ascii_digit c \<or> c = CHR ''-'') name"

text \<open>Every byte is checked with its index: the empty id passes.\<close>

definition portable_release_member_id :: "string \<Rightarrow> bool" where
  "portable_release_member_id s \<longleftrightarrow>
     list_all (\<lambda>(i, c). is_ascii_alphanumeric c \<or> (0 < i \<and> c \<in> set ''._-'')) (enumerate 0 s)"

definition is_absolute_declared_path :: "string \<Rightarrow> bool" where
  "is_absolute_declared_path path \<longleftrightarrow>
     starts_with ''/'' path \<or> starts_with [CHR 0x5C] path
     \<or> (case path of a # b # c # _ \<Rightarrow> is_ascii_alphabetic a \<and> b = CHR '':'' \<and> any_slash c | _ \<Rightarrow> False)"

definition trim_end_slashes :: "string \<Rightarrow> string" where
  "trim_end_slashes s = rev (dropWhile slash (rev s))"

definition is_filesystem_root :: "string \<Rightarrow> bool" where
  "is_filesystem_root path \<longleftrightarrow>
     (let normalized = replace_char (CHR 0x5C) (CHR ''/'') path; trimmed = trim_end_slashes normalized
      in trimmed = [] \<or> (length trimmed = 2 \<and> trimmed ! 1 = CHR '':'')
         \<or> dropWhile slash (trim_end_slashes normalized) = [])"

definition discovery_root_problem :: "string \<Rightarrow> string option" where
  "discovery_root_problem root =
     (let trimmed = trim root in
      if trimmed = [] then Some ''must not be empty''
      else if trimmed \<noteq> root then Some ''must not have leading or trailing whitespace''
      else if has_any ''*?[]{}'' trimmed
      then Some ''must be a literal directory: discovery roots are declarative, not globs''
      else if CHR 0x24 \<in> set trimmed \<or> CHR ''%'' \<in> set trimmed
      then Some ''must not need shell or environment expansion''
      else if \<not> is_absolute_declared_path trimmed then Some ''must be an absolute path''
      else if list_ex (\<lambda>part. part = ''..'') (split_on any_slash trimmed) then Some (''must not contain '' @ quoted ''..'')
      else if is_filesystem_root trimmed
      then Some ''must not be a filesystem root: discovery is bounded, never disk-wide''
      else None)"

definition workspace_data_path_problem :: "string \<Rightarrow> string option" where
  "workspace_data_path_problem s =
     (if s = [] then Some ''must not be empty''
      else if trim s \<noteq> s then Some ''must not have leading or trailing whitespace''
      else if any_slash (hd s) \<or> CHR '':'' \<in> set s \<or> CHR 0x5C \<in> set s
      then Some ''must be a portable project-relative path''
      else if has_any ''*?'' s then Some ''must not contain glob patterns''
      else if list_ex (\<lambda>c. c = [] \<or> c = ''.'' \<or> c = ''..'') (split_on slash s)
      then Some (''must not contain empty, '' @ quoted ''.'' @ '' or '' @ quoted ''..'' @ '' components'')
      else None)"

definition workspace_data_include_problem :: "string \<Rightarrow> string option" where
  "workspace_data_include_problem s =
     (if s = [] then Some ''must not be empty''
      else if trim s \<noteq> s then Some ''must not have leading or trailing whitespace''
      else if has_any [CHR ''/'', CHR 0x5C, CHR '':''] s \<or> s = ''.'' \<or> s = ''..''
      then Some ''must be a portable file-basename pattern''
      else if has_any ''[]{}'' s
      then Some (''may use only '' @ quoted ''*'' @ '' and '' @ quoted ''?'' @ '' glob metacharacters'')
      else if has_any [CHR 0x24, CHR ''~'', CHR ''%''] s
      then Some ''must not need shell or environment expansion''
      else None)"

fun member_components_problem :: "string list \<Rightarrow> string option" where
  "member_components_problem [] = None"
| "member_components_problem (c # cs) =
     (if c = [] \<or> c = ''.'' \<or> c = ''..'' then Some ''must contain only non-empty child path components''
      else if starts_with ''.'' c \<or> c \<in> {''target'', ''build'', ''out'', ''node_modules''}
      then Some ''must not select a generated or OpenStrata state directory''
      else member_components_problem cs)"

definition workspace_member_problem :: "string \<Rightarrow> string option" where
  "workspace_member_problem m =
     (if m = [] then Some ''must not be empty''
      else if trim m \<noteq> m then Some ''must not have leading or trailing whitespace''
      else if m = ''.'' then None
      else if any_slash (hd m) \<or> CHR '':'' \<in> set m then Some ''must be a project-relative path''
      else if CHR 0x5C \<in> set m then Some (''must use portable '' @ quoted ''/'' @ '' separators'')
      else if contains_str ''**'' m then Some (''must not use recursive '' @ quoted ''**'' @ '' globs'')
      else if has_any ''[]{}'' m
      then Some (''may use only '' @ quoted ''*'' @ '' and '' @ quoted ''?'' @ '' glob metacharacters'')
      else if has_any [CHR 0x24, CHR ''~'', CHR ''%''] m
      then Some ''must not need shell or environment expansion''
      else if length (split_on slash m) > MAX_WORKSPACE_MEMBER_DEPTH
      then Some ''exceeds the maximum workspace member depth of 8''
      else member_components_problem (split_on slash m))"

section \<open>Validation\<close>

definition reject :: "string \<Rightarrow> unit res" where
  "reject why = Inl (InvalidManifest why)"

definition validate_version_source :: "project_meta \<Rightarrow> unit res" where
  "validate_version_source m =
     (case (meta_version m, meta_version_file m) of
        (Some version, None) \<Rightarrow>
          if trim version \<noteq> [] then Inr ()
          else Inl (config_error ''[project] must declare a non-empty version or version_file'')
      | (None, Some path) \<Rightarrow>
          if safe_relative_file path then Inr ()
          else Inl (config_error (''project.version_file '' @ quoted path @ '' must be a safe repo-relative path''))
      | (Some _, Some _) \<Rightarrow> Inl (config_error ''[project] must declare either version or version_file, not both'')
      | (None, None) \<Rightarrow> Inl (config_error ''[project] must declare a non-empty version or version_file''))"

definition cache_value_matches :: "build_cache_type \<Rightarrow> build_cache_value \<Rightarrow> bool" where
  "cache_value_matches kind v =
     (case v of
        BoolValue _ \<Rightarrow> kind = CacheBool
      | StringValue s \<Rightarrow> kind \<noteq> CacheBool \<and> (\<not> is_path_type kind \<or> s \<noteq> []))"

definition validate_cache_entry :: "string \<Rightarrow> string \<times> build_cache_entry \<Rightarrow> unit res" where
  "validate_cache_entry scope = (\<lambda>(variable, entry).
     let key = scope @ ''.'' @ variable; kind = cache_kind entry in
     if \<not> safe_cache_variable variable
     then reject (scope @ '' key '' @ quoted variable @ '' is not a safe CMake cache variable'')
     else if variable = ''CMAKE_BUILD_TYPE'' \<or> variable = ''CMAKE_MAKE_PROGRAM''
     then reject (key @ '' is owned by ost; use --config or --ninja'')
     else if variable = ''CMAKE_TOOLCHAIN_FILE'' \<and> kind \<noteq> CacheFilepath
     then reject (scope @ ''.CMAKE_TOOLCHAIN_FILE must use type FILEPATH'')
     else if variable = ''CMAKE_PREFIX_PATH'' \<and> kind \<noteq> CachePath
     then reject (scope @ ''.CMAKE_PREFIX_PATH must use type PATH'')
     else if \<not> cache_value_matches kind (cache_value entry)
     then reject (if kind = CacheBool then key @ ''.value must be a TOML boolean for type BOOL''
            else key @ ''.value must be a non-empty TOML string for type '' @ cache_type_debug kind)
     else if is_path_type kind \<and> cache_portability entry = None
     then reject (key @ ''.portability is required for PATH/FILEPATH inputs (portable or local-override)'')
     else if \<not> is_path_type kind \<and> cache_portability entry \<noteq> None
     then reject (key @ ''.portability is only valid for PATH/FILEPATH inputs'')
     else Inr ())"

definition validate_build_cache :: "string \<Rightarrow> build_cache \<Rightarrow> unit res" where
  "validate_build_cache scope cache = for_each (validate_cache_entry scope) cache"

definition validate_intent :: "string \<times> build_intent_config \<Rightarrow> unit res" where
  "validate_intent = (\<lambda>(name, intent).
     if name = ''default'' then reject (''build intent name '' @ quoted ''default'' @ '' is reserved by ost'')
     else if \<not> safe_intent_name name
     then reject (''build intent name '' @ quoted name @ '' must match [A-Za-z0-9][A-Za-z0-9._-]*'')
     else validate_build_cache (''build.intents.'' @ name @ ''.cache'') (intent_cache intent))"

definition validate_build_intents :: "build_config option \<Rightarrow> unit res" where
  "validate_build_intents b =
     (case b of
        None \<Rightarrow> Inr ()
      | Some build \<Rightarrow>
          and_then (validate_build_cache ''build.cache'' (build_cache_base build)) (\<lambda>_.
            for_each validate_intent (build_intents build)))"

definition validate_discovery_root :: "string \<Rightarrow> unit res" where
  "validate_discovery_root root =
     (case discovery_root_problem root of
        None \<Rightarrow> Inr ()
      | Some reason \<Rightarrow> reject (''host.discovery.roots entry '' @ quoted root @ '' '' @ reason))"

definition validate_discovery_depth :: "8 word option \<Rightarrow> unit res" where
  "validate_discovery_depth d =
     (case d of
        None \<Rightarrow> Inr ()
      | Some depth \<Rightarrow>
          if depth = 0 \<or> depth > MAX_DISCOVERY_DEPTH
          then reject (''host.discovery.max_depth must be between 1 and '' @ to_decimal (unat MAX_DISCOVERY_DEPTH) @
                 '' (got '' @ to_decimal (unat depth) @ '')'')
          else Inr ())"

definition validate_family :: "string \<Rightarrow> unit res" where
  "validate_family family =
     (if safe_family_name family then Inr ()
      else reject (''host.discovery.families entry '' @ quoted family @ '' must match [a-z][a-z0-9-]*''))"

definition validate_host_discovery :: "host_config option \<Rightarrow> unit res" where
  "validate_host_discovery h =
     (case Option.bind h host_discovery of
        None \<Rightarrow> Inr ()
      | Some discovery \<Rightarrow>
          and_then (for_each validate_discovery_root (discovery_roots discovery)) (\<lambda>_.
          and_then (validate_discovery_depth (discovery_max_depth discovery)) (\<lambda>_.
            for_each validate_family (discovery_families discovery))))"

text \<open>The loops over the workspace table, each with the entries it has seen.\<close>

definition member_step :: "string btree_set \<Rightarrow> string \<Rightarrow> error + string btree_set" where
  "member_step seen member =
     (case workspace_member_problem member of
        Some reason \<Rightarrow> Inl (InvalidManifest (''workspace.members entry '' @ quoted member @ '' '' @ reason))
      | None \<Rightarrow>
          if member \<in> set seen
          then Inl (InvalidManifest (''workspace.members entry '' @ quoted member @ '' is duplicated''))
          else Inr (bs_insert member seen))"

definition release_step :: "string btree_set \<Rightarrow> string \<Rightarrow> error + string btree_set" where
  "release_step seen i =
     (if \<not> portable_release_member_id i
      then Inl (InvalidManifest (''workspace release member id '' @ quoted i @ '' must match [A-Za-z0-9][A-Za-z0-9._-]*''))
      else if i \<in> set seen
      then Inl (InvalidManifest (''workspace release member id '' @ quoted i @
             '' is duplicated across release_members/release_exclude''))
      else Inr (bs_insert i seen))"

definition include_step :: "string btree_set \<Rightarrow> string \<Rightarrow> error + string btree_set" where
  "include_step seen pattern =
     (case workspace_data_include_problem pattern of
        Some reason \<Rightarrow>
          Inl (InvalidManifest (''workspace.install_data include pattern '' @ quoted pattern @ '' '' @ reason))
      | None \<Rightarrow>
          if pattern \<in> set seen
          then Inl (InvalidManifest (''workspace.install_data include pattern '' @ quoted pattern @ '' is duplicated''))
          else Inr (bs_insert pattern seen))"

definition data_step ::
  "string btree_set \<times> string btree_set \<Rightarrow> workspace_install_data \<Rightarrow> error + (string btree_set \<times> string btree_set)"
where
  "data_step = (\<lambda>(sources, destinations) mapping.
     let source = data_source mapping; destination = data_destination mapping in
     case workspace_data_path_problem source of
       Some reason \<Rightarrow> Inl (InvalidManifest (''workspace.install_data source '' @ quoted source @ '' '' @ reason))
     | None \<Rightarrow>
         (case workspace_data_path_problem destination of
            Some reason \<Rightarrow>
              Inl (InvalidManifest (''workspace.install_data destination '' @ quoted destination @ '' '' @ reason))
          | None \<Rightarrow>
              if \<not> starts_with ''share/'' destination
              then Inl (InvalidManifest (''workspace.install_data destination '' @ quoted destination @
                     '' must be a directory below share/''))
              else if source \<in> set sources
              then Inl (InvalidManifest (''workspace.install_data source '' @ quoted source @ '' is duplicated''))
              else if destination \<in> set destinations
              then Inl (InvalidManifest (''workspace.install_data destination '' @ quoted destination @ '' is duplicated''))
              else and_then (try_fold include_step [] (data_include mapping)) (\<lambda>_.
                     Inr (bs_insert source sources, bs_insert destination destinations))))"

definition release_ids :: "workspace_config \<Rightarrow> string list" where
  "release_ids w =
     (case workspace_release_members w of None \<Rightarrow> [] | Some ids \<Rightarrow> ids) @ workspace_release_exclude w"

definition validate_project_workspace :: "workspace_config option \<Rightarrow> unit res" where
  "validate_project_workspace w =
     (case w of
        None \<Rightarrow> Inr ()
      | Some workspace \<Rightarrow>
          and_then (try_fold member_step [] (workspace_members workspace)) (\<lambda>_.
          and_then (try_fold release_step [] (release_ids workspace)) (\<lambda>_.
            if workspace_release_members workspace = Some []
            then reject ''workspace.release_members must not be empty when declared''
            else and_then (try_fold data_step ([], []) (workspace_install_data workspace)) (\<lambda>_. Inr ()))))"

section \<open>Loading, writing and the version\<close>

definition with_default_version :: "project \<Rightarrow> project" where
  "with_default_version p =
     (let m = project_table p in
      if meta_version m = None \<and> meta_version_file m = None
      then p\<lparr>project_table := m\<lparr>meta_version := Some default_version\<rparr>\<rparr> else p)"

definition project_from_toml :: "(string \<Rightarrow> string + project) \<Rightarrow> string \<Rightarrow> project res" where
  "project_from_toml from_str src =
     (case from_str src of
        Inl e \<Rightarrow>
          Inl (if contains_str ''unknown field'' e
               then InvalidManifest (PROJECT_MANIFEST @ '' uses a key unknown to this ost version: '' @ e)
               else Parse PROJECT_MANIFEST e)
      | Inr raw \<Rightarrow>
          (let p = with_default_version raw in
           and_then (validate_version_source (project_table p)) (\<lambda>_.
           and_then (validate_build_intents (project_build p)) (\<lambda>_.
           and_then (validate_host_discovery (project_host p)) (\<lambda>_.
           and_then (validate_project_workspace (project_workspace p)) (\<lambda>_.
             Inr p))))))"

definition project_to_toml :: "(project \<Rightarrow> string + string) \<Rightarrow> project \<Rightarrow> string res" where
  "project_to_toml to_string p =
     and_then (validate_version_source (project_table p)) (\<lambda>_.
     and_then (validate_project_workspace (project_workspace p)) (\<lambda>_.
       case to_string p of Inl e \<Rightarrow> Inl (Parse PROJECT_MANIFEST e) | Inr s \<Rightarrow> Inr s))"

text \<open>The number of \<^verbatim>\<open>lines()\<close>: a line break at the end starts no line.\<close>

definition line_count :: "string \<Rightarrow> nat" where
  "line_count s =
     (let parts = split_on (\<lambda>c. c = CHR 0x0A) s in if last parts = [] then length parts - 1 else length parts)"

text \<open>\<^const>\<open>None\<close> is the panic of the \<^verbatim>\<open>expect\<close>.\<close>

definition effective_version :: "disk \<Rightarrow> project \<Rightarrow> string \<Rightarrow> (string res) option" where
  "effective_version d p root =
     (case validate_version_source (project_table p) of
        Inl e \<Rightarrow> Some (Inl e)
      | Inr _ \<Rightarrow>
          (case meta_version (project_table p) of
             Some version \<Rightarrow> Some (Inr version)
           | None \<Rightarrow>
               map_option (\<lambda>relative.
                   and_then (disk_read_text d (path_join root relative)) (\<lambda>source.
                     let version = trim source in
                     if version = [] \<or> line_count version \<noteq> 1
                     then Inl (config_error (''project.version_file '' @ quoted relative @
                            '' must contain one non-empty line''))
                     else Inr version))
                 (meta_version_file (project_table p))))"

section \<open>What the checks establish\<close>

lemma data_path_ok:
  assumes "workspace_data_path_problem s = None"
  shows "s \<noteq> [] \<and> \<not> any_slash (hd s) \<and> split_on any_slash s = split_on slash s
     \<and> (\<forall>c \<in> set (split_on slash s). c \<noteq> [] \<and> c \<noteq> ''.'' \<and> c \<noteq> ''..'')"
  using assms by (auto simp: workspace_data_path_problem_def list_ex_iff slashes split: if_splits)

lemma member_components_ok:
  "member_components_problem cs = None \<longleftrightarrow>
     (\<forall>c \<in> set cs. c \<noteq> [] \<and> \<not> starts_with ''.'' c \<and> c \<notin> {''target'', ''build'', ''out'', ''node_modules''})"
  by (induction cs rule: member_components_problem.induct) (auto simp: starts_with_def)

lemma member_ok:
  assumes "workspace_member_problem m = None" "m \<noteq> ''.''"
  shows "m \<noteq> [] \<and> \<not> any_slash (hd m) \<and> split_on any_slash m = split_on slash m
     \<and> length (split_on slash m) \<le> MAX_WORKSPACE_MEMBER_DEPTH
     \<and> (\<forall>c \<in> set (split_on slash m). c \<noteq> [] \<and> \<not> starts_with ''.'' c)"
  using assms
  by (auto simp: workspace_member_problem_def slashes member_components_ok split: if_splits)

interpretation version_file: path_guard any_slash safe_relative_file
  by unfold_locales (auto simp: safe_relative_file_def list_ex_iff intro: contained_no_parent)

interpretation data_path: path_guard any_slash "\<lambda>s. workspace_data_path_problem s = None"
proof
  show "contained any_slash s" if "workspace_data_path_problem s = None" for s
    using data_path_ok [OF that] by (intro contained_no_parent) auto
qed

interpretation member_pattern: path_guard any_slash "\<lambda>m. workspace_member_problem m = None"
proof
  fix m assume ok: "workspace_member_problem m = None"
  show "contained any_slash m"
  proof (cases "m = ''.''")
    case True
    then show ?thesis by (simp add: contained_def any_slash_def)
  next
    case False
    have "\<not> starts_with ''.'' ''..'' \<longleftrightarrow> False" by code_simp
    then show ?thesis using member_ok [OF ok False] by (auto intro!: contained_no_parent)
  qed
qed

interpretation member_loop: unique_loop member_step "\<lambda>m. workspace_member_problem m = None" "\<lambda>m. m"
  by unfold_locales (auto simp: member_step_def split: option.splits)

interpretation release_loop: unique_loop release_step portable_release_member_id "\<lambda>i. i"
  by unfold_locales (auto simp: release_step_def)

interpretation include_loop: unique_loop include_step "\<lambda>m. workspace_data_include_problem m = None" "\<lambda>m. m"
  by unfold_locales (auto simp: include_step_def split: option.splits)

definition mapping_ok :: "workspace_install_data \<Rightarrow> bool" where
  "mapping_ok d \<longleftrightarrow> workspace_data_path_problem (data_source d) = None
     \<and> workspace_data_path_problem (data_destination d) = None \<and> starts_with ''share/'' (data_destination d)
     \<and> (\<forall>pattern \<in> set (data_include d). workspace_data_include_problem pattern = None) \<and> distinct (data_include d)"

lemma data_step_ok:
  "data_step (sources, destinations) d = Inr (sources', destinations') \<Longrightarrow>
     mapping_ok d \<and> data_source d \<notin> set sources \<and> data_destination d \<notin> set destinations
     \<and> sources' = bs_insert (data_source d) sources \<and> destinations' = bs_insert (data_destination d) destinations"
  using include_loop.loop_from_empty [of "data_include d"]
  by (auto simp: data_step_def mapping_ok_def Let_def res_simps split: option.splits if_splits)

lemma data_loop:
  "try_fold data_step (sources, destinations) ds = Inr u \<Longrightarrow>
     (\<forall>d \<in> set ds. mapping_ok d \<and> data_source d \<notin> set sources \<and> data_destination d \<notin> set destinations)
     \<and> distinct (map data_source ds) \<and> distinct (map data_destination ds)"
proof (induction ds arbitrary: sources destinations)
  case (Cons d ds)
  obtain s1 d1 where step: "data_step (sources, destinations) d = Inr (s1, d1)"
    and rest: "try_fold data_step (s1, d1) ds = Inr u"
    using Cons.prems by (auto simp: res_simps)
  from Cons.IH [OF rest] data_step_ok [OF step] show ?case by auto
qed simp

text \<open>A destination is strictly below the shared directory.\<close>

lemma destination_below_share:
  assumes "workspace_data_path_problem s = None" "starts_with ''share/'' s"
  shows "\<exists>names. names \<noteq> [] \<and> walk base (split_on any_slash s) = Some (base @ ''share'' # names)"
proof -
  note ok = data_path_ok [OF assms(1)]
  obtain rest where rest: "s = ''share/'' @ rest" using assms(2) by (auto simp: starts_with_def strip_prefix_Some)
  have split: "split_on slash s = ''share'' # split_on slash rest" unfolding rest by (simp add: slash_def)
  have "filter (\<lambda>x. x \<noteq> [] \<and> x \<noteq> ''.'') (split_on slash s) = split_on slash s"
    using ok by (auto simp: filter_id_conv)
  moreover have "''..'' \<notin> set (split_on slash s)" using ok by blast
  ultimately have "walk base (split_on slash s) = Some (base @ split_on slash s)" by (simp add: walk_no_parent)
  then show ?thesis using ok split by auto
qed

definition version_sound :: "project_meta \<Rightarrow> bool" where
  "version_sound m \<longleftrightarrow>
     (\<exists>version. meta_version m = Some version \<and> trim version \<noteq> [] \<and> meta_version_file m = None)
     \<or> (\<exists>path. meta_version m = None \<and> meta_version_file m = Some path \<and> path \<noteq> [] \<and> contained any_slash path)"

definition cache_sound :: "build_cache \<Rightarrow> bool" where
  "cache_sound cache \<longleftrightarrow> (\<forall>(variable, entry) \<in> set cache.
     safe_cache_variable variable \<and> variable \<notin> {''CMAKE_BUILD_TYPE'', ''CMAKE_MAKE_PROGRAM''}
     \<and> cache_value_matches (cache_kind entry) (cache_value entry)
     \<and> (is_path_type (cache_kind entry) \<longleftrightarrow> cache_portability entry \<noteq> None))"

definition build_sound :: "build_config \<Rightarrow> bool" where
  "build_sound b \<longleftrightarrow> cache_sound (build_cache_base b)
     \<and> (\<forall>(name, intent) \<in> set (build_intents b). name \<noteq> ''default'' \<and> safe_intent_name name \<and> cache_sound (intent_cache intent))"

definition discovery_sound :: "host_discovery_config \<Rightarrow> bool" where
  "discovery_sound h \<longleftrightarrow>
     (\<forall>root \<in> set (discovery_roots h). is_absolute_declared_path root \<and> ''..'' \<notin> set (split_on any_slash root)
        \<and> \<not> is_filesystem_root root)
     \<and> (\<forall>depth. discovery_max_depth h = Some depth \<longrightarrow> 1 \<le> depth \<and> depth \<le> MAX_DISCOVERY_DEPTH)"

definition workspace_sound :: "workspace_config \<Rightarrow> bool" where
  "workspace_sound w \<longleftrightarrow>
     (\<forall>m \<in> set (workspace_members w). contained any_slash m
        \<and> (m = ''.'' \<or> length (split_on slash m) \<le> MAX_WORKSPACE_MEMBER_DEPTH
             \<and> (\<forall>c \<in> set (split_on slash m). c \<noteq> [] \<and> \<not> starts_with ''.'' c)))
     \<and> distinct (workspace_members w)
     \<and> distinct (release_ids w) \<and> workspace_release_members w \<noteq> Some []
     \<and> (\<forall>d \<in> set (workspace_install_data w). contained any_slash (data_source d)
          \<and> (\<forall>base. \<exists>names. names \<noteq> []
               \<and> walk base (split_on any_slash (data_destination d)) = Some (base @ ''share'' # names)))
     \<and> distinct (map data_source (workspace_install_data w)) \<and> distinct (map data_destination (workspace_install_data w))"

lemma version_source_ok: "validate_version_source m = Inr () \<Longrightarrow> version_sound m"
  using version_file.accepted_contained
  by (auto simp: validate_version_source_def version_sound_def safe_relative_file_def split: option.splits if_splits)

lemma cache_ok: "validate_build_cache scope cache = Inr () \<Longrightarrow> cache_sound cache"
  by (auto simp: validate_build_cache_def cache_sound_def res_simps validate_cache_entry_def reject_def Let_def
      split: if_splits)

lemma build_ok: "validate_build_intents b = Inr () \<Longrightarrow> b = Some build \<Longrightarrow> build_sound build"
  by (auto simp: validate_build_intents_def build_sound_def res_simps validate_intent_def reject_def
      dest!: cache_ok split: if_splits) 

lemma discovery_root_ok:
  assumes "validate_discovery_root root = Inr ()"
  shows "is_absolute_declared_path root \<and> ''..'' \<notin> set (split_on any_slash root) \<and> \<not> is_filesystem_root root"
proof -
  have "discovery_root_problem root = None"
    using assms by (auto simp: validate_discovery_root_def reject_def split: option.splits)
  then show ?thesis
    unfolding discovery_root_problem_def Let_def list_ex_iff by (metis option.distinct(1))
qed

lemma discovery_depth_ok:
  "validate_discovery_depth (Some depth) = Inr () \<Longrightarrow> 1 \<le> depth \<and> depth \<le> MAX_DISCOVERY_DEPTH"
  by (auto simp: validate_discovery_depth_def reject_def word_le_nat_alt word_less_nat_alt unat_gt_0 Suc_le_eq split: if_splits)

lemma discovery_ok:
  "validate_host_discovery h = Inr () \<Longrightarrow> Option.bind h host_discovery = Some discovery \<Longrightarrow> discovery_sound discovery"
  by (auto simp: validate_host_discovery_def discovery_sound_def res_simps
      dest: discovery_root_ok discovery_depth_ok)

lemma workspace_ok:
  assumes "validate_project_workspace w = Inr ()" "w = Some workspace"
  shows "workspace_sound workspace"
proof -
  obtain members ids data where members: "try_fold member_step [] (workspace_members workspace) = Inr members"
    and ids: "try_fold release_step [] (release_ids workspace) = Inr ids"
    and declared: "workspace_release_members workspace \<noteq> Some []"
    and data: "try_fold data_step ([], []) (workspace_install_data workspace) = Inr data"
    using assms by (auto simp: validate_project_workspace_def res_simps reject_def split: if_splits)
  note loops = member_loop.loop_from_empty [OF members] release_loop.loop_from_empty [OF ids] data_loop [OF data]
  have "contained any_slash m \<and> (m = ''.'' \<or> length (split_on slash m) \<le> MAX_WORKSPACE_MEMBER_DEPTH
      \<and> (\<forall>c \<in> set (split_on slash m). c \<noteq> [] \<and> \<not> starts_with ''.'' c))"
    if "m \<in> set (workspace_members workspace)" for m
  proof -
    have ok: "workspace_member_problem m = None" using loops(1) that by blast
    then show ?thesis using member_pattern.accepted_contained [OF ok] member_ok [OF ok] by blast
  qed
  moreover have "contained any_slash (data_source d) \<and> (\<forall>base. \<exists>names. names \<noteq> []
      \<and> walk base (split_on any_slash (data_destination d)) = Some (base @ ''share'' # names))"
    if "d \<in> set (workspace_install_data workspace)" for d
  proof -
    have "mapping_ok d" using loops(3) that by blast
    then show ?thesis
      using data_path.accepted_contained [of "data_source d"] destination_below_share [of "data_destination d"]
      by (simp add: mapping_ok_def)
  qed
  ultimately show ?thesis unfolding workspace_sound_def using loops declared by simp
qed


definition sample_project :: project where
  "sample_project = (project_scaffold ''usd-tools'' ''cy2026'')
     \<lparr> project_build := Some (default_build\<lparr>build_cache_base :=
         [(''USD_ROOT'', \<lparr> cache_kind = CachePath, cache_value = StringValue ''/opt/usd'',
            cache_portability = Some LocalOverride \<rparr>)]\<rparr>),
       project_host := Some \<lparr> host_discovery = Some \<lparr> discovery_roots = [''/tools/maya''],
         discovery_max_depth = Some 2, discovery_families = [''maya''] \<rparr> \<rparr>,
       project_workspace := Some \<lparr> workspace_members = [''plugins/*'', ''tools''], workspace_release_members = None,
         workspace_release_exclude = [''tests''],
         workspace_install_data = [\<lparr> data_source = ''assets'', data_destination = ''share/usd'', data_include = [''*.usda''] \<rparr>] \<rparr> \<rparr>"


section \<open>What the checks let through\<close>

text \<open>
  The check for a file-system root looks at the text with its trailing slashes removed, so a root
  that ends in a current-directory step passes; and the check of a release id has nothing to say
  about the empty id.
\<close>

lemma root_directory_accepted:
  "discovery_root_problem ''/.'' = None \<and> walk [] (split_on slash ''/.'') = Some []"
  by code_simp

lemma empty_release_id_accepted: "portable_release_member_id []"
  by code_simp

end
