(* ===== verification/RuntimeEnv.thy ===== *)
theory RuntimeEnv
  imports FileSystem Hosts
begin

text \<open>
  The environment that activates a runtime (ost-runtime/src/env.rs): what is set and prepended,
  how the mutations resolve against an environment, and how they render for a shell.
\<close>

section \<open>The Python packages of an install\<close>

text \<open>\<open>listing\<close>: the file names of a directory that can be read, or \<^const>\<open>None\<close>.\<close>

definition versioned_python :: "fs \<Rightarrow> (string \<Rightarrow> string list option) \<Rightarrow> string \<Rightarrow> string list" where
  "versioned_python st listing root =
     (case listing (path_join root ''lib'') of
        None \<Rightarrow> []
      | Some names \<Rightarrow>
          sort (filter (\<lambda>n. starts_with ''python'' n \<and> length n > length ''python''
              \<and> is_dir st (path_join (path_join (path_join (path_join root ''lib'') n) ''site-packages'') ''pxr'')) names))"

definition usd_python_dir_for ::
  "fs \<Rightarrow> (string \<Rightarrow> string list option) \<Rightarrow> string \<Rightarrow> string option \<Rightarrow> string"
where
  "usd_python_dir_for st listing root version =
     (case find (\<lambda>dir. is_dir st (path_join dir ''pxr''))
         (map (path_join root) [''lib/python'', ''lib/site-packages'', ''Lib/site-packages'']) of
        Some dir \<Rightarrow> dir
      | None \<Rightarrow>
          (let versioned = versioned_python st listing root;
               site = (\<lambda>n. path_join (path_join (path_join root ''lib'') n) ''site-packages'');
               exact = Option.bind version (\<lambda>want. find (\<lambda>n. n = ''python'' @ want) versioned)
           in case exact of
                Some n \<Rightarrow> site n
              | None \<Rightarrow>
                  (case versioned of n # _ \<Rightarrow> site n | [] \<Rightarrow> path_join (path_join root ''lib'') ''python'')))"

definition usd_python_dir :: "fs \<Rightarrow> (string \<Rightarrow> string list option) \<Rightarrow> string \<Rightarrow> string" where
  "usd_python_dir st listing root = usd_python_dir_for st listing root None"

section \<open>Shells and mutations\<close>

datatype shell = Bash | Pwsh

definition shell_from_name :: "string \<Rightarrow> shell option" where
  "shell_from_name name =
     (let n = to_ascii_lowercase name
      in if n \<in> {''bash'', ''sh'', ''zsh''} then Some Bash
         else if n \<in> {''pwsh'', ''powershell'', ''ps''} then Some Pwsh
         else None)"

fun shell_default_for :: "os \<Rightarrow> shell" where
  "shell_default_for Windows = Pwsh"
| "shell_default_for _ = Bash"

fun launch_command :: "shell \<Rightarrow> string \<times> string list" where
  "launch_command Bash = (''bash'', [''-i''])"
| "launch_command Pwsh = (''pwsh'', [''-NoLogo''])"

datatype env_op = OpSet string | OpPrepend string

record env_var =
  env_key :: string
  env_op :: env_op

record env_set =
  env_sep :: char
  env_vars :: "env_var list"

definition prepending :: "string \<Rightarrow> string \<Rightarrow> env_var" where
  "prepending key s = \<lparr> env_key = key, env_op = OpPrepend s \<rparr>"

definition path_sep :: "os \<Rightarrow> char" where
  "path_sep os = (if os = Windows then CHR '';'' else CHR '':'')"

fun lib_key :: "os \<Rightarrow> string" where
  "lib_key Linux = ''LD_LIBRARY_PATH''"
| "lib_key Macos = ''DYLD_LIBRARY_PATH''"
| "lib_key Windows = ''PATH''"

definition forward :: "string \<Rightarrow> string" where
  "forward p = replace_char (CHR 0x5C) (CHR ''/'') p"

definition for_runtime :: "string \<Rightarrow> os \<Rightarrow> string \<Rightarrow> bool \<Rightarrow> env_set" where
  "for_runtime dir os py_minor usd_plugins =
     (let site = (if os = Windows then path_join (path_join dir ''Lib'') ''site-packages''
            else path_join (path_join (path_join dir ''lib'') (''python'' @ py_minor)) ''site-packages'')
      in \<lparr> env_sep = path_sep os,
           env_vars = [prepending ''PATH'' (forward (path_join dir ''bin'')),
             prepending (lib_key os) (forward (path_join dir ''lib'')),
             prepending ''PYTHONPATH'' (forward site),
             prepending ''CMAKE_PREFIX_PATH'' (forward dir)]
             @ (if usd_plugins
                then [prepending ''PXR_PLUGINPATH_NAME'' (forward (path_join (path_join dir ''plugin'') ''usd''))]
                else []) \<rparr>)"

definition for_usd_install :: "fs \<Rightarrow> (string \<Rightarrow> string list option) \<Rightarrow> string \<Rightarrow> os \<Rightarrow> env_set" where
  "for_usd_install st listing root os =
     \<lparr> env_sep = path_sep os,
       env_vars = [prepending ''PATH'' (forward (path_join root ''bin'')),
         prepending (lib_key os) (forward (path_join root ''lib'')),
         prepending ''PYTHONPATH'' (forward (usd_python_dir st listing root)),
         prepending ''CMAKE_PREFIX_PATH'' (forward root),
         prepending ''PXR_PLUGINPATH_NAME'' (forward (path_join (path_join root ''plugin'') ''usd''))] \<rparr>"

definition add_dep_libs :: "string \<Rightarrow> os \<Rightarrow> env_set \<Rightarrow> env_set" where
  "add_dep_libs dep os e =
     e\<lparr>env_vars := env_vars e @
        (if os = Windows
         then [prepending ''PATH'' (forward (path_join dep ''bin'')), prepending ''PATH'' (forward (path_join dep ''lib''))]
         else [prepending (lib_key os) (forward (path_join dep ''lib''))])\<rparr>"

section \<open>Resolving\<close>

definition resolve_var ::
  "char \<Rightarrow> (string \<Rightarrow> string option) \<Rightarrow> string list \<times> (string \<Rightarrow> string option) \<Rightarrow> env_var
     \<Rightarrow> string list \<times> (string \<Rightarrow> string option)"
where
  "resolve_var sep lookup = (\<lambda>(order, overlay) v.
     let key = env_key v;
         next = (case env_op v of
             OpSet s \<Rightarrow> s
           | OpPrepend s \<Rightarrow>
               (case (case overlay key of Some e \<Rightarrow> Some e | None \<Rightarrow> lookup key) of
                  Some e \<Rightarrow> if e \<noteq> [] then s @ sep # e else s
                | None \<Rightarrow> s))
     in (if overlay key = None then order @ [key] else order, overlay(key \<mapsto> next)))"

definition resolve_with :: "env_set \<Rightarrow> (string \<Rightarrow> string option) \<Rightarrow> (string \<times> string) list" where
  "resolve_with e lookup =
     (let (order, overlay) = foldl (resolve_var (env_sep e) lookup) ([], Map.empty) (env_vars e)
      in map (\<lambda>k. (k, case overlay k of None \<Rightarrow> [] | Some s \<Rightarrow> s)) order)"

text \<open>The base is folded to lower case; a later entry replaces an earlier one.\<close>

definition resolve_over :: "env_set \<Rightarrow> (string \<times> string) list \<Rightarrow> (string \<times> string) list" where
  "resolve_over e base =
     (let folded = map (\<lambda>(k, v). (to_ascii_lowercase k, v)) base
      in resolve_with e (\<lambda>k. map_of (rev folded) (to_ascii_lowercase k)))"

definition env_pairs :: "env_set \<Rightarrow> (string \<times> string) list" where
  "env_pairs e = map (\<lambda>v. (env_key v, case env_op v of OpSet s \<Rightarrow> s | OpPrepend s \<Rightarrow> s)) (env_vars e)"

section \<open>Rendering\<close>

text \<open>\<^verbatim>\<open>replace(c, text)\<close>\<close>

definition replace_with :: "char \<Rightarrow> string \<Rightarrow> string \<Rightarrow> string" where
  "replace_with c r s = concat (map (\<lambda>x. if x = c then r else [x]) s)"

definition BACKTICK :: char where "BACKTICK = CHR 0x60"

definition BACKSLASH :: char where "BACKSLASH = CHR 0x5C"

definition DOLLAR :: char where "DOLLAR = CHR 0x24"

definition DQUOTE :: char where "DQUOTE = CHR 0x22"

fun shell_escape :: "shell \<Rightarrow> string \<Rightarrow> string" where
  "shell_escape Bash s =
     replace_with DQUOTE [BACKSLASH, DQUOTE] (replace_with DOLLAR [BACKSLASH, DOLLAR]
       (replace_with BACKTICK [BACKSLASH, BACKTICK] (replace_with BACKSLASH [BACKSLASH, BACKSLASH] s)))"
| "shell_escape Pwsh s =
     replace_with DQUOTE [BACKTICK, DQUOTE] (replace_with DOLLAR [BACKTICK, DOLLAR]
       (replace_with BACKTICK [BACKTICK, BACKTICK] s))"

fun render_op :: "shell \<Rightarrow> char \<Rightarrow> string \<Rightarrow> env_op \<Rightarrow> string" where
  "render_op Bash sep key (OpSet s) = ''export '' @ key @ [CHR ''='', DQUOTE] @ shell_escape Bash s @ [DQUOTE]"
| "render_op Bash sep key (OpPrepend s) =
     ''export '' @ key @ [CHR ''='', DQUOTE] @ shell_escape Bash s @ [DOLLAR, CHR 0x7B] @ key @ '':+'' @ [sep, DOLLAR]
       @ key @ [CHR 0x7D, DQUOTE]"
| "render_op Pwsh sep key (OpSet s) = [DOLLAR] @ ''env:'' @ key @ '' = '' @ [DQUOTE] @ shell_escape Pwsh s @ [DQUOTE]"
| "render_op Pwsh sep key (OpPrepend s) =
     [DOLLAR] @ ''env:'' @ key @ '' = '' @ [DQUOTE] @ shell_escape Pwsh s @ [sep, DOLLAR] @ ''env:'' @ key @ [DQUOTE]"

definition env_render :: "env_set \<Rightarrow> shell \<Rightarrow> string" where
  "env_render e shell = concat (map (\<lambda>v. render_op shell (env_sep e) (env_key v) (env_op v) @ [CHR 0x0A]) (env_vars e))"

section \<open>A shell\<close>

text \<open>
  What a POSIX shell makes of such lines: an assignment \<^verbatim>\<open>export NAME="..."\<close>, with the escapes
  and the two expansions of double quotes, \<^verbatim>\<open>$NAME\<close> and \<^verbatim>\<open>${NAME:+...}\<close>; anything else is
  \<^const>\<open>None\<close>.  The fuel of \<open>expand\<close> bounds the characters it reads.
\<close>

definition name_char :: "char \<Rightarrow> bool" where
  "name_char c \<longleftrightarrow> is_ascii_alphanumeric c \<or> c = CHR ''_''"

definition shell_name :: "string \<Rightarrow> bool" where
  "shell_name k \<longleftrightarrow> k \<noteq> [] \<and> list_all name_char k \<and> \<not> is_ascii_digit (hd k)"

definition escapable :: "char \<Rightarrow> bool" where
  "escapable c \<longleftrightarrow> c \<in> {BACKSLASH, BACKTICK, DOLLAR, DQUOTE}"

definition env_value :: "(string \<Rightarrow> string option) \<Rightarrow> string \<Rightarrow> string" where
  "env_value env k = (case env k of None \<Rightarrow> [] | Some s \<Rightarrow> s)"

definition before :: "string \<Rightarrow> (string \<times> string) option \<Rightarrow> (string \<times> string) option" where
  "before s = map_option (map_prod ((@) s) id)"

fun expand :: "nat \<Rightarrow> char \<Rightarrow> (string \<Rightarrow> string option) \<Rightarrow> string \<Rightarrow> (string \<times> string) option" where
  "expand 0 stop env s = None"
| "expand (Suc n) stop env [] = None"
| "expand (Suc n) stop env (c # s) =
     (if c = stop then Some ([], s)
      else if c = DQUOTE \<or> c = BACKTICK then None
      else if c = BACKSLASH
      then (case s of
              [] \<Rightarrow> None
            | d # t \<Rightarrow> if escapable d then before [d] (expand n stop env t)
                else if d = CHR 0x0A then expand n stop env t
                else before [c] (expand n stop env s))
      else if c = DOLLAR
      then (case s of
              [] \<Rightarrow> None
            | d # t \<Rightarrow>
                if is_ascii_digit d then None
                else if name_char d
                then before (env_value env (takeWhile name_char s)) (expand n stop env (dropWhile name_char s))
                else if d = CHR 0x7B
                then (let k = takeWhile name_char t in
                      if \<not> shell_name k then None else
                      case strip_prefix '':+'' (dropWhile name_char t) of
                        None \<Rightarrow> None
                      | Some w \<Rightarrow>
                          (case expand n (CHR 0x7D) env w of
                             None \<Rightarrow> None
                           | Some (v, rest) \<Rightarrow>
                               before (if env_value env k = [] then [] else v) (expand n stop env rest)))
                else before [c] (expand n stop env s))
      else before [c] (expand n stop env s))"

fun run_script :: "nat \<Rightarrow> (string \<Rightarrow> string option) \<Rightarrow> string \<Rightarrow> (string \<Rightarrow> string option) option" where
  "run_script n env [] = Some env"
| "run_script 0 env (c # s) = None"
| "run_script (Suc n) env (c # s) =
     (case strip_prefix ''export '' (c # s) of
        None \<Rightarrow> None
      | Some t \<Rightarrow>
          (let k = takeWhile name_char t in
           if \<not> shell_name k then None else
           case strip_prefix [CHR ''='', DQUOTE] (dropWhile name_char t) of
             None \<Rightarrow> None
           | Some u \<Rightarrow>
               (case expand (length u) DQUOTE env u of
                  Some (v, d # later) \<Rightarrow> if d = CHR 0x0A then run_script n (env(k \<mapsto> v)) later else None
                | _ \<Rightarrow> None)))"

section \<open>Rendering and resolving agree\<close>

text \<open>An expansion that is read whatever the fuel, once there is enough of it.\<close>

definition expands :: "char \<Rightarrow> (string \<Rightarrow> string option) \<Rightarrow> string \<Rightarrow> string \<Rightarrow> string \<Rightarrow> bool" where
  "expands stop env s v rest \<longleftrightarrow> (\<forall>n \<ge> length s. expand n stop env s = Some (v, rest))"

lemma expandsI: "(\<And>n. length s \<le> n \<Longrightarrow> expand n stop env s = Some (v, rest)) \<Longrightarrow> expands stop env s v rest"
  by (simp add: expands_def)

lemma expandsD: "expands stop env s v rest \<Longrightarrow> length s \<le> n \<Longrightarrow> expand n stop env s = Some (v, rest)"
  by (simp add: expands_def)

lemma before_Some [simp]: "before s (Some (v, rest)) = Some (s @ v, rest)"
  by (simp add: before_def)

lemma fuel_Suc: "(\<And>m. length s \<le> m \<Longrightarrow> expand (Suc m) stop env (c # s) = Some (v, rest)) \<Longrightarrow> expands stop env (c # s) v rest"
proof (rule expandsI)
  fix n assume more: "\<And>m. length s \<le> m \<Longrightarrow> expand (Suc m) stop env (c # s) = Some (v, rest)" "length (c # s) \<le> n"
  then obtain m where "n = Suc m" "length s \<le> m" by (cases n) auto
  then show "expand n stop env (c # s) = Some (v, rest)" using more(1) by blast
qed

lemma expands_stop: "expands stop env (stop # rest) [] rest"
  by (rule fuel_Suc) simp

lemma expands_plain:
  assumes "expands stop env s v rest" "c \<noteq> stop" "\<not> escapable c"
  shows "expands stop env (c # s) (c # v) rest"
  using assms by (intro fuel_Suc) (auto simp: escapable_def expands_def)

lemma special_chars:
  "BACKSLASH \<noteq> DQUOTE" "BACKSLASH \<noteq> BACKTICK" "BACKTICK \<noteq> DQUOTE" "DOLLAR \<noteq> DQUOTE" "DOLLAR \<noteq> BACKTICK" "DOLLAR \<noteq> BACKSLASH"
  "DOLLAR \<noteq> CHR 0x7D" "\<not> is_ascii_digit (CHR 0x7B)" "\<not> name_char (CHR 0x7B)" "\<not> name_char (CHR 0x7D)"
  "\<not> name_char (CHR '':'')" "\<not> name_char (CHR ''='')" "\<not> escapable (CHR '':'')" "\<not> escapable (CHR '';'')"
  by code_simp+

lemma expands_escape:
  assumes "expands DQUOTE env s v rest" "escapable c"
  shows "expands DQUOTE env (BACKSLASH # c # s) (c # v) rest"
proof (rule expandsI)
  fix n assume "length (BACKSLASH # c # s) \<le> n"
  then obtain m where "n = Suc m" "length s \<le> m" by (cases n) auto
  then show "expand n DQUOTE env (BACKSLASH # c # s) = Some (c # v, rest)"
    using assms special_chars by (simp add: expandsD)
qed

lemma shell_escape_append: "shell_escape Bash (s @ t) = shell_escape Bash s @ shell_escape Bash t"
  by (simp add: replace_with_def)

lemma shell_escape_char: "shell_escape Bash [c] = (if escapable c then [BACKSLASH, c] else [c])"
  using special_chars by (auto simp: replace_with_def escapable_def)

text \<open>Whatever a value is, the shell reads it back from its escaped form.\<close>

lemma expands_escaped:
  assumes "expands DQUOTE env s v rest"
  shows "expands DQUOTE env (shell_escape Bash w @ s) (w @ v) rest"
proof (induction w)
  case Nil
  then show ?case using assms by (simp add: replace_with_def)
next
  case (Cons c w)
  have "shell_escape Bash (c # w) = shell_escape Bash [c] @ shell_escape Bash w"
    using shell_escape_append [of "[c]" w] by simp
  moreover have "c = DQUOTE \<Longrightarrow> escapable c" by (simp add: escapable_def)
  ultimately show ?case
    using expands_escape [OF Cons.IH, of c] expands_plain [OF Cons.IH, of c]
    by (auto simp: shell_escape_char simp del: shell_escape.simps)
qed

lemma name_split:
  assumes "shell_name k" "s \<noteq> []" "\<not> name_char (hd s)"
  shows "takeWhile name_char (k @ s) = k" "dropWhile name_char (k @ s) = s"
proof -
  have "\<forall>c \<in> set k. name_char c" using assms by (simp add: shell_name_def list_all_iff)
  moreover have "takeWhile name_char s = []" "dropWhile name_char s = s" using assms by (cases s; simp)+
  ultimately show "takeWhile name_char (k @ s) = k" "dropWhile name_char (k @ s) = s"
    by (simp_all add: takeWhile_append2 dropWhile_append2)
qed

lemma expands_name:
  assumes "expands stop env s v rest" "shell_name k" "s \<noteq> []" "\<not> name_char (hd s)" "stop \<noteq> DOLLAR"
  shows "expands stop env (DOLLAR # k @ s) (env_value env k @ v) rest"
proof (rule expandsI)
  fix n assume "length (DOLLAR # k @ s) \<le> n"
  then obtain m where n: "n = Suc m" "length s \<le> m" by (cases n) auto
  obtain d t where k: "k = d # t" using assms(2) by (cases k) (auto simp: shell_name_def)
  then have d: "\<not> is_ascii_digit d" "name_char d" using assms(2) by (simp_all add: shell_name_def)
  have "takeWhile name_char (d # t @ s) = k" "dropWhile name_char (d # t @ s) = s"
    using name_split [OF assms(2-4)] k by simp_all
  then show "expand n stop env (DOLLAR # k @ s) = Some (env_value env k @ v, rest)"
    using n d special_chars assms(5) expandsD [OF assms(1) n(2)] by (simp add: k)
qed

lemma expands_present:
  assumes "expands DQUOTE env s v rest" "expands (CHR 0x7D) env word w s" "shell_name k"
    and shorter: "length s \<le> length word"
  shows "expands DQUOTE env ([DOLLAR, CHR 0x7B] @ k @ '':+'' @ word) ((if env_value env k = [] then [] else w) @ v) rest"
proof (rule expandsI)
  fix n assume "length ([DOLLAR, CHR 0x7B] @ k @ '':+'' @ word) \<le> n"
  then obtain m where n: "n = Suc m" "length word \<le> m" by (cases n) auto
  then have "length s \<le> m" using shorter by simp
  have "takeWhile name_char (k @ '':+'' @ word) = k" "dropWhile name_char (k @ '':+'' @ word) = '':+'' @ word"
    using special_chars by (intro name_split [OF assms(3)]; simp)+
  then show "expand n DQUOTE env ([DOLLAR, CHR 0x7B] @ k @ '':+'' @ word)
      = Some ((if env_value env k = [] then [] else w) @ v, rest)"
    using n special_chars expandsD [OF assms(1) \<open>length s \<le> m\<close>] expandsD [OF assms(2) n(2)] assms(3) by simp
qed

text \<open>The two forms of a right-hand side.\<close>

definition path_separator :: "char \<Rightarrow> bool" where
  "path_separator c \<longleftrightarrow> c = CHR '':'' \<or> c = CHR '';''"

definition assigned :: "char \<Rightarrow> (string \<Rightarrow> string option) \<Rightarrow> string \<Rightarrow> env_op \<Rightarrow> string" where
  "assigned sep env key op =
     (case op of
        OpSet s \<Rightarrow> s
      | OpPrepend s \<Rightarrow> if env_value env key = [] then s else s @ sep # env_value env key)"

lemma rendered_op:
  assumes "shell_name key" "path_separator sep"
  shows "\<exists>body. render_op Bash sep key op = ''export '' @ key @ [CHR ''='', DQUOTE] @ body
     \<and> expands DQUOTE env (body @ later) (assigned sep env key op) later"
proof (cases op)
  case (OpSet s)
  have "expands DQUOTE env (shell_escape Bash s @ DQUOTE # later) (s @ []) later"
    by (rule expands_escaped [OF expands_stop])
  then show ?thesis using OpSet
    by (intro exI [of _ "shell_escape Bash s @ [DQUOTE]"]) (simp add: assigned_def del: shell_escape.simps)
next
  case (OpPrepend s)
  let ?word = "sep # DOLLAR # key @ [CHR 0x7D] @ DQUOTE # later"
  have "expands (CHR 0x7D) env ([CHR 0x7D] @ DQUOTE # later) [] (DQUOTE # later)"
    using expands_stop [of "CHR 0x7D" env "DQUOTE # later"] by simp
  then have "expands (CHR 0x7D) env (DOLLAR # key @ [CHR 0x7D] @ DQUOTE # later) (env_value env key @ []) (DQUOTE # later)"
    using special_chars by (intro expands_name assms(1)) auto
  then have "expands (CHR 0x7D) env ?word (sep # env_value env key @ []) (DQUOTE # later)"
    using assms(2) special_chars by (intro expands_plain) (auto simp: path_separator_def)
  then have "expands DQUOTE env ([DOLLAR, CHR 0x7B] @ key @ '':+'' @ ?word)
      ((if env_value env key = [] then [] else sep # env_value env key @ []) @ []) later"
    using expands_present [OF expands_stop _ assms(1)] by simp
  from expands_escaped [OF this, of s] show ?thesis
    using OpPrepend
    by (intro exI [of _ "shell_escape Bash s @ [DOLLAR, CHR 0x7B] @ key @ '':+'' @ [sep, DOLLAR] @ key @ [CHR 0x7D, DQUOTE]"])
       (cases "env_value env key = []"; simp add: assigned_def del: shell_escape.simps)
qed

lemma run_line:
  assumes "shell_name key" "path_separator sep"
  shows "run_script (Suc n) env (render_op Bash sep key op @ CHR 0x0A # later)
     = run_script n (env(key \<mapsto> assigned sep env key op)) later"
proof -
  obtain body where body: "render_op Bash sep key op = ''export '' @ key @ [CHR ''='', DQUOTE] @ body"
    and read: "expands DQUOTE env (body @ CHR 0x0A # later) (assigned sep env key op) (CHR 0x0A # later)"
    using rendered_op [OF assms, of op env "CHR 0x0A # later"] by blast
  have line: "render_op Bash sep key op @ CHR 0x0A # later
      = CHR ''e'' # ''xport '' @ key @ [CHR ''='', DQUOTE] @ body @ CHR 0x0A # later"
    unfolding body by simp
  have names: "takeWhile name_char (key @ [CHR ''='', DQUOTE] @ u) = key"
    "dropWhile name_char (key @ [CHR ''='', DQUOTE] @ u) = [CHR ''='', DQUOTE] @ u" for u
    using special_chars by (intro name_split [OF assms(1)]; simp)+
  show ?thesis
    unfolding line using names [of "body @ CHR 0x0A # later"] expandsD [OF read order_refl] assms(1)
    by (simp add: Let_def)
qed

text \<open>The mutations one after the other.\<close>

definition apply_var :: "char \<Rightarrow> (string \<Rightarrow> string option) \<Rightarrow> env_var \<Rightarrow> (string \<Rightarrow> string option)" where
  "apply_var sep env v = env(env_key v \<mapsto> assigned sep env (env_key v) (env_op v))"

lemma run_rendered:
  assumes "\<forall>v \<in> set (env_vars e). shell_name (env_key v)" "path_separator (env_sep e)"
  shows "run_script (length (env_vars e)) env (env_render e Bash) = Some (foldl (apply_var (env_sep e)) env (env_vars e))"
proof -
  have "run_script (length vs) env (concat (map (\<lambda>v. render_op Bash sep (env_key v) (env_op v) @ [CHR 0x0A]) vs))
      = Some (foldl (apply_var sep) env vs)"
    if "\<forall>v \<in> set vs. shell_name (env_key v)" "path_separator sep" for vs sep
    using that(1)
  proof (induction vs arbitrary: env)
    case (Cons v vs)
    have "env(env_key v \<mapsto> assigned sep env (env_key v) (env_op v)) = apply_var sep env v"
      by (simp add: apply_var_def)
    then show ?case using Cons run_line [OF _ that(2)] by simp
  qed simp
  from this [OF assms] show ?thesis by (simp add: env_render_def)
qed

text \<open>The overlay of a resolution is the environment the mutations have made.\<close>

definition overlaid :: "(string \<Rightarrow> string option) \<Rightarrow> string list \<times> (string \<Rightarrow> string option) \<Rightarrow> (string \<Rightarrow> string option) \<Rightarrow> bool" where
  "overlaid lookup s env \<longleftrightarrow> distinct (fst s) \<and> dom (snd s) = set (fst s) \<and> env = lookup ++ snd s"

lemma resolve_var_step:
  assumes "overlaid lookup s env"
  shows "overlaid lookup (resolve_var sep lookup s v) (apply_var sep env v)"
proof -
  obtain order overlay where s: "s = (order, overlay)" by (cases s)
  have env: "env_value env k = (case (case overlay k of Some x \<Rightarrow> Some x | None \<Rightarrow> lookup k) of None \<Rightarrow> [] | Some x \<Rightarrow> x)" for k
    using assms by (auto simp: overlaid_def s env_value_def map_add_def split: option.splits)
  have "(case env_op v of OpSet x \<Rightarrow> x
      | OpPrepend x \<Rightarrow> (case (case overlay (env_key v) of Some y \<Rightarrow> Some y | None \<Rightarrow> lookup (env_key v)) of
          Some y \<Rightarrow> if y \<noteq> [] then x @ sep # y else x | None \<Rightarrow> x)) = assigned sep env (env_key v) (env_op v)"
    unfolding assigned_def env by (simp split: env_op.split option.split)
  then have "resolve_var sep lookup s v = (if overlay (env_key v) = None then order @ [env_key v] else order,
      overlay(env_key v \<mapsto> assigned sep env (env_key v) (env_op v)))"
    by (simp add: resolve_var_def s Let_def)
  then show ?thesis using assms by (auto simp: overlaid_def s apply_var_def domIff)
qed

lemma resolve_foldl:
  "overlaid lookup s env \<Longrightarrow> overlaid lookup (foldl (resolve_var sep lookup) s vs) (foldl (apply_var sep) env vs)"
  by (induction vs arbitrary: s env) (simp_all add: resolve_var_step)

lemma map_of_order: "distinct order \<Longrightarrow> dom overlay = set order \<Longrightarrow>
  map_of (map (\<lambda>k. (k, case overlay k of None \<Rightarrow> [] | Some s \<Rightarrow> s)) order) = overlay"
proof
  fix k assume "dom overlay = set order"
  then show "map_of (map (\<lambda>k. (k, case overlay k of None \<Rightarrow> [] | Some s \<Rightarrow> s)) order) k = overlay k"
    using domIff [of k overlay] by (cases "overlay k") (auto simp: map_of_map_restrict restrict_map_def)
qed

lemma resolve_with_env:
  "foldl (apply_var (env_sep e)) lookup (env_vars e) = lookup ++ map_of (resolve_with e lookup)"
proof -
  obtain order overlay where run: "foldl (resolve_var (env_sep e) lookup) ([], Map.empty) (env_vars e) = (order, overlay)"
    by (cases "foldl (resolve_var (env_sep e) lookup) ([], Map.empty) (env_vars e)")
  have "overlaid lookup ([], Map.empty) lookup" by (simp add: overlaid_def)
  from resolve_foldl [OF this, of "env_sep e" "env_vars e"] run
  have "overlaid lookup (order, overlay) (foldl (apply_var (env_sep e)) lookup (env_vars e))" by simp
  then show ?thesis
    using map_of_order [of order overlay] by (simp add: overlaid_def resolve_with_def run)
qed

definition renderable :: "env_set \<Rightarrow> bool" where
  "renderable e \<longleftrightarrow> (\<forall>v \<in> set (env_vars e). shell_name (env_key v)) \<and> path_separator (env_sep e)"

lemma variable_names:
  "shell_name ''PATH''" "shell_name ''PYTHONPATH''" "shell_name ''CMAKE_PREFIX_PATH''" "shell_name ''PXR_PLUGINPATH_NAME''"
  "shell_name ''LD_LIBRARY_PATH''" "shell_name ''DYLD_LIBRARY_PATH''"
  by code_simp+

lemma library_names: "shell_name (lib_key os)" "path_separator (path_sep os)"
  by (cases os; simp add: variable_names path_separator_def path_sep_def)+

lemma renderable_built:
  "renderable (for_runtime root os py_minor usd_plugins)"
  "renderable (for_usd_install st listing root os)"
  "renderable e \<Longrightarrow> renderable (add_dep_libs dep os e)"
  by (auto simp: renderable_def for_runtime_def for_usd_install_def add_dep_libs_def prepending_def Let_def variable_names library_names)

text \<open>A prefix is put in front of what the base environment has, however the base spells the key.\<close>

lemma apply_keeps:
  assumes "\<forall>v \<in> set vs. env_key v = k \<longrightarrow> (\<exists>s. env_op v = OpPrepend s)" "env k = Some w" "suffix u w"
  shows "\<exists>x. foldl (apply_var sep) env vs k = Some x \<and> suffix u x"
  using assms
proof (induction vs arbitrary: env w)
  case (Cons v vs)
  show ?case
  proof (cases "env_key v = k")
    case True
    then obtain s where "env_op v = OpPrepend s" using Cons.prems by auto
    moreover have "suffix u (s @ w)" "suffix u (s @ sep # w)" using Cons.prems(3) by (auto simp: suffix_def)
    moreover have "w = [] \<Longrightarrow> suffix u s" using Cons.prems(3) by (simp add: suffix_def)
    ultimately have "\<exists>y. apply_var sep env v k = Some y \<and> suffix u y"
      using True Cons.prems(2) by (simp add: apply_var_def assigned_def env_value_def)
    then show ?thesis using Cons by auto
  next
    case False
    then show ?thesis using Cons by (simp add: apply_var_def)
  qed
qed auto

lemma resolve_over_keeps_base:
  assumes base: "map_of (rev (map (\<lambda>(k, v). (to_ascii_lowercase k, v)) base)) (to_ascii_lowercase k) = Some w"
    and ops: "\<forall>v \<in> set (env_vars e). env_key v = k \<longrightarrow> (\<exists>s. env_op v = OpPrepend s)"
    and found: "map_of (resolve_over e base) k = Some x"
  shows "suffix w x"
  using apply_keeps [OF ops, of "\<lambda>k. map_of (rev (map (\<lambda>(k, v). (to_ascii_lowercase k, v)) base)) (to_ascii_lowercase k)"
      w w "env_sep e"] base found
  by (auto simp: resolve_with_env resolve_over_def Let_def)

text \<open>The Python directory of an install holds the package, or is the default.\<close>

lemma usd_python_dir_found:
  "is_dir st (path_join (usd_python_dir_for st listing root version) ''pxr'')
   \<or> usd_python_dir_for st listing root version = path_join (path_join root ''lib'') ''python''"
proof -
  have versioned: "is_dir st (path_join (path_join (path_join (path_join root ''lib'') n) ''site-packages'') ''pxr'')"
    if "n \<in> set (versioned_python st listing root)" for n
    using that by (auto simp: versioned_python_def split: option.splits)
  have exact: "n \<in> set (versioned_python st listing root)"
    if "Option.bind version (\<lambda>want. find (\<lambda>n. n = ''python'' @ want) (versioned_python st listing root)) = Some n" for n
    using that by (auto simp: bind_eq_Some_conv find_Some_iff) (metis nth_mem)
  show ?thesis
  proof (cases "find (\<lambda>dir. is_dir st (path_join dir ''pxr''))
      (map (path_join root) [''lib/python'', ''lib/site-packages'', ''Lib/site-packages''])")
    case (Some dir)
    then have "is_dir st (path_join dir ''pxr'')" by (auto split: if_splits)
    then show ?thesis using Some by (simp only: usd_python_dir_for_def option.case simp_thms)
  next
    case None
    show ?thesis
      unfolding usd_python_dir_for_def None Let_def option.case
      using versioned exact by (auto split: option.split list.split)
  qed
qed

text \<open>
  C32. What \<^verbatim>\<open>ost env\<close> prints and what the program itself does agree: a shell that runs the
  rendered lines, whatever characters the paths have and whatever the environment holds, ends in
  the environment updated by exactly the resolved variables.
\<close>

theorem render_agrees_with_resolve:
  assumes "renderable e"
  shows "run_script (length (env_vars e)) env (env_render e Bash) = Some (env ++ map_of (resolve_with e env))"
  using run_rendered assms by (simp add: renderable_def resolve_with_env)

theorem render_agrees_with_resolve_witness:
  "run_script 5 [''PATH'' \<mapsto> ''/bin''] (env_render (for_runtime ''/opt/$usd'' Linux ''3.13'' True) Bash)
     = Some ([''PATH'' \<mapsto> ''/bin''] ++ map_of
         [(''PATH'', ''/opt/$usd/bin:/bin''), (''LD_LIBRARY_PATH'', ''/opt/$usd/lib''),
          (''PYTHONPATH'', ''/opt/$usd/lib/python3.13/site-packages''), (''CMAKE_PREFIX_PATH'', ''/opt/$usd''),
          (''PXR_PLUGINPATH_NAME'', ''/opt/$usd/plugin/usd'')])"
proof -
  have "length (env_vars (for_runtime ''/opt/$usd'' Linux ''3.13'' True)) = 5"
    "resolve_with (for_runtime ''/opt/$usd'' Linux ''3.13'' True) [''PATH'' \<mapsto> ''/bin'']
       = [(''PATH'', ''/opt/$usd/bin:/bin''), (''LD_LIBRARY_PATH'', ''/opt/$usd/lib''),
          (''PYTHONPATH'', ''/opt/$usd/lib/python3.13/site-packages''), (''CMAKE_PREFIX_PATH'', ''/opt/$usd''),
          (''PXR_PLUGINPATH_NAME'', ''/opt/$usd/plugin/usd'')]"
    by code_simp+
  then show ?thesis
    using render_agrees_with_resolve [OF renderable_built(1), of "''/opt/$usd''" Linux "''3.13''" True] by simp
qed

end
