(* ===== verification/SdkLayouts.thy ===== *)
theory SdkLayouts
  imports CompositionResults ArchiveEntries RuntimeEnv
begin

text \<open>
  The projection of a locked component inventory into one SDK tree
  (ost-formation/src/composition_sdk.rs): which file goes where, the links between them, and the
  environment that activates the tree.
\<close>

section \<open>Data\<close>

definition SDK_ROOTS :: "string list" where
  "SDK_ROOTS = [''bin'', ''lib'', ''include'', ''share'', ''plugins'', ''python'', ''node'', ''metadata'']"

record inventory_entry =
  inv_component :: string
  inv_artifact :: string
  inv_file :: manifest_file

record sdk_file =
  sdk_component :: string
  sdk_artifact :: string
  sdk_source :: string
  sdk_target :: manifest_file

record path_contribution =
  pathc_key :: string
  pathc_operation :: string
  pathc_source :: string
  pathc_paths :: "string list"

record sdk_layout =
  layout_schema :: string
  layout_roots :: "string list"
  layout_files :: "sdk_file list"
  layout_environment :: "(string, path_contribution list) btree_map"
  layout_settings :: "(string, string) btree_map"

definition composition_error :: "string \<Rightarrow> string \<Rightarrow> error" where
  "composition_error code message = coded code Validation message"

definition path_invalid :: "string \<Rightarrow> error" where
  "path_invalid message = composition_error ''COMPOSITION_SDK_PATH_INVALID'' message"

definition path_collision :: "string \<Rightarrow> error" where
  "path_collision message = composition_error ''COMPOSITION_INSTALL_PATH_COLLISION'' message"

definition link_invalid :: "string \<Rightarrow> error" where
  "link_invalid message = composition_error ''COMPOSITION_SDK_LINK_INVALID'' message"

definition environment_conflict :: "string \<Rightarrow> error" where
  "environment_conflict message = composition_error ''COMPOSITION_ENVIRONMENT_CONFLICT'' message"

section \<open>Paths\<close>

fun portable_parts :: "string list \<Rightarrow> (string list) res" where
  "portable_parts [] = Inr []"
| "portable_parts (part # parts) =
     (if part = [] \<or> part = ''.'' then portable_parts parts
      else if part = ''..'' then Inl (path_invalid (''SDK paths cannot contain '' @ quoted ''..''))
      else if ends_with ''.'' part \<or> ends_with '' '' part
      then Inl (path_invalid ''SDK paths cannot end in dots or spaces'')
      else and_then (portable_parts parts) (\<lambda>ps. Inr (part # ps)))"

definition sdk_portable :: "string \<Rightarrow> string res" where
  "sdk_portable given =
     (let path = replace_char (CHR 0x5C) (CHR ''/'') given
      in if starts_with ''/'' path \<or> CHR '':'' \<in> set path
            \<or> list_ex (\<lambda>c. c \<in> {CHR 0x00, CHR 0x0A, CHR 0x0D, CHR '';''}) path
         then Inl (path_invalid (''unsafe SDK path '' @ quoted path))
         else and_then (portable_parts (split_on slash path)) (\<lambda>parts. Inr (join ''/'' parts)))"

definition mapped :: "string \<Rightarrow> string \<Rightarrow> string \<Rightarrow> string option" where
  "mapped path source destination =
     (if path = source then Some destination
      else map_option (\<lambda>tail. destination @ ''/'' @ tail) (strip_prefix (source @ ''/'') path))"

text \<open>The first component of a path and the rest.\<close>

definition top_and_tail :: "string \<Rightarrow> string \<times> string" where
  "top_and_tail path = (case split_once (CHR ''/'') path of None \<Rightarrow> (path, []) | Some (first, tail) \<Rightarrow> (first, tail))"

definition sdk_destination :: "string \<Rightarrow> string res" where
  "sdk_destination given =
     and_then (sdk_portable given) (\<lambda>path.
       let (first, tail) = top_and_tail path in
       case find (\<lambda>root. to_ascii_lowercase root = to_ascii_lowercase first) SDK_ROOTS of
         Some root \<Rightarrow> Inr (if tail = [] then root else root @ ''/'' @ tail)
       | None \<Rightarrow> Inr path)"

fun link_walk :: "string list \<Rightarrow> string list \<Rightarrow> (string list) res" where
  "link_walk parts [] = Inr parts"
| "link_walk parts (part # rest) =
     (if part = [] \<or> part = ''.'' then link_walk parts rest
      else if part = ''..''
      then (if parts = [] then Inl (link_invalid ''symlink escapes component'') else link_walk (butlast parts) rest)
      else link_walk (parts @ [part]) rest)"

definition link_destination :: "string \<Rightarrow> string \<Rightarrow> string res" where
  "link_destination source target =
     (if starts_with ''/'' target \<or> starts_with [CHR 0x5C] target \<or> CHR '':'' \<in> set target \<or> CHR 0x5C \<in> set target
      then Inl (link_invalid ''SDK symlinks must be relative'')
      else and_then (link_walk (butlast (split_on slash source)) (split_on slash target)) (\<lambda>parts.
             Inr (join ''/'' parts)))"

fun common_length :: "string list \<Rightarrow> string list \<Rightarrow> nat" where
  "common_length (a # as) (b # bs) = (if a = b then Suc (common_length as bs) else 0)"
| "common_length _ _ = 0"

definition relative_link :: "string \<Rightarrow> string \<Rightarrow> string" where
  "relative_link path target =
     (let dirs = butlast (split_on slash path); to = split_on slash target; common = common_length dirs to;
          parts = replicate (length dirs - common) ''..'' @ drop common to
      in if parts = [] then ''.'' else join ''/'' parts)"

text \<open>The directories above a path, innermost first.\<close>

function parent_dirs :: "string \<Rightarrow> string list" where
  "parent_dirs path =
     (case rsplit_once (CHR ''/'') path of None \<Rightarrow> [] | Some (dir, _) \<Rightarrow> dir # parent_dirs dir)"
  by pat_completeness auto
termination by (relation "measure length") (auto simp: rsplit_once_Some)

declare parent_dirs.simps [simp del]

section \<open>Files\<close>

definition component_prefix :: "string \<Rightarrow> string" where
  "component_prefix component = ''components/'' @ component @ ''/''"

text \<open>The inventory by path: a later entry of the same path replaces an earlier one.\<close>

definition inventory_index :: "inventory_entry list \<Rightarrow> (string, inventory_entry) btree_map" where
  "inventory_index inventory = foldl (\<lambda>acc e. bt_insert (mfile_path (inv_file e)) e acc) [] inventory"

text \<open>\<^verbatim>\<open>range(from..).take_while(starts_with(from))\<close>\<close>

definition entries_below :: "(string, 'v) btree_map \<Rightarrow> string \<Rightarrow> (string \<times> 'v) list" where
  "entries_below index dir = takeWhile (\<lambda>(k, _). starts_with dir k) (dropWhile (\<lambda>(k, _). k < dir) index)"

definition entries_at :: "(string, inventory_entry) btree_map \<Rightarrow> string \<Rightarrow> inventory_entry list" where
  "entries_at index path =
     (case bt_get index path of None \<Rightarrow> [] | Some e \<Rightarrow> [e]) @ map snd (entries_below index (path @ ''/''))"

type_synonym sdk_files = "(string, sdk_file) btree_map"

text \<open>
  One entry below an install source: skipped, installed, or a collision.  \<^const>\<open>None\<close> is the
  panic of an entry that is not in the component.
\<close>

definition install_entry ::
  "string \<Rightarrow> string \<Rightarrow> string \<Rightarrow> bool \<times> sdk_files \<Rightarrow> inventory_entry \<Rightarrow> ((bool \<times> sdk_files) res) option"
where
  "install_entry dir source destination = (\<lambda>(matched, files) e.
     case strip_prefix dir (mfile_path (inv_file e)) of
       None \<Rightarrow> None
     | Some original \<Rightarrow>
         (case mapped original source destination of
            None \<Rightarrow> Some (Inr (matched, files))
          | Some target \<Rightarrow>
              Some (and_then (sdk_portable target) (\<lambda>path.
                let key = to_ascii_lowercase path in
                if bt_get files key \<noteq> None
                then Inl (path_collision (''expanded SDK destination '' @ quoted target @ '' has multiple owners''))
                else Inr (True, bt_insert key
                       \<lparr> sdk_component = inv_component e, sdk_artifact = inv_artifact e,
                         sdk_source = mfile_path (inv_file e), sdk_target = (inv_file e)\<lparr>mfile_path := path\<rparr> \<rparr> files)))))"

text \<open>A fold whose steps may fail or panic.\<close>

fun opt_fold :: "('s \<Rightarrow> 'a \<Rightarrow> ('e + 's) option) \<Rightarrow> 's \<Rightarrow> 'a list \<Rightarrow> ('e + 's) option" where
  "opt_fold f s [] = Some (Inr s)"
| "opt_fold f s (x # xs) =
     (case f s x of None \<Rightarrow> None | Some (Inl e) \<Rightarrow> Some (Inl e) | Some (Inr s') \<Rightarrow> opt_fold f s' xs)"

definition opt_then :: "('e + 'a) option \<Rightarrow> ('a \<Rightarrow> ('e + 'b) option) \<Rightarrow> ('e + 'b) option" where
  "opt_then r f = (case r of None \<Rightarrow> None | Some (Inl e) \<Rightarrow> Some (Inl e) | Some (Inr x) \<Rightarrow> f x)"

definition install_mapping_step ::
  "(string, inventory_entry) btree_map \<Rightarrow> sdk_files \<Rightarrow> resolved_install \<Rightarrow> (sdk_files res) option"
where
  "install_mapping_step index files m =
     opt_then (Some (sdk_portable (rinst_source m))) (\<lambda>source.
     opt_then (Some (sdk_destination (rinst_destination m))) (\<lambda>destination.
       if destination = []
          \<or> list_ex (\<lambda>p. to_ascii_lowercase (fst (top_and_tail destination)) = p) [''components'', ''metadata'']
       then Some (Inl (path_invalid (''reserved SDK destination '' @ quoted destination)))
       else
     opt_then (opt_fold (install_entry (component_prefix (rinst_component m)) source destination) (False, files)
         (entries_at index (component_prefix (rinst_component m) @ source))) (\<lambda>(matched, files').
       Some (if matched then Inr files'
         else Inl (composition_error ''COMPOSITION_INSTALL_SOURCE_MISSING''
           (''component '' @ quoted (rinst_component m) @ '' install source '' @ quoted source @
            '' has no inventory entries''))))))"

definition check_no_parent :: "sdk_files \<Rightarrow> string \<Rightarrow> unit res" where
  "check_no_parent files key =
     (case find (\<lambda>p. bt_get files p \<noteq> None) (parent_dirs key) of
        Some p \<Rightarrow> Inl (path_collision (''SDK file '' @ quoted p @ '' is also a parent directory''))
      | None \<Rightarrow> if key \<in> set SDK_ROOTS then Inl (path_collision ''SDK roots must be directories'') else Inr ())"

definition sdk_file_path :: "sdk_file \<Rightarrow> string" where
  "sdk_file_path f = mfile_path (sdk_target f)"

definition casing_step ::
  "(string, string) btree_map \<Rightarrow> string \<Rightarrow> error + (string, string) btree_map"
where
  "casing_step directories dir =
     (case bt_get directories (to_ascii_lowercase dir) of
        Some previous \<Rightarrow>
          if previous \<noteq> dir
          then Inl (path_collision (''SDK directory casing aliases '' @ quoted previous @ '' and '' @ quoted dir))
          else Inr (bt_insert (to_ascii_lowercase dir) dir directories)
      | None \<Rightarrow> Inr (bt_insert (to_ascii_lowercase dir) dir directories))"

definition check_casing :: "sdk_file list \<Rightarrow> unit res" where
  "check_casing files =
     and_then (try_fold casing_step [] (concat (map (\<lambda>f. parent_dirs (sdk_file_path f)) files))) (\<lambda>_. Inr ())"

section \<open>Links\<close>

definition link_targets :: "sdk_file list \<Rightarrow> string \<Rightarrow> string list" where
  "link_targets original full_target =
     foldl (\<lambda>acc p. bs_insert p acc) [] (List.map_filter (\<lambda>f.
       if sdk_source f = full_target then Some (sdk_file_path f)
       else Option.bind (strip_prefix (full_target @ ''/'') (sdk_source f)) (\<lambda>tail.
              strip_suffix (''/'' @ tail) (sdk_file_path f))) original)"

definition relink ::
  "(byte list \<Rightarrow> byte list) \<Rightarrow> sdk_file list \<Rightarrow> sdk_file \<Rightarrow> (sdk_file res) option"
where
  "relink sha original f =
     (case mfile_link_target (sdk_target f) of
        None \<Rightarrow> Some (Inr f)
      | Some target \<Rightarrow>
          (let dir = component_prefix (sdk_component f) in
           case strip_prefix dir (sdk_source f) of
             None \<Rightarrow> None
           | Some source \<Rightarrow>
               Some (and_then (link_destination source target) (\<lambda>destination.
                 case link_targets original (dir @ destination) of
                   [one] \<Rightarrow>
                     (let relative = relative_link (sdk_file_path f) one in
                      Inr (f\<lparr>sdk_target := (sdk_target f)\<lparr>mfile_sha256 := sha256_hex sha (str_bytes relative),
                        mfile_size := length relative, mfile_link_target := Some relative\<rparr>\<rparr>))
                 | _ \<Rightarrow> Inl (link_invalid (''symlink '' @ quoted (sdk_source f) @
                          '' has an uninstalled or ambiguous target '' @ quoted destination))))))"

fun opt_map :: "('a \<Rightarrow> ('e + 'b) option) \<Rightarrow> 'a list \<Rightarrow> ('e + 'b list) option" where
  "opt_map f [] = Some (Inr [])"
| "opt_map f (x # xs) =
     opt_then (f x) (\<lambda>y. opt_then (opt_map f xs) (\<lambda>ys. Some (Inr (y # ys))))"

definition sdk_files_of ::
  "(byte list \<Rightarrow> byte list) \<Rightarrow> inventory_entry list \<Rightarrow> resolved_install list \<Rightarrow> (sdk_file list res) option"
where
  "sdk_files_of sha inventory install =
     opt_then (opt_fold (install_mapping_step (inventory_index inventory)) [] install) (\<lambda>files.
     opt_then (Some (for_each (check_no_parent files) (bt_keys files))) (\<lambda>_.
       let sorted_files = sort_key sdk_file_path (map snd files) in
     opt_then (Some (check_casing sorted_files)) (\<lambda>_.
       opt_map (relink sha sorted_files) sorted_files)))"

section \<open>The environment\<close>

fun split_once_str :: "string \<Rightarrow> string \<Rightarrow> (string \<times> string) option" where
  "split_once_str pat [] = (if pat = [] then Some ([], []) else None)"
| "split_once_str pat (c # s) =
     (case strip_prefix pat (c # s) of
        Some rest \<Rightarrow> Some ([], rest)
      | None \<Rightarrow> map_option (\<lambda>(a, b). (c # a, b)) (split_once_str pat s))"

text \<open>The directories of a component that hold the \<^verbatim>\<open>pxr\<close> package, in order.\<close>

definition pxr_roots :: "inventory_entry list \<Rightarrow> string \<Rightarrow> string list" where
  "pxr_roots inventory dir =
     foldl (\<lambda>acc r. bs_insert r acc) [] (List.map_filter (\<lambda>e.
       Option.bind (strip_prefix dir (mfile_path (inv_file e))) (\<lambda>path.
         case split_once_str ''/pxr/'' path of
           Some (root, _) \<Rightarrow> Some root
         | None \<Rightarrow> strip_suffix ''/pxr'' path)) inventory)"

definition versioned_root :: "string option \<Rightarrow> string \<Rightarrow> bool" where
  "versioned_root abi root =
     (case Option.bind (strip_prefix ''lib/python'' root) (strip_suffix ''/site-packages'') of
        None \<Rightarrow> False
      | Some version \<Rightarrow>
          version \<noteq> [] \<and> list_all (\<lambda>b. is_ascii_digit b \<or> b = CHR ''.'') version
          \<and> (abi = None \<or> abi = Some (remove_char (CHR ''.'') version)))"

definition runtime_python_path :: "inventory_entry list \<Rightarrow> string \<Rightarrow> string \<Rightarrow> string option" where
  "runtime_python_path inventory component target =
     (let dir = component_prefix component; roots = pxr_roots inventory dir;
          parts = List.map_filter (strip_prefix ''py'') (split_on (\<lambda>c. c = CHR ''-'') target);
          abi = (case parts of [] \<Rightarrow> None | p # _ \<Rightarrow> Some p);
          plain = find (\<lambda>root. root \<in> set roots) [''lib/python'', ''lib/site-packages'', ''Lib/site-packages'']
      in map_option (\<lambda>root. dir @ root)
           (case plain of Some root \<Rightarrow> Some root | None \<Rightarrow> find (versioned_root abi) roots))"

definition sdk_settings :: "(string, string) btree_map" where
  "sdk_settings = [(''PYTHONDONTWRITEBYTECODE'', ''1''), (''PYTHONNOUSERSITE'', ''1'')]"

text \<open>A directory plugin packages advertise although they need not contain it.\<close>

definition optional_path :: "resolved_component list \<Rightarrow> resolved_environment \<Rightarrow> string \<Rightarrow> bool" where
  "optional_path rcs c path \<longleftrightarrow>
     renv_operation c \<noteq> ''set''
     \<and> list_ex (\<lambda>r. rcomp_id r = renv_source c \<and> rcomp_kind r = ''plugin'') rcs
     \<and> (renv_variable c = ''PYTHONPATH'' \<and> path = ''python''
        \<or> renv_variable c \<in> {''PATH'', ''LD_LIBRARY_PATH'', ''DYLD_LIBRARY_PATH''} \<and> path = ''lib'')"

fun contribution_paths ::
  "(string, inventory_entry) btree_map \<Rightarrow> resolved_component list \<Rightarrow> resolved_environment \<Rightarrow> string list
     \<Rightarrow> (string list) res"
where
  "contribution_paths index rcs c [] = Inr []"
| "contribution_paths index rcs c (v # vs) =
     and_then (sdk_portable v) (\<lambda>value.
       let path = rev (dropWhile slash (rev (''components/'' @ renv_source c @ ''/'' @ value)));
           absent = (bt_get index path = None \<and> entries_below index (path @ ''/'') = [])
       in and_then (contribution_paths index rcs c vs) (\<lambda>paths.
            Inr (if optional_path rcs c value \<and> absent then paths else path # paths)))"

definition contribution_step ::
  "(string, inventory_entry) btree_map \<Rightarrow> resolved_component list
     \<Rightarrow> path_contribution list \<times> (string, string list) btree_map \<Rightarrow> resolved_environment
     \<Rightarrow> error + (path_contribution list \<times> (string, string list) btree_map)"
where
  "contribution_step index rcs = (\<lambda>(env, sets) c.
     if bt_get sdk_settings (renv_variable c) \<noteq> None
     then Inl (environment_conflict (quoted (renv_variable c) @ '' is an SDK activation setting, not a path variable''))
     else if renv_variable c = [] \<or> \<not> (is_ascii_uppercase (hd (renv_variable c)) \<or> hd (renv_variable c) = CHR ''_'')
     then Inl (environment_conflict ''SDK environment names must start with an uppercase letter or underscore'')
     else and_then (contribution_paths index rcs c (renv_values c)) (\<lambda>paths.
       let entry = \<lparr> pathc_key = renv_variable c, pathc_operation = renv_operation c, pathc_source = renv_source c,
             pathc_paths = paths \<rparr>
       in if paths = [] then Inr (env, sets)
          else if renv_operation c \<noteq> ''set'' then Inr (env @ [entry], sets)
          else (case bt_get sets (renv_variable c) of
                  Some previous \<Rightarrow>
                    if previous \<noteq> paths
                    then Inl (environment_conflict (''component-relative set values for '' @ quoted (renv_variable c) @
                           '' resolve to different paths''))
                    else Inr (env @ [entry], bt_insert (renv_variable c) paths sets)
                | None \<Rightarrow> Inr (env @ [entry], bt_insert (renv_variable c) paths sets))))"

definition prepend_contribution :: "string \<Rightarrow> string \<Rightarrow> string list \<Rightarrow> path_contribution" where
  "prepend_contribution key source paths =
     \<lparr> pathc_key = key, pathc_operation = ''prepend'', pathc_source = source, pathc_paths = paths \<rparr>"

definition python_contributions :: "inventory_entry list \<Rightarrow> resolved_composition \<Rightarrow> path_contribution list" where
  "python_contributions inventory resolved =
     List.map_filter (\<lambda>r.
       if rcomp_kind r = ''runtime''
          \<and> list_ex (\<lambda>p. rprov_component p = rcomp_id r \<and> rprov_capability p = ''usd'') (resolved_providers resolved)
          \<and> \<not> list_ex (\<lambda>c. renv_source c = rcomp_id r \<and> renv_variable c = ''PYTHONPATH'') (resolved_environment_of resolved)
       then map_option (\<lambda>path. prepend_contribution ''PYTHONPATH'' (rcomp_id r) [path])
              (runtime_python_path inventory (rcomp_id r) (rcomp_target r))
       else None) (resolved_components resolved)"

definition sdk_path_step :: "path_contribution list \<Rightarrow> string \<times> string \<Rightarrow> (path_contribution list) res" where
  "sdk_path_step env = (\<lambda>(key, path).
     if list_ex (\<lambda>e. pathc_key e = key \<and> pathc_operation e = ''set'') env
     then Inl (environment_conflict (''SDK activation cannot prepend to component set variable '' @ quoted key))
     else Inr (env @ [prepend_contribution key ''runtime-sdk'' [path]]))"

definition loader_key :: "os \<Rightarrow> string" where
  "loader_key os = lib_key os"

definition sdk_environment ::
  "inventory_entry list \<Rightarrow> resolved_composition \<Rightarrow> os \<Rightarrow> (path_contribution list) res"
where
  "sdk_environment inventory resolved os =
     and_then (try_fold (contribution_step (inventory_index inventory) (resolved_components resolved)) ([], [])
         (resolved_environment_of resolved)) (\<lambda>(env, _).
       try_fold sdk_path_step (env @ python_contributions inventory resolved)
         [(''PATH'', ''bin''), (loader_key os, ''lib''), (''PYTHONPATH'', ''python''), (''NODE_PATH'', ''node''),
          (''PXR_PLUGINPATH_NAME'', ''plugins''), (''CMAKE_PREFIX_PATH'', [])])"

definition sdk_derive ::
  "(byte list \<Rightarrow> byte list) \<Rightarrow> inventory_entry list \<Rightarrow> resolved_composition \<Rightarrow> (sdk_layout res) option"
where
  "sdk_derive sha inventory resolved =
     opt_then (sdk_files_of sha inventory (resolved_install_of resolved)) (\<lambda>files.
       Some (and_then (sdk_environment inventory resolved Linux) (\<lambda>linux.
             and_then (sdk_environment inventory resolved Macos) (\<lambda>macos.
             and_then (sdk_environment inventory resolved Windows) (\<lambda>windows.
               Inr \<lparr> layout_schema = ''openstrata.runtime-sdk/v1alpha1'', layout_roots = SDK_ROOTS,
                     layout_files = files,
                     layout_environment = foldl (\<lambda>acc (os, env). bt_insert (os_as_str os) env acc) []
                       [(Linux, linux), (Macos, macos), (Windows, windows)],
                     layout_settings = sdk_settings \<rparr>)))))"

section \<open>Activation\<close>

definition activate_step ::
  "string \<Rightarrow> char \<Rightarrow> (string, string) btree_map \<Rightarrow> path_contribution \<Rightarrow> error + (string, string) btree_map"
where
  "activate_step root sep acc c =
     (let paths = join [sep] (map (\<lambda>p. replace_char (CHR 0x5C) (CHR ''/'')
            (rev (dropWhile any_slash (rev (path_join root p))))) (pathc_paths c));
          previous = (case bt_get acc (pathc_key c) of None \<Rightarrow> [] | Some v \<Rightarrow> v);
          op = pathc_operation c
      in if op = ''set'' \<or> (op \<in> {''prepend'', ''append''} \<and> previous = []) then Inr (bt_insert (pathc_key c) paths acc)
         else if op = ''prepend'' then Inr (bt_insert (pathc_key c) (paths @ sep # previous) acc)
         else if op = ''append'' then Inr (bt_insert (pathc_key c) (previous @ sep # paths) acc)
         else Inl (composition_error ''COMPOSITION_SDK_INVALID'' ''unknown environment operation''))"

definition sdk_activate :: "sdk_layout \<Rightarrow> string \<Rightarrow> os \<Rightarrow> env_set res" where
  "sdk_activate layout root os =
     (let sep = path_sep os in
      if list_ex (\<lambda>c. c \<in> {CHR '';'', CHR 0x00, CHR 0x0A, CHR 0x0D}) root \<or> (sep = CHR '':'' \<and> CHR '':'' \<in> set root)
      then Inl (path_invalid ''SDK prefix contains an environment/CMake path-list separator or control character'')
      else (case bt_get (layout_environment layout) (os_as_str os) of
              None \<Rightarrow> Inl (composition_error ''COMPOSITION_SDK_INVALID'' ''missing target environment'')
            | Some contributions \<Rightarrow>
                and_then (try_fold (activate_step root sep) [] contributions) (\<lambda>acc.
                  Inr \<lparr> env_sep = sep, env_vars = map (\<lambda>(k, v). \<lparr> env_key = k, env_op = OpSet v \<rparr>)
                    (foldl (\<lambda>acc (k, v). bt_insert k v acc) acc (layout_settings layout)) \<rparr>)))"

section \<open>Normal paths\<close>

lemma slash_iff: "slash (CHR ''/'')" "slash c \<longleftrightarrow> c = CHR ''/''"
  by (simp_all add: slash_def)

lemma split_slash_append: "split_on slash (a @ CHR ''/'' # b) = split_on slash a @ split_on slash b"
proof (induction a)
  case (Cons c a)
  obtain y ys where "split_on slash a = y # ys" by (rule split_on_cases)
  then show ?case using Cons by (cases "slash c") simp_all
qed (simp add: slash_iff(1))

text \<open>A relative path of plain names: no empty, current or parent step under either separator.\<close>

definition normal_path :: "string \<Rightarrow> bool" where
  "normal_path p \<longleftrightarrow> CHR 0x5C \<notin> set p \<and> (\<forall>c \<in> set (split_on slash p). c \<noteq> [] \<and> c \<noteq> ''.'' \<and> c \<noteq> ''..'')"

lemma slash_char: "split_on slash = split_char (CHR ''/'')"
  unfolding slash_def [abs_def] ..

lemma normal_split: "normal_path p \<Longrightarrow> split_on any_slash p = split_on slash p"
  by (simp add: normal_path_def slashes)

lemma normal_contained:
  assumes "normal_path p"
  shows "contained any_slash p"
proof -
  have "p = [] \<or> \<not> any_slash (hd p)"
  proof (cases p)
    case (Cons c s)
    have "[] \<in> set (split_on slash p)" if "slash c" using that by (simp add: Cons)
    then have "\<not> slash c" using assms by (auto simp: normal_path_def)
    moreover have "c \<noteq> CHR 0x5C" using assms Cons by (auto simp: normal_path_def)
    ultimately show ?thesis by (simp add: Cons any_slash_def slash_def)
  qed simp
  then show ?thesis
    using assms normal_split [OF assms] by (intro contained_no_parent) (auto simp: normal_path_def)
qed

interpretation sdk_path: path_guard any_slash normal_path
  by unfold_locales (rule normal_contained)

lemma portable_parts_ok:
  "portable_parts ps = Inr qs \<Longrightarrow> qs = filter (\<lambda>p. p \<noteq> [] \<and> p \<noteq> ''.'') ps \<and> ''..'' \<notin> set ps"
  by (induction ps arbitrary: qs) (auto simp: res_simps split: if_splits)

lemma sdk_portable_ok:
  assumes "sdk_portable s = Inr p"
  shows "p = join ''/'' (filter (\<lambda>q. q \<noteq> [] \<and> q \<noteq> ''.'') (split_on slash (replace_char (CHR 0x5C) (CHR ''/'') s)))"
    and "p \<noteq> [] \<Longrightarrow> normal_path p"
proof -
  let ?s = "replace_char (CHR 0x5C) (CHR ''/'') s"
  let ?qs = "filter (\<lambda>q. q \<noteq> [] \<and> q \<noteq> ''.'') (split_on slash ?s)"
  have parts: "p = join ''/'' ?qs" "''..'' \<notin> set (split_on slash ?s)"
    using assms by (auto simp: sdk_portable_def Let_def res_simps dest!: portable_parts_ok split: if_splits)
  then show "p = join ''/'' ?qs" by simp
  have plain: "CHR ''/'' \<notin> set q \<and> CHR 0x5C \<notin> set q" if "q \<in> set ?qs" for q
  proof -
    have "q \<in> set (split_on slash ?s)" using that by simp
    then show ?thesis
      using split_on_parts [of q slash ?s] split_on_subset [of q slash ?s]
      by (auto simp: slash_def replace_char_def split: if_splits)
  qed
  show "normal_path p" if "p \<noteq> []"
  proof -
    have ne: "?qs \<noteq> []" using that parts(1) by (metis join.simps(1))
    then have split: "split_on slash p = ?qs"
      unfolding parts(1) slash_char using plain by (subst split_char_join) (auto simp: slash_char)
    have "set (join ''/'' xs) \<subseteq> \<Union> (set ` set xs) \<union> {CHR ''/''}" for xs
    proof (induction xs)
      case (Cons x xs)
      then show ?case by (cases xs) auto
    qed simp
    then have "CHR 0x5C \<notin> set p" using plain unfolding parts(1) by fastforce
    then show ?thesis using split parts(2) by (auto simp: normal_path_def)
  qed
qed

lemma first_part: "fst (top_and_tail p) = hd (split_on slash p)"
proof (cases "split_once (CHR ''/'') p")
  case None
  then have "split_on slash p = [p]" by (intro split_on_plain) (auto simp: split_once_None slash_iff(2))
  then show ?thesis using None by (simp add: top_and_tail_def)
next
  case (Some v)
  then obtain a b where "p = a @ CHR ''/'' # b" "CHR ''/'' \<notin> set a" "v = (a, b)"
    by (cases v) (auto simp: split_once_Some)
  moreover from this have "split_on slash a = [a]" by (intro split_on_plain) (auto simp: slash_iff(2))
  ultimately show ?thesis using Some by (simp add: top_and_tail_def split_slash_append)
qed

lemma sdk_portable_normal:
  assumes normal: "normal_path p" and run: "sdk_portable (p @ rest) = Inr q" and rest: "rest = [] \<or> hd rest = CHR ''/''"
  shows "normal_path q \<and> hd (split_on slash q) = hd (split_on slash p)"
proof -
  let ?keep = "filter (\<lambda>q. q \<noteq> [] \<and> q \<noteq> ''.'')"
  have same: "replace_char (CHR 0x5C) (CHR ''/'') p = p"
    unfolding replace_char_def by (rule map_idI) (use normal in \<open>auto simp: normal_path_def\<close>)
  obtain parts where split: "split_on slash (p @ replace_char (CHR 0x5C) (CHR ''/'') rest) = split_on slash p @ parts"
  proof (cases rest)
    case Nil
    then show ?thesis using that [of "[]"] by (simp add: replace_char_def)
  next
    case (Cons c r)
    then show ?thesis using rest that by (simp add: replace_char_def split_slash_append)
  qed
  obtain x xs where x: "split_on slash p = x # xs" by (rule split_on_cases)
  have names: "x \<noteq> []" "x \<noteq> ''.''" "?keep (x # xs) = x # xs"
    using normal x by (auto simp: normal_path_def filter_id_conv)
  have q: "q = join ''/'' ((x # xs) @ ?keep parts)"
    using sdk_portable_ok(1) [OF run] same split names x by (simp add: replace_char_def)
  have ne: "q \<noteq> []" using names(1) unfolding q by (cases "xs @ ?keep parts") auto
  have "CHR ''/'' \<notin> set y" if "y \<in> set ((x # xs) @ ?keep parts)" for y
  proof -
    have "y \<in> set (split_on slash (p @ replace_char (CHR 0x5C) (CHR ''/'') rest))" using that split x by auto
    then show ?thesis using split_on_parts [of y slash] by (auto simp: slash_def)
  qed
  then have "split_on slash q = (x # xs) @ ?keep parts"
    unfolding q slash_char by (intro split_char_join) auto
  then show ?thesis using sdk_portable_ok(2) [OF run ne] x by simp
qed

end
