(* ===== verification/SdkSoundness.thy ===== *)
theory SdkSoundness
  imports SdkLayouts
begin

text \<open>
  What the layout of an SDK promises: where its files come from, that nothing collides or leaves the
  tree, where its links lead, and that it can be activated.
\<close>

section \<open>The index of the inventory\<close>

lemma set_bt_insert: "set (bt_insert k v m) \<subseteq> insert (k, v) (set m)"
  by (induction k v m rule: bt_insert.induct) auto

lemma set_bt_insert_new: "k \<notin> fst ` set m \<Longrightarrow> set (bt_insert k v m) = insert (k, v) (set m)"
  by (induction k v m rule: bt_insert.induct) auto

lemma index_entries:
  "(k, e) \<in> set (inventory_index inventory) \<Longrightarrow> e \<in> set inventory \<and> k = mfile_path (inv_file e)"
proof (induction inventory rule: rev_induct)
  case (snoc x xs)
  then show ?case
    using set_bt_insert [of "mfile_path (inv_file x)" x "inventory_index xs"] by (auto simp: inventory_index_def)
qed (simp add: inventory_index_def)

lemma index_keys: "fst ` set (inventory_index inventory) = (\<lambda>e. mfile_path (inv_file e)) ` set inventory"
  by (induction inventory rule: rev_induct) (simp_all add: inventory_index_def)

lemma index_ok: "bt_ok (inventory_index inventory)"
  by (induction inventory rule: rev_induct) (simp_all add: inventory_index_def bt_ok_insert bt_ok_def [of "[]"])

text \<open>The texts that start with a prefix are an interval of the byte order.\<close>

lemma prefix_interval: "(p :: string) \<le> k \<Longrightarrow> k \<le> p @ s \<Longrightarrow> prefix p k"
proof (induction p arbitrary: k)
  case (Cons a p)
  then show ?case by (cases k) (auto simp: less_le_not_le split: if_splits)
qed simp

lemma prefix_le: "(p :: string) \<le> p @ s"
  by (induction p) auto

lemma entries_below_filter:
  assumes "bt_ok index"
  shows "entries_below index dir = filter (\<lambda>(k, _). starts_with dir k) index"
  using assms
proof (induction index)
  case (Cons e index)
  obtain k v where e: "e = (k, v)" by (cases e)
  have ok: "bt_ok index" and later: "\<forall>x \<in> fst ` set index. k < x" using Cons.prems by (auto simp: bt_ok_def e)
  have none: "filter (\<lambda>(k, _). starts_with dir k) index = []" if le: "dir \<le> k" and out: "\<not> starts_with dir k"
  proof -
    have "\<not> starts_with dir x" if x: "x \<in> fst ` set index" for x
    proof
      assume "starts_with dir x"
      then obtain s where "x = dir @ s" by (auto simp: starts_with_prefix prefix_def)
      moreover have "k \<le> x" using later x by (auto simp: less_imp_le)
      ultimately have "prefix dir k" using prefix_interval [OF le] by auto
      then show False using out by (simp add: starts_with_prefix)
    qed
    then show ?thesis by (force simp: filter_empty_conv)
  qed
  have below: "entries_below index dir = takeWhile (\<lambda>(k, _). starts_with dir k) index" if "dir \<le> k"
  proof -
    have "dropWhile (\<lambda>(k, _). k < dir) index = index"
      using later that by (cases index) (auto dest: less_trans le_less_trans)
    then show ?thesis by (simp add: entries_below_def)
  qed
  have not_below: "\<not> starts_with dir k" if "k < dir"
    using that leD [OF prefix_le] by (auto simp: starts_with_prefix prefix_def)
  show ?case
  proof (cases "k < dir")
    case True
    then show ?thesis using Cons.IH [OF ok] not_below by (simp add: e entries_below_def)
  next
    case False
    then have le: "dir \<le> k" by simp
    show ?thesis
    proof (cases "starts_with dir k")
      case True
      then show ?thesis using False Cons.IH [OF ok] below [OF le] by (simp add: e entries_below_def)
    next
      case out: False
      then show ?thesis using False none [OF le] by (simp add: e entries_below_def)
    qed
  qed
qed (simp add: entries_below_def)

text \<open>So an install source finds exactly the entries at it and below it.\<close>

definition at_or_below :: "string \<Rightarrow> string \<Rightarrow> bool" where
  "at_or_below source path \<longleftrightarrow> path = source \<or> starts_with (source @ ''/'') path"

lemma entries_at_sound:
  "e \<in> set (entries_at (inventory_index inventory) source) \<Longrightarrow>
     e \<in> set inventory \<and> at_or_below source (mfile_path (inv_file e))"
  by (cases "bt_get (inventory_index inventory) source")
     (auto simp: entries_at_def entries_below_filter [OF index_ok] at_or_below_def dest: index_entries dest!: map_of_SomeD)

lemma entries_at_complete:
  assumes "e \<in> set inventory" "at_or_below source (mfile_path (inv_file e))"
  shows "\<exists>e' \<in> set (entries_at (inventory_index inventory) source). mfile_path (inv_file e') = mfile_path (inv_file e)"
proof -
  have "mfile_path (inv_file e) \<in> fst ` set (inventory_index inventory)" unfolding index_keys using assms(1) by blast
  then obtain e' where e': "(mfile_path (inv_file e), e') \<in> set (inventory_index inventory)" by force
  have "distinct (map fst (inventory_index inventory))"
    using index_ok [of inventory] by (auto simp: bt_ok_def strict_sorted_iff)
  then have "map_of (inventory_index inventory) (mfile_path (inv_file e)) = Some e'" using e' by simp
  then have "e' \<in> set (entries_at (inventory_index inventory) source)"
    using assms(2) e' by (auto simp: entries_at_def at_or_below_def entries_below_filter [OF index_ok] image_iff
        intro!: bexI [of _ "(mfile_path (inv_file e), e')"])
  then show ?thesis using index_entries [OF e'] by metis
qed

section \<open>Folds that may fail or panic\<close>

lemma opt_then_Inr: "opt_then r f = Some (Inr y) \<longleftrightarrow> (\<exists>x. r = Some (Inr x) \<and> f x = Some (Inr y))"
  by (auto simp: opt_then_def split: option.splits sum.splits)

lemma opt_then_total: "r \<noteq> None \<Longrightarrow> (\<And>x. r = Some (Inr x) \<Longrightarrow> f x \<noteq> None) \<Longrightarrow> opt_then r f \<noteq> None"
  by (auto simp: opt_then_def split: option.splits sum.splits)

lemma opt_fold_invariant:
  assumes "opt_fold f s xs = Some (Inr t)" "I s"
    and "\<And>s x s'. x \<in> set xs \<Longrightarrow> f s x = Some (Inr s') \<Longrightarrow> I s \<Longrightarrow> I s'"
  shows "I t"
  using assms
proof (induction xs arbitrary: s)
  case (Cons x xs)
  then obtain s' where "f s x = Some (Inr s')" "opt_fold f s' xs = Some (Inr t)"
    by (auto split: option.splits sum.splits)
  then show ?case using Cons.IH [of s'] Cons.prems(2,3) by auto
qed simp

text \<open>What a step has achieved for its element stays achieved.\<close>

lemma opt_fold_achieves:
  assumes "opt_fold f s xs = Some (Inr t)" "I s"
    and inv: "\<And>s x s'. x \<in> set xs \<Longrightarrow> f s x = Some (Inr s') \<Longrightarrow> I s \<Longrightarrow> I s'"
    and step: "\<And>s x s'. x \<in> set xs \<Longrightarrow> f s x = Some (Inr s') \<Longrightarrow> I s \<Longrightarrow> P x s'"
    and keep: "\<And>s x y s'. x \<in> set xs \<Longrightarrow> f s x = Some (Inr s') \<Longrightarrow> I s \<Longrightarrow> P y s \<Longrightarrow> P y s'"
  shows "\<forall>x \<in> set xs. P x t"
  using assms
proof (induction xs arbitrary: s)
  case (Cons x xs)
  then obtain s' where run: "f s x = Some (Inr s')" "opt_fold f s' xs = Some (Inr t)"
    by (auto split: option.splits sum.splits)
  have now: "I s'" "P x s'"
    using Cons.prems(3) [OF _ run(1) Cons.prems(2)] Cons.prems(4) [OF _ run(1) Cons.prems(2)] by simp_all
  have "I t \<and> P x t"
    by (rule opt_fold_invariant [where I = "\<lambda>s. I s \<and> P x s", OF run(2)])
       (use now Cons.prems(3,5) in \<open>simp_all, meson list.set_intros(2)\<close>)
  moreover have "\<forall>x \<in> set xs. P x t"
    by (rule Cons.IH [OF run(2) now(1)]) (blast intro: Cons.prems(3-5) list.set_intros(2))+
  ultimately show ?case by simp
qed simp

lemma opt_fold_total: "(\<And>s x. x \<in> set xs \<Longrightarrow> f s x \<noteq> None) \<Longrightarrow> opt_fold f s xs \<noteq> None"
proof (induction xs arbitrary: s)
  case (Cons x xs)
  have "f s x \<noteq> None" using Cons.prems by simp
  then show ?case using Cons by (auto split: option.splits sum.splits)
qed simp

lemma opt_map_Inr: "opt_map f xs = Some (Inr ys) \<longleftrightarrow> list_all2 (\<lambda>x y. f x = Some (Inr y)) xs ys"
  by (induction xs arbitrary: ys) (auto simp: opt_then_Inr list_all2_Cons1)

lemma opt_map_total: "(\<And>x. x \<in> set xs \<Longrightarrow> f x \<noteq> None) \<Longrightarrow> opt_map f xs \<noteq> None"
proof (induction xs)
  case (Cons x xs)
  have "f x \<noteq> None" "opt_map f xs \<noteq> None" using Cons by simp_all
  then show ?case unfolding opt_map.simps by (intro opt_then_total) simp_all
qed simp

section \<open>What the install loop has put in the tree\<close>

definition reserved_top :: "string \<Rightarrow> bool" where
  "reserved_top p \<longleftrightarrow> to_ascii_lowercase (hd (split_on slash p)) \<in> {''components'', ''metadata''}"

definition copied_from :: "sdk_file \<Rightarrow> inventory_entry \<Rightarrow> bool" where
  "copied_from f e \<longleftrightarrow> sdk_component f = inv_component e \<and> sdk_artifact f = inv_artifact e
     \<and> sdk_source f = mfile_path (inv_file e) \<and> sdk_target f = (inv_file e)\<lparr>mfile_path := sdk_file_path f\<rparr>"

definition placed :: "inventory_entry list \<Rightarrow> string \<times> sdk_file \<Rightarrow> bool" where
  "placed inventory = (\<lambda>(key, f). key = to_ascii_lowercase (sdk_file_path f) \<and> normal_path (sdk_file_path f)
     \<and> \<not> reserved_top (sdk_file_path f) \<and> (\<exists>e \<in> set inventory. copied_from f e))"

definition tree_inv :: "inventory_entry list \<Rightarrow> sdk_files \<Rightarrow> bool" where
  "tree_inv inventory files \<longleftrightarrow> bt_ok files \<and> (\<forall>x \<in> set files. placed inventory x)"

definition holds_source :: "string \<Rightarrow> sdk_files \<Rightarrow> bool" where
  "holds_source source files \<longleftrightarrow> (\<exists>x \<in> set files. sdk_source (snd x) = source)"

lemma mapped_at_or_below: "at_or_below (dir @ source) (dir @ original) \<Longrightarrow> mapped original source destination \<noteq> None"
  by (auto simp: at_or_below_def mapped_def starts_with_prefix prefix_def str_simps)

lemma mapped_Some:
  "mapped original source destination = Some target \<Longrightarrow> \<exists>rest. target = destination @ rest \<and> (rest = [] \<or> hd rest = CHR ''/'')"
  by (auto simp: mapped_def split: if_splits)

lemma install_entry_Inr:
  assumes run: "install_entry dir source destination (matched, files) e = Some (Inr (matched', files'))"
    and destination: "normal_path destination" "\<not> reserved_top destination"
    and e: "e \<in> set inventory" and inv: "tree_inv inventory files"
  shows "tree_inv inventory files' \<and> set files \<subseteq> set files'
     \<and> (at_or_below (dir @ source) (mfile_path (inv_file e)) \<longrightarrow> holds_source (mfile_path (inv_file e)) files')"
proof -
  obtain original where original: "mfile_path (inv_file e) = dir @ original"
    using run by (auto simp: install_entry_def str_simps split: option.splits)
  show ?thesis
  proof (cases "mapped original source destination")
    case None
    then have "files' = files" using run original by (simp add: install_entry_def)
    then show ?thesis using inv mapped_at_or_below None unfolding original by blast
  next
    case (Some target)
    then obtain path where path: "sdk_portable target = Inr path"
      and fresh: "bt_get files (to_ascii_lowercase path) = None"
      and files': "files' = bt_insert (to_ascii_lowercase path)
        \<lparr> sdk_component = inv_component e, sdk_artifact = inv_artifact e,
          sdk_source = mfile_path (inv_file e), sdk_target = (inv_file e)\<lparr>mfile_path := path\<rparr> \<rparr> files"
        (is "_ = bt_insert _ ?f _")
      using run original by (auto simp: install_entry_def Let_def res_simps split: if_splits)
    obtain rest where "target = destination @ rest" "rest = [] \<or> hd rest = CHR ''/''"
      using mapped_Some [OF Some] by blast
    then have "normal_path path" "hd (split_on slash path) = hd (split_on slash destination)"
      using sdk_portable_normal [OF destination(1), of rest path] path by blast+
    then have "placed inventory (to_ascii_lowercase path, ?f)"
      using destination(2) e by (auto simp: placed_def reserved_top_def sdk_file_path_def copied_from_def intro!: bexI [of _ e])
    moreover have "set files' = insert (to_ascii_lowercase path, ?f) (set files)"
      unfolding files' by (rule set_bt_insert_new) (use fresh in \<open>simp add: map_of_eq_None_iff\<close>)
    ultimately show ?thesis
      using inv bt_ok_insert unfolding tree_inv_def holds_source_def files' by auto
  qed
qed

lemma sdk_roots_normal: "root \<in> set SDK_ROOTS \<Longrightarrow> normal_path root"
proof -
  have "list_all normal_path SDK_ROOTS" by code_simp
  then show "root \<in> set SDK_ROOTS \<Longrightarrow> normal_path root" by (simp add: list_all_iff)
qed

lemma normal_append: "normal_path a \<Longrightarrow> normal_path b \<Longrightarrow> normal_path (a @ CHR ''/'' # b)"
  unfolding normal_path_def split_slash_append by auto

lemma normal_appendD: "normal_path (a @ CHR ''/'' # b) \<Longrightarrow> normal_path a \<and> normal_path b"
  unfolding normal_path_def split_slash_append by simp

lemma normal_nonempty: "normal_path p \<Longrightarrow> p \<noteq> []"
  by (rule notI) (simp add: normal_path_def)

lemma sdk_destination_normal:
  assumes "sdk_destination given = Inr d" "d \<noteq> []"
  shows "normal_path d"
proof -
  obtain path where path: "sdk_portable given = Inr path" using assms(1) by (auto simp: sdk_destination_def res_simps)
  show ?thesis
  proof (cases "path = []")
    case True
    have "sdk_destination given = Inr []"
      using path True by (simp add: sdk_destination_def top_and_tail_def SDK_ROOTS_def)
    then show ?thesis using assms by simp
  next
    case False
    then have normal: "normal_path path" by (rule sdk_portable_ok(2) [OF path])
    obtain first tail where parts: "top_and_tail path = (first, tail)" by (cases "top_and_tail path")
    have "tail = [] \<or> path = first @ CHR ''/'' # tail"
      using parts by (auto simp: top_and_tail_def split_once_Some split: option.splits)
    then have tail: "tail = [] \<or> normal_path tail" using normal normal_appendD by metis
    show ?thesis
    proof (cases "find (\<lambda>root. to_ascii_lowercase root = to_ascii_lowercase first) SDK_ROOTS")
      case None
      then show ?thesis using assms(1) path parts normal by (simp add: sdk_destination_def)
    next
      case (Some root)
      then have "normal_path root" by (intro sdk_roots_normal) (auto simp: find_Some_iff)
      then show ?thesis
        using assms(1) path parts tail Some normal_append by (auto simp: sdk_destination_def split: if_splits)
    qed
  qed
qed

lemma install_mapping_Inr:
  assumes run: "install_mapping_step (inventory_index inventory) files m = Some (Inr files')"
    and inv: "tree_inv inventory files"
  shows "tree_inv inventory files' \<and> set files \<subseteq> set files'"
    and "\<exists>source. sdk_portable (rinst_source m) = Inr source
      \<and> (\<forall>e \<in> set inventory. at_or_below (component_prefix (rinst_component m) @ source) (mfile_path (inv_file e))
           \<longrightarrow> holds_source (mfile_path (inv_file e)) files')"
proof -
  let ?dir = "component_prefix (rinst_component m)"
  obtain source destination matched where source: "sdk_portable (rinst_source m) = Inr source"
    and destination: "sdk_destination (rinst_destination m) = Inr destination"
    and ok: "destination \<noteq> []" "\<not> reserved_top destination"
    and fold: "opt_fold (install_entry ?dir source destination) (False, files)
        (entries_at (inventory_index inventory) (?dir @ source)) = Some (Inr (matched, files'))"
    using run by (auto simp: install_mapping_step_def opt_then_Inr reserved_top_def first_part split: if_splits)
  note normal = sdk_destination_normal [OF destination ok(1)]
  note step = install_entry_Inr [OF _ normal ok(2), where dir = ?dir and inventory = inventory]
  have keeps: "tree_inv inventory (snd s') \<and> set (snd s) \<subseteq> set (snd s')
      \<and> (\<exists>x \<in> set (snd s'). sdk_source (snd x) = mfile_path (inv_file e))"
    if "e \<in> set (entries_at (inventory_index inventory) (?dir @ source))"
      "install_entry ?dir source destination s e = Some (Inr s')" "tree_inv inventory (snd s)" for s e s'
    using step [of source "fst s" "snd s" e "fst s'" "snd s'"] entries_at_sound [OF that(1)] that(2,3) by (simp add: holds_source_def)
  have "tree_inv inventory (snd (matched, files')) \<and> set files \<subseteq> set (snd (matched, files'))"
    by (rule opt_fold_invariant [where I = "\<lambda>t. tree_inv inventory (snd t) \<and> set files \<subseteq> set (snd t)", OF fold])
       (use inv keeps in \<open>simp, blast\<close>)
  then show "tree_inv inventory files' \<and> set files \<subseteq> set files'" by simp
  have "\<forall>e \<in> set (entries_at (inventory_index inventory) (?dir @ source)).
      \<exists>x \<in> set (snd (matched, files')). sdk_source (snd x) = mfile_path (inv_file e)"
    by (rule opt_fold_achieves [where I = "\<lambda>t. tree_inv inventory (snd t)", OF fold])
       (use inv keeps in \<open>simp, blast+\<close>)
  then show "\<exists>source. sdk_portable (rinst_source m) = Inr source
      \<and> (\<forall>e \<in> set inventory. at_or_below (?dir @ source) (mfile_path (inv_file e))
           \<longrightarrow> holds_source (mfile_path (inv_file e)) files')"
    using source entries_at_complete by (metis holds_source_def snd_conv)
qed

lemma install_all:
  assumes run: "opt_fold (install_mapping_step (inventory_index inventory)) [] install = Some (Inr files)"
  shows "tree_inv inventory files"
    and "\<forall>m \<in> set install. \<exists>source. sdk_portable (rinst_source m) = Inr source
      \<and> (\<forall>e \<in> set inventory. at_or_below (component_prefix (rinst_component m) @ source) (mfile_path (inv_file e))
           \<longrightarrow> holds_source (mfile_path (inv_file e)) files)"
proof -
  have empty: "tree_inv inventory []" by (simp add: tree_inv_def bt_ok_def)
  show "tree_inv inventory files"
    by (rule opt_fold_invariant [where I = "tree_inv inventory", OF run empty]) (blast dest: install_mapping_Inr(1))
  have grows: "holds_source s files1" if "set files0 \<subseteq> set files1" "holds_source s files0" for s files0 files1
    using that by (auto simp: holds_source_def)
  show "\<forall>m \<in> set install. \<exists>source. sdk_portable (rinst_source m) = Inr source
      \<and> (\<forall>e \<in> set inventory. at_or_below (component_prefix (rinst_component m) @ source) (mfile_path (inv_file e))
           \<longrightarrow> holds_source (mfile_path (inv_file e)) files)"
    by (rule opt_fold_achieves [where I = "tree_inv inventory", OF run empty])
       (meson install_mapping_Inr grows)+
qed

lemma install_total: "opt_fold (install_mapping_step (inventory_index inventory)) files install \<noteq> None"
proof (rule opt_fold_total)
  fix files m
  have "opt_fold (install_entry dir source destination) s (entries_at (inventory_index inventory) (dir @ source)) \<noteq> None"
    for dir source destination s
  proof (rule opt_fold_total)
    fix s e assume "e \<in> set (entries_at (inventory_index inventory) (dir @ source))"
    then have "at_or_below (dir @ source) (mfile_path (inv_file e))" using entries_at_sound by blast
    then obtain rest where "mfile_path (inv_file e) = dir @ rest"
      by (auto simp: at_or_below_def starts_with_prefix prefix_def)
    then show "install_entry dir source destination s e \<noteq> None"
      by (simp add: install_entry_def split: prod.split option.split)
  qed
  then have total: "opt_then (opt_fold (install_entry dir source destination) t
        (entries_at (inventory_index inventory) (dir @ source))) k \<noteq> None"
    if "\<And>x. k x \<noteq> None" for dir source destination t and k :: "bool \<times> sdk_files \<Rightarrow> (sdk_files res) option"
    using that by (intro opt_then_total) auto
  show "install_mapping_step (inventory_index inventory) files m \<noteq> None"
    unfolding install_mapping_step_def
    by (intro opt_then_total) (simp_all del: not_None_eq, intro impI total, auto)
qed

section \<open>Files and directories\<close>

lemma check_no_parent_ok:
  assumes "for_each (check_no_parent files) (bt_keys files) = Inr ()" "key \<in> fst ` set files"
  shows "key \<notin> set SDK_ROOTS \<and> (\<forall>p \<in> set (parent_dirs key). p \<notin> fst ` set files)"
proof -
  have "check_no_parent files key = Inr ()" using assms by (auto simp: res_simps)
  then show ?thesis
    by (auto simp: check_no_parent_def find_None_iff map_of_eq_None_iff split: option.splits if_splits)
qed

lemma parent_dirs_append:
  "d \<in> set (parent_dirs p) \<longleftrightarrow> (\<exists>s. p = d @ CHR ''/'' # s)"
proof (induction p rule: parent_dirs.induct)
  case (1 p)
  show ?case
  proof (cases "rsplit_once (CHR ''/'') p")
    case None
    moreover have "parent_dirs p = []" using None by (simp add: parent_dirs.simps [of p])
    ultimately show ?thesis by (auto simp: rsplit_once_None)
  next
    case (Some v)
    obtain dir b where v: "v = (dir, b)" by (cases v)
    have p: "p = dir @ CHR ''/'' # b" "CHR ''/'' \<notin> set b" using Some by (simp_all add: v rsplit_once_Some)
    have "d \<in> set (parent_dirs p) \<longleftrightarrow> d = dir \<or> (\<exists>s. dir = d @ CHR ''/'' # s)"
      using 1 [OF Some v [symmetric]] Some by (simp add: parent_dirs.simps [of p] v)
    also have "\<dots> \<longleftrightarrow> (\<exists>s. p = d @ CHR ''/'' # s)"
      using p by (auto simp: append_eq_append_conv2 Cons_eq_append_conv append_eq_Cons_conv)
    finally show ?thesis .
  qed
qed

lemma casing_ok:
  assumes "try_fold casing_step [] dirs = Inr acc"
  shows "\<forall>d \<in> set dirs. \<forall>d' \<in> set dirs. to_ascii_lowercase d = to_ascii_lowercase d' \<longrightarrow> d = d'"
proof -
  have "\<forall>d \<in> set dirs. bt_get acc (to_ascii_lowercase d) = Some d"
    using assms
  proof (induction dirs arbitrary: acc rule: rev_induct)
    case (snoc d dirs)
    obtain acc0 where acc0: "try_fold casing_step [] dirs = Inr acc0" "casing_step acc0 d = Inr acc"
      using snoc.prems by (auto simp: try_fold_append res_simps)
    then have acc: "bt_get acc = (bt_get acc0)(to_ascii_lowercase d \<mapsto> d)"
      and same: "bt_get acc0 (to_ascii_lowercase d) = None \<or> bt_get acc0 (to_ascii_lowercase d) = Some d"
      by (auto simp: casing_step_def split: option.splits if_splits)
    have "bt_get acc (to_ascii_lowercase x) = Some x" if "x = d \<or> x \<in> set dirs" for x
      using that snoc.IH [OF acc0(1)] same unfolding acc fun_upd_def by (metis option.distinct(1) option.inject)
    then show ?case by simp
  qed simp
  then show ?thesis by (metis option.inject)
qed

section \<open>Links\<close>

lemma link_walk_walk: "link_walk parts rest = Inr qs \<longleftrightarrow> walk parts rest = Some qs"
  by (induction parts rest rule: link_walk.induct) auto

lemma common_length: "take (common_length as bs) as = take (common_length as bs) bs"
  "common_length as bs \<le> length as"
  by (induction as bs rule: common_length.induct) auto

lemma walk_up: "n \<le> length d \<Longrightarrow> walk d (replicate n ''..'') = Some (take (length d - n) d)"
proof (induction n arbitrary: d)
  case (Suc n)
  then have "d \<noteq> []" "n \<le> length (butlast d)" by auto
  then show ?case using Suc.IH [of "butlast d"] by (simp add: butlast_conv_take take_take min_def)
qed simp

lemma walk_down: "\<forall>c \<in> set cs. c \<noteq> [] \<and> c \<noteq> ''.'' \<and> c \<noteq> ''..'' \<Longrightarrow> walk d cs = Some (d @ cs)"
  by (induction cs arbitrary: d) auto

lemma split_slash_join:
  "xs \<noteq> [] \<Longrightarrow> \<forall>x \<in> set xs. CHR ''/'' \<notin> set x \<Longrightarrow> split_on slash (join ''/'' xs) = xs"
  unfolding slash_char by (rule split_char_join)

text \<open>A link written between two places of the tree leads from one to the other.\<close>

lemma relative_link_leads:
  assumes "normal_path p" "normal_path target"
  shows "walk (butlast (split_on slash p)) (split_on slash (relative_link p target)) = Some (split_on slash target)"
proof -
  let ?dirs = "butlast (split_on slash p)" and ?to = "split_on slash target"
  let ?c = "common_length ?dirs ?to"
  let ?parts = "replicate (length ?dirs - ?c) ''..'' @ drop ?c ?to"
  have names: "\<forall>c \<in> set (drop ?c ?to). c \<noteq> [] \<and> c \<noteq> ''.'' \<and> c \<noteq> ''..''"
    using assms(2) by (auto simp: normal_path_def dest: in_set_dropD)
  have "walk ?dirs (replicate (length ?dirs - ?c) ''..'') = Some (take ?c ?dirs)"
    using walk_up [of "length ?dirs - ?c" ?dirs] unfolding diff_diff_cancel [OF common_length(2)] by simp
  then have walk: "walk ?dirs ?parts = Some ?to"
    using walk_down [OF names] by (simp add: walk_append common_length(1))
  show ?thesis
  proof (cases "?parts = []")
    case True
    then have "?dirs = ?to" using walk by simp
    moreover have "relative_link p target = ''.''" by (simp only: relative_link_def Let_def True simp_thms if_True)
    moreover have "split_on slash ''.'' = [''.'']" by code_simp
    ultimately show ?thesis by simp
  next
    case False
    have "CHR ''/'' \<notin> set x" if "x \<in> set ?parts" for x
      using that split_on_parts [of x slash target] by (auto simp: slash_iff(2) dest: in_set_dropD)
    then have "split_on slash (join ''/'' ?parts) = ?parts" using False by (intro split_slash_join) blast+
    then show ?thesis using walk by (simp only: relative_link_def Let_def False if_False)
  qed
qed

lemma set_bs_of_list: "set (foldl (\<lambda>acc p. bs_insert p acc) acc ps) = set acc \<union> set ps"
  by (induction ps arbitrary: acc) auto

text \<open>\<open>one\<close> is where the files at or below the source \<open>t\<close> went.\<close>

definition leads_to :: "sdk_file list \<Rightarrow> string \<Rightarrow> string \<Rightarrow> bool" where
  "leads_to files t one \<longleftrightarrow> (\<exists>g \<in> set files. (sdk_source g = t \<and> sdk_file_path g = one)
     \<or> (\<exists>tail. sdk_source g = t @ ''/'' @ tail \<and> sdk_file_path g = one @ ''/'' @ tail))"

lemma link_targets_leads: "one \<in> set (link_targets files t) \<longleftrightarrow> leads_to files t one"
proof -
  have "one \<in> set (link_targets files t) \<longleftrightarrow> (\<exists>g \<in> set files. (if sdk_source g = t then Some (sdk_file_path g)
       else Option.bind (strip_prefix (t @ ''/'') (sdk_source g)) (\<lambda>tail. strip_suffix (''/'' @ tail) (sdk_file_path g))) = Some one)"
    by (simp add: link_targets_def set_bs_of_list List.map_filter_def image_iff) force
  also have "\<dots> \<longleftrightarrow> leads_to files t one"
    unfolding leads_to_def by (intro bex_cong refl) (auto simp: bind_eq_Some_conv str_simps)
  finally show ?thesis .
qed

section \<open>The layout\<close>

text \<open>
  What a file of the tree is: the inventory entry it was copied from, at another path, and for a
  link a text that leads to where the thing its original names was installed.
\<close>

definition link_installed ::
  "(byte list \<Rightarrow> byte list) \<Rightarrow> sdk_file list \<Rightarrow> sdk_file \<Rightarrow> inventory_entry \<Rightarrow> string \<Rightarrow> bool"
where
  "link_installed sha files f e target \<longleftrightarrow>
     (\<exists>source parts link one. sdk_source f = component_prefix (sdk_component f) @ source
        \<and> walk (butlast (split_on slash source)) (split_on slash target) = Some parts
        \<and> leads_to files (component_prefix (sdk_component f) @ join ''/'' parts) one
        \<and> walk (butlast (split_on slash (sdk_file_path f))) (split_on slash link) = Some (split_on slash one)
        \<and> sdk_target f = (inv_file e)\<lparr>mfile_path := sdk_file_path f, mfile_sha256 := sha256_hex sha (str_bytes link),
             mfile_size := length link, mfile_link_target := Some link\<rparr>)"

definition sdk_file_sound ::
  "(byte list \<Rightarrow> byte list) \<Rightarrow> inventory_entry list \<Rightarrow> sdk_file list \<Rightarrow> sdk_file \<Rightarrow> bool"
where
  "sdk_file_sound sha inventory files f \<longleftrightarrow>
     normal_path (sdk_file_path f) \<and> \<not> reserved_top (sdk_file_path f)
     \<and> (\<exists>e \<in> set inventory. sdk_component f = inv_component e \<and> sdk_artifact f = inv_artifact e
          \<and> sdk_source f = mfile_path (inv_file e)
          \<and> (case mfile_link_target (inv_file e) of
               None \<Rightarrow> sdk_target f = (inv_file e)\<lparr>mfile_path := sdk_file_path f\<rparr>
             | Some target \<Rightarrow> link_installed sha files f e target))"

definition directories :: "sdk_file list \<Rightarrow> string set" where
  "directories files = (\<Union>f \<in> set files. set (parent_dirs (sdk_file_path f)))"

definition sdk_tree_sound ::
  "(byte list \<Rightarrow> byte list) \<Rightarrow> inventory_entry list \<Rightarrow> resolved_install list \<Rightarrow> sdk_file list \<Rightarrow> bool"
where
  "sdk_tree_sound sha inventory install files \<longleftrightarrow>
     (\<forall>f \<in> set files. sdk_file_sound sha inventory files f)
     \<and> distinct (map (\<lambda>f. to_ascii_lowercase (sdk_file_path f)) files)
     \<and> (\<forall>f \<in> set files. to_ascii_lowercase (sdk_file_path f) \<notin> set SDK_ROOTS \<union> to_ascii_lowercase ` directories files)
     \<and> inj_on to_ascii_lowercase (directories files)
     \<and> (\<forall>m \<in> set install. \<exists>source. sdk_portable (rinst_source m) = Inr source
          \<and> (\<forall>e \<in> set inventory. at_or_below (component_prefix (rinst_component m) @ source) (mfile_path (inv_file e))
               \<longrightarrow> (\<exists>f \<in> set files. sdk_source f = mfile_path (inv_file e))))"

lemma case_single: "(case xs of [one] \<Rightarrow> f one | _ \<Rightarrow> Inl e) = Inr y \<longleftrightarrow> (\<exists>one. xs = [one] \<and> f one = Inr y)"
  by (auto split: list.splits)

lemma relink_Inr:
  assumes run: "relink sha files f = Some (Inr g)" and copied: "copied_from f e" and normal: "normal_path (sdk_file_path f)"
    and all: "\<forall>h \<in> set files. normal_path (sdk_file_path h)"
  shows "sdk_file_path g = sdk_file_path f \<and> sdk_component g = sdk_component f \<and> sdk_artifact g = sdk_artifact f
     \<and> sdk_source g = sdk_source f
     \<and> (case mfile_link_target (inv_file e) of
          None \<Rightarrow> sdk_target g = (inv_file e)\<lparr>mfile_path := sdk_file_path g\<rparr>
        | Some target \<Rightarrow> link_installed sha files g e target)"
proof (cases "mfile_link_target (inv_file e)")
  case None
  have "mfile_link_target (sdk_target f) = None" using copied None by (simp add: copied_from_def)
  then have "g = f" using run by (simp add: relink_def)
  then show ?thesis using copied None by (simp add: copied_from_def)
next
  case (Some target)
  let ?dir = "component_prefix (sdk_component f)"
  have copy: "sdk_target f = (inv_file e)\<lparr>mfile_path := sdk_file_path f\<rparr>" using copied by (simp add: copied_from_def)
  then have "mfile_link_target (sdk_target f) = Some target" using Some by simp
  then obtain source destination one where source: "sdk_source f = ?dir @ source"
    and destination: "link_destination source target = Inr destination"
    and one: "link_targets files (?dir @ destination) = [one]"
    and g: "g = f\<lparr>sdk_target := (sdk_target f)\<lparr>mfile_sha256 := sha256_hex sha (str_bytes (relative_link (sdk_file_path f) one)),
        mfile_size := length (relative_link (sdk_file_path f) one), mfile_link_target := Some (relative_link (sdk_file_path f) one)\<rparr>\<rparr>"
    using run by (auto simp: relink_def Let_def res_simps str_simps case_single split: option.splits)
  have path: "sdk_file_path g = sdk_file_path f" by (simp add: g sdk_file_path_def)
  obtain parts where parts: "walk (butlast (split_on slash source)) (split_on slash target) = Some parts" "destination = join ''/'' parts"
    using destination by (auto simp: link_destination_def res_simps link_walk_walk split: if_splits)
  have leads: "leads_to files (?dir @ destination) one" unfolding link_targets_leads [symmetric] one by simp
  then obtain h tail where h: "h \<in> set files" "sdk_file_path h = one \<or> sdk_file_path h = one @ CHR ''/'' # tail"
    by (auto simp: leads_to_def)
  then have "normal_path (sdk_file_path h)" using all by blast
  then have "normal_path one" using h(2) normal_appendD by metis
  note link = relative_link_leads [OF normal this]
  have "sdk_target g = (inv_file e)\<lparr>mfile_path := sdk_file_path f, mfile_sha256 := sha256_hex sha (str_bytes (relative_link (sdk_file_path f) one)),
      mfile_size := length (relative_link (sdk_file_path f) one), mfile_link_target := Some (relative_link (sdk_file_path f) one)\<rparr>"
    unfolding g by (simp add: copy)
  then have "link_installed sha files g e target"
    unfolding link_installed_def path using source parts leads link by (auto simp: g)
  then show ?thesis using Some path by (simp add: g)
qed

text \<open>What is only about sources and paths is the same before and after relinking.\<close>

definition outline :: "sdk_file \<Rightarrow> string \<times> string" where
  "outline f = (sdk_source f, sdk_file_path f)"

lemma leads_to_outline: "map outline xs = map outline ys \<Longrightarrow> leads_to xs = leads_to ys"
proof (intro ext)
  fix t one assume "map outline xs = map outline ys"
  then have "outline ` set xs = outline ` set ys" by (metis list.set_map)
  moreover have "leads_to zs t one \<longleftrightarrow> (\<exists>(s, p) \<in> outline ` set zs. (s = t \<and> p = one)
      \<or> (\<exists>tail. s = t @ ''/'' @ tail \<and> p = one @ ''/'' @ tail))" for zs
    by (simp add: leads_to_def outline_def)
  ultimately show "leads_to xs t one = leads_to ys t one" by (simp only:)
qed

lemma outline_paths: "map outline xs = map outline ys \<Longrightarrow> map sdk_file_path xs = map sdk_file_path ys"
proof -
  assume "map outline xs = map outline ys"
  then have "map snd (map outline xs) = map snd (map outline ys)" by (rule arg_cong)
  then show ?thesis by (simp add: outline_def comp_def)
qed

lemma outline_directories: "map outline xs = map outline ys \<Longrightarrow> directories xs = directories ys"
proof -
  assume "map outline xs = map outline ys"
  then have "sdk_file_path ` set xs = sdk_file_path ` set ys" using outline_paths by (metis list.set_map)
  moreover have "directories zs = (\<Union>p \<in> sdk_file_path ` set zs. set (parent_dirs p))" for zs by (simp add: directories_def)
  ultimately show ?thesis by (simp only:)
qed

text \<open>The tree before relinking.\<close>

lemma installed_tree:
  assumes inv: "tree_inv inventory files" and parents: "for_each (check_no_parent files) (bt_keys files) = Inr ()"
    and flat: "flat = sort_key sdk_file_path (map snd files)" and casing: "check_casing flat = Inr ()"
  shows "distinct (map (\<lambda>f. to_ascii_lowercase (sdk_file_path f)) flat)"
    and "\<forall>f \<in> set flat. to_ascii_lowercase (sdk_file_path f) \<notin> set SDK_ROOTS \<union> to_ascii_lowercase ` directories flat"
    and "inj_on to_ascii_lowercase (directories flat)"
proof -
  let ?key = "\<lambda>f. to_ascii_lowercase (sdk_file_path f)"
  have key: "k = ?key f" if "(k, f) \<in> set files" for k f using inv that by (auto simp: tree_inv_def placed_def)
  then have keys: "map ?key (map snd files) = map fst files" by auto
  have "distinct (map fst files)" using inv by (auto simp: tree_inv_def bt_ok_def strict_sorted_iff)
  then have "distinct (map ?key (map snd files))" unfolding keys .
  then show "distinct (map ?key flat)" unfolding flat by (metis mset_eq_imp_distinct_iff mset_map mset_sort)
  have in_keys: "?key f \<in> fst ` set files" if "f \<in> set flat" for f
    using that key by (force simp: flat)
  have "to_ascii_lowercase d \<notin> fst ` set files" if d: "d \<in> directories flat" for d
  proof -
    obtain g s where g: "g \<in> set flat" "sdk_file_path g = d @ CHR ''/'' # s"
      using d by (auto simp: directories_def parent_dirs_append)
    have "ascii_lower (CHR ''/'') = CHR ''/''" by code_simp
    then have "to_ascii_lowercase d \<in> set (parent_dirs (?key g))" by (auto simp: parent_dirs_append g(2))
    then show ?thesis using check_no_parent_ok [OF parents in_keys [OF g(1)]] by blast
  qed
  then have "to_ascii_lowercase ` directories flat \<inter> fst ` set files = {}" by blast
  then show "\<forall>f \<in> set flat. ?key f \<notin> set SDK_ROOTS \<union> to_ascii_lowercase ` directories flat"
    using check_no_parent_ok [OF parents in_keys] in_keys by (meson UnE disjoint_iff)
  obtain acc where "try_fold casing_step [] (concat (map (\<lambda>f. parent_dirs (sdk_file_path f)) flat)) = Inr acc"
    using casing by (auto simp: check_casing_def res_simps)
  from casing_ok [OF this] show "inj_on to_ascii_lowercase (directories flat)"
    by (auto simp: inj_on_def directories_def)
qed

lemma relinked_tree:
  assumes inv: "tree_inv inventory files" and flat: "flat = sort_key sdk_file_path (map snd files)"
    and run: "opt_map (relink sha flat) flat = Some (Inr out)"
  shows "map outline out = map outline flat" and "\<forall>g \<in> set out. sdk_file_sound sha inventory out g"
proof -
  have placed: "\<exists>k. placed inventory (k, f)" if "f \<in> set flat" for f
    using that inv by (auto simp: flat tree_inv_def)
  then have all: "\<forall>h \<in> set flat. normal_path (sdk_file_path h)" by (auto simp: placed_def)
  have pair: "outline g = outline f \<and> sdk_file_sound sha inventory flat g"
    if f: "f \<in> set flat" and g: "relink sha flat f = Some (Inr g)" for f g
  proof -
    obtain k e where e: "e \<in> set inventory" "copied_from f e" and k: "normal_path (sdk_file_path f)" "\<not> reserved_top (sdk_file_path f)"
      using placed [OF f] by (auto simp: placed_def)
    note same = relink_Inr [OF g e(2) k(1) all]
    then have "sdk_file_sound sha inventory flat g"
      using e k unfolding sdk_file_sound_def by (intro conjI bexI [OF _ e(1)]) (simp_all add: copied_from_def)
    then show ?thesis using same by (simp add: outline_def)
  qed
  have rel: "list_all2 (\<lambda>f g. outline g = outline f \<and> sdk_file_sound sha inventory flat g) flat out"
    using run pair unfolding opt_map_Inr by (auto elim!: list.rel_mono_strong)
  have "list_all2 (\<lambda>f g. outline f = outline g) flat out" using rel by (rule list_all2_mono) simp
  then have same: "map outline out = map outline flat" by (induction rule: list_all2_induct) simp_all
  then show "map outline out = map outline flat" .
  have "sdk_file_sound sha inventory out = sdk_file_sound sha inventory flat"
    unfolding sdk_file_sound_def [abs_def] link_installed_def [abs_def] leads_to_outline [OF same] ..
  then show "\<forall>g \<in> set out. sdk_file_sound sha inventory out g"
    using rel by (auto simp: list_all2_conv_all_nth in_set_conv_nth)
qed

lemma sdk_files_sound:
  assumes "sdk_files_of sha inventory install = Some (Inr out)"
  shows "sdk_tree_sound sha inventory install out"
proof -
  obtain files where run: "opt_fold (install_mapping_step (inventory_index inventory)) [] install = Some (Inr files)"
    and parents: "for_each (check_no_parent files) (bt_keys files) = Inr ()"
    and casing: "check_casing (sort_key sdk_file_path (map snd files)) = Inr ()"
    and links: "opt_map (relink sha (sort_key sdk_file_path (map snd files))) (sort_key sdk_file_path (map snd files)) = Some (Inr out)"
    using assms by (auto simp: sdk_files_of_def opt_then_Inr Let_def)
  let ?flat = "sort_key sdk_file_path (map snd files)"
  note inv = install_all(1) [OF run]
  note tree = installed_tree [OF inv parents refl casing]
  note out = relinked_tree [OF inv refl links]
  have paths: "map sdk_file_path out = map sdk_file_path ?flat" by (rule outline_paths [OF out(1)])
  have keys: "map (\<lambda>f. to_ascii_lowercase (sdk_file_path f)) out = map (\<lambda>f. to_ascii_lowercase (sdk_file_path f)) ?flat"
    using arg_cong [OF paths, of "map to_ascii_lowercase"] by (simp add: comp_def)
  have "(\<lambda>f. to_ascii_lowercase (sdk_file_path f)) ` set out = (\<lambda>f. to_ascii_lowercase (sdk_file_path f)) ` set ?flat"
    using arg_cong [OF keys, of set] by simp
  then have disjoint: "\<forall>f \<in> set out. to_ascii_lowercase (sdk_file_path f) \<notin> set SDK_ROOTS \<union> to_ascii_lowercase ` directories out"
    using tree(2) unfolding outline_directories [OF out(1)] by (metis (no_types, lifting) imageE imageI)
  have sources: "(\<exists>f \<in> set out. sdk_source f = s)" if "holds_source s files" for s
  proof -
    have "s \<in> fst ` outline ` set ?flat" using that by (force simp: holds_source_def outline_def)
    also have "outline ` set ?flat = outline ` set out" using out(1) by (metis list.set_map)
    finally show ?thesis by (auto simp: outline_def)
  qed
  show ?thesis
    unfolding sdk_tree_sound_def
  proof (intro conjI)
    show "distinct (map (\<lambda>f. to_ascii_lowercase (sdk_file_path f)) out)" using tree(1) unfolding keys .
    show "inj_on to_ascii_lowercase (directories out)" using tree(3) unfolding outline_directories [OF out(1)] .
    show "\<forall>m \<in> set install. \<exists>source. sdk_portable (rinst_source m) = Inr source
        \<and> (\<forall>e \<in> set inventory. at_or_below (component_prefix (rinst_component m) @ source) (mfile_path (inv_file e))
             \<longrightarrow> (\<exists>f \<in> set out. sdk_source f = mfile_path (inv_file e)))"
      using install_all(2) [OF run] sources by meson
  qed (use out(2) disjoint in auto)
qed

lemma relink_total:
  assumes "copied_from f e" "starts_with (component_prefix (inv_component e)) (mfile_path (inv_file e))"
  shows "relink sha files f \<noteq> None"
  using assms by (auto simp: relink_def Let_def copied_from_def starts_with_def split: option.splits)

lemma sdk_files_total:
  assumes "\<forall>e \<in> set inventory. starts_with (component_prefix (inv_component e)) (mfile_path (inv_file e))"
  shows "sdk_files_of sha inventory install \<noteq> None"
proof -
  have "opt_map (relink sha flat) (sort_key sdk_file_path (map snd files)) \<noteq> None"
    if run: "opt_fold (install_mapping_step (inventory_index inventory)) [] install = Some (Inr files)" for files flat
  proof (rule opt_map_total)
    fix f assume "f \<in> set (sort_key sdk_file_path (map snd files))"
    then obtain e where "e \<in> set inventory" "copied_from f e"
      using install_all(1) [OF run] by (auto simp: tree_inv_def placed_def)
    then show "relink sha flat f \<noteq> None" using relink_total assms by blast
  qed
  then show ?thesis
    unfolding sdk_files_of_def Let_def by (intro opt_then_total install_total) (simp_all del: not_None_eq)
qed

text \<open>
  C11. The layout of an SDK never panics on a sound inventory.  Each of its files is an inventory
  entry at another path, which stays below the tree and outside its reserved directories; paths
  are distinct up to case and no file is a directory of another; a link leads to where the thing
  its original named was installed; and every entry at or below a source of the composition is
  installed.
\<close>

theorem sdk_layout_sound:
  assumes "\<forall>e \<in> set inventory. starts_with (component_prefix (inv_component e)) (mfile_path (inv_file e))"
  shows "sdk_derive sha inventory resolved \<noteq> None
     \<and> (\<forall>layout. sdk_derive sha inventory resolved = Some (Inr layout)
          \<longrightarrow> sdk_tree_sound sha inventory (resolved_install_of resolved) (layout_files layout))"
proof (intro conjI allI impI)
  show "sdk_derive sha inventory resolved \<noteq> None"
    unfolding sdk_derive_def by (intro opt_then_total sdk_files_total [OF assms]) simp
  fix layout assume "sdk_derive sha inventory resolved = Some (Inr layout)"
  then show "sdk_tree_sound sha inventory (resolved_install_of resolved) (layout_files layout)"
    by (auto simp: sdk_derive_def opt_then_Inr res_simps intro: sdk_files_sound)
qed


section \<open>Activation\<close>

definition known_operation :: "string \<Rightarrow> bool" where
  "known_operation op \<longleftrightarrow> op \<in> {''set'', ''prepend'', ''append''}"

lemma known_set: "known_operation ''set''"
  by (simp add: known_operation_def)

definition known_operations :: "path_contribution list \<Rightarrow> bool" where
  "known_operations env \<longleftrightarrow> (\<forall>c \<in> set env. known_operation (pathc_operation c))"

lemma sdk_environment_known:
  assumes run: "sdk_environment inventory resolved os = Inr env"
    and ops: "\<forall>c \<in> set (resolved_environment_of resolved). known_operation (renv_operation c)"
  shows "known_operations env"
proof -
  obtain declared sets where declared: "try_fold (contribution_step (inventory_index inventory) (resolved_components resolved)) ([], [])
        (resolved_environment_of resolved) = Inr (declared, sets)"
    and added: "try_fold sdk_path_step (declared @ python_contributions inventory resolved)
        [(''PATH'', ''bin''), (loader_key os, ''lib''), (''PYTHONPATH'', ''python''), (''NODE_PATH'', ''node''),
         (''PXR_PLUGINPATH_NAME'', ''plugins''), (''CMAKE_PREFIX_PATH'', [])] = Inr env"
    using run by (auto simp: sdk_environment_def res_simps)
  have "known_operations (fst (declared, sets))"
  proof (rule try_fold_invariant [OF declared])
    fix s c s' assume "known_operations (fst s)" "contribution_step (inventory_index inventory) (resolved_components resolved) s c = Inr s'"
      "c \<in> set (resolved_environment_of resolved)"
    then show "known_operations (fst s')"
      using ops by (cases s) (auto simp: contribution_step_def known_operations_def known_set Let_def res_simps split: if_splits option.splits)
  qed (simp add: known_operations_def)
  then have "known_operations (declared @ python_contributions inventory resolved)"
    by (auto simp: known_operations_def known_operation_def python_contributions_def prepend_contribution_def
        List.map_filter_def split: if_splits)
  then show ?thesis
  proof (rule try_fold_invariant [OF added])
    fix s c s' assume "known_operations s" "sdk_path_step s c = Inr s'"
    then show "known_operations s'"
      by (cases c) (auto simp: sdk_path_step_def known_operations_def known_operation_def prepend_contribution_def split: if_splits)
  qed
qed

lemma activate_step_total: "known_operation (pathc_operation c) \<Longrightarrow> \<exists>acc'. activate_step root sep acc c = Inr acc'"
  unfolding activate_step_def Let_def known_operation_def by auto

lemma activate_total: "known_operations env \<Longrightarrow> \<exists>acc'. try_fold (activate_step root sep) acc env = Inr acc'"
proof (induction env arbitrary: acc)
  case (Cons c env)
  then have "known_operation (pathc_operation c)" by (simp add: known_operations_def)
  then obtain acc1 where "activate_step root sep acc c = Inr acc1" using activate_step_total by blast
  then show ?case using Cons by (auto simp: known_operations_def)
qed simp

text \<open>A derived layout can be activated on every system, below any prefix without separators.\<close>

lemma derived_layout_activates:
  assumes derive: "sdk_derive sha inventory resolved = Some (Inr layout)"
    and ops: "\<forall>c \<in> set (resolved_environment_of resolved). known_operation (renv_operation c)"
    and root: "set root \<inter> {CHR '';'', CHR '':'', CHR 0x00, CHR 0x0A, CHR 0x0D} = {}"
  shows "\<exists>e. sdk_activate layout root os = Inr e"
proof -
  have "\<exists>env. sdk_environment inventory resolved os = Inr env
      \<and> bt_get (layout_environment layout) (os_as_str os) = Some env"
    using derive by (cases os) (auto simp: sdk_derive_def opt_then_Inr res_simps)
  then obtain env where env: "bt_get (layout_environment layout) (os_as_str os) = Some env" "known_operations env"
    using sdk_environment_known ops by blast
  obtain acc where "try_fold (activate_step root (path_sep os)) [] env = Inr acc" using activate_total [OF env(2)] by blast
  then show ?thesis using env(1) root by (auto simp: sdk_activate_def Let_def list_ex_iff)
qed

section \<open>A sample\<close>

definition sample_inventory :: "inventory_entry list" where
  "sample_inventory = map (\<lambda>(path, link).
     \<lparr> inv_component = ''usd'', inv_artifact = ''sha256:ab'',
       inv_file = \<lparr> mfile_path = ''components/usd/'' @ path, mfile_sha256 = ''cd'', mfile_size = 9,
         mfile_link_target = link, mfile_executable = False \<rparr> \<rparr>)
     [(''Lib/usd.so.1'', None), (''Lib/usd.so'', Some ''usd.so.1''), (''tools/libs'', Some ''../Lib''),
      (''Lib-notes'', None)]"

definition sample_sdk :: resolved_composition where
  "sample_sdk = \<lparr> resolved_schema = [], resolved_name = ''sdk'', resolved_target = ''linux-x86_64-py313'',
     resolved_manifest_digest = [], resolved_composition_digest = [],
     resolved_components = [\<lparr> rcomp_id = ''usd'', rcomp_kind = ''runtime'', rcomp_version = ''1.0'',
       rcomp_digest = ''sha256:ab'', rcomp_target = ''linux-x86_64-py313'' \<rparr>],
     resolved_providers = [], resolved_environment_of = [],
     resolved_install_of = map (\<lambda>(from_dir, to_dir). \<lparr> rinst_destination = to_dir, rinst_component = ''usd'',
       rinst_artifact = ''sha256:ab'', rinst_source = from_dir \<rparr>) [(''Lib'', ''Lib''), (''./tools'', ''bin'')],
     resolved_conflicts = [] \<rparr>"

lemma map_result: "map_option (map_sum id f) r = Some (Inr v) \<longleftrightarrow> (\<exists>x. r = Some (Inr x) \<and> f x = v)"
  by (cases r; cases "the r") auto

theorem sdk_layout_sound_witness:
  "\<exists>layout. sdk_derive (\<lambda>_. [0]) sample_inventory sample_sdk = Some (Inr layout)
     \<and> map (\<lambda>f. (sdk_file_path f, mfile_link_target (sdk_target f))) (layout_files layout)
         = [(''bin/libs'', Some ''../lib''), (''lib/usd.so'', Some ''usd.so.1''), (''lib/usd.so.1'', None)]
     \<and> sdk_tree_sound (\<lambda>_. [0]) sample_inventory (resolved_install_of sample_sdk) (layout_files layout)"
proof -
  have ok: "\<forall>e \<in> set sample_inventory. starts_with (component_prefix (inv_component e)) (mfile_path (inv_file e))"
    by code_simp
  have "map_option (map_sum id (\<lambda>layout. map (\<lambda>f. (sdk_file_path f, mfile_link_target (sdk_target f))) (layout_files layout)))
      (sdk_derive (\<lambda>_. [0]) sample_inventory sample_sdk)
    = Some (Inr [(''bin/libs'', Some ''../lib''), (''lib/usd.so'', Some ''usd.so.1''), (''lib/usd.so.1'', None)])"
    by code_simp
  then obtain layout where run: "sdk_derive (\<lambda>_. [0]) sample_inventory sample_sdk = Some (Inr layout)"
    and paths: "map (\<lambda>f. (sdk_file_path f, mfile_link_target (sdk_target f))) (layout_files layout)
       = [(''bin/libs'', Some ''../lib''), (''lib/usd.so'', Some ''usd.so.1''), (''lib/usd.so.1'', None)]"
    by (simp only: map_result) (erule exE, erule conjE, rule that)
  have "sdk_tree_sound (\<lambda>_. [0]) sample_inventory (resolved_install_of sample_sdk) (layout_files layout)"
    using sdk_layout_sound [OF ok, of "\<lambda>_. [0]" sample_sdk] run by simp
  with run paths show ?thesis by (intro exI conjI)
qed

end
