(* ===== verification/CompositionLocks.thy ===== *)
theory CompositionLocks
  imports SdkSoundness
begin

text \<open>
  The lock of a composition (ost-formation/src/composition_lock.rs): what is pinned, the portable
  manifest, the identity digest, and the validation that rebuilds the lock from its parts.
\<close>

section \<open>Data\<close>

definition COMPOSITION_LOCK_SCHEMA :: string where
  "COMPOSITION_LOCK_SCHEMA = ''openstrata.runtime-composition-lock/v1alpha1''"

definition canonical_json_digest :: "('a \<Rightarrow> string + byte list) \<Rightarrow> (byte list \<Rightarrow> byte list) \<Rightarrow> 'a \<Rightarrow> string res" where
  "canonical_json_digest to_vec sha v =
     (case to_vec v of
        Inl e \<Rightarrow> Inl (Operation (''cannot serialize composition identity: '' @ e))
      | Inr bytes \<Rightarrow> Inr (sha256_hex sha bytes))"

record locked_artifact =
  locked_manifest_digest :: string
  locked_record :: artifact_record

definition normalized_record :: "artifact_record \<Rightarrow> artifact_record" where
  "normalized_record r =
     r\<lparr>record_created_unix := 0, record_imported_by := [], record_source := Imported, record_trust := Local\<rparr>"

definition locked_artifact_new ::
  "('a \<Rightarrow> string + byte list) \<Rightarrow> (byte list \<Rightarrow> byte list) \<Rightarrow> artifact_record \<Rightarrow> 'a \<Rightarrow> locked_artifact res"
where
  "locked_artifact_new to_vec sha r manifest =
     and_then (canonical_json_digest to_vec sha manifest) (\<lambda>digest.
       Inr \<lparr> locked_manifest_digest = digest, locked_record = normalized_record r \<rparr>)"

record composition_dependency =
  cdep_consumer :: string
  cdep_capability :: string
  cdep_provider :: string
  cdep_digest :: string

definition cdep_key :: "composition_dependency \<Rightarrow> string \<times> string \<times> string \<times> string" where
  "cdep_key d = (cdep_consumer d, cdep_capability d, cdep_provider d, cdep_digest d)"

record composition_lock =
  clock_schema :: string
  clock_manifest :: composition_manifest
  clock_resolved :: resolved_composition
  clock_artifacts :: "locked_artifact list"
  clock_dependencies :: "composition_dependency list"
  clock_inventory :: "inventory_entry list"
  clock_sdk :: "sdk_layout option"
  clock_runtime_digest :: string

text \<open>What the digest of a lock covers; its JSON is an argument.\<close>

record artifact_identity =
  aid_digest :: string
  aid_component :: "component_contract option"
  aid_target :: string
  aid_openusd :: "compatibility option"
  aid_source_identity :: "source_identity option"
  aid_dependencies :: "dependency_identity list"

record lock_identity =
  idoc_schema :: string
  idoc_manifest :: composition_manifest
  idoc_resolved :: resolved_composition
  idoc_artifacts :: "artifact_identity list"
  idoc_dependencies :: "composition_dependency list"
  idoc_inventory :: "inventory_entry list"
  idoc_layout :: string
  idoc_sdk :: "sdk_layout option"

record lock_codec =
  lc_composition :: composition_encoder
  lc_identity :: "lock_identity \<Rightarrow> string + byte list"

abbreviation lc_sha :: "lock_codec \<Rightarrow> byte list \<Rightarrow> byte list" where
  "lc_sha cd \<equiv> enc_sha (lc_composition cd)"

section \<open>Building a lock\<close>

definition lock_invalid :: "string \<Rightarrow> error" where
  "lock_invalid message = composition_error ''COMPOSITION_LOCK_INVALID'' message"

definition requirement_step ::
  "resolved_composition \<Rightarrow> string \<Rightarrow> composition_dependency list \<Rightarrow> capability_requirement
     \<Rightarrow> (composition_dependency list) res"
where
  "requirement_step resolved consumer deps r =
     (case find (\<lambda>p. rprov_capability p = requirement_capability r) (resolved_providers resolved) of
        None \<Rightarrow> Inl (lock_invalid ''missing locked provider'')
      | Some p \<Rightarrow> Inr (deps @ [\<lparr> cdep_consumer = consumer, cdep_capability = requirement_capability r,
            cdep_provider = rprov_component p, cdep_digest = rprov_digest p \<rparr>]))"

definition locked_contract :: "locked_artifact list \<Rightarrow> string \<Rightarrow> component_contract option" where
  "locked_contract artifacts digest =
     Option.bind (find (\<lambda>a. record_digest (locked_record a) = digest) artifacts) (\<lambda>a. record_component (locked_record a))"

definition component_step ::
  "resolved_composition \<Rightarrow> locked_artifact list \<Rightarrow> composition_dependency list \<Rightarrow> resolved_component
     \<Rightarrow> (composition_dependency list) res"
where
  "component_step resolved artifacts deps c =
     (case locked_contract artifacts (rcomp_digest c) of
        None \<Rightarrow> Inl (lock_invalid ''missing locked component'')
      | Some contract \<Rightarrow> try_fold (requirement_step resolved (rcomp_id c)) deps (contract_requires contract))"

definition lock_dependencies :: "resolved_composition \<Rightarrow> locked_artifact list \<Rightarrow> (composition_dependency list) res" where
  "lock_dependencies resolved artifacts =
     and_then (try_fold (component_step resolved artifacts) [] (resolved_components resolved)) (\<lambda>deps.
       Inr (remdups_adj (sort_key cdep_key deps)))"

text \<open>The canonical manifest with the sources of the artifacts kept.\<close>

definition restore_source :: "composition_manifest \<Rightarrow> composition_artifact_ref \<Rightarrow> composition_artifact_ref" where
  "restore_source m a =
     a\<lparr>ref_source := Option.bind (find (\<lambda>x. ref_artifact x = ref_artifact a) (manifest_artifacts m)) ref_source\<rparr>"

definition portable_manifest :: "composition_manifest \<Rightarrow> composition_manifest" where
  "portable_manifest m =
     (canonical m)\<lparr>manifest_artifacts := map (restore_source m) (manifest_artifacts (canonical m))\<rparr>"

definition identity_step :: "string btree_set \<Rightarrow> resolved_component \<Rightarrow> (string btree_set) res" where
  "identity_step ids c =
     (if ends_with ''.'' (rcomp_id c) \<or> to_ascii_lowercase (rcomp_id c) \<in> set ids
      then Inl (composition_error ''COMPOSITION_INVENTORY_INVALID'' ''component prefixes collide or use a nonportable id'')
      else Inr (bs_insert (to_ascii_lowercase (rcomp_id c)) ids))"

definition inventory_step ::
  "resolved_component list \<Rightarrow> string btree_set \<Rightarrow> inventory_entry \<Rightarrow> (string btree_set) res"
where
  "inventory_step rcs paths e =
     (case find (\<lambda>c. rcomp_id c = inv_component e \<and> rcomp_digest c = inv_artifact e) rcs of
        None \<Rightarrow> Inl (lock_invalid ''inventory has an unknown owner'')
      | Some c \<Rightarrow>
          (let path = mfile_path (inv_file e) in
           if \<not> starts_with (component_prefix (rcomp_id c)) path \<or> CHR 0x5C \<in> set path \<or> CHR '':'' \<in> set path
              \<or> list_ex (\<lambda>part. part = [] \<or> part = ''.'' \<or> part = ''..'') (split_on slash path)
              \<or> to_ascii_lowercase path \<in> set paths
           then Inl (composition_error ''COMPOSITION_INVENTORY_INVALID''
                  (''unsafe or colliding inventory path '' @ quoted path))
           else and_then (validate_full_digest ''inventory file'' (mfile_sha256 (inv_file e))) (\<lambda>_.
                  Inr (bs_insert (to_ascii_lowercase path) paths))))"

definition validate_inventory :: "composition_lock \<Rightarrow> unit res" where
  "validate_inventory lock =
     and_then (try_fold identity_step [] (resolved_components (clock_resolved lock))) (\<lambda>_.
     and_then (try_fold (inventory_step (resolved_components (clock_resolved lock))) [] (clock_inventory lock)) (\<lambda>_.
       Inr ()))"

definition identity_of :: "composition_lock \<Rightarrow> lock_identity" where
  "identity_of lock =
     \<lparr> idoc_schema = clock_schema lock, idoc_manifest = canonical (clock_manifest lock), idoc_resolved = clock_resolved lock,
       idoc_artifacts = map (\<lambda>a. let r = locked_record a in
         \<lparr> aid_digest = record_digest r, aid_component = record_component r, aid_target = record_target r,
           aid_openusd = record_openusd r, aid_source_identity = record_source_identity r,
           aid_dependencies = record_dependencies r \<rparr>) (clock_artifacts lock),
       idoc_dependencies = clock_dependencies lock, idoc_inventory = clock_inventory lock,
       idoc_layout = (if clock_sdk lock = None then ''component-prefixes/v1'' else ''runtime-sdk/v1''),
       idoc_sdk = clock_sdk lock \<rparr>"

definition lock_digest :: "lock_codec \<Rightarrow> composition_lock \<Rightarrow> string res" where
  "lock_digest cd lock = canonical_json_digest (lc_identity cd) (lc_sha cd) (identity_of lock)"

definition lock_parts ::
  "composition_manifest \<Rightarrow> locked_artifact list \<Rightarrow> inventory_entry list \<Rightarrow> resolved_composition
     \<Rightarrow> composition_lock res"
where
  "lock_parts m artifacts inventory resolved =
     and_then (lock_dependencies resolved artifacts) (\<lambda>deps.
       let lock = \<lparr> clock_schema = COMPOSITION_LOCK_SCHEMA, clock_manifest = portable_manifest m,
             clock_resolved = resolved, clock_artifacts = artifacts, clock_dependencies = deps,
             clock_inventory = inventory, clock_sdk = None, clock_runtime_digest = [] \<rparr>
       in and_then (validate_inventory lock) (\<lambda>_. Inr lock))"

definition normalized_artifacts :: "locked_artifact list \<Rightarrow> locked_artifact list" where
  "normalized_artifacts artifacts =
     sort_key (\<lambda>a. record_digest (locked_record a))
       (map (\<lambda>a. a\<lparr>locked_record := normalized_record (locked_record a)\<rparr>) artifacts)"

definition seal_lock :: "lock_codec \<Rightarrow> composition_lock \<Rightarrow> composition_lock res" where
  "seal_lock cd lock = and_then (lock_digest cd lock) (\<lambda>digest. Inr (lock\<lparr>clock_runtime_digest := digest\<rparr>))"

text \<open>\<^const>\<open>None\<close> is a panic of the resolution, or of the layout of the SDK.\<close>

definition lock_new ::
  "lock_codec \<Rightarrow> composition_manifest \<Rightarrow> locked_artifact list \<Rightarrow> inventory_entry list \<Rightarrow> (composition_lock res) option"
where
  "lock_new cd m artifacts inventory =
     (let artifacts = normalized_artifacts artifacts; inventory = sort_key (\<lambda>e. mfile_path (inv_file e)) inventory in
      opt_then (resolve_runtime_composition (lc_composition cd) m (map locked_record artifacts)) (\<lambda>resolved.
        Some (and_then (lock_parts m artifacts inventory resolved) (seal_lock cd))))"

definition lock_with_sdk :: "lock_codec \<Rightarrow> composition_lock \<Rightarrow> (composition_lock res) option" where
  "lock_with_sdk cd lock =
     opt_then (sdk_derive (lc_sha cd) (clock_inventory lock) (clock_resolved lock)) (\<lambda>layout.
       Some (seal_lock cd (lock\<lparr>clock_sdk := Some layout\<rparr>)))"

definition lock_validate :: "lock_codec \<Rightarrow> composition_lock \<Rightarrow> (unit res) option" where
  "lock_validate cd lock =
     (if clock_schema lock \<noteq> COMPOSITION_LOCK_SCHEMA then Some (Inl (lock_invalid ''unsupported composition lock schema''))
      else
     opt_then (Some (validate_full_digest ''runtime identity'' (clock_runtime_digest lock))) (\<lambda>_.
     opt_then (Some (for_each (\<lambda>a. validate_full_digest ''producer manifest identity'' (locked_manifest_digest a))
         (clock_artifacts lock))) (\<lambda>_.
     opt_then (lock_new cd (clock_manifest lock) (clock_artifacts lock) (clock_inventory lock)) (\<lambda>rebuilt.
     opt_then (if clock_sdk lock = None then Some (Inr rebuilt) else lock_with_sdk cd rebuilt) (\<lambda>rebuilt.
       Some (if rebuilt \<noteq> lock
         then Inl (composition_error ''COMPOSITION_LOCK_MISMATCH''
           ''lock does not match its canonical provider, compatibility, dependency or inventory decisions'')
         else Inr ()))))))"

section \<open>Only the canonical manifest matters\<close>

lemma sorted_map_remdups_adj: "sorted (map f xs) \<Longrightarrow> sorted (map f (remdups_adj xs))"
  by (induction xs rule: remdups_adj.induct) auto

lemma map_pair_key: "sort_key (\<lambda>(_, r). f r) (map (Pair a) xs) = map (Pair a) (sort_key f xs)"
proof (induction xs)
  case (Cons x xs)
  have "insort_key (\<lambda>(_, r). f r) (a, x) (map (Pair a) ys) = map (Pair a) (insort_key f x ys)" for ys
    by (induction ys) auto
  then show ?case using Cons by simp
qed simp

lemma canonical_queue: "map (Pair None) (manifest_requirements (canonical m)) = remdups_adj (initial_queue m)"
proof -
  have "initial_queue m = map (Pair None) (sort_key requirement_key (manifest_requirements m))"
    unfolding initial_queue_def by (rule map_pair_key)
  then show ?thesis by (simp add: canonical_def remdups_adj_map_injective inj_on_def)
qed

text \<open>A requirement of the manifest that has just been met is met again without a change.\<close>

lemma resolve_again:
  assumes "resolve_requirement m cs st (None, r) = Inr (st', new)"
  shows "resolve_requirement m cs st' (None, r) = Inr (st', [])"
proof -
  obtain pin where ok: "validate_requirement r = Inr ()" "requirement_pin m r = Inr pin"
    using assms by (auto simp: resolve_requirement_def res_simps)
  show ?thesis
  proof (cases "bt_get (sel_providers st) (requirement_capability r)")
    case (Some chosen)
    then show ?thesis using assms ok by (auto simp: resolve_requirement_def res_simps add_edge_def)
  next
    case None
    then obtain c p where choice: "choose_provider m cs r pin = Inr (c, p)" and st': "st' = select_provider None r (c, p) st"
      using assms ok by (auto simp: resolve_requirement_def res_simps)
    have "reuse_provider r pin (c, provision_version p) = Inr ()"
      using choose_provider_ok [OF choice]
      by (auto simp: reuse_provider_def require_version_def requirement_accepts_def res_simps split: option.splits)
    then show ?thesis
      using ok by (simp add: resolve_requirement_def st' select_provider_def add_edge_def)
  qed
qed

lemma resolve_loop_twice:
  "resolve_loop m cs ((None, r) # (None, r) # queue) st = resolve_loop m cs ((None, r) # queue) st"
proof (cases "resolve_requirement m cs st (None, r)")
  case (Inr v)
  then show ?thesis using resolve_again [of m cs st r "fst v" "snd v"] by (cases v) simp
qed simp

lemma resolve_loop_remdups:
  "\<forall>w \<in> set queue. fst w = None \<Longrightarrow>
     resolve_loop m cs (remdups_adj queue @ rest) st = resolve_loop m cs (queue @ rest) st"
proof (induction queue arbitrary: rest st rule: remdups_adj.induct)
  case (3 w v queue)
  show ?case
  proof (cases "w = v")
    case True
    obtain r where v: "v = (None, r)" using "3.prems" by (cases v) auto
    have "resolve_loop m cs (remdups_adj (v # queue) @ rest) st = resolve_loop m cs ((v # queue) @ rest) st"
      using "3.IH"(1) [OF True] "3.prems" True by simp
    then show ?thesis
      using resolve_loop_twice [of m cs r "queue @ rest" st] by (simp add: True v del: resolve_loop.simps)
  next
    case False
    then show ?thesis
      using "3.IH"(2) "3.prems" by (simp split: sum.split prod.split)
  qed
qed simp_all

lemma resolve_canonical_queue:
  "resolve_loop m cs (map (Pair None) (manifest_requirements (canonical m))) st = resolve_loop m cs (initial_queue m) st"
  unfolding canonical_queue using resolve_loop_remdups [of "initial_queue m" m cs "[]" st] by (simp add: initial_queue_def)

lemma load_candidates_canonical:
  assumes "canonical m' = canonical m"
  shows "load_candidates m' records = load_candidates m records"
proof -
  have refs: "sort (map ref_artifact (manifest_artifacts x)) = map ref_artifact (manifest_artifacts (canonical x))" for x
    by (rule properties_for_sort) (simp_all add: canonical_def multiset.map_comp comp_def)
  then have "mset (map ref_artifact (manifest_artifacts m')) = mset (map ref_artifact (manifest_artifacts m))"
    using assms by (metis mset_sort)
  then have same: "length (manifest_artifacts m') = length (manifest_artifacts m)"
      "set (map ref_artifact (manifest_artifacts m')) = set (map ref_artifact (manifest_artifacts m))"
    by (metis length_map size_mset, metis mset_eq_setD)
  have "admit_record (map ref_artifact (manifest_artifacts m')) = admit_record (map ref_artifact (manifest_artifacts m))"
    unfolding admit_record_def same(2) ..
  then show ?thesis unfolding load_candidates_def same(1) by simp
qed

lemma resolve_canonical:
  assumes valid: "manifest_validate m = Inr ()" "manifest_validate m' = Inr ()" and same: "canonical m' = canonical m"
  shows "resolve_runtime_composition enc m' records = resolve_runtime_composition enc m records"
proof -
  have fields: "manifest_name m' = manifest_name m" "manifest_target m' = manifest_target m"
      "manifest_providers m' = manifest_providers m"
    using arg_cong [OF same, of manifest_name] arg_cong [OF same, of manifest_target]
      arg_cong [OF same, of manifest_providers] by (simp_all add: canonical_def)
  have "resolve_loop m' cs (initial_queue m') st = resolve_loop m cs (initial_queue m) st" for cs st
    using resolve_loop_cong [OF fields(2,3)] resolve_canonical_queue [of m'] resolve_canonical_queue [of m] same by metis
  then have "select_components m' records = select_components m records"
    unfolding select_components_def valid fields load_candidates_canonical [OF same] by simp
  moreover have "finish_resolution enc m' = finish_resolution enc m"
    unfolding finish_resolution_def [abs_def] manifest_digest_def fields same ..
  ultimately show ?thesis unfolding resolve_runtime_composition_def by (simp only:)
qed

section \<open>A lock is rebuilt from its parts\<close>

lemma canonical_refs:
  "map ref_artifact (manifest_artifacts (canonical m)) = sort (map ref_artifact (manifest_artifacts m))"
  by (rule properties_for_sort [symmetric]) (simp_all add: canonical_def multiset.map_comp comp_def)

lemma canonical_artifact:
  "a \<in> set (manifest_artifacts (canonical m)) \<Longrightarrow> ref_source a = None \<and> ref_artifact a \<in> ref_artifact ` set (manifest_artifacts m)"
  by (auto simp: canonical_def)

lemma canonical_portable: "canonical (portable_manifest m) = canonical m"
proof -
  have artifacts: "map (\<lambda>a. a\<lparr>ref_source := None\<rparr>) (map (restore_source m) (manifest_artifacts (canonical m)))
      = manifest_artifacts (canonical m)"
    unfolding map_map by (rule map_idI) (auto dest: canonical_artifact simp: restore_source_def)
  have "sorted (map ref_artifact (manifest_artifacts (canonical m)))" unfolding canonical_refs by simp
  then have sorted: "sort_key ref_artifact (manifest_artifacts (canonical m)) = manifest_artifacts (canonical m)"
    by (rule sort_key_id_if_sorted)
  have "sorted (map requirement_key (manifest_requirements (canonical m)))"
    by (simp add: canonical_def sorted_map_remdups_adj)
  then have "sort_key requirement_key (manifest_requirements (canonical m)) = manifest_requirements (canonical m)"
    by (rule sort_key_id_if_sorted)
  moreover have "remdups_adj (manifest_requirements (canonical m)) = manifest_requirements (canonical m)"
    unfolding distinct_adj_altdef [symmetric] by (simp add: canonical_def)
  ultimately show ?thesis
    using artifacts sorted unfolding canonical_def [of "portable_manifest m"] by (simp add: portable_manifest_def)
qed

lemma restore_portable:
  assumes "a \<in> set (manifest_artifacts (canonical m))"
  shows "restore_source (portable_manifest m) a = restore_source m a"
proof -
  let ?all = "manifest_artifacts (canonical m)"
  have refs: "ref_artifact (restore_source m x) = ref_artifact x" for x by (simp add: restore_source_def)
  have "find (\<lambda>x. ref_artifact x = ref_artifact a) (map (restore_source m) ?all) \<noteq> None"
    using assms by (auto simp: find_None_iff refs)
  then obtain y where y: "find (\<lambda>x. ref_artifact x = ref_artifact a) (map (restore_source m) ?all) = Some y" by blast
  then obtain b where "y = restore_source m b" "ref_artifact b = ref_artifact a"
    by (auto simp: find_Some_iff refs)
  then have "ref_source y = Option.bind (find (\<lambda>x. ref_artifact x = ref_artifact a) (manifest_artifacts m)) ref_source"
    by (simp add: restore_source_def)
  then show ?thesis using y by (simp add: restore_source_def portable_manifest_def)
qed

lemma portable_idempotent: "portable_manifest (portable_manifest m) = portable_manifest m"
proof -
  have "map (restore_source (portable_manifest m)) (manifest_artifacts (canonical m))
      = map (restore_source m) (manifest_artifacts (canonical m))"
    by (rule map_cong) (simp_all add: restore_portable)
  then show ?thesis
    unfolding portable_manifest_def [of "portable_manifest m"] canonical_portable by (simp add: portable_manifest_def)
qed

lemma portable_valid:
  assumes "manifest_validate m = Inr ()"
  shows "manifest_validate (portable_manifest m) = Inr ()"
proof -
  note ok = assms [unfolded manifest_validate_ok]
  have refs: "map ref_artifact (manifest_artifacts (portable_manifest m)) = sort (map ref_artifact (manifest_artifacts m))"
    using canonical_refs [of m] by (simp add: portable_manifest_def restore_source_def comp_def)
  have "artifact_valid (restore_source m a)" if a: "a \<in> set (manifest_artifacts (canonical m))" for a
  proof -
    obtain x where x: "x \<in> set (manifest_artifacts m)" "ref_artifact a = ref_artifact x"
      using canonical_artifact [OF a] by blast
    show ?thesis
    proof (cases "find (\<lambda>x. ref_artifact x = ref_artifact a) (manifest_artifacts m)")
      case None
      then show ?thesis using x ok by (auto simp: artifact_valid_def restore_source_def check_source_def)
    next
      case (Some y)
      then have "y \<in> set (manifest_artifacts m)" by (auto simp: find_Some_iff)
      then show ?thesis using Some x ok by (auto simp: artifact_valid_def restore_source_def)
    qed
  qed
  then have "\<forall>a \<in> set (manifest_artifacts (portable_manifest m)). artifact_valid a" by (auto simp: portable_manifest_def)
  moreover have "distinct (map ref_artifact (manifest_artifacts (portable_manifest m)))"
    unfolding refs using ok by simp
  moreover have "manifest_artifacts (portable_manifest m) \<noteq> []"
    using arg_cong [OF refs, of length] ok by auto
  ultimately show ?thesis
    using ok unfolding manifest_validate_ok by (simp add: portable_manifest_def canonical_def flip: set_empty)
qed

lemma normalized_idempotent: "normalized_artifacts (normalized_artifacts artifacts) = normalized_artifacts artifacts"
proof -
  have "map (\<lambda>a. a\<lparr>locked_record := normalized_record (locked_record a)\<rparr>) (normalized_artifacts artifacts)
      = normalized_artifacts artifacts"
    by (rule map_idI) (auto simp: normalized_artifacts_def normalized_record_def)
  then show ?thesis
    unfolding normalized_artifacts_def [of "normalized_artifacts artifacts"]
    by (simp add: sort_key_id_if_sorted normalized_artifacts_def)
qed

lemma resolution_valid:
  assumes "resolve_runtime_composition enc m records = Some (Inr resolved)"
  shows "manifest_validate m = Inr ()"
  using resolution_selection [OF assms] by (auto simp: select_components_def res_simps)

lemma lock_new_Inr:
  "lock_new cd m artifacts inventory = Some (Inr lock) \<longleftrightarrow>
     (\<exists>resolved base.
        resolve_runtime_composition (lc_composition cd) m (map locked_record (normalized_artifacts artifacts)) = Some (Inr resolved)
        \<and> lock_parts m (normalized_artifacts artifacts) (sort_key (\<lambda>e. mfile_path (inv_file e)) inventory) resolved = Inr base
        \<and> seal_lock cd base = Inr lock)"
  by (auto simp: lock_new_def Let_def opt_then_Inr res_simps)

lemma lock_parts_Inr:
  "lock_parts m artifacts inventory resolved = Inr base \<Longrightarrow>
     clock_schema base = COMPOSITION_LOCK_SCHEMA \<and> clock_manifest base = portable_manifest m
     \<and> clock_artifacts base = artifacts \<and> clock_inventory base = inventory \<and> clock_sdk base = None
     \<and> validate_inventory base = Inr () \<and> clock_resolved base = resolved"
  by (auto simp: lock_parts_def Let_def res_simps)

lemma seal_lock_Inr:
  "seal_lock cd lock = Inr lock' \<Longrightarrow> \<exists>bytes. lock' = lock\<lparr>clock_runtime_digest := sha256_hex (lc_sha cd) bytes\<rparr>"
  by (auto simp: seal_lock_def lock_digest_def canonical_json_digest_def res_simps split: sum.splits)

lemma lock_new_parts:
  assumes "lock_new cd m artifacts inventory = Some (Inr lock)"
  shows "clock_schema lock = COMPOSITION_LOCK_SCHEMA" "clock_manifest lock = portable_manifest m"
    "clock_artifacts lock = normalized_artifacts artifacts"
    "clock_inventory lock = sort_key (\<lambda>e. mfile_path (inv_file e)) inventory"
    "clock_sdk lock = None" "validate_inventory lock = Inr ()"
    "\<exists>bytes. clock_runtime_digest lock = sha256_hex (lc_sha cd) bytes"
proof -
  obtain resolved base bytes where
    "lock_parts m (normalized_artifacts artifacts) (sort_key (\<lambda>e. mfile_path (inv_file e)) inventory) resolved = Inr base"
    and lock: "lock = base\<lparr>clock_runtime_digest := sha256_hex (lc_sha cd) bytes\<rparr>"
    using assms seal_lock_Inr unfolding lock_new_Inr by metis
  from lock_parts_Inr [OF this(1)] show "clock_schema lock = COMPOSITION_LOCK_SCHEMA"
    "clock_manifest lock = portable_manifest m" "clock_artifacts lock = normalized_artifacts artifacts"
    "clock_inventory lock = sort_key (\<lambda>e. mfile_path (inv_file e)) inventory"
    "clock_sdk lock = None" "validate_inventory lock = Inr ()"
    "\<exists>bytes. clock_runtime_digest lock = sha256_hex (lc_sha cd) bytes"
    unfolding lock by (auto simp: validate_inventory_def)
qed

lemma lock_rebuilt:
  assumes "lock_new cd m artifacts inventory = Some (Inr lock)"
  shows "lock_new cd (clock_manifest lock) (clock_artifacts lock) (clock_inventory lock) = Some (Inr lock)"
proof -
  obtain resolved base where resolved:
      "resolve_runtime_composition (lc_composition cd) m (map locked_record (normalized_artifacts artifacts)) = Some (Inr resolved)"
    and parts: "lock_parts m (normalized_artifacts artifacts) (sort_key (\<lambda>e. mfile_path (inv_file e)) inventory) resolved = Inr base"
    and seal: "seal_lock cd base = Inr lock"
    using assms unfolding lock_new_Inr by blast
  note valid = resolution_valid [OF resolved]
  have "resolve_runtime_composition (lc_composition cd) (portable_manifest m) (map locked_record (normalized_artifacts artifacts))
      = Some (Inr resolved)"
    using resolve_canonical [OF valid portable_valid [OF valid] canonical_portable] resolved by simp
  moreover have "lock_parts (portable_manifest m) = lock_parts m"
    unfolding lock_parts_def [abs_def] portable_idempotent ..
  ultimately show ?thesis
    unfolding lock_new_Inr lock_new_parts(2-4) [OF assms] normalized_idempotent
    using parts seal by (auto simp: sort_key_id_if_sorted)
qed

lemma sealed_full:
  assumes "\<forall>bytes. length (sha bytes) = 32"
  shows "full_digest (sha256_hex sha bytes)"
proof -
  have plain: "list_all (\<lambda>b. is_ascii_digit b \<or> byte_in (CHR ''a'') (CHR ''f'') b) ''0123456789abcdef''" by code_simp
  have "is_ascii_digit x \<or> byte_in (CHR ''a'') (CHR ''f'') x" if "x \<in> set (to_hex (sha bytes))" for x
  proof -
    have "x \<in> set ''0123456789abcdef''" using that hex_byte_digits unfolding to_hex_def by fastforce
    then show ?thesis using plain by (simp only: list_all_iff)
  qed
  then show ?thesis
    unfolding full_digest_def sha256_hex_def render_digest_def strip_prefix_append option.case
    using assms by (simp add: to_hex_length list_all_iff)
qed

definition entry_ok :: "resolved_component list \<Rightarrow> inventory_entry \<Rightarrow> bool" where
  "entry_ok rcs e \<longleftrightarrow>
     (\<exists>c \<in> set rcs. rcomp_id c = inv_component e \<and> rcomp_digest c = inv_artifact e)
     \<and> starts_with (component_prefix (inv_component e)) (mfile_path (inv_file e))
     \<and> normal_path (mfile_path (inv_file e)) \<and> CHR '':'' \<notin> set (mfile_path (inv_file e))
     \<and> full_digest (mfile_sha256 (inv_file e))"

interpretation identity_loop: unique_loop identity_step "\<lambda>c. \<not> ends_with ''.'' (rcomp_id c)" "\<lambda>c. to_ascii_lowercase (rcomp_id c)"
  by unfold_locales (auto simp: identity_step_def)

interpretation inventory_loop: unique_loop "inventory_step rcs" "entry_ok rcs" "\<lambda>e. to_ascii_lowercase (mfile_path (inv_file e))"
  for rcs
proof
  fix seen seen' and e :: inventory_entry
  let ?owner = "\<lambda>c. rcomp_id c = inv_component e \<and> rcomp_digest c = inv_artifact e"
  show "inventory_step rcs seen e = Inr seen' \<longleftrightarrow> entry_ok rcs e \<and> to_ascii_lowercase (mfile_path (inv_file e)) \<notin> set seen
      \<and> seen' = bs_insert (to_ascii_lowercase (mfile_path (inv_file e))) seen"
  proof (cases "find ?owner rcs")
    case None
    then have "\<not> (\<exists>c \<in> set rcs. ?owner c)" unfolding find_None_iff by blast
    then show ?thesis unfolding inventory_step_def None entry_ok_def by simp
  next
    case (Some c)
    then have "rcomp_id c = inv_component e" "\<exists>c \<in> set rcs. ?owner c" by (auto simp: find_Some_iff)
    then show ?thesis
      using Some by (auto simp: inventory_step_def entry_ok_def Let_def res_simps normal_path_def list_ex_iff
          validate_full_digest_def)
  qed
qed

definition inventory_sound :: "resolved_component list \<Rightarrow> inventory_entry list \<Rightarrow> bool" where
  "inventory_sound rcs inventory \<longleftrightarrow>
     distinct (map (\<lambda>c. to_ascii_lowercase (rcomp_id c)) rcs)
     \<and> (\<forall>e \<in> set inventory. entry_ok rcs e) \<and> distinct (map (\<lambda>e. to_ascii_lowercase (mfile_path (inv_file e))) inventory)"

lemma validate_inventory_ok:
  "validate_inventory lock = Inr () \<Longrightarrow> inventory_sound (resolved_components (clock_resolved lock)) (clock_inventory lock)"
  using identity_loop.loop_from_empty inventory_loop.loop_from_empty
  by (fastforce simp: validate_inventory_def inventory_sound_def res_simps)

lemma inventory_prefixes:
  "validate_inventory lock = Inr () \<Longrightarrow> e \<in> set (clock_inventory lock) \<Longrightarrow>
     starts_with (component_prefix (inv_component e)) (mfile_path (inv_file e))"
  using validate_inventory_ok by (auto simp: inventory_sound_def entry_ok_def)

lemma rebuilt_validates:
  assumes sha: "\<forall>bytes. length (lc_sha cd bytes) = 32"
    and artifacts: "\<forall>a \<in> set (clock_artifacts lock). full_digest (locked_manifest_digest a)"
    and new: "lock_new cd (clock_manifest lock) (clock_artifacts lock) (clock_inventory lock) = Some (Inr base)"
    and lock: "if clock_sdk lock = None then lock = base else lock_with_sdk cd base = Some (Inr lock)"
  shows "lock_validate cd lock = Some (Inr ())"
proof -
  have "clock_schema lock = COMPOSITION_LOCK_SCHEMA" "\<exists>bytes. clock_runtime_digest lock = sha256_hex (lc_sha cd) bytes"
    using lock lock_new_parts(1,7) [OF new] by (auto simp: lock_with_sdk_def opt_then_Inr dest!: seal_lock_Inr split: if_splits)
  moreover have "full_digest (clock_runtime_digest lock)" using calculation(2) sealed_full [OF sha] by auto
  moreover have "for_each (\<lambda>a. validate_full_digest ''producer manifest identity'' (locked_manifest_digest a)) (clock_artifacts lock) = Inr ()"
    using artifacts by (auto simp: res_simps validate_full_digest_def)
  ultimately show ?thesis
    using new lock by (auto simp: lock_validate_def opt_then_def validate_full_digest_def split: if_splits)
qed

lemma new_lock_validates:
  assumes sha: "\<forall>bytes. length (lc_sha cd bytes) = 32"
    and artifacts: "\<forall>a \<in> set artifacts. full_digest (locked_manifest_digest a)"
    and new: "lock_new cd m artifacts inventory = Some (Inr lock)"
  shows "lock_validate cd lock = Some (Inr ())
     \<and> lock_with_sdk cd lock \<noteq> None
     \<and> (\<forall>lock'. lock_with_sdk cd lock = Some (Inr lock') \<longrightarrow> lock_validate cd lock' = Some (Inr ()))"
proof (intro conjI allI impI)
  note rebuilt = lock_rebuilt [OF new]
  have digests: "\<forall>a \<in> set (clock_artifacts lock). full_digest (locked_manifest_digest a)"
    using artifacts by (auto simp: lock_new_parts(3) [OF new] normalized_artifacts_def)
  show "lock_validate cd lock = Some (Inr ())"
    by (rule rebuilt_validates [OF sha digests rebuilt]) (simp add: lock_new_parts(5) [OF new])
  have "sdk_files_of (lc_sha cd) (clock_inventory lock) (resolved_install_of (clock_resolved lock)) \<noteq> None"
    using inventory_prefixes [OF lock_new_parts(6) [OF new]] by (intro sdk_files_total) blast
  then show "lock_with_sdk cd lock \<noteq> None"
    unfolding lock_with_sdk_def sdk_derive_def by (intro opt_then_total) simp_all
  fix lock' assume sdk: "lock_with_sdk cd lock = Some (Inr lock')"
  then obtain layout bytes where lock': "lock' = lock\<lparr>clock_sdk := Some layout, clock_runtime_digest := sha256_hex (lc_sha cd) bytes\<rparr>"
    by (auto simp: lock_with_sdk_def opt_then_Inr dest!: seal_lock_Inr)
  show "lock_validate cd lock' = Some (Inr ())"
    by (rule rebuilt_validates [OF sha, where base = lock]) (use digests rebuilt sdk in \<open>simp_all add: lock'\<close>)
qed


text \<open>
  C9. A lock that was built validates, without its SDK and with it: the checks rebuild exactly the
  lock from the portable manifest, the normalised artifacts and the inventory it stores.  Adding
  the SDK to a lock never panics.
\<close>

theorem lock_validates:
  assumes sha: "\<forall>bytes. length (lc_sha cd bytes) = 32"
    and artifacts: "\<forall>a \<in> set artifacts. full_digest (locked_manifest_digest a)"
    and new: "lock_new cd m artifacts inventory = Some (Inr lock)"
  shows "lock_validate cd lock = Some (Inr ())
     \<and> lock_with_sdk cd lock \<noteq> None
     \<and> (\<forall>lock'. lock_with_sdk cd lock = Some (Inr lock') \<longrightarrow> lock_validate cd lock' = Some (Inr ()))"
  by (rule new_lock_validates [OF assms])

text \<open>
  What a lock that validates holds is what the resolver says about its manifest and artifacts now.
\<close>

lemma sealed_digest:
  "seal_lock cd base = Inr lock \<Longrightarrow> lock_digest cd lock = Inr (clock_runtime_digest lock)
     \<and> (\<exists>digest. lock = base\<lparr>clock_runtime_digest := digest\<rparr>)"
  by (auto simp: seal_lock_def lock_digest_def identity_of_def res_simps)

lemma lock_parts_dependencies:
  "lock_parts m artifacts inventory resolved = Inr base \<Longrightarrow>
     lock_dependencies resolved artifacts = Inr (clock_dependencies base)"
  by (auto simp: lock_parts_def Let_def res_simps)

definition lock_true :: "lock_codec \<Rightarrow> composition_lock \<Rightarrow> bool" where
  "lock_true cd lock \<longleftrightarrow>
     resolve_runtime_composition (lc_composition cd) (clock_manifest lock) (map locked_record (clock_artifacts lock))
       = Some (Inr (clock_resolved lock))
     \<and> lock_dependencies (clock_resolved lock) (clock_artifacts lock) = Inr (clock_dependencies lock)
     \<and> portable_manifest (clock_manifest lock) = clock_manifest lock
     \<and> normalized_artifacts (clock_artifacts lock) = clock_artifacts lock
     \<and> sorted (map (\<lambda>e. mfile_path (inv_file e)) (clock_inventory lock))
     \<and> inventory_sound (resolved_components (clock_resolved lock)) (clock_inventory lock)
     \<and> (\<forall>layout. clock_sdk lock = Some layout \<longrightarrow>
          sdk_derive (lc_sha cd) (clock_inventory lock) (clock_resolved lock) = Some (Inr layout))
     \<and> lock_digest cd lock = Inr (clock_runtime_digest lock)"

lemma lock_new_true:
  assumes new: "lock_new cd (clock_manifest lock) (clock_artifacts lock) (clock_inventory lock) = Some (Inr base)"
    and lock: "if clock_sdk lock = None then lock = base else lock_with_sdk cd base = Some (Inr lock)"
  shows "lock_true cd lock"
proof -
  obtain resolved parts where
    resolved: "resolve_runtime_composition (lc_composition cd) (clock_manifest lock)
        (map locked_record (normalized_artifacts (clock_artifacts lock))) = Some (Inr resolved)"
    and parts: "lock_parts (clock_manifest lock) (normalized_artifacts (clock_artifacts lock))
        (sort_key (\<lambda>e. mfile_path (inv_file e)) (clock_inventory lock)) resolved = Inr parts"
    and seal: "seal_lock cd parts = Inr base"
    using new unfolding lock_new_Inr by blast
  obtain digest where base: "base = parts\<lparr>clock_runtime_digest := digest\<rparr>" using sealed_digest [OF seal] by blast
  have full: "lock_digest cd lock = Inr (clock_runtime_digest lock)
      \<and> (\<exists>sdk digest. lock = parts\<lparr>clock_sdk := sdk, clock_runtime_digest := digest\<rparr>
           \<and> (\<forall>layout. sdk = Some layout \<longrightarrow> sdk_derive (lc_sha cd) (clock_inventory parts) (clock_resolved parts) = Some (Inr layout)))"
  proof (cases "clock_sdk lock")
    case None
    then have "lock = parts\<lparr>clock_sdk := None, clock_runtime_digest := digest\<rparr>"
      using lock lock_parts_Inr [OF parts] by (simp add: base)
    then show ?thesis using None lock sealed_digest [OF seal] by auto
  next
    case (Some layout)
    then obtain layout' where derive: "sdk_derive (lc_sha cd) (clock_inventory parts) (clock_resolved parts) = Some (Inr layout')"
      and again: "seal_lock cd (base\<lparr>clock_sdk := Some layout'\<rparr>) = Inr lock"
      using lock by (auto simp: lock_with_sdk_def opt_then_Inr base)
    obtain d where "lock = parts\<lparr>clock_sdk := Some layout', clock_runtime_digest := d\<rparr>"
      using sealed_digest [OF again] by (auto simp: base)
    then show ?thesis using derive sealed_digest [OF again] by auto
  qed
  then obtain sdk d where digest: "lock_digest cd lock = Inr (clock_runtime_digest lock)"
    and eq: "lock = parts\<lparr>clock_sdk := sdk, clock_runtime_digest := d\<rparr>"
    and derive: "\<forall>layout. sdk = Some layout \<longrightarrow> sdk_derive (lc_sha cd) (clock_inventory parts) (clock_resolved parts) = Some (Inr layout)"
    by blast
  note fields = lock_parts_Inr [OF parts]
  have artifacts: "normalized_artifacts (clock_artifacts lock) = clock_artifacts lock"
    using fields by (simp add: eq normalized_idempotent)
  have "clock_inventory lock = sort_key (\<lambda>e. mfile_path (inv_file e)) (clock_inventory lock)" using fields by (simp add: eq)
  then have "sorted (map (\<lambda>e. mfile_path (inv_file e)) (clock_inventory lock))" by (metis sorted_sort_key)
  moreover have "validate_inventory lock = validate_inventory parts" by (simp add: eq validate_inventory_def)
  then have "inventory_sound (resolved_components (clock_resolved lock)) (clock_inventory lock)"
    using fields validate_inventory_ok by simp
  moreover have "clock_resolved lock = resolved" "portable_manifest (clock_manifest lock) = clock_manifest lock"
    using fields by (simp_all add: eq portable_idempotent)
  moreover have "lock_dependencies resolved (clock_artifacts lock) = Inr (clock_dependencies lock)"
    using lock_parts_dependencies [OF parts] artifacts by (simp add: eq)
  ultimately show ?thesis
    using resolved digest derive artifacts unfolding lock_true_def by (simp add: eq)
qed

text \<open>
  C10. A lock that validates, whoever wrote it, tells the truth: its resolution, dependencies and
  SDK are what its manifest, artifacts and inventory give, its manifest and artifacts are in
  their portable form, its inventory is sound and its digest is that of its contents.
\<close>

theorem validated_lock_true:
  assumes "lock_validate cd lock = Some (Inr ())"
  shows "lock_true cd lock"
proof -
  obtain base where "lock_new cd (clock_manifest lock) (clock_artifacts lock) (clock_inventory lock) = Some (Inr base)"
    "if clock_sdk lock = None then lock = base else lock_with_sdk cd base = Some (Inr lock)"
    using assms by (auto simp: lock_validate_def opt_then_Inr split: if_splits)
  then show ?thesis by (rule lock_new_true)
qed

text \<open>
  Where the artifacts were found, and when and by whom they were imported, is no part of the identity.
\<close>

lemma identity_ignores_acquisition:
  assumes "lock_new cd m artifacts inventory = Some (Inr lock)" "lock_new cd m' artifacts' inventory = Some (Inr lock')"
    and "canonical m' = canonical m" "normalized_artifacts artifacts' = normalized_artifacts artifacts"
  shows "clock_runtime_digest lock' = clock_runtime_digest lock"
proof -
  obtain resolved base where resolved:
      "resolve_runtime_composition (lc_composition cd) m (map locked_record (normalized_artifacts artifacts)) = Some (Inr resolved)"
    and parts: "lock_parts m (normalized_artifacts artifacts) (sort_key (\<lambda>e. mfile_path (inv_file e)) inventory) resolved = Inr base"
    and seal: "seal_lock cd base = Inr lock"
    using assms(1) unfolding lock_new_Inr by blast
  obtain resolved' base' where resolved':
      "resolve_runtime_composition (lc_composition cd) m' (map locked_record (normalized_artifacts artifacts)) = Some (Inr resolved')"
    and parts': "lock_parts m' (normalized_artifacts artifacts) (sort_key (\<lambda>e. mfile_path (inv_file e)) inventory) resolved' = Inr base'"
    and seal': "seal_lock cd base' = Inr lock'"
    using assms(2) unfolding lock_new_Inr assms(4) by blast
  have "resolved' = resolved"
    using resolve_canonical [OF resolution_valid [OF resolved] resolution_valid [OF resolved'] assms(3)] resolved resolved'
    by simp
  then have "identity_of base' = identity_of base"
    using lock_parts_Inr [OF parts] lock_parts_Inr [OF parts'] lock_parts_dependencies [OF parts] lock_parts_dependencies [OF parts']
    by (simp add: identity_of_def canonical_portable assms(3))
  then show ?thesis using seal seal' by (auto simp: seal_lock_def lock_digest_def res_simps)
qed


section \<open>A sample lock\<close>

definition sample_lock_codec :: lock_codec where
  "sample_lock_codec = \<lparr> lc_composition = sample_encoder\<lparr>enc_sha := \<lambda>_. replicate 32 0\<rparr>, lc_identity = \<lambda>_. Inr [] \<rparr>"

definition sample_artifacts :: "locked_artifact list" where
  "sample_artifacts = map (\<lambda>r. \<lparr> locked_manifest_digest = ''sha256:'' @ replicate 64 (CHR ''1''), locked_record = r \<rparr>)
     [runtime_record, plugin_record]"

definition sample_entry :: "string \<Rightarrow> artifact_record \<Rightarrow> string \<Rightarrow> inventory_entry" where
  "sample_entry component r path =
     \<lparr> inv_component = component, inv_artifact = record_digest r,
       inv_file = \<lparr> mfile_path = component_prefix component @ path, mfile_sha256 = ''sha256:'' @ replicate 64 (CHR ''2''),
         mfile_size = 7, mfile_link_target = None, mfile_executable = False \<rparr> \<rparr>"

definition sample_locked_files :: "inventory_entry list" where
  "sample_locked_files =
     [sample_entry ''usd-raster'' plugin_record ''lib/raster.so'', sample_entry ''openusd'' runtime_record ''lib/libusd.so'']"

lemma sample_locks:
  "case lock_new sample_lock_codec sample_manifest sample_artifacts sample_locked_files of
     Some (Inr lock) \<Rightarrow>
       (case lock_with_sdk sample_lock_codec lock of
          Some (Inr lock') \<Rightarrow> map sdk_file_path (layout_files (the (clock_sdk lock')))
            = [''lib/libusd.so'', ''lib/usd-raster/raster.so'']
        | _ \<Rightarrow> False)
   | _ \<Rightarrow> False"
  by code_simp

lemma case_success: "(case r of Some (Inr x) \<Rightarrow> P x | _ \<Rightarrow> False) \<longleftrightarrow> (\<exists>x. r = Some (Inr x) \<and> P x)"
  by (cases r; cases "the r") auto

lemma sample_locked:
  obtains lock lock' where
    "lock_new sample_lock_codec sample_manifest sample_artifacts sample_locked_files = Some (Inr lock)"
    "lock_with_sdk sample_lock_codec lock = Some (Inr lock')"
    "map sdk_file_path (layout_files (the (clock_sdk lock'))) = [''lib/libusd.so'', ''lib/usd-raster/raster.so'']"
  using sample_locks unfolding case_success by (elim exE conjE) (rule that)

lemma sample_lock_facts:
  "\<forall>bytes. length (lc_sha sample_lock_codec bytes) = 32"
  "\<forall>a \<in> set sample_artifacts. full_digest (locked_manifest_digest a)"
proof -
  show "\<forall>bytes. length (lc_sha sample_lock_codec bytes) = 32" by (simp add: sample_lock_codec_def sample_encoder_def)
  show "\<forall>a \<in> set sample_artifacts. full_digest (locked_manifest_digest a)" by code_simp
qed

theorem lock_validates_witness:
  "\<exists>lock lock'. lock_new sample_lock_codec sample_manifest sample_artifacts sample_locked_files = Some (Inr lock)
     \<and> lock_validate sample_lock_codec lock = Some (Inr ())
     \<and> lock_with_sdk sample_lock_codec lock = Some (Inr lock') \<and> lock_validate sample_lock_codec lock' = Some (Inr ())"
proof -
  obtain lock lock' where new: "lock_new sample_lock_codec sample_manifest sample_artifacts sample_locked_files = Some (Inr lock)"
    and sdk: "lock_with_sdk sample_lock_codec lock = Some (Inr lock')"
    by (rule sample_locked)
  from lock_validates [OF sample_lock_facts new] new sdk show ?thesis by blast
qed

theorem validated_lock_true_witness:
  "\<exists>lock. lock_true sample_lock_codec lock \<and> clock_sdk lock \<noteq> None
     \<and> map sdk_file_path (layout_files (the (clock_sdk lock))) = [''lib/libusd.so'', ''lib/usd-raster/raster.so'']"
proof -
  obtain lock lock' where new: "lock_new sample_lock_codec sample_manifest sample_artifacts sample_locked_files = Some (Inr lock)"
    and sdk: "lock_with_sdk sample_lock_codec lock = Some (Inr lock')"
    and paths: "map sdk_file_path (layout_files (the (clock_sdk lock'))) = [''lib/libusd.so'', ''lib/usd-raster/raster.so'']"
    by (rule sample_locked)
  have "lock_validate sample_lock_codec lock' = Some (Inr ())"
    using new_lock_validates [OF sample_lock_facts new] sdk by blast
  then have "lock_true sample_lock_codec lock'" by (rule validated_lock_true)
  moreover have "clock_sdk lock' \<noteq> None"
    using sdk by (auto simp: lock_with_sdk_def opt_then_Inr dest!: seal_lock_Inr)
  ultimately show ?thesis using paths by (intro exI conjI)
qed

end
