(* ===== verification/Spec2Isabelle.thy ===== *)
theory Spec2Isabelle
  imports Hosts Templates Versions Extensions References Components Policies ConsumerArchive
    Leases CompositionResults WorkspaceOrder ArchiveEntries MachOFloors
    Platforms Evidence TargetMutex TransportSamples Projects CompositionLocks
begin

text \<open>
  Verification of the OpenStrata libraries.

  OpenStrata is a workspace of Rust crates behind one command line program.  It resolves
  platforms, profiles and extensions into a runtime, builds and packages runtimes and plugins,
  publishes and imports their artifacts, and composes installed artifacts into a formation.
  This development models the decision logic of the libraries under
  \<^verbatim>\<open>src/crates\<close>; the command line (\<^verbatim>\<open>ost-cli\<close>) calls these libraries and is outside.

  \<^bold>\<open>How the parts interact.\<close>  Every crate reports failures as the one error type of ost-core
  (\<^verbatim>\<open>Errors\<close>), loads documents through its catalog loader (\<^verbatim>\<open>Catalogs\<close>) and checks
  relative paths before joining them to a directory (\<^verbatim>\<open>Paths\<close>).  ost-extension turns a
  profile's capability requests into a closed set of extensions (\<^verbatim>\<open>Extensions\<close>).  ost-plugin
  loads plugin bundles (\<^verbatim>\<open>PluginManifests\<close>), compares versions against ranges
  (\<^verbatim>\<open>Versions\<close>) and validates whole workspaces (\<^verbatim>\<open>Workspaces\<close>).  ost-build
  takes a lease on its target directory (\<^verbatim>\<open>Leases\<close>), measures the binaries it built
  (\<^verbatim>\<open>SymbolFloors\<close>, \<^verbatim>\<open>MachOFloors\<close>) and writes wheels
  (\<^verbatim>\<open>ConsumerArchive\<close>).  ost-artifact decides what may be published
  (\<^verbatim>\<open>Policies\<close>), which remote reference is meant (\<^verbatim>\<open>References\<close>), whether an
  archive may be extracted and is what its manifest lists (\<^verbatim>\<open>ArchiveEntries\<close>), what
  component contract an artifact carries (\<^verbatim>\<open>Components\<close>), what a producer manifest
  establishes and which evidence goes with it (\<^verbatim>\<open>Records\<close>, \<^verbatim>\<open>Evidence\<close>), and
  which OpenUSD identity it has under its platform (\<^verbatim>\<open>Compatibility\<close>, \<^verbatim>\<open>Platforms\<close>).
  A pull (\<^verbatim>\<open>Transports\<close>) verifies a fetched distribution (\<^verbatim>\<open>PullChain\<close>) and imports it into the
  content-addressed store (\<^verbatim>\<open>ArtifactStore\<close>), which publishes through the atomic file
  helpers of ost-core (\<^verbatim>\<open>FileSystem\<close>).  A project manifest (\<^verbatim>\<open>Projects\<close>) names the
  platform and the workspace; a runtime is entered through the environment that activates it
  (\<^verbatim>\<open>RuntimeEnv\<close>).  ost-formation resolves a
  composition from those contracts, with the version ranges of ost-plugin
  (\<^verbatim>\<open>Compositions\<close>, \<^verbatim>\<open>CompositionResolver\<close>), lays the locked inventory out as an SDK tree
  (\<^verbatim>\<open>SdkLayouts\<close>) and pins the result in a lock (\<^verbatim>\<open>CompositionLocks\<close>).

  \<^bold>\<open>Conventions.\<close>  A struct is a record, an enum a datatype.  A \<^verbatim>\<open>Result\<close> is a sum with
  \<open>Inl\<close> for the error, so every early return is a branch; \<^verbatim>\<open>?\<close> is \<open>and_then\<close>.  A
  call that could panic (an \<^verbatim>\<open>expect\<close>, a subtraction below zero, an index out of range)
  has the value \<open>None\<close> in an option around the result, and the theorems that speak of such a
  function show that \<open>None\<close> is not reached.  A \<^verbatim>\<open>str\<close> is the list of its UTF-8 bytes, a
  \<^verbatim>\<open>BTreeMap\<close> the list of its entries in key order, an integer whose width matters a word or a
  natural number with its bound checked where the code checks it.

  \<^bold>\<open>Theories.\<close>
  \<^item> \<^verbatim>\<open>Prelude\<close>: results, strings and ordered maps, with the locales \<open>ordered_map\<close>
    (what a lookup returns after an insert) and \<open>unique_loop\<close> (a validation loop that
    rejects duplicates); \<^verbatim>\<open>Paths\<close>: path components and the locale \<open>path_guard\<close>.
  \<^item> \<^verbatim>\<open>Errors\<close> (ost-core/src/error.rs), \<^verbatim>\<open>Hosts\<close> (host.rs, variant.rs),
    \<^verbatim>\<open>Catalogs\<close> (catalog.rs), \<^verbatim>\<open>Templates\<close> (template.rs),
    \<^verbatim>\<open>Encodings\<close> (digest.rs, and the codecs of policy.rs and consumer_archive.rs).
  \<^item> \<^verbatim>\<open>Extensions\<close> (ost-extension/src/resolve.rs, model.rs): the state of a resolution is the
    record of enabled extensions, edges and packages that \<open>resolve_step\<close> threads; the lemmas
    show that it is closed, answers the requests in order and is certified.
  \<^item> \<^verbatim>\<open>Versions\<close> (ost-plugin/src/version.rs), \<^verbatim>\<open>PluginManifests\<close> (model.rs,
    library.rs, tool.rs, imaging.rs, bundle.rs), \<^verbatim>\<open>DepthFirst\<close>, \<^verbatim>\<open>Workspaces\<close>
    (workspace.rs).  \<^verbatim>\<open>DepthFirst\<close> relates the recursive walks to paths of the graph: the
    post-order and the three-colour cycle search with its stack.  \<^verbatim>\<open>WorkspaceSoundness\<close>
    shows what a passed report guarantees, \<^verbatim>\<open>WorkspaceOrder\<close> that the report is a function
    of the set of members.
  \<^item> \<^verbatim>\<open>References\<close> (ost-artifact/src/reference.rs), \<^verbatim>\<open>Components\<close> (component.rs),
    \<^verbatim>\<open>Policies\<close> (policy.rs), \<^verbatim>\<open>ArchiveEntries\<close> (the entry checks of store.rs).
  \<^item> \<^verbatim>\<open>Documents\<close> (JSON values and pointers), \<^verbatim>\<open>Compatibility\<close> (the OpenUSD identity
    and its selector, ost-platform/src/model.rs), \<^verbatim>\<open>Platforms\<close> (model.rs, openusd.rs,
    loader.rs, diff.rs), \<^verbatim>\<open>ArtifactRecords\<close> and \<^verbatim>\<open>Records\<close>
    (ost-artifact/src/record.rs: the record derived from a manifest), \<^verbatim>\<open>Evidence\<close>
    (evidence.rs: SBOM and provenance, generated and verified).
  \<^item> \<^verbatim>\<open>FileSystem\<close> (ost-core/src/fs.rs): the file system of the model, whose operations may
    fail or end the process, and the atomic write and the staging directory on it.
  \<^item> \<^verbatim>\<open>OpenusdRequirement\<close> and \<^verbatim>\<open>PullChain\<close> (ost-artifact/src/transport/verify.rs):
    one definition per step of the chain, and what a distribution that passes it is.
  \<^item> \<^verbatim>\<open>ArtifactStore\<close> (ost-artifact/src/store.rs): the store's state is its directory;
    \<open>read_source\<close>, \<open>import_existing\<close> and \<open>import_fresh\<close> are the three parts of
    \<^verbatim>\<open>import\<close>.  \<^verbatim>\<open>StoreImports\<close> shows that a fresh import publishes a whole object or
    none, \<^verbatim>\<open>StoreGuarantees\<close> that the index is a map, that what was imported resolves, that
    a re-import keeps identities and that extraction and verification are exact;
    \<^verbatim>\<open>StoreSamples\<close> runs the store on a sample.
  \<^item> \<^verbatim>\<open>Transports\<close> (ost-artifact/src/transport/mod.rs, file.rs): a transport is a record
    of its methods; \<open>pull\<close> and \<open>push\<close> over any transport, and the transport of the local file
    system.  The lemmas show that a pull imports only the snapshot it verified and that a push
    publishes only what is true; \<^verbatim>\<open>TransportSamples\<close> pulls and pushes a sample.
  \<^item> \<^verbatim>\<open>Topology\<close>, \<^verbatim>\<open>Compositions\<close>, \<^verbatim>\<open>CompositionResolver\<close>
    (ost-formation/src/composition.rs): the state of a resolution is the record
    \<open>selection\<close> and a work list.  \<^verbatim>\<open>CompositionSoundness\<close> holds the invariant of
    the worklist and what a resolved composition promises; \<^verbatim>\<open>CompositionResults\<close> the
    installed paths and the independence of the order of the inputs.
  \<^item> \<^verbatim>\<open>SdkLayouts\<close> (ost-formation/src/composition_sdk.rs): \<open>sdk_files_of\<close> is the loop over the
    install mappings, the checks of the tree and the relinking, \<open>sdk_environment\<close> the contributions
    of one system; \<^verbatim>\<open>SdkSoundness\<close> shows what the tree is and that the indexed lookup finds
    exactly the entries below a directory.  \<^verbatim>\<open>CompositionLocks\<close> (composition_lock.rs): a
    lock, built and validated; the lemmas show that a resolution depends on its manifest only
    through the canonical form, so that a lock is rebuilt from what it stores.
  \<^item> \<^verbatim>\<open>Projects\<close> (ost-manifest/src/project.rs): the tables of a project manifest, their
    checks on loading, and the version a project resolves to; \<^verbatim>\<open>RuntimeEnv\<close>
    (ost-runtime/src/env.rs): the environment mutations of a runtime, resolved by the program and
    rendered for a shell, with a reader of POSIX shell assignments as the specification that the
    rendered text is held to.
  \<^item> \<^verbatim>\<open>Leases\<close> (ost-build/src/lease.rs): a step relation over the processes that contend for
    one target, with mutual exclusion by rule induction over the reachable states;
    \<^verbatim>\<open>TargetMutex\<close> shows that it refines an abstract mutex and that waiting processes
    get on.
  \<^item> \<^verbatim>\<open>ConsumerArchive\<close> (ost-build/src/consumer_archive.rs): the bytes of the ZIP and a
    reader that gives the entries back; \<^verbatim>\<open>SymbolFloors\<close> (glibc.rs) and
    \<^verbatim>\<open>MachOFloors\<close> (macho.rs): the streamed scans and what they find.

  \<^bold>\<open>Locales.\<close>  \<open>path_guard\<close> is interpreted on the path checkers of the program
  (template outputs, artifact paths, wheel entries, bundle paths, the paths of a project and of an SDK), so that containment is
  proved once; \<open>unique_loop\<close> on the validation loops of templates, contracts, policies,
  compositions, projects and locks; \<open>ordered_map\<close> on the sorted association lists of the model;
  \<open>error_builder\<close> on the builders of the error type; \<open>simulation\<close> on the lease protocol and the
  mutex; \<open>frame\<close> on the relation \<open>stays\<close> between the file systems before and after an operation,
  so that what an operation of the store leaves alone follows from its parts;
  \<open>snapshot_transport\<close>, what a pull relies on of a transport, on the local file system.

  \<^bold>\<open>Faults.\<close>  A state of \<^verbatim>\<open>FileSystem\<close> carries, for every operation to come, whether it
  fails, whether the process dies with it, and what a torn write or a torn removal leaves behind.
  The theorems about the file helpers and the store hold for every such choice.  A rename is
  atomic, and paths are compared as text: there are no links but the one the atomic write asks for.

  \<^bold>\<open>Bounds and fuel.\<close>  The rounds of Kahn's algorithm (\<open>topo_loop\<close>) are bounded by the number
  of components, because each round removes one; the resolution of a requirement list is a
  recursion whose measure counts the capabilities still without a provider.  The depth-first
  walks terminate by the number of unseen nodes.  A bounded wait for a lease is given as many
  rounds as its limit allows, and \<open>bounded_wait_ends\<close> shows that it returns within them.  The
  glibc scan reads 64 KiB at a time with a tail of 32 bytes, both as in the code.  A ZIP field
  of 32 bits that overflows switches to its ZIP64 record as in the code.

  \<^bold>\<open>Arguments of the model.\<close>  Code outside the repository is an argument: SHA-256 and CRC-32, the
  YAML, TOML and JSON readers and writers, the tar and zstd readers (their entries, or the error
  they report), the answers of the file system and of the operating system (reads, metadata,
  locks, clocks, process lookups), and the HTTP exchange that yields an identity token.  What a
  theorem relies on of them stands in its statement, for instance \<open>os_contract\<close> for the file lock.

  \<^bold>\<open>Not modelled.\<close>  The command line and its rendering; the registry client (HTTP) of the
  transports; the drivers of CMake, Python and external tools; the generated text of scaffolds
  and of CI workflows; the probes of installed tools and hosts; the formation of a
  single runtime and the consumer packages of ost-formation; the validation of an installed runtime; the edits of a
  project manifest in place, which rearrange a TOML document; the CI matrix.
\<close>

end
